(* ===== verification/Prelude.thy ===== *)
theory Prelude
  imports Main "HOL-Library.Word" "HOL-Library.Code_Target_Nat"
begin

text \<open>
  Byte strings and the parts of the C++ standard library the sources share.

  A \<open>std::string\<close> or \<open>std::string_view\<close> is a \<open>string\<close>, a list of 8-bit
  \<open>char\<close>s. \<open>substr\<close>, \<open>remove_prefix\<close> and \<open>remove_suffix\<close> are \<open>take\<close>,
  \<open>drop\<close> and \<open>butlast\<close>; \<open>find\<close> returns a position or \<open>None\<close> for \<open>npos\<close>.
  \<open>std::uint64_t\<close> is \<open>64 word\<close> wherever its wrap-around can matter, and the
  number of bytes held in memory is a \<open>nat\<close>. The character classes are those of
  the \<open>"C"\<close> locale, which the program never changes.
\<close>

type_synonym u8 = "8 word"
type_synonym u16 = "16 word"
type_synonym u32 = "32 word"
type_synonym u64 = "64 word"
type_synonym timestamp = int

named_theorems scan_simps "positions of characters and substrings"
named_theorems text_simps "trimming, case folding and numerals"

subsection \<open>Character classes\<close>

abbreviation byte :: "char \<Rightarrow> nat" where
  "byte c \<equiv> of_char c"

definition u8_of_char :: "char \<Rightarrow> u8" where
  "u8_of_char c = of_nat (of_char c)"

definition char_of_u8 :: "u8 \<Rightarrow> char" where
  "char_of_u8 w = char_of (unat w)"

definition in_range :: "nat \<Rightarrow> nat \<Rightarrow> char \<Rightarrow> bool" where
  "in_range lo hi c \<longleftrightarrow> lo \<le> byte c \<and> byte c \<le> hi"

definition is_ows :: "char \<Rightarrow> bool" where
  "is_ows c \<longleftrightarrow> c = CHR '' '' \<or> c = CHR 0x09"

definition isdigit :: "char \<Rightarrow> bool" where
  "isdigit c \<longleftrightarrow> in_range 48 57 c"

definition isalnum :: "char \<Rightarrow> bool" where
  "isalnum c \<longleftrightarrow> isdigit c \<or> in_range 65 90 c \<or> in_range 97 122 c"

definition tolower :: "char \<Rightarrow> char" where
  "tolower c = (if in_range 65 90 c then char_of (byte c + 32) else c)"

definition toupper :: "char \<Rightarrow> char" where
  "toupper c = (if in_range 97 122 c then char_of (byte c - 32) else c)"

abbreviation crlf :: string where
  "crlf \<equiv> [CHR 0x0D, CHR 0x0A]"

subsection \<open>Positions\<close>

fun index_of :: "('a \<Rightarrow> bool) \<Rightarrow> 'a list \<Rightarrow> nat option" where
  "index_of P [] = None"
| "index_of P (x # xs) = (if P x then Some 0 else map_option Suc (index_of P xs))"

definition find_char :: "char \<Rightarrow> string \<Rightarrow> nat option" where
  "find_char c s = index_of ((=) c) s"

definition find_char_from :: "char \<Rightarrow> string \<Rightarrow> nat \<Rightarrow> nat option" where
  "find_char_from c s pos = map_option ((+) pos) (find_char c (drop pos s))"

definition starts_with :: "string \<Rightarrow> string \<Rightarrow> bool" where
  "starts_with s pre \<longleftrightarrow> length pre \<le> length s \<and> take (length pre) s = pre"

fun find_str :: "string \<Rightarrow> string \<Rightarrow> nat option" where
  "find_str pat [] = (if pat = [] then Some 0 else None)"
| "find_str pat (x # xs) =
     (if starts_with (x # xs) pat then Some 0 else map_option Suc (find_str pat xs))"

definition find_str_from :: "string \<Rightarrow> string \<Rightarrow> nat \<Rightarrow> nat option" where
  "find_str_from pat s pos = map_option ((+) pos) (find_str pat (drop pos s))"

lemma index_of_None [simp]: "index_of P xs = None \<longleftrightarrow> (\<forall>x \<in> set xs. \<not> P x)"
  by (induction xs) auto

lemma index_of_Some:
  "index_of P xs = Some i \<longleftrightarrow> i < length xs \<and> P (xs ! i) \<and> (\<forall>j < i. \<not> P (xs ! j))"
proof (induction xs arbitrary: i)
  case Nil
  then show ?case by simp
next
  case (Cons x xs)
  show ?case
    by (cases i) (auto simp: Cons.IH less_Suc_eq_0_disj)
qed

lemma index_of_append [scan_simps]:
  "index_of P (xs @ ys) =
     (case index_of P xs of Some i \<Rightarrow> Some i | None \<Rightarrow> map_option ((+) (length xs)) (index_of P ys))"
proof (induction xs)
  case Nil
  show ?case by (cases "index_of P ys") (simp_all del: index_of_None)
next
  case (Cons x xs)
  then show ?case
    by (cases "index_of P xs"; cases "index_of P ys") (simp_all del: index_of_None)
qed

lemma char_of_u8_of_char [simp]: "char_of_u8 (u8_of_char c) = c"
proof -
  have "take_bit 8 (byte c) = byte c" by (simp add: take_bit_nat_eq_self_iff)
  then show ?thesis by (simp add: char_of_u8_def u8_of_char_def unsigned_of_nat)
qed

lemma u8_of_char_of_u8 [simp]: "u8_of_char (char_of_u8 w) = w"
proof -
  have "unat w < 256" using unsigned_less [of w, where 'a = nat] by simp
  then show ?thesis by (simp add: char_of_u8_def u8_of_char_def)
qed

lemma unat_u64: "n < 2 ^ 64 \<Longrightarrow> unat (of_nat n :: u64) = n"
  by (simp add: unsigned_of_nat take_bit_nat_eq_self)

lemma u64_eq_0: "n < 2 ^ 64 \<Longrightarrow> (of_nat n :: u64) = 0 \<longleftrightarrow> n = 0"
  using unat_u64 [of n] by auto

lemma unat_add_u64: "unat a + unat b < 2 ^ 64 \<Longrightarrow> unat (a + b) = unat a + unat (b :: u64)"
  by (simp add: unat_word_ariths)

lemma find_char_None [simp, scan_simps]: "find_char c s = None \<longleftrightarrow> c \<notin> set s"
  by (auto simp: find_char_def)

lemma find_char_absent [simp]: "c \<notin> set s \<Longrightarrow> find_char c s = None"
  by simp

lemma find_char_Some:
  "find_char c s = Some i \<longleftrightarrow> i < length s \<and> s ! i = c \<and> c \<notin> set (take i s)"
  by (auto simp: find_char_def index_of_Some in_set_conv_nth)

lemma find_char_split:
  assumes "find_char c s = Some i"
  shows "s = take i s @ c # drop (Suc i) s" and "c \<notin> set (take i s)" and "i < length s"
  using assms id_take_nth_drop [of i s] by (auto simp: find_char_Some)

lemma find_char_hit [scan_simps]: "c \<notin> set a \<Longrightarrow> find_char c (a @ c # b) = Some (length a)"
  by (simp add: find_char_Some)

lemma find_char_Cons [scan_simps]:
  "find_char c (x # xs) = (if c = x then Some 0 else map_option Suc (find_char c xs))"
  by (simp add: find_char_def)

lemma find_char_Nil [simp]: "find_char c [] = None"
  by simp

lemma starts_with_append [simp]: "starts_with (pre @ s) pre"
  by (simp add: starts_with_def)

lemma starts_with_iff: "starts_with s pre \<longleftrightarrow> (\<exists>t. s = pre @ t)"
  by (metis append_take_drop_id starts_with_append starts_with_def)

lemma starts_with_extend: "starts_with s pre \<Longrightarrow> starts_with (s @ t) pre"
  by (auto simp: starts_with_iff)

lemma starts_with_longer:
  "length pre \<le> length s \<Longrightarrow> starts_with (s @ t) pre = starts_with s pre"
  by (simp add: starts_with_def)

lemma find_str_Some:
  assumes "pat \<noteq> []"
  shows "find_str pat s = Some i \<longleftrightarrow>
    starts_with (drop i s) pat \<and> (\<forall>j < i. \<not> starts_with (drop j s) pat)"
proof (induction s arbitrary: i)
  case Nil
  with assms show ?case by (simp add: starts_with_def)
next
  case (Cons x xs)
  show ?case
    by (cases i) (auto simp: Cons.IH less_Suc_eq_0_disj)
qed

lemma find_str_None:
  assumes "pat \<noteq> []"
  shows "find_str pat s = None \<longleftrightarrow> (\<forall>j. \<not> starts_with (drop j s) pat)"
proof (induction s)
  case Nil
  with assms show ?case by (simp add: starts_with_def)
next
  case (Cons x xs)
  show ?case
  proof
    assume "find_str pat (x # xs) = None"
    then have "\<not> starts_with (x # xs) pat" and "\<forall>j. \<not> starts_with (drop j xs) pat"
      using Cons.IH by (auto split: if_splits)
    then show "\<forall>j. \<not> starts_with (drop j (x # xs)) pat"
      by (metis drop0 drop_Cons' drop_Suc_Cons)
  next
    assume *: "\<forall>j. \<not> starts_with (drop j (x # xs)) pat"
    then have "\<not> starts_with (x # xs) pat" by (metis drop0)
    moreover have "\<forall>j. \<not> starts_with (drop j xs) pat" using * by (metis drop_Suc_Cons)
    ultimately show "find_str pat (x # xs) = None" using Cons.IH by simp
  qed
qed

lemma find_str_bound:
  assumes "pat \<noteq> []" and "find_str pat s = Some i"
  shows "i + length pat \<le> length s"
proof -
  from assms have "starts_with (drop i s) pat" by (simp add: find_str_Some)
  then have "length pat \<le> length s - i" by (simp add: starts_with_def)
  moreover have "0 < length pat" using assms by simp
  ultimately show ?thesis by linarith
qed

lemma find_str_extend:
  assumes "pat \<noteq> []" and "find_str pat s = Some i"
  shows "find_str pat (s @ t) = Some i"
proof -
  have bound: "i + length pat \<le> length s" using assms by (rule find_str_bound)
  have "starts_with (drop j (s @ t)) pat = starts_with (drop j s) pat" if "j \<le> i" for j
    using bound that by (simp add: starts_with_longer)
  then show ?thesis
    using assms by (simp add: find_str_Some)
qed

lemma find_str_crlf [scan_simps]: "CHR 0x0D \<notin> set line \<Longrightarrow> find_str crlf (line @ crlf @ rest) = Some (length line)"
  by (induction line) (auto simp: starts_with_def)

lemma find_str_split:
  assumes "pat \<noteq> []" and "find_str pat s = Some i"
  shows "s = take i s @ pat @ drop (i + length pat) s"
proof -
  from assms have "starts_with (drop i s) pat" by (simp add: find_str_Some)
  then obtain r where r: "drop i s = pat @ r" by (auto simp: starts_with_iff)
  then have "drop (i + length pat) s = r" by (metis add.commute append_eq_conv_conj drop_drop)
  with r show ?thesis by (metis append_take_drop_id)
qed

lemma find_str_drop:
  assumes "pat \<noteq> []" and "find_str pat s = Some i" and "e \<le> i"
  shows "find_str pat (drop e s) = Some (i - e)"
  using assms by (simp add: find_str_Some add.commute)

lemma find_str_cut:
  assumes "pat \<noteq> []" and "find_str pat (s @ t) = Some i" and "i + length pat \<le> length s"
  shows "find_str pat s = Some i"
proof -
  have "starts_with (drop j (s @ t)) pat = starts_with (drop j s) pat" if "j \<le> i" for j
    using assms(3) that by (simp add: starts_with_longer)
  then show ?thesis using assms(1,2) by (simp add: find_str_Some)
qed

lemma find_str_unfound:
  assumes "pat \<noteq> []" and "find_str pat (s @ t) = Some i" and "find_str pat s = None"
  shows "length s < i + length pat" and "t \<noteq> []"
  using find_str_cut [OF assms(1,2)] assms by (auto simp: not_less [symmetric])

lemma find_str_same:
  assumes "pat \<noteq> []" and "find_str pat (s @ t) = Some i" and "find_str pat s = Some j"
  shows "j = i"
  using find_str_extend [OF assms(1,3), of t] assms(2) by simp

subsection \<open>Trimming and case folding\<close>

definition trim_ows :: "string \<Rightarrow> string" where
  "trim_ows s = rev (dropWhile is_ows (rev (dropWhile is_ows s)))"

definition lowercase :: "string \<Rightarrow> string" where
  "lowercase s = map tolower s"

definition uppercase :: "string \<Rightarrow> string" where
  "uppercase s = map toupper s"

definition equals_ignore_case :: "string \<Rightarrow> string \<Rightarrow> bool" where
  "equals_ignore_case l r \<longleftrightarrow> length l = length r \<and> (\<forall>(a, b) \<in> set (zip l r). tolower a = tolower b)"

lemma equals_ignore_case_iff [text_simps]:
  "equals_ignore_case l r \<longleftrightarrow> lowercase l = lowercase r"
  unfolding equals_ignore_case_def lowercase_def
  by (auto simp: list_eq_iff_nth_eq set_zip) blast

lemma equals_ignore_case_refl [simp]: "equals_ignore_case s s"
  by (simp add: text_simps)

lemma length_trim_ows: "length (trim_ows s) \<le> length s"
  unfolding trim_ows_def by (metis length_dropWhile_le length_rev order_trans)

lemma trim_ows_id:
  assumes "s \<noteq> [] \<Longrightarrow> \<not> is_ows (hd s) \<and> \<not> is_ows (last s)"
  shows "trim_ows s = s"
proof (cases s)
  case Nil
  then show ?thesis by (simp add: trim_ows_def)
next
  case (Cons x xs)
  with assms have hd: "dropWhile is_ows s = s" and last: "\<not> is_ows (last s)" by simp_all
  from last have "dropWhile is_ows (rev s) = rev s"
    using Cons by (metis dropWhile_eq_self_iff hd_rev list.distinct(1) rev_is_Nil_conv)
  with hd show ?thesis by (simp add: trim_ows_def)
qed

lemma trim_ows_no_ows: "(\<And>c. c \<in> set s \<Longrightarrow> \<not> is_ows c) \<Longrightarrow> trim_ows s = s"
  by (rule trim_ows_id) auto

lemma set_trim_ows: "set (trim_ows s) \<subseteq> set s"
  unfolding trim_ows_def by (auto dest!: set_dropWhileD)

lemma trim_ows_Cons_ows [simp]: "is_ows c \<Longrightarrow> trim_ows (c # s) = trim_ows s"
  by (simp add: trim_ows_def)

lemma trim_ows_ends:
  assumes "trim_ows s \<noteq> []"
  shows "\<not> is_ows (hd (trim_ows s)) \<and> \<not> is_ows (last (trim_ows s))"
proof -
  let ?d = "dropWhile is_ows s"
  let ?e = "dropWhile is_ows (rev ?d)"
  have ne: "?e \<noteq> []" using assms by (simp add: trim_ows_def)
  then have last: "\<not> is_ows (hd ?e)" by (rule hd_dropWhile)
  have "hd (rev ?e) = hd ?d"
  proof -
    have "rev ?d = takeWhile is_ows (rev ?d) @ ?e" by simp
    then have "?d = rev ?e @ rev (takeWhile is_ows (rev ?d))"
      by (metis rev_append rev_rev_ident)
    then show ?thesis using ne by (metis hd_append2 rev_is_Nil_conv)
  qed
  moreover have "\<not> is_ows (hd ?d)"
    using ne by (metis dropWhile.simps(1) hd_dropWhile rev.simps(1))
  ultimately show ?thesis
    using ne last by (simp add: trim_ows_def last_rev)
qed

lemma trim_ows_idem [simp]: "trim_ows (trim_ows s) = trim_ows s"
  by (rule trim_ows_id) (rule trim_ows_ends)

subsection \<open>Comma lists\<close>

function split_commas :: "string \<Rightarrow> string list" where
  "split_commas s =
     (if s = [] then []
      else case find_char CHR '','' s of
             None \<Rightarrow> [trim_ows s]
           | Some comma \<Rightarrow> trim_ows (take comma s) # split_commas (drop (comma + 1) s))"
  by pat_completeness auto
termination
  by (relation "measure length") auto

declare split_commas.simps [simp del]

lemma split_commas_Nil [simp]: "split_commas [] = []"
  by (simp add: split_commas.simps)

lemma split_commas_single [text_simps]:
  "s \<noteq> [] \<Longrightarrow> CHR '','' \<notin> set s \<Longrightarrow> split_commas s = [trim_ows s]"
  using find_char_None [of "CHR '',''" s] by (simp add: split_commas.simps [of s] del: find_char_None)

lemma split_commas_hit [text_simps]:
  "CHR '','' \<notin> set a \<Longrightarrow> split_commas (a @ CHR '','' # b) = trim_ows a # split_commas b"
  by (simp add: split_commas.simps [of "a @ _ # b"] find_char_hit)

subsection \<open>Numerals: std::from_chars and std::to_chars\<close>

definition digit_value :: "char \<Rightarrow> nat option" where
  "digit_value c =
     (if in_range 48 57 c then Some (byte c - 48)
      else if in_range 97 122 c then Some (byte c - 87)
      else if in_range 65 90 c then Some (byte c - 55)
      else None)"

definition is_digit :: "nat \<Rightarrow> char \<Rightarrow> bool" where
  "is_digit base c \<longleftrightarrow> (case digit_value c of None \<Rightarrow> False | Some d \<Rightarrow> d < base)"

definition numeral_value :: "nat \<Rightarrow> string \<Rightarrow> nat" where
  "numeral_value base ds = foldl (\<lambda>acc c. acc * base + the (digit_value c)) 0 ds"

text \<open>
  \<open>std::from_chars\<close> into an unsigned integer of \<open>w\<close> bits: the longest run of digits
  of the base; \<open>None\<close> for \<open>errc::invalid_argument\<close> (no digit) and
  \<open>errc::result_out_of_range\<close>, otherwise the value and the number of characters used.
\<close>

definition from_chars_unsigned :: "nat \<Rightarrow> nat \<Rightarrow> string \<Rightarrow> (nat \<times> nat) option" where
  "from_chars_unsigned w base s =
     (let ds = takeWhile (is_digit base) s; v = numeral_value base ds in
      if ds = [] then None else if v < 2 ^ w then Some (v, length ds) else None)"

text \<open>The signed variant accepts one leading minus sign; it is used for \<open>int\<close> at base ten.\<close>

definition from_chars_int :: "string \<Rightarrow> (int \<times> nat) option" where
  "from_chars_int s =
     (let neg = (s \<noteq> [] \<and> hd s = CHR ''-'');
          ds = takeWhile (is_digit 10) (if neg then tl s else s);
          v = (if neg then - int (numeral_value 10 ds) else int (numeral_value 10 ds)) in
      if ds = [] then None
      else if - (2 ^ 31) \<le> v \<and> v < 2 ^ 31 then Some (v, length ds + (if neg then 1 else 0))
      else None)"

fun to_chars :: "nat \<Rightarrow> nat \<Rightarrow> string" where
  "to_chars base n =
     (if base < 2 \<or> n < base then [char_of (if n < 10 then n + 48 else n + 87)]
      else to_chars base (n div base) @
           [char_of (if n mod base < 10 then n mod base + 48 else n mod base + 87)])"

declare to_chars.simps [simp del]

definition digit_char :: "nat \<Rightarrow> char" where
  "digit_char d = char_of (if d < 10 then d + 48 else d + 87)"

lemma digit_value_digit_char: "d < 36 \<Longrightarrow> digit_value (digit_char d) = Some d"
  by (auto simp: digit_value_def digit_char_def in_range_def)

lemma to_chars_unfold:
  "to_chars base n =
     (if base < 2 \<or> n < base then [digit_char n] else to_chars base (n div base) @ [digit_char (n mod base)])"
  by (simp add: to_chars.simps [of base n] digit_char_def)

lemma to_chars_not_Nil [simp]: "to_chars base n \<noteq> []"
  by (subst to_chars_unfold) simp

lemma is_digit_digit_char: "d < base \<Longrightarrow> base \<le> 36 \<Longrightarrow> is_digit base (digit_char d)"
  by (simp add: is_digit_def digit_value_digit_char)

lemma to_chars_digits:
  assumes "2 \<le> base" and "base \<le> 36"
  shows "c \<in> set (to_chars base n) \<Longrightarrow> is_digit base c"
proof (induction n rule: less_induct)
  case (less n)
  show ?case
  proof (cases "n < base")
    case True
    with less.prems assms show ?thesis
      by (subst (asm) to_chars_unfold) (simp add: is_digit_digit_char)
  next
    case False
    then have "n div base < n" using assms by (intro div_less_dividend) auto
    moreover have "is_digit base (digit_char (n mod base))"
      using assms by (simp add: is_digit_digit_char)
    moreover have "c \<in> set (to_chars base (n div base) @ [digit_char (n mod base)])"
      using less.prems assms False by (subst (asm) to_chars_unfold) simp
    ultimately show ?thesis
      using less.IH by auto
  qed
qed

lemma numeral_value_append:
  "numeral_value base (ds @ [c]) = numeral_value base ds * base + the (digit_value c)"
  by (simp add: numeral_value_def)

lemma numeral_value_to_chars:
  assumes "2 \<le> base" and "base \<le> 36"
  shows "numeral_value base (to_chars base n) = n"
proof (induction n rule: less_induct)
  case (less n)
  show ?case
  proof (cases "n < base")
    case True
    with assms show ?thesis
      by (subst to_chars_unfold) (simp add: numeral_value_def digit_value_digit_char)
  next
    case False
    then have "n div base < n" using assms by (intro div_less_dividend) auto
    moreover have "digit_value (digit_char (n mod base)) = Some (n mod base)"
      using assms mod_less_divisor [of base n] by (intro digit_value_digit_char) linarith
    ultimately show ?thesis
      using less assms False
      by (subst to_chars_unfold) (simp add: numeral_value_append div_mult_mod_eq)
  qed
qed

lemma takeWhile_to_chars:
  assumes "2 \<le> base" and "base \<le> 36" and "t = [] \<or> \<not> is_digit base (hd t)"
  shows "takeWhile (is_digit base) (to_chars base n @ t) = to_chars base n"
  using assms by (cases t) (auto simp: takeWhile_append to_chars_digits)

text \<open>
  The number parsers of the sources trim the text, refuse an empty one and demand that
  \<open>from_chars\<close> uses all of it; the result is a \<open>std::uint64_t\<close>.
\<close>

definition parse_unsigned :: "nat \<Rightarrow> string \<Rightarrow> u64 option" where
  "parse_unsigned base value =
     (let v = trim_ows value in
      if v = [] then None
      else case from_chars_unsigned 64 base v of
             None \<Rightarrow> None
           | Some (parsed, used) \<Rightarrow> if used = length v then Some (of_nat parsed) else None)"

text \<open>64-bit two's complement, for the signed counts of \<open>std::chrono\<close>.\<close>

definition i64 :: "int \<Rightarrow> int" where
  "i64 x = (x + 2 ^ 63) mod 2 ^ 64 - 2 ^ 63"

lemma i64_id: "- (2 ^ 63) \<le> x \<Longrightarrow> x < 2 ^ 63 \<Longrightarrow> i64 x = x"
  by (simp add: i64_def)

lemma i64_range: "- (2 ^ 63) \<le> i64 x \<and> i64 x < 2 ^ 63"
  using pos_mod_bound [of "2 ^ 64 :: int" "x + 2 ^ 63"] pos_mod_sign [of "2 ^ 64 :: int" "x + 2 ^ 63"]
  unfolding i64_def by simp



lemma is_digit_not_ows: "is_digit base c \<Longrightarrow> \<not> is_ows c"
  by (auto simp: is_ows_def is_digit_def digit_value_def in_range_def)

lemma digit_char_not_ows: "d < 36 \<Longrightarrow> \<not> is_ows (digit_char d)"
  using digit_value_digit_char [of d] is_digit_not_ows [of 36 "digit_char d"]
  by (simp add: is_digit_def)

lemma from_chars_to_chars [text_simps]:
  assumes "2 \<le> base" and "base \<le> 36" and "n < 2 ^ w"
  shows "from_chars_unsigned w base (to_chars base n) = Some (n, length (to_chars base n))"
proof -
  have "takeWhile (is_digit base) (to_chars base n) = to_chars base n"
    using takeWhile_to_chars [of base "[]" n] assms by simp
  then show ?thesis
    using assms by (simp add: from_chars_unsigned_def Let_def numeral_value_to_chars del: takeWhile_eq_all_conv)
qed

lemma to_chars_not_in: "\<not> is_digit base c \<Longrightarrow> 2 \<le> base \<Longrightarrow> base \<le> 36 \<Longrightarrow> c \<notin> set (to_chars base n)"
  using to_chars_digits by blast

lemma trim_to_chars [simp]: "2 \<le> base \<Longrightarrow> base \<le> 36 \<Longrightarrow> trim_ows (to_chars base n) = to_chars base n"
  by (rule trim_ows_no_ows) (meson is_digit_not_ows to_chars_digits)

lemma parse_unsigned_to_chars [text_simps]:
  "2 \<le> base \<Longrightarrow> base \<le> 36 \<Longrightarrow> n < 2 ^ 64 \<Longrightarrow> parse_unsigned base (to_chars base n) = Some (of_nat n)"
  by (simp add: parse_unsigned_def from_chars_to_chars)

subsection \<open>Sequences of operations\<close>

text \<open>
  The contract shared by the stateful components: a relation between the operations performed so far
  and the state, which holds initially and is kept by every operation.
\<close>

locale op_history =
  fixes step :: "'op \<Rightarrow> 'state \<Rightarrow> 'state" and init :: 'state
    and holds :: "'op list \<Rightarrow> 'state \<Rightarrow> bool"
  assumes start: "holds [] init"
    and keep: "holds ops s \<Longrightarrow> holds (ops @ [op]) (step op s)"
begin

lemma run: "holds ops (fold step ops init)"
  by (induction ops rule: rev_induct) (simp_all add: start keep)

lemma run_from: "holds ops s \<Longrightarrow> holds (ops @ more) (fold step more s)"
proof (induction more arbitrary: ops s)
  case (Cons op more)
  from Cons.IH [OF keep [OF Cons.prems], of op] show ?case by simp
qed simp

end

text \<open>A table of keys and values, as the components that look things up rely on it.\<close>

locale lookup_table =
  fixes empty :: 't and insert_at :: "'k \<Rightarrow> 'v \<Rightarrow> 't \<Rightarrow> 't" and find :: "'k \<Rightarrow> 't \<Rightarrow> 'v option"
  assumes find_empty: "find k empty = None"
    and find_insert: "find k (insert_at k' v t) = (if k = k' then Some v else find k t)"
begin

lemma find_fold: "find k (fold (\<lambda>(k, v). insert_at k v) kvs t) =
    (case map_of (rev kvs) k of None \<Rightarrow> find k t | Some v \<Rightarrow> Some v)"
proof (induction kvs arbitrary: t)
  case (Cons kv kvs)
  show ?case by (cases kv) (simp add: Cons find_insert map_add_def split: option.split)
qed simp

lemma latest_wins: "find k (fold (\<lambda>(k, v). insert_at k v) kvs empty) = map_of (rev kvs) k"
  by (simp add: find_fold find_empty split: option.split)

end

text \<open>The elements of a list at their first occurrences.\<close>

definition first_seen :: "'a list \<Rightarrow> 'a list" where
  "first_seen xs = rev (remdups (rev xs))"

lemma first_seen_Nil [simp]: "first_seen [] = []"
  by (simp add: first_seen_def)

lemma first_seen_snoc: "first_seen (xs @ [x]) = (if x \<in> set xs then first_seen xs else first_seen xs @ [x])"
  by (simp add: first_seen_def)

lemma first_seen_set [simp]: "set (first_seen xs) = set xs" "distinct (first_seen xs)"
  by (simp_all add: first_seen_def)

end
