(* ===== verification/Netbuf.thy ===== *)
theory Netbuf
  imports Prelude
begin

text \<open>
  \<open>net::Buffer\<close> (src/src/net/buffer.cpp, src/include/oklib/net/buffer.h): one vector of
  bytes with a reader and a writer index behind an eight-byte prependable area, and its
  refinement of a byte queue. The parsers are written over the readable bytes, which the
  laws below justify.
\<close>

record net_buffer =
  b_storage :: string
  b_reader :: nat
  b_writer :: nat

definition k_cheap_prepend :: nat where
  "k_cheap_prepend = 8"

definition buffer_new :: "nat \<Rightarrow> net_buffer" where
  "buffer_new initial_size =
     \<lparr>b_storage = replicate (k_cheap_prepend + initial_size) (CHR 0x00),
      b_reader = k_cheap_prepend, b_writer = k_cheap_prepend\<rparr>"

definition readable_bytes :: "net_buffer \<Rightarrow> nat" where
  "readable_bytes b = b_writer b - b_reader b"

definition writable_bytes :: "net_buffer \<Rightarrow> nat" where
  "writable_bytes b = length (b_storage b) - b_writer b"

definition prependable_bytes :: "net_buffer \<Rightarrow> nat" where
  "prependable_bytes b = b_reader b"

text \<open>The bytes between \<open>peek()\<close> and \<open>begin_write()\<close>.\<close>

definition readable :: "net_buffer \<Rightarrow> string" where
  "readable b = take (readable_bytes b) (drop (b_reader b) (b_storage b))"

text \<open>\<open>find_crlf\<close> returns the offset of the line end from \<open>peek()\<close>.\<close>

definition buffer_find_crlf :: "net_buffer \<Rightarrow> nat option" where
  "buffer_find_crlf b = find_str crlf (readable b)"

definition retrieve_all :: "net_buffer \<Rightarrow> net_buffer" where
  "retrieve_all b = b\<lparr>b_reader := k_cheap_prepend, b_writer := k_cheap_prepend\<rparr>"

definition retrieve :: "nat \<Rightarrow> net_buffer \<Rightarrow> net_buffer" where
  "retrieve len b =
     (if len < readable_bytes b then b\<lparr>b_reader := b_reader b + len\<rparr> else retrieve_all b)"

definition retrieve_as_string :: "nat \<Rightarrow> net_buffer \<Rightarrow> string \<times> net_buffer" where
  "retrieve_as_string len0 b =
     (let len = min len0 (readable_bytes b); result = take len (drop (b_reader b) (b_storage b))
      in (result, retrieve len b))"

definition retrieve_all_as_string :: "net_buffer \<Rightarrow> string \<times> net_buffer" where
  "retrieve_all_as_string b = retrieve_as_string (readable_bytes b) b"

definition make_space :: "nat \<Rightarrow> net_buffer \<Rightarrow> net_buffer" where
  "make_space len b =
     (if writable_bytes b + prependable_bytes b < len + k_cheap_prepend then
        b\<lparr>b_storage := take (b_writer b + len) (b_storage b) @
                        replicate (b_writer b + len - length (b_storage b)) (CHR 0x00)\<rparr>
      else
        let n = readable_bytes b; moved = readable b in
        b\<lparr>b_storage := take k_cheap_prepend (b_storage b) @ moved @
                        drop (k_cheap_prepend + n) (b_storage b),
          b_reader := k_cheap_prepend, b_writer := k_cheap_prepend + n\<rparr>)"

definition ensure_writable_bytes :: "nat \<Rightarrow> net_buffer \<Rightarrow> net_buffer" where
  "ensure_writable_bytes len b = (if writable_bytes b < len then make_space len b else b)"

definition has_written :: "nat \<Rightarrow> net_buffer \<Rightarrow> net_buffer" where
  "has_written len b = b\<lparr>b_writer := b_writer b + len\<rparr>"

text \<open>Copying \<open>data\<close> to \<open>begin_write()\<close>.\<close>

definition write_at_writer :: "string \<Rightarrow> net_buffer \<Rightarrow> net_buffer" where
  "write_at_writer data b =
     b\<lparr>b_storage := take (b_writer b) (b_storage b) @ data @
                     drop (b_writer b + length data) (b_storage b)\<rparr>"

definition buffer_append :: "string \<Rightarrow> net_buffer \<Rightarrow> net_buffer" where
  "buffer_append data b =
     has_written (length data) (write_at_writer data (ensure_writable_bytes (length data) b))"

text \<open>
  \<open>readv\<close> is the system's: \<open>Inl\<close> is its \<open>errno\<close>, \<open>Inr\<close> the bytes it
  delivered, first into the writable area and then into the 64 KiB stack buffer, which is
  offered only when the writable area is smaller than it.
\<close>

definition read_capacity :: "net_buffer \<Rightarrow> nat" where
  "read_capacity b = writable_bytes b + (if writable_bytes b < 65536 then 65536 else 0)"

definition read_fd :: "int + string \<Rightarrow> net_buffer \<Rightarrow> (int + nat) \<times> net_buffer" where
  "read_fd result b =
     (case result of
        Inl saved_errno \<Rightarrow> (Inl saved_errno, b)
      | Inr data \<Rightarrow>
          let n = length data; writable = writable_bytes b; b1 = write_at_writer (take writable data) b in
          (Inr n,
           if n \<le> writable then has_written n b1
           else buffer_append (drop writable data) (b1\<lparr>b_writer := length (b_storage b1)\<rparr>)))"

subsection \<open>The byte queue it implements\<close>

locale byte_queue =
  fixes content :: "'b \<Rightarrow> string"
    and inv :: "'b \<Rightarrow> bool"
    and put :: "string \<Rightarrow> 'b \<Rightarrow> 'b"
    and consume :: "nat \<Rightarrow> 'b \<Rightarrow> 'b"
    and take_front :: "nat \<Rightarrow> 'b \<Rightarrow> string \<times> 'b"
    and line_end :: "'b \<Rightarrow> nat option"
  assumes content_put: "inv b \<Longrightarrow> content (put d b) = content b @ d"
    and inv_put: "inv b \<Longrightarrow> inv (put d b)"
    and content_consume: "inv b \<Longrightarrow> content (consume n b) = drop n (content b)"
    and inv_consume: "inv b \<Longrightarrow> inv (consume n b)"
    and take_front_consume: "inv b \<Longrightarrow> take_front n b = (take n (content b), consume (min n (length (content b))) b)"
    and line_end_content: "inv b \<Longrightarrow> line_end b = find_str crlf (content b)"
begin

text \<open>A line once complete stays where it is when more bytes arrive.\<close>

lemma line_end_put: "inv b \<Longrightarrow> line_end b = Some i \<Longrightarrow> line_end (put d b) = Some i"
  by (simp add: line_end_content inv_put content_put find_str_extend)

lemma put_all: "inv b \<Longrightarrow> content (fold put ds b) = content b @ concat ds"
  by (induction ds arbitrary: b) (simp_all add: content_put inv_put)

lemma take_all: "inv b \<Longrightarrow> fst (take_front (length (content b)) b) = content b"
  by (simp add: take_front_consume)

lemma put_then_take:
  assumes "inv b" and "content b = []"
  shows "fst (take_front (length d) (put d b)) = d"
proof -
  have "inv (put d b)" and "content (put d b) = d"
    using assms by (simp_all add: inv_put content_put)
  then show ?thesis by (simp add: take_front_consume)
qed

end

definition buffer_inv :: "net_buffer \<Rightarrow> bool" where
  "buffer_inv b \<longleftrightarrow> k_cheap_prepend \<le> b_reader b \<and> b_reader b \<le> b_writer b \<and> b_writer b \<le> length (b_storage b)"

lemmas buffer_defs = readable_def readable_bytes_def writable_bytes_def prependable_bytes_def
  buffer_inv_def k_cheap_prepend_def

lemma length_readable: "buffer_inv b \<Longrightarrow> length (readable b) = readable_bytes b"
  by (auto simp: buffer_defs min_def)

lemma buffer_new_inv: "buffer_inv (buffer_new n)" and buffer_new_readable: "readable (buffer_new n) = []"
  by (simp_all add: buffer_new_def buffer_defs)

lemma retrieve_readable: "buffer_inv b \<Longrightarrow> readable (retrieve n b) = drop n (readable b)"
  by (auto simp: retrieve_def retrieve_all_def buffer_defs drop_take add.commute)

lemma retrieve_inv: "buffer_inv b \<Longrightarrow> buffer_inv (retrieve n b)"
  by (auto simp: retrieve_def retrieve_all_def buffer_defs)

lemma make_space_spec:
  assumes "buffer_inv b"
  shows "readable (make_space n b) = readable b \<and> buffer_inv (make_space n b) \<and> n \<le> writable_bytes (make_space n b)"
  using assms
  by (auto simp: make_space_def Let_def buffer_defs min_def drop_take)

lemma ensure_writable_spec:
  assumes "buffer_inv b"
  shows "readable (ensure_writable_bytes n b) = readable b \<and> buffer_inv (ensure_writable_bytes n b) \<and>
    n \<le> writable_bytes (ensure_writable_bytes n b)"
  using assms make_space_spec [OF assms, of n] by (auto simp: ensure_writable_bytes_def)

lemma write_within:
  assumes "buffer_inv b" and "length d \<le> writable_bytes b"
  shows "readable (has_written (length d) (write_at_writer d b)) = readable b @ d"
    and "buffer_inv (has_written (length d) (write_at_writer d b))"
  using assms
  by (cases d; auto simp: has_written_def write_at_writer_def buffer_defs min_def drop_take)+

lemma append_readable: "buffer_inv b \<Longrightarrow> readable (buffer_append d b) = readable b @ d"
  and append_inv: "buffer_inv b \<Longrightarrow> buffer_inv (buffer_append d b)"
  using ensure_writable_spec [of b "length d"] write_within [of "ensure_writable_bytes (length d) b" d]
  by (simp_all add: buffer_append_def)

lemma retrieve_as_string_readable:
  "buffer_inv b \<Longrightarrow> retrieve_as_string n b = (take n (readable b), retrieve (min n (length (readable b))) b)"
  by (auto simp: retrieve_as_string_def Let_def length_readable) (simp add: buffer_defs min.commute)

interpretation nb: byte_queue readable buffer_inv buffer_append retrieve retrieve_as_string buffer_find_crlf
  by unfold_locales
    (simp_all add: append_readable append_inv retrieve_readable retrieve_inv
      retrieve_as_string_readable buffer_find_crlf_def)

lemma read_fd_spec:
  assumes "buffer_inv b" and "length data \<le> read_capacity b"
  shows "fst (read_fd (Inr data) b) = Inr (length data) \<and>
    readable (snd (read_fd (Inr data) b)) = readable b @ data \<and> buffer_inv (snd (read_fd (Inr data) b))"
proof (cases "length data \<le> writable_bytes b")
  case True
  then show ?thesis using assms write_within [of b data] by (simp add: read_fd_def Let_def)
next
  case False
  let ?w = "writable_bytes b"
  let ?first = "take ?w data"
  let ?b1 = "has_written (length ?first) (write_at_writer ?first b)"
  have "length ?first \<le> ?w" by simp
  then have r1: "readable ?b1 = readable b @ ?first" and i1: "buffer_inv ?b1"
    using assms(1) by (auto simp del: length_take intro: write_within)
  have "(write_at_writer ?first b)\<lparr>b_writer := length (b_storage (write_at_writer ?first b))\<rparr> = ?b1"
    using assms(1) False by (auto simp: has_written_def write_at_writer_def buffer_defs min_def)
  then have "snd (read_fd (Inr data) b) = buffer_append (drop ?w data) ?b1"
    using False by (simp add: read_fd_def Let_def)
  then show ?thesis
    using r1 i1 False by (simp add: append_readable append_inv read_fd_def Let_def)
qed

end
