(* ===== verification/Headers.thy ===== *)
theory Headers
  imports Prelude
begin

text \<open>
  \<open>HttpHeaders\<close> (src/src/http/http_headers.cpp): an ordered list of trimmed
  field/value entries with case-insensitive lookup, and the contract of a
  case-insensitive multimap that the parser, the cache and the servers rely on.
\<close>

record header_entry =
  h_field :: string
  h_value :: string

type_synonym http_headers = "header_entry list"

definition hdr_add :: "string \<Rightarrow> string \<Rightarrow> http_headers \<Rightarrow> http_headers" where
  "hdr_add field value h = h @ [\<lparr>h_field = trim_ows field, h_value = trim_ows value\<rparr>]"

definition hdr_set :: "string \<Rightarrow> string \<Rightarrow> http_headers \<Rightarrow> http_headers" where
  "hdr_set field value h =
     hdr_add field value (filter (\<lambda>e. \<not> equals_ignore_case (h_field e) field) h)"

definition hdr_contains :: "string \<Rightarrow> http_headers \<Rightarrow> bool" where
  "hdr_contains field h \<longleftrightarrow> list_ex (\<lambda>e. equals_ignore_case (h_field e) field) h"

definition hdr_get :: "string \<Rightarrow> http_headers \<Rightarrow> string" where
  "hdr_get field h =
     (case List.find (\<lambda>e. equals_ignore_case (h_field e) field) h of
        None \<Rightarrow> [] | Some e \<Rightarrow> h_value e)"

definition hdr_values :: "string \<Rightarrow> http_headers \<Rightarrow> string list" where
  "hdr_values field h = map h_value (filter (\<lambda>e. equals_ignore_case (h_field e) field) h)"

subsection \<open>The contract\<close>

text \<open>
  What the clients of a header collection use: \<open>values\<close> is the abstraction, and
  the other lookups are functions of it.
\<close>

locale header_multimap =
  fixes empty :: "'h"
    and add :: "string \<Rightarrow> string \<Rightarrow> 'h \<Rightarrow> 'h"
    and set_to :: "string \<Rightarrow> string \<Rightarrow> 'h \<Rightarrow> 'h"
    and contains :: "string \<Rightarrow> 'h \<Rightarrow> bool"
    and get :: "string \<Rightarrow> 'h \<Rightarrow> string"
    and vals :: "string \<Rightarrow> 'h \<Rightarrow> string list"
  assumes vals_empty: "vals f empty = []"
    and vals_add: "vals f (add g v h) =
      vals f h @ (if lowercase f = lowercase (trim_ows g) then [trim_ows v] else [])"
    and vals_set: "trim_ows g = g \<Longrightarrow> vals f (set_to g v h) =
      (if lowercase f = lowercase g then [trim_ows v] else vals f h)"
    and contains_vals: "contains f h \<longleftrightarrow> vals f h \<noteq> []"
    and get_vals: "get f h = (case vals f h of [] \<Rightarrow> [] | v # _ \<Rightarrow> v)"
begin

lemma get_absent: "\<not> contains f h \<Longrightarrow> get f h = []"
  by (simp add: contains_vals get_vals)

lemma get_set: "trim_ows g = g \<Longrightarrow> lowercase f = lowercase g \<Longrightarrow> get f (set_to g v h) = trim_ows v"
  by (simp add: get_vals vals_set)

lemma get_set_other:
  "trim_ows g = g \<Longrightarrow> lowercase f \<noteq> lowercase g \<Longrightarrow> get f (set_to g v h) = get f h"
  by (simp add: get_vals vals_set)

lemma get_add_first: "contains f h \<Longrightarrow> get f (add g v h) = get f h"
  by (auto simp: contains_vals get_vals vals_add split: list.splits)

lemma get_add_new:
  "\<not> contains f h \<Longrightarrow> lowercase f = lowercase (trim_ows g) \<Longrightarrow> get f (add g v h) = trim_ows v"
  by (auto simp: contains_vals get_vals vals_add)

lemma contains_add:
  "contains f (add g v h) \<longleftrightarrow> contains f h \<or> lowercase f = lowercase (trim_ows g)"
  by (auto simp: contains_vals vals_add)

lemma vals_case_insensitive_set:
  "trim_ows g = g \<Longrightarrow> vals g (set_to g v (set_to g w h)) = vals g (set_to g v h)"
  by (simp add: vals_set)

lemmas laws = vals_empty vals_add contains_vals get_vals

end

lemma hdr_values_Nil [simp]: "hdr_values f [] = []"
  by (simp add: hdr_values_def)

lemma hdr_values_append [simp]: "hdr_values f (h @ k) = hdr_values f h @ hdr_values f k"
  by (simp add: hdr_values_def)

lemma hdr_values_Cons:
  "hdr_values f (e # h) =
     (if lowercase (h_field e) = lowercase f then h_value e # hdr_values f h else hdr_values f h)"
  by (simp add: hdr_values_def text_simps)

lemma hdr_values_add:
  "hdr_values f (hdr_add g v h) =
     hdr_values f h @ (if lowercase f = lowercase (trim_ows g) then [trim_ows v] else [])"
  by (auto simp: hdr_add_def hdr_values_def text_simps)

lemma hdr_values_remove:
  "hdr_values f (filter (\<lambda>e. \<not> equals_ignore_case (h_field e) g) h) =
     (if lowercase f = lowercase g then [] else hdr_values f h)"
  by (induction h) (auto simp: hdr_values_Cons text_simps)

lemma hdr_values_set:
  "trim_ows g = g \<Longrightarrow> hdr_values f (hdr_set g v h) =
     (if lowercase f = lowercase g then [trim_ows v] else hdr_values f h)"
  by (simp add: hdr_set_def hdr_values_add hdr_values_remove)

lemma hdr_contains_values: "hdr_contains f h \<longleftrightarrow> hdr_values f h \<noteq> []"
  by (auto simp: hdr_contains_def hdr_values_def list_ex_iff filter_empty_conv)

lemma hdr_get_values: "hdr_get f h = (case hdr_values f h of [] \<Rightarrow> [] | v # _ \<Rightarrow> v)"
  by (induction h) (auto simp: hdr_get_def hdr_values_def)

interpretation hdr: header_multimap "[]" hdr_add hdr_set hdr_contains hdr_get hdr_values
  by unfold_locales
    (simp_all add: hdr_values_add hdr_values_set hdr_contains_values hdr_get_values)

lemma hdr_entries_trimmed:
  "\<forall>e \<in> set h. trim_ows (h_field e) = h_field e \<and> trim_ows (h_value e) = h_value e \<Longrightarrow>
   \<forall>e \<in> set (hdr_add f v h). trim_ows (h_field e) = h_field e \<and> trim_ows (h_value e) = h_value e"
  by (auto simp: hdr_add_def)

end
