(* ===== verification/Url.thy ===== *)
theory Url
  imports Prelude
begin

text \<open>
  Percent decoding (src/src/http/url_encoding.cpp): \<open>url_decode\<close> in its two modes and
  the RFC 5987 extended values of multipart file names.
\<close>

unbundle bit_operations_syntax

datatype url_decode_mode = UrlPercent | UrlForm

definition hex_digit_value :: "char \<Rightarrow> int" where
  "hex_digit_value ch =
     (if in_range 48 57 ch then int (byte ch) - 48
      else if in_range 97 102 ch then int (byte ch) - 97 + 10
      else if in_range 65 70 ch then int (byte ch) - 65 + 10
      else -1)"

text \<open>The two digits behind a percent sign, when both are there and are hexadecimal.\<close>

fun hex_pair :: "string \<Rightarrow> (char \<times> string) option" where
  "hex_pair (h # l # rest) =
     (let high = hex_digit_value h; low = hex_digit_value l in
      if 0 \<le> high \<and> 0 \<le> low then Some (char_of (push_bit 4 high OR low), rest) else None)"
| "hex_pair _ = None"

lemma hex_pair_length: "hex_pair s = Some (c, rest) \<Longrightarrow> length s = length rest + 2"
  by (cases s rule: hex_pair.cases) (auto simp: Let_def split: if_splits)

function url_decode :: "url_decode_mode \<Rightarrow> string \<Rightarrow> string" where
  "url_decode mode [] = []"
| "url_decode mode (c # rest) =
     (case (if c = CHR ''%'' then hex_pair rest else None) of
        Some (d, rest') \<Rightarrow> d # url_decode mode rest'
      | None \<Rightarrow>
          if mode = UrlForm \<and> c = CHR ''+'' then CHR '' '' # url_decode mode rest
          else c # url_decode mode rest)"
  by pat_completeness auto
termination
  by (relation "measure (\<lambda>(mode, s). length s)") (auto split: if_splits dest: hex_pair_length)

definition decode_rfc5987_value :: "string \<Rightarrow> string option" where
  "decode_rfc5987_value input =
     (case find_char CHR 0x27 input of
        None \<Rightarrow> None
      | Some charset_end \<Rightarrow>
          (case find_char_from CHR 0x27 input (charset_end + 1) of
             None \<Rightarrow> None
           | Some language_end \<Rightarrow>
               (let charset = lowercase (take charset_end input) in
                if charset \<noteq> ''utf-8'' \<and> charset \<noteq> ''us-ascii'' then None
                else Some (url_decode UrlPercent (drop (language_end + 1) input)))))"

subsection \<open>Properties\<close>

text \<open>The reference encoder: a byte outside the safe set becomes a percent sign and two digits.\<close>

definition upper_hex :: "nat \<Rightarrow> char" where
  "upper_hex d = char_of (if d < 10 then d + 48 else d + 55)"

definition url_encode :: "(char \<Rightarrow> bool) \<Rightarrow> string \<Rightarrow> string" where
  "url_encode safe s =
     concat (map (\<lambda>c. if safe c then [c] else [CHR ''%'', upper_hex (byte c div 16), upper_hex (byte c mod 16)]) s)"

lemma hex_digit_value_upper_hex: "d < 16 \<Longrightarrow> hex_digit_value (upper_hex d) = int d"
  by (auto simp: hex_digit_value_def upper_hex_def in_range_def)

lemma push_or_nibble:
  fixes h l :: int
  assumes "0 \<le> l" and "l < 16"
  shows "push_bit 4 h OR l = 16 * h + l"
proof -
  have "\<not> bit (push_bit 4 h) n \<or> \<not> bit l n" for n
  proof (cases "n < 4")
    case True
    then show ?thesis by (simp add: bit_push_bit_iff)
  next
    case False
    have "l = take_bit 4 l" using assms by (simp add: take_bit_eq_mod)
    with False show ?thesis by (metis bit_take_bit_iff)
  qed
  then have "push_bit 4 h + l = push_bit 4 h OR l" by (rule disjunctive_add)
  then show ?thesis by (simp add: push_bit_eq_mult)
qed

lemma hex_pair_upper_hex:
  "hex_pair (upper_hex (byte c div 16) # upper_hex (byte c mod 16) # s) = Some (c, s)"
proof -
  have b: "byte c < 256" by simp
  have "16 * int (byte c div 16) + int (byte c mod 16) = int (byte c)"
    by (metis mult_div_mod_eq of_nat_add of_nat_mult of_nat_numeral)
  then have "push_bit 4 (int (byte c div 16)) OR int (byte c mod 16) = int (byte c)"
    using push_or_nibble [of "int (byte c mod 16)" "int (byte c div 16)"] by linarith
  moreover have "byte c div 16 < 16" using b by (simp add: less_mult_imp_div_less)
  then have "hex_digit_value (upper_hex (byte c div 16)) = int (byte c div 16)"
    and "hex_digit_value (upper_hex (byte c mod 16)) = int (byte c mod 16)"
    by (simp_all only: hex_digit_value_upper_hex mod_less_divisor zero_less_numeral)
  ultimately show ?thesis by (simp add: Let_def del: of_nat_mod of_nat_div)
qed

lemma url_decode_encode_append:
  assumes "\<not> safe CHR ''%''" and "mode = UrlForm \<Longrightarrow> \<not> safe CHR ''+''"
  shows "url_decode mode (url_encode safe s) = s"
proof (induction s)
  case Nil
  then show ?case by (simp add: url_encode_def)
next
  case (Cons c s)
  have "url_encode safe (c # s) =
      (if safe c then [c] else [CHR ''%'', upper_hex (byte c div 16), upper_hex (byte c mod 16)]) @ url_encode safe s"
    by (simp add: url_encode_def)
  with Cons assms show ?case by (auto simp: hex_pair_upper_hex simp del: hex_pair.simps)
qed

lemma length_url_decode: "length (url_decode mode s) \<le> length s"
proof (induction mode s rule: url_decode.induct)
  case (2 mode c rest)
  show ?case
  proof (cases "if c = CHR ''%'' then hex_pair rest else None")
    case None
    with 2 show ?thesis by auto
  next
    case (Some p)
    obtain d r where p: "p = (d, r)" by (cases p)
    with Some have "length rest = length r + 2" by (auto split: if_splits dest: hex_pair_length)
    with 2 Some p show ?thesis by fastforce
  qed
qed simp

lemma url_decode_plain:
  "CHR ''%'' \<notin> set s \<Longrightarrow> CHR ''+'' \<notin> set s \<Longrightarrow> url_decode mode s = s"
  by (induction s) auto

end
