(* ===== verification/Request.thy ===== *)
theory Request
  imports Headers Url
begin

text \<open>
  \<open>HttpRequest\<close> (src/src/http/http_request.cpp, src/include/oklib/http/http_request.h):
  the request record, its validating method setter and the query lookup.
\<close>

datatype http_method = M_invalid | M_get | M_head | M_post | M_put | M_delete
  | M_options | M_trace | M_connect | M_patch

datatype http_version = V_unknown | V_http10 | V_http11

datatype target_form = TF_unknown | TF_origin | TF_absolute | TF_authority | TF_asterisk

record http_request =
  r_method :: http_method
  r_method_token :: string
  r_version :: http_version
  r_target_form :: target_form
  r_target :: string
  r_path :: string
  r_query :: string
  r_body :: string
  r_content_length :: "u64 option"
  r_receive_time :: timestamp
  r_peer_ip :: string
  r_peer_port :: u16
  r_headers :: http_headers
  r_trailers :: http_headers

definition request_new :: http_request where
  "request_new =
     \<lparr>r_method = M_invalid, r_method_token = [], r_version = V_unknown, r_target_form = TF_unknown,
      r_target = [], r_path = [], r_query = [], r_body = [], r_content_length = None,
      r_receive_time = 0, r_peer_ip = [], r_peer_port = 0, r_headers = [], r_trailers = []\<rparr>"

definition is_token_char :: "char \<Rightarrow> bool" where
  "is_token_char c \<longleftrightarrow> isalnum c \<or> c \<in> set ''!#$%&*+-.^_`|~'' \<or> c = CHR 0x27"

definition method_string :: "http_request \<Rightarrow> string" where
  "method_string r =
     (if r_method_token r \<noteq> [] then r_method_token r
      else case r_method r of
        M_get \<Rightarrow> ''GET'' | M_head \<Rightarrow> ''HEAD'' | M_post \<Rightarrow> ''POST'' | M_put \<Rightarrow> ''PUT''
      | M_delete \<Rightarrow> ''DELETE'' | M_options \<Rightarrow> ''OPTIONS'' | M_trace \<Rightarrow> ''TRACE''
      | M_connect \<Rightarrow> ''CONNECT'' | M_patch \<Rightarrow> ''PATCH'' | M_invalid \<Rightarrow> ''INVALID'')"

definition method_of_token :: "string \<Rightarrow> http_method" where
  "method_of_token m =
     (if m = ''GET'' then M_get else if m = ''HEAD'' then M_head else if m = ''POST'' then M_post
      else if m = ''PUT'' then M_put else if m = ''DELETE'' then M_delete
      else if m = ''OPTIONS'' then M_options else if m = ''TRACE'' then M_trace
      else if m = ''CONNECT'' then M_connect else if m = ''PATCH'' then M_patch else M_invalid)"

definition set_method :: "string \<Rightarrow> http_request \<Rightarrow> bool \<times> http_request" where
  "set_method m r =
     (if m = [] \<or> \<not> list_all is_token_char m
      then (False, r\<lparr>r_method := M_invalid, r_method_token := []\<rparr>)
      else (True, r\<lparr>r_method_token := m, r_method := method_of_token m\<rparr>))"

definition has_content_length :: "http_request \<Rightarrow> bool" where
  "has_content_length r \<longleftrightarrow> r_content_length r \<noteq> None"

definition content_length :: "http_request \<Rightarrow> u64" where
  "content_length r = (case r_content_length r of None \<Rightarrow> 0 | Some n \<Rightarrow> n)"

definition request_header :: "string \<Rightarrow> http_request \<Rightarrow> string" where
  "request_header field r = hdr_get field (r_headers r)"

definition peer_address :: "http_request \<Rightarrow> string" where
  "peer_address r =
     (if r_peer_ip r = [] then [] else r_peer_ip r @ '':'' @ to_chars 10 (unat (r_peer_port r)))"

function query_param_scan :: "string \<Rightarrow> string \<Rightarrow> string option" where
  "query_param_scan name remaining =
     (if remaining = [] then None
      else
        let amp = find_char CHR ''&'' remaining;
            part = (case amp of None \<Rightarrow> remaining | Some a \<Rightarrow> take a remaining);
            equal = find_char CHR ''='' part;
            key = (case equal of None \<Rightarrow> part | Some e \<Rightarrow> take e part)
        in if url_decode UrlForm key = name
           then Some (url_decode UrlForm (case equal of None \<Rightarrow> [] | Some e \<Rightarrow> drop (e + 1) part))
           else case amp of None \<Rightarrow> None | Some a \<Rightarrow> query_param_scan name (drop (a + 1) remaining))"
  by pat_completeness auto
termination
  by (relation "measure (\<lambda>(name, remaining). length remaining)") auto

declare query_param_scan.simps [simp del]

definition query_param :: "string \<Rightarrow> http_request \<Rightarrow> string option" where
  "query_param name r = query_param_scan name (r_query r)"

subsection \<open>Properties\<close>

lemma set_method_true:
  "fst (set_method m r) \<longleftrightarrow> m \<noteq> [] \<and> list_all is_token_char m"
  by (simp add: set_method_def)

lemma set_method_string: "fst (set_method m r) \<Longrightarrow> method_string (snd (set_method m r)) = m"
  by (auto simp: set_method_def method_string_def)

lemma token_char_not_sep:
  "is_token_char c \<Longrightarrow> c \<noteq> CHR '' '' \<and> c \<noteq> CHR '':'' \<and> c \<noteq> CHR 0x0D \<and> c \<noteq> CHR 0x0A \<and> c \<noteq> CHR 0x09"
  by (auto simp: is_token_char_def isalnum_def isdigit_def in_range_def)

lemma token_not_ows: "is_token_char c \<Longrightarrow> \<not> is_ows c"
  using token_char_not_sep [of c] by (auto simp: is_ows_def)

lemma trim_token: "list_all is_token_char s \<Longrightarrow> trim_ows s = s"
  by (rule trim_ows_no_ows) (auto simp: list_all_iff dest: token_not_ows)

text \<open>A query string written by the reference encoder from key/value pairs.\<close>

definition form_encode :: "(char \<Rightarrow> bool) \<Rightarrow> (string \<times> string) list \<Rightarrow> string" where
  "form_encode safe kvs =
     concat (map (\<lambda>(k, v). url_encode safe k @ ''='' @ url_encode safe v @ ''&'') kvs)"

lemma url_encode_set:
  assumes "c \<in> set (url_encode safe s)"
  shows "safe c \<or> c = CHR ''%'' \<or> in_range 48 57 c \<or> in_range 65 70 c"
proof -
  have hex: "in_range 48 57 (upper_hex d) \<or> in_range 65 70 (upper_hex d)" if "d < 16" for d
    using that by (auto simp: upper_hex_def in_range_def)
  have "byte x < 256" for x by simp
  then have "byte x div 16 < 16" for x by (simp add: less_mult_imp_div_less)
  moreover have "byte x mod 16 < 16" for x by simp
  ultimately show ?thesis
    using assms hex by (auto simp: url_encode_def split: if_splits simp del: mod_less_divisor)
qed

lemma url_encode_no_sep:
  assumes "\<not> safe CHR ''&''" and "\<not> safe CHR ''=''"
  shows "CHR ''&'' \<notin> set (url_encode safe s)" and "CHR ''='' \<notin> set (url_encode safe s)"
  using assms url_encode_set [of "CHR ''&''" safe s] url_encode_set [of "CHR ''=''" safe s]
  by (auto simp: in_range_def)

lemma query_param_scan_step:
  assumes "CHR ''&'' \<notin> set k" and "CHR ''='' \<notin> set k" and "CHR ''&'' \<notin> set v"
  shows "query_param_scan name (k @ ''='' @ v @ ''&'' @ rest) =
    (if url_decode UrlForm k = name then Some (url_decode UrlForm v) else query_param_scan name rest)"
proof -
  have amp: "find_char CHR ''&'' (k @ ''='' @ v @ ''&'' @ rest) = Some (length (k @ ''='' @ v))"
    using find_char_hit [of "CHR ''&''" "k @ ''='' @ v" rest] assms by simp
  have eq: "find_char CHR ''='' (k @ ''='' @ v) = Some (length k)"
    using find_char_hit [of "CHR ''=''" k v] assms by simp
  show ?thesis
    by (subst query_param_scan.simps) (use amp eq in \<open>simp add: Let_def\<close>)
qed

lemma query_param_scan_form_encode:
  assumes safe: "\<not> safe CHR ''%''" "\<not> safe CHR ''+''" "\<not> safe CHR ''&''" "\<not> safe CHR ''=''"
  shows "query_param_scan name (form_encode safe kvs) = map_of kvs name"
proof (induction kvs)
  case Nil
  then show ?case by (simp add: form_encode_def query_param_scan.simps)
next
  case (Cons kv kvs)
  obtain k v where kv: "kv = (k, v)" by (cases kv)
  have enc: "form_encode safe (kv # kvs) =
      url_encode safe k @ ''='' @ url_encode safe v @ ''&'' @ form_encode safe kvs"
    by (simp add: form_encode_def kv)
  have dec: "url_decode UrlForm (url_encode safe x) = x" for x
    using safe by (intro url_decode_encode_append) auto
  have "query_param_scan name (form_encode safe (kv # kvs)) =
      (if url_decode UrlForm (url_encode safe k) = name
       then Some (url_decode UrlForm (url_encode safe v))
       else query_param_scan name (form_encode safe kvs))"
    unfolding enc using safe by (intro query_param_scan_step url_encode_no_sep)
  with Cons show ?case by (simp add: dec kv)
qed

end
