(* ===== verification/Semantics.thy ===== *)
theory Semantics
  imports Request
begin

text \<open>
  RFC 9110 helpers (src/src/http/http_semantics.cpp, src/include/oklib/http/http_semantics.h):
  the method and status tables, byte ranges, entity tags, conditional requests and dates.
  \<open>HttpTime\<close> is libstdc++'s \<open>system_clock::time_point\<close>: a signed 64-bit count of
  nanoseconds. Signed overflow in its conversions, undefined in C++, is modelled as the
  two's complement wrap of the generated code (\<open>i64\<close>).
\<close>

subsection \<open>Methods and status codes\<close>

record method_info =
  mi_method :: http_method
  mi_token :: string
  mi_safe :: bool
  mi_idempotent :: bool

definition k_methods :: "method_info list" where
  "k_methods =
     [\<lparr>mi_method = M_get, mi_token = ''GET'', mi_safe = True, mi_idempotent = True\<rparr>,
      \<lparr>mi_method = M_head, mi_token = ''HEAD'', mi_safe = True, mi_idempotent = True\<rparr>,
      \<lparr>mi_method = M_post, mi_token = ''POST'', mi_safe = False, mi_idempotent = False\<rparr>,
      \<lparr>mi_method = M_put, mi_token = ''PUT'', mi_safe = False, mi_idempotent = True\<rparr>,
      \<lparr>mi_method = M_delete, mi_token = ''DELETE'', mi_safe = False, mi_idempotent = True\<rparr>,
      \<lparr>mi_method = M_options, mi_token = ''OPTIONS'', mi_safe = True, mi_idempotent = True\<rparr>,
      \<lparr>mi_method = M_trace, mi_token = ''TRACE'', mi_safe = True, mi_idempotent = True\<rparr>,
      \<lparr>mi_method = M_connect, mi_token = ''CONNECT'', mi_safe = False, mi_idempotent = False\<rparr>,
      \<lparr>mi_method = M_patch, mi_token = ''PATCH'', mi_safe = False, mi_idempotent = False\<rparr>]"

definition k_statuses :: "(int \<times> string) list" where
  "k_statuses =
     [(100, ''Continue''),
      (101, ''Switching Protocols''),
      (102, ''Processing''),
      (103, ''Early Hints''),
      (200, ''OK''),
      (201, ''Created''),
      (202, ''Accepted''),
      (203, ''Non-Authoritative Information''),
      (204, ''No Content''),
      (205, ''Reset Content''),
      (206, ''Partial Content''),
      (207, ''Multi-Status''),
      (208, ''Already Reported''),
      (226, ''IM Used''),
      (300, ''Multiple Choices''),
      (301, ''Moved Permanently''),
      (302, ''Found''),
      (303, ''See Other''),
      (304, ''Not Modified''),
      (305, ''Use Proxy''),
      (307, ''Temporary Redirect''),
      (308, ''Permanent Redirect''),
      (400, ''Bad Request''),
      (401, ''Unauthorized''),
      (402, ''Payment Required''),
      (403, ''Forbidden''),
      (404, ''Not Found''),
      (405, ''Method Not Allowed''),
      (406, ''Not Acceptable''),
      (407, ''Proxy Authentication Required''),
      (408, ''Request Timeout''),
      (409, ''Conflict''),
      (410, ''Gone''),
      (411, ''Length Required''),
      (412, ''Precondition Failed''),
      (413, ''Content Too Large''),
      (414, ''URI Too Long''),
      (415, ''Unsupported Media Type''),
      (416, ''Range Not Satisfiable''),
      (417, ''Expectation Failed''),
      (421, ''Misdirected Request''),
      (422, ''Unprocessable Content''),
      (423, ''Locked''),
      (424, ''Failed Dependency''),
      (425, ''Too Early''),
      (426, ''Upgrade Required''),
      (428, ''Precondition Required''),
      (429, ''Too Many Requests''),
      (431, ''Request Header Fields Too Large''),
      (451, ''Unavailable For Legal Reasons''),
      (500, ''Internal Server Error''),
      (501, ''Not Implemented''),
      (502, ''Bad Gateway''),
      (503, ''Service Unavailable''),
      (504, ''Gateway Timeout''),
      (505, ''HTTP Version Not Supported''),
      (506, ''Variant Also Negotiates''),
      (507, ''Insufficient Storage''),
      (508, ''Loop Detected''),
      (510, ''Not Extended''),
      (511, ''Network Authentication Required'')]"

definition standard_method_token :: "http_method \<Rightarrow> string" where
  "standard_method_token m =
     (case List.find (\<lambda>info. mi_method info = m) k_methods of None \<Rightarrow> [] | Some info \<Rightarrow> mi_token info)"

definition standard_method_from_token :: "string \<Rightarrow> http_method option" where
  "standard_method_from_token token =
     map_option mi_method (List.find (\<lambda>info. mi_token info = token) k_methods)"

definition is_safe_method :: "http_method \<Rightarrow> bool" where
  "is_safe_method m =
     (case List.find (\<lambda>info. mi_method info = m) k_methods of None \<Rightarrow> False | Some info \<Rightarrow> mi_safe info)"

definition is_idempotent_method :: "http_method \<Rightarrow> bool" where
  "is_idempotent_method m =
     (case List.find (\<lambda>info. mi_method info = m) k_methods of None \<Rightarrow> False | Some info \<Rightarrow> mi_idempotent info)"

definition standard_reason_phrase :: "int \<Rightarrow> string" where
  "standard_reason_phrase status_code =
     (case List.find (\<lambda>(code, reason). code = status_code) k_statuses of
        None \<Rightarrow> [] | Some (code, reason) \<Rightarrow> reason)"

definition is_standard_status_code :: "int \<Rightarrow> bool" where
  "is_standard_status_code status_code \<longleftrightarrow> standard_reason_phrase status_code \<noteq> []"

definition status_code_allows_body :: "int \<Rightarrow> bool" where
  "status_code_allows_body status_code \<longleftrightarrow>
     200 \<le> status_code \<and> status_code \<noteq> 204 \<and> status_code \<noteq> 205 \<and> status_code \<noteq> 304"

subsection \<open>Byte ranges\<close>

definition parse_u64 :: "string \<Rightarrow> u64 option" where
  "parse_u64 value = parse_unsigned 10 value"

text \<open>\<open>None\<close> is a parse failure, \<open>Some None\<close> the star.\<close>

definition parse_length_or_star :: "string \<Rightarrow> u64 option option" where
  "parse_length_or_star value0 =
     (let value = trim_ows value0 in
      if value = ''*'' then Some None else map_option Some (parse_u64 value))"

record byte_range_spec =
  br_first :: "u64 option"
  br_last :: "u64 option"
  br_suffix_length :: "u64 option"

record range_set =
  rs_unit :: string
  rs_ranges :: "byte_range_spec list"

record content_range =
  cr_unit :: string
  cr_unsatisfied :: bool
  cr_first :: "u64 option"
  cr_last :: "u64 option"
  cr_complete_length :: "u64 option"

definition parse_range_spec :: "string \<Rightarrow> byte_range_spec option" where
  "parse_range_spec part =
     (case find_char CHR ''-'' part of
        None \<Rightarrow> None
      | Some dash \<Rightarrow>
          let first_part = trim_ows (take dash part); last_part = trim_ows (drop (dash + 1) part) in
          if first_part = [] then
            (case parse_u64 last_part of
               None \<Rightarrow> None
             | Some suffix \<Rightarrow>
                 if suffix = 0 then None
                 else Some \<lparr>br_first = None, br_last = None, br_suffix_length = Some suffix\<rparr>)
          else
            (case parse_u64 first_part of
               None \<Rightarrow> None
             | Some first \<Rightarrow>
                 if last_part = [] then Some \<lparr>br_first = Some first, br_last = None, br_suffix_length = None\<rparr>
                 else
                   (case parse_u64 last_part of
                      None \<Rightarrow> None
                    | Some last_pos \<Rightarrow>
                        if last_pos < first then None
                        else Some \<lparr>br_first = Some first, br_last = Some last_pos, br_suffix_length = None\<rparr>)))"

fun parse_range_specs :: "string list \<Rightarrow> byte_range_spec list option" where
  "parse_range_specs [] = Some []"
| "parse_range_specs (part # parts) =
     (case parse_range_spec part of
        None \<Rightarrow> None
      | Some spec \<Rightarrow> map_option ((#) spec) (parse_range_specs parts))"

definition parse_range_header :: "string \<Rightarrow> range_set option" where
  "parse_range_header value =
     (case find_char CHR ''='' value of
        None \<Rightarrow> None
      | Some equals \<Rightarrow>
          if equals = 0 then None
          else
            let unit = trim_ows (take equals value) in
            if unit = [] then None
            else
              (case parse_range_specs (split_commas (drop (equals + 1) value)) of
                 None \<Rightarrow> None
               | Some ranges \<Rightarrow>
                   if ranges = [] then None else Some \<lparr>rs_unit = unit, rs_ranges = ranges\<rparr>))"

definition parse_content_range_header :: "string \<Rightarrow> content_range option" where
  "parse_content_range_header value =
     (case find_char CHR '' '' value of
        None \<Rightarrow> None
      | Some space \<Rightarrow>
          if space = 0 then None
          else
            let unit = take space value; rest = trim_ows (drop (space + 1) value) in
            (case find_char CHR ''/'' rest of
               None \<Rightarrow> None
             | Some slash \<Rightarrow>
                 let range_part = trim_ows (take slash rest); length_part = trim_ows (drop (slash + 1) rest) in
                 (case parse_length_or_star length_part of
                    None \<Rightarrow> None
                  | Some complete \<Rightarrow>
                      if range_part = ''*'' then
                        Some \<lparr>cr_unit = unit, cr_unsatisfied = True, cr_first = None, cr_last = None,
                              cr_complete_length = complete\<rparr>
                      else
                        (case find_char CHR ''-'' range_part of
                           None \<Rightarrow> None
                         | Some dash \<Rightarrow>
                             (case (parse_u64 (take dash range_part), parse_u64 (drop (dash + 1) range_part)) of
                                (Some first, Some last_pos) \<Rightarrow>
                                  if last_pos < first then None
                                  else if complete \<noteq> None \<and> the complete \<le> last_pos then None
                                  else Some \<lparr>cr_unit = unit, cr_unsatisfied = False, cr_first = Some first,
                                             cr_last = Some last_pos, cr_complete_length = complete\<rparr>
                              | _ \<Rightarrow> None)))))"

subsection \<open>Entity tags\<close>

record entity_tag =
  et_weak :: bool
  et_tag :: string

definition parse_entity_tag :: "string \<Rightarrow> entity_tag option" where
  "parse_entity_tag value0 =
     (let value1 = trim_ows value0;
          weak = starts_with value1 ''W/'';
          value = (if weak then drop 2 value1 else value1) in
      if length value < 2 \<or> hd value \<noteq> CHR 0x22 \<or> last value \<noteq> CHR 0x22 then None
      else Some \<lparr>et_weak = weak, et_tag = butlast (tl value)\<rparr>)"

definition parse_entity_tag_list :: "string \<Rightarrow> entity_tag list" where
  "parse_entity_tag_list value =
     concat (map (\<lambda>part. if part = ''*'' then [\<lparr>et_weak = False, et_tag = ''*''\<rparr>]
                         else case parse_entity_tag part of None \<Rightarrow> [] | Some tag \<Rightarrow> [tag])
              (split_commas value))"

definition strong_entity_tag_equal :: "entity_tag \<Rightarrow> entity_tag \<Rightarrow> bool" where
  "strong_entity_tag_equal l r \<longleftrightarrow> \<not> et_weak l \<and> \<not> et_weak r \<and> et_tag l = et_tag r"

definition weak_entity_tag_equal :: "entity_tag \<Rightarrow> entity_tag \<Rightarrow> bool" where
  "weak_entity_tag_equal l r \<longleftrightarrow> et_tag l = et_tag r"

definition if_none_match_matches :: "string \<Rightarrow> entity_tag \<Rightarrow> bool" where
  "if_none_match_matches header current \<longleftrightarrow>
     trim_ows header = ''*'' \<or> list_ex (\<lambda>tag. weak_entity_tag_equal tag current) (parse_entity_tag_list header)"

definition if_match_matches :: "string \<Rightarrow> entity_tag \<Rightarrow> bool" where
  "if_match_matches header current \<longleftrightarrow>
     trim_ows header = ''*'' \<or> list_ex (\<lambda>tag. strong_entity_tag_equal tag current) (parse_entity_tag_list header)"

subsection \<open>Dates\<close>

type_synonym http_time = int

definition month_index :: "string \<Rightarrow> int" where
  "month_index month =
     (case index_of ((=) month)
        [''Jan'', ''Feb'', ''Mar'', ''Apr'', ''May'', ''Jun'',
         ''Jul'', ''Aug'', ''Sep'', ''Oct'', ''Nov'', ''Dec''] of
        None \<Rightarrow> 0 | Some i \<Rightarrow> int i + 1)"

text \<open>C's integer division truncates towards zero; the day count mixes it with 32-bit unsigned arithmetic.\<close>

definition c_div :: "int \<Rightarrow> int \<Rightarrow> int" where
  "c_div a b = sgn a * sgn b * (\<bar>a\<bar> div \<bar>b\<bar>)"

definition days_from_civil :: "int \<Rightarrow> u32 \<Rightarrow> u32 \<Rightarrow> int" where
  "days_from_civil year0 month day =
     (let year = (if month \<le> 2 then year0 - 1 else year0);
          era = c_div (if 0 \<le> year then year else year - 399) 400;
          yoe = (word_of_int (year - era * 400) :: u32);
          doy = (153 * (month + (if 2 < month then - 3 else 9)) + 2) div 5 + day - 1;
          doe = yoe * 365 + yoe div 4 - yoe div 100 + doy
      in era * 146097 + uint doe - 719468)"

definition ticks_per_second :: int where
  "ticks_per_second = 1000000000"

definition make_time_utc :: "int \<Rightarrow> u32 \<Rightarrow> u32 \<Rightarrow> u32 \<Rightarrow> u32 \<Rightarrow> u32 \<Rightarrow> http_time option" where
  "make_time_utc year month day hour minute second =
     (if month < 1 \<or> 12 < month \<or> day < 1 \<or> 31 < day \<or> 23 < hour \<or> 59 < minute \<or> 60 < second then None
      else
        let days = days_from_civil year month day;
            seconds = days * 86400 + uint hour * 3600 + uint minute * 60 + uint second
        in Some (i64 (seconds * ticks_per_second)))"

definition parse_http_date :: "string \<Rightarrow> http_time option" where
  "parse_http_date value0 =
     (let value = trim_ows value0; sub = (\<lambda>pos n. take n (drop pos value)) in
      if length value \<noteq> 29 \<or> sub 3 2 \<noteq> '', '' \<or> sub 26 3 \<noteq> ''GMT'' then None
      else
        (case (parse_u64 (sub 5 2), parse_u64 (sub 12 4), parse_u64 (sub 17 2),
               parse_u64 (sub 20 2), parse_u64 (sub 23 2)) of
           (Some day, Some year, Some hour, Some minute, Some second) \<Rightarrow>
             let month = month_index (sub 8 3) in
             if month = 0 then None
             else make_time_utc (uint year) (word_of_int month) (ucast day) (ucast hour) (ucast minute) (ucast second)
         | _ \<Rightarrow> None))"

definition seconds_of_time :: "http_time \<Rightarrow> int" where
  "seconds_of_time t = c_div t ticks_per_second"

definition if_modified_since_not_modified :: "string \<Rightarrow> http_time \<Rightarrow> bool" where
  "if_modified_since_not_modified header last_modified =
     (case parse_http_date header of
        None \<Rightarrow> False
      | Some since \<Rightarrow> seconds_of_time last_modified \<le> seconds_of_time since)"

definition if_unmodified_since_allows :: "string \<Rightarrow> http_time \<Rightarrow> bool" where
  "if_unmodified_since_allows header last_modified =
     (case parse_http_date header of
        None \<Rightarrow> True
      | Some since \<Rightarrow> seconds_of_time last_modified \<le> seconds_of_time since)"

end
