(* ===== verification/Parser.thy ===== *)
theory Parser
  imports Semantics
begin

text \<open>
  \<open>HttpParser\<close> (src/src/http/http_parser.cpp, src/include/oklib/http/http_parser.h): the
  incremental HTTP/1.x parser. A member function takes the parser record (and, where it reads
  the buffer, the readable bytes) and returns its boolean with the new record and the bytes it
  left. \<open>parse_step\<close> is one iteration of the state loop and \<open>parse\<close> the loop.
\<close>

subsection \<open>State\<close>

datatype parser_mode = Mode_request | Mode_response

datatype parse_status = Incomplete | Complete | Error

datatype parse_error = E_none | E_bad_start_line | E_bad_header | E_bad_message_framing
  | E_header_too_large | E_body_too_large

datatype parser_state = S_start_line | S_headers | S_fixed_body | S_chunk_size | S_chunk_data
  | S_trailers | S_complete | S_error

datatype response_source = From_network | From_cache | Revalidated

record parser_options =
  max_start_line :: nat
  max_headers :: nat
  max_body :: nat

record http_response_message =
  m_version :: http_version
  m_status_code :: int
  m_reason_phrase :: string
  m_headers :: http_headers
  m_trailers :: http_headers
  m_body :: string
  m_content_length :: "u64 option"
  m_chunked :: bool
  m_source :: response_source

record http_parser =
  p_mode :: parser_mode
  p_options :: parser_options
  p_state :: parser_state
  p_error :: parse_error
  p_request :: http_request
  p_response :: http_response_message
  p_header_bytes :: nat
  p_fixed_body_bytes :: u64
  p_current_chunk_size :: u64
  p_decoded_body_bytes :: u64
  p_chunked :: bool
  p_head_only :: bool

definition default_parser_options :: parser_options where
  "default_parser_options =
     \<lparr>max_start_line = 8 * 1024, max_headers = 64 * 1024, max_body = 8 * 1024 * 1024\<rparr>"

definition response_message_new :: http_response_message where
  "response_message_new =
     \<lparr>m_version = V_unknown, m_status_code = 0, m_reason_phrase = [], m_headers = [], m_trailers = [],
      m_body = [], m_content_length = None, m_chunked = False, m_source = From_network\<rparr>"

definition parser_new :: "parser_mode \<Rightarrow> parser_options \<Rightarrow> http_parser" where
  "parser_new mode options =
     \<lparr>p_mode = mode, p_options = options, p_state = S_start_line, p_error = E_none,
      p_request = request_new, p_response = response_message_new, p_header_bytes = 0,
      p_fixed_body_bytes = 0, p_current_chunk_size = 0, p_decoded_body_bytes = 0,
      p_chunked = False, p_head_only = False\<rparr>"

definition parser_reset :: "http_parser \<Rightarrow> http_parser" where
  "parser_reset p =
     p\<lparr>p_state := S_start_line, p_error := E_none, p_request := request_new,
       p_response := response_message_new, p_header_bytes := 0, p_fixed_body_bytes := 0,
       p_current_chunk_size := 0, p_decoded_body_bytes := 0, p_chunked := False, p_head_only := False\<rparr>"

subsection \<open>Lexical helpers\<close>

definition find_space :: "string \<Rightarrow> nat \<Rightarrow> nat option" where
  "find_space value begin_pos = find_char_from CHR '' '' value begin_pos"

definition parse_decimal_u64 :: "string \<Rightarrow> u64 option" where
  "parse_decimal_u64 value = parse_unsigned 10 value"

definition parse_hex_u64 :: "string \<Rightarrow> u64 option" where
  "parse_hex_u64 value = parse_unsigned 16 value"

definition is_token :: "string \<Rightarrow> bool" where
  "is_token value \<longleftrightarrow> value \<noteq> [] \<and> list_all is_token_char value"

text \<open>The scan of a quoted string's inside: the flag is \<open>escaped\<close>.\<close>

fun quoted_inside :: "bool \<Rightarrow> string \<Rightarrow> bool" where
  "quoted_inside escaped [] = (\<not> escaped)"
| "quoted_inside escaped (c # cs) =
     (if escaped then quoted_inside False cs
      else if c = CHR 0x5C then quoted_inside True cs
      else if c = CHR 0x22 then False
      else quoted_inside False cs)"

definition is_quoted_string :: "string \<Rightarrow> bool" where
  "is_quoted_string value =
     (if length value < 2 \<or> hd value \<noteq> CHR 0x22 \<or> last value \<noteq> CHR 0x22 then False
      else quoted_inside False (butlast (tl value)))"

definition valid_chunk_extension_value :: "string \<Rightarrow> bool" where
  "valid_chunk_extension_value value0 =
     (let value = trim_ows value0 in is_token value \<or> is_quoted_string value)"

function valid_chunk_extensions :: "string \<Rightarrow> bool" where
  "valid_chunk_extensions value0 =
     (if value0 = [] then True
      else if hd value0 \<noteq> CHR '';'' then False
      else
        let value = tl value0;
            next_pos = find_char CHR '';'' value;
            extension = trim_ows (case next_pos of None \<Rightarrow> value | Some n \<Rightarrow> take n value)
        in if extension = [] then False
           else
             let equals = find_char CHR ''='' extension;
                 name = trim_ows (case equals of None \<Rightarrow> extension | Some e \<Rightarrow> take e extension)
             in if \<not> is_token name then False
                else if (case equals of None \<Rightarrow> False
                         | Some e \<Rightarrow> \<not> valid_chunk_extension_value (drop (e + 1) extension)) then False
                else (case next_pos of None \<Rightarrow> True | Some n \<Rightarrow> valid_chunk_extensions (drop n value)))"
  by pat_completeness auto
termination
  by (relation "measure length") auto

declare valid_chunk_extensions.simps [simp del]

definition parse_version :: "string \<Rightarrow> http_version option" where
  "parse_version value =
     (if value = ''HTTP/1.1'' then Some V_http11
      else if value = ''HTTP/1.0'' then Some V_http10 else None)"

definition set_path_and_query :: "string \<Rightarrow> http_request \<Rightarrow> http_request" where
  "set_path_and_query path r =
     (case find_char CHR ''?'' path of
        None \<Rightarrow> r\<lparr>r_path := path, r_query := []\<rparr>
      | Some query \<Rightarrow> r\<lparr>r_path := take query path, r_query := drop (query + 1) path\<rparr>)"

definition set_request_target :: "string \<Rightarrow> http_request \<Rightarrow> http_request" where
  "set_request_target target r0 =
     (let r = r0\<lparr>r_target := target\<rparr> in
      if target = ''*'' then r\<lparr>r_target_form := TF_asterisk, r_path := ''*'', r_query := []\<rparr>
      else
        case find_str ''://'' target of
          Some scheme \<Rightarrow>
            set_path_and_query
              (case find_char_from CHR ''/'' target (scheme + 3) of
                 None \<Rightarrow> ''/'' | Some path_start \<Rightarrow> drop path_start target)
              (r\<lparr>r_target_form := TF_absolute\<rparr>)
        | None \<Rightarrow>
            if target \<noteq> [] \<and> hd target = CHR ''/''
            then set_path_and_query target (r\<lparr>r_target_form := TF_origin\<rparr>)
            else r\<lparr>r_target_form := TF_authority, r_path := target, r_query := []\<rparr>)"

fun parse_decimals :: "string list \<Rightarrow> u64 list option" where
  "parse_decimals [] = Some []"
| "parse_decimals (part # parts) =
     (case parse_decimal_u64 part of
        None \<Rightarrow> None
      | Some parsed \<Rightarrow> map_option ((#) parsed) (parse_decimals parts))"

text \<open>\<open>None\<close> is \<open>*ok = false\<close>.\<close>

definition content_lengths :: "http_headers \<Rightarrow> u64 list option" where
  "content_lengths headers =
     parse_decimals (concat (map split_commas (hdr_values ''Content-Length'' headers)))"

definition strip_coding_parameters :: "string \<Rightarrow> string" where
  "strip_coding_parameters coding =
     (case find_char CHR '';'' coding of
        None \<Rightarrow> coding
      | Some semicolon \<Rightarrow> rev (dropWhile is_ows (rev (take semicolon coding))))"

definition transfer_codings :: "http_headers \<Rightarrow> string list" where
  "transfer_codings headers =
     filter (\<lambda>coding. coding \<noteq> [])
       (map (\<lambda>part. strip_coding_parameters (lowercase part))
         (concat (map split_commas (hdr_values ''Transfer-Encoding'' headers))))"

text \<open>The result is (the function's value, \<open>*present\<close>, \<open>*ok\<close>).\<close>

definition is_chunked_transfer :: "http_headers \<Rightarrow> bool \<times> bool \<times> bool" where
  "is_chunked_transfer headers =
     (let codings = transfer_codings headers in
      if codings = [] then (False, False, True)
      else if last codings \<noteq> ''chunked'' then (False, True, False)
      else (True, True, True))"

definition forbidden_trailer_field :: "string \<Rightarrow> bool" where
  "forbidden_trailer_field field =
     (let lower = lowercase field in
      lower = ''content-length'' \<or> lower = ''transfer-encoding'' \<or> lower = ''host'')"

subsection \<open>Lines and headers\<close>

definition set_error :: "parse_error \<Rightarrow> http_parser \<Rightarrow> bool \<times> http_parser" where
  "set_error e p = (False, p\<lparr>p_error := e, p_state := S_error\<rparr>)"

definition finish_message :: "http_parser \<Rightarrow> bool \<times> http_parser" where
  "finish_message p = (True, p\<lparr>p_state := S_complete\<rparr>)"

definition parse_request_line :: "string \<Rightarrow> timestamp \<Rightarrow> http_parser \<Rightarrow> bool \<times> http_parser" where
  "parse_request_line line receive_time p =
     (case find_char CHR '' '' line of
        None \<Rightarrow> set_error E_bad_start_line p
      | Some first_space \<Rightarrow>
          (case find_char_from CHR '' '' line (first_space + 1) of
             None \<Rightarrow> set_error E_bad_start_line p
           | Some second_space \<Rightarrow>
               if find_char_from CHR '' '' line (second_space + 1) \<noteq> None
               then set_error E_bad_start_line p
               else
                 let (method_ok, req) = set_method (take first_space line) (p_request p);
                     p1 = p\<lparr>p_request := req\<rparr>
                 in if \<not> method_ok then set_error E_bad_start_line p1
                    else
                      let req1 = set_request_target
                                   (take (second_space - first_space - 1) (drop (first_space + 1) line)) req;
                          p2 = p\<lparr>p_request := req1\<rparr>
                      in (case parse_version (drop (second_space + 1) line) of
                            None \<Rightarrow> set_error E_bad_start_line p2
                          | Some version \<Rightarrow>
                              (True, p\<lparr>p_request := req1\<lparr>r_version := version, r_receive_time := receive_time\<rparr>\<rparr>))))"

definition parse_response_line :: "string \<Rightarrow> http_parser \<Rightarrow> bool \<times> http_parser" where
  "parse_response_line line p =
     (case find_space line 0 of
        None \<Rightarrow> set_error E_bad_start_line p
      | Some first_space \<Rightarrow>
          (case parse_version (take first_space line) of
             None \<Rightarrow> set_error E_bad_start_line p
           | Some version \<Rightarrow>
               let status_begin = first_space + 1;
                   second_space = find_space line status_begin;
                   status_end = (case second_space of None \<Rightarrow> length line | Some s \<Rightarrow> s);
                   status_token = take (status_end - status_begin) (drop status_begin line)
               in if length status_token \<noteq> 3 then set_error E_bad_start_line p
                  else
                    (case from_chars_int status_token of
                       None \<Rightarrow> set_error E_bad_start_line p
                     | Some (status, used) \<Rightarrow>
                         if used \<noteq> length status_token then set_error E_bad_start_line p
                         else
                           (True,
                            p\<lparr>p_response := (p_response p)
                                \<lparr>m_version := version, m_status_code := status,
                                 m_reason_phrase :=
                                   (case second_space of None \<Rightarrow> [] | Some s \<Rightarrow> drop (s + 1) line)\<rparr>\<rparr>))))"

text \<open>
  \<open>parse_header_line\<close> writes to the header collection it is given; the model returns that
  collection, and \<open>None\<close> where the code calls \<open>set_error(bad_header)\<close>.
\<close>

definition parse_header_line :: "string \<Rightarrow> http_headers \<Rightarrow> http_headers option" where
  "parse_header_line line headers =
     (if line \<noteq> [] \<and> (hd line = CHR '' '' \<or> hd line = CHR 0x09) then None
      else
        case find_char CHR '':'' line of
          None \<Rightarrow> None
        | Some colon \<Rightarrow>
            if colon = 0 then None
            else if \<not> list_all is_token_char (take colon line) then None
            else Some (hdr_add (take colon line) (drop (colon + 1) line) headers))"

definition message_headers :: "http_parser \<Rightarrow> http_headers" where
  "message_headers p = (if p_mode p = Mode_request then r_headers (p_request p) else m_headers (p_response p))"

definition set_message_headers :: "http_headers \<Rightarrow> http_parser \<Rightarrow> http_parser" where
  "set_message_headers h p =
     (if p_mode p = Mode_request then p\<lparr>p_request := (p_request p)\<lparr>r_headers := h\<rparr>\<rparr>
      else p\<lparr>p_response := (p_response p)\<lparr>m_headers := h\<rparr>\<rparr>)"

definition set_message_content_length :: "u64 \<Rightarrow> http_parser \<Rightarrow> http_parser" where
  "set_message_content_length n p =
     (if p_mode p = Mode_request then p\<lparr>p_request := (p_request p)\<lparr>r_content_length := Some n\<rparr>\<rparr>
      else p\<lparr>p_response := (p_response p)\<lparr>m_content_length := Some n\<rparr>\<rparr>)"

text \<open>The first of the lengths if all agree; \<open>None\<close> is a conflict.\<close>

fun agree_lengths :: "u64 option \<Rightarrow> u64 list \<Rightarrow> u64 option option" where
  "agree_lengths clen [] = Some clen"
| "agree_lengths None (len # lengths) = agree_lengths (Some len) lengths"
| "agree_lengths (Some n) (len # lengths) = (if n \<noteq> len then None else agree_lengths (Some n) lengths)"

definition finish_headers :: "http_parser \<Rightarrow> bool \<times> http_parser" where
  "finish_headers p =
     (case content_lengths (message_headers p) of
        None \<Rightarrow> set_error E_bad_message_framing p
      | Some lengths \<Rightarrow>
          (case agree_lengths None lengths of
             None \<Rightarrow> set_error E_bad_message_framing p
           | Some clen \<Rightarrow>
               let (is_chunked, te_present, te_ok) = is_chunked_transfer (message_headers p) in
               if \<not> te_ok then set_error E_bad_message_framing p
               else if te_present \<and> clen \<noteq> None then set_error E_bad_message_framing p
               else if p_mode p = Mode_response \<and> \<not> status_code_allows_body (m_status_code (p_response p)) then
                 finish_message (case clen of None \<Rightarrow> p | Some n \<Rightarrow> set_message_content_length n p)
               else if p_mode p = Mode_request \<and> r_version (p_request p) = V_http11 \<and>
                       \<not> hdr_contains ''Host'' (r_headers (p_request p)) then
                 set_error E_bad_header p
               else if is_chunked then
                 (True,
                  (if p_mode p = Mode_response then p\<lparr>p_response := (p_response p)\<lparr>m_chunked := True\<rparr>\<rparr> else p)
                    \<lparr>p_chunked := True, p_state := S_chunk_size\<rparr>)
               else
                 (case clen of
                    None \<Rightarrow> finish_message p
                  | Some n \<Rightarrow>
                      if n = 0 then finish_message (set_message_content_length n p)
                      else if \<not> p_head_only p \<and> max_body (p_options p) < unat n then set_error E_body_too_large p
                      else (True, (set_message_content_length n p)
                              \<lparr>p_fixed_body_bytes := n, p_state := S_fixed_body\<rparr>))))"

subsection \<open>Bodies\<close>

definition parse_fixed_body :: "http_parser \<Rightarrow> string \<Rightarrow> bool \<times> http_parser \<times> string" where
  "parse_fixed_body p buf =
     (if length buf < unat (p_fixed_body_bytes p) then (False, p, buf)
      else
        let body = take (unat (p_fixed_body_bytes p)) buf;
            p1 = (if p_mode p = Mode_request then p\<lparr>p_request := (p_request p)\<lparr>r_body := body\<rparr>\<rparr>
                  else p\<lparr>p_response := (p_response p)\<lparr>m_body := body\<rparr>\<rparr>);
            (ok, p2) = finish_message p1
        in (ok, p2, drop (unat (p_fixed_body_bytes p)) buf))"

definition parse_chunk_size :: "http_parser \<Rightarrow> string \<Rightarrow> bool \<times> http_parser \<times> string" where
  "parse_chunk_size p buf =
     (case find_str crlf buf of
        None \<Rightarrow> (False, p, buf)
      | Some eol \<Rightarrow>
          let line = take eol buf;
              semicolon = find_char CHR '';'' line;
              size_part = (case semicolon of None \<Rightarrow> line | Some s \<Rightarrow> take s line);
              framing_error = (let (r, q) = set_error E_bad_message_framing p in (r, q, buf))
          in if (case semicolon of None \<Rightarrow> False | Some s \<Rightarrow> \<not> valid_chunk_extensions (drop s line))
             then framing_error
             else
               (case parse_hex_u64 size_part of
                  None \<Rightarrow> framing_error
                | Some len \<Rightarrow>
                    let buf1 = drop (eol + 2) buf; p1 = p\<lparr>p_current_chunk_size := len\<rparr> in
                    if len = 0 then (True, p1\<lparr>p_state := S_trailers\<rparr>, buf1)
                    else if max_body (p_options p) < unat (p_decoded_body_bytes p) \<or>
                            max_body (p_options p) - unat (p_decoded_body_bytes p) < unat len then
                      (let (r, q) = set_error E_body_too_large p1 in (r, q, buf1))
                    else (True, p1\<lparr>p_state := S_chunk_data\<rparr>, buf1)))"

text \<open>
  The 64-bit sum of the chunk size and two may wrap; the two reads behind the chunk are then
  outside the readable bytes, which is undefined behaviour and \<open>None\<close> here.
\<close>

definition parse_chunk_data :: "http_parser \<Rightarrow> string \<Rightarrow> (bool \<times> http_parser \<times> string) option" where
  "parse_chunk_data p buf =
     (let required = p_current_chunk_size p + 2; chunk_size = unat (p_current_chunk_size p) in
      if length buf < unat required then Some (False, p, buf)
      else if length buf < chunk_size + 2 then None
      else if buf ! chunk_size \<noteq> CHR 0x0D \<or> buf ! (chunk_size + 1) \<noteq> CHR 0x0A then
        (let (r, q) = set_error E_bad_message_framing p in Some (r, q, buf))
      else
        let chunk = take chunk_size buf;
            p1 = (if p_mode p = Mode_request
                  then p\<lparr>p_request := (p_request p)\<lparr>r_body := r_body (p_request p) @ chunk\<rparr>\<rparr>
                  else p\<lparr>p_response := (p_response p)\<lparr>m_body := m_body (p_response p) @ chunk\<rparr>\<rparr>)
        in Some (True,
                 p1\<lparr>p_decoded_body_bytes := p_decoded_body_bytes p + p_current_chunk_size p,
                    p_state := S_chunk_size\<rparr>,
                 drop (chunk_size + 2) buf))"

definition message_trailers :: "http_parser \<Rightarrow> http_headers" where
  "message_trailers p = (if p_mode p = Mode_request then r_trailers (p_request p) else m_trailers (p_response p))"

definition set_message_trailers :: "http_headers \<Rightarrow> http_parser \<Rightarrow> http_parser" where
  "set_message_trailers h p =
     (if p_mode p = Mode_request then p\<lparr>p_request := (p_request p)\<lparr>r_trailers := h\<rparr>\<rparr>
      else p\<lparr>p_response := (p_response p)\<lparr>m_trailers := h\<rparr>\<rparr>)"

function parse_trailers :: "http_parser \<Rightarrow> string \<Rightarrow> bool \<times> http_parser \<times> string" where
  "parse_trailers p buf =
     (case find_str crlf buf of
        None \<Rightarrow> (False, p, buf)
      | Some line_size \<Rightarrow>
          if line_size = 0 then
            (let (ok, q) = finish_message p in (ok, q, drop 2 buf))
          else
            let line = take line_size buf;
                header_error = (let (r, q) = set_error E_bad_header p in (r, q, buf))
            in if (case find_char CHR '':'' line of None \<Rightarrow> False
                   | Some colon \<Rightarrow> forbidden_trailer_field (take colon line)) then header_error
               else
                 (case parse_header_line line (message_trailers p) of
                    None \<Rightarrow> header_error
                  | Some trailers \<Rightarrow>
                      parse_trailers (set_message_trailers trailers p) (drop (line_size + 2) buf)))"
  by pat_completeness auto

lemma crlf_found_shorter: "find_str crlf buf = Some i \<Longrightarrow> length (drop (i + 2) buf) < length buf"
  using find_str_bound [of crlf buf i] by simp

termination parse_trailers
  by (relation "measure (\<lambda>(p, buf). length buf)") (use crlf_found_shorter in auto)

declare parse_trailers.simps [simp del]

subsection \<open>The state loop\<close>

datatype control = Again | Return parse_status | Out_of_bounds

definition body_control :: "bool \<times> http_parser \<times> string \<Rightarrow> control \<Rightarrow> control \<times> http_parser \<times> string" where
  "body_control r done_control =
     (case r of (ok, p, buf) \<Rightarrow>
        (if ok then done_control
         else if p_error p = E_none then Return Incomplete else Return Error, p, buf))"

definition start_line_step :: "timestamp \<Rightarrow> http_parser \<Rightarrow> string \<Rightarrow> control \<times> http_parser \<times> string" where
  "start_line_step receive_time p buf =
     (case find_str crlf buf of
        None \<Rightarrow>
          if max_start_line (p_options p) < length buf
          then (Return Error, snd (set_error E_bad_start_line p), buf)
          else (Return Incomplete, p, buf)
      | Some line_size \<Rightarrow>
          if max_start_line (p_options p) < line_size
          then (Return Error, snd (set_error E_bad_start_line p), buf)
          else
            let line = take line_size buf;
                (ok, q) = (if p_mode p = Mode_request then parse_request_line line receive_time p
                           else parse_response_line line p)
            in if \<not> ok then (Return Error, q, buf)
               else (Again, q\<lparr>p_state := S_headers\<rparr>, drop (line_size + 2) buf))"

text \<open>
  The header state is the same code in \<open>parse\<close> and in the two head parsers, except that a
  head parser returns once the headers are finished; \<open>head\<close> tells them apart.
\<close>

definition headers_step :: "bool \<Rightarrow> http_parser \<Rightarrow> string \<Rightarrow> control \<times> http_parser \<times> string" where
  "headers_step head p buf =
     (case find_str crlf buf of
        None \<Rightarrow>
          if max_headers (p_options p) < p_header_bytes p + length buf
          then (Return Error, snd (set_error E_header_too_large p), buf)
          else (Return Incomplete, p, buf)
      | Some line_size \<Rightarrow>
          let p1 = p\<lparr>p_header_bytes := p_header_bytes p + (line_size + 2)\<rparr> in
          if max_headers (p_options p) < p_header_bytes p1
          then (Return Error, snd (set_error E_header_too_large p1), buf)
          else if line_size = 0 then
            (let (ok, q) = finish_headers p1; rest = drop 2 buf in
             if \<not> ok then (Return Error, q, rest)
             else if head \<or> p_state q = S_complete then (Return Complete, q, rest)
             else (Again, q, rest))
          else
            (case parse_header_line (take line_size buf) (message_headers p1) of
               None \<Rightarrow> (Return Error, snd (set_error E_bad_header p1), buf)
             | Some headers \<Rightarrow> (Again, set_message_headers headers p1, drop (line_size + 2) buf)))"

definition parse_step :: "timestamp \<Rightarrow> http_parser \<Rightarrow> string \<Rightarrow> control \<times> http_parser \<times> string" where
  "parse_step receive_time p buf =
     (case p_state p of
        S_start_line \<Rightarrow> start_line_step receive_time p buf
      | S_headers \<Rightarrow> headers_step False p buf
      | S_fixed_body \<Rightarrow> body_control (parse_fixed_body p buf) (Return Complete)
      | S_chunk_size \<Rightarrow> body_control (parse_chunk_size p buf) Again
      | S_chunk_data \<Rightarrow>
          (case parse_chunk_data p buf of
             None \<Rightarrow> (Out_of_bounds, p, buf)
           | Some r \<Rightarrow> body_control r Again)
      | S_trailers \<Rightarrow> body_control (parse_trailers p buf) (Return Complete)
      | S_complete \<Rightarrow> (Return Complete, p, buf)
      | S_error \<Rightarrow> (Return Error, p, buf))"

definition head_step :: "timestamp \<Rightarrow> http_parser \<Rightarrow> string \<Rightarrow> control \<times> http_parser \<times> string" where
  "head_step receive_time p buf =
     (case p_state p of
        S_start_line \<Rightarrow> start_line_step receive_time p buf
      | S_headers \<Rightarrow> headers_step True p buf
      | S_error \<Rightarrow> (Return Error, p, buf)
      | _ \<Rightarrow> (Return Complete, p, buf))"

lemma start_line_step_shorter:
  "start_line_step t p buf = (Again, q, rest) \<Longrightarrow> length rest < length buf"
  using crlf_found_shorter [of buf]
  by (auto simp: start_line_step_def Let_def split: option.splits if_splits prod.splits)

lemma headers_step_shorter:
  "headers_step h p buf = (Again, q, rest) \<Longrightarrow> length rest < length buf"
  using crlf_found_shorter [of buf] find_str_bound [of crlf buf 0]
  by (auto simp: headers_step_def Let_def split: option.splits if_splits prod.splits)

lemma parse_step_shorter:
  "parse_step t p buf = (Again, q, rest) \<Longrightarrow> length rest < length buf"
  using start_line_step_shorter headers_step_shorter crlf_found_shorter [of buf]
  by (auto simp: parse_step_def body_control_def parse_chunk_size_def parse_chunk_data_def set_error_def Let_def
      split: parser_state.splits option.splits if_splits prod.splits)

lemma head_step_shorter: "head_step t p buf = (Again, q, rest) \<Longrightarrow> length rest < length buf"
  using start_line_step_shorter headers_step_shorter
  by (auto simp: head_step_def split: parser_state.splits)

text \<open>
  The loops. Every iteration that goes on has consumed bytes, so they end; \<open>None\<close> is the
  undefined read.
\<close>

function parse :: "timestamp \<Rightarrow> http_parser \<Rightarrow> string \<Rightarrow> parse_status option \<times> http_parser \<times> string" where
  "parse receive_time p buf =
     (case parse_step receive_time p buf of
        (Again, q, rest) \<Rightarrow> parse receive_time q rest
      | (Return status, q, rest) \<Rightarrow> (Some status, q, rest)
      | (Out_of_bounds, q, rest) \<Rightarrow> (None, q, rest))"
  by pat_completeness auto
termination
  by (relation "measure (\<lambda>(t, p, buf). length buf)") (auto dest: sym [THEN parse_step_shorter])

function parse_head :: "timestamp \<Rightarrow> http_parser \<Rightarrow> string \<Rightarrow> parse_status option \<times> http_parser \<times> string" where
  "parse_head receive_time p buf =
     (case head_step receive_time p buf of
        (Again, q, rest) \<Rightarrow> parse_head receive_time q rest
      | (Return status, q, rest) \<Rightarrow> (Some status, q, rest)
      | (Out_of_bounds, q, rest) \<Rightarrow> (None, q, rest))"
  by pat_completeness auto
termination
  by (relation "measure (\<lambda>(t, p, buf). length buf)") (auto dest: sym [THEN head_step_shorter])

declare parse.simps [simp del] parse_head.simps [simp del]

subsection \<open>Entry points\<close>

definition parse_request :: "timestamp \<Rightarrow> http_parser \<Rightarrow> string \<Rightarrow> parse_status option \<times> http_parser \<times> string" where
  "parse_request receive_time p buf =
     parse receive_time (p\<lparr>p_mode := Mode_request, p_head_only := False\<rparr>) buf"

definition parse_request_head :: "timestamp \<Rightarrow> http_parser \<Rightarrow> string \<Rightarrow> parse_status option \<times> http_parser \<times> string" where
  "parse_request_head receive_time p buf =
     parse_head receive_time (p\<lparr>p_mode := Mode_request, p_head_only := True\<rparr>) buf"

text \<open>A response has no receive time: \<open>Timestamp::invalid()\<close> is zero.\<close>

definition parse_response :: "http_parser \<Rightarrow> string \<Rightarrow> parse_status option \<times> http_parser \<times> string" where
  "parse_response p buf = parse 0 (p\<lparr>p_mode := Mode_response, p_head_only := False\<rparr>) buf"

definition parse_response_head :: "http_parser \<Rightarrow> string \<Rightarrow> parse_status option \<times> http_parser \<times> string" where
  "parse_response_head p buf = parse_head 0 (p\<lparr>p_mode := Mode_response, p_head_only := True\<rparr>) buf"

definition parser_complete :: "http_parser \<Rightarrow> bool" where
  "parser_complete p \<longleftrightarrow> p_state p = S_complete"

end
