(* ===== verification/Parser_Segments.thy ===== *)
theory Parser_Segments
  imports Parser
begin

text \<open>
  Incremental delivery. A decision the parser has taken on a prefix of the bytes is the one it
  takes on the whole, and a call that reported \<open>Incomplete\<close> can be resumed with the bytes it
  left: how the transport cuts the stream does not matter.
\<close>

named_theorems step_defs "definitions of the parser's steps"

lemmas [step_defs] = start_line_step_def headers_step_def body_control_def parse_fixed_body_def
  parse_chunk_size_def parse_chunk_data_def set_error_def finish_message_def

subsection \<open>What the calls leave unchanged\<close>

definition same_frame :: "http_parser \<Rightarrow> http_parser \<Rightarrow> bool" where
  "same_frame p q \<longleftrightarrow> p_mode q = p_mode p \<and> p_head_only q = p_head_only p \<and> p_options q = p_options p"

lemma same_frame_refl [simp]: "same_frame p p"
  by (simp add: same_frame_def)

lemma same_frame_trans [trans]: "same_frame p q \<Longrightarrow> same_frame q r \<Longrightarrow> same_frame p r"
  by (simp add: same_frame_def)

lemma same_frame_updates [simp]:
  "same_frame p (set_message_headers h p)" "same_frame p (set_message_content_length n p)"
  "same_frame p (set_message_trailers h p)" "same_frame p (snd (set_error e p))"
  "same_frame p (snd (finish_message p))"
  by (simp_all add: same_frame_def set_message_headers_def set_message_content_length_def
      set_message_trailers_def set_error_def finish_message_def)

lemma parse_request_line_frame: "parse_request_line l t p = (ok, q) \<Longrightarrow> same_frame p q"
  by (auto simp: parse_request_line_def set_error_def same_frame_def Let_def
      split: option.splits if_splits prod.splits)

lemma parse_response_line_frame: "parse_response_line l p = (ok, q) \<Longrightarrow> same_frame p q"
  by (auto simp: parse_response_line_def set_error_def same_frame_def Let_def
      split: option.splits if_splits prod.splits)

lemma finish_headers_frame: "finish_headers p = (ok, q) \<Longrightarrow> same_frame p q"
  by (auto simp: finish_headers_def set_error_def finish_message_def same_frame_def Let_def
      set_message_content_length_def split: option.splits if_splits prod.splits)

lemma find_crlf_extend: "find_str crlf buf = Some i \<Longrightarrow> find_str crlf (buf @ s) = Some i"
  by (rule find_str_extend) simp_all

lemma crlf_bound: "find_str crlf buf = Some i \<Longrightarrow> i + 2 \<le> length buf"
  using find_str_bound [of crlf buf i] by simp

text \<open>A trailer line that was stored, and the parser that goes on behind it.\<close>

definition trailer_line :: "http_parser \<Rightarrow> string \<Rightarrow> nat \<Rightarrow> http_headers \<Rightarrow> bool" where
  "trailer_line p buf n h \<longleftrightarrow>
     find_str crlf buf = Some n \<and> n \<noteq> 0 \<and>
     \<not> (case find_char CHR '':'' (take n buf) of None \<Rightarrow> False
        | Some colon \<Rightarrow> forbidden_trailer_field (take colon (take n buf))) \<and>
     parse_header_line (take n buf) (message_trailers p) = Some h"

lemma parse_trailers_line:
  assumes "trailer_line p buf n h"
  shows "parse_trailers p (buf @ s) = parse_trailers (set_message_trailers h p) (drop (n + 2) buf @ s)"
proof -
  have n: "find_str crlf buf = Some n" and rest: "n \<noteq> 0"
    "\<not> (case find_char CHR '':'' (take n buf) of None \<Rightarrow> False
        | Some colon \<Rightarrow> forbidden_trailer_field (take colon (take n buf)))"
    "parse_header_line (take n buf) (message_trailers p) = Some h"
    using assms by (simp_all add: trailer_line_def)
  show ?thesis
    using rest crlf_bound [OF n] find_crlf_extend [OF n, of s]
    by (simp add: parse_trailers.simps [of p "buf @ s"] Let_def)
qed

lemma parse_trailers_cases:
  obtains (none) "find_str crlf buf = None" "parse_trailers p buf = (False, p, buf)"
    | (finish) "find_str crlf buf = Some 0" "parse_trailers p buf = (True, snd (finish_message p), drop 2 buf)"
    | (line) n h where "trailer_line p buf n h"
        "parse_trailers p buf = parse_trailers (set_message_trailers h p) (drop (n + 2) buf)"
    | (error) "parse_trailers p buf = (False, snd (set_error E_bad_header p), buf)"
proof (cases "find_str crlf buf")
  case None
  then show ?thesis by (intro none) (simp_all add: parse_trailers.simps [of p buf])
next
  case (Some n)
  show ?thesis
  proof (cases "n = 0")
    case True
    with Some show ?thesis
      by (intro finish) (simp_all add: parse_trailers.simps [of p buf] finish_message_def)
  next
    case False
    show ?thesis
    proof (cases "\<exists>h. trailer_line p buf n h")
      case True
      then obtain h where "trailer_line p buf n h" by blast
      from line [OF this] parse_trailers_line [OF this, of "[]"] show ?thesis by simp
    next
      case not_line: False
      define forbidden where "forbidden = (case find_char CHR '':'' (take n buf) of None \<Rightarrow> False
        | Some colon \<Rightarrow> forbidden_trailer_field (take colon (take n buf)))"
      have "forbidden \<or> parse_header_line (take n buf) (message_trailers p) = None"
        using Some False not_line unfolding trailer_line_def forbidden_def by blast
      then show ?thesis
        using Some False
        by (intro error)
          (auto simp: parse_trailers.simps [of p buf] forbidden_def [symmetric] set_error_def Let_def
            split: option.split)
    qed
  qed
qed

lemma trailer_line_shorter: "trailer_line p buf n h \<Longrightarrow> length (drop (n + 2) buf) < length buf"
  unfolding trailer_line_def using crlf_found_shorter by blast

lemma parse_trailers_frame: "parse_trailers p buf = (ok, q, rest) \<Longrightarrow> same_frame p q"
proof (induction buf arbitrary: p rule: length_induct)
  case (1 buf)
  show ?case
  proof (cases p buf rule: parse_trailers_cases)
    case (line n h)
    then have "same_frame (set_message_trailers h p) q"
      using 1 trailer_line_shorter by metis
    then show ?thesis using same_frame_updates(3) same_frame_trans by blast
  qed (use 1(2) in auto)
qed

lemma start_line_step_frame: "start_line_step t p buf = (c, q, rest) \<Longrightarrow> same_frame p q"
  using parse_request_line_frame parse_response_line_frame
  by (fastforce simp: start_line_step_def set_error_def same_frame_def Let_def
      split: option.splits if_splits prod.splits)

lemma headers_step_frame: "headers_step h p buf = (c, q, rest) \<Longrightarrow> same_frame p q"
  using finish_headers_frame
  by (fastforce simp: headers_step_def set_error_def same_frame_def Let_def set_message_headers_def
      split: option.splits if_splits prod.splits)

lemma body_step_frame:
  "parse_fixed_body p buf = (ok, q, rest) \<Longrightarrow> same_frame p q"
  "parse_chunk_size p buf = (ok, q, rest) \<Longrightarrow> same_frame p q"
  "parse_chunk_data p buf = Some (ok, q, rest) \<Longrightarrow> same_frame p q"
  by (auto simp: step_defs same_frame_def Let_def split: option.splits if_splits)

lemma parse_step_frame: "parse_step t p buf = (c, q, rest) \<Longrightarrow> same_frame p q"
  using start_line_step_frame headers_step_frame body_step_frame parse_trailers_frame
  by (fastforce simp: parse_step_def body_control_def split: parser_state.splits option.splits prod.splits)

lemma parse_Return: "parse_step t p buf = (Return st, q, rest) \<Longrightarrow> parse t p buf = (Some st, q, rest)"
  by (simp add: parse.simps [of t p buf])

lemma parse_Again: "parse_step t p buf = (Again, q, rest) \<Longrightarrow> parse t p buf = parse t q rest"
  by (simp add: parse.simps [of t p buf])

lemma parse_Out_of_bounds: "parse_step t p buf = (Out_of_bounds, q, rest) \<Longrightarrow> parse t p buf = (None, q, rest)"
  by (simp add: parse.simps [of t p buf])

lemmas parse_steps = parse_Return parse_Again parse_Out_of_bounds

lemma parse_frame: "parse t p buf = (r, q, rest) \<Longrightarrow> same_frame p q"
proof (induction t p buf rule: parse.induct)
  case (1 t p buf)
  obtain c q' rest' where step: "parse_step t p buf = (c, q', rest')" by (cases "parse_step t p buf")
  then have frame: "same_frame p q'" by (rule parse_step_frame)
  show ?case
  proof (cases c)
    case Again
    with 1 step show ?thesis using frame by (metis parse_Again same_frame_trans)
  qed (use 1(2) step frame in \<open>simp_all add: parse_steps\<close>)
qed

subsection \<open>Decisions are stable\<close>

lemma start_line_step_extend:
  "start_line_step t p buf = (Again, q, rest) \<Longrightarrow> start_line_step t p (buf @ s) = (Again, q, rest @ s)"
  by (auto simp: start_line_step_def find_crlf_extend Let_def dest!: crlf_bound
      split: option.splits if_splits prod.splits)

lemma headers_step_extend:
  assumes "headers_step h p buf = (c, q, rest)" and "c = Again \<or> c = Return Complete"
  shows "headers_step h p (buf @ s) = (c, q, rest @ s)"
  using assms
  by (auto simp: headers_step_def find_crlf_extend Let_def dest!: crlf_bound
      split: option.splits if_splits prod.splits)

lemma parse_fixed_body_extend:
  "parse_fixed_body p buf = (True, q, rest) \<Longrightarrow> parse_fixed_body p (buf @ s) = (True, q, rest @ s)"
  by (cases "length buf < unat (p_fixed_body_bytes p)") (auto simp: parse_fixed_body_def finish_message_def Let_def)

lemma parse_chunk_size_extend:
  "parse_chunk_size p buf = (True, q, rest) \<Longrightarrow> parse_chunk_size p (buf @ s) = (True, q, rest @ s)"
proof (cases "find_str crlf buf")
  case (Some eol)
  assume ok: "parse_chunk_size p buf = (True, q, rest)"
  have eol: "take eol (buf @ s) = take eol buf" "drop (eol + 2) (buf @ s) = drop (eol + 2) buf @ s"
    using crlf_bound [OF Some] by simp_all
  show ?thesis
    using ok unfolding parse_chunk_size_def Some find_crlf_extend [OF Some] option.case eol Let_def
    by (simp add: set_error_def split: if_split_asm option.split_asm)
qed (simp add: parse_chunk_size_def)

lemma parse_chunk_data_extend:
  "parse_chunk_data p buf = Some (True, q, rest) \<Longrightarrow>
   parse_chunk_data p (buf @ s) = Some (True, q, rest @ s)"
  by (auto simp: parse_chunk_data_def set_error_def Let_def nth_append split: if_splits)

lemma parse_trailers_extend:
  "parse_trailers p buf = (True, q, rest) \<Longrightarrow> parse_trailers p (buf @ s) = (True, q, rest @ s)"
proof (induction buf arbitrary: p rule: length_induct)
  case (1 buf)
  show ?case
  proof (cases p buf rule: parse_trailers_cases)
    case finish
    with 1(2) crlf_bound [of buf 0] find_crlf_extend [of buf 0 s] show ?thesis
      by (auto simp: parse_trailers.simps [of p "buf @ s"] finish_message_def)
  next
    case (line n h)
    then show ?thesis
      using 1 trailer_line_shorter [OF line(1)] parse_trailers_line [OF line(1), of s] by auto
  qed (use 1(2) in \<open>simp_all add: set_error_def\<close>)
qed

lemma parse_trailers_resume:
  "parse_trailers p buf = (False, q, rest) \<Longrightarrow> p_error q = E_none \<Longrightarrow>
   p_state q = p_state p \<and> parse_trailers p (buf @ s) = parse_trailers q (rest @ s)"
proof (induction buf arbitrary: p rule: length_induct)
  case (1 buf)
  show ?case
  proof (cases p buf rule: parse_trailers_cases)
    case (line n h)
    let ?p = "set_message_trailers h p"
    have "p_state q = p_state ?p \<and> parse_trailers ?p (drop (n + 2) buf @ s) = parse_trailers q (rest @ s)"
      using 1 line trailer_line_shorter [OF line(1)] by metis
    then show ?thesis
      using parse_trailers_line [OF line(1), of s] by (simp add: set_message_trailers_def)
  qed (use 1(2,3) in \<open>auto simp: set_error_def finish_message_def\<close>)
qed

lemma body_control_done:
  "body_control r d = (c, q, rest) \<Longrightarrow> c = Again \<or> c = Return Complete \<Longrightarrow> r = (True, q, rest) \<and> d = c"
  by (auto simp: body_control_def split: prod.splits if_splits)

lemma body_control_ok [simp]: "body_control (True, q, rest) d = (d, q, rest)"
  by (simp add: body_control_def)

lemma parse_step_extend:
  assumes "parse_step t p buf = (c, q, rest)" and "c = Again \<or> c = Return Complete"
  shows "parse_step t p (buf @ s) = (c, q, rest @ s)"
proof (cases "p_state p")
  case S_start_line
  then have step: "start_line_step t p buf = (c, q, rest)" using assms(1) by (simp add: parse_step_def)
  then have "c \<noteq> Return Complete"
    by (auto simp: start_line_step_def Let_def split: option.splits if_splits prod.splits)
  with assms(2) step S_start_line start_line_step_extend show ?thesis by (simp add: parse_step_def)
next
  case S_headers
  with assms headers_step_extend show ?thesis by (simp add: parse_step_def)
next
  case S_fixed_body
  then have "parse_fixed_body p buf = (True, q, rest) \<and> Return Complete = c"
    using assms body_control_done by (simp add: parse_step_def)
  with S_fixed_body parse_fixed_body_extend show ?thesis by (simp add: parse_step_def)
next
  case S_chunk_size
  then have "parse_chunk_size p buf = (True, q, rest) \<and> Again = c"
    using assms body_control_done by (simp add: parse_step_def)
  with S_chunk_size parse_chunk_size_extend show ?thesis by (simp add: parse_step_def)
next
  case S_chunk_data
  then have "parse_chunk_data p buf = Some (True, q, rest) \<and> Again = c"
    using assms body_control_done by (auto simp: parse_step_def split: option.splits)
  with S_chunk_data parse_chunk_data_extend show ?thesis by (simp add: parse_step_def)
next
  case S_trailers
  then have "parse_trailers p buf = (True, q, rest) \<and> Return Complete = c"
    using assms body_control_done by (simp add: parse_step_def)
  with S_trailers parse_trailers_extend show ?thesis by (simp add: parse_step_def)
qed (use assms in \<open>auto simp: parse_step_def\<close>)

text \<open>An iteration that reports \<open>Incomplete\<close> changed nothing, but for the trailer lines it stored.\<close>

lemma parse_step_incomplete:
  assumes "parse_step t p buf = (Return Incomplete, q, rest)"
  shows "q = p \<and> rest = buf \<or>
    p_state p = S_trailers \<and> parse_trailers p buf = (False, q, rest) \<and> p_error q = E_none"
proof (cases "p_state p")
  case S_headers
  with assms show ?thesis
    by (auto simp: parse_step_def headers_step_def Let_def split: option.splits if_splits prod.splits)
next
  case S_start_line
  with assms show ?thesis
    by (auto simp: parse_step_def start_line_step_def Let_def split: option.splits if_splits prod.splits)
next
  case S_chunk_size
  with assms show ?thesis
    by (auto simp: parse_step_def step_defs Let_def split: option.splits if_splits)
next
  case S_chunk_data
  with assms show ?thesis
    by (auto simp: parse_step_def step_defs Let_def split: option.splits if_splits)
next
  case S_fixed_body
  with assms show ?thesis
    by (auto simp: parse_step_def step_defs Let_def split: option.splits if_splits)
qed (use assms in \<open>auto simp: parse_step_def body_control_def split: prod.splits if_splits\<close>)

lemma parse_trailers_state:
  assumes "p_state p = S_trailers"
  shows "parse t p buf =
    (let (ok, q, rest) = parse_trailers p buf in
     (Some (if ok then Complete else if p_error q = E_none then Incomplete else Error), q, rest))"
  using assms by (auto simp: parse.simps [of t p buf] parse_step_def body_control_def split: prod.splits)

lemma parse_resume:
  "parse t p buf = (Some Incomplete, q, rest) \<Longrightarrow> parse t p (buf @ s) = parse t q (rest @ s)"
proof (induction t p buf rule: parse.induct)
  case (1 t p buf)
  obtain c p1 b1 where step: "parse_step t p buf = (c, p1, b1)" by (cases "parse_step t p buf")
  show ?case
  proof (cases c)
    case Again
    then have "parse t p (buf @ s) = parse t p1 (b1 @ s)"
      using step parse_step_extend parse_Again by metis
    moreover have "parse t p1 b1 = (Some Incomplete, q, rest)"
      using 1(2) step Again by (simp add: parse_Again)
    ultimately show ?thesis using 1(1) step Again by metis
  next
    case (Return st)
    with 1(2) step have eq: "st = Incomplete" "p1 = q" "b1 = rest" by (simp_all add: parse_Return)
    with step Return parse_step_incomplete have
      "q = p \<and> rest = buf \<or> p_state p = S_trailers \<and> parse_trailers p buf = (False, q, rest) \<and> p_error q = E_none"
      by blast
    then show ?thesis
    proof
      assume tr: "p_state p = S_trailers \<and> parse_trailers p buf = (False, q, rest) \<and> p_error q = E_none"
      then have "p_state q = S_trailers \<and> parse_trailers p (buf @ s) = parse_trailers q (rest @ s)"
        using parse_trailers_resume by metis
      with tr show ?thesis by (simp add: parse_trailers_state)
    qed simp
  next
    case Out_of_bounds
    with 1(2) step show ?thesis by (simp add: parse_Out_of_bounds)
  qed
qed

lemma parse_complete_extend:
  "parse t p buf = (Some Complete, q, rest) \<Longrightarrow> parse t p (buf @ s) = (Some Complete, q, rest @ s)"
proof (induction t p buf rule: parse.induct)
  case (1 t p buf)
  obtain c p1 b1 where step: "parse_step t p buf = (c, p1, b1)" by (cases "parse_step t p buf")
  show ?case
  proof (cases c)
    case Again
    then show ?thesis using 1 step parse_step_extend [OF step] by (simp add: parse_Again)
  next
    case (Return st)
    then show ?thesis using 1(2) step parse_step_extend [OF step] by (simp add: parse_Return)
  next
    case Out_of_bounds
    with 1(2) step show ?thesis by (simp add: parse_Out_of_bounds)
  qed
qed

subsection \<open>The head loop\<close>

lemma head_step_extend:
  assumes "head_step t p buf = (c, q, rest)" and "c = Again \<or> c = Return Complete"
  shows "head_step t p (buf @ s) = (c, q, rest @ s)"
proof (cases "p_state p")
  case S_start_line
  have "c \<noteq> Return Complete" using assms S_start_line
    by (auto simp: head_step_def start_line_step_def Let_def split: option.splits if_splits prod.splits)
  with assms S_start_line start_line_step_extend show ?thesis by (auto simp: head_step_def)
next
  case S_headers
  with assms headers_step_extend show ?thesis by (simp add: head_step_def)
qed (use assms in \<open>auto simp: head_step_def\<close>)

lemma head_step_incomplete: "head_step t p buf = (Return Incomplete, q, rest) \<Longrightarrow> q = p \<and> rest = buf"
  by (auto simp: head_step_def headers_step_def start_line_step_def Let_def
      split: parser_state.splits option.splits if_splits prod.splits)

lemma parse_head_Return: "head_step t p buf = (Return st, q, rest) \<Longrightarrow> parse_head t p buf = (Some st, q, rest)"
  by (simp add: parse_head.simps [of t p buf])

lemma parse_head_Again: "head_step t p buf = (Again, q, rest) \<Longrightarrow> parse_head t p buf = parse_head t q rest"
  by (simp add: parse_head.simps [of t p buf])

lemma head_step_control: "head_step t p buf = (c, q, rest) \<Longrightarrow> c \<noteq> Out_of_bounds"
  by (auto simp: head_step_def headers_step_def start_line_step_def Let_def
      split: parser_state.splits option.splits if_splits prod.splits)

lemma parse_head_resume:
  "parse_head t p buf = (Some Incomplete, q, rest) \<Longrightarrow> parse_head t p (buf @ s) = parse_head t q (rest @ s)"
proof (induction t p buf rule: parse_head.induct)
  case (1 t p buf)
  obtain c p1 b1 where step: "head_step t p buf = (c, p1, b1)" by (cases "head_step t p buf")
  show ?case
  proof (cases c)
    case Again
    then have "parse_head t p (buf @ s) = parse_head t p1 (b1 @ s)"
      using step head_step_extend parse_head_Again by metis
    moreover have "parse_head t p1 b1 = (Some Incomplete, q, rest)"
      using 1(2) step Again by (simp add: parse_head_Again)
    ultimately show ?thesis using 1(1) step Again by metis
  next
    case (Return st)
    with 1(2) step have "st = Incomplete" "p1 = q" "b1 = rest" by (simp_all add: parse_head_Return)
    with step Return head_step_incomplete show ?thesis by blast
  next
    case Out_of_bounds
    with step head_step_control show ?thesis by blast
  qed
qed


subsection \<open>Segmented delivery\<close>

text \<open>
  A connection's read loop: each segment is appended to the bytes the last call left, until a
  call reports something else than \<open>Incomplete\<close>; what arrives later stays in the buffer.
\<close>

fun feed_request :: "timestamp \<Rightarrow> http_parser \<Rightarrow> string \<Rightarrow> string list \<Rightarrow>
    parse_status option \<times> http_parser \<times> string" where
  "feed_request t p left [] = (Some Incomplete, p, left)"
| "feed_request t p left (s # ss) =
     (case parse_request t p (left @ s) of
        (Some Incomplete, q, rest) \<Rightarrow> feed_request t q rest ss
      | (st, q, rest) \<Rightarrow> (st, q, rest @ concat ss))"

lemma parse_request_resume:
  assumes "parse_request t p buf = (Some Incomplete, q, rest)"
  shows "parse_request t p (buf @ s) = parse_request t q (rest @ s)"
proof -
  have run: "parse t (p\<lparr>p_mode := Mode_request, p_head_only := False\<rparr>) buf = (Some Incomplete, q, rest)"
    using assms by (simp add: parse_request_def)
  from parse_frame [OF run] have "q\<lparr>p_mode := Mode_request, p_head_only := False\<rparr> = q"
    by (cases q) (simp add: same_frame_def)
  with parse_resume [OF run, of s] show ?thesis by (simp add: parse_request_def)
qed

lemma parse_request_complete_extend:
  "parse_request t p buf = (Some Complete, q, rest) \<Longrightarrow>
   parse_request t p (buf @ s) = (Some Complete, q, rest @ s)"
  by (simp add: parse_request_def parse_complete_extend)

lemma feed_request_concat:
  "feed_request t p left ss = (st, q, rest) \<Longrightarrow> ss \<noteq> [] \<Longrightarrow> st = Some Incomplete \<or> st = Some Complete \<Longrightarrow>
   parse_request t p (left @ concat ss) = (st, q, rest)"
proof (induction ss arbitrary: p left)
  case (Cons s ss)
  obtain st1 q1 rest1 where run: "parse_request t p (left @ s) = (st1, q1, rest1)"
    by (cases "parse_request t p (left @ s)")
  show ?case
  proof (cases "st1 = Some Incomplete")
    case True
    with run Cons.prems have "feed_request t q1 rest1 ss = (st, q, rest)" by simp
    with Cons True run show ?thesis
      using parse_request_resume [of t p "left @ s" q1 rest1 "concat ss"]
      by (cases ss) auto
  next
    case False
    with run Cons.prems have "st = st1" "q = q1" "rest = rest1 @ concat ss"
      by (auto split: option.splits parse_status.splits)
    with False Cons.prems(3) run show ?thesis
      using parse_request_complete_extend [of t p "left @ s" q1 rest1 "concat ss"] by auto
  qed
qed simp

subsection \<open>Properties\<close>


definition sample_segments :: "string list" where
  "sample_segments = [''POST /a HTTP/1.1'' @ [CHR 0x0D], [CHR 0x0A] @ ''Host: h'' @ crlf,
     ''Content-Length: 2'' @ crlf @ crlf @ ''o'', ''kGET'']"

definition sample_parser :: http_parser where
  "sample_parser = parser_new Mode_request default_parser_options"


text \<open>
  The limits see the cut, though: a start line of exactly the allowed length passes in one piece
  and is refused when the piece ends between its CR and LF.
\<close>

lemma line_limit_depends_on_cut:
  defines "p0 \<equiv> parser_new Mode_request \<lparr>max_start_line = 14, max_headers = 100, max_body = 100\<rparr>"
  shows "fst (feed_request 0 p0 [] [''GET / HTTP/1.0'' @ crlf @ crlf]) = Some Complete \<and>
    fst (feed_request 0 p0 [] [''GET / HTTP/1.0'' @ [CHR 0x0D], [CHR 0x0A] @ crlf]) = Some Error"
  unfolding p0_def by code_simp

end
