(* ===== verification/Parser_Safety.thy ===== *)
theory Parser_Safety
  imports Parser_Segments
begin

text \<open>
  What a message the parser has accepted looks like. The invariant \<open>parser_inv\<close> holds of every
  parser a connection can reach; a request that comes out \<open>Complete\<close> has one unambiguous body
  length, no message exceeds the configured limits, and no read leaves the buffer.
\<close>

subsection \<open>Specification\<close>

text \<open>RFC 9112 6.3: one body length. Chunked excludes a Content-Length, and all lengths agree.\<close>

definition framing_safe :: "http_headers \<Rightarrow> bool" where
  "framing_safe h \<longleftrightarrow>
     (case content_lengths h of
        None \<Rightarrow> False
      | Some ns \<Rightarrow>
          (\<forall>a\<in>set ns. \<forall>b\<in>set ns. a = b) \<and>
          (transfer_codings h \<noteq> [] \<longrightarrow> ns = [] \<and> last (transfer_codings h) = ''chunked''))"

definition declared_length :: "http_headers \<Rightarrow> u64 option" where
  "declared_length h = (case content_lengths h of Some (n # ns) \<Rightarrow> Some n | _ \<Rightarrow> None)"

definition header_weight :: "http_headers \<Rightarrow> nat" where
  "header_weight h = sum_list (map (\<lambda>e. length (h_field e) + length (h_value e)) h)"

definition message_body :: "http_parser \<Rightarrow> string" where
  "message_body p = (if p_mode p = Mode_request then r_body (p_request p) else m_body (p_response p))"

definition bodyless :: "http_parser \<Rightarrow> bool" where
  "bodyless p \<longleftrightarrow> p_mode p = Mode_response \<and> \<not> status_code_allows_body (m_status_code (p_response p))"

definition head_ok :: "http_parser \<Rightarrow> bool" where
  "head_ok p \<longleftrightarrow>
     framing_safe (message_headers p) \<and> header_weight (message_headers p) \<le> max_headers (p_options p) \<and>
     (p_mode p = Mode_request \<and> r_version (p_request p) = V_http11 \<longrightarrow>
       hdr_contains ''Host'' (r_headers (p_request p)))"

definition body_ok :: "http_parser \<Rightarrow> bool" where
  "body_ok p \<longleftrightarrow>
     length (message_body p) \<le> max_body (p_options p) \<and>
     (if bodyless p then message_body p = []
      else if transfer_codings (message_headers p) \<noteq> [] then True
      else length (message_body p) =
        (case declared_length (message_headers p) of None \<Rightarrow> 0 | Some n \<Rightarrow> unat n))"

definition chunks_ok :: "http_parser \<Rightarrow> nat \<Rightarrow> bool" where
  "chunks_ok p pending \<longleftrightarrow>
     head_ok p \<and> \<not> bodyless p \<and> transfer_codings (message_headers p) \<noteq> [] \<and>
     unat (p_decoded_body_bytes p) = length (message_body p) \<and>
     length (message_body p) + pending \<le> max_body (p_options p)"

definition parser_inv :: "http_parser \<Rightarrow> bool" where
  "parser_inv p \<longleftrightarrow>
     (case p_state p of
        S_start_line \<Rightarrow> message_headers p = [] \<and> message_body p = [] \<and>
          p_decoded_body_bytes p = 0 \<and> p_header_bytes p = 0
      | S_headers \<Rightarrow> header_weight (message_headers p) \<le> p_header_bytes p \<and>
          p_header_bytes p \<le> max_headers (p_options p) \<and> message_body p = [] \<and> p_decoded_body_bytes p = 0
      | S_fixed_body \<Rightarrow> head_ok p \<and> \<not> bodyless p \<and> transfer_codings (message_headers p) = [] \<and>
          declared_length (message_headers p) = Some (p_fixed_body_bytes p) \<and>
          unat (p_fixed_body_bytes p) \<le> max_body (p_options p)
      | S_chunk_size \<Rightarrow> chunks_ok p 0
      | S_chunk_data \<Rightarrow> chunks_ok p (unat (p_current_chunk_size p))
      | S_trailers \<Rightarrow> chunks_ok p 0
      | S_complete \<Rightarrow> head_ok p \<and> body_ok p
      | S_error \<Rightarrow> True)"

text \<open>A parser that only meets whole-message calls, as the server's contexts use it.\<close>

inductive parser_session :: "parser_mode \<Rightarrow> parser_options \<Rightarrow> http_parser \<Rightarrow> bool"
  for mode :: parser_mode and options :: parser_options where
  session_new: "parser_session mode options (parser_new mode options)"
| session_request:
    "\<lbrakk>parser_session mode options p; mode = Mode_request; parse_request t p buf = (Some status, q, rest)\<rbrakk>
     \<Longrightarrow> parser_session mode options q"
| session_response:
    "\<lbrakk>parser_session mode options p; mode = Mode_response; parse_response p buf = (Some status, q, rest)\<rbrakk>
     \<Longrightarrow> parser_session mode options q"
| session_reset: "parser_session mode options p \<Longrightarrow> parser_session mode options (parser_reset p)"

inductive_cases parser_session_cases: "parser_session mode options p"

subsection \<open>Header collection facts\<close>

lemma header_weight_Nil [simp]: "header_weight [] = 0"
  by (simp add: header_weight_def)

lemma parse_header_line_weight:
  assumes "parse_header_line line h = Some h'"
  shows "header_weight h' \<le> header_weight h + length line"
proof -
  obtain i where i: "find_char CHR '':'' line = Some i" and h': "h' = hdr_add (take i line) (drop (i + 1) line) h"
    using assms by (auto simp: parse_header_line_def split: if_splits option.splits)
  have "i < length line" using i by (simp add: find_char_Some)
  then show ?thesis
    using length_trim_ows [of "drop (i + 1) line"] length_trim_ows [of "take i line"]
    by (simp add: h' hdr_add_def header_weight_def)
qed

lemma agree_lengths_Some:
  "agree_lengths (Some n) ns = Some r \<longleftrightarrow> r = Some n \<and> (\<forall>m\<in>set ns. m = n)"
  by (induction ns) auto

lemma agree_lengths_None:
  "agree_lengths None ns = Some r \<longleftrightarrow>
    (case ns of [] \<Rightarrow> r = None | n # _ \<Rightarrow> r = Some n) \<and> (\<forall>a\<in>set ns. \<forall>b\<in>set ns. a = b)"
  by (cases ns) (auto simp: agree_lengths_Some, (metis | blast)+)

lemma content_lengths_Nil [simp]: "content_lengths [] = Some []"
  by (simp add: content_lengths_def hdr_values_def)

lemma set_message_headers_simps [simp]:
  "message_headers (set_message_headers h p) = h" "message_body (set_message_headers h p) = message_body p"
  "p_header_bytes (set_message_headers h p) = p_header_bytes p" "p_options (set_message_headers h p) = p_options p"
  "p_decoded_body_bytes (set_message_headers h p) = p_decoded_body_bytes p"
  "p_state (set_message_headers h p) = p_state p" "p_head_only (set_message_headers h p) = p_head_only p"
  by (simp_all add: set_message_headers_def message_headers_def message_body_def)

lemma set_message_content_length_simps [simp]:
  "message_headers (set_message_content_length n p) = message_headers p"
  "message_body (set_message_content_length n p) = message_body p"
  "p_options (set_message_content_length n p) = p_options p"
  "bodyless (set_message_content_length n p) = bodyless p"
  "head_ok (set_message_content_length n p) = head_ok p"
  by (simp_all add: set_message_content_length_def message_headers_def message_body_def bodyless_def head_ok_def)

lemma state_update_simps [simp]:
  "message_headers (p\<lparr>p_state := st\<rparr>) = message_headers p" "message_body (p\<lparr>p_state := st\<rparr>) = message_body p"
  "bodyless (p\<lparr>p_state := st\<rparr>) = bodyless p" "head_ok (p\<lparr>p_state := st\<rparr>) = head_ok p"
  "body_ok (p\<lparr>p_state := st\<rparr>) = body_ok p"
  "chunks_ok (p\<lparr>p_state := st\<rparr>) n = chunks_ok p n"
  by (simp_all add: message_headers_def message_body_def bodyless_def head_ok_def body_ok_def chunks_ok_def)

subsection \<open>The steps keep the invariant\<close>

lemma set_method_keeps:
  "set_method m r = (ok, r') \<Longrightarrow> r_headers r' = r_headers r \<and> r_body r' = r_body r"
  by (auto simp: set_method_def split: if_splits)

lemma set_request_target_keeps:
  "r_headers (set_request_target u r) = r_headers r" "r_body (set_request_target u r) = r_body r"
  by (simp_all add: set_request_target_def set_path_and_query_def Let_def split: option.split)

lemma parse_request_line_keeps:
  "parse_request_line line t p = (True, q) \<Longrightarrow>
   p_mode q = p_mode p \<and> p_header_bytes q = p_header_bytes p \<and> p_decoded_body_bytes q = p_decoded_body_bytes p \<and>
   r_headers (p_request q) = r_headers (p_request p) \<and> r_body (p_request q) = r_body (p_request p)"
  by (auto simp: parse_request_line_def set_error_def Let_def set_request_target_keeps
      split: option.splits if_splits prod.splits dest!: set_method_keeps)

lemma parse_response_line_keeps:
  "parse_response_line line p = (True, q) \<Longrightarrow>
   p_mode q = p_mode p \<and> p_header_bytes q = p_header_bytes p \<and> p_decoded_body_bytes q = p_decoded_body_bytes p \<and>
   m_headers (p_response q) = m_headers (p_response p) \<and> m_body (p_response q) = m_body (p_response p)"
  by (auto simp: parse_response_line_def set_error_def Let_def split: option.splits if_splits prod.splits)

lemma start_line_step_inv:
  assumes "start_line_step t p buf = (c, q, rest)" and "p_state p = S_start_line" and "parser_inv p"
  shows "parser_inv q \<and> c \<noteq> Out_of_bounds \<and> (c = Return Complete \<longrightarrow> p_state q = S_complete)"
proof (cases "find_str crlf buf")
  case None
  with assms show ?thesis
    by (auto simp: start_line_step_def set_error_def parser_inv_def split: if_splits)
next
  case (Some n)
  let ?l = "take n buf"
  obtain ok p1 where line: "(if p_mode p = Mode_request then parse_request_line ?l t p
      else parse_response_line ?l p) = (ok, p1)" by fastforce
  have err: "p_state p1 = S_error" if "\<not> ok"
    using line that by (auto simp: parse_request_line_def parse_response_line_def set_error_def Let_def
        split: if_splits option.splits prod.splits)
  have good: "message_headers p1 = message_headers p \<and> message_body p1 = message_body p \<and>
      p_header_bytes p1 = p_header_bytes p \<and> p_decoded_body_bytes p1 = p_decoded_body_bytes p" if ok
    using line that
    by (auto simp: message_headers_def message_body_def dest: parse_request_line_keeps parse_response_line_keeps
        split: if_splits)
  show ?thesis
    using assms err good unfolding start_line_step_def Some option.case line Let_def
    by (auto simp: parser_inv_def set_error_def message_headers_def message_body_def split: if_splits)
qed

lemma finish_headers_inv:
  assumes fin: "finish_headers p = (True, q)" and st: "p_state p = S_headers" and inv: "parser_inv p"
    and whole: "\<not> p_head_only p"
  shows "parser_inv q \<and> p_state q \<noteq> S_headers"
proof -
  let ?h = "message_headers p"
  obtain ns where ns: "content_lengths ?h = Some ns"
    using fin by (auto simp: finish_headers_def set_error_def split: option.splits)
  obtain clen where clen: "agree_lengths None ns = Some clen"
    using fin ns by (auto simp: finish_headers_def set_error_def split: option.splits)
  then have decl: "clen = declared_length ?h" and agree: "\<forall>a\<in>set ns. \<forall>b\<in>set ns. a = b"
    and none: "clen = None \<longleftrightarrow> ns = []"
    using ns by (auto simp: agree_lengths_None declared_length_def split: list.splits)
  obtain ch present te_ok where te: "is_chunked_transfer ?h = (ch, present, te_ok)"
    by (cases "is_chunked_transfer ?h") auto
  have fin': "te_ok" "\<not> (present \<and> clen \<noteq> None)"
    using fin by (auto simp: finish_headers_def ns clen te set_error_def split: if_splits)
  then have codings: "ch \<longleftrightarrow> transfer_codings ?h \<noteq> []" "ch \<Longrightarrow> clen = None"
    "ch \<Longrightarrow> last (transfer_codings ?h) = ''chunked''"
    using te by (auto simp: is_chunked_transfer_def Let_def split: if_splits)
  then have safe: "framing_safe ?h"
    using ns agree none by (auto simp: framing_safe_def)
  have old: "message_body p = []" "p_decoded_body_bytes p = 0" "header_weight ?h \<le> max_headers (p_options p)"
    using inv st by (auto simp: parser_inv_def)
  show ?thesis
  proof (cases "bodyless p")
    case True
    then have "q = (case clen of None \<Rightarrow> p | Some n \<Rightarrow> set_message_content_length n p)\<lparr>p_state := S_complete\<rparr>"
      using fin fin' by (auto simp: finish_headers_def ns clen te bodyless_def finish_message_def)
    moreover have "head_ok p" using True safe old by (simp add: head_ok_def bodyless_def)
    ultimately show ?thesis
      using True old by (cases clen) (simp_all add: parser_inv_def body_ok_def)
  next
    case False
    note go = fin [unfolded finish_headers_def ns option.case clen te Let_def prod.case]
    have head: "head_ok p"
      using go fin' False safe old
      by (auto simp: head_ok_def bodyless_def set_error_def split: if_splits)
    show ?thesis
    proof (cases ch)
      case True
      then have "q = (if p_mode p = Mode_response then p\<lparr>p_response := (p_response p)\<lparr>m_chunked := True\<rparr>\<rparr> else p)
          \<lparr>p_chunked := True, p_state := S_chunk_size\<rparr>"
        using go fin' False by (auto simp: bodyless_def set_error_def split: if_splits)
      with True head old False codings(1) show ?thesis
        by (auto simp: parser_inv_def chunks_ok_def head_ok_def bodyless_def message_headers_def message_body_def)
    next
      case not_chunked: False
      show ?thesis
      proof (cases clen)
        case None
        then have "q = p\<lparr>p_state := S_complete\<rparr>"
          using go fin' False not_chunked
          by (auto simp: bodyless_def set_error_def finish_message_def split: if_splits)
        with None head old False codings(1) not_chunked decl show ?thesis
          by (simp add: parser_inv_def body_ok_def)
      next
        case (Some n)
        let ?p = "set_message_content_length n p"
        have q: "q = (if n = 0 then ?p\<lparr>p_state := S_complete\<rparr>
            else ?p\<lparr>p_fixed_body_bytes := n, p_state := S_fixed_body\<rparr>)"
          and size: "n \<noteq> 0 \<Longrightarrow> unat n \<le> max_body (p_options p)"
          using go fin' False not_chunked Some whole
          by (auto simp: bodyless_def set_error_def finish_message_def split: if_splits)
        have fixed: "message_headers (?p\<lparr>p_fixed_body_bytes := n\<rparr>) = message_headers p"
          "bodyless (?p\<lparr>p_fixed_body_bytes := n\<rparr>) = bodyless p" "head_ok (?p\<lparr>p_fixed_body_bytes := n\<rparr>) = head_ok p"
          by (simp_all add: set_message_content_length_def message_headers_def bodyless_def head_ok_def)
        show ?thesis
          using q size Some head old False codings(1) not_chunked decl fixed
          by (auto simp: parser_inv_def body_ok_def)
      qed
    qed
  qed
qed

text \<open>What a step owes the loop.\<close>

definition step_ok :: "control \<times> http_parser \<times> string \<Rightarrow> bool" where
  "step_ok r \<longleftrightarrow> (case r of (c, q, rest) \<Rightarrow>
     parser_inv q \<and> c \<noteq> Out_of_bounds \<and> (c = Return Complete \<longrightarrow> p_state q = S_complete))"

lemma error_inv [simp]: "p_state p = S_error \<Longrightarrow> parser_inv p"
  by (simp add: parser_inv_def)

lemma finish_headers_error: "finish_headers p = (False, q) \<Longrightarrow> p_state q = S_error"
  by (auto simp: finish_headers_def set_error_def finish_message_def Let_def
      split: option.splits if_splits prod.splits)

lemma headers_step_inv:
  assumes st: "p_state p = S_headers" and inv: "parser_inv p"
    and whole: "\<not> p_head_only p"
  shows "step_ok (headers_step False p buf)"
proof (cases "find_str crlf buf")
  case None
  then show ?thesis using inv by (simp add: headers_step_def set_error_def step_ok_def)
next
  case (Some n)
  let ?p = "p\<lparr>p_header_bytes := p_header_bytes p + (n + 2)\<rparr>"
  have same: "message_headers ?p = message_headers p" "message_body ?p = message_body p"
    by (simp_all add: message_headers_def message_body_def)
  show ?thesis
  proof (cases "max_headers (p_options p) < p_header_bytes p + (n + 2)")
    case True
    with Some show ?thesis by (simp add: headers_step_def set_error_def step_ok_def)
  next
    case False
    then have inv1: "parser_inv ?p" using inv st same by (auto simp: parser_inv_def)
    show ?thesis
    proof (cases "n = 0")
      case True
      obtain ok q where fin: "finish_headers ?p = (ok, q)" by fastforce
      have "ok \<Longrightarrow> parser_inv q \<and> p_state q \<noteq> S_headers"
        using finish_headers_inv fin inv1 st whole by (cases ok) auto
      moreover have "\<not> ok \<Longrightarrow> p_state q = S_error" using finish_headers_error fin by (cases ok) auto
      ultimately show ?thesis
        using Some True False fin by (auto simp: headers_step_def step_ok_def Let_def)
    next
      case n0: False
      show ?thesis
      proof (cases "parse_header_line (take n buf) (message_headers p)")
        case None
        with Some False n0 same show ?thesis
          by (simp add: headers_step_def set_error_def step_ok_def)
      next
        case (Some h)
        then have "parser_inv (set_message_headers h ?p)"
          using parse_header_line_weight [OF Some] inv inv1 st same by (auto simp: parser_inv_def)
        with Some \<open>find_str crlf buf = Some n\<close> False n0 same show ?thesis
          by (simp add: headers_step_def step_ok_def)
      qed
    qed
  qed
qed

lemma parse_fixed_body_inv:
  assumes "p_state p = S_fixed_body" and "parser_inv p"
  shows "step_ok (body_control (parse_fixed_body p buf) (Return Complete))"
  using assms
  by (auto simp: parse_fixed_body_def finish_message_def Let_def body_control_def step_ok_def parser_inv_def
      body_ok_def message_headers_def message_body_def bodyless_def head_ok_def)

lemma parse_chunk_size_inv:
  assumes "p_state p = S_chunk_size" and "parser_inv p"
  shows "step_ok (body_control (parse_chunk_size p buf) Again)"
proof (cases "find_str crlf buf")
  case None
  with assms show ?thesis by (simp add: parse_chunk_size_def body_control_def step_ok_def)
next
  case (Some n)
  have chunk: "chunks_ok p 0" using assms by (simp add: parser_inv_def)
  have upd: "chunks_ok (p\<lparr>p_current_chunk_size := len\<rparr>) m = chunks_ok p m" for len m
    by (simp add: chunks_ok_def head_ok_def bodyless_def message_headers_def message_body_def)
  obtain ok q rest where r: "parse_chunk_size p buf = (ok, q, rest)" by (cases "parse_chunk_size p buf")
  have "parser_inv q"
    using r [unfolded parse_chunk_size_def Some option.case Let_def] chunk upd
    by (auto simp: set_error_def parser_inv_def chunks_ok_def [of p] split: if_split_asm option.split_asm)
  then show ?thesis using r by (simp add: body_control_def step_ok_def)
qed

lemma parse_chunk_data_inv:
  assumes st: "p_state p = S_chunk_data" and inv: "parser_inv p" and room: "max_body (p_options p) + 2 < 2 ^ 64"
  obtains r where "parse_chunk_data p buf = Some r" and "step_ok (body_control r Again)"
proof -
  let ?n = "unat (p_current_chunk_size p)"
  have chunk: "chunks_ok p ?n" using st inv by (simp add: parser_inv_def)
  then have fits: "length (message_body p) + ?n \<le> max_body (p_options p)"
    and decoded: "unat (p_decoded_body_bytes p) = length (message_body p)"
    by (simp_all add: chunks_ok_def)
  have required: "unat (p_current_chunk_size p + 2) = ?n + 2"
    using fits room unat_add_u64 [of "p_current_chunk_size p" 2] by simp
  have total: "unat (p_decoded_body_bytes p + p_current_chunk_size p) = length (message_body p) + ?n"
    using fits room decoded unat_add_u64 [of "p_decoded_body_bytes p" "p_current_chunk_size p"] by simp
  show ?thesis
  proof (cases "length buf < ?n + 2")
    case True
    then show ?thesis
      using required inv
      by (intro that [of "(False, p, buf)"]) (auto simp: parse_chunk_data_def step_ok_def body_control_def)
  next
    case False
    show ?thesis
    proof (cases "buf ! ?n \<noteq> CHR 0x0D \<or> buf ! (?n + 1) \<noteq> CHR 0x0A")
      case True
      with False required show ?thesis
        by (intro that) (auto simp: parse_chunk_data_def set_error_def step_ok_def body_control_def)
    next
      case ends: False
      let ?p = "(if p_mode p = Mode_request
                  then p\<lparr>p_request := (p_request p)\<lparr>r_body := r_body (p_request p) @ take ?n buf\<rparr>\<rparr>
                  else p\<lparr>p_response := (p_response p)\<lparr>m_body := m_body (p_response p) @ take ?n buf\<rparr>\<rparr>)
          \<lparr>p_decoded_body_bytes := p_decoded_body_bytes p + p_current_chunk_size p, p_state := S_chunk_size\<rparr>"
      have "length (message_body ?p) = length (message_body p) + ?n"
        using False by (simp add: message_body_def)
      moreover have "p_decoded_body_bytes ?p = p_decoded_body_bytes p + p_current_chunk_size p" by simp
      moreover have "head_ok ?p = head_ok p" "bodyless ?p = bodyless p" "message_headers ?p = message_headers p"
        by (simp_all add: head_ok_def bodyless_def message_headers_def)
      ultimately have "chunks_ok ?p 0"
        using chunk total fits by (simp add: chunks_ok_def)
      then have "parser_inv ?p" by (simp add: parser_inv_def)
      with False ends required show ?thesis
        by (intro that [of "(True, ?p, drop (?n + 2) buf)"]) (simp_all add: parse_chunk_data_def step_ok_def Let_def)
    qed
  qed
qed

lemma set_message_trailers_keeps:
  "p_state (set_message_trailers h p) = p_state p" "chunks_ok (set_message_trailers h p) n = chunks_ok p n"
  by (simp_all add: set_message_trailers_def chunks_ok_def head_ok_def bodyless_def message_headers_def
      message_body_def)

lemma parse_trailers_inv:
  "p_state p = S_trailers \<Longrightarrow> parser_inv p \<Longrightarrow>
   step_ok (body_control (parse_trailers p buf) (Return Complete))"
proof (induction buf arbitrary: p rule: length_induct)
  case (1 buf)
  have chunk: "chunks_ok p 0" using 1(2,3) by (simp add: parser_inv_def)
  show ?case
  proof (cases p buf rule: parse_trailers_cases)
    case finish
    with chunk show ?thesis
      by (simp add: step_ok_def finish_message_def parser_inv_def chunks_ok_def body_ok_def)
  next
    case (line n h)
    have "step_ok (body_control (parse_trailers (set_message_trailers h p) (drop (n + 2) buf)) (Return Complete))"
      using 1(1) trailer_line_shorter [OF line(1)] 1(2) chunk
      by (simp add: set_message_trailers_keeps parser_inv_def)
    with line(2) show ?thesis by simp
  qed (use 1(3) in \<open>simp_all add: step_ok_def body_control_def set_error_def\<close>)
qed

lemma parse_step_inv:
  assumes "parser_inv p" and "\<not> p_head_only p" and "max_body (p_options p) + 2 < 2 ^ 64"
  shows "step_ok (parse_step t p buf)"
proof (cases "p_state p")
  case S_start_line
  with assms start_line_step_inv show ?thesis
    by (cases "start_line_step t p buf") (auto simp: parse_step_def step_ok_def)
next
  case S_headers
  with assms headers_step_inv show ?thesis by (simp add: parse_step_def)
next
  case S_fixed_body
  with assms parse_fixed_body_inv show ?thesis by (simp add: parse_step_def)
next
  case S_chunk_size
  with assms parse_chunk_size_inv show ?thesis by (simp add: parse_step_def)
next
  case S_chunk_data
  then obtain r where "parse_chunk_data p buf = Some r" "step_ok (body_control r Again)"
    using parse_chunk_data_inv assms by blast
  with S_chunk_data show ?thesis by (simp add: parse_step_def)
next
  case S_trailers
  with assms parse_trailers_inv show ?thesis by (simp add: parse_step_def)
qed (use assms in \<open>simp_all add: parse_step_def step_ok_def\<close>)

lemma parse_inv:
  "parse t p buf = (r, q, rest) \<Longrightarrow> parser_inv p \<Longrightarrow> \<not> p_head_only p \<Longrightarrow> max_body (p_options p) + 2 < 2 ^ 64 \<Longrightarrow>
   parser_inv q \<and> r \<noteq> None \<and> (r = Some Complete \<longrightarrow> p_state q = S_complete)"
proof (induction t p buf rule: parse.induct)
  case (1 t p buf)
  obtain c p1 b1 where step: "parse_step t p buf = (c, p1, b1)" by (cases "parse_step t p buf")
  have ok: "parser_inv p1 \<and> c \<noteq> Out_of_bounds \<and> (c = Return Complete \<longrightarrow> p_state p1 = S_complete)"
    using parse_step_inv [OF 1(3,4,5), of t buf] step by (simp add: step_ok_def)
  show ?case
  proof (cases c)
    case Again
    have "\<not> p_head_only p1" "max_body (p_options p1) + 2 < 2 ^ 64"
      using parse_step_frame [OF step] 1(4,5) by (simp_all add: same_frame_def)
    with 1(1,2) step Again ok show ?thesis by (metis parse_Again)
  qed (use 1(2) step ok in \<open>auto simp: parse_steps\<close>)
qed

subsection \<open>Sessions\<close>

lemma parser_new_inv: "parser_inv (parser_new m options)" "parser_inv (parser_reset p)"
  by (simp_all add: parser_inv_def parser_new_def parser_reset_def message_headers_def message_body_def
      request_new_def response_message_new_def)

lemma whole_message_call:
  "p_mode p = m \<Longrightarrow> \<not> p_head_only p \<Longrightarrow> p\<lparr>p_mode := m, p_head_only := False\<rparr> = p"
  by (cases p) simp

lemma parse_keeps_session:
  assumes "parse t p buf = (Some status, q, rest)" and "max_body options + 2 < 2 ^ 64"
    and "parser_inv p \<and> p_mode p = mode \<and> \<not> p_head_only p \<and> p_options p = options"
  shows "parser_inv q \<and> p_mode q = mode \<and> \<not> p_head_only q \<and> p_options q = options"
  using parse_inv [OF assms(1)] parse_frame [OF assms(1)] assms(2,3) by (simp add: same_frame_def)

lemma parser_session_inv:
  assumes "parser_session mode options p" and "max_body options + 2 < 2 ^ 64"
  shows "parser_inv p \<and> p_mode p = mode \<and> \<not> p_head_only p \<and> p_options p = options"
  using assms(1)
proof induction
  case session_new
  show ?case using parser_new_inv by (simp add: parser_new_def)
next
  case (session_request p t buf status q rest)
  then have "parse t p buf = (Some status, q, rest)"
    by (simp add: parse_request_def whole_message_call)
  then show ?case using parse_keeps_session assms(2) session_request.IH by blast
next
  case (session_response p buf status q rest)
  then have "parse 0 p buf = (Some status, q, rest)"
    by (simp add: parse_response_def whole_message_call)
  then show ?case using parse_keeps_session assms(2) session_response.IH by blast
next
  case (session_reset p)
  then show ?case using parser_new_inv(2) by (simp add: parser_reset_def)
qed


subsection \<open>Properties\<close>

lemma session_call:
  assumes "parser_session Mode_request options p" and "max_body options + 2 < 2 ^ 64"
  shows "\<exists>st q rest. parse_request t p buf = (Some st, q, rest) \<and> parser_inv q \<and> p_mode q = Mode_request \<and>
    p_options q = options \<and> (st = Complete \<longrightarrow> p_state q = S_complete)"
proof -
  have inv: "parser_inv p \<and> p_mode p = Mode_request \<and> \<not> p_head_only p \<and> p_options p = options"
    using parser_session_inv assms by blast
  then have eq: "parse_request t p buf = parse t p buf" by (simp add: parse_request_def whole_message_call)
  obtain r q rest where run: "parse t p buf = (r, q, rest)" by (cases "parse t p buf")
  with inv assms parse_inv [OF run] parse_frame [OF run] eq show ?thesis
    by (auto simp: same_frame_def)
qed

text \<open>
  C2: Whenever a connection's parser reports a request \<open>Complete\<close>, its body length is
  unambiguous (request smuggling is excluded): every \<open>Content-Length\<close> has the same value, a
  \<open>Transfer-Encoding\<close> excludes them and ends in \<open>chunked\<close>, an HTTP/1.1 request has a \<open>Host\<close>,
  and the body has exactly the declared length.
\<close>

theorem complete_request_unambiguous:
  assumes "parser_session Mode_request options p" and "max_body options + 2 < 2 ^ 64"
    and "parse_request t p buf = (Some Complete, q, rest)"
  shows "framing_safe (r_headers (p_request q)) \<and>
    (r_version (p_request q) = V_http11 \<longrightarrow> hdr_contains ''Host'' (r_headers (p_request q))) \<and>
    (transfer_codings (r_headers (p_request q)) = [] \<longrightarrow>
       length (r_body (p_request q)) =
         (case declared_length (r_headers (p_request q)) of None \<Rightarrow> 0 | Some n \<Rightarrow> unat n))"
  using session_call [OF assms(1,2), of t buf] assms(3)
  by (auto simp: parser_inv_def head_ok_def body_ok_def bodyless_def message_headers_def message_body_def)

theorem complete_request_unambiguous_witness:
  "framing_safe (r_headers (p_request (fst (snd (parse_request 7 sample_parser (concat sample_segments))))))"
proof -
  have "fst (parse_request 7 sample_parser (concat sample_segments)) = Some Complete" by code_simp
  moreover have "parser_session Mode_request default_parser_options sample_parser"
    unfolding sample_parser_def by (rule session_new)
  ultimately show ?thesis
    using complete_request_unambiguous [of default_parser_options sample_parser 7 "concat sample_segments"]
    by (cases "parse_request 7 sample_parser (concat sample_segments)") (simp add: default_parser_options_def)
qed



text \<open>
  Without the bound on \<open>max_body\<close> the last property fails: the sum of the chunk size and two
  wraps around in 64 bits, and the check of the chunk's line end reads outside the buffer.
\<close>

definition huge_chunk_options :: parser_options where
  "huge_chunk_options = \<lparr>max_start_line = 8192, max_headers = 65536, max_body = 2 ^ 64 - 1\<rparr>"

theorem huge_chunk_reads_outside:
  "fst (parse_request 0 (parser_new Mode_request huge_chunk_options)
     (''POST / HTTP/1.0'' @ crlf @ ''Transfer-Encoding: chunked'' @ crlf @ crlf @
      ''ffffffffffffffff'' @ crlf @ ''ab'')) = None"
  by code_simp

lemma feed_request_total:
  "parser_session Mode_request options p \<Longrightarrow> max_body options + 2 < 2 ^ 64 \<Longrightarrow>
   fst (feed_request t p left ss) \<noteq> None"
proof (induction ss arbitrary: p left)
  case (Cons s ss)
  obtain st q rest where run: "parse_request t p (left @ s) = (Some st, q, rest)"
    using session_call [OF Cons.prems] by blast
  have "parser_session Mode_request options q"
    by (rule session_request [OF Cons.prems(1) refl run])
  with Cons run show ?case by (cases st) simp_all
qed simp

text \<open>
  A segmentation can only make a difference by an error: if all the bytes in one piece give a
  complete request, then any segmentation gives the same request and the same leftover bytes, or
  the connection is refused.
\<close>

theorem segmented_delivery_converse:
  assumes "parser_session Mode_request options p" and "max_body options + 2 < 2 ^ 64"
    and "parse_request t p (concat ss) = (Some Complete, q, rest)" and "ss \<noteq> []"
  shows "feed_request t p [] ss = (Some Complete, q, rest) \<or> fst (feed_request t p [] ss) = Some Error"
proof -
  obtain st q' rest' where feed: "feed_request t p [] ss = (st, q', rest')"
    by (cases "feed_request t p [] ss")
  with feed_request_total [OF assms(1,2), of t "[]" ss] obtain s where s: "st = Some s" by auto
  show ?thesis
    using feed_request_concat [OF feed assms(4)] assms(3) feed s by (cases s) auto
qed

theorem segmented_delivery_converse_witness:
  "fst (feed_request 7 sample_parser [] sample_segments) \<noteq> Some Incomplete"
proof -
  have "fst (parse_request 7 sample_parser (concat sample_segments)) = Some Complete" by code_simp
  moreover have "parser_session Mode_request default_parser_options sample_parser"
    unfolding sample_parser_def by (rule session_new)
  ultimately show ?thesis
    using segmented_delivery_converse [of default_parser_options sample_parser 7 sample_segments]
    by (cases "parse_request 7 sample_parser (concat sample_segments)")
      (auto simp: default_parser_options_def sample_segments_def)
qed

end
