(* ===== verification/Ws_Frame.thy ===== *)
theory Ws_Frame
  imports Prelude
begin

text \<open>
  The WebSocket framing layer (src/src/websocket/websocket_frame.cpp): frame encoding, the
  incremental frame parser and the assembler of fragmented messages. Bytes are \<open>8 word\<close>s where
  the code masks and shifts them; the buffer is its readable bytes.
\<close>

unbundle bit_operations_syntax

subsection \<open>Types\<close>

datatype ws_opcode = Op_continuation | Op_text | Op_binary | Op_close | Op_ping | Op_pong

datatype ws_role = Role_client | Role_server

datatype ws_masking = Unmasked | Masked

datatype ws_parse_status = Ws_incomplete | Ws_complete | Ws_error

datatype ws_message_status = Msg_incomplete | Msg_complete | Msg_control | Msg_error

datatype ws_error = We_none | We_bad_handshake | We_unsupported_url | We_tls_not_enabled
  | We_connection_error | We_protocol_error | We_message_too_big | We_invalid_utf8 | We_compression_error

record ws_options =
  max_frame_payload :: nat
  max_message_payload :: nat
  enable_compression :: bool

definition default_ws_options :: ws_options where
  "default_ws_options = \<lparr>max_frame_payload = 16 * 1024 * 1024, max_message_payload = 64 * 1024 * 1024,
     enable_compression = False\<rparr>"

record ws_frame =
  f_fin :: bool
  f_rsv1 :: bool
  f_rsv2 :: bool
  f_rsv3 :: bool
  f_opcode :: ws_opcode
  f_payload :: string

record ws_message =
  wm_opcode :: ws_opcode
  wm_payload :: string
  wm_compressed :: bool

type_synonym mask_key = "u8 \<times> u8 \<times> u8 \<times> u8"

record ws_frame_parser =
  fp_role :: ws_role
  fp_options :: ws_options
  fp_error :: ws_error

record ws_assembler =
  as_options :: ws_options
  as_opcode :: ws_opcode
  as_payload :: string
  as_compressed :: bool
  as_active :: bool
  as_error :: ws_error

fun opcode_value :: "ws_opcode \<Rightarrow> u8" where
  "opcode_value Op_continuation = 0x0"
| "opcode_value Op_text = 0x1"
| "opcode_value Op_binary = 0x2"
| "opcode_value Op_close = 0x8"
| "opcode_value Op_ping = 0x9"
| "opcode_value Op_pong = 0xA"

text \<open>\<open>valid_opcode\<close> and the cast behind it: \<open>None\<close> where the switch returns false.\<close>

definition opcode_of :: "u8 \<Rightarrow> ws_opcode option" where
  "opcode_of v =
     (if v = 0x0 then Some Op_continuation else if v = 0x1 then Some Op_text
      else if v = 0x2 then Some Op_binary else if v = 0x8 then Some Op_close
      else if v = 0x9 then Some Op_ping else if v = 0xA then Some Op_pong else None)"

subsection \<open>Predicates\<close>

definition is_control_opcode :: "ws_opcode \<Rightarrow> bool" where
  "is_control_opcode op \<longleftrightarrow> 0x8 \<le> opcode_value op"

definition is_data_opcode :: "ws_opcode \<Rightarrow> bool" where
  "is_data_opcode op \<longleftrightarrow> op = Op_text \<or> op = Op_binary"

definition valid_close_code :: "u16 \<Rightarrow> bool" where
  "valid_close_code code =
     (if code < 1000 then False
      else if code = 1004 \<or> code = 1005 \<or> code = 1006 then False
      else if 1016 \<le> code \<and> code \<le> 2999 then False
      else code \<le> 4999)"

text \<open>The loop of \<open>valid_utf8\<close>: its state is (\<open>codepoint\<close>, \<open>remaining\<close>, \<open>min_value\<close>).\<close>

fun utf8_scan :: "u32 \<Rightarrow> nat \<Rightarrow> u32 \<Rightarrow> string \<Rightarrow> bool" where
  "utf8_scan codepoint remaining min_value [] = (remaining = 0)"
| "utf8_scan codepoint remaining min_value (c # cs) =
     (if remaining = 0 then
        if byte c \<le> 0x7F then utf8_scan codepoint 0 min_value cs
        else if 0xC2 \<le> byte c \<and> byte c \<le> 0xDF then utf8_scan (of_nat (byte c) AND 0x1F) 1 0x80 cs
        else if 0xE0 \<le> byte c \<and> byte c \<le> 0xEF then utf8_scan (of_nat (byte c) AND 0x0F) 2 0x800 cs
        else if 0xF0 \<le> byte c \<and> byte c \<le> 0xF4 then utf8_scan (of_nat (byte c) AND 0x07) 3 0x10000 cs
        else False
      else if (of_nat (byte c) :: u32) AND 0xC0 \<noteq> 0x80 then False
      else
        let codepoint = push_bit 6 codepoint OR (of_nat (byte c) AND 0x3F); remaining = remaining - 1
        in if remaining = 0 \<and>
              (codepoint < min_value \<or> 0x10FFFF < codepoint \<or> 0xD800 \<le> codepoint \<and> codepoint \<le> 0xDFFF)
           then False
           else utf8_scan codepoint remaining min_value cs)"

definition valid_utf8 :: "string \<Rightarrow> bool" where
  "valid_utf8 value = utf8_scan 0 0 0 value"

subsection \<open>Encoding\<close>

definition append_u16 :: "u16 \<Rightarrow> string" where
  "append_u16 value = [char_of_u8 (ucast (drop_bit 8 value AND 0xFF)), char_of_u8 (ucast (value AND 0xFF))]"

definition append_u64 :: "u64 \<Rightarrow> string" where
  "append_u64 value =
     map (\<lambda>shift. char_of_u8 (ucast (drop_bit shift value AND 0xFF))) [56, 48, 40, 32, 24, 16, 8, 0]"

definition read_u16 :: "string \<Rightarrow> u16" where
  "read_u16 data = push_bit 8 (ucast (u8_of_char (data ! 0))) OR ucast (u8_of_char (data ! 1))"

definition read_u64 :: "string \<Rightarrow> u64" where
  "read_u64 data = foldl (\<lambda>value i. push_bit 8 value OR ucast (u8_of_char (data ! i))) 0 [0..<8]"

definition key_byte :: "mask_key \<Rightarrow> nat \<Rightarrow> u8" where
  "key_byte key i =
     (case key of (a, b, c, d) \<Rightarrow>
        if i mod 4 = 0 then a else if i mod 4 = 1 then b else if i mod 4 = 2 then c else d)"

definition key_bytes :: "mask_key \<Rightarrow> string" where
  "key_bytes key = map (\<lambda>i. char_of_u8 (key_byte key i)) [0..<4]"

definition apply_mask :: "mask_key \<Rightarrow> string \<Rightarrow> string" where
  "apply_mask key payload =
     map (\<lambda>i. char_of_u8 (u8_of_char (payload ! i) XOR key_byte key i)) [0..<length payload]"

definition first_byte :: "ws_frame \<Rightarrow> u8" where
  "first_byte frame =
     opcode_value (f_opcode frame) OR (if f_fin frame then 0x80 else 0) OR (if f_rsv1 frame then 0x40 else 0)
       OR (if f_rsv2 frame then 0x20 else 0) OR (if f_rsv3 frame then 0x10 else 0)"

definition length_bytes :: "bool \<Rightarrow> nat \<Rightarrow> string" where
  "length_bytes masked len =
     (let second = (if masked then 0x80 else 0 :: u8) in
      if len \<le> 125 then [char_of_u8 (second OR of_nat len)]
      else if len \<le> 0xFFFF then char_of_u8 (second OR 126) # append_u16 (of_nat len)
      else char_of_u8 (second OR 127) # append_u64 (of_nat len))"

text \<open>The mask key the caller gives, or else the generator's: \<open>random_mask_key\<close> is an argument.\<close>

definition encode_websocket_frame :: "mask_key \<Rightarrow> ws_frame \<Rightarrow> ws_masking \<Rightarrow> mask_key option \<Rightarrow> string" where
  "encode_websocket_frame random_mask_key frame masking mask_key =
     (let masked = (masking = Masked);
          key = (case mask_key of None \<Rightarrow> random_mask_key | Some k \<Rightarrow> k)
      in char_of_u8 (first_byte frame) # length_bytes masked (length (f_payload frame)) @
         (if masked then key_bytes key @ apply_mask key (f_payload frame) else f_payload frame))"

subsection \<open>The frame parser\<close>

definition frame_parser_new :: "ws_role \<Rightarrow> ws_options \<Rightarrow> ws_frame_parser" where
  "frame_parser_new role options = \<lparr>fp_role = role, fp_options = options, fp_error = We_none\<rparr>"

datatype frame_step = Frame_parsed ws_frame string | Frame_more | Frame_error ws_error

text \<open>The extended payload length: (\<open>payload_len\<close>, \<open>header_len\<close>).\<close>

definition frame_length :: "string \<Rightarrow> ws_error + (nat \<times> nat) option" where
  "frame_length data =
     (let len7 = u8_of_char (data ! 1) AND 0x7F in
      if len7 = 126 then
        if length data < 2 + 2 then Inr None
        else let payload_len = unat (read_u16 (drop 2 data))
             in if payload_len < 126 then Inl We_protocol_error else Inr (Some (payload_len, 4))
      else if len7 = 127 then
        if length data < 2 + 8 then Inr None
        else let payload_len = read_u64 (drop 2 data)
             in if payload_len < 65536 \<or> payload_len AND push_bit 63 1 \<noteq> 0 then Inl We_protocol_error
                else Inr (Some (unat payload_len, 10))
      else Inr (Some (unat len7, 2)))"

definition bit_set :: "u8 \<Rightarrow> u8 \<Rightarrow> bool" where
  "bit_set b m \<longleftrightarrow> b AND m \<noteq> 0"

definition read_key :: "string \<Rightarrow> mask_key" where
  "read_key data = (u8_of_char (data ! 0), u8_of_char (data ! 1), u8_of_char (data ! 2), u8_of_char (data ! 3))"

text \<open>One iteration of the loop of \<open>WebSocketFrameParser::parse\<close>.\<close>

definition parse_frame :: "ws_frame_parser \<Rightarrow> string \<Rightarrow> frame_step" where
  "parse_frame p data =
     (if length data < 2 then Frame_more
      else
        let b0 = u8_of_char (data ! 0); b1 = u8_of_char (data ! 1);
            fin = bit_set b0 0x80; rsv1 = bit_set b0 0x40; rsv2 = bit_set b0 0x20; rsv3 = bit_set b0 0x10;
            masked = bit_set b1 0x80
        in case opcode_of (b0 AND 0x0F) of
             None \<Rightarrow> Frame_error We_protocol_error
           | Some opcode \<Rightarrow>
               if masked \<noteq> (fp_role p = Role_server) then Frame_error We_protocol_error
               else if rsv1 \<and> \<not> enable_compression (fp_options p) \<or> rsv2 \<or> rsv3 then
                 Frame_error We_protocol_error
               else if rsv1 \<and> (\<not> is_data_opcode opcode \<or> opcode = Op_continuation) then
                 Frame_error We_protocol_error
               else
                 (case frame_length data of
                    Inl e \<Rightarrow> Frame_error e
                  | Inr None \<Rightarrow> Frame_more
                  | Inr (Some (payload_len, header_len0)) \<Rightarrow>
                      if masked \<and> length data < header_len0 + 4 then Frame_more
                      else
                        let key = read_key (drop header_len0 data);
                            header_len = (if masked then header_len0 + 4 else header_len0)
                        in if max_frame_payload (fp_options p) < payload_len then Frame_error We_message_too_big
                           else if length data - header_len < payload_len then Frame_more
                           else if is_control_opcode opcode \<and> (\<not> fin \<or> 125 < payload_len) then
                             Frame_error We_protocol_error
                           else
                             let payload = take payload_len (drop header_len data)
                             in Frame_parsed
                                  \<lparr>f_fin = fin, f_rsv1 = rsv1, f_rsv2 = rsv2, f_rsv3 = rsv3, f_opcode = opcode,
                                   f_payload = (if masked then apply_mask key payload else payload)\<rparr>
                                  (drop (header_len + payload_len) data)))"

lemma frame_length_header: "frame_length data = Inr (Some (n, h)) \<Longrightarrow> 2 \<le> h"
  by (auto simp: frame_length_def Let_def split: if_splits)

lemma parse_frame_shorter: "parse_frame p data = Frame_parsed f rest \<Longrightarrow> length rest < length data"
  by (auto simp: parse_frame_def Let_def split: if_splits option.splits sum.splits dest!: frame_length_header)

text \<open>The loop; the frames are those pushed to \<open>*frames\<close>.\<close>

function ws_parse_loop :: "bool \<Rightarrow> ws_frame_parser \<Rightarrow> string \<Rightarrow>
    ws_parse_status \<times> ws_frame_parser \<times> ws_frame list \<times> string" where
  "ws_parse_loop parsed_any p data =
     (case parse_frame p data of
        Frame_more \<Rightarrow> (if parsed_any then Ws_complete else Ws_incomplete, p, [], data)
      | Frame_error e \<Rightarrow> (Ws_error, p\<lparr>fp_error := e\<rparr>, [], data)
      | Frame_parsed frame rest \<Rightarrow>
          (case ws_parse_loop True p rest of (st, q, frames, left) \<Rightarrow> (st, q, frame # frames, left)))"
  by pat_completeness auto
termination
  by (relation "measure (\<lambda>(a, p, data). length data)") (auto dest: parse_frame_shorter)

declare ws_parse_loop.simps [simp del]

definition ws_parse :: "ws_frame_parser \<Rightarrow> string \<Rightarrow>
    ws_parse_status \<times> ws_frame_parser \<times> ws_frame list \<times> string" where
  "ws_parse p data = ws_parse_loop False p data"

subsection \<open>The message assembler\<close>

definition assembler_new :: "ws_options \<Rightarrow> ws_assembler" where
  "assembler_new options =
     \<lparr>as_options = options, as_opcode = Op_continuation, as_payload = [], as_compressed = False,
      as_active = False, as_error = We_none\<rparr>"

definition assembler_reset :: "ws_assembler \<Rightarrow> ws_assembler" where
  "assembler_reset a =
     a\<lparr>as_opcode := Op_continuation, as_payload := [], as_compressed := False, as_active := False,
       as_error := We_none\<rparr>"

definition assembler_fail :: "ws_error \<Rightarrow> ws_assembler \<Rightarrow> ws_message_status \<times> ws_assembler \<times> ws_message option" where
  "assembler_fail e a = (Msg_error, a\<lparr>as_error := e\<rparr>, None)"

text \<open>The third component is what was written to \<open>*message\<close>.\<close>

definition assembler_consume :: "ws_frame \<Rightarrow> ws_assembler \<Rightarrow> ws_message_status \<times> ws_assembler \<times> ws_message option" where
  "assembler_consume frame a =
     (if is_control_opcode (f_opcode frame) then
        (if f_opcode frame = Op_close \<and> 2 \<le> length (f_payload frame) then
           (if \<not> valid_close_code (read_u16 (f_payload frame)) then assembler_fail We_protocol_error a
            else if 2 < length (f_payload frame) \<and> \<not> valid_utf8 (drop 2 (f_payload frame))
            then assembler_fail We_invalid_utf8 a
            else (Msg_control, a, None))
         else (Msg_control, a, None))
      else if is_data_opcode (f_opcode frame) then
        (if as_active a then assembler_fail We_protocol_error a
         else if max_message_payload (as_options a) < length (f_payload frame) then
           assembler_fail We_message_too_big a
         else if f_fin frame then
           (if f_opcode frame = Op_text \<and> \<not> f_rsv1 frame \<and> \<not> valid_utf8 (f_payload frame)
            then assembler_fail We_invalid_utf8 a
            else (Msg_complete, a,
                  Some \<lparr>wm_opcode = f_opcode frame, wm_payload = f_payload frame, wm_compressed = f_rsv1 frame\<rparr>))
         else (Msg_incomplete,
               a\<lparr>as_active := True, as_opcode := f_opcode frame, as_payload := f_payload frame,
                 as_compressed := f_rsv1 frame\<rparr>, None))
      else if f_opcode frame \<noteq> Op_continuation \<or> \<not> as_active a then assembler_fail We_protocol_error a
      else if max_message_payload (as_options a) < length (as_payload a) + length (f_payload frame) then
        assembler_fail We_message_too_big a
      else
        let a1 = a\<lparr>as_payload := as_payload a @ f_payload frame\<rparr> in
        if \<not> f_fin frame then (Msg_incomplete, a1, None)
        else if as_opcode a1 = Op_text \<and> \<not> as_compressed a1 \<and> \<not> valid_utf8 (as_payload a1) then
          assembler_fail We_invalid_utf8 a1
        else (Msg_complete, assembler_reset a1,
              Some \<lparr>wm_opcode = as_opcode a1, wm_payload = as_payload a1, wm_compressed = as_compressed a1\<rparr>))"

end
