(* ===== verification/Ws_Frame_Laws.thy ===== *)
theory Ws_Frame_Laws
  imports Ws_Frame
begin

text \<open>
  Framing round trips: what one endpoint encodes the other parses back, frame by frame, and the
  parser accepts nothing else.
\<close>

subsection \<open>Lengths and masks\<close>

lemma push_drop_byte:
  "push_bit 8 (drop_bit (s + 8) (v :: u64)) OR (drop_bit s v AND 0xFF) = drop_bit s v"
proof -
  have mask: "(0xFF :: u64) = mask 8" by (simp add: mask_eq_exp_minus_1)
  show ?thesis
    unfolding mask
    by (rule bit_word_eqI) (auto simp: bit_simps not_le dest: bit_imp_le_length)
qed

lemma ucast_byte: "(ucast (ucast (w AND 0xFF :: 'a::len word) :: u8) :: 'a word) = w AND 0xFF" if "8 \<le> LENGTH('a)"
proof -
  have mask: "(0xFF :: 'a word) = mask 8" by (simp add: mask_eq_exp_minus_1)
  show ?thesis unfolding mask using that by (intro bit_word_eqI) (auto simp: bit_simps)
qed

lemma length_append_u64 [simp]: "length (append_u64 v) = 8"
  by (simp add: append_u64_def)

lemma length_append_u16 [simp]: "length (append_u16 v) = 2"
  by (simp add: append_u16_def)

lemma read_u64_append_u64: "read_u64 (append_u64 v @ rest) = v"
proof -
  have top: "drop_bit 64 v = 0" by (rule bit_word_eqI) (simp add: bit_simps)
  let ?data = "append_u64 v @ rest"
  have shifts: "[56, 48, 40, 32, 24, 16, 8, 0] = map (\<lambda>i. 56 - 8 * i) [0..<8]" by (simp add: upt_rec)
  have byte: "?data ! i = char_of_u8 (ucast (drop_bit (56 - 8 * i) v AND 0xFF))" if "i < 8" for i
    using that unfolding append_u64_def shifts by (simp add: nth_append)
  have "foldl (\<lambda>value i. push_bit 8 value OR ucast (u8_of_char (?data ! i))) 0 [0..<k] = drop_bit (64 - 8 * k) v"
    if "k \<le> 8" for k
    using that
  proof (induction k)
    case 0
    then show ?case using top by simp
  next
    case (Suc k)
    have "(ucast (u8_of_char (?data ! k)) :: u64) = drop_bit (56 - 8 * k) v AND 0xFF"
      using Suc.prems by (simp only: byte Suc_le_eq u8_of_char_of_u8) (rule ucast_byte, simp)
    moreover have "64 - 8 * k = 56 - 8 * k + 8" "64 - 8 * Suc k = 56 - 8 * k" using Suc.prems by simp_all
    ultimately show ?case
      using Suc push_drop_byte [of "56 - 8 * k" v] by (simp del: drop_bit_drop_bit)
  qed
  from this [of 8] show ?thesis by (simp add: read_u64_def)
qed

lemma read_u16_append_u16: "read_u16 (append_u16 v @ rest) = v"
proof -
  have mask: "(0xFF :: u16) = mask 8" by (simp add: mask_eq_exp_minus_1)
  have "push_bit 8 (drop_bit 8 v AND 0xFF) OR (v AND 0xFF) = v"
    unfolding mask by (rule bit_word_eqI) (auto simp: bit_simps not_le dest: bit_imp_le_length)
  then show ?thesis by (simp add: read_u16_def append_u16_def ucast_byte)
qed

lemma length_apply_mask [simp]: "length (apply_mask key s) = length s"
  by (simp add: apply_mask_def)

lemma apply_mask_involution [simp]: "apply_mask key (apply_mask key s) = s"
  by (rule nth_equalityI) (simp_all add: apply_mask_def xor.assoc)

lemma length_key_bytes [simp]: "length (key_bytes key) = 4"
  by (simp add: key_bytes_def)

lemma read_key_key_bytes [simp]: "read_key (key_bytes key @ rest) = key"
  by (cases key) (simp add: read_key_def key_bytes_def key_byte_def upt_rec nth_append)

lemma first_byte_fields:
  "opcode_of (first_byte f AND 0x0F) = Some (f_opcode f)"
  "bit_set (first_byte f) 0x80 \<longleftrightarrow> f_fin f" "bit_set (first_byte f) 0x40 \<longleftrightarrow> f_rsv1 f"
  "bit_set (first_byte f) 0x20 \<longleftrightarrow> f_rsv2 f" "bit_set (first_byte f) 0x10 \<longleftrightarrow> f_rsv3 f"
  by (cases "f_opcode f"; cases "f_fin f"; cases "f_rsv1 f"; cases "f_rsv2 f"; cases "f_rsv3 f";
      simp add: first_byte_def opcode_of_def bit_set_def)+

lemma and_128: "bit_set w 0x80 \<longleftrightarrow> bit w 7"
  by (simp add: bit_iff_and_push_bit_not_eq_0 bit_set_def)

lemma second_byte:
  fixes masked :: bool
  assumes "n < 128"
  defines "w \<equiv> (if masked then 0x80 else 0 :: u8) OR of_nat n"
  shows "w AND 0x7F = of_nat n" and "bit_set w 0x80 = masked"
proof -
  have low: "take_bit 7 (of_nat n :: u8) = of_nat n"
    using assms(1) by (simp flip: of_nat_take_bit add: take_bit_nat_eq_self)
  have mask: "(0x7F :: u8) = mask 7" by (simp add: mask_eq_exp_minus_1)
  have high: "take_bit 7 (if masked then 0x80 else 0 :: u8) = 0" by simp
  show "w AND 0x7F = of_nat n"
    unfolding w_def mask by (simp only: flip: take_bit_eq_mask) (simp only: take_bit_or high low or.left_neutral)
  have "\<not> bit (of_nat n :: u8) 7"
    by (metis low bit_take_bit_iff less_irrefl)
  then show "bit_set w 0x80 = masked"
    unfolding and_128 w_def by (simp add: bit_or_iff)
qed

text \<open>What follows the two length bits: the header of a frame with an \<open>n\<close>-byte payload.\<close>

lemma frame_length_encoded:
  assumes "n < 2 ^ 63"
  shows "frame_length (c # length_bytes masked n @ rest) = Inr (Some (n, 1 + length (length_bytes masked n)))"
    and "bit_set (u8_of_char (length_bytes masked n ! 0)) 0x80 = masked"
proof -
  consider "n \<le> 125" | "125 < n" "n \<le> 0xFFFF" | "0xFFFF < n" by linarith
  then have "frame_length (c # length_bytes masked n @ rest) = Inr (Some (n, 1 + length (length_bytes masked n))) \<and>
    bit_set (u8_of_char (length_bytes masked n ! 0)) 0x80 = masked"
  proof cases
    case 1
    then have n: "unat (of_nat n :: u8) = n" by (simp add: unsigned_of_nat take_bit_nat_eq_self)
    have "(of_nat n :: u8) \<noteq> 126" "(of_nat n :: u8) \<noteq> 127"
      using n 1 by (auto dest!: arg_cong [where f = unat])
    with 1 n second_byte [of n masked] show ?thesis
      by (simp add: frame_length_def length_bytes_def)
  next
    case 2
    have "unat (of_nat n :: u16) = n" using 2 by (simp add: unsigned_of_nat take_bit_nat_eq_self)
    with 2 second_byte [of 126 masked] read_u16_append_u16 [of "of_nat n" rest] show ?thesis
      by (simp add: frame_length_def length_bytes_def)
  next
    case 3
    have n: "unat (of_nat n :: u64) = n" using assms by (simp add: unsigned_of_nat take_bit_nat_eq_self)
    have "take_bit 63 n = n" using assms by (rule take_bit_nat_eq_self)
    then have "\<not> bit n 63" by (metis bit_take_bit_iff less_irrefl)
    then have "\<not> bit (of_nat n :: u64) 63" by (simp add: bit_of_nat_iff)
    then have "(of_nat n :: u64) AND push_bit 63 1 = 0"
      by (simp only: bit_iff_and_push_bit_not_eq_0 not_not)
    moreover have "\<not> (of_nat n :: u64) < 65536"
      using 3 n by (simp add: word_less_nat_alt)
    ultimately show ?thesis
      using 3 second_byte [of 127 masked] read_u64_append_u64 [of "of_nat n" rest] n
      by (simp add: frame_length_def length_bytes_def Let_def)
  qed
  then show "frame_length (c # length_bytes masked n @ rest) = Inr (Some (n, 1 + length (length_bytes masked n)))"
    and "bit_set (u8_of_char (length_bytes masked n ! 0)) 0x80 = masked" by blast+
qed

lemma length_bytes_nonempty: "length_bytes masked n \<noteq> []"
  by (simp add: length_bytes_def Let_def)

subsection \<open>Frames\<close>

text \<open>The frames RFC 6455 lets an endpoint send under the options.\<close>

definition wf_frame :: "ws_options \<Rightarrow> ws_frame \<Rightarrow> bool" where
  "wf_frame opts f \<longleftrightarrow>
     \<not> f_rsv2 f \<and> \<not> f_rsv3 f \<and> (f_rsv1 f \<longrightarrow> enable_compression opts \<and> is_data_opcode (f_opcode f)) \<and>
     (is_control_opcode (f_opcode f) \<longrightarrow> f_fin f \<and> length (f_payload f) \<le> 125) \<and>
     length (f_payload f) \<le> max_frame_payload opts \<and> length (f_payload f) < 2 ^ 63"

definition mask_of :: "ws_role \<Rightarrow> ws_masking" where
  "mask_of receiver = (if receiver = Role_server then Masked else Unmasked)"

definition mask_size :: "ws_frame_parser \<Rightarrow> nat" where
  "mask_size p = (if fp_role p = Role_server then 4 else 0)"

definition unmask :: "ws_frame_parser \<Rightarrow> nat \<Rightarrow> string \<Rightarrow> string \<Rightarrow> string" where
  "unmask p header_len data payload =
     (if fp_role p = Role_server then apply_mask (read_key (drop header_len data)) payload else payload)"

text \<open>When an iteration yields a frame, as one condition per field of the header.\<close>

definition frame_read :: "ws_frame_parser \<Rightarrow> string \<Rightarrow> nat \<Rightarrow> nat \<Rightarrow> ws_frame \<Rightarrow> string \<Rightarrow> bool" where
  "frame_read p d n h f rest \<longleftrightarrow>
      2 \<le> length d \<and> frame_length d = Inr (Some (n, h)) \<and>
      h + mask_size p + n \<le> length d \<and> n \<le> max_frame_payload (fp_options p) \<and>
      opcode_of (u8_of_char (d ! 0) AND 0x0F) = Some (f_opcode f) \<and>
      bit_set (u8_of_char (d ! 1)) 0x80 = (fp_role p = Role_server) \<and>
      bit_set (u8_of_char (d ! 0)) 0x80 = f_fin f \<and> bit_set (u8_of_char (d ! 0)) 0x40 = f_rsv1 f \<and>
      bit_set (u8_of_char (d ! 0)) 0x20 = f_rsv2 f \<and> bit_set (u8_of_char (d ! 0)) 0x10 = f_rsv3 f \<and>
      (f_rsv1 f \<longrightarrow> enable_compression (fp_options p) \<and> is_data_opcode (f_opcode f)) \<and>
      \<not> f_rsv2 f \<and> \<not> f_rsv3 f \<and> (is_control_opcode (f_opcode f) \<longrightarrow> f_fin f \<and> n \<le> 125) \<and>
      f_payload f = unmask p h d (take n (drop (h + mask_size p) d)) \<and>
      rest = drop (h + mask_size p + n) d"

lemma data_opcode_not_continuation: "is_data_opcode op \<Longrightarrow> op \<noteq> Op_continuation"
  by (auto simp: is_data_opcode_def)

lemma parse_frame_intro:
  assumes "frame_read p d n h f rest"
  shows "parse_frame p d = Frame_parsed f rest"
proof -
  note facts = assms [unfolded frame_read_def]
  have room: "\<not> length d - (h + mask_size p) < n" "\<not> length d < h + mask_size p"
    using facts by linarith+
  have "f = \<lparr>f_fin = f_fin f, f_rsv1 = f_rsv1 f, f_rsv2 = f_rsv2 f, f_rsv3 = f_rsv3 f, f_opcode = f_opcode f,
      f_payload = f_payload f\<rparr>" by simp
  moreover have "parse_frame p d = Frame_parsed \<lparr>f_fin = f_fin f, f_rsv1 = f_rsv1 f, f_rsv2 = f_rsv2 f,
      f_rsv3 = f_rsv3 f, f_opcode = f_opcode f, f_payload = f_payload f\<rparr> rest"
    using facts data_opcode_not_continuation [of "f_opcode f"] room
    by (cases "f_rsv1 f"; cases "fp_role p = Role_server"; cases "is_control_opcode (f_opcode f)")
      (simp_all add: parse_frame_def Let_def mask_size_def unmask_def)
  ultimately show ?thesis by simp
qed

lemma frame_length_bound: "frame_length d = Inr (Some (n, h)) \<Longrightarrow> 2 \<le> length d \<Longrightarrow> h \<le> length d"
  by (auto simp: frame_length_def Let_def split: if_splits)

lemma parse_frame_dest:
  assumes "parse_frame p d = Frame_parsed f rest"
  shows "\<exists>n h. frame_read p d n h f rest"
proof -
  have long: "2 \<le> length d" using assms by (auto simp: parse_frame_def split: if_splits)
  obtain op where op: "opcode_of (u8_of_char (d ! 0) AND 0x0F) = Some op"
    using assms long by (cases "opcode_of (u8_of_char (d ! 0) AND 0x0F)") (simp_all add: parse_frame_def)
  note step1 = assms [unfolded parse_frame_def Let_def op option.case]
  obtain r where len: "frame_length d = Inr r"
    using step1 by (cases "frame_length d") (simp_all split: if_split_asm)
  have "r \<noteq> None"
  proof
    assume "r = None"
    with step1 len show False by (simp split: if_split_asm)
  qed
  then obtain n h where nh: "r = Some (n, h)" by (cases r) auto
  note step = step1 [unfolded len nh sum.case option.case prod.case]
  let ?b0 = "u8_of_char (d ! 0)" and ?masked = "bit_set (u8_of_char (d ! 1)) 0x80"
  have c0: "\<not> length d < 2" using long by simp
  have c1: "\<not> (?masked \<noteq> (fp_role p = Role_server))" by (rule notI) (use step c0 in simp)
  note step = step [unfolded if_not_P [OF c0] if_not_P [OF c1]]
  have c2: "\<not> (bit_set ?b0 0x40 \<and> \<not> enable_compression (fp_options p) \<or> bit_set ?b0 0x20 \<or> bit_set ?b0 0x10)"
    by (rule notI) (use step in simp)
  note step = step [unfolded if_not_P [OF c2]]
  have c3: "\<not> (bit_set ?b0 0x40 \<and> (\<not> is_data_opcode op \<or> op = Op_continuation))"
    by (rule notI) (use step in simp)
  note step = step [unfolded if_not_P [OF c3]]
  have c4: "\<not> (?masked \<and> length d < h + 4)" by (rule notI) (use step in simp)
  note step = step [unfolded if_not_P [OF c4]]
  have c5: "\<not> max_frame_payload (fp_options p) < n" by (rule notI) (use step in simp)
  note step = step [unfolded if_not_P [OF c5]]
  have hdr: "(if ?masked then h + 4 else h) = h + mask_size p" using c1 by (simp add: mask_size_def)
  note step = step [unfolded hdr]
  have c6: "\<not> length d - (h + mask_size p) < n" by (rule notI) (use step in simp)
  note step = step [unfolded if_not_P [OF c6]]
  have c7: "\<not> (is_control_opcode op \<and> (\<not> bit_set ?b0 0x80 \<or> 125 < n))" by (rule notI) (use step in simp)
  note step = step [unfolded if_not_P [OF c7]]
  have f: "f = \<lparr>f_fin = bit_set ?b0 0x80, f_rsv1 = bit_set ?b0 0x40, f_rsv2 = bit_set ?b0 0x20,
      f_rsv3 = bit_set ?b0 0x10, f_opcode = op,
      f_payload = unmask p h d (take n (drop (h + mask_size p) d))\<rparr>"
    and rest: "rest = drop (h + mask_size p + n) d"
    using step c1 by (simp_all add: unmask_def)
  have "h + mask_size p \<le> length d"
    using c1 c4 frame_length_bound [of d n h] len nh long by (auto simp: mask_size_def)
  then have "h + mask_size p + n \<le> length d" using c6 by linarith
  then have "frame_read p d n h f rest"
    unfolding frame_read_def f rest using long len nh op c1 c2 c3 c5 c7 by auto
  then show ?thesis by blast
qed

lemma parse_frame_encode:
  assumes wf: "wf_frame (fp_options p) f"
  shows "parse_frame p (encode_websocket_frame rnd f (mask_of (fp_role p)) k @ rest) = Frame_parsed f rest"
proof -
  let ?m = "fp_role p = Role_server" and ?n = "length (f_payload f)"
  let ?key = "case k of None \<Rightarrow> rnd | Some x \<Rightarrow> x"
  let ?lb = "length_bytes ?m ?n" and ?body = "if ?m then key_bytes ?key @ apply_mask ?key (f_payload f) else f_payload f"
  let ?data = "char_of_u8 (first_byte f) # ?lb @ ?body @ rest"
  have data: "encode_websocket_frame rnd f (mask_of (fp_role p)) k @ rest = ?data"
    by (simp add: encode_websocket_frame_def mask_of_def Let_def)
  define D where "D = ?data"
  have n: "?n < 2 ^ 63" using wf by (simp add: wf_frame_def)
  have lb: "1 \<le> length ?lb" using length_bytes_nonempty [of ?m ?n] by (simp add: Suc_le_eq)
  have b0: "u8_of_char (?data ! 0) = first_byte f" by simp
  have b1: "?data ! 1 = ?lb ! 0" using length_bytes_nonempty [of ?m ?n] by (cases ?lb) simp_all
  have len: "frame_length ?data = Inr (Some (?n, 1 + length ?lb))"
    by (rule frame_length_encoded(1) [OF n])
  have masked: "bit_set (u8_of_char (?data ! 1)) 0x80 = ?m"
    unfolding b1 by (rule frame_length_encoded(2) [OF n])
  have body: "drop (1 + length ?lb) ?data = ?body @ rest" by simp
  have total: "length ?data = 1 + length ?lb + length ?body + length rest" by simp
  have opc: "is_data_opcode (f_opcode f) \<Longrightarrow> f_opcode f \<noteq> Op_continuation" by (auto simp: is_data_opcode_def)
  show ?thesis
  proof (cases ?m)
    case True
    have key: "read_key (drop (1 + length ?lb) ?data) = ?key" unfolding body using True by simp
    have "drop (1 + length ?lb + 4) ?data = drop 4 (drop (1 + length ?lb) ?data)"
      by (simp only: drop_drop add.commute)
    also have "\<dots> = apply_mask ?key (f_payload f) @ rest" unfolding body using True by simp
    finally have tail: "drop (1 + length ?lb + 4) ?data = apply_mask ?key (f_payload f) @ rest" .
    have pay: "take ?n (drop (1 + length ?lb + 4) ?data) = apply_mask ?key (f_payload f)" unfolding tail by simp
    have "drop (1 + length ?lb + 4 + ?n) ?data = drop ?n (drop (1 + length ?lb + 4) ?data)"
      by (simp only: drop_drop add.commute)
    then have left: "drop (1 + length ?lb + 4 + ?n) ?data = rest" unfolding tail by simp
    have "f_payload f = unmask p (1 + length ?lb) D (take ?n (drop (1 + length ?lb + mask_size p) D))"
      using True pay key by (simp add: unmask_def mask_size_def D_def del: drop_append)
    with True left show ?thesis
      unfolding data
      using wf lb b0 len masked total unfolding D_def [symmetric] wf_frame_def
      by (intro parse_frame_intro [of _ _ ?n "1 + length ?lb"]) (auto simp: frame_read_def mask_size_def first_byte_fields)
  next
    case False
    have pay: "take ?n (drop (1 + length ?lb) ?data) = f_payload f"
      "drop (1 + length ?lb + ?n) ?data = rest"
      using False by simp_all
    have "f_payload f = unmask p (1 + length ?lb) D (take ?n (drop (1 + length ?lb + mask_size p) D))"
      using False by (simp add: unmask_def mask_size_def D_def)
    with False pay(2) show ?thesis
      unfolding data
      using wf lb b0 len masked total unfolding D_def [symmetric] wf_frame_def
      by (intro parse_frame_intro [of _ _ ?n "1 + length ?lb"]) (auto simp: frame_read_def mask_size_def first_byte_fields)
  qed
qed


lemma parse_frame_wf:
  assumes "parse_frame p d = Frame_parsed f rest"
  shows "\<not> f_rsv2 f \<and> \<not> f_rsv3 f \<and> (f_rsv1 f \<longrightarrow> enable_compression (fp_options p) \<and> is_data_opcode (f_opcode f)) \<and>
    (is_control_opcode (f_opcode f) \<longrightarrow> f_fin f \<and> length (f_payload f) \<le> 125) \<and>
    length (f_payload f) \<le> max_frame_payload (fp_options p)"
proof -
  obtain n h where "frame_read p d n h f rest" using parse_frame_dest [OF assms] by blast
  then show ?thesis by (auto simp: frame_read_def unmask_def)
qed

subsection \<open>Streams\<close>

lemma frame_length_extend:
  assumes "2 \<le> length d" and "frame_length d \<noteq> Inr None"
  shows "frame_length (d @ s) = frame_length d"
proof -
  have "(d @ s) ! 1 = d ! 1" using assms(1) by (simp add: nth_append)
  moreover have "read_u16 (drop 2 (d @ s)) = read_u16 (drop 2 d)" if "4 \<le> length d"
    using that by (simp add: read_u16_def nth_append_left)
  moreover have "read_u64 (drop 2 (d @ s)) = read_u64 (drop 2 d)" if "10 \<le> length d"
    using that unfolding read_u64_def by (intro foldl_cong) (auto simp: nth_append)
  ultimately have
    "u8_of_char (d ! 1) AND 0x7F = 126 \<Longrightarrow> 4 \<le> length d \<Longrightarrow> frame_length (d @ s) = frame_length d"
    "u8_of_char (d ! 1) AND 0x7F = 127 \<Longrightarrow> 10 \<le> length d \<Longrightarrow> frame_length (d @ s) = frame_length d"
    "u8_of_char (d ! 1) AND 0x7F \<noteq> 126 \<Longrightarrow> u8_of_char (d ! 1) AND 0x7F \<noteq> 127 \<Longrightarrow>
      frame_length (d @ s) = frame_length d"
    by (simp_all add: frame_length_def Let_def)
  moreover have "u8_of_char (d ! 1) AND 0x7F = 126 \<Longrightarrow> 4 \<le> length d"
    "u8_of_char (d ! 1) AND 0x7F = 127 \<Longrightarrow> 10 \<le> length d"
    using assms(2) by (simp_all add: frame_length_def split: if_split_asm)
  ultimately show ?thesis by blast
qed

lemma parse_frame_extend:
  assumes "parse_frame p d = Frame_parsed f rest"
  shows "parse_frame p (d @ s) = Frame_parsed f (rest @ s)"
proof -
  obtain n h where r: "frame_read p d n h f rest" using parse_frame_dest [OF assms] by blast
  note facts = r [unfolded frame_read_def]
  have len: "frame_length (d @ s) = Inr (Some (n, h))"
    using facts frame_length_extend [of d s] by simp
  have "0 < length d" "1 < length d" using facts by linarith+
  then have nths: "(d @ s) ! 0 = d ! 0" "(d @ s) ! 1 = d ! 1" by (simp_all add: nth_append_left)
  have bound: "h + mask_size p + n \<le> length d" using facts by blast
  then have key: "mask_size p = 4 \<Longrightarrow> read_key (drop h (d @ s)) = read_key (drop h d)"
    by (simp add: read_key_def nth_append_left)
  from bound have "drop (h + mask_size p + n) (d @ s) = rest @ s"
    "take n (drop (h + mask_size p) (d @ s)) = take n (drop (h + mask_size p) d)"
    using facts by simp_all
  moreover have "unmask p h (d @ s) x = unmask p h d x" for x
    using key by (simp add: unmask_def mask_size_def)
  ultimately have "frame_read p (d @ s) n h f (rest @ s)"
    unfolding frame_read_def nths len using facts by simp
  then show ?thesis by (rule parse_frame_intro)
qed

lemma parse_frame_error_extend:
  assumes "parse_frame p d = Frame_error e"
  shows "parse_frame p (d @ s) = Frame_error e"
proof -
  have long: "2 \<le> length d" using assms by (auto simp: parse_frame_def split: if_splits)
  then have "0 < length d" "1 < length d" by linarith+
  then have nths: "(d @ s) ! 0 = d ! 0" "(d @ s) ! 1 = d ! 1" by (simp_all add: nth_append_left)
  show ?thesis
  proof (cases "frame_length d")
    case (Inl e')
    then have "frame_length (d @ s) = Inl e'" using frame_length_extend [OF long] by simp
    with Inl long assms show ?thesis
      unfolding parse_frame_def nths Let_def by (simp split: option.split_asm if_split_asm; blast?)
  next
    case (Inr r)
    show ?thesis
    proof (cases r)
      case None
      with Inr long assms show ?thesis
        unfolding parse_frame_def nths Let_def by (simp split: option.split_asm if_split_asm; blast?)
    next
      case (Some nh)
      obtain n h where nh: "nh = (n, h)" by (cases nh)
      have "frame_length (d @ s) = Inr (Some (n, h))"
        using Inr Some nh frame_length_extend [OF long] by simp
      with Inr Some nh long assms frame_length_bound [of d n h] show ?thesis
        unfolding parse_frame_def nths Let_def by (simp split: option.split_asm if_split_asm; auto)
    qed
  qed
qed

text \<open>What two reads yield together: the frames of the first, then those of the second.\<close>

lemma ws_parse_loop_append:
  "ws_parse_loop a p d = (st, q, fs, left) \<Longrightarrow>
   ws_parse_loop a p (d @ s) =
     (if st = Ws_error then (st, q, fs, left @ s)
      else (case ws_parse_loop (a \<or> fs \<noteq> []) p (left @ s) of (st', q', fs', left') \<Rightarrow> (st', q', fs @ fs', left')))"
proof (induction a p d arbitrary: st q fs left rule: ws_parse_loop.induct)
  case (1 a p d)
  show ?case
  proof (cases "parse_frame p d")
    case (Frame_parsed f rest)
    obtain st1 q1 fs1 left1 where run: "ws_parse_loop True p rest = (st1, q1, fs1, left1)"
      by (cases "ws_parse_loop True p rest") auto
    have here: "st = st1" "q = q1" "fs = f # fs1" "left = left1"
      using 1(2) Frame_parsed run by (simp_all add: ws_parse_loop.simps [of a p d])
    have ext: "parse_frame p (d @ s) = Frame_parsed f (rest @ s)"
      by (rule parse_frame_extend [OF Frame_parsed])
    show ?thesis
      using 1(1) [OF Frame_parsed run] here ext
      by (auto simp: ws_parse_loop.simps [of a p "d @ s"] split: prod.splits)
  next
    case Frame_more
    then have "st \<noteq> Ws_error" "fs = []" "left = d"
      using 1(2) by (auto simp: ws_parse_loop.simps [of a p d] split: if_splits)
    then show ?thesis by (simp split: prod.splits)
  next
    case (Frame_error e)
    then have "ws_parse_loop a p d = (Ws_error, p\<lparr>fp_error := e\<rparr>, [], d)"
      "ws_parse_loop a p (d @ s) = (Ws_error, p\<lparr>fp_error := e\<rparr>, [], d @ s)"
      using parse_frame_error_extend [OF Frame_error, of s]
      by (simp_all add: ws_parse_loop.simps [of a p d] ws_parse_loop.simps [of a p "d @ s"])
    then show ?thesis using 1(2) by simp
  qed
qed

lemma ws_parse_loop_parser: "ws_parse_loop a p d = (st, q, fs, left) \<Longrightarrow> st \<noteq> Ws_error \<Longrightarrow> q = p"
proof (induction a p d arbitrary: st q fs left rule: ws_parse_loop.induct)
  case (1 a p d)
  then show ?case
    by (cases "parse_frame p d")
      (auto simp: ws_parse_loop.simps [of a p d] split: prod.splits)
qed

lemma ws_parse_loop_encoded:
  assumes "\<forall>(k, f)\<in>set kfs. wf_frame (fp_options p) f"
  shows "ws_parse_loop a p (concat (map (\<lambda>(k, f). encode_websocket_frame rnd f (mask_of (fp_role p)) k) kfs)) =
    (if a \<or> kfs \<noteq> [] then Ws_complete else Ws_incomplete, p, map snd kfs, [])"
  using assms
proof (induction kfs arbitrary: a)
  case Nil
  then show ?case by (simp add: ws_parse_loop.simps [of a p] parse_frame_def)
next
  case (Cons kf kfs)
  obtain k f where kf: "kf = (k, f)" by (cases kf)
  have step: "parse_frame p (encode_websocket_frame rnd f (mask_of (fp_role p)) k @ r) = Frame_parsed f r" for r
    using Cons.prems by (intro parse_frame_encode) (simp add: kf)
  have "ws_parse_loop True p (concat (map (\<lambda>(k, f). encode_websocket_frame rnd f (mask_of (fp_role p)) k) kfs)) =
      (Ws_complete, p, map snd kfs, [])"
    using Cons.IH [of True] Cons.prems by (simp add: kf)
  then show ?case
    using step by (subst ws_parse_loop.simps) (simp add: kf)
qed

end
