(* ===== verification/Ws_Utf8.thy ===== *)
theory Ws_Utf8
  imports Ws_Frame
begin

text \<open>
  \<open>valid_utf8\<close> against the definition of UTF-8: it accepts exactly the strings that are a
  concatenation of encoded Unicode scalar values, so no overlong form, surrogate, truncated
  sequence or value above U+10FFFF passes, and nothing well-formed is refused.
\<close>

subsection \<open>Reference\<close>

definition scalar_value :: "nat \<Rightarrow> bool" where
  "scalar_value cp \<longleftrightarrow> cp \<le> 0x10FFFF \<and> \<not> (0xD800 \<le> cp \<and> cp \<le> 0xDFFF)"

definition tail_byte :: "nat \<Rightarrow> char" where
  "tail_byte n = char_of (0x80 + n mod 64)"

definition utf8_encode :: "nat \<Rightarrow> string" where
  "utf8_encode cp =
     (if cp < 0x80 then [char_of cp]
      else if cp < 0x800 then [char_of (0xC0 + cp div 64), tail_byte cp]
      else if cp < 0x10000 then [char_of (0xE0 + cp div 4096), tail_byte (cp div 64), tail_byte cp]
      else [char_of (0xF0 + cp div 262144), tail_byte (cp div 4096), tail_byte (cp div 64), tail_byte cp])"

subsection \<open>The scan on numbers\<close>

definition is_tail :: "char \<Rightarrow> bool" where
  "is_tail c \<longleftrightarrow> 0x80 \<le> byte c \<and> byte c < 0xC0"

fun scan_nat :: "nat \<Rightarrow> nat \<Rightarrow> nat \<Rightarrow> string \<Rightarrow> bool" where
  "scan_nat cp r lo [] = (r = 0)"
| "scan_nat cp r lo (c # cs) =
     (if r = 0 then
        if byte c \<le> 0x7F then scan_nat cp 0 lo cs
        else if 0xC2 \<le> byte c \<and> byte c \<le> 0xDF then scan_nat (byte c - 0xC0) 1 0x80 cs
        else if 0xE0 \<le> byte c \<and> byte c \<le> 0xEF then scan_nat (byte c - 0xE0) 2 0x800 cs
        else if 0xF0 \<le> byte c \<and> byte c \<le> 0xF4 then scan_nat (byte c - 0xF0) 3 0x10000 cs
        else False
      else is_tail c \<and>
        (r = 1 \<longrightarrow> lo \<le> cp * 64 + (byte c - 0x80) \<and> scalar_value (cp * 64 + (byte c - 0x80))) \<and>
        scan_nat (cp * 64 + (byte c - 0x80)) (r - 1) lo cs)"

lemma byte_less [simp]: "byte c < 256"
  by simp

lemma unat_byte: "unat (of_nat (byte c) :: u32) = byte c"
proof -
  have "take_bit 32 (byte c) = byte c"
    using byte_less [of c] by (intro take_bit_nat_eq_self) (simp del: byte_less)
  then show ?thesis by (simp add: unsigned_of_nat)
qed

lemma word_eq_128: "m < 2 ^ 32 \<Longrightarrow> (of_nat m :: u32) = 0x80 \<longleftrightarrow> m = 0x80"
proof
  assume m: "m < 2 ^ 32" and eq: "(of_nat m :: u32) = 0x80"
  from eq have "unat (of_nat m :: u32) = 0x80" by simp
  with m show "m = 0x80" by (simp add: unsigned_of_nat take_bit_nat_eq_self)
qed simp

lemma and_192: "(of_nat n :: u32) AND 0xC0 = 0x80 \<longleftrightarrow> 0x80 \<le> n \<and> n < 0xC0" if "n < 256"
proof -
  have c: "(0xC0 :: nat) = push_bit 6 (mask 2)" by (simp add: mask_eq_exp_minus_1 push_bit_eq_mult)
  have eq: "n AND 0xC0 = push_bit 6 (take_bit 2 (drop_bit 6 n))"
    unfolding c by (rule bit_eqI) (auto simp: bit_simps)
  have and_eq: "n AND 0xC0 = 64 * (n div 64 mod 4)"
    unfolding eq by (simp add: push_bit_eq_mult take_bit_eq_mod drop_bit_eq_div)
  have "(of_nat n :: u32) AND 0xC0 = of_nat (n AND 0xC0)" by (simp add: of_nat_and_eq)
  moreover have "n AND 0xC0 < 2 ^ 32" unfolding and_eq by (simp add: less_mult_imp_div_less)
  ultimately have "(of_nat n :: u32) AND 0xC0 = 0x80 \<longleftrightarrow> n AND 0xC0 = 0x80"
    using word_eq_128 by simp
  also have "\<dots> \<longleftrightarrow> n div 64 mod 4 = 2" unfolding and_eq by simp
  also have "\<dots> \<longleftrightarrow> n div 64 = 2" using that by (simp add: less_mult_imp_div_less)
  also have "\<dots> \<longleftrightarrow> 0x80 \<le> n \<and> n < 0xC0" by (auto simp: div_nat_eqI)
  finally show ?thesis .
qed
lemma tail_mask: "(of_nat (byte c) :: u32) AND 0xC0 = 0x80 \<longleftrightarrow> is_tail c"
  using and_192 [OF byte_less [of c]] by (simp add: is_tail_def)

lemma mod_block: "a * m \<le> n \<Longrightarrow> n < a * m + m \<Longrightarrow> n mod m = n - a * (m :: nat)"
  using mod_mult_self3 [of a m "n - a * m"] by simp

lemma low_masks:
  "0xC2 \<le> byte c \<Longrightarrow> byte c \<le> 0xDF \<Longrightarrow> (of_nat (byte c) :: u32) AND 0x1F = of_nat (byte c - 0xC0)"
  "0xE0 \<le> byte c \<Longrightarrow> byte c \<le> 0xEF \<Longrightarrow> (of_nat (byte c) :: u32) AND 0x0F = of_nat (byte c - 0xE0)"
  "0xF0 \<le> byte c \<Longrightarrow> byte c \<le> 0xF4 \<Longrightarrow> (of_nat (byte c) :: u32) AND 0x07 = of_nat (byte c - 0xF0)"
  "is_tail c \<Longrightarrow> (of_nat (byte c) :: u32) AND 0x3F = of_nat (byte c - 0x80)"
proof -
  have masks: "(0x1F :: u32) = mask 5" "(0x0F :: u32) = mask 4" "(0x07 :: u32) = mask 3" "(0x3F :: u32) = mask 6"
    by (simp_all add: mask_eq_exp_minus_1)
  have low: "(of_nat n :: u32) AND mask k = of_nat (n mod 2 ^ k)" for n k
    unfolding take_bit_eq_mask [symmetric] by (metis of_nat_take_bit take_bit_eq_mod)
  have mods: "0xC2 \<le> n \<Longrightarrow> n \<le> 0xDF \<Longrightarrow> n mod 32 = n - (0xC0 :: nat)"
    "0xE0 \<le> n \<Longrightarrow> n \<le> 0xEF \<Longrightarrow> n mod 16 = n - (0xE0 :: nat)"
    "0xF0 \<le> n \<Longrightarrow> n \<le> 0xF4 \<Longrightarrow> n mod 8 = n - (0xF0 :: nat)"
    "0x80 \<le> n \<Longrightarrow> n < 0xC0 \<Longrightarrow> n mod 64 = n - (0x80 :: nat)" for n
    using mod_block [of 6 32 n] mod_block [of 14 16 n] mod_block [of 30 8 n] mod_block [of 2 64 n] by simp_all
  show "0xC2 \<le> byte c \<Longrightarrow> byte c \<le> 0xDF \<Longrightarrow> (of_nat (byte c) :: u32) AND 0x1F = of_nat (byte c - 0xC0)"
    "0xE0 \<le> byte c \<Longrightarrow> byte c \<le> 0xEF \<Longrightarrow> (of_nat (byte c) :: u32) AND 0x0F = of_nat (byte c - 0xE0)"
    "0xF0 \<le> byte c \<Longrightarrow> byte c \<le> 0xF4 \<Longrightarrow> (of_nat (byte c) :: u32) AND 0x07 = of_nat (byte c - 0xF0)"
    "is_tail c \<Longrightarrow> (of_nat (byte c) :: u32) AND 0x3F = of_nat (byte c - 0x80)"
    unfolding masks low is_tail_def using mods [of "byte c"] by simp_all
qed

text \<open>The codepoint never leaves 32 bits: with \<open>r\<close> bytes to come it is below \<open>2 ^ (32 - 6 r)\<close>.\<close>

lemma shift_in_tail:
  assumes "cp < 2 ^ 26" and "n < 64"
  shows "push_bit 6 (of_nat cp :: u32) OR of_nat n = of_nat (cp * 64 + n)"
proof -
  have "take_bit 6 n = n" using assms(2) by (intro take_bit_nat_eq_self) simp
  then have "\<not> (bit (push_bit 6 cp) i \<and> bit n i)" for i
    by (metis bit_push_bit_iff_nat bit_take_bit_iff linorder_not_less)
  then have "push_bit 6 cp OR n = push_bit 6 cp + n" by (intro disjunctive_add [symmetric]) blast
  then have "push_bit 6 cp OR n = cp * 64 + n" by (simp add: push_bit_eq_mult)
  then show ?thesis by (metis of_nat_or_eq of_nat_push_bit)
qed


lemma of_nat_less_u32:
  "m < 2 ^ 32 \<Longrightarrow> n < 2 ^ 32 \<Longrightarrow> (of_nat m :: u32) < of_nat n \<longleftrightarrow> m < n"
  "m < 2 ^ 32 \<Longrightarrow> n < 2 ^ 32 \<Longrightarrow> (of_nat m :: u32) \<le> of_nat n \<longleftrightarrow> m \<le> n"
  by (simp_all add: word_less_nat_alt word_le_nat_alt unsigned_of_nat take_bit_nat_eq_self)

lemma range_check:
  assumes "cp < 2 ^ 32" and "lo < 2 ^ 32"
  shows "((of_nat cp :: u32) < of_nat lo \<or> 0x10FFFF < (of_nat cp :: u32) \<or>
      0xD800 \<le> (of_nat cp :: u32) \<and> (of_nat cp :: u32) \<le> 0xDFFF) \<longleftrightarrow> \<not> (lo \<le> cp \<and> scalar_value cp)"
proof -
  have "(of_nat cp :: u32) < of_nat lo \<longleftrightarrow> cp < lo" using assms by (rule of_nat_less_u32)
  moreover have "0x10FFFF < (of_nat cp :: u32) \<longleftrightarrow> 0x10FFFF < cp"
    using of_nat_less_u32(1) [of "0x10FFFF" cp] assms(1) by simp
  moreover have "0xD800 \<le> (of_nat cp :: u32) \<longleftrightarrow> 0xD800 \<le> cp"
    using of_nat_less_u32(2) [of "0xD800" cp] assms(1) by simp
  moreover have "(of_nat cp :: u32) \<le> 0xDFFF \<longleftrightarrow> cp \<le> 0xDFFF"
    using of_nat_less_u32(2) [of cp "0xDFFF"] assms(1) by simp
  ultimately show ?thesis
    unfolding scalar_value_def by (simp only: not_less not_le de_Morgan_conj de_Morgan_disj)
qed

lemma utf8_scan_nat:
  "r \<le> 3 \<Longrightarrow> (r \<noteq> 0 \<Longrightarrow> cp < 8 * 64 ^ (4 - r)) \<Longrightarrow> lo < 2 ^ 32 \<Longrightarrow>
   utf8_scan (of_nat cp) r (of_nat lo) s = scan_nat cp r lo s"
proof (induction s arbitrary: cp r lo)
  case (Cons c cs)
  show ?case
  proof (cases "r = 0")
    case True
    have start: "utf8_scan (of_nat n) k (of_nat l) cs = scan_nat n k l cs"
      if "k \<le> 3" "k \<noteq> 0 \<Longrightarrow> n < 8 * 64 ^ (4 - k)" "l < 2 ^ 32" for n k l
      using that by (rule Cons.IH)
    show ?thesis
      using True Cons.IH [of 0 cp lo] Cons.prems(3) low_masks [of c] start [of 1 "byte c - 0xC0" "0x80"]
        start [of 2 "byte c - 0xE0" "0x800"] start [of 3 "byte c - 0xF0" "0x10000"] byte_less [of c]
      by (simp del: of_nat_diff byte_less)
  next
    case False
    let ?cp = "cp * 64 + (byte c - 0x80)"
    have r: "r = 1 \<or> r = 2 \<or> r = 3" using False Cons.prems(1) by linarith
    have cp: "cp < 2 ^ 26" using r Cons.prems(2) by auto
    show ?thesis
    proof (cases "is_tail c")
      case True
      have small: "byte c - 0x80 < 64" using True by (auto simp: is_tail_def)
      have shift: "push_bit 6 (of_nat cp :: u32) OR (of_nat (byte c) AND 0x3F) = of_nat ?cp"
        unfolding low_masks(4) [OF True] by (rule shift_in_tail [OF cp small])
      have "?cp < 2 ^ 32" using cp small by simp
      note range = range_check [OF this Cons.prems(3)]
      have "utf8_scan (of_nat ?cp) (r - 1) (of_nat lo) cs = scan_nat ?cp (r - 1) lo cs"
      proof (rule Cons.IH [OF _ _ Cons.prems(3)])
        show "r - 1 \<le> 3" using r by auto
        assume "r - 1 \<noteq> 0"
        then show "?cp < 8 * 64 ^ (4 - (r - 1))" using r small Cons.prems(2) by auto
      qed
      then show ?thesis
        using False True range by (auto simp: tail_mask shift Let_def)
    qed (use False in \<open>simp add: tail_mask\<close>)
  qed
qed simp


subsection \<open>The scan and the encoding\<close>

lemma scan_nat_start: "scan_nat cp 0 lo s = scan_nat 0 0 0 s"
  by (induction s) simp_all

lemma byte_tail_byte: "byte (tail_byte n) = 0x80 + n mod 64"
proof -
  have "n mod 64 < 64" by simp
  then have "0x80 + n mod 64 < 256" by linarith
  then show ?thesis by (simp add: tail_byte_def del: mod_less_divisor)
qed

lemma is_tail_tail_byte [simp]: "is_tail (tail_byte n)"
  by (simp add: is_tail_def byte_tail_byte)

lemma byte_char_of: "n < 256 \<Longrightarrow> byte (char_of n :: char) = n"
  by simp

lemma div_64s: "n div 4096 = n div 64 div (64 :: nat)" "n div 262144 = n div 64 div 64 div (64 :: nat)"
  by (simp_all add: div_mult2_eq [symmetric])

lemma scan_nat_encode:
  assumes "scalar_value cp"
  shows "scan_nat x 0 lo (utf8_encode cp @ s) = scan_nat 0 0 0 s"
proof -
  consider "cp < 0x80" | "0x80 \<le> cp" "cp < 0x800" | "0x800 \<le> cp" "cp < 0x10000" | "0x10000 \<le> cp" by linarith
  then show ?thesis
  proof cases
    case 1
    then show ?thesis by (simp add: utf8_encode_def byte_char_of scan_nat_start [of x lo])
  next
    case 2
    then have "2 \<le> cp div 64" "cp div 64 < 32" by linarith+
    with 2 assms show ?thesis
      by (simp add: utf8_encode_def byte_char_of byte_tail_byte scan_nat_start [of cp])
  next
    case 3
    then have d: "cp div 4096 < 16" "0x800 \<le> cp" by linarith+
    have "(cp div 4096 * 64 + cp div 64 mod 64) * 64 + cp mod 64 = cp" by (simp add: div_64s)
    with d 3 assms show ?thesis
      by (simp add: utf8_encode_def byte_char_of byte_tail_byte scan_nat_start [of cp])
  next
    case 4
    then have d: "cp div 262144 \<le> 4" using assms by (simp add: scalar_value_def)
    have "((cp div 262144 * 64 + cp div 4096 mod 64) * 64 + cp div 64 mod 64) * 64 + cp mod 64 = cp"
      by (simp add: div_64s)
    with d 4 assms show ?thesis
      by (simp add: utf8_encode_def byte_char_of byte_tail_byte scan_nat_start [of cp])
  qed
qed

lemma tail_digit:
  assumes "is_tail c"
  shows "(a * 64 + (byte c - 0x80)) div 64 = a" and "(a * 64 + (byte c - 0x80)) mod 64 = byte c - 0x80"
    and "tail_byte (a * 64 + (byte c - 0x80)) = c"
proof -
  have digit: "byte c - 0x80 < 64" and ge: "0x80 \<le> byte c" using assms by (auto simp: is_tail_def)
  have "(a * 64 + k) div 64 = a \<and> (a * 64 + k) mod 64 = k" if "k < 64" for k using that by simp
  from this [OF digit]
  show "(a * 64 + (byte c - 0x80)) div 64 = a" and m: "(a * 64 + (byte c - 0x80)) mod 64 = byte c - 0x80" by blast+
  show "tail_byte (a * 64 + (byte c - 0x80)) = c"
    unfolding tail_byte_def m using ge by simp
qed

lemma encode_two:
  assumes "is_tail d" and "2 \<le> a" and "a < 32"
  shows "utf8_encode (a * 64 + (byte d - 0x80)) = [char_of (0xC0 + a), d]"
proof -
  define cp where "cp = a * 64 + (byte d - 0x80)"
  have "cp div 64 = a" "tail_byte cp = d" using tail_digit [OF assms(1), of a] by (simp_all add: cp_def)
  moreover from this(1) have "\<not> cp < 0x80" "cp < 0x800" using assms(2,3) by linarith+
  ultimately show ?thesis unfolding cp_def [symmetric] by (simp add: utf8_encode_def)
qed

lemma encode_three:
  assumes "is_tail d" and "is_tail e" and "a < 16"
    and low: "0x800 \<le> (a * 64 + (byte d - 0x80)) * 64 + (byte e - 0x80)"
  shows "utf8_encode ((a * 64 + (byte d - 0x80)) * 64 + (byte e - 0x80)) = [char_of (0xE0 + a), d, e]"
proof -
  define m where "m = a * 64 + (byte d - 0x80)"
  define cp where "cp = m * 64 + (byte e - 0x80)"
  have m: "m div 64 = a" "tail_byte m = d" using tail_digit [OF assms(1), of a] by (simp_all add: m_def)
  have cp: "cp div 64 = m" "tail_byte cp = e" using tail_digit [OF assms(2), of m] by (simp_all add: cp_def)
  have "cp div 4096 = a" by (simp add: div_64s cp m)
  moreover from this have "cp < 0x10000" using assms(3) by linarith
  moreover have "\<not> cp < 0x80" "\<not> cp < 0x800" using low by (simp_all add: cp_def m_def)
  ultimately show ?thesis unfolding m_def [symmetric] cp_def [symmetric] by (simp add: utf8_encode_def cp m)
qed

lemma encode_four:
  assumes "is_tail d" and "is_tail e" and "is_tail f"
    and low: "0x10000 \<le> ((a * 64 + (byte d - 0x80)) * 64 + (byte e - 0x80)) * 64 + (byte f - 0x80)"
  shows "utf8_encode (((a * 64 + (byte d - 0x80)) * 64 + (byte e - 0x80)) * 64 + (byte f - 0x80)) =
    [char_of (0xF0 + a), d, e, f]"
proof -
  define l where "l = a * 64 + (byte d - 0x80)"
  define m where "m = l * 64 + (byte e - 0x80)"
  define cp where "cp = m * 64 + (byte f - 0x80)"
  have l: "l div 64 = a" "tail_byte l = d" using tail_digit [OF assms(1), of a] by (simp_all add: l_def)
  have m: "m div 64 = l" "tail_byte m = e" using tail_digit [OF assms(2), of l] by (simp_all add: m_def)
  have cp: "cp div 64 = m" "tail_byte cp = f" using tail_digit [OF assms(3), of m] by (simp_all add: cp_def)
  have "cp div 4096 = l" "cp div 262144 = a" by (simp_all add: div_64s cp m l)
  moreover have "\<not> cp < 0x80" "\<not> cp < 0x800" "\<not> cp < 0x10000" using low by (simp_all add: cp_def m_def l_def)
  ultimately show ?thesis
    unfolding l_def [symmetric] m_def [symmetric] cp_def [symmetric] by (simp add: utf8_encode_def cp m l)
qed

lemma scan_nat_more:
  assumes "scan_nat cp (Suc r) lo s"
  obtains d ds where "s = d # ds" "is_tail d" "scan_nat (cp * 64 + (byte d - 0x80)) r lo ds"
    "r = 0 \<Longrightarrow> lo \<le> cp * 64 + (byte d - 0x80) \<and> scalar_value (cp * 64 + (byte d - 0x80))"
  using assms by (cases s) auto

lemma scan_nat_decode:
  "scan_nat 0 0 0 s \<Longrightarrow> \<exists>cps. (\<forall>cp\<in>set cps. scalar_value cp) \<and> s = concat (map utf8_encode cps)"
proof (induction s rule: length_induct)
  case (1 s)
  have more: ?case
    if "s = utf8_encode cp @ rest" "scalar_value cp" "scan_nat 0 0 0 rest" "length rest < length s" for cp rest
  proof -
    from 1(1) that obtain cps where "\<forall>cp\<in>set cps. scalar_value cp" "rest = concat (map utf8_encode cps)" by blast
    with that show ?case by (intro exI [of _ "cp # cps"]) simp
  qed
  show ?case
  proof (cases s)
    case Nil
    then show ?thesis by (intro exI [of _ "[]"]) simp
  next
    case (Cons c cs)
    consider "byte c \<le> 0x7F" | "0xC2 \<le> byte c" "byte c \<le> 0xDF" | "0xE0 \<le> byte c" "byte c \<le> 0xEF"
      | "0xF0 \<le> byte c" "byte c \<le> 0xF4"
      using 1(2) Cons by (simp split: if_split_asm)
    then show ?thesis
    proof cases
      case b: 1
      have "s = utf8_encode (byte c) @ cs" "scalar_value (byte c)"
        using b Cons by (simp_all add: utf8_encode_def scalar_value_def)
      with 1(2) b Cons show ?thesis by (intro more [of "byte c" cs]) simp_all
    next
      case b: 2
      obtain d ds where ds: "cs = d # ds" "is_tail d" and scal: "scalar_value ((byte c - 0xC0) * 64 + (byte d - 0x80))"
        and rest: "scan_nat 0 0 0 ds"
        using 1(2) b Cons scan_nat_start by (cases cs) auto
      let ?cp = "(byte c - 0xC0) * 64 + (byte d - 0x80)"
      have "utf8_encode ?cp = [c, d]" using encode_two [OF ds(2), of "byte c - 0xC0"] b by simp
      with Cons ds scal rest show ?thesis by (intro more [of ?cp ds]) simp_all
    next
      case b: 3
      let ?a = "byte c - 0xE0"
      obtain d e es where es: "cs = d # e # es" "is_tail d" "is_tail e"
        and scal: "scalar_value ((?a * 64 + (byte d - 0x80)) * 64 + (byte e - 0x80))"
        and low: "0x800 \<le> (?a * 64 + (byte d - 0x80)) * 64 + (byte e - 0x80)" and rest: "scan_nat 0 0 0 es"
      proof -
        have "scan_nat ?a 2 0x800 cs" using 1(2) b Cons by simp
        then have "scan_nat ?a (Suc (Suc 0)) 0x800 cs" by (simp only: numeral_2_eq_2)
        then obtain d ds where d: "cs = d # ds" "is_tail d" "scan_nat (?a * 64 + (byte d - 0x80)) (Suc 0) 0x800 ds"
          by (rule scan_nat_more)
        from d(3) obtain e es where e: "ds = e # es" "is_tail e"
          "scan_nat ((?a * 64 + (byte d - 0x80)) * 64 + (byte e - 0x80)) 0 0x800 es"
          "0x800 \<le> (?a * 64 + (byte d - 0x80)) * 64 + (byte e - 0x80) \<and>
            scalar_value ((?a * 64 + (byte d - 0x80)) * 64 + (byte e - 0x80))"
          by (rule scan_nat_more) blast
        show ?thesis using d(1,2) e scan_nat_start by (intro that) blast+
      qed
      let ?cp = "(?a * 64 + (byte d - 0x80)) * 64 + (byte e - 0x80)"
      have "utf8_encode ?cp = [c, d, e]" using encode_three [OF es(2,3) _ low] b by simp
      with Cons es scal rest show ?thesis by (intro more [of ?cp es]) simp_all
    next
      case b: 4
      let ?a = "byte c - 0xF0"
      obtain d e f fs where fs: "cs = d # e # f # fs" "is_tail d" "is_tail e" "is_tail f"
        and scal: "scalar_value (((?a * 64 + (byte d - 0x80)) * 64 + (byte e - 0x80)) * 64 + (byte f - 0x80))"
        and low: "0x10000 \<le> ((?a * 64 + (byte d - 0x80)) * 64 + (byte e - 0x80)) * 64 + (byte f - 0x80)"
        and rest: "scan_nat 0 0 0 fs"
      proof -
        have "scan_nat ?a 3 0x10000 cs" using 1(2) b Cons by simp
        then have "scan_nat ?a (Suc (Suc (Suc 0))) 0x10000 cs" by (simp only: numeral_3_eq_3)
        then obtain d ds where d: "cs = d # ds" "is_tail d"
          "scan_nat (?a * 64 + (byte d - 0x80)) (Suc (Suc 0)) 0x10000 ds"
          by (rule scan_nat_more)
        from d(3) obtain e es where e: "ds = e # es" "is_tail e"
          "scan_nat ((?a * 64 + (byte d - 0x80)) * 64 + (byte e - 0x80)) (Suc 0) 0x10000 es"
          by (rule scan_nat_more)
        from e(3) obtain f fs where f: "es = f # fs" "is_tail f"
          "scan_nat (((?a * 64 + (byte d - 0x80)) * 64 + (byte e - 0x80)) * 64 + (byte f - 0x80)) 0 0x10000 fs"
          "0x10000 \<le> ((?a * 64 + (byte d - 0x80)) * 64 + (byte e - 0x80)) * 64 + (byte f - 0x80) \<and>
            scalar_value (((?a * 64 + (byte d - 0x80)) * 64 + (byte e - 0x80)) * 64 + (byte f - 0x80))"
          by (rule scan_nat_more) blast
        show ?thesis using d(1,2) e(1,2) f scan_nat_start by (intro that) blast+
      qed
      let ?cp = "((?a * 64 + (byte d - 0x80)) * 64 + (byte e - 0x80)) * 64 + (byte f - 0x80)"
      have "utf8_encode ?cp = [c, d, e, f]" using encode_four [OF fs(2,3,4) low] b by simp
      with Cons fs scal rest show ?thesis by (intro more [of ?cp fs]) simp_all
    qed
  qed
qed

subsection \<open>Properties\<close>

text \<open>
  C8: \<open>valid_utf8\<close> decides UTF-8: a byte string passes exactly if it is the concatenation of
  the encodings of Unicode scalar values (no overlong form, no surrogate, nothing above
  U+10FFFF, no truncated sequence).
\<close>

theorem valid_utf8_correct:
  "valid_utf8 s = (\<exists>cps. list_all scalar_value cps \<and> s = concat (map utf8_encode cps))"
proof
  assume "valid_utf8 s"
  then have "scan_nat 0 0 0 s"
    using utf8_scan_nat [of 0 0 0 s] by (simp add: valid_utf8_def)
  from scan_nat_decode [OF this] show "\<exists>cps. list_all scalar_value cps \<and> s = concat (map utf8_encode cps)"
    by (simp add: list_all_iff)
next
  assume "\<exists>cps. list_all scalar_value cps \<and> s = concat (map utf8_encode cps)"
  then obtain cps where cps: "list_all scalar_value cps" "s = concat (map utf8_encode cps)" by blast
  have "scan_nat 0 0 0 (concat (map utf8_encode cps))"
    using cps(1) by (induction cps) (simp_all add: scan_nat_encode)
  with cps(2) show "valid_utf8 s"
    using utf8_scan_nat [of 0 0 0 s] by (simp add: valid_utf8_def)
qed

end
