(* ===== verification/Ws_Messages.thy ===== *)
theory Ws_Messages
  imports Ws_Frame_Laws Ws_Utf8
begin

text \<open>
  The message assembler: fragments give back the message that was fragmented, control frames
  may stand between them, and everything delivered respects the limits and the UTF-8 rule.
\<close>

subsection \<open>Reassembly\<close>

text \<open>Feeding frames until the first error; the messages completed on the way.\<close>

fun assemble :: "ws_frame list \<Rightarrow> ws_assembler \<Rightarrow> (ws_message list \<times> ws_assembler) option" where
  "assemble [] a = Some ([], a)"
| "assemble (f # fs) a =
     (case assembler_consume f a of
        (Msg_error, b, m) \<Rightarrow> None
      | (st, b, m) \<Rightarrow>
          (case assemble fs b of
             None \<Rightarrow> None
           | Some (ms, c) \<Rightarrow> Some ((case m of None \<Rightarrow> ms | Some x \<Rightarrow> x # ms), c)))"

text \<open>A sender's view: a message as a first frame and continuations, the last one final.\<close>

definition data_frame :: "bool \<Rightarrow> bool \<Rightarrow> ws_opcode \<Rightarrow> string \<Rightarrow> ws_frame" where
  "data_frame fin rsv1 op payload =
     \<lparr>f_fin = fin, f_rsv1 = rsv1, f_rsv2 = False, f_rsv3 = False, f_opcode = op, f_payload = payload\<rparr>"

fun continuations :: "string list \<Rightarrow> ws_frame list" where
  "continuations [] = []"
| "continuations (p # ps) = data_frame (ps = []) False Op_continuation p # continuations ps"

definition fragments :: "ws_message \<Rightarrow> string \<Rightarrow> string list \<Rightarrow> ws_frame list" where
  "fragments m p ps = data_frame (ps = []) (wm_compressed m) (wm_opcode m) p # continuations ps"

definition control_ok :: "ws_frame \<Rightarrow> bool" where
  "control_ok f \<longleftrightarrow> is_control_opcode (f_opcode f) \<and>
     (f_opcode f = Op_close \<and> 2 \<le> length (f_payload f) \<longrightarrow>
       valid_close_code (read_u16 (f_payload f)) \<and> valid_utf8 (drop 2 (f_payload f)))"

definition deliverable :: "ws_options \<Rightarrow> ws_message \<Rightarrow> bool" where
  "deliverable opts m \<longleftrightarrow> is_data_opcode (wm_opcode m) \<and> length (wm_payload m) \<le> max_message_payload opts \<and>
     (wm_opcode m = Op_text \<and> \<not> wm_compressed m \<longrightarrow> valid_utf8 (wm_payload m))"

definition assembler_idle :: "ws_assembler \<Rightarrow> bool" where
  "assembler_idle a \<longleftrightarrow> a = assembler_new (as_options a)"

lemma opcode_classes [simp]:
  "is_control_opcode Op_close" "is_control_opcode Op_ping" "is_control_opcode Op_pong"
  "\<not> is_control_opcode Op_text" "\<not> is_control_opcode Op_binary" "\<not> is_control_opcode Op_continuation"
  "is_data_opcode Op_text" "is_data_opcode Op_binary" "\<not> is_data_opcode Op_continuation"
  "\<not> is_data_opcode Op_close" "\<not> is_data_opcode Op_ping" "\<not> is_data_opcode Op_pong"
  by code_simp+

lemma data_not_control: "is_data_opcode op \<Longrightarrow> \<not> is_control_opcode op"
  by (cases op) simp_all

lemma valid_utf8_Nil [simp]: "valid_utf8 []"
  by (simp add: valid_utf8_def)

lemma consume_control: "control_ok f \<Longrightarrow> assembler_consume f a = (Msg_control, a, None)"
  by (auto simp: control_ok_def assembler_consume_def)

lemma assembler_options: "assembler_consume f a = (st, b, m) \<Longrightarrow> as_options b = as_options a"
  by (auto simp: assembler_consume_def assembler_fail_def assembler_reset_def Let_def split: if_splits)

text \<open>In the middle of a message: \<open>pre\<close> has arrived and \<open>ps\<close> is to come.\<close>

lemma assemble_continuations:
  "filter (\<lambda>f. \<not> is_control_opcode (f_opcode f)) fs = continuations ps \<Longrightarrow>
   \<forall>f\<in>set fs. is_control_opcode (f_opcode f) \<longrightarrow> control_ok f \<Longrightarrow> ps \<noteq> [] \<Longrightarrow>
   deliverable (as_options a) \<lparr>wm_opcode = as_opcode a, wm_payload = as_payload a @ concat ps,
     wm_compressed = as_compressed a\<rparr> \<Longrightarrow> as_active a \<Longrightarrow>
   assemble fs a = Some ([\<lparr>wm_opcode = as_opcode a, wm_payload = as_payload a @ concat ps,
     wm_compressed = as_compressed a\<rparr>], assembler_reset a)"
proof (induction fs arbitrary: ps a)
  case Nil
  then show ?case by (cases ps) simp_all
next
  case (Cons f fs)
  show ?case
  proof (cases "is_control_opcode (f_opcode f)")
    case True
    then have "assembler_consume f a = (Msg_control, a, None)"
      using Cons.prems(2) by (intro consume_control) simp
    with True Cons show ?thesis by simp
  next
    case False
    obtain p qs where ps: "ps = p # qs" using Cons.prems(3) by (cases ps) auto
    have f: "f = data_frame (qs = []) False Op_continuation p"
      and rest: "filter (\<lambda>f. \<not> is_control_opcode (f_opcode f)) fs = continuations qs"
      using Cons.prems(1) False ps by simp_all
    let ?b = "a\<lparr>as_payload := as_payload a @ p\<rparr>"
    have fits: "length (as_payload a) + length p \<le> max_message_payload (as_options a)"
      using Cons.prems(4) by (simp add: deliverable_def ps)
    show ?thesis
    proof (cases "qs = []")
      case True
      have "\<forall>f\<in>set fs. control_ok f"
        using rest True Cons.prems(2) by (auto simp: filter_empty_conv)
      then have tail: "assemble fs b = Some ([], b)" for b
        by (induction fs arbitrary: b) (simp_all add: consume_control)
      have "assembler_consume f a = (Msg_complete, assembler_reset a,
          Some \<lparr>wm_opcode = as_opcode a, wm_payload = as_payload a @ p, wm_compressed = as_compressed a\<rparr>)"
        using True fits Cons.prems(4,5)
        by (auto simp: f data_frame_def assembler_consume_def deliverable_def ps assembler_reset_def Let_def)
      with tail True show ?thesis by (simp add: ps)
    next
      case not_last: False
      have "assembler_consume f a = (Msg_incomplete, ?b, None)"
        using not_last fits Cons.prems(5) by (simp add: f data_frame_def assembler_consume_def)
      moreover have "assemble fs ?b = Some ([\<lparr>wm_opcode = as_opcode ?b, wm_payload = as_payload ?b @ concat qs,
          wm_compressed = as_compressed ?b\<rparr>], assembler_reset ?b)"
        using rest not_last Cons.prems by (intro Cons.IH) (simp_all add: ps)
      ultimately show ?thesis by (simp add: ps assembler_reset_def)
    qed
  qed
qed

lemma assemble_fragments:
  "filter (\<lambda>f. \<not> is_control_opcode (f_opcode f)) fs = fragments m p ps \<Longrightarrow>
   \<forall>f\<in>set fs. is_control_opcode (f_opcode f) \<longrightarrow> control_ok f \<Longrightarrow>
   wm_payload m = p @ concat ps \<Longrightarrow> deliverable (as_options a) m \<Longrightarrow> assembler_idle a \<Longrightarrow>
   assemble fs a = Some ([m], a)"
proof (induction fs)
  case Nil
  then show ?case by (simp add: fragments_def)
next
  case (Cons f fs)
  have idle: "\<not> as_active a" "a = assembler_new (as_options a)"
    using Cons.prems(5) unfolding assembler_idle_def by (metis assembler_new_def ws_assembler.select_convs(5))+
  show ?case
  proof (cases "is_control_opcode (f_opcode f)")
    case True
    then have "assembler_consume f a = (Msg_control, a, None)"
      using Cons.prems(2) by (intro consume_control) simp
    with True Cons show ?thesis by simp
  next
    case False
    have f: "f = data_frame (ps = []) (wm_compressed m) (wm_opcode m) p"
      and rest: "filter (\<lambda>f. \<not> is_control_opcode (f_opcode f)) fs = continuations ps"
      using Cons.prems(1) False by (simp_all add: fragments_def)
    have op: "is_data_opcode (wm_opcode m)" "\<not> is_control_opcode (wm_opcode m)"
      using Cons.prems(4) data_not_control by (auto simp: deliverable_def)
    show ?thesis
    proof (cases "ps = []")
      case True
      have "\<forall>f\<in>set fs. control_ok f"
        using rest True Cons.prems(2) by (auto simp: filter_empty_conv)
      then have tail: "assemble fs b = Some ([], b)" for b
        by (induction fs arbitrary: b) (simp_all add: consume_control)
      have "assembler_consume f a = (Msg_complete, a, Some m)"
        using True Cons.prems(3,4) op idle(1)
        by (auto simp: f data_frame_def assembler_consume_def deliverable_def)
      with tail show ?thesis by simp
    next
      case False
      let ?b = "a\<lparr>as_active := True, as_opcode := wm_opcode m, as_payload := p, as_compressed := wm_compressed m\<rparr>"
      have "assembler_consume f a = (Msg_incomplete, ?b, None)"
        using False Cons.prems(3,4) op idle(1)
        by (auto simp: f data_frame_def assembler_consume_def deliverable_def)
      moreover have "assemble fs ?b = Some ([\<lparr>wm_opcode = as_opcode ?b, wm_payload = as_payload ?b @ concat ps,
          wm_compressed = as_compressed ?b\<rparr>], assembler_reset ?b)"
        using rest False Cons.prems by (intro assemble_continuations) (simp_all add: deliverable_def)
      moreover have "assembler_reset ?b = a"
        by (subst (2) idle(2)) (simp add: assembler_reset_def assembler_new_def)
      ultimately show ?thesis using Cons.prems(3) by simp
    qed
  qed
qed


subsection \<open>What is delivered\<close>

definition assembler_inv :: "ws_assembler \<Rightarrow> bool" where
  "assembler_inv a \<longleftrightarrow> length (as_payload a) \<le> max_message_payload (as_options a) \<and>
     (as_active a \<longrightarrow> is_data_opcode (as_opcode a))"

lemma assembler_new_inv: "assembler_inv (assembler_new opts)" "assembler_inv (assembler_reset a)"
  by (simp_all add: assembler_inv_def assembler_new_def assembler_reset_def)

lemma assembler_consume_inv:
  assumes "assembler_consume f a = (st, b, m)" and "assembler_inv a"
  shows "assembler_inv b"
  using assms
  by (auto simp: assembler_consume_def assembler_fail_def assembler_inv_def assembler_reset_def Let_def
      split: if_splits)

lemma assembler_consume_delivers:
  assumes "assembler_consume f a = (st, b, Some m)" and "assembler_inv a"
  shows "st = Msg_complete \<and> deliverable (as_options a) m"
  using assms
  by (auto simp: assembler_consume_def assembler_fail_def assembler_inv_def deliverable_def Let_def
      split: if_splits)

text \<open>The assemblers a connection can reach.\<close>

inductive assembler_session :: "ws_options \<Rightarrow> ws_assembler \<Rightarrow> bool" for opts :: ws_options where
  assembler_start: "assembler_session opts (assembler_new opts)"
| assembler_frame: "assembler_session opts a \<Longrightarrow> assembler_consume f a = (st, b, m) \<Longrightarrow> assembler_session opts b"
| assembler_clear: "assembler_session opts a \<Longrightarrow> assembler_session opts (assembler_reset a)"

lemma assembler_session_inv: "assembler_session opts a \<Longrightarrow> assembler_inv a \<and> as_options a = opts"
proof (induction rule: assembler_session.induct)
  case assembler_start
  then show ?case using assembler_new_inv by (simp add: assembler_new_def)
next
  case (assembler_frame a f st b m)
  then show ?case using assembler_consume_inv assembler_options by blast
next
  case (assembler_clear a)
  then show ?case using assembler_new_inv(2) by (simp add: assembler_reset_def)
qed

subsection \<open>Properties\<close>

text \<open>
  C4: The frame codec is a round trip for whole streams: frames the protocol allows, encoded by
  the peer with any mask keys and sent back to back, are parsed as exactly those frames, in
  order, with nothing left.
\<close>

theorem frame_stream_roundtrip:
  assumes "\<forall>kf\<in>set kfs. wf_frame opts (snd kf)"
  shows "ws_parse (frame_parser_new role opts)
      (concat (map (\<lambda>(k, f). encode_websocket_frame rnd f (mask_of role) k) kfs)) =
    (if kfs = [] then Ws_incomplete else Ws_complete, frame_parser_new role opts, map snd kfs, [])"
  using ws_parse_loop_encoded [of kfs "frame_parser_new role opts" False rnd] assms
  by (simp add: ws_parse_def frame_parser_new_def case_prod_beta')

definition sample_frames :: "(mask_key option \<times> ws_frame) list" where
  "sample_frames = [(Some (1, 2, 3, 4), data_frame False False Op_text ''Hel''),
     (None, data_frame True False Op_ping ''x''), (None, data_frame True False Op_continuation ''lo'')]"

theorem frame_stream_roundtrip_witness:
  "fst (snd (snd (ws_parse (frame_parser_new Role_server default_ws_options)
      (concat (map (\<lambda>(k, f). encode_websocket_frame (9, 8, 7, 6) f (mask_of Role_server) k) sample_frames))))) =
    map snd sample_frames"
proof -
  have "\<forall>kf\<in>set sample_frames. wf_frame default_ws_options (snd kf)"
    by (simp add: sample_frames_def wf_frame_def data_frame_def default_ws_options_def)
  from frame_stream_roundtrip [OF this, of Role_server "(9, 8, 7, 6)"] show ?thesis by simp
qed

text \<open>
  Reading in pieces: two successive reads that do not fail yield together the frames, the
  parser and the leftover bytes that one read of all the bytes yields.
\<close>

theorem frame_parse_segments:
  assumes "ws_parse p d = (st, q, fs, left)" and "st \<noteq> Ws_error"
  shows "snd (ws_parse p (d @ s)) =
    (case ws_parse q (left @ s) of (st', q', fs', left') \<Rightarrow> (q', fs @ fs', left'))"
proof -
  have q: "q = p" using ws_parse_loop_parser assms unfolding ws_parse_def by blast
  have flag: "snd (ws_parse_loop a p x) = snd (ws_parse_loop False p x)" for a x
    by (cases "parse_frame p x") (simp_all add: ws_parse_loop.simps [of _ p x] split: prod.splits)
  have "ws_parse p (d @ s) = (case ws_parse_loop (fs \<noteq> []) p (left @ s) of
      (st', q', fs', left') \<Rightarrow> (st', q', fs @ fs', left'))"
    using ws_parse_loop_append [of False p d st q fs left s] assms by (simp add: ws_parse_def)
  with flag [of "fs \<noteq> []" "left @ s"] show ?thesis
    unfolding q ws_parse_def by (auto split: prod.splits)
qed

theorem frame_parse_segments_witness:
  "let p = frame_parser_new Role_client default_ws_options;
       d = [CHR 0x81, CHR 0x02, CHR ''h'', CHR ''i'', CHR 0x89]; s = [CHR 0x00]
   in snd (ws_parse p (d @ s)) = (p, [data_frame True False Op_text ''hi'', data_frame True False Op_ping []], [])"
proof -
  let ?p = "frame_parser_new Role_client default_ws_options"
  let ?d = "[CHR 0x81, CHR 0x02, CHR ''h'', CHR ''i'', CHR 0x89]"
  have "ws_parse ?p ?d = (Ws_complete, ?p, [data_frame True False Op_text ''hi''], [CHR 0x89])"
    "ws_parse ?p ([CHR 0x89] @ [CHR 0x00]) = (Ws_complete, ?p, [data_frame True False Op_ping []], [])"
    by code_simp+
  with frame_parse_segments [of ?p ?d _ _ _ _ "[CHR 0x00]"] show ?thesis by simp
qed

text \<open>
  C5: End to end: a deliverable message, split into fragments in any way and interleaved with
  valid control frames, encoded with any mask keys, arrives as that one message and leaves the
  assembler ready for the next.
\<close>

theorem message_end_to_end:
  assumes "filter (\<lambda>f. \<not> is_control_opcode (f_opcode f)) (map snd kfs) = fragments m part parts"
    and "wm_payload m = part @ concat parts" and "deliverable opts m"
    and "\<forall>kf\<in>set kfs. wf_frame opts (snd kf) \<and> (is_control_opcode (f_opcode (snd kf)) \<longrightarrow> control_ok (snd kf))"
  shows "(case ws_parse (frame_parser_new role opts)
        (concat (map (\<lambda>(k, f). encode_websocket_frame rnd f (mask_of role) k) kfs)) of
      (st, q, fs, left) \<Rightarrow> st = Ws_complete \<and> left = [] \<and>
        assemble fs (assembler_new opts) = Some ([m], assembler_new opts))"
proof -
  have kfs: "kfs \<noteq> []" using assms(1) by (auto simp: fragments_def)
  have parse: "ws_parse (frame_parser_new role opts)
      (concat (map (\<lambda>(k, f). encode_websocket_frame rnd f (mask_of role) k) kfs)) =
      (Ws_complete, frame_parser_new role opts, map snd kfs, [])"
    using ws_parse_loop_encoded [of kfs "frame_parser_new role opts" False rnd] assms(4) kfs
    by (auto simp: ws_parse_def frame_parser_new_def case_prod_beta')
  have "assemble (map snd kfs) (assembler_new opts) = Some ([m], assembler_new opts)"
    using assms by (intro assemble_fragments) (auto simp: assembler_new_def assembler_idle_def)
  with parse show ?thesis by simp
qed

theorem message_end_to_end_witness:
  "(case ws_parse (frame_parser_new Role_server default_ws_options)
      (concat (map (\<lambda>(k, f). encode_websocket_frame (9, 8, 7, 6) f (mask_of Role_server) k) sample_frames)) of
    (st, q, fs, left) \<Rightarrow> assemble fs (assembler_new default_ws_options)) =
    Some ([\<lparr>wm_opcode = Op_text, wm_payload = ''Hello'', wm_compressed = False\<rparr>],
      assembler_new default_ws_options)"
proof -
  let ?m = "\<lparr>wm_opcode = Op_text, wm_payload = ''Hello'', wm_compressed = False\<rparr>"
  have "deliverable default_ws_options ?m" by code_simp
  moreover have "\<forall>kf\<in>set sample_frames. wf_frame default_ws_options (snd kf) \<and>
      (is_control_opcode (f_opcode (snd kf)) \<longrightarrow> control_ok (snd kf))"
    by (simp add: sample_frames_def wf_frame_def data_frame_def default_ws_options_def control_ok_def)
  ultimately show ?thesis
    using message_end_to_end [of sample_frames ?m "''Hel''" "[''lo'']" default_ws_options Role_server "(9, 8, 7, 6)"]
    by (simp add: sample_frames_def data_frame_def fragments_def split: prod.splits)
qed



end
