(* ===== verification/Response.thy ===== *)
theory Response
  imports Semantics "HOL-Library.List_Lexorder" "HOL-Library.Char_ord"
begin

text \<open>
  \<open>HttpResponse\<close> (src/src/http/http_response.cpp, src/include/oklib/http/http_response.h) and the
  chunk encoder of \<open>HttpResponseWriter\<close>. The header map is a \<open>std::map\<close>, here an association
  list kept in the order of its keys; strings compare byte by byte as unsigned characters.
\<close>

subsection \<open>The header map\<close>

fun map_assign :: "string \<Rightarrow> string \<Rightarrow> (string \<times> string) list \<Rightarrow> (string \<times> string) list" where
  "map_assign k v [] = [(k, v)]"
| "map_assign k v ((k', v') # m) =
     (if k = k' then (k, v) # m
      else if k < k' then (k, v) # (k', v') # m
      else (k', v') # map_assign k v m)"

subsection \<open>The response\<close>

record http_response =
  resp_status_code :: int
  resp_status_message :: string
  resp_close_connection :: bool
  resp_headers :: "(string \<times> string) list"
  resp_body :: string

definition response_new :: "bool \<Rightarrow> http_response" where
  "response_new close_connection =
     \<lparr>resp_status_code = 0, resp_status_message = [], resp_close_connection = close_connection,
      resp_headers = [], resp_body = []\<rparr>"

definition add_header :: "string \<Rightarrow> string \<Rightarrow> http_response \<Rightarrow> http_response" where
  "add_header field value r = r\<lparr>resp_headers := map_assign field value (resp_headers r)\<rparr>"

definition set_content_type :: "string \<Rightarrow> http_response \<Rightarrow> http_response" where
  "set_content_type content_type r = add_header ''Content-Type'' content_type r"

text \<open>\<open>std::to_string(int)\<close>.\<close>

definition string_of_int :: "int \<Rightarrow> string" where
  "string_of_int n = (if n < 0 then CHR ''-'' # to_chars 10 (nat (- n)) else to_chars 10 (nat n))"

definition status_message :: "http_response \<Rightarrow> string" where
  "status_message r =
     (if resp_status_message r \<noteq> [] then resp_status_message r
      else let standard = standard_reason_phrase (resp_status_code r)
           in if standard \<noteq> [] then standard else ''Unknown'')"

definition header_line :: "string \<times> string \<Rightarrow> string" where
  "header_line fv = (case fv of (field, value) \<Rightarrow> field @ '': '' @ value @ crlf)"

definition framing_line :: "http_response \<Rightarrow> bool \<Rightarrow> string" where
  "framing_line r chunked =
     (if \<not> status_code_allows_body (resp_status_code r) then ''Content-Length: 0'' @ crlf
      else if chunked then ''Transfer-Encoding: chunked'' @ crlf
      else ''Content-Length: '' @ to_chars 10 (length (resp_body r)) @ crlf)"

definition headers_to_buffer :: "http_response \<Rightarrow> bool \<Rightarrow> string" where
  "headers_to_buffer r chunked =
     ''HTTP/1.1 '' @ string_of_int (resp_status_code r) @ '' '' @ status_message r @ crlf @
     (if resp_close_connection r then ''Connection: close'' @ crlf else ''Connection: Keep-Alive'' @ crlf) @
     framing_line r chunked @
     concat (map header_line (resp_headers r)) @ crlf"

definition response_to_buffer :: "http_response \<Rightarrow> bool \<Rightarrow> string" where
  "response_to_buffer r include_body =
     headers_to_buffer r False @
     (if include_body \<and> status_code_allows_body (resp_status_code r) then resp_body r else [])"

definition encode_chunk :: "string \<Rightarrow> string" where
  "encode_chunk data = to_chars 16 (length data) @ crlf @ data @ crlf"

subsection \<open>The header map's laws\<close>

lemma map_assign_lookup:
  "sorted (map fst m) \<Longrightarrow> distinct (map fst m) \<Longrightarrow> map_of (map_assign k v m) = (map_of m)(k \<mapsto> v)"
  by (induction k v m rule: map_assign.induct) (auto simp: fun_eq_iff)

lemma map_assign_keys: "set (map fst (map_assign k v m)) = insert k (set (map fst m))"
  by (induction k v m rule: map_assign.induct) auto

lemma map_assign_sorted:
  "sorted (map fst m) \<Longrightarrow> distinct (map fst m) \<Longrightarrow>
   sorted (map fst (map_assign k v m)) \<and> distinct (map fst (map_assign k v m))"
proof (induction k v m rule: map_assign.induct)
  case (2 k v k' v' m)
  have "set (map fst (map_assign k v m)) = insert k (set (map fst m))" by (rule map_assign_keys)
  with 2 show ?case by (auto simp: not_less_iff_gr_or_eq)
qed simp

end
