(* ===== verification/Writer.thy ===== *)
theory Writer
  imports Response "HOL-Library.AList"
begin

text \<open>
  \<open>HttpResponseWriter\<close> (src/src/http/http_response_writer.cpp): the shared state that puts the
  responses of pipelined requests back in request order, the writer of one request, and the flush
  that runs in the event loop. The pending map is an association list. What the connection was
  given is recorded: the strings sent and whether \<open>shutdown\<close> was called.
\<close>

subsection \<open>State\<close>

record pending_response =
  pr_chunks :: "string list"
  pr_close_connection :: bool
  pr_finished :: bool

record response_queue =
  rq_connection :: bool
  rq_pending :: "(nat \<times> pending_response) list"
  rq_next_to_send :: nat
  rq_closed :: bool
  rq_sent :: "string list"
  rq_shutdown :: bool
  rq_tasks :: nat

definition queue_new :: response_queue where
  "queue_new = \<lparr>rq_connection = True, rq_pending = [], rq_next_to_send = 0, rq_closed = False,
     rq_sent = [], rq_shutdown = False, rq_tasks = 0\<rparr>"

definition pending_new :: pending_response where
  "pending_new = \<lparr>pr_chunks = [], pr_close_connection = False, pr_finished = False\<rparr>"

text \<open>A writer; \<open>wr_write_state\<close> is the shared atomic: 0 fresh, 1 chunked, 2 done.\<close>

record response_writer =
  wr_sequence :: nat
  wr_close_connection :: bool
  wr_include_body :: bool
  wr_write_state :: nat

definition writer_new :: "nat \<Rightarrow> bool \<Rightarrow> bool \<Rightarrow> response_writer" where
  "writer_new sequence close_connection include_body =
     \<lparr>wr_sequence = sequence, wr_close_connection = close_connection, wr_include_body = include_body,
      wr_write_state = 0\<rparr>"

subsection \<open>Operations\<close>

definition enqueue_pending :: "string \<Rightarrow> bool \<Rightarrow> bool \<Rightarrow> pending_response \<Rightarrow> pending_response" where
  "enqueue_pending bytes finished close_connection p =
     \<lparr>pr_chunks = pr_chunks p @ [bytes], pr_close_connection = pr_close_connection p \<or> close_connection,
      pr_finished = pr_finished p \<or> finished\<rparr>"

definition writer_enqueue :: "string \<Rightarrow> bool \<Rightarrow> bool \<Rightarrow> response_writer \<Rightarrow> response_queue \<Rightarrow> bool \<times> response_queue" where
  "writer_enqueue bytes finished close_connection w s =
     (if rq_closed s then (False, s)
      else
        let pending = (case map_of (rq_pending s) (wr_sequence w) of None \<Rightarrow> pending_new | Some p \<Rightarrow> p);
            s1 = s\<lparr>rq_pending := AList.update (wr_sequence w)
                     (enqueue_pending bytes finished close_connection pending) (rq_pending s)\<rparr>
        in if \<not> rq_connection s then (False, s1) else (True, s1\<lparr>rq_tasks := rq_tasks s1 + 1\<rparr>))"

definition mark_close :: "response_writer \<Rightarrow> http_response \<Rightarrow> http_response" where
  "mark_close w response =
     (if wr_close_connection w then response\<lparr>resp_close_connection := True\<rparr> else response)"

definition writer_send :: "http_response \<Rightarrow> response_writer \<Rightarrow> response_queue \<Rightarrow>
    bool \<times> response_writer \<times> response_queue" where
  "writer_send response0 w s =
     (if wr_write_state w \<noteq> 0 then (False, w, s)
      else
        let response = mark_close w response0;
            (ok, t) = writer_enqueue (response_to_buffer response (wr_include_body w)) True
                        (resp_close_connection response) w s
        in (ok, w\<lparr>wr_write_state := 2\<rparr>, t))"

definition writer_start_chunked :: "http_response \<Rightarrow> response_writer \<Rightarrow> response_queue \<Rightarrow>
    bool \<times> response_writer \<times> response_queue" where
  "writer_start_chunked response0 w s =
     (if wr_write_state w \<noteq> 0 then (False, w, s)
      else
        let response = mark_close w response0;
            (ok, t) = writer_enqueue (headers_to_buffer response True) (\<not> wr_include_body w)
                        (resp_close_connection response) w s
        in (ok, w\<lparr>wr_write_state := 1\<rparr>, t))"

definition writer_write_chunk :: "string \<Rightarrow> response_writer \<Rightarrow> response_queue \<Rightarrow>
    bool \<times> response_writer \<times> response_queue" where
  "writer_write_chunk data w s =
     (if wr_write_state w \<noteq> 1 then (False, w, s)
      else if data = [] then (True, w, s)
      else let (ok, t) = writer_enqueue (encode_chunk data) False (wr_close_connection w) w s in (ok, w, t))"

definition writer_finish :: "response_writer \<Rightarrow> response_queue \<Rightarrow> bool \<times> response_writer \<times> response_queue" where
  "writer_finish w s =
     (if wr_write_state w \<noteq> 1 then (False, w, s)
      else let (ok, t) = writer_enqueue (''0'' @ crlf @ crlf) True (wr_close_connection w) w s
           in (ok, w\<lparr>wr_write_state := 2\<rparr>, t))"

text \<open>
  The loop under the lock of \<open>flush_ready_responses\<close>: the chunks taken, in order, and whether a
  finished response asked to close.
\<close>

function flush_loop :: "response_queue \<Rightarrow> string list \<times> bool \<times> response_queue" where
  "flush_loop s =
     (case map_of (rq_pending s) (rq_next_to_send s) of
        None \<Rightarrow> ([], False, s)
      | Some p \<Rightarrow>
          if \<not> pr_finished p then
            (pr_chunks p, False,
             s\<lparr>rq_pending := AList.update (rq_next_to_send s) (p\<lparr>pr_chunks := []\<rparr>) (rq_pending s)\<rparr>)
          else
            let s1 = s\<lparr>rq_pending := AList.delete (rq_next_to_send s) (rq_pending s),
                       rq_next_to_send := rq_next_to_send s + 1\<rparr>
            in if pr_close_connection p then (pr_chunks p, True, s1\<lparr>rq_closed := True\<rparr>)
               else (case flush_loop s1 of (chunks, close, t) \<Rightarrow> (pr_chunks p @ chunks, close, t)))"
  by pat_completeness auto

lemma delete_shorter: "map_of m k = Some v \<Longrightarrow> length (AList.delete k m) < length m"
  by (induction m) (auto simp: AList.delete_eq intro: le_less_trans [OF length_filter_le])

termination flush_loop
  by (relation "measure (\<lambda>s. length (rq_pending s))") (auto dest: delete_shorter)

declare flush_loop.simps [simp del]

definition flush_ready_responses :: "response_queue \<Rightarrow> response_queue" where
  "flush_ready_responses s =
     (if \<not> rq_connection s then s
      else if rq_closed s then s
      else case flush_loop s of
             (chunks, close, t) \<Rightarrow>
               t\<lparr>rq_sent := rq_sent t @ chunks, rq_shutdown := rq_shutdown t \<or> close\<rparr>)"

end
