(* ===== verification/Writer_Order.thy ===== *)
theory Writer_Order
  imports Writer "HOL-Library.Sublist"
begin

text \<open>
  Pipelining: whatever order the handlers answer in, the connection is given the responses in
  request order, each complete before the next begins, and nothing behind a response that closes.
\<close>

subsection \<open>Runs of one connection\<close>

text \<open>
  A run interleaves the calls of handlers (on any thread) with the loop's flush tasks. The third
  component logs, per request, the strings its writer had accepted. A handler whose request does
  not want a body (\<open>include_body()\<close> is false) does not go on to write chunks.
\<close>

definition logged :: "response_queue \<Rightarrow> nat \<Rightarrow> string \<Rightarrow> (nat \<Rightarrow> string list) \<Rightarrow> nat \<Rightarrow> string list" where
  "logged s k bytes log = (if rq_closed s then log else log(k := log k @ [bytes]))"

inductive writer_run :: "response_queue \<Rightarrow> response_writer list \<Rightarrow> (nat \<Rightarrow> string list) \<Rightarrow> bool" where
  run_start: "writer_run queue_new [] (\<lambda>k. [])"
| run_request: "writer_run s ws log \<Longrightarrow> writer_run s (ws @ [writer_new (length ws) close include_body]) log"
| run_send: "\<lbrakk>writer_run s ws log; k < length ws; wr_write_state (ws ! k) = 0; writer_send r (ws ! k) s = (ok, w, t)\<rbrakk>
    \<Longrightarrow> writer_run t (ws[k := w])
          (logged s k (response_to_buffer (mark_close (ws ! k) r) (wr_include_body (ws ! k))) log)"
| run_start_chunked: "\<lbrakk>writer_run s ws log; k < length ws; wr_write_state (ws ! k) = 0;
      writer_start_chunked r (ws ! k) s = (ok, w, t)\<rbrakk>
    \<Longrightarrow> writer_run t (ws[k := w]) (logged s k (headers_to_buffer (mark_close (ws ! k) r) True) log)"
| run_write_chunk: "\<lbrakk>writer_run s ws log; k < length ws; wr_write_state (ws ! k) = 1; wr_include_body (ws ! k);
      data \<noteq> []; writer_write_chunk data (ws ! k) s = (ok, w, t)\<rbrakk>
    \<Longrightarrow> writer_run t (ws[k := w]) (logged s k (encode_chunk data) log)"
| run_finish: "\<lbrakk>writer_run s ws log; k < length ws; wr_write_state (ws ! k) = 1; wr_include_body (ws ! k);
      writer_finish (ws ! k) s = (ok, w, t)\<rbrakk>
    \<Longrightarrow> writer_run t (ws[k := w]) (logged s k (''0'' @ crlf @ crlf) log)"
| run_refused: "\<lbrakk>writer_run s ws log; k < length ws; w = ws ! k;
      (wr_write_state w \<noteq> 0 \<and> (writer_send r w s = (ok, w', t) \<or> writer_start_chunked r w s = (ok, w', t))) \<or>
      (wr_write_state w \<noteq> 1 \<and> (writer_write_chunk data w s = (ok, w', t) \<or> writer_finish w s = (ok, w', t)))\<rbrakk>
    \<Longrightarrow> writer_run t (ws[k := w']) log"
| run_flush: "writer_run s ws log \<Longrightarrow> writer_run (flush_ready_responses s) ws log"
| run_lost: "writer_run s ws log \<Longrightarrow> writer_run (s\<lparr>rq_connection := False\<rparr>) ws log"

subsection \<open>Invariant\<close>

definition settled :: "response_writer \<Rightarrow> bool" where
  "settled w \<longleftrightarrow> wr_write_state w = 2 \<or> wr_write_state w = 1 \<and> \<not> wr_include_body w"

definition chunks_of :: "(nat \<times> pending_response) list \<Rightarrow> nat \<Rightarrow> string list" where
  "chunks_of m k = (case map_of m k of None \<Rightarrow> [] | Some p \<Rightarrow> pr_chunks p)"

text \<open>Once the queue is closed a writer may settle without a trace in the queue.\<close>

definition finish_agrees :: "bool \<Rightarrow> pending_response \<Rightarrow> response_writer \<Rightarrow> bool" where
  "finish_agrees closed p w \<longleftrightarrow> (if closed then pr_finished p \<longrightarrow> settled w else pr_finished p = settled w)"

definition pending_inv :: "bool \<Rightarrow> nat \<Rightarrow> (nat \<times> pending_response) list \<Rightarrow> response_writer list \<Rightarrow> bool" where
  "pending_inv closed n pending ws \<longleftrightarrow>
     (\<forall>k p. map_of pending k = Some p \<longrightarrow> n \<le> k \<and> k < length ws \<and> finish_agrees closed p (ws ! k))"

definition before_inv :: "nat \<Rightarrow> response_writer list \<Rightarrow> bool" where
  "before_inv n ws \<longleftrightarrow> n \<le> length ws \<and> (\<forall>k<length ws. wr_sequence (ws ! k) = k) \<and> (\<forall>k<n. settled (ws ! k))"

definition kept_inv :: "bool \<Rightarrow> nat \<Rightarrow> (nat \<times> pending_response) list \<Rightarrow> response_writer list \<Rightarrow> bool" where
  "kept_inv closed n pending ws \<longleftrightarrow>
     (\<not> closed \<longrightarrow> (\<forall>k<length ws. n \<le> k \<longrightarrow> settled (ws ! k) \<longrightarrow> map_of pending k \<noteq> None))"

definition writers_inv :: "response_queue \<Rightarrow> response_writer list \<Rightarrow> bool" where
  "writers_inv s ws \<longleftrightarrow>
     before_inv (rq_next_to_send s) ws \<and> pending_inv (rq_closed s) (rq_next_to_send s) (rq_pending s) ws \<and>
     kept_inv (rq_closed s) (rq_next_to_send s) (rq_pending s) ws"

definition stream_inv :: "response_queue \<Rightarrow> nat \<Rightarrow> (nat \<Rightarrow> string list) \<Rightarrow> string list \<Rightarrow> bool" where
  "stream_inv s n log sent \<longleftrightarrow>
     (\<forall>k\<ge>n. log k = []) \<and> (\<forall>k>rq_next_to_send s. log k = chunks_of (rq_pending s) k) \<and>
     (\<exists>flushed. sent = concat (map log [0..<rq_next_to_send s]) @ flushed \<and>
        log (rq_next_to_send s) = flushed @ chunks_of (rq_pending s) (rq_next_to_send s))"

lemma upt_concat_Suc: "concat (map log [0..<Suc n]) = concat (map log [0..<n]) @ log n"
  by simp

lemma settled_pending_kept:
  "writers_inv s ws \<Longrightarrow> map_of (rq_pending s) (rq_next_to_send s) = Some p \<Longrightarrow> pr_finished p \<Longrightarrow>
   writers_inv (s\<lparr>rq_pending := AList.delete (rq_next_to_send s) (rq_pending s),
     rq_next_to_send := rq_next_to_send s + 1\<rparr>) ws"
proof -
  let ?n = "rq_next_to_send s"
  assume "writers_inv s ws" and p: "map_of (rq_pending s) ?n = Some p" and fin: "pr_finished p"
  then have inv: "before_inv ?n ws" "pending_inv (rq_closed s) ?n (rq_pending s) ws"
    and kept: "kept_inv (rq_closed s) ?n (rq_pending s) ws" by (simp_all add: writers_inv_def)
  then have "?n < length ws" "settled (ws ! ?n)"
    using p fin unfolding pending_inv_def finish_agrees_def by metis+
  then have "before_inv (?n + 1) ws" using inv(1) by (auto simp: before_inv_def less_Suc_eq)
  moreover have "pending_inv (rq_closed s) (?n + 1) (AList.delete ?n (rq_pending s)) ws"
    unfolding pending_inv_def
  proof (intro allI impI)
    fix k q assume "map_of (AList.delete ?n (rq_pending s)) k = Some q"
    then have "k \<noteq> ?n" and q: "map_of (rq_pending s) k = Some q" by (auto simp: delete_conv split: if_splits)
    with inv(2) have "?n \<le> k" "k < length ws" "finish_agrees (rq_closed s) q (ws ! k)"
      unfolding pending_inv_def by blast+
    with \<open>k \<noteq> ?n\<close> show "?n + 1 \<le> k \<and> k < length ws \<and> finish_agrees (rq_closed s) q (ws ! k)" by simp
  qed
  moreover have "kept_inv (rq_closed s) (?n + 1) (AList.delete ?n (rq_pending s)) ws"
    using kept by (simp add: kept_inv_def delete_conv)
  ultimately show ?thesis by (simp add: writers_inv_def)
qed

lemma kept_inv_update: "kept_inv closed n m ws \<Longrightarrow> kept_inv closed n (AList.update k p m) ws"
  by (simp add: kept_inv_def update_conv)

lemma pending_inv_update:
  "pending_inv closed n m ws \<Longrightarrow> n \<le> k \<Longrightarrow> k < length ws \<Longrightarrow> finish_agrees closed p (ws ! k) \<Longrightarrow>
   pending_inv closed n (AList.update k p m) ws"
  unfolding pending_inv_def by (simp add: update_conv)

lemma stream_inv_next:
  assumes "stream_inv s n log sent" and "map_of (rq_pending s) (rq_next_to_send s) = Some p"
  shows "stream_inv (s\<lparr>rq_pending := AList.delete (rq_next_to_send s) (rq_pending s),
     rq_next_to_send := rq_next_to_send s + 1\<rparr>) n log (sent @ pr_chunks p)"
proof -
  let ?n = "rq_next_to_send s" and ?m = "AList.delete (rq_next_to_send s) (rq_pending s)"
  obtain fl where fl: "sent = concat (map log [0..<?n]) @ fl" "log ?n = fl @ pr_chunks p"
    and later: "\<forall>k>?n. log k = chunks_of (rq_pending s) k" and none: "\<forall>k\<ge>n. log k = []"
    using assms by (auto simp: stream_inv_def chunks_of_def)
  have same: "chunks_of ?m k = chunks_of (rq_pending s) k" if "k \<noteq> ?n" for k
    using that by (simp add: chunks_of_def delete_conv)
  have "sent @ pr_chunks p = concat (map log [0..<?n + 1]) @ []" by (simp add: fl)
  moreover have "log (?n + 1) = [] @ chunks_of ?m (?n + 1)" using later same by simp
  moreover have "\<forall>k>?n + 1. log k = chunks_of ?m k" using later same by simp
  ultimately show ?thesis using none unfolding stream_inv_def by force
qed

lemma stream_inv_partial:
  assumes "stream_inv s n log sent" and "map_of (rq_pending s) (rq_next_to_send s) = Some p"
  shows "stream_inv (s\<lparr>rq_pending := AList.update (rq_next_to_send s) (p\<lparr>pr_chunks := []\<rparr>) (rq_pending s)\<rparr>)
    n log (sent @ pr_chunks p)"
proof -
  let ?n = "rq_next_to_send s" and ?m = "AList.update (rq_next_to_send s) (p\<lparr>pr_chunks := []\<rparr>) (rq_pending s)"
  obtain fl where fl: "sent = concat (map log [0..<?n]) @ fl" "log ?n = fl @ pr_chunks p"
    and later: "\<forall>k>?n. log k = chunks_of (rq_pending s) k" and none: "\<forall>k\<ge>n. log k = []"
    using assms by (auto simp: stream_inv_def chunks_of_def)
  have "sent @ pr_chunks p = concat (map log [0..<?n]) @ (fl @ pr_chunks p)" by (simp add: fl)
  moreover have "log ?n = (fl @ pr_chunks p) @ chunks_of ?m ?n" by (simp add: fl chunks_of_def update_conv)
  moreover have "\<forall>k>?n. log k = chunks_of ?m k" using later by (simp add: chunks_of_def update_conv)
  ultimately show ?thesis using none unfolding stream_inv_def by force
qed

lemma stream_inv_flags [simp]:
  "stream_inv (s\<lparr>rq_closed := b\<rparr>) n log sent = stream_inv s n log sent"
  "stream_inv (s\<lparr>rq_sent := x\<rparr>) n log sent = stream_inv s n log sent"
  "stream_inv (s\<lparr>rq_shutdown := b\<rparr>) n log sent = stream_inv s n log sent"
  "stream_inv (s\<lparr>rq_connection := b\<rparr>) n log sent = stream_inv s n log sent"
  "stream_inv (s\<lparr>rq_tasks := m\<rparr>) n log sent = stream_inv s n log sent"
  "writers_inv (s\<lparr>rq_sent := x\<rparr>) ws = writers_inv s ws"
  "writers_inv (s\<lparr>rq_shutdown := b\<rparr>) ws = writers_inv s ws"
  "writers_inv (s\<lparr>rq_connection := b\<rparr>) ws = writers_inv s ws" "writers_inv (s\<lparr>rq_tasks := m\<rparr>) ws = writers_inv s ws"
  by (simp_all add: stream_inv_def writers_inv_def)

lemma writers_inv_close: "writers_inv s ws \<Longrightarrow> \<not> rq_closed s \<Longrightarrow> writers_inv (s\<lparr>rq_closed := True\<rparr>) ws"
  by (auto simp: writers_inv_def pending_inv_def finish_agrees_def kept_inv_def)

lemma flush_loop_keeps: "flush_loop s = (chunks, close, t) \<Longrightarrow> rq_sent t = rq_sent s \<and> rq_shutdown t = rq_shutdown s"
proof (induction s arbitrary: chunks close t rule: flush_loop.induct)
  case (1 s)
  show ?case
  proof (cases "map_of (rq_pending s) (rq_next_to_send s)")
    case None
    with 1(2) show ?thesis by (simp add: flush_loop.simps [of s])
  next
    case (Some p)
    show ?thesis
    proof (cases "pr_finished p \<and> \<not> pr_close_connection p")
      case True
      let ?s1 = "s\<lparr>rq_pending := AList.delete (rq_next_to_send s) (rq_pending s),
        rq_next_to_send := rq_next_to_send s + 1\<rparr>"
      obtain c d u where rec: "flush_loop ?s1 = (c, d, u)" by (cases "flush_loop ?s1")
      with 1(2) Some True have "t = u" by (auto simp: flush_loop.simps [of s] Let_def)
      with 1(1) [OF Some _ refl _ rec] True show ?thesis by simp
    next
      case False
      with 1(2) Some show ?thesis by (auto simp: flush_loop.simps [of s] Let_def split: if_splits)
    qed
  qed
qed

lemma flush_loop_inv:
  "flush_loop s = (chunks, close, t) \<Longrightarrow> writers_inv s ws \<Longrightarrow> stream_inv s (length ws) log sent \<Longrightarrow>
   \<not> rq_closed s \<Longrightarrow>
   writers_inv t ws \<and> stream_inv t (length ws) log (sent @ chunks) \<and> rq_closed t = close \<and>
   (close \<longrightarrow> sent @ chunks = concat (map log [0..<rq_next_to_send t])) \<and>
   (\<not> close \<longrightarrow> (\<forall>p. map_of (rq_pending t) (rq_next_to_send t) = Some p \<longrightarrow> pr_chunks p = [] \<and> \<not> pr_finished p))"
proof (induction s arbitrary: chunks close t sent rule: flush_loop.induct)
  case (1 s)
  show ?case
  proof (cases "map_of (rq_pending s) (rq_next_to_send s)")
    case None
    with 1(2) have "chunks = []" "\<not> close" "t = s" by (auto simp: flush_loop.simps [of s])
    with 1(3-5) None show ?thesis by simp
  next
    case (Some p)
    show ?thesis
    proof (cases "pr_finished p")
      case False
      with 1(2) Some have t: "chunks = pr_chunks p" "\<not> close"
        "t = s\<lparr>rq_pending := AList.update (rq_next_to_send s) (p\<lparr>pr_chunks := []\<rparr>) (rq_pending s)\<rparr>"
        by (auto simp: flush_loop.simps [of s])
      have "pending_inv (rq_closed s) (rq_next_to_send s) (rq_pending s) ws" using 1(3) by (simp add: writers_inv_def)
      moreover from this have "rq_next_to_send s < length ws \<and> finish_agrees (rq_closed s) p (ws ! rq_next_to_send s)"
        using Some unfolding pending_inv_def by blast
      ultimately have "writers_inv t ws"
        using 1(3) by (simp add: t writers_inv_def pending_inv_update finish_agrees_def kept_inv_update)
      moreover have "stream_inv t (length ws) log (sent @ chunks)"
        using stream_inv_partial [OF 1(4) Some] by (simp add: t)
      ultimately show ?thesis using 1(5) False t by (simp add: update_conv)
    next
      case fin: True
      let ?s1 = "s\<lparr>rq_pending := AList.delete (rq_next_to_send s) (rq_pending s),
        rq_next_to_send := rq_next_to_send s + 1\<rparr>"
      have inv1: "writers_inv ?s1 ws" "stream_inv ?s1 (length ws) log (sent @ pr_chunks p)"
        using 1(3,4) Some fin settled_pending_kept stream_inv_next by blast+
      show ?thesis
      proof (cases "pr_close_connection p")
        case True
        with 1(2) Some fin have t: "chunks = pr_chunks p" "close" "t = ?s1\<lparr>rq_closed := True\<rparr>"
          by (auto simp: flush_loop.simps [of s] Let_def)
        have "sent @ chunks = concat (map log [0..<rq_next_to_send t])"
          using 1(4) Some by (auto simp: t stream_inv_def chunks_of_def)
        moreover have "writers_inv t ws" using inv1(1) 1(5) writers_inv_close by (simp add: t)
        ultimately show ?thesis using inv1 t by simp
      next
        case False
        obtain c d u where rec: "flush_loop ?s1 = (c, d, u)" by (cases "flush_loop ?s1")
        with 1(2) Some fin False have "chunks = pr_chunks p @ c" "close = d" "t = u"
          by (auto simp: flush_loop.simps [of s] Let_def)
        with 1(1) [OF Some _ refl False rec inv1] fin 1(5) show ?thesis by simp
      qed
    qed
  qed
qed


subsection \<open>The calls of a writer\<close>

lemma enqueue_inv:
  assumes "writers_inv s ws" and k: "k < length ws" and "\<not> settled (ws ! k)"
    and enq: "writer_enqueue bytes fin close (ws ! k) s = (ok, t)"
    and w: "settled w = fin" "wr_sequence w = k"
  shows "writers_inv t (ws[k := w]) \<and> rq_closed t = rq_closed s \<and> rq_next_to_send t = rq_next_to_send s \<and>
    rq_sent t = rq_sent s \<and> rq_shutdown t = rq_shutdown s \<and>
    (stream_inv s (length ws) log sent \<longrightarrow> \<not> rq_closed s \<longrightarrow> stream_inv t (length ws) (logged s k bytes log) sent)"
proof -
  let ?n = "rq_next_to_send s"
  have inv: "before_inv ?n ws" "pending_inv (rq_closed s) ?n (rq_pending s) ws"
    and kept: "kept_inv (rq_closed s) ?n (rq_pending s) ws"
    using assms(1) by (simp_all add: writers_inv_def)
  have nk: "?n \<le> k" using inv(1) assms(3) unfolding before_inv_def by (meson leI)
  have seq: "wr_sequence (ws ! k) = k" using inv(1) k by (simp add: before_inv_def)
  have before: "before_inv ?n (ws[k := w])"
    using inv(1) nk k w by (auto simp: before_inv_def nth_list_update)
  show ?thesis
  proof (cases "rq_closed s")
    case True
    then have "t = s" using enq by (auto simp: writer_enqueue_def)
    moreover have "pending_inv True ?n (rq_pending s) (ws[k := w])"
      using inv(2) True assms(3) k by (auto simp: pending_inv_def finish_agrees_def nth_list_update)
    ultimately show ?thesis using before True by (simp add: writers_inv_def kept_inv_def)
  next
    case False
    define p where "p = (case map_of (rq_pending s) k of None \<Rightarrow> pending_new | Some p \<Rightarrow> p)"
    define p' where "p' = enqueue_pending bytes fin close p"
    let ?m = "AList.update k p' (rq_pending s)"
    have t: "rq_pending t = ?m" "rq_closed t = rq_closed s" "rq_next_to_send t = ?n" "rq_sent t = rq_sent s"
      "rq_shutdown t = rq_shutdown s"
      using enq False by (auto simp: writer_enqueue_def seq p_def p'_def Let_def split: if_splits)
    have "\<not> pr_finished p"
      using inv(2) assms(3) False
      by (auto simp: p_def pending_new_def pending_inv_def finish_agrees_def split: option.split)
    then have p': "pr_finished p' = settled w" "pr_chunks p' = pr_chunks p @ [bytes]"
      using w by (simp_all add: p'_def enqueue_pending_def)
    have "pending_inv False ?n (rq_pending s) (ws[k := w])" if "map_of (rq_pending s) k = None"
      using inv(2) False that k by (auto simp: pending_inv_def nth_list_update)
    moreover have pend: "pending_inv False ?n ?m (ws[k := w])"
      using inv(2) False nk k p'(1)
      by (auto simp: pending_inv_def update_conv nth_list_update finish_agrees_def split: if_splits)
    moreover have "kept_inv False ?n ?m (ws[k := w])"
      using kept False k by (auto simp: kept_inv_def update_conv nth_list_update)
    ultimately have "writers_inv t (ws[k := w])" using before t False by (simp add: writers_inv_def)
    moreover have "stream_inv t (length ws) (logged s k bytes log) sent" if st: "stream_inv s (length ws) log sent"
    proof -
      have p_chunks: "pr_chunks p = chunks_of (rq_pending s) k"
        by (simp add: p_def chunks_of_def pending_new_def split: option.split)
      have ch: "chunks_of ?m j = (if j = k then chunks_of (rq_pending s) k @ [bytes] else chunks_of (rq_pending s) j)" for j
        using p'(2) p_chunks by (simp add: chunks_of_def update_conv)
      obtain fl where fl: "sent = concat (map log [0..<?n]) @ fl" "log ?n = fl @ chunks_of (rq_pending s) ?n"
        and later: "\<forall>j>?n. log j = chunks_of (rq_pending s) j" and none: "\<forall>j\<ge>length ws. log j = []"
        using st by (auto simp: stream_inv_def)
      let ?log = "log(k := log k @ [bytes])"
      have same: "map ?log [0..<?n] = map log [0..<?n]" using nk by simp
      have "sent = concat (map ?log [0..<?n]) @ fl" unfolding same by (rule fl(1))
      moreover have "?log ?n = fl @ chunks_of ?m ?n" using fl(2) by (cases "?n = k") (auto simp: ch)
      moreover have "\<forall>j>?n. ?log j = chunks_of ?m j" using later by (simp add: ch)
      moreover have "\<forall>j\<ge>length ws. ?log j = []" using none k by simp
      ultimately show ?thesis using False t unfolding stream_inv_def logged_def by auto
    qed
    ultimately show ?thesis using t by simp
  qed
qed

definition run_inv :: "response_queue \<Rightarrow> response_writer list \<Rightarrow> (nat \<Rightarrow> string list) \<Rightarrow> bool" where
  "run_inv s ws log \<longleftrightarrow>
     writers_inv s ws \<and> rq_shutdown s = rq_closed s \<and> (\<forall>k\<ge>length ws. log k = []) \<and>
     (if rq_closed s then rq_sent s = concat (map log [0..<rq_next_to_send s])
      else stream_inv s (length ws) log (rq_sent s))"

lemma run_inv_enqueue:
  assumes "run_inv s ws log" and "k < length ws" and "\<not> settled (ws ! k)"
    and "writer_enqueue bytes fin close (ws ! k) s = (ok, t)" and "settled w = fin" and "wr_sequence w = k"
  shows "run_inv t (ws[k := w]) (logged s k bytes log)"
proof -
  note facts = enqueue_inv [OF _ assms(2-6), of log "rq_sent s"]
  show ?thesis
  proof (cases "rq_closed s")
    case True
    with facts assms show ?thesis by (simp add: run_inv_def logged_def)
  next
    case False
    with facts assms show ?thesis by (auto simp: run_inv_def stream_inv_def)
  qed
qed


lemma run_inv_flush:
  assumes "run_inv s ws log"
  shows "run_inv (flush_ready_responses s) ws log"
proof (cases "rq_connection s \<and> \<not> rq_closed s")
  case True
  obtain chunks close t where fl: "flush_loop s = (chunks, close, t)" by (cases "flush_loop s")
  have inv: "writers_inv s ws" "stream_inv s (length ws) log (rq_sent s)" "\<not> rq_closed s" "\<not> rq_shutdown s"
    "\<forall>k\<ge>length ws. log k = []"
    using assms True by (auto simp: run_inv_def)
  have t: "writers_inv t ws \<and> stream_inv t (length ws) log (rq_sent s @ chunks) \<and> rq_closed t = close \<and>
      (close \<longrightarrow> rq_sent s @ chunks = concat (map log [0..<rq_next_to_send t]))"
    using flush_loop_inv [OF fl inv(1,2,3)] by blast
  have keeps: "rq_sent t = rq_sent s \<and> rq_shutdown t = rq_shutdown s"
    using fl by (rule flush_loop_keeps)
  show ?thesis
    using True fl t keeps inv(4,5) by (auto simp: flush_ready_responses_def run_inv_def)
qed (use assms in \<open>auto simp: flush_ready_responses_def\<close>)

lemma writer_run_inv: "writer_run s ws log \<Longrightarrow> run_inv s ws log"
proof (induction rule: writer_run.induct)
  case run_start
  show ?case
    by (simp add: run_inv_def writers_inv_def before_inv_def pending_inv_def kept_inv_def stream_inv_def chunks_of_def
        queue_new_def)
next
  case (run_request s ws log close include_body)
  let ?ws = "ws @ [writer_new (length ws) close include_body]"
  have "writers_inv s ?ws"
    using run_request.IH
    by (auto simp: run_inv_def writers_inv_def before_inv_def pending_inv_def kept_inv_def nth_append writer_new_def
        settled_def less_Suc_eq)
  then show ?case
    using run_request.IH by (auto simp: run_inv_def stream_inv_def split: if_splits)
next
  case (run_send s ws log k r ok w t)
  have seq: "wr_sequence (ws ! k) = k"
    using run_send by (simp add: run_inv_def writers_inv_def before_inv_def)
  obtain ok' t' where enq: "writer_enqueue (response_to_buffer (mark_close (ws ! k) r) (wr_include_body (ws ! k))) True
      (resp_close_connection (mark_close (ws ! k) r)) (ws ! k) s = (ok', t')" by fastforce
  with run_send have "w = (ws ! k)\<lparr>wr_write_state := 2\<rparr>" "t = t'" by (auto simp: writer_send_def Let_def)
  with run_send enq seq show ?case by (intro run_inv_enqueue) (auto simp: settled_def)
next
  case (run_start_chunked s ws log k r ok w t)
  have seq: "wr_sequence (ws ! k) = k"
    using run_start_chunked by (simp add: run_inv_def writers_inv_def before_inv_def)
  obtain ok' t' where enq: "writer_enqueue (headers_to_buffer (mark_close (ws ! k) r) True) (\<not> wr_include_body (ws ! k))
      (resp_close_connection (mark_close (ws ! k) r)) (ws ! k) s = (ok', t')" by fastforce
  with run_start_chunked have "w = (ws ! k)\<lparr>wr_write_state := 1\<rparr>" "t = t'"
    by (auto simp: writer_start_chunked_def Let_def)
  with run_start_chunked enq seq show ?case by (intro run_inv_enqueue) (auto simp: settled_def)
next
  case (run_write_chunk s ws log k data ok w t)
  have seq: "wr_sequence (ws ! k) = k"
    using run_write_chunk by (simp add: run_inv_def writers_inv_def before_inv_def)
  obtain ok' t' where enq: "writer_enqueue (encode_chunk data) False (wr_close_connection (ws ! k)) (ws ! k) s = (ok', t')"
    by fastforce
  with run_write_chunk have "w = ws ! k" "t = t'" by (auto simp: writer_write_chunk_def)
  with run_write_chunk enq seq show ?case by (intro run_inv_enqueue) (auto simp: settled_def)
next
  case (run_finish s ws log k ok w t)
  have seq: "wr_sequence (ws ! k) = k"
    using run_finish by (simp add: run_inv_def writers_inv_def before_inv_def)
  obtain ok' t' where enq: "writer_enqueue (''0'' @ crlf @ crlf) True (wr_close_connection (ws ! k)) (ws ! k) s = (ok', t')"
    by fastforce
  with run_finish have "w = (ws ! k)\<lparr>wr_write_state := 2\<rparr>" "t = t'" by (auto simp: writer_finish_def)
  with run_finish enq seq show ?case by (intro run_inv_enqueue) (auto simp: settled_def)
next
  case (run_refused s ws log k w r ok w' t data)
  then have "t = s" "w' = ws ! k"
    by (auto simp: writer_send_def writer_start_chunked_def writer_write_chunk_def writer_finish_def)
  with run_refused show ?case by simp
next
  case (run_flush s ws log)
  then show ?case by (intro run_inv_flush)
next
  case (run_lost s ws log)
  then show ?case by (simp add: run_inv_def)
qed

subsection \<open>Properties\<close>



text \<open>A run in which the second of two pipelined requests is answered first.\<close>

definition sample_writers :: "response_writer list" where
  "sample_writers = [writer_new 0 False True, writer_new 1 False True]"

definition sample_response :: "nat \<Rightarrow> http_response" where
  "sample_response n = (response_new False)\<lparr>resp_status_code := 200, resp_body := replicate n CHR ''x''\<rparr>"

definition sample_second :: response_queue where
  "sample_second = snd (snd (writer_send (sample_response 2) (writer_new 1 False True) queue_new))"

definition sample_both :: response_queue where
  "sample_both = snd (snd (writer_send (sample_response 1) (writer_new 0 False True) sample_second))"

lemma sample_run:
  "\<exists>log. writer_run sample_both [(writer_new 0 False True)\<lparr>wr_write_state := 2\<rparr>,
     (writer_new 1 False True)\<lparr>wr_write_state := 2\<rparr>] log"
proof -
  have r2: "writer_run queue_new sample_writers (\<lambda>k. [])"
    using run_request [OF run_request [OF run_start, of False True], of False True]
    by (simp add: sample_writers_def)
  have s1: "writer_send (sample_response 2) (sample_writers ! 1) queue_new =
      (True, (writer_new 1 False True)\<lparr>wr_write_state := 2\<rparr>, sample_second)" by code_simp
  obtain log1 where r3: "writer_run sample_second
      [writer_new 0 False True, (writer_new 1 False True)\<lparr>wr_write_state := 2\<rparr>] log1"
    using run_send [OF r2 _ _ s1] by (auto simp: sample_writers_def writer_new_def)
  have s0: "writer_send (sample_response 1) ([writer_new 0 False True, (writer_new 1 False True)\<lparr>wr_write_state := 2\<rparr>] ! 0)
      sample_second = (True, (writer_new 0 False True)\<lparr>wr_write_state := 2\<rparr>, sample_both)" by code_simp
  from run_send [OF r3 _ _ s0] show ?thesis by (auto simp: writer_new_def)
qed





text \<open>
  The discipline of \<open>run_write_chunk\<close> matters: for a request without a body, \<open>start_chunked\<close>
  finishes the response but leaves the writer open, and a chunk written before the flush goes out
  behind the head.
\<close>

lemma chunk_after_bodyless_head:
  "let w0 = writer_new 0 False False;
       (ok0, w1, s1) = writer_start_chunked (sample_response 0) w0 queue_new;
       (ok1, w2, s2) = writer_write_chunk ''abc'' w1 s1
   in ok1 \<and> last (rq_sent (flush_ready_responses s2)) = encode_chunk ''abc''"
  by code_simp

end
