(* ===== verification/Response_Roundtrip.thy ===== *)
theory Response_Roundtrip
  imports Response Parser_Segments
begin

text \<open>
  What the server's response serialiser writes, the client's parser reads back: status, reason,
  header fields, body and framing, for fixed-length and for chunked bodies, with the bytes of the
  next response left in the buffer.
\<close>

subsection \<open>Lines\<close>

definition header_entry_of :: "string \<times> string \<Rightarrow> header_entry" where
  "header_entry_of fv = \<lparr>h_field = fst fv, h_value = trim_ows (snd fv)\<rparr>"

definition clean_header :: "string \<times> string \<Rightarrow> bool" where
  "clean_header fv \<longleftrightarrow> fst fv \<noteq> [] \<and> list_all is_token_char (fst fv) \<and> CHR 0x0D \<notin> set (snd fv)"

definition after_lines :: "http_parser \<Rightarrow> (string \<times> string) list \<Rightarrow> http_parser" where
  "after_lines p hs =
     set_message_headers (message_headers p @ map header_entry_of hs)
       (p\<lparr>p_header_bytes := p_header_bytes p + length (concat (map header_line hs))\<rparr>)"

lemma parse_clean_header:
  assumes "clean_header (f, v)"
  shows "parse_header_line (f @ '': '' @ v) h = Some (h @ [header_entry_of (f, v)])"
    and "CHR 0x0D \<notin> set (f @ '': '' @ v)"
proof -
  have f: "f \<noteq> []" "list_all is_token_char f" "CHR 0x0D \<notin> set v" using assms by (auto simp: clean_header_def)
  then have sep: "CHR '':'' \<notin> set f" "CHR 0x0D \<notin> set f" "hd f \<noteq> CHR '' ''" "hd f \<noteq> CHR 0x09"
    by (auto simp: list_all_iff dest!: token_char_not_sep dest: hd_in_set)
  then have colon: "find_char CHR '':'' (f @ '': '' @ v) = Some (length f)"
    using find_char_hit [of "CHR '':''" f "'' '' @ v"] by simp
  show "parse_header_line (f @ '': '' @ v) h = Some (h @ [header_entry_of (f, v)])"
    using f sep colon trim_token [OF f(2)]
    by (simp add: parse_header_line_def hdr_add_def header_entry_of_def is_ows_def)
  show "CHR 0x0D \<notin> set (f @ '': '' @ v)" using f sep by simp
qed

lemma message_headers_bytes [simp]: "message_headers (p\<lparr>p_header_bytes := n\<rparr>) = message_headers p"
  by (simp add: message_headers_def)

lemma parse_header_lines:
  "p_state p = S_headers \<Longrightarrow> \<forall>fv\<in>set hs. clean_header fv \<Longrightarrow>
   p_header_bytes p + length (concat (map header_line hs)) \<le> max_headers (p_options p) \<Longrightarrow>
   parse t p (concat (map header_line hs) @ rest) = parse t (after_lines p hs) rest"
proof (induction hs arbitrary: p)
  case Nil
  have "after_lines p [] = p" by (cases p) (simp add: after_lines_def set_message_headers_def message_headers_def)
  then show ?case by simp
next
  case (Cons fv hs)
  obtain f v where fv: "fv = (f, v)" by (cases fv)
  define line where "line = f @ '': '' @ v"
  let ?tail = "concat (map header_line hs) @ rest"
  let ?p1 = "p\<lparr>p_header_bytes := p_header_bytes p + (length line + 2)\<rparr>"
  let ?p2 = "set_message_headers (message_headers p @ [header_entry_of (f, v)]) ?p1"
  have clean: "clean_header (f, v)" using Cons.prems(2) fv by simp
  have hl: "header_line fv = line @ crlf" by (simp add: fv header_line_def line_def)
  have crlf: "find_str crlf (line @ crlf @ ?tail) = Some (length line)"
    using parse_clean_header(2) [OF clean] unfolding line_def by (rule find_str_crlf)
  have parsed: "parse_header_line line h = Some (h @ [header_entry_of (f, v)])" for h
    using parse_clean_header(1) [OF clean] by (simp add: line_def)
  have room: "p_header_bytes p + (length line + 2) \<le> max_headers (p_options p)"
    using Cons.prems(3) by (simp add: hl)
  have "line \<noteq> []" by (simp add: line_def)
  then have "parse_step t p (line @ crlf @ ?tail) = (Again, ?p2, ?tail)"
    using Cons.prems(1) crlf room parsed
    by (simp add: parse_step_def headers_step_def Let_def)
  then have "parse t p (line @ crlf @ ?tail) = parse t ?p2 ?tail" by (rule parse_Again)
  also have "\<dots> = parse t (after_lines ?p2 hs) rest"
    using Cons.prems
    by (intro Cons.IH) (auto simp: set_message_headers_def hl)
  also have "after_lines ?p2 hs = after_lines p (fv # hs)"
    by (simp add: after_lines_def set_message_headers_def message_headers_def fv header_line_def line_def)
  finally show ?case by (simp add: hl)
qed

subsection \<open>The status line\<close>

lemma from_chars_int_to_chars:
  assumes "n < 2 ^ 31"
  shows "from_chars_int (to_chars 10 n) = Some (int n, length (to_chars 10 n))"
proof -
  have "takeWhile (is_digit 10) (to_chars 10 n) = to_chars 10 n"
    using takeWhile_to_chars [of 10 "[]" n] by simp
  moreover have "hd (to_chars 10 n) \<noteq> CHR ''-''"
  proof -
    have "is_digit 10 (hd (to_chars 10 n))" using to_chars_digits [of 10 "hd (to_chars 10 n)" n] by simp
    moreover have "\<not> is_digit 10 CHR ''-''" by code_simp
    ultimately show ?thesis by metis
  qed
  ultimately show ?thesis
    using assms by (simp add: from_chars_int_def Let_def numeral_value_to_chars del: takeWhile_eq_all_conv)
qed

lemma length_status: "100 \<le> n \<Longrightarrow> n \<le> 999 \<Longrightarrow> length (to_chars 10 n) = 3"
proof -
  assume "100 \<le> n" "n \<le> 999"
  then have "10 \<le> n" "10 \<le> n div 10" "n div 10 div 10 < 10" by linarith+
  then show ?thesis
    using to_chars_unfold [of 10 n] to_chars_unfold [of 10 "n div 10"] to_chars_unfold [of 10 "n div 10 div 10"]
    by simp
qed


definition status_line :: "http_response \<Rightarrow> string" where
  "status_line r = ''HTTP/1.1 '' @ to_chars 10 (nat (resp_status_code r)) @ '' '' @ status_message r"

lemma parse_status_line:
  assumes "100 \<le> resp_status_code r" and "resp_status_code r \<le> 999"
  shows "parse_response_line (status_line r) p =
    (True, p\<lparr>p_response := (p_response p)\<lparr>m_version := V_http11, m_status_code := resp_status_code r,
       m_reason_phrase := status_message r\<rparr>\<rparr>)"
proof -
  let ?n = "nat (resp_status_code r)" and ?code = "to_chars 10 (nat (resp_status_code r))"
  have n: "100 \<le> ?n" "?n \<le> 999" using assms by simp_all
  have len: "length ?code = 3" by (rule length_status [OF n])
  have version: "''HTTP/1.1 '' @ ?code @ '' '' @ status_message r = ''HTTP/1.1'' @ CHR '' '' # ?code @ '' '' @ status_message r"
    by simp
  have sp1: "find_space (status_line r) 0 = Some 8"
    unfolding find_space_def find_char_from_def status_line_def version
    using find_char_hit [of "CHR '' ''" "''HTTP/1.1''" "?code @ '' '' @ status_message r"] by simp
  have "\<not> is_digit 10 CHR '' ''" by code_simp
  then have "CHR '' '' \<notin> set ?code" by (intro to_chars_not_in) simp_all
  then have sp2: "find_space (status_line r) 9 = Some 12"
    using find_char_hit [of "CHR '' ''" ?code "status_message r"] len
    by (simp add: find_space_def find_char_from_def status_line_def)
  have fields: "take 8 (status_line r) = ''HTTP/1.1''" "take 3 (drop 9 (status_line r)) = ?code"
    "drop 13 (status_line r) = status_message r" "12 \<le> length (status_line r)"
    using len by (simp_all add: status_line_def)
  have "from_chars_int ?code = Some (resp_status_code r, 3)"
    using from_chars_int_to_chars [of ?n] n len assms by simp
  then show ?thesis
    using sp1 sp2 fields len
    by (simp add: parse_response_line_def parse_version_def Let_def)
qed

lemma start_line_parsed:
  assumes p: "p_state p = S_start_line" "p_mode p = Mode_response"
    and r: "100 \<le> resp_status_code r" "resp_status_code r \<le> 999" "CHR 0x0D \<notin> set (status_message r)"
    and fits: "length (status_line r) \<le> max_start_line (p_options p)"
  shows "parse t p (status_line r @ crlf @ rest) =
    parse t (p\<lparr>p_response := (p_response p)\<lparr>m_version := V_http11, m_status_code := resp_status_code r,
       m_reason_phrase := status_message r\<rparr>, p_state := S_headers\<rparr>) rest"
proof (rule parse_Again)
  have "\<not> is_digit 10 CHR 0x0D" by code_simp
  then have "CHR 0x0D \<notin> set (status_line r)"
    using r(3) to_chars_not_in [of 10 "CHR 0x0D"] by (simp add: status_line_def)
  then have "find_str crlf (status_line r @ crlf @ rest) = Some (length (status_line r))" by (rule find_str_crlf)
  with p r fits show "parse_step t p (status_line r @ crlf @ rest) =
      (Again, p\<lparr>p_response := (p_response p)\<lparr>m_version := V_http11, m_status_code := resp_status_code r,
       m_reason_phrase := status_message r\<rparr>, p_state := S_headers\<rparr>, rest)"
    by (simp add: parse_step_def start_line_step_def parse_status_line)
qed

subsection \<open>Framing fields\<close>

definition plain_header :: "string \<times> string \<Rightarrow> bool" where
  "plain_header fv \<longleftrightarrow> clean_header fv \<and> lowercase (fst fv) \<noteq> ''content-length'' \<and>
     lowercase (fst fv) \<noteq> ''transfer-encoding''"

lemma framing_names:
  "lowercase ''Content-Length'' = ''content-length''" "lowercase ''Transfer-Encoding'' = ''transfer-encoding''"
  "lowercase ''Connection'' = ''connection''"
  by code_simp+

lemma plain_values:
  assumes "\<forall>fv\<in>set hs. plain_header fv"
  shows "hdr_values ''Content-Length'' (map header_entry_of hs) = []"
    and "hdr_values ''Transfer-Encoding'' (map header_entry_of hs) = []"
  using assms
  by (induction hs) (auto simp: hdr_values_Cons header_entry_of_def plain_header_def framing_names)

definition response_lines :: "http_response \<Rightarrow> string \<times> string \<Rightarrow> (string \<times> string) list" where
  "response_lines r framing =
     [(''Connection'', if resp_close_connection r then ''close'' else ''Keep-Alive''), framing] @ resp_headers r"

lemma length_framing:
  assumes "\<forall>fv\<in>set (resp_headers r). plain_header fv" and "n < 2 ^ 64"
  defines "h \<equiv> map header_entry_of (response_lines r (''Content-Length'', to_chars 10 n))"
  shows "content_lengths h = Some [of_nat n]" and "transfer_codings h = []"
proof -
  have digits: "CHR '','' \<notin> set (to_chars 10 n)"
    by (rule to_chars_not_in) (simp_all, code_simp)
  have "hdr_values ''Content-Length'' h = [to_chars 10 n]" "hdr_values ''Transfer-Encoding'' h = []"
    using plain_values [OF assms(1)]
    by (simp_all add: h_def response_lines_def hdr_values_Cons header_entry_of_def framing_names)
  then show "content_lengths h = Some [of_nat n]" "transfer_codings h = []"
    using digits assms(2)
    by (simp_all add: content_lengths_def transfer_codings_def split_commas_single parse_decimal_u64_def
        parse_unsigned_to_chars)
qed

lemma chunked_framing:
  assumes "\<forall>fv\<in>set (resp_headers r). plain_header fv"
  defines "h \<equiv> map header_entry_of (response_lines r (''Transfer-Encoding'', ''chunked''))"
  shows "content_lengths h = Some []" and "transfer_codings h = [''chunked'']"
proof -
  have "hdr_values ''Content-Length'' h = []" "hdr_values ''Transfer-Encoding'' h = [trim_ows ''chunked'']"
    using plain_values [OF assms(1)]
    by (simp_all add: h_def response_lines_def hdr_values_Cons header_entry_of_def framing_names)
  moreover have "filter (\<lambda>coding. coding \<noteq> []) (map (\<lambda>part. strip_coding_parameters (lowercase part))
      (concat (map split_commas [trim_ows ''chunked'']))) = [''chunked'']"
    by code_simp
  ultimately show "content_lengths h = Some []" "transfer_codings h = [''chunked'']"
    by (simp_all add: content_lengths_def transfer_codings_def)
qed


subsection \<open>Bodies\<close>

definition serialisable :: "parser_options \<Rightarrow> http_response \<Rightarrow> string \<times> string \<Rightarrow> bool" where
  "serialisable opts r framing \<longleftrightarrow>
     100 \<le> resp_status_code r \<and> resp_status_code r \<le> 999 \<and> CHR 0x0D \<notin> set (status_message r) \<and>
     (\<forall>fv\<in>set (resp_headers r). plain_header fv) \<and>
     length (status_line r) \<le> max_start_line opts \<and>
     length (concat (map header_line (response_lines r framing))) + 2 \<le> max_headers opts"

definition parsed_head :: "http_response \<Rightarrow> string \<times> string \<Rightarrow> http_response_message" where
  "parsed_head r framing =
     \<lparr>m_version = V_http11, m_status_code = resp_status_code r, m_reason_phrase = status_message r,
      m_headers = map header_entry_of (response_lines r framing), m_trailers = [], m_body = [],
      m_content_length = None, m_chunked = False, m_source = From_network\<rparr>"

definition head_parser :: "parser_options \<Rightarrow> http_response \<Rightarrow> string \<times> string \<Rightarrow> http_parser" where
  "head_parser opts r framing =
     (parser_new Mode_response opts)\<lparr>p_state := S_headers, p_response := parsed_head r framing,
        p_header_bytes := length (concat (map header_line (response_lines r framing))) + 2\<rparr>"

lemma clean_literals [simp]:
  "clean_header (''Connection'', ''close'')" "clean_header (''Connection'', ''Keep-Alive'')"
  "clean_header (''Transfer-Encoding'', ''chunked'')"
  by code_simp+

lemma clean_length: "clean_header (''Content-Length'', to_chars 10 n)"
proof -
  have "list_all is_token_char ''Content-Length''" "\<not> is_digit 10 CHR 0x0D" by code_simp+
  then show ?thesis using to_chars_not_in [of 10 "CHR 0x0D" n] by (simp add: clean_header_def)
qed

text \<open>The head up to the blank line; what follows depends on \<open>finish_headers\<close>.\<close>

lemma parse_head_bytes:
  assumes ok: "serialisable opts r framing" and framing: "clean_header framing"
  shows "parse t (parser_new Mode_response opts)
      (status_line r @ crlf @ concat (map header_line (response_lines r framing)) @ crlf @ rest) =
    (let (ok, q) = finish_headers (head_parser opts r framing) in
     if \<not> ok then (Some Error, q, rest) else if p_state q = S_complete then (Some Complete, q, rest)
     else parse t q rest)"
proof -
  let ?ls = "response_lines r framing"
  let ?p0 = "parser_new Mode_response opts"
  let ?p1 = "?p0\<lparr>p_response := (p_response ?p0)\<lparr>m_version := V_http11, m_status_code := resp_status_code r,
       m_reason_phrase := status_message r\<rparr>, p_state := S_headers\<rparr>"
  note facts = ok [unfolded serialisable_def]
  have clean: "\<forall>fv\<in>set ?ls. clean_header fv"
    using facts framing by (auto simp: response_lines_def plain_header_def)
  have "parse t ?p0 (status_line r @ crlf @ concat (map header_line ?ls) @ crlf @ rest) =
      parse t ?p1 (concat (map header_line ?ls) @ crlf @ rest)"
    using facts by (intro start_line_parsed) (simp_all add: parser_new_def)
  also have "\<dots> = parse t (after_lines ?p1 ?ls) (crlf @ rest)"
    using facts clean by (intro parse_header_lines) (simp_all add: parser_new_def)
  also have "\<dots> = (let (ok, q) = finish_headers (head_parser opts r framing) in
     if \<not> ok then (Some Error, q, rest) else if p_state q = S_complete then (Some Complete, q, rest)
     else parse t q rest)"
  proof -
    have st: "p_state (after_lines ?p1 ?ls) = S_headers"
      by (simp add: after_lines_def set_message_headers_def)
    have "(after_lines ?p1 ?ls)\<lparr>p_header_bytes := p_header_bytes (after_lines ?p1 ?ls) + 2\<rparr> = head_parser opts r framing"
      by (simp add: after_lines_def set_message_headers_def message_headers_def head_parser_def parsed_head_def
          parser_new_def response_message_new_def)
    then have bytes: "(after_lines ?p1 ?ls)\<lparr>p_header_bytes := Suc (Suc (p_header_bytes (after_lines ?p1 ?ls)))\<rparr> =
        head_parser opts r framing" by simp
    have room: "p_header_bytes (after_lines ?p1 ?ls) + 2 \<le> max_headers (p_options (after_lines ?p1 ?ls))"
      using facts by (simp add: after_lines_def set_message_headers_def parser_new_def)
    have head_bytes: "p_header_bytes (head_parser opts r framing) = Suc (Suc (p_header_bytes (after_lines ?p1 ?ls)))"
      by (simp flip: bytes)
    obtain fok q where fin: "finish_headers (head_parser opts r framing) = (fok, q)" by fastforce
    have crlf0: "find_str crlf (crlf @ rest) = Some 0" using find_str_crlf [of "[]" rest] by simp
    have "parse_step t (after_lines ?p1 ?ls) (crlf @ rest) =
        (if \<not> fok then (Return Error, q, rest) else if p_state q = S_complete then (Return Complete, q, rest)
         else (Again, q, rest))"
      unfolding parse_step_def st parser_state.case headers_step_def crlf0 option.case
      using room by (simp add: bytes fin Let_def head_bytes)
    then show ?thesis
      by (simp add: parse.simps [of t "after_lines ?p1 ?ls"] fin)
  qed
  finally show ?thesis .
qed


lemma parse_body_bytes:
  assumes "p_state p = S_fixed_body" and "p_mode p = Mode_response" and "unat (p_fixed_body_bytes p) = length body"
  shows "parse t p (body @ rest) =
    (Some Complete, p\<lparr>p_response := (p_response p)\<lparr>m_body := body\<rparr>, p_state := S_complete\<rparr>, rest)"
  using assms
  by (intro parse_Return) (simp add: parse_step_def parse_fixed_body_def finish_message_def body_control_def)

lemma message_headers_head [simp]:
  "message_headers (head_parser opts r framing) = map header_entry_of (response_lines r framing)"
  by (simp add: message_headers_def head_parser_def parsed_head_def parser_new_def)

definition body_of :: "http_response \<Rightarrow> string" where
  "body_of r = (if status_code_allows_body (resp_status_code r) then resp_body r else [])"

text \<open>The response without chunking.\<close>

lemma response_to_buffer_lines:
  assumes "0 \<le> resp_status_code r"
  shows "response_to_buffer r True =
    status_line r @ crlf @
    concat (map header_line (response_lines r (''Content-Length'', to_chars 10 (length (body_of r))))) @ crlf @ body_of r"
proof -
  have zero: "to_chars 10 0 = ''0''" by code_simp
  show ?thesis
    using assms
    by (simp add: response_to_buffer_def headers_to_buffer_def status_line_def response_lines_def header_line_def
        framing_line_def body_of_def string_of_int_def zero)
qed

lemma fixed_roundtrip:
  fixes r :: http_response
  defines "framing \<equiv> (''Content-Length'', to_chars 10 (length (body_of r)))"
  assumes ok: "serialisable opts r framing" and body: "length (body_of r) \<le> max_body opts" "length (body_of r) < 2 ^ 64"
  shows "\<exists>q. parse t (parser_new Mode_response opts) (response_to_buffer r True @ rest) = (Some Complete, q, rest) \<and>
    p_response q = (parsed_head r framing)\<lparr>m_body := body_of r, m_content_length := Some (of_nat (length (body_of r)))\<rparr>"
proof -
  let ?n = "length (body_of r)" and ?hp = "head_parser opts r framing"
  have plain: "\<forall>fv\<in>set (resp_headers r). plain_header fv" and st: "0 \<le> resp_status_code r"
    using ok by (auto simp: serialisable_def)
  have lens: "content_lengths (message_headers ?hp) = Some [of_nat ?n]"
    and codings: "transfer_codings (message_headers ?hp) = []"
    using length_framing [OF plain body(2)] by (simp_all add: framing_def)
  have un: "unat (of_nat ?n :: u64) = ?n" using body(2) by (rule unat_u64)
  have zero: "(of_nat ?n :: u64) = 0 \<longleftrightarrow> ?n = 0" using body(2) by (rule u64_eq_0)
  have fields: "p_mode ?hp = Mode_response" "p_options ?hp = opts" "p_head_only ?hp = False"
    "m_status_code (p_response ?hp) = resp_status_code r" "p_response ?hp = parsed_head r framing"
    by (simp_all add: head_parser_def parser_new_def parsed_head_def)
  have te: "is_chunked_transfer (message_headers ?hp) = (False, False, True)"
    using codings by (simp add: is_chunked_transfer_def)
  let ?q = "set_message_content_length (of_nat ?n) ?hp"
  have "finish_headers ?hp =
      (True, if ?n = 0 then ?q\<lparr>p_state := S_complete\<rparr> else ?q\<lparr>p_fixed_body_bytes := of_nat ?n, p_state := S_fixed_body\<rparr>)"
  proof (cases "status_code_allows_body (resp_status_code r)")
    case True
    then show ?thesis
      using lens te fields body(1) un zero by (simp add: finish_headers_def finish_message_def)
  next
    case False
    then have "?n = 0" by (simp add: body_of_def)
    with False show ?thesis
      using lens te fields by (simp add: finish_headers_def finish_message_def)
  qed
  moreover have "clean_header framing" unfolding framing_def by (rule clean_length)
  ultimately have run: "parse t (parser_new Mode_response opts) (response_to_buffer r True @ rest) =
      (if ?n = 0 then (Some Complete, ?q\<lparr>p_state := S_complete\<rparr>, rest)
       else parse t (?q\<lparr>p_fixed_body_bytes := of_nat ?n, p_state := S_fixed_body\<rparr>) (body_of r @ rest))"
    using parse_head_bytes [OF ok, of t "body_of r @ rest"] response_to_buffer_lines [OF st]
    by (simp add: framing_def)
  show ?thesis
  proof (cases "?n = 0")
    case True
    with run show ?thesis
      by (auto simp: set_message_content_length_def fields parsed_head_def)
  next
    case False
    let ?b = "?q\<lparr>p_fixed_body_bytes := of_nat ?n, p_state := S_fixed_body\<rparr>"
    have resp: "p_response ?b = (parsed_head r framing)\<lparr>m_content_length := Some (of_nat ?n)\<rparr>" "p_mode ?b = Mode_response"
      by (simp_all add: set_message_content_length_def fields)
    have "parse t ?b (body_of r @ rest) = (Some Complete,
        ?b\<lparr>p_response := (p_response ?b)\<lparr>m_body := body_of r\<rparr>, p_state := S_complete\<rparr>, rest)"
      using un resp(2) by (intro parse_body_bytes) simp_all
    with run False show ?thesis by (simp add: resp(1) parsed_head_def)
  qed
qed


subsection \<open>Chunked bodies\<close>

definition chunked_bytes :: "http_response \<Rightarrow> string list \<Rightarrow> string" where
  "chunked_bytes r chunks = headers_to_buffer r True @ concat (map encode_chunk chunks) @ ''0'' @ crlf @ crlf"

lemma hex_line:
  "CHR 0x0D \<notin> set (to_chars 16 n)" "CHR '';'' \<notin> set (to_chars 16 n)"
proof -
  have "\<not> is_digit 16 CHR 0x0D" "\<not> is_digit 16 CHR '';''" by code_simp+
  then show "CHR 0x0D \<notin> set (to_chars 16 n)" "CHR '';'' \<notin> set (to_chars 16 n)"
    by (auto dest: to_chars_digits [rotated 2])
qed

lemma parse_chunk_size_encoded:
  assumes "n < 2 ^ 64"
  shows "parse_chunk_size p (to_chars 16 n @ crlf @ rest) =
    (let p1 = p\<lparr>p_current_chunk_size := of_nat n\<rparr> in
     if n = 0 then (True, p1\<lparr>p_state := S_trailers\<rparr>, rest)
     else if max_body (p_options p) < unat (p_decoded_body_bytes p) + n then
       (let (r, q) = set_error E_body_too_large p1 in (r, q, rest))
     else (True, p1\<lparr>p_state := S_chunk_data\<rparr>, rest))"
proof -
  have un: "unat (of_nat n :: u64) = n" using assms by (rule unat_u64)
  have zero: "(of_nat n :: u64) = 0 \<longleftrightarrow> n = 0" using assms by (rule u64_eq_0)
  have crlf: "find_str crlf (to_chars 16 n @ crlf @ rest) = Some (length (to_chars 16 n))"
    by (rule find_str_crlf [OF hex_line(1)])
  have hex: "parse_hex_u64 (to_chars 16 n) = Some (of_nat n)"
    using assms by (simp add: parse_hex_u64_def parse_unsigned_to_chars)
  have "drop (length (to_chars 16 n) + 2) (to_chars 16 n @ crlf @ rest) = rest"
    "take (length (to_chars 16 n)) (to_chars 16 n @ crlf @ rest) = to_chars 16 n" by simp_all
  moreover have "find_char CHR '';'' (to_chars 16 n) = None" using hex_line(2) [of n] by simp
  moreover have "max_body (p_options p) < unat (p_decoded_body_bytes p) \<or>
      max_body (p_options p) - unat (p_decoded_body_bytes p) < n \<longleftrightarrow>
      max_body (p_options p) < unat (p_decoded_body_bytes p) + n" if "n \<noteq> 0"
    using that by linarith
  ultimately show ?thesis
    unfolding parse_chunk_size_def crlf option.case Let_def
    using hex un zero by (cases "n = 0") (simp_all only: option.case if_False if_True simp_thms)
qed

lemma parse_chunk_data_encoded:
  assumes "length data + 2 < 2 ^ 64" and "p_current_chunk_size p = of_nat (length data)" and "p_mode p = Mode_response"
  shows "parse_chunk_data p (data @ crlf @ rest) =
    Some (True, p\<lparr>p_response := (p_response p)\<lparr>m_body := m_body (p_response p) @ data\<rparr>,
      p_decoded_body_bytes := p_decoded_body_bytes p + of_nat (length data), p_state := S_chunk_size\<rparr>, rest)"
proof -
  have un: "unat (of_nat (length data) :: u64) = length data"
    using assms(1) by (intro unat_u64) simp
  then have "unat (of_nat (length data) + 2 :: u64) = length data + 2"
    using assms(1) unat_add_u64 [of "of_nat (length data)" 2] by simp
  then show ?thesis
    using assms un by (simp add: parse_chunk_data_def Let_def nth_append)
qed

lemma parse_chunks:
  "p_state p = S_chunk_size \<Longrightarrow> p_mode p = Mode_response \<Longrightarrow> \<forall>c\<in>set chunks. c \<noteq> [] \<Longrightarrow>
   max_body (p_options p) + 2 < 2 ^ 64 \<Longrightarrow> unat (p_decoded_body_bytes p) = length (m_body (p_response p)) \<Longrightarrow>
   length (m_body (p_response p)) + length (concat chunks) \<le> max_body (p_options p) \<Longrightarrow>
   \<exists>q. parse t p (concat (map encode_chunk chunks) @ ''0'' @ crlf @ crlf @ rest) = (Some Complete, q, rest) \<and>
     p_response q = (p_response p)\<lparr>m_body := m_body (p_response p) @ concat chunks\<rparr>"
proof (induction chunks arbitrary: p)
  case Nil
  have zero: "to_chars 16 0 = ''0''" by code_simp
  let ?p1 = "p\<lparr>p_current_chunk_size := 0, p_state := S_trailers\<rparr>"
  have "parse_chunk_size p (''0'' @ crlf @ crlf @ rest) = (True, ?p1, crlf @ rest)"
    using parse_chunk_size_encoded [of 0 p "crlf @ rest"] by (simp add: zero)
  then have step: "parse t p (''0'' @ crlf @ crlf @ rest) = parse t ?p1 (crlf @ rest)"
    using Nil.prems(1) by (intro parse_Again) (simp add: parse_step_def body_control_def)
  have "find_str crlf (crlf @ rest) = Some 0" using find_str_crlf [of "[]" rest] by simp
  then have "parse_trailers ?p1 (crlf @ rest) = (True, ?p1\<lparr>p_state := S_complete\<rparr>, rest)"
    by (simp add: parse_trailers.simps [of ?p1] finish_message_def)
  then have "parse t ?p1 (crlf @ rest) = (Some Complete, ?p1\<lparr>p_state := S_complete\<rparr>, rest)"
    by (simp add: parse_trailers_state)
  with step show ?case by simp
next
  case (Cons c cs)
  let ?tail = "concat (map encode_chunk cs) @ ''0'' @ crlf @ crlf @ rest"
  have size: "length c + length (m_body (p_response p)) + length (concat cs) \<le> max_body (p_options p)" "c \<noteq> []"
    using Cons.prems by simp_all
  then have small: "length c < 2 ^ 64" "length c + 2 < 2 ^ 64" using Cons.prems(4) by linarith+
  let ?p1 = "p\<lparr>p_current_chunk_size := of_nat (length c), p_state := S_chunk_data\<rparr>"
  let ?p2 = "?p1\<lparr>p_response := (p_response p)\<lparr>m_body := m_body (p_response p) @ c\<rparr>,
      p_decoded_body_bytes := p_decoded_body_bytes p + of_nat (length c), p_state := S_chunk_size\<rparr>"
  have buf: "concat (map encode_chunk (c # cs)) @ ''0'' @ crlf @ crlf @ rest =
      to_chars 16 (length c) @ crlf @ c @ crlf @ ?tail"
    by (simp add: encode_chunk_def)
  have "parse_chunk_size p (to_chars 16 (length c) @ crlf @ c @ crlf @ ?tail) = (True, ?p1, c @ crlf @ ?tail)"
    using parse_chunk_size_encoded [OF small(1), of p "c @ crlf @ ?tail"] Cons.prems(5) size by simp
  then have "parse t p (to_chars 16 (length c) @ crlf @ c @ crlf @ ?tail) = parse t ?p1 (c @ crlf @ ?tail)"
    using Cons.prems(1) by (intro parse_Again) (simp add: parse_step_def body_control_def)
  also have "\<dots> = parse t ?p2 ?tail"
    using parse_chunk_data_encoded [OF small(2), of ?p1 ?tail] Cons.prems(2)
    by (intro parse_Again) (simp add: parse_step_def body_control_def)
  finally have run: "parse t p (to_chars 16 (length c) @ crlf @ c @ crlf @ ?tail) = parse t ?p2 ?tail" .
  have un: "unat (of_nat (length c) :: u64) = length c"
    using small(1) by (rule unat_u64)
  have "unat (p_decoded_body_bytes p + of_nat (length c)) = length (m_body (p_response p)) + length c"
    using Cons.prems(4,5) size un by (simp add: unat_word_ariths)
  then have "\<exists>q. parse t ?p2 ?tail = (Some Complete, q, rest) \<and>
      p_response q = (p_response ?p2)\<lparr>m_body := m_body (p_response ?p2) @ concat cs\<rparr>"
    using Cons.prems size by (intro Cons.IH) simp_all
  then show ?case unfolding buf run by simp
qed

lemma chunked_roundtrip:
  fixes r :: http_response
  defines "framing \<equiv> (''Transfer-Encoding'', ''chunked'')"
  assumes ok: "serialisable opts r framing" and allows: "status_code_allows_body (resp_status_code r)"
    and chunks: "\<forall>c\<in>set chunks. c \<noteq> []" "length (concat chunks) \<le> max_body opts" "max_body opts + 2 < 2 ^ 64"
  shows "\<exists>q. parse t (parser_new Mode_response opts) (chunked_bytes r chunks @ rest) = (Some Complete, q, rest) \<and>
    p_response q = (parsed_head r framing)\<lparr>m_body := concat chunks, m_chunked := True\<rparr>"
proof -
  let ?hp = "head_parser opts r framing"
  have plain: "\<forall>fv\<in>set (resp_headers r). plain_header fv" and st: "0 \<le> resp_status_code r"
    using ok by (auto simp: serialisable_def)
  have lens: "content_lengths (message_headers ?hp) = Some []"
    and codings: "transfer_codings (message_headers ?hp) = [''chunked'']"
    using chunked_framing [OF plain] by (simp_all add: framing_def)
  have fields: "p_mode ?hp = Mode_response" "m_status_code (p_response ?hp) = resp_status_code r"
    "p_response ?hp = parsed_head r framing"
    by (simp_all add: head_parser_def parser_new_def parsed_head_def)
  let ?q = "?hp\<lparr>p_response := (parsed_head r framing)\<lparr>m_chunked := True\<rparr>, p_chunked := True, p_state := S_chunk_size\<rparr>"
  have te: "is_chunked_transfer (message_headers ?hp) = (True, True, True)"
    using codings by (simp add: is_chunked_transfer_def)
  have fin: "finish_headers ?hp = (True, ?q)"
    using lens allows fields te by (simp add: finish_headers_def)
  have "chunked_bytes r chunks =
      status_line r @ crlf @ concat (map header_line (response_lines r framing)) @ crlf @
      concat (map encode_chunk chunks) @ ''0'' @ crlf @ crlf"
    using st allows
    by (simp add: chunked_bytes_def headers_to_buffer_def status_line_def response_lines_def header_line_def
        framing_line_def string_of_int_def framing_def)
  then have run: "parse t (parser_new Mode_response opts) (chunked_bytes r chunks @ rest) =
      parse t ?q (concat (map encode_chunk chunks) @ ''0'' @ crlf @ crlf @ rest)"
    using parse_head_bytes [OF ok, of t "concat (map encode_chunk chunks) @ ''0'' @ crlf @ crlf @ rest"] fin
    by (simp add: framing_def)
  have "\<exists>q. parse t ?q (concat (map encode_chunk chunks) @ ''0'' @ crlf @ crlf @ rest) = (Some Complete, q, rest) \<and>
      p_response q = (p_response ?q)\<lparr>m_body := m_body (p_response ?q) @ concat chunks\<rparr>"
    using chunks by (intro parse_chunks) (simp_all add: head_parser_def parser_new_def parsed_head_def)
  then show ?thesis unfolding run by (simp add: parsed_head_def)
qed


subsection \<open>Properties\<close>

lemma parse_response_new: "parse_response (parser_new Mode_response opts) buf = parse 0 (parser_new Mode_response opts) buf"
  by (simp add: parse_response_def parser_new_def)

text \<open>
  C15: A response the server writes with a \<open>Content-Length\<close> (or without a body where its status
  forbids one) is read back by the client's parser: same status, reason phrase, header fields in
  order and body, and the bytes behind it stay in the buffer.
\<close>

theorem response_roundtrip:
  assumes "serialisable opts r (''Content-Length'', to_chars 10 (length (body_of r)))"
    and "length (body_of r) \<le> max_body opts" and "length (body_of r) < 2 ^ 64"
  shows "\<exists>q. parse_response (parser_new Mode_response opts) (response_to_buffer r True @ rest) = (Some Complete, q, rest) \<and>
    m_status_code (p_response q) = resp_status_code r \<and> m_reason_phrase (p_response q) = status_message r \<and>
    m_headers (p_response q) =
      map header_entry_of (response_lines r (''Content-Length'', to_chars 10 (length (body_of r)))) \<and>
    m_body (p_response q) = body_of r \<and> m_content_length (p_response q) = Some (of_nat (length (body_of r)))"
proof -
  obtain q where "parse 0 (parser_new Mode_response opts) (response_to_buffer r True @ rest) = (Some Complete, q, rest)"
    "p_response q = (parsed_head r (''Content-Length'', to_chars 10 (length (body_of r))))
      \<lparr>m_body := body_of r, m_content_length := Some (of_nat (length (body_of r)))\<rparr>"
    using fixed_roundtrip assms by blast
  then show ?thesis by (simp add: parse_response_new parsed_head_def)
qed

definition sample_response_200 :: http_response where
  "sample_response_200 = set_content_type ''text/plain''
     ((response_new False)\<lparr>resp_status_code := 200, resp_body := ''hello''\<rparr>)"

theorem response_roundtrip_witness:
  "\<exists>q. parse_response (parser_new Mode_response default_parser_options)
      (response_to_buffer sample_response_200 True @ ''HTTP'') = (Some Complete, q, ''HTTP'') \<and>
    m_body (p_response q) = ''hello''"
proof -
  have "serialisable default_parser_options sample_response_200
      (''Content-Length'', to_chars 10 (length (body_of sample_response_200)))"
    "length (body_of sample_response_200) \<le> max_body default_parser_options"
    "length (body_of sample_response_200) < 2 ^ 64" "body_of sample_response_200 = ''hello''"
    by code_simp+
  with response_roundtrip [of default_parser_options sample_response_200 "''HTTP''"] show ?thesis by auto
qed

text \<open>
  C16: A response streamed in chunks is read back as one message whose body is the
  concatenation of the chunks, whatever their number and sizes (the parser's limit permitting).
\<close>

theorem chunked_response_roundtrip:
  assumes "serialisable opts r (''Transfer-Encoding'', ''chunked'')"
    and "status_code_allows_body (resp_status_code r)" and "\<forall>c\<in>set chunks. c \<noteq> []"
    and "length (concat chunks) \<le> max_body opts" and "max_body opts + 2 < 2 ^ 64"
  shows "\<exists>q. parse_response (parser_new Mode_response opts) (chunked_bytes r chunks @ rest) = (Some Complete, q, rest) \<and>
    m_status_code (p_response q) = resp_status_code r \<and> m_reason_phrase (p_response q) = status_message r \<and>
    m_headers (p_response q) = map header_entry_of (response_lines r (''Transfer-Encoding'', ''chunked'')) \<and>
    m_body (p_response q) = concat chunks \<and> m_chunked (p_response q) \<and> m_trailers (p_response q) = []"
proof -
  obtain q where "parse 0 (parser_new Mode_response opts) (chunked_bytes r chunks @ rest) = (Some Complete, q, rest)"
    "p_response q = (parsed_head r (''Transfer-Encoding'', ''chunked''))
      \<lparr>m_body := concat chunks, m_chunked := True\<rparr>"
    using chunked_roundtrip assms by blast
  then show ?thesis by (simp add: parse_response_new parsed_head_def)
qed

theorem chunked_response_roundtrip_witness:
  "\<exists>q. parse_response (parser_new Mode_response default_parser_options)
      (chunked_bytes sample_response_200 [''hel'', ''lo world, this is long''] @ ''H'') = (Some Complete, q, ''H'') \<and>
    m_body (p_response q) = ''hello world, this is long''"
proof -
  have "serialisable default_parser_options sample_response_200 (''Transfer-Encoding'', ''chunked'')"
    "status_code_allows_body (resp_status_code sample_response_200)"
    "length (concat [''hel'', ''lo world, this is long'']) \<le> max_body default_parser_options"
    "max_body default_parser_options + 2 < 2 ^ 64"
    by code_simp+
  with chunked_response_roundtrip [of default_parser_options sample_response_200 "[''hel'', ''lo world, this is long'']" "''H''"]
  show ?thesis by auto
qed

end
