(* ===== verification/Cache.thy ===== *)
theory Cache
  imports Semantics
begin

text \<open>
  RFC 9111 (src/src/http/http_cache.cpp): Cache-Control, Age, Expires and Vary, and the decision
  whether a stored response is fresh. Times are 64-bit nanosecond counts; \<open>i64\<close> marks the sums and
  differences that can leave that range (undefined by the standard, two's complement here).
\<close>

datatype cache_kind = Private_cache | Shared_cache

record cache_directive =
  cd_name :: string
  cd_value :: "string option"

type_synonym cache_control = "cache_directive list"

record vary_fields =
  vf_any :: bool
  vf_fields :: "string list"

record cache_freshness =
  cf_current_age :: int
  cf_freshness_lifetime :: "int option"
  cf_requires_validation :: bool
  cf_fresh :: bool

subsection \<open>Lists and quoted strings\<close>

text \<open>The comma splitter that respects quoted strings; \<open>cur\<close> is the part since \<open>start\<close>.\<close>

fun split_quoted :: "bool \<Rightarrow> bool \<Rightarrow> string \<Rightarrow> string \<Rightarrow> string list" where
  "split_quoted quoted escaped cur [] = [trim_ows cur]"
| "split_quoted quoted escaped cur (c # cs) =
     (if escaped then split_quoted quoted False (cur @ [c]) cs
      else if quoted \<and> c = CHR 0x5C then split_quoted quoted True (cur @ [c]) cs
      else if c = CHR 0x22 then split_quoted (\<not> quoted) False (cur @ [c]) cs
      else if \<not> quoted \<and> c = CHR '','' then trim_ows cur # split_quoted quoted False [] cs
      else split_quoted quoted False (cur @ [c]) cs)"

definition split_list :: "string \<Rightarrow> string list" where
  "split_list value = split_quoted False False [] value"

fun unescape :: "bool \<Rightarrow> string \<Rightarrow> string option" where
  "unescape escaped [] = (if escaped then None else Some [])"
| "unescape escaped (c # cs) =
     (if escaped then map_option ((#) c) (unescape False cs)
      else if c = CHR 0x5C then unescape True cs
      else map_option ((#) c) (unescape False cs))"

definition unquote :: "string \<Rightarrow> string option" where
  "unquote value0 =
     (let value = trim_ows value0 in
      if value = [] then Some []
      else if hd value \<noteq> CHR 0x22 then Some value
      else if length value < 2 \<or> last value \<noteq> CHR 0x22 then None
      else unescape False (butlast (tl value)))"

subsection \<open>Cache-Control\<close>

definition cc_add :: "string \<Rightarrow> string option \<Rightarrow> cache_control \<Rightarrow> cache_control" where
  "cc_add name val cc = cc @ [\<lparr>cd_name = lowercase name, cd_value = val\<rparr>]"

definition cc_has :: "string \<Rightarrow> cache_control \<Rightarrow> bool" where
  "cc_has name cc \<longleftrightarrow> list_ex (\<lambda>d. equals_ignore_case (cd_name d) name) cc"

definition cc_value :: "string \<Rightarrow> cache_control \<Rightarrow> string option" where
  "cc_value name cc =
     (case List.find (\<lambda>d. equals_ignore_case (cd_name d) name) cc of None \<Rightarrow> None | Some d \<Rightarrow> cd_value d)"

definition cc_values :: "string \<Rightarrow> cache_control \<Rightarrow> string list" where
  "cc_values name cc =
     List.map_filter (\<lambda>d. if equals_ignore_case (cd_name d) name then cd_value d else None) cc"

definition parse_delta_seconds :: "string \<Rightarrow> int option" where
  "parse_delta_seconds value0 =
     (let value = trim_ows value0 in
      if value = [] \<or> hd value = CHR ''-'' then None
      else case from_chars_unsigned 64 10 value of
             None \<Rightarrow> None
           | Some (parsed, used) \<Rightarrow>
               if used \<noteq> length value then None
               else if 2 ^ 63 - 1 < parsed then None else Some (int parsed))"

definition cc_delta_seconds :: "string \<Rightarrow> cache_control \<Rightarrow> int option" where
  "cc_delta_seconds name cc = (case cc_value name cc of None \<Rightarrow> None | Some raw \<Rightarrow> parse_delta_seconds raw)"

definition parse_directive :: "string \<Rightarrow> cache_control \<Rightarrow> cache_control" where
  "parse_directive part cc =
     (if part = [] then cc
      else
        let equals = find_char CHR ''='' part;
            name = trim_ows (case equals of None \<Rightarrow> part | Some e \<Rightarrow> take e part)
        in if name = [] then cc
           else case equals of
                  None \<Rightarrow> cc_add name None cc
                | Some e \<Rightarrow>
                    (case unquote (drop (e + 1) part) of
                       None \<Rightarrow> cc
                     | Some v \<Rightarrow> cc_add name (Some v) cc))"

definition parse_cache_control :: "string \<Rightarrow> cache_control" where
  "parse_cache_control value = fold parse_directive (split_list value) []"

definition cache_control_from_headers :: "http_headers \<Rightarrow> cache_control" where
  "cache_control_from_headers headers =
     fold (\<lambda>value cc. fold (\<lambda>d. cc_add (cd_name d) (cd_value d)) (parse_cache_control value) cc)
       (hdr_values ''Cache-Control'' headers) []"

definition parse_age_header :: "string \<Rightarrow> int option" where
  "parse_age_header value = parse_delta_seconds value"

definition parse_expires_header :: "string \<Rightarrow> http_time option" where
  "parse_expires_header value = parse_http_date value"

subsection \<open>Vary\<close>

fun vary_scan :: "string list \<Rightarrow> string list \<Rightarrow> vary_fields" where
  "vary_scan acc [] = \<lparr>vf_any = False, vf_fields = acc\<rparr>"
| "vary_scan acc (field # rest) =
     (if field = [] then vary_scan acc rest
      else if field = ''*'' then \<lparr>vf_any = True, vf_fields = []\<rparr>
      else vary_scan (acc @ [lowercase field]) rest)"

definition parse_vary_header :: "string \<Rightarrow> vary_fields" where
  "parse_vary_header value = vary_scan [] (split_list value)"

definition vary_matches_request_headers :: "vary_fields \<Rightarrow> http_headers \<Rightarrow> http_headers \<Rightarrow> bool" where
  "vary_matches_request_headers vary cached current \<longleftrightarrow>
     \<not> vf_any vary \<and> list_all (\<lambda>field. hdr_values field cached = hdr_values field current) (vf_fields vary)"

subsection \<open>Freshness\<close>

definition clamp_nonnegative_seconds :: "int \<Rightarrow> int" where
  "clamp_nonnegative_seconds duration = (if duration \<le> 0 then 0 else c_div duration ticks_per_second)"

definition cache_current_age :: "http_headers \<Rightarrow> http_time \<Rightarrow> http_time \<Rightarrow> int" where
  "cache_current_age response_headers response_time now =
     (let age_value = (case parse_age_header (hdr_get ''Age'' response_headers) of None \<Rightarrow> 0 | Some a \<Rightarrow> a)
      in i64 (age_value + clamp_nonnegative_seconds (i64 (now - response_time))))"

definition cache_freshness_lifetime :: "http_headers \<Rightarrow> http_time \<Rightarrow> cache_kind \<Rightarrow> int option" where
  "cache_freshness_lifetime response_headers response_time kind =
     (let cc = cache_control_from_headers response_headers;
          s_maxage = (if kind = Shared_cache then cc_delta_seconds ''s-maxage'' cc else None)
      in if s_maxage \<noteq> None then s_maxage
         else case cc_delta_seconds ''max-age'' cc of
                Some max_age \<Rightarrow> Some max_age
              | None \<Rightarrow>
                  (case parse_expires_header (hdr_get ''Expires'' response_headers) of
                     None \<Rightarrow> None
                   | Some expires \<Rightarrow>
                       let date = (case parse_http_date (hdr_get ''Date'' response_headers) of
                                     None \<Rightarrow> response_time | Some d \<Rightarrow> d)
                       in Some (clamp_nonnegative_seconds (i64 (expires - date)))))"

definition cache_requires_validation :: "http_headers \<Rightarrow> cache_kind \<Rightarrow> bool" where
  "cache_requires_validation response_headers kind = cc_has ''no-cache'' (cache_control_from_headers response_headers)"

definition cache_allows_storage :: "http_headers \<Rightarrow> cache_kind \<Rightarrow> bool" where
  "cache_allows_storage response_headers kind =
     (let cc = cache_control_from_headers response_headers in
      if cc_has ''no-store'' cc then False
      else kind \<noteq> Shared_cache \<or> \<not> cc_has ''private'' cc)"

definition evaluate_cache_freshness :: "http_headers \<Rightarrow> http_time \<Rightarrow> http_time \<Rightarrow> cache_kind \<Rightarrow> cache_freshness" where
  "evaluate_cache_freshness response_headers response_time now kind =
     (let age = cache_current_age response_headers response_time now;
          lifetime = cache_freshness_lifetime response_headers response_time kind;
          validation = cache_requires_validation response_headers kind
      in \<lparr>cf_current_age = age, cf_freshness_lifetime = lifetime, cf_requires_validation = validation,
          cf_fresh = (cache_allows_storage response_headers kind \<and> \<not> validation \<and>
            (case lifetime of None \<Rightarrow> False | Some l \<Rightarrow> age < l))\<rparr>)"

definition make_cache_validation_headers :: "http_headers \<Rightarrow> http_headers" where
  "make_cache_validation_headers cached =
     (let etag = hdr_get ''ETag'' cached; last_modified = hdr_get ''Last-Modified'' cached;
          result = (if etag \<noteq> [] then hdr_add ''If-None-Match'' etag [] else [])
      in if last_modified \<noteq> [] then hdr_add ''If-Modified-Since'' last_modified result else result)"

end
