(* ===== verification/Client_Cache.thy ===== *)
theory Client_Cache
  imports Cache Parser
begin

text \<open>
  \<open>HttpClientCache\<close> (src/src/http/http_client_cache.cpp): a private cache of responses, an entry
  list in order of use with limits on the number of entries and on the bytes of their bodies.
\<close>

record client_cache_options =
  max_entries :: nat
  max_body_bytes :: nat
  max_total_body_bytes :: nat

definition default_cache_options :: client_cache_options where
  "default_cache_options =
     \<lparr>max_entries = 1024, max_body_bytes = 1024 * 1024, max_total_body_bytes = 64 * 1024 * 1024\<rparr>"

text \<open>\<open>HttpClientRequest\<close>, as far as the cache reads it.\<close>

record client_request =
  cr_method :: string
  cr_target :: string
  cr_headers :: http_headers
  cr_body :: string

record cache_entry =
  ce_id :: nat
  ce_primary_key :: string
  ce_request_headers :: http_headers
  ce_vary :: vary_fields
  ce_response :: http_response_message
  ce_stored_at :: http_time
  ce_body_bytes :: u64

record client_cache =
  cc_options :: client_cache_options
  cc_entries :: "cache_entry list"
  cc_next_id :: nat
  cc_total_body_bytes :: u64

datatype lookup_state = Lookup_miss | Lookup_fresh | Lookup_stale

record lookup_result =
  lr_state :: lookup_state
  lr_entry_id :: "nat option"
  lr_response :: http_response_message
  lr_validation_headers :: http_headers

definition lookup_result_new :: lookup_result where
  "lookup_result_new = \<lparr>lr_state = Lookup_miss, lr_entry_id = None, lr_response = response_message_new,
     lr_validation_headers = []\<rparr>"

definition cache_new :: "client_cache_options \<Rightarrow> client_cache" where
  "cache_new options = \<lparr>cc_options = options, cc_entries = [], cc_next_id = 1, cc_total_body_bytes = 0\<rparr>"

subsection \<open>What may be read and stored\<close>

definition cacheable_method :: "client_request \<Rightarrow> bool" where
  "cacheable_method request \<longleftrightarrow>
     equals_ignore_case (cr_method request) ''GET'' \<or> equals_ignore_case (cr_method request) ''HEAD''"

definition request_cache_control :: "client_request \<Rightarrow> cache_control" where
  "request_cache_control request = cache_control_from_headers (cr_headers request)"

definition request_forces_revalidation :: "client_request \<Rightarrow> bool" where
  "request_forces_revalidation request \<longleftrightarrow>
     cc_has ''no-cache'' (request_cache_control request) \<or>
     cc_delta_seconds ''max-age'' (request_cache_control request) = Some 0"

definition has_authorization :: "client_request \<Rightarrow> bool" where
  "has_authorization request \<longleftrightarrow> hdr_contains ''Authorization'' (cr_headers request)"

definition response_has_validator :: "http_response_message \<Rightarrow> bool" where
  "response_has_validator response \<longleftrightarrow>
     hdr_contains ''ETag'' (m_headers response) \<or> hdr_contains ''Last-Modified'' (m_headers response)"

definition set_headers :: "http_headers \<Rightarrow> http_headers \<Rightarrow> http_headers" where
  "set_headers source destination = fold (\<lambda>e. hdr_set (h_field e) (h_value e)) source destination"

definition primary_key :: "string \<Rightarrow> string \<Rightarrow> client_request \<Rightarrow> string" where
  "primary_key scheme host request =
     scheme @ ''://'' @ host @ '' '' @ cr_method request @ '' '' @ cr_target request"

definition request_allows_cache_read :: "client_request \<Rightarrow> bool" where
  "request_allows_cache_read request =
     (if \<not> cacheable_method request \<or> cr_body request \<noteq> [] \<or> has_authorization request then False
      else \<not> cc_has ''no-store'' (request_cache_control request))"

definition request_allows_cache_write :: "client_request \<Rightarrow> bool" where
  "request_allows_cache_write request =
     (if \<not> cacheable_method request \<or> cr_body request \<noteq> [] \<or> has_authorization request then False
      else \<not> cc_has ''no-store'' (request_cache_control request))"

text \<open>\<open>clock\<close> is what \<open>system_clock::now()\<close> returns.\<close>

definition response_allows_cache_write :: "http_time \<Rightarrow> client_cache_options \<Rightarrow> http_response_message \<Rightarrow> bool" where
  "response_allows_cache_write clock options response =
     (if m_status_code response \<noteq> 200 \<or> max_body_bytes options < length (m_body response) \<or>
         max_total_body_bytes options < length (m_body response) then False
      else if \<not> cache_allows_storage (m_headers response) Private_cache then False
      else cache_freshness_lifetime (m_headers response) clock Private_cache \<noteq> None \<or>
           response_has_validator response)"

subsection \<open>The entry list\<close>

definition entry_matches :: "string \<Rightarrow> http_headers \<Rightarrow> cache_entry \<Rightarrow> bool" where
  "entry_matches key headers e \<longleftrightarrow>
     ce_primary_key e = key \<and> vary_matches_request_headers (ce_vary e) (ce_request_headers e) headers"

text \<open>\<open>splice\<close> to the front: the entry at position \<open>i\<close> and the list with it moved.\<close>

definition move_to_front :: "nat \<Rightarrow> 'a list \<Rightarrow> 'a list" where
  "move_to_front i xs = xs ! i # take i xs @ drop (i + 1) xs"

definition cache_lookup :: "string \<Rightarrow> string \<Rightarrow> client_request \<Rightarrow> http_time \<Rightarrow> client_cache \<Rightarrow>
    lookup_result \<times> client_cache" where
  "cache_lookup scheme host request now c =
     (if \<not> request_allows_cache_read request then (lookup_result_new, c)
      else
        let key = primary_key scheme host request; force_revalidation = request_forces_revalidation request
        in case index_of (entry_matches key (cr_headers request)) (cc_entries c) of
             None \<Rightarrow> (lookup_result_new, c)
           | Some i \<Rightarrow>
               let entry = cc_entries c ! i;
                   c1 = c\<lparr>cc_entries := move_to_front i (cc_entries c)\<rparr>;
                   result = lookup_result_new\<lparr>lr_entry_id := Some (ce_id entry)\<rparr>;
                   freshness = evaluate_cache_freshness (m_headers (ce_response entry)) (ce_stored_at entry) now Private_cache
               in if \<not> force_revalidation \<and> cf_fresh freshness then
                    (result\<lparr>lr_state := Lookup_fresh,
                            lr_response := (ce_response entry)\<lparr>m_source := From_cache\<rparr>\<rparr>, c1)
                  else if response_has_validator (ce_response entry) then
                    (result\<lparr>lr_state := Lookup_stale,
                            lr_validation_headers := make_cache_validation_headers (m_headers (ce_response entry))\<rparr>, c1)
                  else (result, c1))"

text \<open>\<open>enforce_limits\<close>: entries are popped from the back until both limits hold.\<close>

function enforce_loop :: "client_cache_options \<Rightarrow> cache_entry list \<Rightarrow> u64 \<Rightarrow> cache_entry list \<times> u64" where
  "enforce_loop options entries held =
     (if entries \<noteq> [] \<and> (max_entries options < length entries \<or> max_total_body_bytes options < unat held)
      then enforce_loop options (butlast entries) (held - ce_body_bytes (last entries))
      else (entries, held))"
  by pat_completeness auto
termination
  by (relation "measure (\<lambda>(opts, entries, held). length entries)") auto

declare enforce_loop.simps [simp del]

definition enforce_limits :: "client_cache \<Rightarrow> client_cache" where
  "enforce_limits c =
     (case enforce_loop (cc_options c) (cc_entries c) (cc_total_body_bytes c) of
        (entries, held) \<Rightarrow> c\<lparr>cc_entries := entries, cc_total_body_bytes := held\<rparr>)"

definition insert_or_replace :: "cache_entry \<Rightarrow> client_cache \<Rightarrow> client_cache" where
  "insert_or_replace entry c =
     (let replaced = entry_matches (ce_primary_key entry) (ce_request_headers entry);
          kept = filter (\<lambda>e. \<not> replaced e) (cc_entries c);
          held = fold (\<lambda>e t. t - ce_body_bytes e) (filter replaced (cc_entries c)) (cc_total_body_bytes c)
      in enforce_limits (c\<lparr>cc_entries := entry # kept, cc_total_body_bytes := held + ce_body_bytes entry\<rparr>))"

definition cache_store :: "http_time \<Rightarrow> string \<Rightarrow> string \<Rightarrow> client_request \<Rightarrow> http_response_message \<Rightarrow> http_time \<Rightarrow>
    client_cache \<Rightarrow> client_cache" where
  "cache_store clock scheme host request response now c =
     (if \<not> request_allows_cache_write request \<or> \<not> response_allows_cache_write clock (cc_options c) response then c
      else
        let vary = parse_vary_header (hdr_get ''Vary'' (m_headers response));
            c1 = c\<lparr>cc_next_id := cc_next_id c + 1\<rparr>
        in if vf_any vary then c1
           else insert_or_replace
                  \<lparr>ce_id = cc_next_id c, ce_primary_key = primary_key scheme host request,
                   ce_request_headers = cr_headers request, ce_vary = vary,
                   ce_response = response\<lparr>m_source := From_cache\<rparr>, ce_stored_at = now,
                   ce_body_bytes = of_nat (length (m_body response))\<rparr> c1)"

definition update_from_304 :: "nat \<Rightarrow> http_response_message \<Rightarrow> http_time \<Rightarrow> client_cache \<Rightarrow>
    http_response_message option \<times> client_cache" where
  "update_from_304 entry_id response now c =
     (case index_of (\<lambda>e. ce_id e = entry_id) (cc_entries c) of
        None \<Rightarrow> (None, c)
      | Some i \<Rightarrow>
          let old = cc_entries c ! i;
              entry = old\<lparr>ce_response := (ce_response old)
                            \<lparr>m_headers := set_headers (m_headers response) (m_headers (ce_response old))\<rparr>,
                          ce_stored_at := now\<rparr>
          in (Some ((ce_response entry)\<lparr>m_source := Revalidated\<rparr>),
              c\<lparr>cc_entries := (move_to_front i (cc_entries c))[0 := entry]\<rparr>))"

definition cache_clear :: "client_cache \<Rightarrow> client_cache" where
  "cache_clear c = c\<lparr>cc_entries := [], cc_total_body_bytes := 0\<rparr>"

end
