(* ===== verification/Client_Cache_Laws.thy ===== *)
theory Client_Cache_Laws
  imports Client_Cache "HOL-Library.Multiset"
begin

text \<open>
  Laws of the client cache over arbitrary sequences of its operations: the byte accounting and the
  limits, least-recently-used eviction, and that only fresh entries are served without revalidation.
\<close>

subsection \<open>Sequences of operations\<close>

datatype cache_op =
    Op_lookup string string client_request http_time
  | Op_store http_time string string client_request http_response_message http_time
  | Op_update_304 nat http_response_message http_time
  | Op_clear

fun cache_step :: "cache_op \<Rightarrow> client_cache \<Rightarrow> client_cache" where
  "cache_step (Op_lookup scheme host request now) c = snd (cache_lookup scheme host request now c)"
| "cache_step (Op_store clock scheme host request response now) c =
     cache_store clock scheme host request response now c"
| "cache_step (Op_update_304 entry_id response now) c = snd (update_from_304 entry_id response now c)"
| "cache_step Op_clear c = cache_clear c"

definition cache_run :: "client_cache_options \<Rightarrow> cache_op list \<Rightarrow> client_cache" where
  "cache_run options ops = fold cache_step ops (cache_new options)"

lemma cache_run_snoc: "cache_run options (ops @ [op]) = cache_step op (cache_run options ops)"
  by (simp add: cache_run_def)

subsection \<open>Accounting and eviction\<close>

definition body_len :: "cache_entry \<Rightarrow> nat" where
  "body_len e = length (m_body (ce_response e))"

definition bytes_held :: "cache_entry list \<Rightarrow> nat" where
  "bytes_held es = sum_list (map body_len es)"

definition counted :: "cache_entry list \<Rightarrow> u64 \<Rightarrow> bool" where
  "counted es held \<longleftrightarrow> unat held = bytes_held es \<and>
     (\<forall>e \<in> set es. ce_body_bytes e = of_nat (body_len e))"

definition within_limits :: "client_cache_options \<Rightarrow> cache_entry list \<Rightarrow> bool" where
  "within_limits options es \<longleftrightarrow>
     length es \<le> max_entries options \<and> bytes_held es \<le> max_total_body_bytes options"

lemma bytes_held_simps [simp]:
  "bytes_held [] = 0" "bytes_held (e # es) = body_len e + bytes_held es"
  "bytes_held (es @ fs) = bytes_held es + bytes_held fs"
  by (simp_all add: bytes_held_def)

lemma bytes_held_take: "bytes_held (take j es) \<le> bytes_held es"
proof -
  have "bytes_held es = bytes_held (take j es) + bytes_held (drop j es)"
    using bytes_held_simps(3) [of "take j es" "drop j es"] by simp
  then show ?thesis by simp
qed

lemma unat_remove:
  assumes "unat held = n + b"
  shows "unat (held - of_nat b :: u64) = n"
proof -
  have "unat held < 2 ^ LENGTH(64)" by (rule unsigned_less)
  then have "b < 2 ^ 64" using assms by simp
  then have b: "unat (of_nat b :: u64) = b" by (rule unat_u64)
  then have "of_nat b \<le> held" using assms by (simp add: word_le_nat_alt)
  then show ?thesis using assms b by (simp add: unat_sub)
qed

lemma counted_remove:
  assumes "counted (xs @ e # ys) held"
  shows "counted (xs @ ys) (held - ce_body_bytes e)"
  using assms unat_remove [of held "bytes_held (xs @ ys)" "body_len e"] by (auto simp: counted_def)

text \<open>Eviction keeps the longest prefix of the list, in order of use, that is within the limits.\<close>

lemma enforce_loop_prefix:
  assumes "counted es held"
  shows "\<exists>k held'. enforce_loop options es held = (take k es, held') \<and> counted (take k es) held' \<and>
    within_limits options (take k es) \<and>
    (\<forall>j \<le> length es. within_limits options (take j es) \<longrightarrow> j \<le> k)"
  using assms
proof (induction es arbitrary: held rule: rev_induct)
  case Nil
  then show ?case
    by (intro exI [of _ 0] exI [of _ held]) (simp add: enforce_loop.simps [of options "[]"] counted_def within_limits_def)
next
  case (snoc e es)
  show ?case
  proof (cases "within_limits options (es @ [e])")
    case True
    then have "enforce_loop options (es @ [e]) held = (es @ [e], held)"
      using snoc.prems by (simp add: enforce_loop.simps [of options "es @ [e]"] within_limits_def counted_def)
    with True snoc.prems show ?thesis
      by (intro exI [of _ "length (es @ [e])"] exI [of _ held]) simp
  next
    case False
    then have step: "enforce_loop options (es @ [e]) held = enforce_loop options es (held - ce_body_bytes e)"
      using snoc.prems
      by (auto simp: enforce_loop.simps [of options "es @ [e]"] within_limits_def counted_def)
    have "counted es (held - ce_body_bytes e)" using counted_remove [of es e "[]" held] snoc.prems by simp
    from snoc.IH [OF this] obtain k held' where
      k: "enforce_loop options es (held - ce_body_bytes e) = (take k es, held')" "counted (take k es) held'"
        "within_limits options (take k es)" and
      max: "\<forall>j \<le> length es. within_limits options (take j es) \<longrightarrow> j \<le> k" by blast
    define m where "m = min k (length es)"
    have same: "take m (es @ [e]) = take k es" by (simp add: m_def min_def)
    have bound: "j \<le> m" if "j \<le> length (es @ [e])" "within_limits options (take j (es @ [e]))" for j
    proof -
      have "j \<le> length es" using that False by (cases "j = length (es @ [e])") auto
      with that max show ?thesis by (simp add: m_def)
    qed
    show ?thesis
      using step k(1,2,3) bound unfolding same [symmetric] by auto
  qed
qed

subsection \<open>The invariant of the cache\<close>

definition servable :: "cache_entry \<Rightarrow> bool" where
  "servable e \<longleftrightarrow> m_status_code (ce_response e) = 200 \<and> \<not> vf_any (ce_vary e)"

definition cache_inv :: "client_cache \<Rightarrow> bool" where
  "cache_inv c \<longleftrightarrow>
     counted (cc_entries c) (cc_total_body_bytes c) \<and> within_limits (cc_options c) (cc_entries c) \<and>
     distinct (map ce_id (cc_entries c)) \<and>
     (\<forall>e \<in> set (cc_entries c). ce_id e < cc_next_id c \<and> servable e)"

lemma move_to_front_perm: "i < length xs \<Longrightarrow> mset (move_to_front i xs) = mset xs"
  by (metis add_mset_add_single append.assoc id_take_nth_drop mset.simps(2) mset_append move_to_front_def
      Suc_eq_plus1 union_mset_add_mset_right)

lemma bytes_held_mset: "mset es = mset fs \<Longrightarrow> bytes_held es = bytes_held fs"
  unfolding bytes_held_def by (metis mset_map sum_mset_sum_list)

lemma cache_inv_perm:
  assumes "cache_inv c" and "mset es = mset (cc_entries c)"
  shows "cache_inv (c\<lparr>cc_entries := es\<rparr>)"
proof -
  have "length es = length (cc_entries c)" and "set es = set (cc_entries c)" and
    "bytes_held es = bytes_held (cc_entries c)"
    using assms(2) by (auto dest: mset_eq_length mset_eq_setD bytes_held_mset)
  moreover have "distinct (map ce_id es) \<longleftrightarrow> distinct (map ce_id (cc_entries c))"
    using assms(2) by (metis mset_eq_imp_distinct_iff mset_map)
  ultimately show ?thesis
    using assms(1) by (simp add: cache_inv_def counted_def within_limits_def)
qed

lemma cache_lookup_inv:
  assumes "cache_inv c" shows "cache_inv (snd (cache_lookup scheme host request now c))"
proof (cases "index_of (entry_matches (primary_key scheme host request) (cr_headers request)) (cc_entries c)")
  case None
  with assms show ?thesis by (simp add: cache_lookup_def Let_def del: index_of_None)
next
  case (Some i)
  then have "i < length (cc_entries c)" by (simp add: index_of_Some)
  then have "cache_inv (c\<lparr>cc_entries := move_to_front i (cc_entries c)\<rparr>)"
    using assms by (intro cache_inv_perm move_to_front_perm)
  with assms Some show ?thesis by (simp add: cache_lookup_def Let_def)
qed

lemma counted_filter:
  "counted (ys @ es) held \<Longrightarrow>
   counted (ys @ filter (\<lambda>e. \<not> P e) es) (fold (\<lambda>e t. t - ce_body_bytes e) (filter P es) held)"
proof (induction es arbitrary: ys held)
  case Nil
  then show ?case by simp
next
  case (Cons e es)
  show ?case
  proof (cases "P e")
    case True
    with Cons.IH [of ys "held - ce_body_bytes e"] counted_remove [OF Cons.prems] show ?thesis by simp
  next
    case False
    with Cons.IH [of "ys @ [e]" held] Cons.prems show ?thesis by simp
  qed
qed

lemma within_limits_filter: "within_limits options es \<Longrightarrow> within_limits options (filter P es)"
proof -
  have "bytes_held (filter P es) \<le> bytes_held es" by (induction es) auto
  then show "within_limits options es \<Longrightarrow> within_limits options (filter P es)"
    by (auto simp: within_limits_def intro: order_trans [OF length_filter_le])
qed

lemma counted_Cons:
  assumes "counted es held" and "ce_body_bytes e = of_nat (body_len e)" and "bytes_held es + body_len e < 2 ^ 64"
  shows "counted (e # es) (held + ce_body_bytes e)"
proof -
  have b: "unat (of_nat (body_len e) :: u64) = body_len e" using assms(3) by (intro unat_u64) simp
  with assms have "unat (held + of_nat (body_len e)) = bytes_held es + body_len e"
    by (subst unat_add_u64) (simp_all add: counted_def)
  with assms show ?thesis by (simp add: counted_def)
qed

text \<open>The largest total for which adding one body cannot wrap the counter.\<close>

definition sane_options :: "client_cache_options \<Rightarrow> bool" where
  "sane_options options \<longleftrightarrow> max_total_body_bytes options < 2 ^ 63"

lemma insert_or_replace_inv:
  assumes c: "cache_inv c" and opts: "sane_options (cc_options c)"
    and e: "ce_body_bytes e = of_nat (body_len e)" "body_len e \<le> max_total_body_bytes (cc_options c)"
      "servable e" "ce_id e < cc_next_id c" "ce_id e \<notin> ce_id ` set (cc_entries c)"
  shows "\<exists>k. cc_entries (insert_or_replace e c) =
      take k (e # filter (\<lambda>x. \<not> entry_matches (ce_primary_key e) (ce_request_headers e) x) (cc_entries c)) \<and>
    (0 < max_entries (cc_options c) \<longrightarrow> 0 < k) \<and> cache_inv (insert_or_replace e c)"
proof -
  define kept where "kept = filter (\<lambda>x. \<not> entry_matches (ce_primary_key e) (ce_request_headers e) x) (cc_entries c)"
  define left where "left = fold (\<lambda>x t. t - ce_body_bytes x)
    (filter (entry_matches (ce_primary_key e) (ce_request_headers e)) (cc_entries c)) (cc_total_body_bytes c)"
  have "counted kept left"
    using counted_filter [of "[]" "cc_entries c" "cc_total_body_bytes c"] c by (simp add: kept_def left_def cache_inv_def)
  moreover have "within_limits (cc_options c) kept"
    using c by (simp add: kept_def cache_inv_def within_limits_filter)
  ultimately have "counted (e # kept) (left + ce_body_bytes e)"
    using e(1,2) opts by (intro counted_Cons) (simp_all add: sane_options_def within_limits_def)
  from enforce_loop_prefix [OF this, of "cc_options c"] obtain k held where
    k: "enforce_loop (cc_options c) (e # kept) (left + ce_body_bytes e) = (take k (e # kept), held)"
      "counted (take k (e # kept)) held" "within_limits (cc_options c) (take k (e # kept))" and
    max: "\<forall>j \<le> length (e # kept). within_limits (cc_options c) (take j (e # kept)) \<longrightarrow> j \<le> k" by blast
  have "1 \<le> k" if "0 < max_entries (cc_options c)"
    using max that e(2) by (auto simp: within_limits_def dest!: spec [of _ 1])
  moreover have "insert_or_replace e c = c\<lparr>cc_entries := take k (e # kept), cc_total_body_bytes := held\<rparr>"
    using k(1) by (simp add: insert_or_replace_def enforce_limits_def Let_def kept_def left_def)
  moreover have "distinct (map ce_id (take k (e # kept)))"
  proof -
    have "distinct (map ce_id kept)" using c by (simp add: kept_def cache_inv_def distinct_map_filter)
    then have "distinct (map ce_id (e # kept))" using e(5) by (auto simp: kept_def)
    then show ?thesis unfolding take_map [symmetric] by (rule distinct_take)
  qed
  moreover have "\<forall>x \<in> set (take k (e # kept)). ce_id x < cc_next_id c \<and> servable x"
    using c e by (auto dest!: in_set_takeD simp: kept_def cache_inv_def)
  ultimately show ?thesis
    using k by (auto simp: kept_def [symmetric] cache_inv_def)
qed

lemma insert_or_replace_options [simp]: "cc_options (insert_or_replace e c) = cc_options c"
  and insert_or_replace_next_id [simp]: "cc_next_id (insert_or_replace e c) = cc_next_id c"
  by (simp_all add: insert_or_replace_def enforce_limits_def Let_def split: prod.splits)

definition new_entry :: "string \<Rightarrow> string \<Rightarrow> client_request \<Rightarrow> http_response_message \<Rightarrow> http_time \<Rightarrow> nat \<Rightarrow> cache_entry" where
  "new_entry scheme host request response now n =
     \<lparr>ce_id = n, ce_primary_key = primary_key scheme host request, ce_request_headers = cr_headers request,
      ce_vary = parse_vary_header (hdr_get ''Vary'' (m_headers response)),
      ce_response = response\<lparr>m_source := From_cache\<rparr>, ce_stored_at = now,
      ce_body_bytes = of_nat (length (m_body response))\<rparr>"

lemma cache_store_cases:
  obtains "\<not> request_allows_cache_write request \<or> \<not> response_allows_cache_write clock (cc_options c) response"
      "cache_store clock scheme host request response now c = c"
  | "request_allows_cache_write request" "response_allows_cache_write clock (cc_options c) response"
      "vf_any (parse_vary_header (hdr_get ''Vary'' (m_headers response)))"
      "cache_store clock scheme host request response now c = c\<lparr>cc_next_id := cc_next_id c + 1\<rparr>"
  | "request_allows_cache_write request" "response_allows_cache_write clock (cc_options c) response"
      "\<not> vf_any (parse_vary_header (hdr_get ''Vary'' (m_headers response)))"
      "cache_store clock scheme host request response now c =
         insert_or_replace (new_entry scheme host request response now (cc_next_id c))
           (c\<lparr>cc_next_id := cc_next_id c + 1\<rparr>)"
  unfolding cache_store_def new_entry_def Let_def by (auto split: if_splits)

lemma cache_inv_bump: "cache_inv c \<Longrightarrow> cache_inv (c\<lparr>cc_next_id := cc_next_id c + 1\<rparr>)"
  by (auto simp: cache_inv_def)

lemma store_inserts:
  fixes scheme host :: string and request :: client_request and now :: http_time
  assumes "cache_inv c" and "sane_options (cc_options c)"
    and "response_allows_cache_write clock (cc_options c) response"
    and "\<not> vf_any (parse_vary_header (hdr_get ''Vary'' (m_headers response)))"
  defines "e \<equiv> new_entry scheme host request response now (cc_next_id c)"
  shows "\<exists>k. cc_entries (insert_or_replace e (c\<lparr>cc_next_id := cc_next_id c + 1\<rparr>)) =
      take k (e # filter (\<lambda>x. \<not> entry_matches (primary_key scheme host request) (cr_headers request) x) (cc_entries c)) \<and>
    (0 < max_entries (cc_options c) \<longrightarrow> 0 < k) \<and>
    cache_inv (insert_or_replace e (c\<lparr>cc_next_id := cc_next_id c + 1\<rparr>))"
proof -
  have fields: "ce_primary_key e = primary_key scheme host request" "ce_request_headers e = cr_headers request"
    "ce_body_bytes e = of_nat (body_len e)" "ce_id e = cc_next_id c"
    by (simp_all add: e_def new_entry_def body_len_def)
  have "body_len e \<le> max_total_body_bytes (cc_options c)" "servable e"
    using assms(3,4)
    by (simp_all add: e_def new_entry_def body_len_def servable_def response_allows_cache_write_def split: if_splits)
  moreover have "ce_id e \<notin> ce_id ` set (cc_entries c)"
    using assms(1) fields(4) by (auto simp: cache_inv_def)
  ultimately show ?thesis
    using insert_or_replace_inv [OF cache_inv_bump [OF assms(1)], of e] assms(2) fields by simp
qed

lemma cache_store_inv:
  assumes "cache_inv c" and "sane_options (cc_options c)"
  shows "cache_inv (cache_store clock scheme host request response now c)"
proof (cases rule: cache_store_cases [of request clock c response scheme host now])
  case 3
  then show ?thesis using store_inserts [OF assms 3(2,3)] by auto
next
  case 2
  show ?thesis unfolding 2(4) using assms(1) by (rule cache_inv_bump)
next
  case 1
  show ?thesis unfolding 1(2) by (rule assms(1))
qed

lemma update_from_304_inv:
  assumes "cache_inv c" shows "cache_inv (snd (update_from_304 entry_id response now c))"
proof (cases "index_of (\<lambda>e. ce_id e = entry_id) (cc_entries c)")
  case None
  with assms show ?thesis by (simp add: update_from_304_def del: index_of_None)
next
  case (Some i)
  define old where "old = cc_entries c ! i"
  define rest where "rest = take i (cc_entries c) @ drop (i + 1) (cc_entries c)"
  define e where "e = old\<lparr>ce_response := (ce_response old)
    \<lparr>m_headers := set_headers (m_headers response) (m_headers (ce_response old))\<rparr>, ce_stored_at := now\<rparr>"
  have "i < length (cc_entries c)" using Some by (simp add: index_of_Some)
  then have "cache_inv (c\<lparr>cc_entries := old # rest\<rparr>)"
    using assms cache_inv_perm [OF assms move_to_front_perm] by (simp add: move_to_front_def old_def rest_def)
  moreover have "ce_id e = ce_id old" "body_len e = body_len old" "ce_body_bytes e = ce_body_bytes old"
    "servable e = servable old"
    by (simp_all add: e_def body_len_def servable_def)
  ultimately have "cache_inv (c\<lparr>cc_entries := e # rest\<rparr>)"
    by (simp add: cache_inv_def counted_def within_limits_def)
  moreover have "snd (update_from_304 entry_id response now c) = c\<lparr>cc_entries := e # rest\<rparr>"
    using Some by (simp add: update_from_304_def move_to_front_def e_def old_def rest_def Let_def)
  ultimately show ?thesis by simp
qed

lemma cache_step_options [simp]: "cc_options (cache_step op c) = cc_options c"
  by (cases op) (auto simp: cache_lookup_def cache_store_def update_from_304_def cache_clear_def Let_def
      split: option.splits)

lemma cache_step_inv:
  assumes "cache_inv c" and "sane_options (cc_options c)" shows "cache_inv (cache_step op c)"
proof (cases op)
  case Op_clear
  then show ?thesis by (simp add: cache_clear_def cache_inv_def counted_def within_limits_def)
qed (use assms in \<open>simp_all add: cache_lookup_inv cache_store_inv update_from_304_inv\<close>)

text \<open>Where an entry comes from: the store that made it, and the time of that store or of a later 304.\<close>

definition stored_by :: "cache_op list \<Rightarrow> cache_entry \<Rightarrow> bool" where
  "stored_by ops e \<longleftrightarrow>
     (\<exists>clock scheme host request response now.
        Op_store clock scheme host request response now \<in> set ops \<and>
        ce_primary_key e = primary_key scheme host request \<and> ce_request_headers e = cr_headers request \<and>
        ce_vary e = parse_vary_header (hdr_get ''Vary'' (m_headers response)) \<and>
        m_body (ce_response e) = m_body response \<and> m_status_code (ce_response e) = m_status_code response \<and>
        (ce_stored_at e = now \<or> (\<exists>i r. Op_update_304 i r (ce_stored_at e) \<in> set ops)))"

lemma stored_by_mono: "stored_by ops e \<Longrightarrow> stored_by (ops @ [op]) e"
  unfolding stored_by_def by (simp del: ex_simps split del: if_split) blast

lemma set_move_to_front: "i < length xs \<Longrightarrow> set (move_to_front i xs) = set xs"
  by (metis move_to_front_perm set_mset_mset)

text \<open>Which entries an operation leaves: old ones, the one it stores, or an old one with a new date.\<close>

lemma cache_step_entries:
  assumes "cache_inv c" and "sane_options (cc_options c)" and "e \<in> set (cc_entries (cache_step op c))"
  shows "e \<in> set (cc_entries c) \<or>
    (\<exists>clock scheme host request response now. op = Op_store clock scheme host request response now \<and>
       e = new_entry scheme host request response now (cc_next_id c)) \<or>
    (\<exists>i response now. op = Op_update_304 i response now \<and> (\<exists>old \<in> set (cc_entries c).
       e = old\<lparr>ce_response := (ce_response old)
             \<lparr>m_headers := set_headers (m_headers response) (m_headers (ce_response old))\<rparr>, ce_stored_at := now\<rparr>))"
proof (cases op)
  case (Op_lookup scheme host request now)
  with assms(3) show ?thesis
    by (auto simp: cache_lookup_def Let_def index_of_Some set_move_to_front simp del: index_of_None
        split: option.splits if_splits)
next
  case (Op_store clock scheme host request response now)
  show ?thesis
  proof (cases rule: cache_store_cases [of request clock c response scheme host now])
    case 3
    then show ?thesis
      using store_inserts [OF assms(1,2) 3(2,3), of scheme host request now] assms(3) Op_store
      by (auto dest!: in_set_takeD)
  qed (use assms(3) Op_store in auto)
next
  case (Op_update_304 i response now)
  then show ?thesis using assms(3)
    by (auto simp: update_from_304_def Let_def index_of_Some move_to_front_def simp del: index_of_None
        split: option.splits dest: in_set_takeD in_set_dropD)
next
  case Op_clear
  with assms(3) show ?thesis by (simp add: cache_clear_def)
qed

definition cache_holds :: "client_cache_options \<Rightarrow> cache_op list \<Rightarrow> client_cache \<Rightarrow> bool" where
  "cache_holds options ops c \<longleftrightarrow> cc_options c = options \<and>
     (sane_options options \<longrightarrow> cache_inv c \<and> (\<forall>e \<in> set (cc_entries c). stored_by ops e))"

lemma cache_holds_step:
  assumes "cache_holds options ops c" shows "cache_holds options (ops @ [op]) (cache_step op c)"
proof (cases "sane_options options")
  case True
  then have c: "cache_inv c" "sane_options (cc_options c)" and by_ops: "\<forall>e \<in> set (cc_entries c). stored_by ops e"
    using assms by (auto simp: cache_holds_def)
  have "stored_by (ops @ [op]) e" if "e \<in> set (cc_entries (cache_step op c))" for e
    using cache_step_entries [OF c that]
  proof (elim disjE exE conjE bexE)
    assume "e \<in> set (cc_entries c)"
    then show ?thesis using by_ops stored_by_mono by blast
  next
    fix clock scheme host request response now
    assume "op = Op_store clock scheme host request response now"
      and "e = new_entry scheme host request response now (cc_next_id c)"
    then show ?thesis by (fastforce simp: stored_by_def new_entry_def)
  next
    fix i response now old
    assume op: "op = Op_update_304 i response now" and old: "old \<in> set (cc_entries c)"
      and e: "e = old\<lparr>ce_response := (ce_response old)
             \<lparr>m_headers := set_headers (m_headers response) (m_headers (ce_response old))\<rparr>, ce_stored_at := now\<rparr>"
    from by_ops old have "stored_by ops old" by blast
    with op e show ?thesis by (fastforce simp: stored_by_def)
  qed
  with c assms show ?thesis by (simp add: cache_holds_def cache_step_inv)
next
  case False
  with assms show ?thesis by (simp add: cache_holds_def)
qed

interpretation cache: op_history cache_step "cache_new options" "cache_holds options" for options
proof
  show "cache_holds options [] (cache_new options)"
    by (simp add: cache_holds_def cache_new_def cache_inv_def counted_def within_limits_def)
qed (rule cache_holds_step)

lemma cache_run_holds:
  assumes "sane_options options"
  shows "cache_inv (cache_run options ops)" and "cc_options (cache_run options ops) = options"
    and "e \<in> set (cc_entries (cache_run options ops)) \<Longrightarrow> stored_by ops e"
  using cache.run [of options ops] assms by (auto simp: cache_holds_def cache_run_def)
end
