(* ===== verification/Client_Cache_Props.thy ===== *)
theory Client_Cache_Props
  imports Client_Cache_Laws
begin

text \<open>What the client cache promises after any sequence of operations.\<close>

subsection \<open>Limits\<close>

text \<open>
  C22: After any sequence of lookups, stores, revalidations and clears the cache holds at most
  max_entries entries and max_total_body_bytes body bytes, the 64-bit byte counter is exactly the
  sum of the bodies, and entry ids are distinct.\<close>
theorem cache_stays_bounded:
  fixes ops :: "cache_op list"
  assumes "max_total_body_bytes options < 2 ^ 63"
  defines "c \<equiv> cache_run options ops"
  shows "length (cc_entries c) \<le> max_entries options \<and>
    unat (cc_total_body_bytes c) = sum_list (map (\<lambda>e. length (m_body (ce_response e))) (cc_entries c)) \<and>
    unat (cc_total_body_bytes c) \<le> max_total_body_bytes options \<and>
    distinct (map ce_id (cc_entries c)) \<and> (\<forall>e \<in> set (cc_entries c). ce_id e < cc_next_id c)"
proof -
  have "sane_options options" using assms(1) by (simp add: sane_options_def)
  from cache_run_holds(1,2) [OF this, of ops] show ?thesis
    by (auto simp: cache_inv_def counted_def within_limits_def bytes_held_def body_len_def c_def cong: map_cong)
qed

subsection \<open>Lookups\<close>

lemma cache_lookup_fresh:
  assumes "cache_lookup scheme host request now c = (r, c')" and "lr_state r = Lookup_fresh"
  obtains e where "e \<in> set (cc_entries c)" "entry_matches (primary_key scheme host request) (cr_headers request) e"
    "r = lookup_result_new\<lparr>lr_entry_id := Some (ce_id e), lr_state := Lookup_fresh,
           lr_response := (ce_response e)\<lparr>m_source := From_cache\<rparr>\<rparr>"
    "cf_fresh (evaluate_cache_freshness (m_headers (ce_response e)) (ce_stored_at e) now Private_cache)"
    "request_allows_cache_read request" "\<not> request_forces_revalidation request"
proof (cases "index_of (entry_matches (primary_key scheme host request) (cr_headers request)) (cc_entries c)")
  case None
  with assms show ?thesis by (auto simp: cache_lookup_def Let_def lookup_result_new_def simp del: index_of_None split: if_splits)
next
  case (Some i)
  then have "cc_entries c ! i \<in> set (cc_entries c)"
    "entry_matches (primary_key scheme host request) (cr_headers request) (cc_entries c ! i)"
    by (simp_all add: index_of_Some)
  with assms Some show ?thesis
    by (intro that [of "cc_entries c ! i"]) (auto simp: cache_lookup_def Let_def lookup_result_new_def split: if_splits)
qed

lemma evaluate_fresh:
  assumes "cf_fresh (evaluate_cache_freshness headers response_time now kind)"
  shows "\<exists>lifetime. cache_freshness_lifetime headers response_time kind = Some lifetime \<and>
    cache_current_age headers response_time now < lifetime" "\<not> cc_has ''no-cache'' (cache_control_from_headers headers)"
    "\<not> cc_has ''no-store'' (cache_control_from_headers headers)"
  using assms by (auto simp: evaluate_cache_freshness_def cache_requires_validation_def cache_allows_storage_def Let_def
      split: option.splits if_splits)


lemma vary_matches_self: "\<not> vf_any vary \<Longrightarrow> vary_matches_request_headers vary h h"
  by (simp add: vary_matches_request_headers_def list_all_iff)

text \<open>
  C21: A response the cache accepts is served: after any history, storing an acceptable response of a
  cache with room for one entry and asking again with the same request while it is fresh returns
  exactly that response, marked as coming from the cache.\<close>
theorem store_then_lookup:
  fixes scheme host :: string and ops :: "cache_op list"
  assumes "max_total_body_bytes options < 2 ^ 63" and "0 < max_entries options"
    and "request_allows_cache_write request" and "response_allows_cache_write clock options response"
    and "\<not> vf_any (parse_vary_header (hdr_get ''Vary'' (m_headers response)))"
    and "cf_fresh (evaluate_cache_freshness (m_headers response) now later Private_cache)"
    and "\<not> request_forces_revalidation request"
  defines "c \<equiv> cache_store clock scheme host request response now (cache_run options ops)"
  shows "lr_state (fst (cache_lookup scheme host request later c)) = Lookup_fresh \<and>
    lr_response (fst (cache_lookup scheme host request later c)) = response\<lparr>m_source := From_cache\<rparr>"
proof -
  have sane: "sane_options options" using assms(1) by (simp add: sane_options_def)
  define c0 where "c0 = cache_run options ops"
  define e where "e = new_entry scheme host request response now (cc_next_id c0)"
  define kept where "kept = filter (\<lambda>x. \<not> entry_matches (primary_key scheme host request) (cr_headers request) x) (cc_entries c0)"
  have c0: "cache_inv c0" "cc_options c0 = options" using cache_run_holds(1,2) [OF sane] by (simp_all add: c0_def)
  obtain k where k: "cc_entries (insert_or_replace e (c0\<lparr>cc_next_id := cc_next_id c0 + 1\<rparr>)) = take k (e # kept)" "0 < k"
    using store_inserts [of c0 clock response scheme host request now] c0 sane assms(2,4,5)
    unfolding e_def kept_def by auto
  have "c = insert_or_replace e (c0\<lparr>cc_next_id := cc_next_id c0 + 1\<rparr>)"
    using assms(3,4,5) c0(2) by (simp add: c_def cache_store_def c0_def [symmetric] e_def new_entry_def Let_def)
  with k have entries: "cc_entries c = e # take (k - 1) kept" by (simp add: take_Cons')
  have "entry_matches (primary_key scheme host request) (cr_headers request) e"
    using assms(5) by (simp add: entry_matches_def e_def new_entry_def vary_matches_self)
  moreover have "m_headers (ce_response e) = m_headers response" "ce_stored_at e = now"
      "ce_response e = response\<lparr>m_source := From_cache\<rparr>"
    by (simp_all add: e_def new_entry_def)
  moreover have "request_allows_cache_read request"
    using assms(3) by (simp add: request_allows_cache_read_def request_allows_cache_write_def)
  ultimately show ?thesis
    using assms(6,7) by (simp add: cache_lookup_def entries Let_def)
qed

subsection \<open>Revalidation\<close>

definition trimmed_headers :: "http_headers \<Rightarrow> bool" where
  "trimmed_headers h \<longleftrightarrow> (\<forall>e \<in> set h. trim_ows (h_field e) = h_field e \<and> trim_ows (h_value e) = h_value e)"

lemma hdr_values_set_headers:
  assumes "trimmed_headers src"
  shows "hdr_values f (set_headers src dst) =
    (if hdr_values f src = [] then hdr_values f dst else [last (hdr_values f src)])"
  using assms
proof (induction src arbitrary: dst)
  case Nil
  then show ?case by (simp add: set_headers_def)
next
  case (Cons e src)
  then have "hdr_values f (set_headers src (hdr_set (h_field e) (h_value e) dst)) =
      (if hdr_values f src = [] then hdr_values f (hdr_set (h_field e) (h_value e) dst) else [last (hdr_values f src)])"
    by (simp add: trimmed_headers_def)
  moreover have "hdr_values f (hdr_set (h_field e) (h_value e) dst) =
      (if lowercase f = lowercase (h_field e) then [h_value e] else hdr_values f dst)"
    using Cons.prems by (simp add: trimmed_headers_def hdr_values_set)
  ultimately show ?case
    by (auto simp: set_headers_def hdr_values_Cons)
qed

text \<open>
  A stale answer can be revalidated: when a lookup reports an entry as stale, feeding a 304 for
  the reported id to the cache right after it returns that entry's body, marked as revalidated, where
  every field the 304 carries replaced the stored ones and the other fields are as stored, and
  the entry is at the front of the cache with the time of the 304 as its date.\<close>
theorem stale_lookup_revalidates:
  assumes "max_total_body_bytes options < 2 ^ 63" and "trimmed_headers (m_headers response)"
    and "cache_lookup scheme host request now (cache_run options ops) = (r, c)"
    and "lr_state r = Lookup_stale"
  shows "\<exists>i e m c'. lr_entry_id r = Some i \<and> e \<in> set (cc_entries (cache_run options ops)) \<and> ce_id e = i \<and>
    update_from_304 i response later c = (Some m, c') \<and> m_body m = m_body (ce_response e) \<and>
    m_source m = Revalidated \<and>
    (\<forall>f. hdr_values f (m_headers m) =
       (if hdr_values f (m_headers response) = [] then hdr_values f (m_headers (ce_response e))
        else [last (hdr_values f (m_headers response))])) \<and>
    ce_id (hd (cc_entries c')) = i \<and> ce_stored_at (hd (cc_entries c')) = later \<and>
    ce_response (hd (cc_entries c')) = m\<lparr>m_source := m_source (ce_response e)\<rparr>"
proof -
  define es where "es = cc_entries (cache_run options ops)"
  obtain i where i: "index_of (entry_matches (primary_key scheme host request) (cr_headers request)) es = Some i"
    using assms(3,4)
    by (auto simp: cache_lookup_def Let_def lookup_result_new_def es_def simp del: index_of_None split: if_splits option.splits)
  define e where "e = es ! i"
  have "e \<in> set es" using i by (simp add: index_of_Some e_def)
  have c: "cc_entries c = move_to_front i es" and id: "lr_entry_id r = Some (ce_id e)"
    using assms(3,4) i unfolding es_def [symmetric]
    by (auto simp: cache_lookup_def Let_def lookup_result_new_def es_def e_def split: if_splits)
  have front: "cc_entries c = e # take i es @ drop (i + 1) es" using c by (simp add: move_to_front_def e_def)
  define e' where "e' = e\<lparr>ce_response := (ce_response e)
    \<lparr>m_headers := set_headers (m_headers response) (m_headers (ce_response e))\<rparr>, ce_stored_at := later\<rparr>"
  have "update_from_304 (ce_id e) response later c =
      (Some ((ce_response e')\<lparr>m_source := Revalidated\<rparr>), c\<lparr>cc_entries := e' # take i es @ drop (i + 1) es\<rparr>)"
    by (simp add: update_from_304_def front move_to_front_def e'_def Let_def)
  moreover have "ce_id e' = ce_id e" "ce_stored_at e' = later"
      "ce_response e' = (ce_response e)\<lparr>m_headers := set_headers (m_headers response) (m_headers (ce_response e))\<rparr>"
    by (simp_all add: e'_def)
  ultimately show ?thesis
    using id \<open>e \<in> set es\<close> hdr_values_set_headers [OF assms(2)] es_def by fastforce
qed

subsection \<open>Witnesses\<close>

definition sample_get :: client_request where
  "sample_get = \<lparr>cr_method = ''GET'', cr_target = ''/a'', cr_headers = hdr_add ''Accept'' ''text/html'' [], cr_body = []\<rparr>"

definition sample_page :: http_response_message where
  "sample_page = response_message_new\<lparr>m_status_code := 200, m_body := ''page'',
     m_headers := hdr_add ''Vary'' ''Accept'' (hdr_add ''ETag'' ''v1'' (hdr_add ''Cache-Control'' ''max-age=60'' []))\<rparr>"

definition sample_304 :: http_response_message where
  "sample_304 = response_message_new\<lparr>m_status_code := 304, m_headers := hdr_add ''ETag'' ''v2'' []\<rparr>"

definition sample_ops :: "cache_op list" where
  "sample_ops = [Op_store 0 ''http'' ''h'' sample_get sample_page 0,
     Op_lookup ''http'' ''h'' sample_get 1000, Op_update_304 1 sample_304 2000]"

definition seconds :: "int \<Rightarrow> http_time" where
  "seconds s = s * ticks_per_second"

abbreviation sample_cache :: client_cache where
  "sample_cache \<equiv> cache_run default_cache_options sample_ops"

lemma sample_fresh: "lr_state (fst (cache_lookup ''http'' ''h'' sample_get (seconds 30) sample_cache)) = Lookup_fresh"
  by code_simp

lemma sample_stale: "lr_state (fst (cache_lookup ''http'' ''h'' sample_get (seconds 90) sample_cache)) = Lookup_stale"
  by code_simp

lemma sample_storable: "request_allows_cache_write sample_get"
    "response_allows_cache_write 0 default_cache_options sample_page"
    "\<not> vf_any (parse_vary_header (hdr_get ''Vary'' (m_headers sample_page)))"
    "cf_fresh (evaluate_cache_freshness (m_headers sample_page) 0 (seconds 30) Private_cache)"
    "\<not> request_forces_revalidation sample_get"
  by code_simp+

lemma sample_limits: "max_total_body_bytes default_cache_options < 2 ^ 63" "0 < max_entries default_cache_options"
  by (simp_all add: default_cache_options_def)

theorem cache_stays_bounded_witness:
  "length (cc_entries sample_cache) \<le> max_entries default_cache_options"
  using cache_stays_bounded [OF sample_limits(1), of sample_ops] by blast


theorem store_then_lookup_witness:
  "lr_state (fst (cache_lookup ''http'' ''h'' sample_get (seconds 30)
     (cache_store 0 ''http'' ''h'' sample_get sample_page 0 sample_cache))) = Lookup_fresh"
  using store_then_lookup [OF sample_limits sample_storable, of "''http''" "''h''" sample_ops] by blast

theorem stale_lookup_revalidates_witness:
  "\<exists>m c'. update_from_304 1 sample_304 (seconds 91)
     (snd (cache_lookup ''http'' ''h'' sample_get (seconds 90) sample_cache)) = (Some m, c') \<and> m_source m = Revalidated"
proof -
  have "trimmed_headers (m_headers sample_304)" by code_simp
  moreover have "lr_entry_id (fst (cache_lookup ''http'' ''h'' sample_get (seconds 90) sample_cache)) = Some 1"
    by code_simp
  ultimately show ?thesis
    using stale_lookup_revalidates [OF sample_limits(1) _ prod.collapse [symmetric] sample_stale, of sample_304 "seconds 91"]
    by fastforce
qed

end
