(* ===== verification/Sha1.thy ===== *)
theory Sha1
  imports Prelude
begin

text \<open>
  SHA-1 and Base64 as src/src/websocket/websocket_handshake.cpp implements them: the incremental
  hash with its 64-byte block buffer, and the encoder.
\<close>

unbundle bit_operations_syntax

subsection \<open>Base64\<close>

definition k_base64 :: string where
  "k_base64 = ''ABCDEFGHIJKLMNOPQRSTUVWXYZabcdefghijklmnopqrstuvwxyz0123456789+/''"

definition base64_char :: "u32 \<Rightarrow> char" where
  "base64_char v = k_base64 ! unat (v AND 0x3F)"

definition base64_triple :: "u8 \<Rightarrow> u8 \<Rightarrow> u8 \<Rightarrow> u32" where
  "base64_triple a b c = push_bit 16 (ucast a) OR push_bit 8 (ucast b) OR ucast c"

fun base64_encode :: "u8 list \<Rightarrow> string" where
  "base64_encode [] = []"
| "base64_encode [a] =
     (let triple = base64_triple a 0 0 in
      [base64_char (drop_bit 18 triple), base64_char (drop_bit 12 triple), CHR ''='', CHR ''=''])"
| "base64_encode [a, b] =
     (let triple = base64_triple a b 0 in
      [base64_char (drop_bit 18 triple), base64_char (drop_bit 12 triple), base64_char (drop_bit 6 triple), CHR ''=''])"
| "base64_encode (a # b # c # rest) =
     (let triple = base64_triple a b c in
      [base64_char (drop_bit 18 triple), base64_char (drop_bit 12 triple), base64_char (drop_bit 6 triple),
       base64_char triple] @ base64_encode rest)"

subsection \<open>SHA-1\<close>

record sha1 =
  sha_h :: "u32 list"
  sha_block :: "u8 list"
  sha_total :: u64
  sha_size :: nat

definition sha1_new :: sha1 where
  "sha1_new = \<lparr>sha_h = [0x67452301, 0xEFCDAB89, 0x98BADCFE, 0x10325476, 0xC3D2E1F0],
     sha_block = replicate 64 0, sha_total = 0, sha_size = 0\<rparr>"

definition left_rotate :: "u32 \<Rightarrow> nat \<Rightarrow> u32" where
  "left_rotate v bits = push_bit bits v OR drop_bit (32 - bits) v"

definition block_word :: "u8 list \<Rightarrow> nat \<Rightarrow> u32" where
  "block_word data i = push_bit 24 (ucast (data ! (i * 4))) OR push_bit 16 (ucast (data ! (i * 4 + 1))) OR
     push_bit 8 (ucast (data ! (i * 4 + 2))) OR ucast (data ! (i * 4 + 3))"

text \<open>The schedule array \<open>w\<close>: sixteen words of the block, then sixty-four computed from earlier ones.\<close>

definition schedule_step :: "nat \<Rightarrow> u32 list \<Rightarrow> u32 list" where
  "schedule_step i w = w @ [left_rotate (w ! (i - 3) XOR w ! (i - 8) XOR w ! (i - 14) XOR w ! (i - 16)) 1]"

definition schedule :: "u8 list \<Rightarrow> u32 list" where
  "schedule data = fold schedule_step [16..<80] (map (block_word data) [0..<16])"

definition round_f :: "nat \<Rightarrow> u32 \<Rightarrow> u32 \<Rightarrow> u32 \<Rightarrow> u32" where
  "round_f i b c d =
     (if i < 20 then (b AND c) OR (NOT b AND d)
      else if i < 40 then b XOR c XOR d
      else if i < 60 then (b AND c) OR (b AND d) OR (c AND d)
      else b XOR c XOR d)"

definition round_k :: "nat \<Rightarrow> u32" where
  "round_k i =
     (if i < 20 then 0x5A827999 else if i < 40 then 0x6ED9EBA1
      else if i < 60 then 0x8F1BBCDC else 0xCA62C1D6)"

fun sha_round :: "u32 list \<Rightarrow> nat \<Rightarrow> u32 \<times> u32 \<times> u32 \<times> u32 \<times> u32 \<Rightarrow> u32 \<times> u32 \<times> u32 \<times> u32 \<times> u32" where
  "sha_round w i (a, b, c, d, e) =
     (left_rotate a 5 + round_f i b c d + e + round_k i + w ! i, a, left_rotate b 30, c, d)"

definition compress :: "u32 list \<Rightarrow> u8 list \<Rightarrow> u32 list" where
  "compress h data =
     (case fold (sha_round (schedule data)) [0..<80] (h ! 0, h ! 1, h ! 2, h ! 3, h ! 4) of
        (a, b, c, d, e) \<Rightarrow> [h ! 0 + a, h ! 1 + b, h ! 2 + c, h ! 3 + d, h ! 4 + e])"

definition process_block :: "sha1 \<Rightarrow> sha1" where
  "process_block s = s\<lparr>sha_h := compress (sha_h s) (sha_block s)\<rparr>"

text \<open>\<open>block[block_size++] = b\<close>.\<close>

definition put_byte :: "u8 \<Rightarrow> sha1 \<Rightarrow> sha1" where
  "put_byte b s = s\<lparr>sha_block := (sha_block s)[sha_size s := b], sha_size := sha_size s + 1\<rparr>"

definition copy_block :: "u8 list \<Rightarrow> nat \<Rightarrow> u8 list \<Rightarrow> u8 list" where
  "copy_block block at chunk = take at block @ chunk @ drop (at + length chunk) block"

text \<open>One round of the loop in \<open>update\<close>: fill the block, hash it when it is full.\<close>

definition fill_block :: "u8 list \<Rightarrow> sha1 \<Rightarrow> nat \<times> sha1" where
  "fill_block input s =
     (let copy = min (length input) (64 - sha_size s);
          s1 = s\<lparr>sha_block := copy_block (sha_block s) (sha_size s) (take copy input), sha_size := sha_size s + copy\<rparr>
      in (copy, if sha_size s1 = 64 then (process_block s1)\<lparr>sha_size := 0\<rparr> else s1))"

lemma fill_block_progress:
  "fill_block input s = (copy, t) \<Longrightarrow> input \<noteq> [] \<Longrightarrow> sha_size s < 64 \<Longrightarrow> 0 < copy \<and> copy \<le> length input"
  by (auto simp: fill_block_def Let_def)

text \<open>
  The loop of \<open>update\<close>. The code keeps \<open>block_size\<close> below 64 between calls; the guard on it stops
  the model where the code would loop without consuming input.
\<close>

function update_loop :: "u8 list \<Rightarrow> sha1 \<Rightarrow> sha1" where
  "update_loop input s =
     (if input = [] \<or> \<not> sha_size s < 64 then s
      else case fill_block input s of (copy, t) \<Rightarrow> update_loop (drop copy input) t)"
  by pat_completeness auto
termination
  by (relation "measure (\<lambda>(input, s). length input)")
    (auto dest!: fill_block_progress [OF sym])

declare update_loop.simps [simp del]

definition sha1_update :: "u8 list \<Rightarrow> sha1 \<Rightarrow> sha1" where
  "sha1_update data s = update_loop data (s\<lparr>sha_total := sha_total s + of_nat (length data)\<rparr>)"

definition pad_to :: "nat \<Rightarrow> sha1 \<Rightarrow> sha1" where
  "pad_to n s = fold (\<lambda>_. put_byte 0) [sha_size s..<n] s"

definition length_byte :: "u64 \<Rightarrow> nat \<Rightarrow> u8" where
  "length_byte total_bits i = ucast (drop_bit (i * 8) total_bits AND 0xFF)"

definition digest_bytes :: "u32 \<Rightarrow> u8 list" where
  "digest_bytes w = [ucast (drop_bit 24 w AND 0xFF), ucast (drop_bit 16 w AND 0xFF),
     ucast (drop_bit 8 w AND 0xFF), ucast (w AND 0xFF)]"

definition sha1_final :: "sha1 \<Rightarrow> u8 list" where
  "sha1_final s =
     (let total_bits = sha_total s * 8;
          s1 = put_byte 0x80 s;
          s2 = (if 56 < sha_size s1 then (process_block (pad_to 64 s1))\<lparr>sha_size := 0\<rparr> else s1);
          s3 = pad_to 56 s2;
          s4 = fold (\<lambda>i. put_byte (length_byte total_bits i)) (rev [0..<8]) s3
      in concat (map digest_bytes (sha_h (process_block s4))))"

end
