(* ===== verification/Sha1_Correct.thy ===== *)
theory Sha1_Correct
  imports Sha1
begin

text \<open>
  The incremental hash computes SHA-1 as FIPS 180-4 defines it on whole messages, however the
  message is cut into updates; Base64 can be decoded.
\<close>

unbundle bit_operations_syntax

subsection \<open>The standard's functions\<close>

fun fips_w :: "u8 list \<Rightarrow> nat \<Rightarrow> u32" where
  "fips_w block t =
     (if t < 16 then block_word block t
      else word_rotl 1 (fips_w block (t - 3) XOR fips_w block (t - 8) XOR fips_w block (t - 14) XOR fips_w block (t - 16)))"

declare fips_w.simps [simp del]

definition fips_f :: "nat \<Rightarrow> u32 \<Rightarrow> u32 \<Rightarrow> u32 \<Rightarrow> u32" where
  "fips_f t x y z =
     (if t < 20 then (x AND y) XOR (NOT x AND z)
      else if t < 40 then x XOR y XOR z
      else if t < 60 then (x AND y) XOR (x AND z) XOR (y AND z)
      else x XOR y XOR z)"

fun fips_round :: "u8 list \<Rightarrow> nat \<Rightarrow> u32 \<times> u32 \<times> u32 \<times> u32 \<times> u32 \<Rightarrow> u32 \<times> u32 \<times> u32 \<times> u32 \<times> u32" where
  "fips_round block t (a, b, c, d, e) =
     (word_rotl 5 a + fips_f t b c d + e + round_k t + fips_w block t, a, word_rotl 30 b, c, d)"

definition fips_block :: "u8 list \<Rightarrow> u32 list \<Rightarrow> u32 list" where
  "fips_block block h =
     (case fold (fips_round block) [0..<80] (h ! 0, h ! 1, h ! 2, h ! 3, h ! 4) of
        (a, b, c, d, e) \<Rightarrow> [h ! 0 + a, h ! 1 + b, h ! 2 + c, h ! 3 + d, h ! 4 + e])"

text \<open>Padding: one bit, zeros up to 448 modulo 512 bits, and the length in bits, big endian.\<close>

definition fips_length_bytes :: "nat \<Rightarrow> u8 list" where
  "fips_length_bytes n = map (\<lambda>i. of_nat (n div 256 ^ i)) (rev [0..<8])"

definition fips_pad :: "u8 list \<Rightarrow> u8 list" where
  "fips_pad m = m @ [0x80] @ replicate ((119 - length m mod 64) mod 64) 0 @ fips_length_bytes (8 * length m)"

definition fips_blocks :: "u8 list \<Rightarrow> u32 list" where
  "fips_blocks m = fold (\<lambda>i. fips_block (take 64 (drop (64 * i) m))) [0..<length m div 64] (sha_h sha1_new)"

definition fips_sha1 :: "u8 list \<Rightarrow> u8 list" where
  "fips_sha1 m = concat (map digest_bytes (fips_blocks (fips_pad m)))"

subsection \<open>One block\<close>

lemma left_rotate_rotl: "0 < n \<Longrightarrow> n < 32 \<Longrightarrow> left_rotate v n = word_rotl n v"
proof (rule bit_word_eqI)
  fix i assume n: "0 < n" "n < 32" and i: "i < LENGTH(32)"
  have rotl: "bit (word_rotl n v) i = bit v ((i + (32 - n)) mod 32)"
    using n i by (simp add: word_rotl_eq_word_rotr bit_word_rotr_iff)
  have shifts: "bit (left_rotate v n) i \<longleftrightarrow> n \<le> i \<and> bit v (i - n) \<or> bit v (32 - n + i)"
    using n i by (simp add: left_rotate_def bit_push_bit_iff bit_drop_bit_eq bit_or_iff)
  show "bit (left_rotate v n) i = bit (word_rotl n v) i"
  proof (cases "n \<le> i")
    case True
    then have "(i + (32 - n)) mod 32 = i - n" using n i by (simp add: mod_if)
    moreover have "\<not> bit v (32 - n + i)" using True n bit_imp_le_length [of v "32 - n + i"] by auto
    ultimately show ?thesis using True by (simp add: rotl shifts)
  next
    case False
    then have "(i + (32 - n)) mod 32 = 32 - n + i" using n i by simp
    then show ?thesis using False by (simp add: rotl shifts)
  qed
qed

lemma round_f_fips: "round_f t b c d = fips_f t b c d"
  unfolding round_f_def fips_f_def by (auto intro!: bit_word_eqI simp: bit_simps)

lemma schedule_prefix:
  "k \<le> 64 \<Longrightarrow> fold schedule_step [16..<16 + k] (map (block_word data) [0..<16]) = map (fips_w data) [0..<16 + k]"
proof (induction k)
  case 0
  show ?case by (simp add: fips_w.simps)
next
  case (Suc k)
  then have "fold schedule_step [16..<16 + Suc k] (map (block_word data) [0..<16]) =
      schedule_step (16 + k) (map (fips_w data) [0..<16 + k])" by (simp only: upt_Suc fold_append add_Suc_right) simp
  also have "\<dots> = map (fips_w data) [0..<16 + k] @ [fips_w data (16 + k)]"
    by (simp add: schedule_step_def left_rotate_rotl fips_w.simps [of data "16 + k"])
  finally show ?case by (simp only: upt_Suc add_Suc_right map_append list.map) simp
qed

lemma schedule_fips: "schedule data = map (fips_w data) [0..<80]"
  using schedule_prefix [of 64 data] by (simp add: schedule_def)

lemma sha_round_fips: "t < 80 \<Longrightarrow> sha_round (schedule data) t s = fips_round data t s"
  by (cases s) (simp add: schedule_fips round_f_fips left_rotate_rotl)

lemma compress_fips: "compress h data = fips_block data h"
proof -
  have "fold (sha_round (schedule data)) [0..<80] s = fold (fips_round data) [0..<80] s" for s
    by (intro fold_cong refl ext) (simp add: sha_round_fips)
  then show ?thesis by (simp only: compress_def fips_block_def)
qed

subsection \<open>The block buffer\<close>

text \<open>\<open>pending s p\<close>: the first bytes of the block buffer are \<open>p\<close> and nothing behind them counts.\<close>

definition pending :: "sha1 \<Rightarrow> u8 list \<Rightarrow> bool" where
  "pending s p \<longleftrightarrow> length (sha_block s) = 64 \<and> sha_size s = length p \<and> take (length p) (sha_block s) = p"

lemma pending_full: "pending s p \<Longrightarrow> length p = 64 \<Longrightarrow> sha_block s = p"
  by (auto simp: pending_def)

lemma put_byte_pending:
  assumes "pending s p" and "length p < 64"
  shows "pending (put_byte b s) (p @ [b])"
proof -
  have "take (Suc (length p)) ((sha_block s)[length p := b]) = take (length p) (sha_block s) @ [b]"
    using assms by (simp add: pending_def take_Suc_conv_app_nth)
  with assms show ?thesis by (simp add: put_byte_def pending_def)
qed

lemma put_byte_other [simp]: "sha_h (put_byte b s) = sha_h s" "sha_total (put_byte b s) = sha_total s"
  by (simp_all add: put_byte_def)

lemma put_bytes_pending:
  "pending s p \<Longrightarrow> length p + length bs \<le> 64 \<Longrightarrow>
   pending (fold put_byte bs s) (p @ bs) \<and> sha_h (fold put_byte bs s) = sha_h s \<and>
   sha_total (fold put_byte bs s) = sha_total s"
proof (induction bs arbitrary: s p)
  case (Cons b bs)
  from Cons.IH [OF put_byte_pending [OF Cons.prems(1), of b]] Cons.prems(2) show ?case by simp
qed simp

lemma pad_to_put_bytes: "pad_to n s = fold put_byte (replicate (n - sha_size s) 0) s"
proof -
  have "fold (\<lambda>_. put_byte 0) xs t = fold put_byte (replicate (length xs) 0) t" for xs :: "nat list" and t
    by (induction xs arbitrary: t) simp_all
  then show ?thesis by (simp add: pad_to_def)
qed

lemma process_pending:
  assumes "pending s p" and "length p = 64"
  shows "pending ((process_block s)\<lparr>sha_size := 0\<rparr>) [] \<and>
   sha_h ((process_block s)\<lparr>sha_size := 0\<rparr>) = fips_block p (sha_h s) \<and>
   sha_total ((process_block s)\<lparr>sha_size := 0\<rparr>) = sha_total s"
proof -
  have "sha_block s = p" using assms by (rule pending_full)
  then show ?thesis using assms(2) by (simp add: process_block_def pending_def compress_fips)
qed

subsection \<open>The blocks of a growing message\<close>

definition tail_of :: "u8 list \<Rightarrow> u8 list" where
  "tail_of m = drop (64 * (length m div 64)) m"

lemma length_tail_of [simp]: "length (tail_of m) = length m mod 64"
  by (simp add: tail_of_def minus_mult_div_eq_mod)

lemma same_blocks:
  assumes "k \<le> length m div 64"
  shows "fold (\<lambda>i. fips_block (take 64 (drop (64 * i) (m @ c)))) [0..<k] h =
    fold (\<lambda>i. fips_block (take 64 (drop (64 * i) m))) [0..<k] h"
proof (rule fold_cong)
  fix i assume "i \<in> set [0..<k]"
  then have "64 * i + 64 \<le> length m" using assms by simp
  then show "fips_block (take 64 (drop (64 * i) (m @ c))) = fips_block (take 64 (drop (64 * i) m))" by simp
qed simp_all

lemma append_short:
  assumes "length m mod 64 + length c < 64"
  shows "fips_blocks (m @ c) = fips_blocks m" and "tail_of (m @ c) = tail_of m @ c"
proof -
  have "length m + length c = 64 * (length m div 64) + (length m mod 64 + length c)" by simp
  then have "(length m + length c) div 64 = length m div 64"
    using assms by (simp only: div_mult_self4)
  then show "fips_blocks (m @ c) = fips_blocks m" and "tail_of (m @ c) = tail_of m @ c"
    by (simp_all only: fips_blocks_def same_blocks [OF order_refl] length_append) (simp add: tail_of_def)
qed

lemma append_full:
  assumes "length m mod 64 + length c = 64"
  shows "fips_blocks (m @ c) = fips_block (tail_of m @ c) (fips_blocks m)" and "tail_of (m @ c) = []"
proof -
  define k where "k = length m div 64"
  have "length m + length c = 64 * k + (length m mod 64 + length c)" by (simp add: k_def)
  then have len: "length m + length c = 64 * Suc k" using assms by simp
  have "64 * k \<le> length m" by (simp add: k_def)
  then have "drop (64 * k) (m @ c) = tail_of m @ c" by (simp add: tail_of_def k_def)
  moreover have "length (tail_of m @ c) = 64" using assms by simp
  ultimately have "take 64 (drop (64 * k) (m @ c)) = tail_of m @ c" by (metis order_refl take_all)
  moreover have "fold (\<lambda>i. fips_block (take 64 (drop (64 * i) (m @ c)))) [0..<k] h =
      fold (\<lambda>i. fips_block (take 64 (drop (64 * i) m))) [0..<k] h" for h
    by (rule same_blocks) (simp add: k_def)
  ultimately show "fips_blocks (m @ c) = fips_block (tail_of m @ c) (fips_blocks m)"
    by (simp add: fips_blocks_def len k_def [symmetric])
  have "64 * (length (m @ c) div 64) = length (m @ c)" using len by (simp only: length_append) simp
  then show "tail_of (m @ c) = []" by (simp only: tail_of_def drop_all order_refl)
qed

subsection \<open>Refinement of the whole-message hash\<close>

definition sha_abs :: "u8 list \<Rightarrow> sha1 \<Rightarrow> bool" where
  "sha_abs m s \<longleftrightarrow> pending s (tail_of m) \<and> sha_h s = fips_blocks m"

lemma copy_block_pending:
  assumes "pending s p" and "length p + length c \<le> 64"
  shows "pending (s\<lparr>sha_block := copy_block (sha_block s) (sha_size s) c, sha_size := sha_size s + length c\<rparr>) (p @ c)"
proof -
  have p: "length (sha_block s) = 64" "sha_size s = length p" "take (length p) (sha_block s) = p"
    using assms(1) by (auto simp: pending_def)
  have "copy_block (sha_block s) (sha_size s) c = (p @ c) @ drop (length p + length c) (sha_block s)"
    using p by (simp add: copy_block_def)
  then show ?thesis using p assms(2) by (simp add: pending_def)
qed

lemma fill_block_abs:
  assumes "sha_abs m s" and "fill_block input s = (copy, t)"
  shows "sha_abs (m @ take copy input) t \<and> sha_total t = sha_total s"
proof -
  define c where "c = take copy input"
  define s1 where "s1 = s\<lparr>sha_block := copy_block (sha_block s) (sha_size s) c, sha_size := sha_size s + length c\<rparr>"
  have s: "pending s (tail_of m)" "sha_h s = fips_blocks m" "sha_size s = length m mod 64"
    using assms(1) by (auto simp: sha_abs_def pending_def)
  have copy: "copy = min (length input) (64 - sha_size s)" "length c = copy"
    using assms(2) by (auto simp: fill_block_def Let_def c_def)
  then have t: "t = (if sha_size s1 = 64 then (process_block s1)\<lparr>sha_size := 0\<rparr> else s1)"
    using assms(2) by (auto simp: fill_block_def Let_def s1_def c_def)
  have "length m mod 64 \<le> 64" by simp
  then have len: "length m mod 64 + length c \<le> 64" using copy s(3) by linarith
  then have pend: "pending s1 (tail_of m @ c)" using s(1) by (simp add: s1_def copy_block_pending)
  have size: "sha_size s1 = length m mod 64 + length c" using s(3) by (simp add: s1_def)
  have same: "sha_h s1 = fips_blocks m" "sha_total s1 = sha_total s" using s(2) by (simp_all add: s1_def)
  show ?thesis
  proof (cases "sha_size s1 = 64")
    case True
    then have full: "length m mod 64 + length c = 64" using size by simp
    then have "length (tail_of m @ c) = 64" by simp
    from process_pending [OF pend this] show ?thesis
      using True t same append_full [OF full] by (simp add: sha_abs_def c_def)
  next
    case False
    then have "length m mod 64 + length c < 64" using size len by simp
    from append_short [OF this] show ?thesis using False t same pend by (simp add: sha_abs_def c_def)
  qed
qed

lemma update_loop_abs:
  "sha_abs m s \<Longrightarrow> sha_abs (m @ input) (update_loop input s) \<and> sha_total (update_loop input s) = sha_total s"
proof (induction input s arbitrary: m rule: update_loop.induct)
  case (1 input s)
  have size: "sha_size s < 64" using 1(2) by (auto simp: sha_abs_def pending_def)
  show ?case
  proof (cases "input = []")
    case True
    with 1(2) show ?thesis by (simp add: update_loop.simps [of "[]"])
  next
    case False
    obtain copy t where f: "fill_block input s = (copy, t)" by fastforce
    have step: "sha_abs (m @ take copy input) t" "sha_total t = sha_total s"
      using fill_block_abs [OF 1(2) f] by simp_all
    have "update_loop input s = update_loop (drop copy input) t"
      using False size f by (simp add: update_loop.simps [of input])
    moreover have "sha_abs ((m @ take copy input) @ drop copy input) (update_loop (drop copy input) t) \<and>
        sha_total (update_loop (drop copy input) t) = sha_total t"
      using 1(1) [OF _ f [symmetric] step(1)] False size by simp
    ultimately show ?thesis using step(2) by simp
  qed
qed

lemma sha1_update_abs:
  assumes "sha_abs m s" and "sha_total s = of_nat (length m)"
  shows "sha_abs (m @ data) (sha1_update data s) \<and> sha_total (sha1_update data s) = of_nat (length (m @ data))"
proof -
  have "sha_abs m (s\<lparr>sha_total := sha_total s + of_nat (length data)\<rparr>)"
    using assms(1) by (simp add: sha_abs_def pending_def)
  from update_loop_abs [OF this, of data] show ?thesis using assms(2) by (simp add: sha1_update_def)
qed

lemma sha1_updates_abs:
  "sha_abs m s \<Longrightarrow> sha_total s = of_nat (length m) \<Longrightarrow>
   sha_abs (m @ concat parts) (fold sha1_update parts s) \<and>
   sha_total (fold sha1_update parts s) = of_nat (length (m @ concat parts))"
proof (induction parts arbitrary: m s)
  case (Cons part parts)
  with Cons.IH [of "m @ part" "sha1_update part s"] sha1_update_abs [OF Cons.prems, of part] show ?case by simp
qed simp

lemma sha1_new_abs: "sha_abs [] sha1_new" "sha_total sha1_new = of_nat (length [])"
  by (simp_all add: sha_abs_def pending_def tail_of_def fips_blocks_def sha1_new_def)

subsection \<open>Padding\<close>

lemma length_byte_fips: "i < 8 \<Longrightarrow> length_byte (of_nat n) i = of_nat (n div 256 ^ i)"
proof (rule bit_word_eqI)
  fix j assume i: "i < 8" and j: "j < LENGTH(8)"
  moreover have "n div 256 ^ i = drop_bit (8 * i) n"
    by (simp add: drop_bit_eq_div power_mult)
  moreover have m: "(0xFF :: u64) = mask 8" by (simp add: mask_eq_exp_minus_1)
  have "bit (0xFF :: u64) j" unfolding m using j by (simp only: bit_mask_iff) simp
  ultimately show "bit (length_byte (of_nat n) i) j = bit (of_nat (n div 256 ^ i) :: u8) j"
    by (auto simp: length_byte_def bit_simps add.commute mult.commute)
qed

lemma length_bytes_fold:
  "fold (\<lambda>i. put_byte (length_byte (of_nat n) i)) (rev [0..<8]) s = fold put_byte (fips_length_bytes n) s"
proof -
  have "fold put_byte (map (\<lambda>i. length_byte (of_nat n) i) (rev [0..<8])) s = fold put_byte (fips_length_bytes n) s"
    by (intro fold_cong refl) (auto simp: fips_length_bytes_def length_byte_fips)
  then show ?thesis by (simp add: fold_map comp_def)
qed

lemma process_block_h [simp]: "sha_h (process_block s) = compress (sha_h s) (sha_block s)"
  by (simp add: process_block_def)

lemma finish_block:
  assumes "pending s p" and "length p + length bs = 64"
  shows "sha_h (process_block (fold put_byte bs s)) = fips_block (p @ bs) (sha_h s)"
proof -
  have "pending (fold put_byte bs s) (p @ bs)" "sha_h (fold put_byte bs s) = sha_h s"
    using put_bytes_pending [OF assms(1), of bs] assms(2) by simp_all
  with assms(2) show ?thesis by (simp add: compress_fips pending_full)
qed

lemma sha1_final_abs:
  assumes "sha_abs m s" and "sha_total s = of_nat (length m)"
  shows "sha1_final s = fips_sha1 m"
proof -
  define r where "r = length m mod 64"
  define len where "len = fips_length_bytes (8 * length m)"
  have r: "r < 64" by (simp add: r_def)
  have lens: "length len = 8" by (simp add: len_def fips_length_bytes_def)
  have s: "pending s (tail_of m)" "sha_h s = fips_blocks m" using assms(1) by (auto simp: sha_abs_def)
  define s1 where "s1 = put_byte 0x80 s"
  have s1: "pending s1 (tail_of m @ [0x80])" "sha_h s1 = fips_blocks m" "sha_size s1 = r + 1"
    using put_byte_pending [OF s(1)] s by (simp_all add: s1_def r_def) (simp add: put_byte_def pending_def)
  have bits: "sha_total s * 8 = of_nat (8 * length m)" using assms(2) by simp
  have digest: "sha1_final s = concat (map digest_bytes (sha_h (process_block (fold put_byte len (pad_to 56
      (if 56 < sha_size s1 then (process_block (pad_to 64 s1))\<lparr>sha_size := 0\<rparr> else s1))))))"
    unfolding sha1_final_def Let_def bits length_bytes_fold by (simp only: s1_def len_def)
  show ?thesis
  proof (cases "r < 56")
    case True
    have tail: "length m mod 64 + length ([0x80] @ replicate (55 - r) 0 @ len) = 64"
      using True lens by (simp add: r_def)
    have "pad_to 56 s1 = fold put_byte (replicate (55 - r) 0) s1" by (simp add: pad_to_put_bytes s1(3))
    then have "fold put_byte len (pad_to 56 s1) = fold put_byte (replicate (55 - r) 0 @ len) s1" by simp
    then have "sha_h (process_block (fold put_byte len (pad_to 56 s1))) =
        fips_block (tail_of m @ [0x80] @ replicate (55 - r) 0 @ len) (fips_blocks m)"
      using finish_block [OF s1(1), of "replicate (55 - r) 0 @ len"] s1(2) tail by simp
    also have "\<dots> = fips_blocks (m @ [0x80] @ replicate (55 - r) 0 @ len)"
      using append_full(1) [OF tail] by simp
    also have "55 - r = (119 - r) mod 64" using True by (simp add: mod_if)
    finally show ?thesis
      using True by (simp add: digest s1(3) fips_sha1_def fips_pad_def r_def [symmetric] len_def [symmetric])
  next
    case False
    define m1 where "m1 = m @ [0x80] @ replicate (63 - r) 0"
    define s2 where "s2 = (process_block (pad_to 64 s1))\<lparr>sha_size := 0\<rparr>"
    have full: "length m mod 64 + length ([0x80] @ replicate (63 - r) (0 :: u8)) = 64"
      using r by (simp add: r_def)
    have "pad_to 64 s1 = fold put_byte (replicate (63 - r) 0) s1" by (simp add: pad_to_put_bytes s1(3))
    then have "pending (pad_to 64 s1) (tail_of m @ [0x80] @ replicate (63 - r) 0)" "sha_h (pad_to 64 s1) = fips_blocks m"
      using put_bytes_pending [OF s1(1), of "replicate (63 - r) 0"] r s1(2) by (simp_all add: r_def)
    then have s2: "pending s2 []" "sha_h s2 = fips_blocks m1"
      using process_pending [of "pad_to 64 s1"] full append_full(1) [OF full] by (simp_all add: s2_def m1_def)
    have m1: "tail_of m1 = []" using append_full(2) [OF full] by (simp add: m1_def)
    then have m1_len: "length m1 mod 64 = 0" by (metis length_tail_of list.size(3))
    then have tail: "length m1 mod 64 + length (replicate 56 0 @ len) = 64" using lens by simp
    have "pad_to 56 s2 = fold put_byte (replicate 56 0) s2"
      using s2(1) by (simp add: pad_to_put_bytes pending_def)
    then have "fold put_byte len (pad_to 56 s2) = fold put_byte (replicate 56 0 @ len) s2" by simp
    then have "sha_h (process_block (fold put_byte len (pad_to 56 s2))) = fips_block (replicate 56 0 @ len) (fips_blocks m1)"
      using finish_block [OF s2(1), of "replicate 56 0 @ len"] s2(2) lens by simp
    also have "\<dots> = fips_blocks (m1 @ replicate 56 0 @ len)"
      using append_full(1) [OF tail] m1 by simp
    also have "m1 @ replicate 56 0 @ len = m @ [0x80] @ replicate ((119 - r) mod 64) 0 @ len"
    proof -
      have "(119 - r) mod 64 = (63 - r) + 56" using False r by (simp add: mod_if)
      then have "replicate ((119 - r) mod 64) (0 :: u8) = replicate (63 - r) 0 @ replicate 56 0"
        by (simp only: replicate_add)
      then show ?thesis by (simp only: m1_def append_assoc)
    qed
    finally show ?thesis
      using False by (simp add: digest s1(3) s2_def [symmetric] fips_sha1_def fips_pad_def r_def [symmetric] len_def [symmetric])
  qed
qed

text \<open>
  C25: Hashing a message in any number of updates, cut anywhere, gives the SHA-1 digest FIPS 180-4
  defines for the whole message (padding, schedule, round functions and rotations as the standard
  states them).\<close>
theorem sha1_streaming_correct:
  "sha1_final (fold sha1_update parts sha1_new) = fips_sha1 (concat parts)"
  using sha1_updates_abs [OF sha1_new_abs, of parts] by (simp add: sha1_final_abs)

end
