(* ===== verification/Ws_Handshake.thy ===== *)
theory Ws_Handshake
  imports Sha1 Request
begin

text \<open>
  The opening handshake of WebSocket (src/src/websocket/websocket_handshake.cpp): the accept key,
  the token lists and the test for an upgrade request. The 16 bytes \<open>std::random_device\<close> delivers
  are the argument of \<open>websocket_generate_key\<close>.
\<close>

definition k_websocket_magic :: string where
  "k_websocket_magic = ''258EAFA5-E914-47DA-95CA-C5AB0DC85B11''"

definition websocket_accept_key :: "string \<Rightarrow> string" where
  "websocket_accept_key key =
     base64_encode (sha1_final (sha1_update (map u8_of_char (key @ k_websocket_magic)) sha1_new))"

definition websocket_generate_key :: "u32 list \<Rightarrow> string" where
  "websocket_generate_key rd = base64_encode (map (\<lambda>i. ucast (rd ! i)) [0..<16])"

function websocket_split_tokens :: "string \<Rightarrow> string list" where
  "websocket_split_tokens value =
     (if value = [] then []
      else
        let comma = find_char CHR '','' value;
            part = trim_ows (case comma of None \<Rightarrow> value | Some c \<Rightarrow> take c value);
            found = (if part \<noteq> [] then [part] else [])
        in case comma of
             None \<Rightarrow> found
           | Some c \<Rightarrow> found @ websocket_split_tokens (drop (c + 1) value))"
  by pat_completeness auto
termination
  by (relation "measure length") auto

declare websocket_split_tokens.simps [simp del]

definition websocket_header_has_token :: "string \<Rightarrow> string \<Rightarrow> bool" where
  "websocket_header_has_token value token \<longleftrightarrow>
     list_ex (\<lambda>part. equals_ignore_case part token) (websocket_split_tokens value)"

definition websocket_is_upgrade_request :: "http_request \<Rightarrow> bool" where
  "websocket_is_upgrade_request request \<longleftrightarrow>
     method_string request = ''GET'' \<and> r_version request = V_http11 \<and>
     websocket_header_has_token (request_header ''Connection'' request) ''Upgrade'' \<and>
     equals_ignore_case (request_header ''Upgrade'' request) ''websocket'' \<and>
     request_header ''Sec-WebSocket-Version'' request = ''13'' \<and>
     request_header ''Sec-WebSocket-Key'' request \<noteq> []"

definition websocket_requested_subprotocols :: "http_request \<Rightarrow> string list" where
  "websocket_requested_subprotocols request =
     websocket_split_tokens (request_header ''Sec-WebSocket-Protocol'' request)"

definition websocket_validate_client_key :: "string \<Rightarrow> string option" where
  "websocket_validate_client_key key0 =
     (let key = trim_ows key0 in if key = [] then None else Some (websocket_accept_key key))"

end
