(* ===== verification/Handshake_Laws.thy ===== *)
theory Handshake_Laws
  imports Sha1_Correct Ws_Handshake
begin

text \<open>Base64 decodes, the accept key is the one RFC 6455 defines, and token lists split as written.\<close>

unbundle bit_operations_syntax

subsection \<open>A reference decoder for Base64 (RFC 4648)\<close>

definition base64_value :: "char \<Rightarrow> nat option" where
  "base64_value c = index_of ((=) c) k_base64"

definition sextets :: "nat \<Rightarrow> nat \<Rightarrow> nat \<Rightarrow> nat \<Rightarrow> nat" where
  "sextets p q r s = ((p * 64 + q) * 64 + r) * 64 + s"

fun base64_decode :: "string \<Rightarrow> u8 list option" where
  "base64_decode [] = Some []"
| "base64_decode (w # x # y # z # rest) =
     (case (base64_value w, base64_value x) of
        (Some p, Some q) \<Rightarrow>
          if rest = [] \<and> z = CHR ''='' then
            if y = CHR ''='' then Some [of_nat (sextets p q 0 0 div 65536)]
            else (case base64_value y of
                    Some r \<Rightarrow> Some [of_nat (sextets p q r 0 div 65536), of_nat (sextets p q r 0 div 256)]
                  | None \<Rightarrow> None)
          else (case (base64_value y, base64_value z, base64_decode rest) of
                  (Some r, Some s, Some bs) \<Rightarrow>
                    Some (of_nat (sextets p q r s div 65536) # of_nat (sextets p q r s div 256) #
                          of_nat (sextets p q r s) # bs)
                | _ \<Rightarrow> None)
      | _ \<Rightarrow> None)"
| "base64_decode _ = None"

lemma distinct_base64: "distinct k_base64" and length_base64: "length k_base64 = 64"
  by (simp_all add: k_base64_def)

lemma index_of_distinct: "distinct xs \<Longrightarrow> i < length xs \<Longrightarrow> index_of ((=) (xs ! i)) xs = Some i"
  by (auto simp: index_of_Some nth_eq_iff_index_eq)

lemma base64_value_char: "base64_value (base64_char v) = Some (unat v mod 64)"
proof -
  have m: "(0x3F :: u32) = mask 6" by (simp add: mask_eq_exp_minus_1)
  have "v AND 0x3F = take_bit 6 v" unfolding m by (rule take_bit_eq_mask [symmetric])
  then have "unat (v AND 0x3F) = take_bit 6 (unat v)" by (simp only: unsigned_take_bit_eq)
  then have "unat (v AND 0x3F) = unat v mod 64" by (simp add: take_bit_eq_mod)
  then show ?thesis
    by (simp add: base64_value_def base64_char_def index_of_distinct distinct_base64 length_base64)
qed

lemma base64_char_not_pad: "base64_char v \<noteq> CHR ''=''"
proof
  assume "base64_char v = CHR ''=''"
  then have "base64_value (CHR ''='') = Some (unat v mod 64)" by (metis base64_value_char)
  moreover have "base64_value (CHR ''='') = None" by (simp add: base64_value_def k_base64_def)
  ultimately show False by simp
qed

lemma u8_bits: "bit (ucast (b :: u8) :: u32) n \<Longrightarrow> n < 8"
  using bit_imp_le_length [of b n] by (auto simp: bit_simps)

lemma unat_triple: "unat (base64_triple a b c) = (unat a * 256 + unat b) * 256 + unat c"
proof -
  have "base64_triple a b c = push_bit 16 (ucast a) + push_bit 8 (ucast b) + ucast c"
  proof -
    have "push_bit 8 (ucast b :: u32) + ucast c = push_bit 8 (ucast b) OR ucast c"
      by (rule disjunctive_add) (auto simp: bit_push_bit_iff dest: u8_bits)
    moreover have "push_bit 16 (ucast a :: u32) + (push_bit 8 (ucast b) OR ucast c) =
        push_bit 16 (ucast a) OR (push_bit 8 (ucast b) OR ucast c)"
      by (rule disjunctive_add) (auto simp: bit_push_bit_iff bit_or_iff dest!: u8_bits)
    ultimately show ?thesis by (simp only: base64_triple_def add.assoc or.assoc)
  qed
  also have "\<dots> = of_nat ((unat a * 256 + unat b) * 256 + unat c)"
    by (simp add: push_bit_eq_mult algebra_simps)
  finally have triple: "base64_triple a b c = of_nat ((unat a * 256 + unat b) * 256 + unat c)" .
  have "unat a < 2 ^ LENGTH(8)" "unat b < 2 ^ LENGTH(8)" "unat c < 2 ^ LENGTH(8)" by (rule unsigned_less)+
  then have "(unat a * 256 + unat b) * 256 + unat c < 2 ^ LENGTH(32)" by simp
  then show ?thesis by (simp only: triple unsigned_of_nat take_bit_nat_eq_self of_nat_id)
qed

lemma sextets_join: "sextets (n div 262144 mod 64) (n div 4096 mod 64) (n div 64 mod 64) (n mod 64) = n mod 16777216"
  using mod_mult2_eq [of n 64 64] mod_mult2_eq [of n 4096 64] mod_mult2_eq [of n 262144 64]
  by (simp add: sextets_def algebra_simps)

lemma triple_small: "unat (base64_triple a b c) < 16777216"
proof -
  have "unat a < 2 ^ LENGTH(8)" "unat b < 2 ^ LENGTH(8)" "unat c < 2 ^ LENGTH(8)" by (rule unsigned_less)+
  then show ?thesis by (simp add: unat_triple)
qed

lemma triple_values:
  "base64_value (base64_char (drop_bit 18 (base64_triple a b c))) = Some (unat (base64_triple a b c) div 262144 mod 64)"
  "base64_value (base64_char (drop_bit 12 (base64_triple a b c))) = Some (unat (base64_triple a b c) div 4096 mod 64)"
  "base64_value (base64_char (drop_bit 6 (base64_triple a b c))) = Some (unat (base64_triple a b c) div 64 mod 64)"
  "base64_value (base64_char (base64_triple a b c)) = Some (unat (base64_triple a b c) mod 64)"
proof -
  have shift: "unat (drop_bit k w) = unat w div 2 ^ k" for k and w :: u32
    unfolding unat_drop_bit_eq by (rule drop_bit_eq_div)
  show "base64_value (base64_char (drop_bit 18 (base64_triple a b c))) = Some (unat (base64_triple a b c) div 262144 mod 64)"
    "base64_value (base64_char (drop_bit 12 (base64_triple a b c))) = Some (unat (base64_triple a b c) div 4096 mod 64)"
    "base64_value (base64_char (drop_bit 6 (base64_triple a b c))) = Some (unat (base64_triple a b c) div 64 mod 64)"
    "base64_value (base64_char (base64_triple a b c)) = Some (unat (base64_triple a b c) mod 64)"
    by (simp_all only: base64_value_char shift) simp_all
qed

lemma triple_bytes:
  fixes a b c :: u8
  defines "n \<equiv> unat (base64_triple a b c)"
  shows "of_nat (n div 65536) = a" "of_nat (n div 256) = b" "of_nat n = c"
proof -
  have less: "unat b < 2 ^ LENGTH(8)" "unat c < 2 ^ LENGTH(8)" by (rule unsigned_less)+
  have n: "n = (unat a * 256 + unat b) * 256 + unat c" by (simp add: n_def unat_triple)
  have "n div 256 = unat a * 256 + unat b" using less by (simp add: n)
  moreover from this have "n div 65536 = unat a" using less by (simp add: div_mult2_eq [of n 256 256, simplified])
  moreover have byte: "(of_nat (x * 256 + unat w) :: u8) = w" for x and w :: u8
  proof -
    have "(256 :: u8) = 0" by simp
    then show ?thesis by (simp only: of_nat_add of_nat_mult of_nat_numeral mult_zero_right add_0) simp
  qed
  ultimately show "of_nat (n div 65536) = a" "of_nat (n div 256) = b" "of_nat n = c"
    by (simp_all only: byte n) simp
qed

text \<open>The sextets read back from a group of bytes, for full and for padded groups.\<close>

lemma join_triple:
  fixes a b c :: u8
  defines "n \<equiv> unat (base64_triple a b c)"
  shows "sextets (n div 262144 mod 64) (n div 4096 mod 64) (n div 64 mod 64) (n mod 64) = n"
  using sextets_join [of n] mod_less [OF triple_small [of a b c]] by (simp only: n_def)

lemma join_two:
  fixes a b :: u8
  defines "n \<equiv> unat (base64_triple a b 0)"
  shows "sextets (n div 262144 mod 64) (n div 4096 mod 64) (n div 64 mod 64) 0 = n"
proof -
  have n: "n = (unat a * 256 + unat b) * 4 * 64" by (simp add: n_def unat_triple)
  have "n mod 64 = 0" unfolding n by simp
  then show ?thesis using join_triple [of a b 0] by (simp add: n_def)
qed

lemma join_one:
  fixes a :: u8
  defines "n \<equiv> unat (base64_triple a 0 0)"
  shows "sextets (n div 262144 mod 64) (n div 4096 mod 64) 0 0 = n"
proof -
  have n: "n = unat a * 16 * 4096" by (simp add: n_def unat_triple)
  have "n div 64 = unat a * 16 * 64" unfolding n by simp
  then have "n mod 64 = 0" "n div 64 mod 64 = 0" unfolding n by simp_all
  then show ?thesis using join_triple [of a 0 0] by (simp add: n_def)
qed

lemma base64_encode_Nil_iff [simp]: "base64_encode bs = [] \<longleftrightarrow> bs = []"
  by (cases bs rule: base64_encode.cases) (simp_all add: Let_def)

lemma base64_decodes:
  "base64_decode (base64_encode bs) = Some bs \<and> length (base64_encode bs) = 4 * ((length bs + 2) div 3)"
proof (induction bs rule: base64_encode.induct)
  case (2 a)
  have "of_nat (unat (base64_triple a 0 0) div 65536) = a" by (rule triple_bytes)
  then show ?case by (simp add: Let_def triple_values join_one)
next
  case (3 a b)
  have "of_nat (unat (base64_triple a b 0) div 65536) = a" "of_nat (unat (base64_triple a b 0) div 256) = b"
    by (rule triple_bytes)+
  then show ?case by (simp add: Let_def triple_values join_two base64_char_not_pad)
next
  case (4 a b c rest)
  have "ucast (base64_triple a b c) = c" using triple_bytes(3) [of a b c] by simp
  moreover have "(length (a # b # c # rest) + 2) div 3 = Suc ((length rest + 2) div 3)" by simp
  ultimately show ?case using 4 by (simp add: Let_def triple_values join_triple triple_bytes base64_char_not_pad)
qed simp

text \<open>
  Base64 loses nothing: the RFC 4648 decoder reads every encoded byte string back, the text
  has four characters for each started group of three bytes.\<close>
theorem base64_roundtrip:
  "base64_decode (base64_encode bs) = Some bs \<and> length (base64_encode bs) = 4 * ((length bs + 2) div 3)"
  by (rule base64_decodes)

lemma length_fips_sha1: "length (fips_sha1 m) = 20"
proof -
  have block: "length (fips_block b h) = 5" for b h
    by (simp add: fips_block_def split: prod.splits)
  have "length (fips_blocks m) = 5" for m
  proof (cases "length m div 64")
    case 0
    then show ?thesis by (simp add: fips_blocks_def sha1_new_def)
  qed (simp add: fips_blocks_def block)
  moreover have "length (concat (map digest_bytes ws)) = 4 * length ws" for ws
    by (induction ws) (simp_all add: digest_bytes_def)
  ultimately show ?thesis by (simp add: fips_sha1_def)
qed

text \<open>
  The accept key is the one RFC 6455 prescribes: the 28 characters of the Base64 form of the
  20-byte SHA-1 digest of the client's key followed by the protocol's GUID.\<close>
theorem accept_key_rfc6455:
  "base64_decode (websocket_accept_key key) =
     Some (fips_sha1 (map u8_of_char (key @ ''258EAFA5-E914-47DA-95CA-C5AB0DC85B11''))) \<and>
   length (websocket_accept_key key) = 28"
proof -
  have "sha1_final (sha1_update data sha1_new) = fips_sha1 data" for data
    using sha1_updates_abs [OF sha1_new_abs, of "[data]"] by (simp add: sha1_final_abs)
  then have "websocket_accept_key key = base64_encode (fips_sha1 (map u8_of_char (key @ k_websocket_magic)))"
    by (simp add: websocket_accept_key_def)
  then show ?thesis
    using base64_decodes by (simp add: k_websocket_magic_def length_fips_sha1)
qed
end
