(* ===== verification/Content_Type.thy ===== *)
theory Content_Type
  imports Prelude
begin

text \<open>
  The table of media types (src/src/http/content_type.cpp) and its lookups by type, by the value of a
  Content-Type header, by file suffix and by path.
\<close>

text \<open>The enumerators, grouped by the hundreds the header numbers them with.\<close>

datatype text_type =
  Text_plain | Text_html | Text_css | Text_csv | Text_markdown | Text_event_stream

datatype application_type =
  Application_javascript | Application_json | Application_xml | Application_urlencoded |
  Application_octet_stream | Application_zip | Application_gzip | Application_7z | Application_rar |
  Application_pdf | Application_rtf | Application_grpc | Application_wasm | Application_jar |
  Application_xhtml | Application_atom | Application_rss | Application_word | Application_excel |
  Application_powerpoint | Application_eot | Application_m3u8 | Application_docx | Application_xlsx |
  Application_pptx

datatype image_type =
  Image_jpeg | Image_png | Image_gif | Image_ico | Image_bmp | Image_svg | Image_tiff | Image_webp

datatype video_type =
  Video_mp4 | Video_flv | Video_m4v | Video_mng | Video_ts | Video_mpeg | Video_webm | Video_mov |
  Video_3gpp | Video_avi | Video_wmv | Video_asf

datatype audio_type =
  Audio_mp3 | Audio_ogg | Audio_m4a | Audio_aac | Audio_pcma | Audio_opus

datatype font_type =
  Font_ttf | Font_otf | Font_woff | Font_woff2

datatype content_type =
  CT_none | CT_text text_type | CT_application application_type | CT_multipart_form_data
  | CT_image image_type | CT_video video_type | CT_audio audio_type | CT_font font_type | CT_undefined

text \<open>
  An entry is the type, its MIME name and its file suffix. The array is declared with 65 elements and
  62 initialisers, so the last three are value-initialised.\<close>

type_synonym content_type_info = "content_type \<times> string \<times> string"

definition k_content_types :: "content_type_info list" where
  "k_content_types =
    [
     (CT_text Text_plain, ''text/plain'', ''txt''),
     (CT_text Text_html, ''text/html'', ''html''),
     (CT_text Text_css, ''text/css'', ''css''),
     (CT_text Text_csv, ''text/csv'', ''csv''),
     (CT_text Text_markdown, ''text/markdown'', ''md''),
     (CT_text Text_event_stream, ''text/event-stream'', ''sse''),
     (CT_application Application_javascript, ''application/javascript'', ''js''),
     (CT_application Application_json, ''application/json'', ''json''),
     (CT_application Application_xml, ''application/xml'', ''xml''),
     (CT_application Application_urlencoded, ''application/x-www-form-urlencoded'', ''kv''),
     (CT_application Application_octet_stream, ''application/octet-stream'', ''bin''),
     (CT_application Application_zip, ''application/zip'', ''zip''),
     (CT_application Application_gzip, ''application/gzip'', ''gzip''),
     (CT_application Application_7z, ''application/x-7z-compressed'', ''7z''),
     (CT_application Application_rar, ''application/x-rar-compressed'', ''rar''),
     (CT_application Application_pdf, ''application/pdf'', ''pdf''),
     (CT_application Application_rtf, ''application/rtf'', ''rtf''),
     (CT_application Application_grpc, ''application/grpc'', ''grpc''),
     (CT_application Application_wasm, ''application/wasm'', ''wasm''),
     (CT_application Application_jar, ''application/java-archive'', ''jar''),
     (CT_application Application_xhtml, ''application/xhtml+xml'', ''xhtml''),
     (CT_application Application_atom, ''application/atom+xml'', ''atom''),
     (CT_application Application_rss, ''application/rss+xml'', ''rss''),
     (CT_application Application_word, ''application/msword'', ''doc''),
     (CT_application Application_excel, ''application/vnd.ms-excel'', ''xls''),
     (CT_application Application_powerpoint, ''application/vnd.ms-powerpoint'', ''ppt''),
     (CT_application Application_eot, ''application/vnd.ms-fontobject'', ''eot''),
     (CT_application Application_m3u8, ''application/vnd.apple.mpegurl'', ''m3u8''),
     (CT_application Application_docx, ''application/vnd.openxmlformats-officedocument.wordprocessingml.document'', ''docx''),
     (CT_application Application_xlsx, ''application/vnd.openxmlformats-officedocument.spreadsheetml.sheet'', ''xlsx''),
     (CT_application Application_pptx, ''application/vnd.openxmlformats-officedocument.presentationml.presentation'', ''pptx''),
     (CT_multipart_form_data, ''multipart/form-data'', ''mp''),
     (CT_image Image_jpeg, ''image/jpeg'', ''jpg''),
     (CT_image Image_png, ''image/png'', ''png''),
     (CT_image Image_gif, ''image/gif'', ''gif''),
     (CT_image Image_ico, ''image/x-icon'', ''ico''),
     (CT_image Image_bmp, ''image/bmp'', ''bmp''),
     (CT_image Image_svg, ''image/svg+xml'', ''svg''),
     (CT_image Image_tiff, ''image/tiff'', ''tiff''),
     (CT_image Image_webp, ''image/webp'', ''webp''),
     (CT_video Video_mp4, ''video/mp4'', ''mp4''),
     (CT_video Video_flv, ''video/x-flv'', ''flv''),
     (CT_video Video_m4v, ''video/x-m4v'', ''m4v''),
     (CT_video Video_mng, ''video/x-mng'', ''mng''),
     (CT_video Video_ts, ''video/mp2t'', ''ts''),
     (CT_video Video_mpeg, ''video/mpeg'', ''mpeg''),
     (CT_video Video_webm, ''video/webm'', ''webm''),
     (CT_video Video_mov, ''video/quicktime'', ''mov''),
     (CT_video Video_3gpp, ''video/3gpp'', ''3gpp''),
     (CT_video Video_avi, ''video/x-msvideo'', ''avi''),
     (CT_video Video_wmv, ''video/x-ms-wmv'', ''wmv''),
     (CT_video Video_asf, ''video/x-ms-asf'', ''asf''),
     (CT_audio Audio_mp3, ''audio/mpeg'', ''mp3''),
     (CT_audio Audio_ogg, ''audio/ogg'', ''ogg''),
     (CT_audio Audio_m4a, ''audio/x-m4a'', ''m4a''),
     (CT_audio Audio_aac, ''audio/aac'', ''aac''),
     (CT_audio Audio_pcma, ''audio/pcma'', ''pcma''),
     (CT_audio Audio_opus, ''audio/opus'', ''opus''),
     (CT_font Font_ttf, ''font/ttf'', ''ttf''),
     (CT_font Font_otf, ''font/otf'', ''otf''),
     (CT_font Font_woff, ''font/woff'', ''woff''),
     (CT_font Font_woff2, ''font/woff2'', ''woff2'')]
    @ replicate 3 (CT_none, [], [])"

definition known_content_types :: "content_type_info list" where
  "known_content_types = k_content_types"

definition media_type_without_parameters :: "string \<Rightarrow> string" where
  "media_type_without_parameters value =
     trim_ows (case find_char CHR '';'' value of None \<Rightarrow> value | Some semicolon \<Rightarrow> take semicolon value)"

text \<open>\<open>find_last_of\<close>: the position of the last character that satisfies the test.\<close>

definition find_last :: "(char \<Rightarrow> bool) \<Rightarrow> string \<Rightarrow> nat option" where
  "find_last P s = map_option (\<lambda>i. length s - 1 - i) (index_of P (rev s))"

definition suffix_from_path :: "string \<Rightarrow> string" where
  "suffix_from_path path0 =
     (let path = (case index_of (\<lambda>c. c = CHR ''?'' \<or> c = CHR ''#'') path0 of None \<Rightarrow> path0 | Some q \<Rightarrow> take q path0);
          slash = find_last (\<lambda>c. c = CHR ''/'' \<or> c = CHR 0x5C) path;
          dot = find_last (\<lambda>c. c = CHR ''.'') path
      in case dot of
           None \<Rightarrow> []
         | Some d \<Rightarrow>
             if length path \<le> d + 1 \<or> (case slash of None \<Rightarrow> False | Some s \<Rightarrow> d < s) then []
             else drop (d + 1) path)"

definition content_type_to_string :: "content_type \<Rightarrow> string" where
  "content_type_to_string t =
     (case List.find (\<lambda>(type, mime, suffix). type = t) k_content_types of
        None \<Rightarrow> [] | Some (type, mime, suffix) \<Rightarrow> mime)"

definition content_type_suffix :: "content_type \<Rightarrow> string" where
  "content_type_suffix t =
     (case List.find (\<lambda>(type, mime, suffix). type = t) k_content_types of
        None \<Rightarrow> [] | Some (type, mime, suffix) \<Rightarrow> suffix)"

definition content_type_from_string :: "string \<Rightarrow> content_type" where
  "content_type_from_string value0 =
     (let value = media_type_without_parameters value0 in
      if value = [] then CT_none
      else case List.find (\<lambda>(type, mime, suffix). equals_ignore_case value mime) k_content_types of
             Some (type, mime, suffix) \<Rightarrow> type
           | None \<Rightarrow> CT_undefined)"

definition content_type_from_suffix :: "string \<Rightarrow> content_type" where
  "content_type_from_suffix suffix0 =
     (let trimmed = trim_ows suffix0;
          suffix = (if trimmed \<noteq> [] \<and> hd trimmed = CHR ''.'' then tl trimmed else trimmed)
      in if suffix = [] then CT_none
         else case List.find (\<lambda>(type, mime, known). equals_ignore_case suffix known) k_content_types of
                Some (type, mime, known) \<Rightarrow> type
              | None \<Rightarrow> CT_undefined)"

definition content_type_from_path :: "string \<Rightarrow> content_type" where
  "content_type_from_path path = content_type_from_suffix (suffix_from_path path)"

end
