(* ===== verification/Content_Type_Laws.thy ===== *)
theory Content_Type_Laws
  imports Content_Type
begin

text \<open>The lookups of the media-type table agree with each other in every direction.\<close>

definition real_entries :: "content_type_info list" where
  "real_entries = take 62 k_content_types"

lemma k_content_types_split: "k_content_types = real_entries @ replicate 3 (CT_none, [], [])"
  by (simp add: real_entries_def k_content_types_def)

lemma entries_distinct:
  "distinct (map fst real_entries)"
  "distinct (map (\<lambda>e. rev (fst (snd e))) real_entries)"
  "distinct (map (\<lambda>e. snd (snd e)) real_entries)"
  by code_simp+

definition plain_suffix :: "string \<Rightarrow> bool" where
  "plain_suffix s \<longleftrightarrow> s \<noteq> [] \<and> lowercase s = s \<and> list_all (\<lambda>c. \<not> is_ows c \<and> c \<notin> set '';.?#/'' \<and> c \<noteq> CHR 0x5C) s"

definition plain_mime :: "string \<Rightarrow> bool" where
  "plain_mime s \<longleftrightarrow> s \<noteq> [] \<and> lowercase s = s \<and> list_all (\<lambda>c. \<not> is_ows c \<and> c \<noteq> CHR '';'') s"

lemma entries_plain:
  "list_all (\<lambda>e. plain_mime (fst (snd e)) \<and> plain_suffix (snd (snd e)) \<and> fst e \<noteq> CT_none) real_entries"
  by code_simp

lemma find_by:
  assumes "distinct (map f xs)" and "x \<in> set xs"
  shows "List.find (\<lambda>y. f y = f x) (xs @ ys) = Some x"
  using assms by (induction xs) (auto simp: image_iff)

lemma find_key:
  assumes "distinct (map f xs)" and "x \<in> set xs" and "\<And>y. y \<in> set (xs @ ys) \<Longrightarrow> P y \<longleftrightarrow> f y = f x"
  shows "List.find P (xs @ ys) = Some x"
proof -
  have "List.find P (xs @ ys) = List.find (\<lambda>y. f y = f x) (xs @ ys)"
    using assms(3) by (intro find_cong) auto
  then show ?thesis by (simp only: find_by [OF assms(1,2)])
qed

lemma lookup_by_type:
  assumes "e \<in> set real_entries"
  shows "content_type_to_string (fst e) = fst (snd e)" and "content_type_suffix (fst e) = snd (snd e)"
proof -
  have "List.find (\<lambda>(type, mime, suffix). type = fst e) k_content_types = Some e"
    unfolding k_content_types_split
    by (rule find_key [OF entries_distinct(1) assms]) auto
  then show "content_type_to_string (fst e) = fst (snd e)" and "content_type_suffix (fst e) = snd (snd e)"
    by (simp_all add: content_type_to_string_def content_type_suffix_def case_prod_beta)
qed

lemma entry_plain:
  assumes "e \<in> set real_entries"
  shows "plain_mime (fst (snd e))" and "plain_suffix (snd (snd e))"
  using entries_plain assms by (auto simp: list_all_iff)

lemma any_entry_lowercase:
  assumes "y \<in> set (real_entries @ replicate 3 (CT_none, [], []))"
  shows "lowercase (fst (snd y)) = fst (snd y)" and "lowercase (snd (snd y)) = snd (snd y)"
proof -
  have "lowercase [] = []" by (simp add: lowercase_def)
  moreover have "y \<in> set real_entries \<or> y = (CT_none, [], [])" using assms by auto
  ultimately show "lowercase (fst (snd y)) = fst (snd y)" and "lowercase (snd (snd y)) = snd (snd y)"
    using entry_plain [of y] by (auto simp: plain_mime_def plain_suffix_def)
qed

lemma lookup_by_mime:
  assumes "e \<in> set real_entries" and "lowercase v = fst (snd e)"
  shows "List.find (\<lambda>(type, mime, suffix). equals_ignore_case v mime) k_content_types = Some e"
  unfolding k_content_types_split
proof (rule find_key [OF entries_distinct(2) assms(1)])
  fix y assume "y \<in> set (real_entries @ replicate 3 (CT_none, [], []))"
  from any_entry_lowercase(1) [OF this] assms(2)
  show "(case y of (type, mime, suffix) \<Rightarrow> equals_ignore_case v mime) \<longleftrightarrow> rev (fst (snd y)) = rev (fst (snd e))"
    by (simp add: equals_ignore_case_iff case_prod_beta) metis
qed

lemma lookup_by_suffix:
  assumes "e \<in> set real_entries" and "lowercase v = snd (snd e)"
  shows "List.find (\<lambda>(type, mime, suffix). equals_ignore_case v suffix) k_content_types = Some e"
  unfolding k_content_types_split
proof (rule find_key [OF entries_distinct(3) assms(1)])
  fix y assume "y \<in> set (real_entries @ replicate 3 (CT_none, [], []))"
  from any_entry_lowercase(2) [OF this] assms(2)
  show "(case y of (type, mime, suffix) \<Rightarrow> equals_ignore_case v suffix) \<longleftrightarrow> snd (snd y) = snd (snd e)"
    by (simp add: equals_ignore_case_iff case_prod_beta) metis
qed

text \<open>Letter case does not matter: a character outside the alphabet survives \<open>tolower\<close>.\<close>

lemma lowercase_keeps: "c \<in> set v \<Longrightarrow> \<not> in_range 65 90 c \<Longrightarrow> c \<in> set (lowercase v)"
  by (force simp: lowercase_def tolower_def)

lemma from_string_lookup:
  assumes "e \<in> set real_entries" and "lowercase v = fst (snd e)"
    and "header = v \<or> (\<exists>params. header = v @ CHR '';'' # params)"
  shows "content_type_from_string header = fst e"
proof -
  have mime: "fst (snd e) \<noteq> []" "\<And>c. c \<in> set (fst (snd e)) \<Longrightarrow> \<not> is_ows c \<and> c \<noteq> CHR '';''"
    using entry_plain(1) [OF assms(1)] by (auto simp: plain_mime_def list_all_iff)
  have "\<not> is_ows c \<and> c \<noteq> CHR '';''" if "c \<in> set v" for c
    using mime(2) [of c] lowercase_keeps [OF that] assms(2) by (auto simp: is_ows_def in_range_def)
  then have trim: "trim_ows v = v" and semi: "CHR '';'' \<notin> set v" by (auto intro!: trim_ows_no_ows)
  have "find_char CHR '';'' v = None" using semi by (auto simp: find_char_def)
  then have "media_type_without_parameters header = v"
    using assms(3) semi trim by (auto simp: media_type_without_parameters_def find_char_hit simp del: find_char_None)
  moreover have "v \<noteq> []" using mime(1) assms(2) by (auto simp: lowercase_def)
  ultimately show ?thesis
    by (simp add: content_type_from_string_def lookup_by_mime [OF assms(1,2)] case_prod_beta)
qed

lemma suffix_text:
  assumes "e \<in> set real_entries" and "lowercase v = snd (snd e)"
  shows "v \<noteq> []" and "\<And>c. c \<in> set v \<Longrightarrow> \<not> is_ows c \<and> c \<notin> set '';.?#/'' \<and> c \<noteq> CHR 0x5C"
proof -
  have suffix: "snd (snd e) \<noteq> []" "\<And>c. c \<in> set (snd (snd e)) \<Longrightarrow> \<not> is_ows c \<and> c \<notin> set '';.?#/'' \<and> c \<noteq> CHR 0x5C"
    using entry_plain(2) [OF assms(1)] by (auto simp: plain_suffix_def list_all_iff)
  then show "v \<noteq> []" using assms(2) by (auto simp: lowercase_def)
  show "\<not> is_ows c \<and> c \<notin> set '';.?#/'' \<and> c \<noteq> CHR 0x5C" if "c \<in> set v" for c
    using suffix(2) [of c] lowercase_keeps [OF that] assms(2) by (auto simp: is_ows_def in_range_def)
qed

lemma from_suffix_lookup:
  assumes "e \<in> set real_entries" and "lowercase v = snd (snd e)"
  shows "content_type_from_suffix v = fst e" and "content_type_from_suffix (CHR ''.'' # v) = fst e"
proof -
  have v: "v \<noteq> []" "\<And>c. c \<in> set v \<Longrightarrow> \<not> is_ows c \<and> c \<notin> set '';.?#/'' \<and> c \<noteq> CHR 0x5C"
    using suffix_text [OF assms] by blast+
  have "\<not> is_ows c" if "c \<in> set (CHR ''.'' # v)" for c
    using v(2) that by (cases "c = CHR ''.''") (simp_all add: is_ows_def)
  then have "trim_ows v = v" "trim_ows (CHR ''.'' # v) = CHR ''.'' # v"
    by (intro trim_ows_no_ows, simp)+
  moreover have "hd v \<noteq> CHR ''.''" using v(2) [of "hd v"] v(1) by auto
  ultimately show "content_type_from_suffix v = fst e" and "content_type_from_suffix (CHR ''.'' # v) = fst e"
    using v(1) by (simp_all add: content_type_from_suffix_def lookup_by_suffix [OF assms] case_prod_beta Let_def)
qed

text \<open>The last dot of a path whose suffix has none.\<close>

lemma find_last_hit:
  assumes "P c" and "\<And>d. d \<in> set v \<Longrightarrow> \<not> P d"
  shows "find_last P (p @ c # v) = Some (length p)"
proof -
  have "index_of P (rev v) = None" using assms(2) by (simp add: index_of_None)
  then have "index_of P (rev v @ c # rev p) = Some (length v)"
    using assms(1) by (simp add: index_of_append del: index_of_None)
  then show ?thesis by (simp add: find_last_def)
qed

lemma find_last_absent:
  assumes "\<not> P c" and "\<And>d. d \<in> set v \<Longrightarrow> \<not> P d" and "find_last P (p @ c # v) = Some i"
  shows "i < length p"
proof -
  obtain j where j: "index_of P (rev v @ c # rev p) = Some j" "i = length p + length v - j"
    using assms(3) by (auto simp: find_last_def)
  then have "j < length (rev v @ c # rev p)" "P ((rev v @ c # rev p) ! j)" by (auto simp: index_of_Some)
  have "length v < j"
  proof (rule ccontr)
    assume "\<not> length v < j"
    then have "(rev v @ c # rev p) ! j \<in> set v \<or> (rev v @ c # rev p) ! j = c"
      using nth_mem [of j "rev v"] by (cases "j = length v") (auto simp: nth_append simp del: nth_mem)
    then show False using \<open>P _\<close> assms(1,2) by auto
  qed
  then show ?thesis using j \<open>j < _\<close> by simp
qed

lemma suffix_from_path_hit:
  assumes "\<And>c. c \<in> set (p @ v) \<Longrightarrow> c \<notin> set ''?#''" and "v \<noteq> []"
    and "\<And>c. c \<in> set v \<Longrightarrow> c \<notin> set ''./'' \<and> c \<noteq> CHR 0x5C"
  shows "suffix_from_path (p @ CHR ''.'' # v) = v"
proof -
  let ?path = "p @ CHR ''.'' # v"
  have "index_of (\<lambda>c. c = CHR ''?'' \<or> c = CHR ''#'') ?path = None" using assms(1) by auto
  moreover have "find_last (\<lambda>c. c = CHR ''.'') ?path = Some (length p)"
    using assms(3) by (intro find_last_hit) auto
  moreover have "s < length p" if "find_last (\<lambda>c. c = CHR ''/'' \<or> c = CHR 0x5C) ?path = Some s" for s
    by (rule find_last_absent [OF _ _ that]) (use assms(3) in auto)
  ultimately show ?thesis
    using assms(2) by (auto simp: suffix_from_path_def Let_def simp del: index_of_None split: option.splits)
qed

text \<open>
  For every media type of the table: its MIME name, in any letter case and with any
  parameters behind it, its suffix with or without a dot, and any path that ends in a dot and the
  suffix lead back to the type.\<close>
theorem content_type_roundtrip:
  assumes "(t, mime, suffix) \<in> set known_content_types" and "t \<noteq> CT_none"
    and "lowercase v = mime" and "lowercase w = suffix" and "set path \<inter> set ''?#'' = {}"
  shows "content_type_to_string t = mime \<and> content_type_suffix t = suffix \<and>
    content_type_from_string v = t \<and> content_type_from_string (v @ '';'' @ params) = t \<and>
    content_type_from_suffix w = t \<and> content_type_from_suffix (''.'' @ w) = t \<and>
    content_type_from_path (path @ ''.'' @ w) = t"
proof -
  define e where "e = (t, mime, suffix)"
  have e: "e \<in> set real_entries" using assms(1,2) by (auto simp: known_content_types_def k_content_types_split e_def)
  have v: "lowercase v = fst (snd e)" and w: "lowercase w = snd (snd e)" using assms(3,4) by (simp_all add: e_def)
  have "suffix_from_path (path @ CHR ''.'' # w) = w"
    by (rule suffix_from_path_hit) (use suffix_text [OF e w] assms(5) in auto)
  then show ?thesis
    using lookup_by_type [OF e] from_string_lookup [OF e v] from_suffix_lookup [OF e w]
    by (simp add: content_type_from_path_def e_def)
qed

theorem content_type_roundtrip_witness:
  "content_type_from_string ''Text/HTML; charset=utf-8'' = CT_text Text_html \<and>
   content_type_from_path ''/a.b/index.HTML'' = CT_text Text_html"
proof -
  have e: "(CT_text Text_html, ''text/html'', ''html'') \<in> set known_content_types"
    by (simp add: known_content_types_def k_content_types_def)
  have "lowercase ''Text/HTML'' = ''text/html''" "lowercase ''HTML'' = ''html''" by code_simp+
  from content_type_roundtrip [OF e _ this, of "''/a.b/index''" "'' charset=utf-8''"] show ?thesis by simp
qed

end
