(* ===== verification/Multipart.thy ===== *)
theory Multipart
  imports Headers Url
begin

text \<open>
  multipart/form-data bodies held in memory (src/src/http/multipart_parser.cpp): parameters of
  header values, the boundary, and the parser of a whole body. A position in the body is the suffix
  of the body that starts there.
\<close>

datatype multipart_error = Mp_none | Mp_invalid_content_type | Mp_missing_boundary | Mp_malformed_body
  | Mp_malformed_headers | Mp_limits_exceeded

record multipart_part =
  mp_headers :: http_headers
  mp_name :: string
  mp_filename :: string
  mp_content_type :: string
  mp_body :: string

record multipart_options =
  max_parts :: nat
  max_header_bytes :: nat
  max_body_bytes :: nat

definition default_multipart_options :: multipart_options where
  "default_multipart_options = \<lparr>max_parts = 128, max_header_bytes = 64 * 1024, max_body_bytes = 64 * 1024 * 1024\<rparr>"

record multipart_result =
  mr_parts :: "multipart_part list"
  mr_error :: multipart_error
  mr_message :: string

subsection \<open>Header values with parameters\<close>

text \<open>The loop of \<open>unquote\<close>: its list is the text from position \<open>i\<close> up to the closing quote.\<close>

fun unquote_loop :: "string \<Rightarrow> string" where
  "unquote_loop [] = []"
| "unquote_loop [c] = [c]"
| "unquote_loop (c # d # cs) = (if c = CHR 0x5C then d # unquote_loop cs else c # unquote_loop (d # cs))"

definition param_unquote :: "string \<Rightarrow> string" where
  "param_unquote value0 =
     (let value = trim_ows value0 in
      if length value < 2 \<or> hd value \<noteq> CHR 0x22 \<or> last value \<noteq> CHR 0x22 then value
      else unquote_loop (butlast (tl value)))"

fun split_parameters_loop :: "bool \<Rightarrow> bool \<Rightarrow> string \<Rightarrow> string \<Rightarrow> string list" where
  "split_parameters_loop quoted escaped cur [] = [cur]"
| "split_parameters_loop quoted escaped cur (c # cs) =
     (if escaped then split_parameters_loop quoted False (cur @ [c]) cs
      else if quoted \<and> c = CHR 0x5C then split_parameters_loop quoted True (cur @ [c]) cs
      else if c = CHR 0x22 then split_parameters_loop (\<not> quoted) False (cur @ [c]) cs
      else if \<not> quoted \<and> c = CHR '';'' then cur # split_parameters_loop quoted False [] cs
      else split_parameters_loop quoted False (cur @ [c]) cs)"

definition split_parameters :: "string \<Rightarrow> string list" where
  "split_parameters value = split_parameters_loop False False [] value"

record parsed_header_value =
  ph_token :: string
  ph_params :: "(string \<times> string) list"

definition parse_parameter :: "string \<Rightarrow> (string \<times> string) list" where
  "parse_parameter part =
     (case find_char CHR ''='' part of
        None \<Rightarrow> []
      | Some equal \<Rightarrow>
          let key = lowercase (trim_ows (take equal part)); v = param_unquote (drop (equal + 1) part)
          in if key \<noteq> [] then [(key, v)] else [])"

definition parse_header_value :: "string \<Rightarrow> parsed_header_value" where
  "parse_header_value value =
     (let parts = split_parameters value in
      if parts = [] then \<lparr>ph_token = [], ph_params = []\<rparr>
      else \<lparr>ph_token = lowercase (trim_ows (hd parts)), ph_params = concat (map parse_parameter (tl parts))\<rparr>)"

definition parameter_value :: "parsed_header_value \<Rightarrow> string \<Rightarrow> string" where
  "parameter_value parsed key =
     (case List.find (\<lambda>(field, v). field = key) (ph_params parsed) of None \<Rightarrow> [] | Some (field, v) \<Rightarrow> v)"

definition decoded_parameter_value :: "parsed_header_value \<Rightarrow> string \<Rightarrow> string" where
  "decoded_parameter_value parsed key = url_decode UrlPercent (parameter_value parsed key)"

definition decoded_filename_value :: "parsed_header_value \<Rightarrow> string" where
  "decoded_filename_value parsed =
     (let filename = decoded_parameter_value parsed ''filename'';
          filename_star = parameter_value parsed ''filename*''
      in if filename_star \<noteq> [] then
           (case decode_rfc5987_value filename_star of Some decoded \<Rightarrow> decoded | None \<Rightarrow> filename)
         else filename)"

subsection \<open>Part headers\<close>

definition part_header_line :: "string \<Rightarrow> http_headers \<Rightarrow> http_headers option" where
  "part_header_line line h =
     (if line = [] then Some h
      else if hd line = CHR '' '' \<or> hd line = CHR 0x09 then None
      else case find_char CHR '':'' line of
             None \<Rightarrow> None
           | Some colon \<Rightarrow>
               if colon = 0 then None else Some (hdr_add (take colon line) (drop (colon + 1) line) h))"

function parse_part_headers :: "string \<Rightarrow> http_headers \<Rightarrow> http_headers option" where
  "parse_part_headers block h =
     (if block = [] then Some h
      else
        case find_str crlf block of
          None \<Rightarrow> part_header_line block h
        | Some line_end \<Rightarrow>
            (case part_header_line (take line_end block) h of
               None \<Rightarrow> None
             | Some h1 \<Rightarrow> parse_part_headers (drop (line_end + 2) block) h1))"
  by pat_completeness auto
termination
  by (relation "measure (length \<circ> fst)") auto

declare parse_part_headers.simps [simp del]

subsection \<open>The body\<close>

definition mp_failure :: "multipart_error \<Rightarrow> string \<Rightarrow> multipart_result" where
  "mp_failure error message = \<lparr>mr_parts = [], mr_error = error, mr_message = message\<rparr>"

definition mp_find :: "string \<Rightarrow> multipart_result \<Rightarrow> multipart_part option" where
  "mp_find name result = List.find (\<lambda>part. mp_name part = name) (mr_parts result)"

definition is_file :: "multipart_part \<Rightarrow> bool" where
  "is_file part \<longleftrightarrow> mp_filename part \<noteq> []"

definition multipart_boundary :: "string \<Rightarrow> string option" where
  "multipart_boundary content_type =
     (let parsed = parse_header_value content_type in
      if ph_token parsed \<noteq> ''multipart/form-data'' then None
      else let boundary = parameter_value parsed ''boundary'' in
           if boundary = [] then None else Some boundary)"

text \<open>The description of a part from its headers; \<open>None\<close> where the disposition is not form-data.\<close>

definition part_of_headers :: "http_headers \<Rightarrow> multipart_part option" where
  "part_of_headers h =
     (let disposition = parse_header_value (hdr_get ''Content-Disposition'' h) in
      if ph_token disposition \<noteq> ''form-data'' then None
      else Some \<lparr>mp_headers = h, mp_name = decoded_parameter_value disposition ''name'',
                 mp_filename = decoded_filename_value disposition,
                 mp_content_type = hdr_get ''Content-Type'' h, mp_body = []\<rparr>)"

abbreviation crlf2 :: string where
  "crlf2 \<equiv> [CHR 0x0D, CHR 0x0A, CHR 0x0D, CHR 0x0A]"

text \<open>
  One round of the loop: \<open>rest\<close> is the body from \<open>position\<close>. \<open>Inl\<close> is a return; \<open>Inr\<close> the next part
  and the body behind its delimiter.
\<close>

definition multipart_step :: "multipart_options \<Rightarrow> string \<Rightarrow> string \<Rightarrow> multipart_part list \<Rightarrow>
    multipart_result + multipart_part \<times> string" where
  "multipart_step options marker rest0 parts =
     (if starts_with rest0 ''--'' then Inl \<lparr>mr_parts = parts, mr_error = Mp_none, mr_message = []\<rparr>
      else if \<not> starts_with rest0 crlf then Inl (mp_failure Mp_malformed_body ''boundary line is malformed'')
      else
        let rest = drop 2 rest0 in
        case find_str crlf2 rest of
          None \<Rightarrow> Inl (mp_failure Mp_malformed_headers ''part headers are incomplete'')
        | Some header_end \<Rightarrow>
            if max_header_bytes options < header_end then
              Inl (mp_failure Mp_limits_exceeded ''part headers exceed max_header_bytes'')
            else case parse_part_headers (take header_end rest) [] of
              None \<Rightarrow> Inl (mp_failure Mp_malformed_headers ''part header line is malformed'')
            | Some h \<Rightarrow>
                (case part_of_headers h of
                   None \<Rightarrow> Inl (mp_failure Mp_malformed_headers ''part Content-Disposition must be form-data'')
                 | Some part \<Rightarrow>
                     let content = drop (header_end + 4) rest; delimiter = crlf @ marker in
                     case find_str delimiter content of
                       None \<Rightarrow> Inl (mp_failure Mp_malformed_body ''next multipart boundary is missing'')
                     | Some p \<Rightarrow> Inr (part\<lparr>mp_body := take p content\<rparr>, drop (p + length delimiter) content)))"

lemma multipart_step_shorter:
  "multipart_step options marker rest parts = Inr (part, rest') \<Longrightarrow> length rest' < length rest"
  by (auto simp: multipart_step_def Let_def starts_with_def split: if_splits option.splits)

function multipart_loop :: "multipart_options \<Rightarrow> string \<Rightarrow> string \<Rightarrow> multipart_part list \<Rightarrow> multipart_result" where
  "multipart_loop options marker rest parts =
     (case multipart_step options marker rest parts of
        Inl result \<Rightarrow> result
      | Inr (part, rest') \<Rightarrow>
          let parts' = parts @ [part] in
          if max_parts options < length parts' then
            mp_failure Mp_limits_exceeded ''multipart part count exceeds max_parts''
          else multipart_loop options marker rest' parts')"
  by pat_completeness auto
termination
  by (relation "measure (\<lambda>(options, marker, rest, parts). length rest)") (auto dest: multipart_step_shorter)

declare multipart_loop.simps [simp del]

definition parse_multipart_form_data :: "string \<Rightarrow> string \<Rightarrow> multipart_options \<Rightarrow> multipart_result" where
  "parse_multipart_form_data content_type body options =
     (if max_body_bytes options < length body then
        mp_failure Mp_limits_exceeded ''multipart body exceeds max_body_bytes''
      else case multipart_boundary content_type of
             None \<Rightarrow>
               mp_failure
                 (if ph_token (parse_header_value content_type) = ''multipart/form-data'' then Mp_missing_boundary
                  else Mp_invalid_content_type) ''multipart/form-data boundary is missing''
           | Some boundary \<Rightarrow>
               let marker = ''--'' @ boundary in
               if \<not> starts_with body marker then
                 mp_failure Mp_malformed_body ''multipart body does not start with boundary''
               else multipart_loop options marker (drop (length marker) body) [])"

end
