(* ===== verification/Streaming_Multipart.thy ===== *)
theory Streaming_Multipart
  imports Multipart
begin

text \<open>
  The incremental multipart parser (src/src/http/streaming_multipart_parser.cpp). What the callbacks
  receive is recorded in order: the header of each part, the data of file parts, the completion.
\<close>

datatype stream_state = First_boundary | Sm_headers | Sm_body | Boundary_suffix | Sm_done | Sm_error

datatype stream_event = Ev_part multipart_part | Ev_data string | Ev_complete

record streaming_options =
  so_max_header_bytes :: nat
  so_max_field_bytes :: nat

definition default_streaming_options :: streaming_options where
  "default_streaming_options = \<lparr>so_max_header_bytes = 64 * 1024, so_max_field_bytes = 64 * 1024\<rparr>"

text \<open>\<open>StreamingMultipartPart\<close> is a \<open>multipart_part\<close> whose body stays empty.\<close>

record streaming_multipart =
  sm_marker :: string
  sm_delimiter :: string
  sm_options :: streaming_options
  sm_state :: stream_state
  sm_part :: multipart_part
  sm_buffer :: string
  sm_field_bytes :: nat
  sm_completed :: bool
  sm_message :: string
  sm_events :: "stream_event list"

definition empty_part :: multipart_part where
  "empty_part = \<lparr>mp_headers = [], mp_name = [], mp_filename = [], mp_content_type = [], mp_body = []\<rparr>"

definition sm_fail :: "string \<Rightarrow> streaming_multipart \<Rightarrow> streaming_multipart" where
  "sm_fail message p = p\<lparr>sm_state := Sm_error, sm_message := message\<rparr>"

definition sm_emit :: "stream_event \<Rightarrow> streaming_multipart \<Rightarrow> streaming_multipart" where
  "sm_emit e p = p\<lparr>sm_events := sm_events p @ [e]\<rparr>"

definition complete_once :: "streaming_multipart \<Rightarrow> streaming_multipart" where
  "complete_once p = (if sm_completed p then p else sm_emit Ev_complete (p\<lparr>sm_completed := True\<rparr>))"

definition streaming_new :: "string \<Rightarrow> streaming_options \<Rightarrow> streaming_multipart" where
  "streaming_new boundary options =
     (let p = \<lparr>sm_marker = ''--'' @ boundary, sm_delimiter = crlf @ ''--'' @ boundary, sm_options = options,
               sm_state = First_boundary, sm_part = empty_part, sm_buffer = [], sm_field_bytes = 0,
               sm_completed = False, sm_message = [], sm_events = []\<rparr>
      in if boundary = [] then sm_fail ''multipart boundary is empty'' p else p)"

definition sm_ok :: "streaming_multipart \<Rightarrow> bool" where
  "sm_ok p \<longleftrightarrow> sm_message p = []"

definition sm_complete :: "streaming_multipart \<Rightarrow> bool" where
  "sm_complete p \<longleftrightarrow> sm_state p = Sm_done"

definition emit_data :: "string \<Rightarrow> streaming_multipart \<Rightarrow> streaming_multipart" where
  "emit_data data p =
     (if data = [] then p
      else if \<not> is_file (sm_part p) then
        let p1 = p\<lparr>sm_field_bytes := sm_field_bytes p + length data\<rparr>
        in if so_max_field_bytes (sm_options p) < sm_field_bytes p1
           then sm_fail ''multipart field exceeds max_field_bytes'' p1 else p1
      else sm_emit (Ev_data data) p)"

definition erase_front :: "nat \<Rightarrow> streaming_multipart \<Rightarrow> streaming_multipart" where
  "erase_front n p = p\<lparr>sm_buffer := drop n (sm_buffer p)\<rparr>"

definition process_boundary_suffix :: "streaming_multipart \<Rightarrow> bool \<times> streaming_multipart" where
  "process_boundary_suffix p =
     (if length (sm_buffer p) < 2 then (False, p)
      else if starts_with (sm_buffer p) ''--'' then
        let p1 = erase_front 2 p;
            p2 = (if starts_with (sm_buffer p1) crlf then erase_front 2 p1 else p1)
        in (True, complete_once (p2\<lparr>sm_state := Sm_done\<rparr>))
      else if starts_with (sm_buffer p) crlf then (True, (erase_front 2 p)\<lparr>sm_state := Sm_headers\<rparr>)
      else (False, sm_fail ''multipart boundary line is malformed'' p))"

definition process_first_boundary :: "streaming_multipart \<Rightarrow> bool \<times> streaming_multipart" where
  "process_first_boundary p =
     (if length (sm_buffer p) < length (sm_marker p) + 2 then (False, p)
      else if \<not> starts_with (sm_buffer p) (sm_marker p) then
        (False, sm_fail ''multipart body does not start with boundary'' p)
      else process_boundary_suffix (erase_front (length (sm_marker p)) p))"

definition process_headers :: "streaming_multipart \<Rightarrow> bool \<times> streaming_multipart" where
  "process_headers p =
     (case find_str crlf2 (sm_buffer p) of
        None \<Rightarrow>
          if so_max_header_bytes (sm_options p) < length (sm_buffer p)
          then (False, sm_fail ''multipart part headers exceed max_header_bytes'' p) else (False, p)
      | Some header_end \<Rightarrow>
          if so_max_header_bytes (sm_options p) < header_end
          then (False, sm_fail ''multipart part headers exceed max_header_bytes'' p)
          else case parse_part_headers (take header_end (sm_buffer p)) [] of
            None \<Rightarrow> (False, sm_fail ''multipart part header line is malformed'' p)
          | Some h \<Rightarrow>
              (case part_of_headers h of
                 None \<Rightarrow> (False, sm_fail ''multipart part Content-Disposition must be form-data'' p)
               | Some part \<Rightarrow>
                   let p1 = sm_emit (Ev_part part) (p\<lparr>sm_part := part, sm_field_bytes := 0\<rparr>)
                   in (True, (erase_front (header_end + 4) p1)\<lparr>sm_state := Sm_body\<rparr>)))"

text \<open>After the delimiter the state is set even where \<open>emit_data\<close> has just failed.\<close>

definition process_body :: "streaming_multipart \<Rightarrow> bool \<times> streaming_multipart" where
  "process_body p =
     (case find_str (sm_delimiter p) (sm_buffer p) of
        None \<Rightarrow>
          let keep = min (length (sm_buffer p)) (length (sm_delimiter p) - 1) in
          if length (sm_buffer p) \<le> keep then (False, p)
          else
            let emit_size = length (sm_buffer p) - keep
            in (False, erase_front emit_size (emit_data (take emit_size (sm_buffer p)) p))
      | Some delimiter_position \<Rightarrow>
          let p1 = emit_data (take delimiter_position (sm_buffer p)) p
          in (True, (erase_front (delimiter_position + length (sm_delimiter p)) p1)\<lparr>sm_state := Boundary_suffix\<rparr>))"

text \<open>The cases of the loop in \<open>process\<close> that call a step.\<close>

definition process_state :: "streaming_multipart \<Rightarrow> bool \<times> streaming_multipart" where
  "process_state p =
     (case sm_state p of
        First_boundary \<Rightarrow> process_first_boundary p
      | Sm_headers \<Rightarrow> process_headers p
      | Sm_body \<Rightarrow> process_body p
      | Boundary_suffix \<Rightarrow> process_boundary_suffix p
      | _ \<Rightarrow> (False, p))"

text \<open>Every step that returns true consumes bytes, or leaves the body state.\<close>

definition stream_measure :: "streaming_multipart \<Rightarrow> nat" where
  "stream_measure p = 2 * length (sm_buffer p) + (if sm_state p = Sm_body then 1 else 0)"

lemma sm_emit_simps [simp]:
  "sm_buffer (sm_emit e p) = sm_buffer p" "sm_state (sm_emit e p) = sm_state p"
  by (simp_all add: sm_emit_def)

lemma complete_once_simps [simp]:
  "sm_buffer (complete_once p) = sm_buffer p" "sm_state (complete_once p) = sm_state p"
  by (simp_all add: complete_once_def)

lemma erase_front_simps [simp]:
  "sm_buffer (erase_front n p) = drop n (sm_buffer p)" "sm_state (erase_front n p) = sm_state p"
  by (simp_all add: erase_front_def)

lemma emit_data_buffer [simp]: "sm_buffer (emit_data data p) = sm_buffer p"
  by (simp add: emit_data_def sm_fail_def Let_def)

lemma process_boundary_suffix_measure:
  "process_boundary_suffix p = (True, q) \<Longrightarrow> length (sm_buffer q) < length (sm_buffer p) \<and> sm_state q \<noteq> Sm_body"
  by (auto simp: process_boundary_suffix_def Let_def split: if_splits)

lemma process_state_measure: "process_state p = (True, q) \<Longrightarrow> stream_measure q < stream_measure p"
proof (cases "sm_state p")
  case First_boundary
  assume "process_state p = (True, q)"
  then have "process_boundary_suffix (erase_front (length (sm_marker p)) p) = (True, q)"
    using First_boundary by (auto simp: process_state_def process_first_boundary_def split: if_splits)
  from process_boundary_suffix_measure [OF this] First_boundary show ?thesis
    by (simp add: stream_measure_def) linarith
next
  case Sm_headers
  assume step: "process_state p = (True, q)"
  then obtain i where "find_str crlf2 (sm_buffer p) = Some i" "length (sm_buffer q) = length (sm_buffer p) - (i + 4)"
    using Sm_headers by (auto simp: process_state_def process_headers_def Let_def split: option.splits if_splits)
  moreover from this have "i + 4 \<le> length (sm_buffer p)" using find_str_bound [of crlf2 "sm_buffer p" i] by simp
  ultimately show ?thesis using Sm_headers by (auto simp: stream_measure_def)
next
  case Sm_body
  assume "process_state p = (True, q)"
  with Sm_body show ?thesis
    by (auto simp: process_state_def process_body_def Let_def stream_measure_def split: option.splits if_splits)
next
  case Boundary_suffix
  assume "process_state p = (True, q)"
  with Boundary_suffix process_boundary_suffix_measure [of p q] show ?thesis
    by (simp add: process_state_def stream_measure_def)
qed (simp_all add: process_state_def)

function process_loop :: "streaming_multipart \<Rightarrow> bool \<times> streaming_multipart" where
  "process_loop p =
     (if sm_state p = Sm_done then (True, complete_once p)
      else if sm_state p = Sm_error then (False, p)
      else case process_state p of
             (again, q) \<Rightarrow> if again then process_loop q else (sm_state q \<noteq> Sm_error, q))"
  by pat_completeness auto
termination
  by (relation "measure stream_measure") (auto dest!: process_state_measure [OF sym])

declare process_loop.simps [simp del]

definition sm_append :: "string \<Rightarrow> streaming_multipart \<Rightarrow> bool \<times> streaming_multipart" where
  "sm_append data p =
     (if sm_state p = Sm_done then (data = [], p)
      else if sm_state p = Sm_error then (False, p)
      else process_loop (p\<lparr>sm_buffer := sm_buffer p @ data\<rparr>))"

definition sm_finish :: "streaming_multipart \<Rightarrow> bool \<times> streaming_multipart" where
  "sm_finish p =
     (case process_loop p of
        (ok, q) \<Rightarrow>
          if \<not> ok then (False, q)
          else if sm_state q \<noteq> Sm_done then (False, sm_fail ''multipart body ended before final boundary'' q)
          else (True, complete_once q))"

end
