(* ===== verification/Streaming_Multipart_Laws.thy ===== *)
theory Streaming_Multipart_Laws
  imports Streaming_Multipart
begin

text \<open>
  The streaming parser, fed a body in any segments, reports the parts the in-memory parser finds in
  the whole body.
\<close>

subsection \<open>The parts of a closed body\<close>

text \<open>The parts from a boundary on, when the body ends at the closing \<open>--\<close> and fields are within the limit.\<close>

function closed_parts :: "multipart_options \<Rightarrow> streaming_options \<Rightarrow> string \<Rightarrow> string \<Rightarrow> multipart_part list option" where
  "closed_parts mo so marker rest =
     (if rest = ''--'' then Some []
      else case multipart_step mo marker rest [] of
             Inl _ \<Rightarrow> None
           | Inr (part, rest') \<Rightarrow>
               if \<not> is_file part \<and> so_max_field_bytes so < length (mp_body part) then None
               else map_option ((#) part) (closed_parts mo so marker rest'))"
  by pat_completeness auto
termination
  by (relation "measure (\<lambda>(mo, so, marker, rest). length rest)") (auto dest: multipart_step_shorter)

declare closed_parts.simps [simp del]

definition next_part :: "multipart_options \<Rightarrow> string \<Rightarrow> string \<Rightarrow> nat \<Rightarrow> multipart_part \<Rightarrow> nat \<Rightarrow> bool" where
  "next_part mo marker r header_end part i \<longleftrightarrow>
     find_str crlf2 r = Some header_end \<and> header_end \<le> max_header_bytes mo \<and>
     (\<exists>h. parse_part_headers (take header_end r) [] = Some h \<and> part_of_headers h = Some part) \<and>
     find_str (crlf @ marker) (drop (header_end + 4) r) = Some i"

definition with_body :: "string \<Rightarrow> multipart_part \<Rightarrow> multipart_part" where
  "with_body b part = part\<lparr>mp_body := b\<rparr>"

lemma multipart_step_Inr:
  "multipart_step mo marker rest parts = Inr (part, rest') \<longleftrightarrow>
   (\<exists>r header_end p i. rest = crlf @ r \<and> next_part mo marker r header_end p i \<and>
      part = with_body (take i (drop (header_end + 4) r)) p \<and>
      rest' = drop (i + length (crlf @ marker)) (drop (header_end + 4) r))"
proof (cases "starts_with rest crlf")
  case True
  then obtain r where r: "rest = crlf @ r" by (auto simp: starts_with_iff)
  then have "\<not> starts_with rest ''--''" by (simp add: starts_with_def)
  with r show ?thesis
    by (auto simp: multipart_step_def next_part_def with_body_def Let_def starts_with_def not_le
        split: option.splits if_splits)
next
  case False
  then show ?thesis
    by (auto simp: multipart_step_def starts_with_def split: if_splits)
qed

text \<open>A part is found from the bytes up to its delimiter alone.\<close>

lemma next_part_extend:
  assumes "next_part mo marker r h p i"
  shows "next_part mo marker (r @ t) h p i"
proof -
  have h: "find_str crlf2 r = Some h" and i: "find_str (crlf @ marker) (drop (h + 4) r) = Some i"
    using assms by (auto simp: next_part_def)
  have "h + 4 \<le> length r" using find_str_bound [OF _ h] by simp
  then have same: "drop (h + 4) (r @ t) = drop (h + 4) r @ t" "take h (r @ t) = take h r" by simp_all
  show ?thesis
    unfolding next_part_def same
    using assms find_str_extend [OF _ h, of t] find_str_extend [OF _ i, of t] by (simp add: next_part_def)
qed

lemma next_part_cut:
  assumes "next_part mo marker (s @ t) h p i" and "h + 4 + i + length (crlf @ marker) \<le> length s"
  shows "next_part mo marker s h p i"
proof -
  have h: "find_str crlf2 s = Some h"
    using assms by (intro find_str_cut [of _ s t]) (auto simp: next_part_def)
  have "find_str (crlf @ marker) (drop (h + 4) s @ t) = Some i" using assms by (simp add: next_part_def)
  then have "find_str (crlf @ marker) (drop (h + 4) s) = Some i"
    using assms(2) by (intro find_str_cut [of _ "drop (h + 4) s" t]) auto
  with assms h show ?thesis by (simp add: next_part_def)
qed

lemma multipart_step_local:
  assumes "multipart_step mo marker rest parts = Inr (part, rest')"
  obtains x where "rest = x @ rest'" "\<And>y. multipart_step mo marker (x @ y) [] = Inr (part, y)"
proof -
  obtain r h p i where rest: "rest = crlf @ r" and np: "next_part mo marker r h p i"
    and part: "part = with_body (take i (drop (h + 4) r)) p"
    and rest': "rest' = drop (i + length (crlf @ marker)) (drop (h + 4) r)"
    using assms unfolding multipart_step_Inr by blast
  define n where "n = h + 4 + i + length (crlf @ marker)"
  define s where "s = take n r"
  have h: "find_str crlf2 r = Some h" and i: "find_str (crlf @ marker) (drop (h + 4) r) = Some i"
    using np by (auto simp: next_part_def)
  have "i + length (crlf @ marker) \<le> length (drop (h + 4) r)" by (rule find_str_bound [OF _ i]) simp
  moreover have "h + 4 \<le> length r" using find_str_bound [OF _ h] by simp
  ultimately have len: "n \<le> length r" by (simp add: n_def)
  then have ls: "length s = n" by (simp add: s_def)
  have "rest' = drop n r" by (simp only: rest' n_def drop_drop) (simp add: ac_simps)
  then have split: "r = s @ rest'" by (simp add: s_def)
  have "next_part mo marker s h p i"
    using next_part_cut [of mo marker s rest' h p i] np split ls by (simp add: n_def)
  then have np_y: "next_part mo marker (s @ y) h p i" for y by (rule next_part_extend)
  define a where "a = drop (h + 4) s"
  have drop_s: "drop (h + 4) (s @ y) = a @ y" "i + length (crlf @ marker) = length a" for y
  proof -
    have "h + 4 - length s = 0" using ls by (simp add: n_def)
    then show "drop (h + 4) (s @ y) = a @ y" by (simp only: drop_append drop0 a_def)
    show "i + length (crlf @ marker) = length a" using ls by (simp add: n_def a_def)
  qed
  have "take i (drop (h + 4) (s @ y)) = take i (drop (h + 4) r)" for y
    using drop_s(2) unfolding split drop_s(1) by (simp only: take_append) simp
  moreover have "drop (i + length (crlf @ marker)) (drop (h + 4) (s @ y)) = y" for y
    by (simp only: drop_s) simp
  ultimately have "multipart_step mo marker ((crlf @ s) @ y) [] = Inr (part, y)" for y
    unfolding multipart_step_Inr using np_y part by (metis append.assoc)
  moreover have "rest = (crlf @ s) @ rest'" using rest split by simp
  ultimately show ?thesis by (rule that [rotated])
qed

definition fields_fit :: "streaming_options \<Rightarrow> multipart_part list \<Rightarrow> bool" where
  "fields_fit so parts \<longleftrightarrow> (\<forall>p \<in> set parts. is_file p \<or> length (mp_body p) \<le> so_max_field_bytes so)"

lemma multipart_loop_closed:
  assumes "mr_error (multipart_loop mo marker rest parts) = Mp_none"
  shows "\<exists>closing epilogue ps. rest = closing @ epilogue \<and>
    mr_parts (multipart_loop mo marker rest parts) = parts @ ps \<and>
    (fields_fit so ps \<longrightarrow> closed_parts mo so marker closing = Some ps)"
  using assms
proof (induction mo marker rest parts rule: multipart_loop.induct)
  case (1 mo marker rest parts)
  show ?case
  proof (cases "multipart_step mo marker rest parts")
    case (Inl result)
    then have "starts_with rest ''--'' \<and> mr_parts result = parts"
      using 1(2) by (auto simp: multipart_loop.simps [of mo marker rest parts] multipart_step_def mp_failure_def Let_def
          split: if_splits option.splits)
    then obtain t where "rest = ''--'' @ t" "mr_parts result = parts" by (auto simp: starts_with_iff)
    moreover have "closed_parts mo so marker ''--'' = Some []" by (simp add: closed_parts.simps [of mo so marker "''--''"])
    moreover have "multipart_loop mo marker rest parts = result"
      using Inl by (simp add: multipart_loop.simps [of mo marker rest parts])
    ultimately show ?thesis
      by (intro exI [of _ "''--''"] exI [of _ t] exI [of _ "[]"]) simp
  next
    case (Inr pr)
    obtain part rest' where pr: "pr = (part, rest')" by fastforce
    have fits: "\<not> max_parts mo < length (parts @ [part])"
      using 1(2) Inr pr by (auto simp: multipart_loop.simps [of mo marker rest parts] mp_failure_def Let_def split: if_splits)
    then have loop: "multipart_loop mo marker rest parts = multipart_loop mo marker rest' (parts @ [part])"
      using Inr pr by (simp add: multipart_loop.simps [of mo marker rest parts])
    obtain closing epilogue ps where IH: "rest' = closing @ epilogue"
        "mr_parts (multipart_loop mo marker rest' (parts @ [part])) = (parts @ [part]) @ ps"
        "fields_fit so ps \<longrightarrow> closed_parts mo so marker closing = Some ps"
      using 1(1) [OF Inr pr [symmetric] refl fits] 1(2) loop by auto
    obtain x where x: "rest = x @ rest'" "\<And>y. multipart_step mo marker (x @ y) [] = Inr (part, y)"
      using multipart_step_local Inr pr by metis
    have "multipart_step mo marker ''--'' [] \<noteq> Inr (part, closing)" by (simp add: multipart_step_def starts_with_def)
    then have "x @ closing \<noteq> ''--''" using x(2) [of closing] by metis
    then have "closed_parts mo so marker (x @ closing) = Some (part # ps)" if "fields_fit so (part # ps)"
      using that x(2) IH(3) by (auto simp: closed_parts.simps [of mo so marker "x @ closing"] fields_fit_def)
    with IH x(1) loop show ?thesis
      by (intro exI [of _ "x @ closing"] exI [of _ epilogue] exI [of _ "part # ps"]) simp
  qed
qed

end
