(* ===== verification/Streaming_Multipart_Equiv.thy ===== *)
theory Streaming_Multipart_Equiv
  imports Streaming_Multipart_Laws
begin

text \<open>The simulation between the streaming parser and the parts of the whole body.\<close>

subsection \<open>What the callbacks have reported\<close>

fun add_event :: "multipart_part list \<Rightarrow> stream_event \<Rightarrow> multipart_part list" where
  "add_event parts (Ev_part part) = parts @ [part]"
| "add_event parts (Ev_data data) = butlast parts @ [with_body (mp_body (last parts) @ data) (last parts)]"
| "add_event parts Ev_complete = parts"

definition reported :: "streaming_multipart \<Rightarrow> multipart_part list" where
  "reported p = foldl add_event [] (sm_events p)"

text \<open>A form field is reported without its data, which the parser only counts.\<close>

definition reported_part :: "multipart_part \<Rightarrow> multipart_part" where
  "reported_part part = (if is_file part then part else with_body [] part)"

lemma with_body_simps [simp]:
  "with_body a (with_body b part) = with_body a part" "is_file (with_body a part) = is_file part"
  "mp_body (with_body a part) = a" "with_body (mp_body part) part = part"
  by (simp_all add: with_body_def is_file_def)

lemma part_of_headers_body: "part_of_headers h = Some part \<Longrightarrow> mp_body part = []"
  by (auto simp: part_of_headers_def Let_def split: if_splits)

subsection \<open>The invariant\<close>

text \<open>
  \<open>awaits mo p r goal\<close>: with the bytes \<open>r\<close> not yet consumed, the parser \<open>p\<close> will report \<open>goal\<close>.
\<close>

fun awaits_state :: "multipart_options \<Rightarrow> streaming_multipart \<Rightarrow> string \<Rightarrow> multipart_part list \<Rightarrow> stream_state \<Rightarrow> bool" where
  "awaits_state mo p r goal First_boundary \<longleftrightarrow>
     (\<exists>r' ps. r = sm_marker p @ r' \<and> closed_parts mo (sm_options p) (sm_marker p) r' = Some ps \<and>
        reported p @ map reported_part ps = goal)"
| "awaits_state mo p r goal Boundary_suffix \<longleftrightarrow>
     (\<exists>ps. closed_parts mo (sm_options p) (sm_marker p) r = Some ps \<and> reported p @ map reported_part ps = goal)"
| "awaits_state mo p r goal Sm_headers \<longleftrightarrow>
     (\<exists>ps. closed_parts mo (sm_options p) (sm_marker p) (crlf @ r) = Some ps \<and>
        reported p @ map reported_part ps = goal)"
| "awaits_state mo p r goal Sm_body \<longleftrightarrow>
     (\<exists>before b i ps. find_str (sm_delimiter p) r = Some i \<and> reported p = before @ [with_body b (sm_part p)] \<and>
        (\<not> is_file (sm_part p) \<longrightarrow> sm_field_bytes p + i \<le> so_max_field_bytes (sm_options p)) \<and>
        closed_parts mo (sm_options p) (sm_marker p) (drop (i + length (sm_delimiter p)) r) = Some ps \<and>
        before @ with_body (b @ (if is_file (sm_part p) then take i r else [])) (sm_part p) # map reported_part ps = goal)"
| "awaits_state mo p r goal Sm_done \<longleftrightarrow> r = [] \<and> reported p = goal"
| "awaits_state mo p r goal Sm_error \<longleftrightarrow> False"

definition awaits :: "multipart_options \<Rightarrow> streaming_multipart \<Rightarrow> string \<Rightarrow> multipart_part list \<Rightarrow> bool" where
  "awaits mo p r goal \<longleftrightarrow> sm_delimiter p = crlf @ sm_marker p \<and> sm_message p = [] \<and>
     (sm_completed p \<longleftrightarrow> sm_state p = Sm_done) \<and> (Ev_complete \<in> set (sm_events p) \<longleftrightarrow> sm_state p = Sm_done) \<and>
     max_header_bytes mo + 3 \<le> so_max_header_bytes (sm_options p) \<and>
     awaits_state mo p r goal (sm_state p)"

lemma closed_parts_cases:
  assumes "closed_parts mo so marker rest = Some ps"
  obtains "rest = ''--''" "ps = []"
  | r h part i ps' where "rest = crlf @ r" "next_part mo marker r h part i"
      "is_file part \<or> i \<le> so_max_field_bytes so"
      "ps = with_body (take i (drop (h + 4) r)) part # ps'"
      "closed_parts mo so marker (drop (i + length (crlf @ marker)) (drop (h + 4) r)) = Some ps'"
proof (cases "rest = ''--''")
  case True
  with assms show ?thesis by (intro that(1)) (simp_all add: closed_parts.simps [of mo so marker "''--''"])
next
  case False
  obtain part rest' ps' where step: "multipart_step mo marker rest [] = Inr (part, rest')"
      "\<not> (\<not> is_file part \<and> so_max_field_bytes so < length (mp_body part))"
      "ps = part # ps'" "closed_parts mo so marker rest' = Some ps'"
    using assms False by (auto simp: closed_parts.simps [of mo so marker rest] split: sum.splits if_splits)
  obtain r h p i where r: "rest = crlf @ r" "next_part mo marker r h p i"
      "part = with_body (take i (drop (h + 4) r)) p"
      "rest' = drop (i + length (crlf @ marker)) (drop (h + 4) r)"
    using step(1) unfolding multipart_step_Inr by blast
  have "find_str (crlf @ marker) (drop (h + 4) r) = Some i" using r(2) by (simp add: next_part_def)
  then have "i + length (crlf @ marker) \<le> length (drop (h + 4) r)" by (rule find_str_bound [rotated]) simp
  then have "length (take i (drop (h + 4) r)) = i" by simp
  with r step show ?thesis by (intro that(2) [of r h p i ps']) auto
qed

lemma closed_parts_crlf:
  assumes "closed_parts mo so marker (crlf @ r) = Some ps"
  obtains h part i ps' where "next_part mo marker r h part i" "is_file part \<or> i \<le> so_max_field_bytes so"
    "ps = with_body (take i (drop (h + 4) r)) part # ps'"
    "closed_parts mo so marker (drop (i + length (crlf @ marker)) (drop (h + 4) r)) = Some ps'"
  using assms
proof (cases rule: closed_parts_cases)
  case (2 r' h part i ps')
  then have "r' = r" by simp
  with 2 show ?thesis by (intro that [of h part i ps']) simp_all
qed simp

subsection \<open>The steps\<close>

lemma reported_simps [simp]:
  "reported (p\<lparr>sm_state := s\<rparr>) = reported p" "reported (erase_front n p) = reported p"
  "reported (p\<lparr>sm_buffer := b\<rparr>) = reported p"
  by (simp_all add: reported_def erase_front_def)

lemma complete_once_done:
  "\<not> sm_completed p \<Longrightarrow> complete_once p = p\<lparr>sm_completed := True, sm_events := sm_events p @ [Ev_complete]\<rparr>"
  by (simp add: complete_once_def sm_emit_def)

lemma process_boundary_suffix_awaits:
  assumes "awaits mo (p\<lparr>sm_state := Boundary_suffix\<rparr>) (sm_buffer p @ f) goal"
    and "sm_state p \<noteq> Sm_done" and "2 \<le> length (sm_buffer p)"
  shows "\<exists>q. process_boundary_suffix p = (True, q) \<and> awaits mo q (sm_buffer q @ f) goal"
proof -
  obtain ps where ps: "closed_parts mo (sm_options p) (sm_marker p) (sm_buffer p @ f) = Some ps"
      "reported p @ map reported_part ps = goal"
    using assms(1) by (auto simp: awaits_def)
  have inv: "sm_delimiter p = crlf @ sm_marker p" "sm_message p = []" "\<not> sm_completed p"
      "Ev_complete \<notin> set (sm_events p)" "max_header_bytes mo + 3 \<le> so_max_header_bytes (sm_options p)"
    using assms(1) by (auto simp: awaits_def)
  from ps(1) show ?thesis
  proof (cases rule: closed_parts_cases)
    case 1
    then have b: "sm_buffer p = ''--'' \<and> f = []" using assms(3) by (auto simp: append_eq_Cons_conv)
    then show ?thesis
      using ps(2) 1 inv b
      by (simp add: process_boundary_suffix_def starts_with_def erase_front_def complete_once_done awaits_def reported_def)
  next
    case (2 r h part i ps')
    then obtain b where b: "sm_buffer p = crlf @ b" "r = b @ f"
      using assms(3) by (auto simp: append_eq_Cons_conv)
    have "awaits mo ((erase_front 2 p)\<lparr>sm_state := Sm_headers\<rparr>) (b @ f) goal"
      using ps inv 2(1) b by (simp add: awaits_def erase_front_def reported_def)
    then show ?thesis using b by (simp add: process_boundary_suffix_def starts_with_def erase_front_def)
  qed
qed

text \<open>A step either goes on with the invariant kept, or it has to wait for bytes still to come.\<close>

definition step_ok :: "multipart_options \<Rightarrow> bool \<times> streaming_multipart \<Rightarrow> string \<Rightarrow> multipart_part list \<Rightarrow> bool" where
  "step_ok mo bq f goal \<longleftrightarrow>
     (case bq of (again, q) \<Rightarrow> awaits mo q (sm_buffer q @ f) goal \<and> (\<not> again \<longrightarrow> f \<noteq> []))"

lemma awaits_suffix_wait:
  assumes "awaits mo p (sm_buffer p @ f) goal" and "sm_state p = Boundary_suffix" and "length (sm_buffer p) < 2"
  shows "f \<noteq> []"
proof -
  obtain ps where "closed_parts mo (sm_options p) (sm_marker p) (sm_buffer p @ f) = Some ps"
    using assms(1,2) by (auto simp: awaits_def)
  then have "2 \<le> length (sm_buffer p @ f)" by (cases rule: closed_parts_cases) auto
  with assms(3) show ?thesis by auto
qed

lemma process_suffix_ok:
  assumes "awaits mo p (sm_buffer p @ f) goal" and "sm_state p = Boundary_suffix"
  shows "step_ok mo (process_boundary_suffix p) f goal"
proof (cases "length (sm_buffer p) < 2")
  case True
  with assms awaits_suffix_wait [OF assms] show ?thesis by (simp add: process_boundary_suffix_def step_ok_def)
next
  case False
  have "p\<lparr>sm_state := Boundary_suffix\<rparr> = p" using assms(2) by simp
  with assms False process_boundary_suffix_awaits [of mo p f goal] show ?thesis by (auto simp: step_ok_def)
qed

lemma process_first_ok:
  assumes "awaits mo p (sm_buffer p @ f) goal" and "sm_state p = First_boundary"
  shows "step_ok mo (process_first_boundary p) f goal"
proof -
  obtain r ps where r: "sm_buffer p @ f = sm_marker p @ r" "closed_parts mo (sm_options p) (sm_marker p) r = Some ps"
      "reported p @ map reported_part ps = goal"
    using assms by (auto simp: awaits_def)
  show ?thesis
  proof (cases "length (sm_buffer p) < length (sm_marker p) + 2")
    case True
    have "2 \<le> length r" using r(2) by (cases rule: closed_parts_cases) auto
    then have "length (sm_buffer p) < length (sm_buffer p @ f)" using True r(1) by simp
    with True assms show ?thesis by (simp add: process_first_boundary_def step_ok_def)
  next
    case False
    then obtain b where b: "sm_buffer p = sm_marker p @ b" "r = b @ f"
      using r(1) by (metis append_eq_append_conv_if append_eq_conv_conj add_leD1 not_less)
    define q where "q = erase_front (length (sm_marker p)) p"
    have q: "sm_buffer q = b" "sm_state q = First_boundary" using b assms(2) by (simp_all add: q_def)
    have "awaits mo (q\<lparr>sm_state := Boundary_suffix\<rparr>) (sm_buffer q @ f) goal"
      using assms r b by (simp add: awaits_def q_def erase_front_def reported_def)
    from process_boundary_suffix_awaits [OF this] q b False
    obtain q' where "process_boundary_suffix q = (True, q')" "awaits mo q' (sm_buffer q' @ f) goal" by auto
    then show ?thesis
      using False b(1) by (simp add: process_first_boundary_def step_ok_def q_def starts_with_append)
  qed
qed

lemma process_headers_ok:
  assumes "awaits mo p (sm_buffer p @ f) goal" and "sm_state p = Sm_headers"
  shows "step_ok mo (process_headers p) f goal"
proof -
  let ?b = "sm_buffer p"
  have inv: "sm_delimiter p = crlf @ sm_marker p" "sm_message p = []" "\<not> sm_completed p"
      "Ev_complete \<notin> set (sm_events p)" "max_header_bytes mo + 3 \<le> so_max_header_bytes (sm_options p)"
    using assms by (auto simp: awaits_def)
  obtain ps where ps: "closed_parts mo (sm_options p) (sm_marker p) (crlf @ ?b @ f) = Some ps"
      "reported p @ map reported_part ps = goal"
    using assms by (auto simp: awaits_def)
  from ps(1) obtain h part i ps' where np: "next_part mo (sm_marker p) (?b @ f) h part i"
    and field: "is_file part \<or> i \<le> so_max_field_bytes (sm_options p)"
    and ps': "ps = with_body (take i (drop (h + 4) (?b @ f))) part # ps'"
    and rest: "closed_parts mo (sm_options p) (sm_marker p)
        (drop (i + length (crlf @ sm_marker p)) (drop (h + 4) (?b @ f))) = Some ps'"
    by (rule closed_parts_crlf)
  have find: "find_str crlf2 (?b @ f) = Some h" and h: "h \<le> max_header_bytes mo" using np by (auto simp: next_part_def)
  show ?thesis
  proof (cases "find_str crlf2 ?b")
    case None
    from find_str_unfound [OF _ find None] have "length ?b < h + 4" "f \<noteq> []" by simp_all
    with None h inv(5) assms(1) show ?thesis by (simp add: process_headers_def step_ok_def)
  next
    case (Some h')
    then have h': "find_str crlf2 ?b = Some h" using find_str_same [OF _ find Some] by simp
    then have len: "h + 4 \<le> length ?b" using find_str_bound [OF _ h'] by simp
    define d where "d = drop (h + 4) (?b @ f)"
    have pre: "take h (?b @ f) = take h ?b" "drop (h + 4) ?b @ f = d" using len by (simp_all add: d_def)
    obtain hd where hd: "parse_part_headers (take h ?b) [] = Some hd" "part_of_headers hd = Some part"
      using np pre(1) by (auto simp: next_part_def)
    define q where "q = (erase_front (h + 4) (sm_emit (Ev_part part) (p\<lparr>sm_part := part, sm_field_bytes := 0\<rparr>)))
        \<lparr>sm_state := Sm_body\<rparr>"
    have step: "process_headers p = (True, q)"
      using h' hd h inv(5) by (simp add: process_headers_def q_def)
    have q: "sm_buffer q = drop (h + 4) ?b" "sm_delimiter q = crlf @ sm_marker p" "sm_options q = sm_options p"
        "sm_marker q = sm_marker p" "sm_part q = part" "sm_field_bytes q = 0" "sm_state q = Sm_body"
        "sm_message q = []" "\<not> sm_completed q" "Ev_complete \<notin> set (sm_events q)" "reported q = reported p @ [part]"
      using inv by (simp_all add: q_def erase_front_def sm_emit_def reported_def)
    have "find_str (crlf @ sm_marker p) d = Some i" unfolding d_def using np by (simp only: next_part_def)
    moreover have "part = with_body [] part" using part_of_headers_body [OF hd(2)] by (metis with_body_simps(4))
    moreover have "reported p @ with_body ([] @ (if is_file part then take i d else [])) part # map reported_part ps' = goal"
      using ps(2) unfolding ps' d_def [symmetric] by (cases "is_file part") (simp_all add: reported_part_def)
    ultimately have "awaits_state mo q d goal Sm_body"
      unfolding awaits_state.simps q
      using rest [folded d_def] field
      by - (rule exI [of _ "reported p"], rule exI [of _ "[]"], rule exI [of _ i], rule exI [of _ ps'], cases "is_file part"; simp)
    then have "awaits mo q (sm_buffer q @ f) goal" unfolding q(1) pre(2) using q inv(5) by (simp add: awaits_def)
    with step show ?thesis by (simp add: step_ok_def)
  qed
qed


text \<open>Emitting part data, when the limit on fields allows it.\<close>

lemma emit_data_ok:
  assumes "reported p = before @ [with_body b (sm_part p)]" and "sm_events p \<noteq> []"
    and "\<not> is_file (sm_part p) \<longrightarrow> sm_field_bytes p + length data \<le> so_max_field_bytes (sm_options p)"
  shows "\<exists>es n. emit_data data p = p\<lparr>sm_events := sm_events p @ es, sm_field_bytes := n\<rparr> \<and> Ev_complete \<notin> set es \<and>
    reported (emit_data data p) = before @ [with_body (b @ (if is_file (sm_part p) then data else [])) (sm_part p)] \<and>
    (\<not> is_file (sm_part p) \<longrightarrow> n = sm_field_bytes p + length data)"
proof -
  consider "data = []" | "data \<noteq> []" "\<not> is_file (sm_part p)" | "data \<noteq> []" "is_file (sm_part p)" by blast
  then show ?thesis
  proof cases
    case 1
    then show ?thesis using assms(1)
      by (intro exI [of _ "[]"] exI [of _ "sm_field_bytes p"]) (simp add: emit_data_def)
  next
    case 2
    then have "emit_data data p = p\<lparr>sm_field_bytes := sm_field_bytes p + length data\<rparr>"
      using assms(3) by (simp add: emit_data_def Let_def)
    then show ?thesis using assms(1) 2
      by (intro exI [of _ "[]"] exI [of _ "sm_field_bytes p + length data"]) (simp add: reported_def)
  next
    case 3
    then have "emit_data data p = p\<lparr>sm_events := sm_events p @ [Ev_data data]\<rparr>" by (simp add: emit_data_def sm_emit_def)
    then show ?thesis using assms(1) 3
      by (intro exI [of _ "[Ev_data data]"] exI [of _ "sm_field_bytes p"]) (simp add: reported_def)
  qed
qed

lemma process_body_ok:
  assumes "awaits mo p (sm_buffer p @ f) goal" and "sm_state p = Sm_body"
  shows "step_ok mo (process_body p) f goal"
proof -
  let ?b = "sm_buffer p" and ?d = "sm_delimiter p"
  have inv: "?d = crlf @ sm_marker p" "sm_message p = []" "\<not> sm_completed p"
      "Ev_complete \<notin> set (sm_events p)" "max_header_bytes mo + 3 \<le> so_max_header_bytes (sm_options p)"
    using assms by (auto simp: awaits_def)
  have ne: "?d \<noteq> []" using inv(1) by simp
  define r where "r = ?b @ f"
  have "awaits_state mo p r goal (sm_state p)" using assms(1) unfolding awaits_def r_def by blast
  then have "awaits_state mo p r goal Sm_body" by (simp only: assms(2))
  then obtain before b i ps where find: "find_str ?d r = Some i"
    and rep: "reported p = before @ [with_body b (sm_part p)]"
    and field: "\<not> is_file (sm_part p) \<longrightarrow> sm_field_bytes p + i \<le> so_max_field_bytes (sm_options p)"
    and rest: "closed_parts mo (sm_options p) (sm_marker p) (drop (i + length ?d) r) = Some ps"
    and goal: "before @ with_body (b @ (if is_file (sm_part p) then take i r else [])) (sm_part p) # map reported_part ps = goal"
    unfolding awaits_state.simps by blast
  have events: "sm_events p \<noteq> []" using rep by (auto simp: reported_def)
  show ?thesis
  proof (cases "find_str ?d ?b")
    case (Some j)
    then have j: "find_str ?d ?b = Some i" using find_str_same [OF ne find [unfolded r_def] Some] by simp
    then have len: "i + length ?d \<le> length ?b" by (rule find_str_bound [OF ne])
    have pre: "take i r = take i ?b" "drop (i + length ?d) r = drop (i + length ?d) ?b @ f" using len by (simp_all add: r_def)
    have data: "length (take i ?b) = i" using len by simp
    have fits: "\<not> is_file (sm_part p) \<longrightarrow> sm_field_bytes p + length (take i ?b) \<le> so_max_field_bytes (sm_options p)"
      using field data by simp
    obtain es n where e: "emit_data (take i ?b) p = p\<lparr>sm_events := sm_events p @ es, sm_field_bytes := n\<rparr>" "Ev_complete \<notin> set es"
        "reported (emit_data (take i ?b) p) = before @ [with_body (b @ (if is_file (sm_part p) then take i ?b else [])) (sm_part p)]"
      using emit_data_ok [OF rep events fits] by blast
    define q where "q = (erase_front (i + length ?d) (emit_data (take i ?b) p))\<lparr>sm_state := Boundary_suffix\<rparr>"
    have "process_body p = (True, q)" using j by (simp add: process_body_def q_def Let_def)
    moreover have "reported q = before @ [with_body (b @ (if is_file (sm_part p) then take i ?b else [])) (sm_part p)]"
      using e(3) by (simp add: q_def)
    then have "reported q @ map reported_part ps = goal"
      using goal pre(1) by (cases "is_file (sm_part p)") simp_all
    moreover have "sm_buffer q = drop (i + length ?d) ?b" "sm_delimiter q = ?d" "sm_marker q = sm_marker p"
        "sm_options q = sm_options p" "sm_state q = Boundary_suffix" "sm_message q = []" "\<not> sm_completed q"
        "Ev_complete \<notin> set (sm_events q)"
      using inv e(1,2) by (simp_all add: q_def erase_front_def)
    ultimately show ?thesis using rest pre(2) inv by (simp add: step_ok_def awaits_def)
  next
    case None
    from find_str_unfound [OF ne find [unfolded r_def] None] have short: "length ?b < i + length ?d" and f: "f \<noteq> []" by simp_all
    show ?thesis
    proof (cases "length ?b \<le> length ?d - 1")
      case True
      then show ?thesis using None f assms(1) by (simp add: process_body_def step_ok_def)
    next
      case False
      define m where "m = length ?b - (length ?d - 1)"
      have m: "0 < m" "m \<le> i" "m \<le> length ?b" using False short ne by (auto simp: m_def)
      have pre: "take i r = take m ?b @ take (i - m) (drop m ?b @ f)" "drop m r = drop m ?b @ f"
      proof -
        show *: "drop m r = drop m ?b @ f" using m by (simp add: r_def)
        have "take i r = take m r @ take (i - m) (drop m r)" using m(2) by (metis le_add_diff_inverse take_add)
        then show "take i r = take m ?b @ take (i - m) (drop m ?b @ f)" using m(3) * by (simp add: r_def)
      qed
      have data: "length (take m ?b) = m" using m by simp
      have fits: "\<not> is_file (sm_part p) \<longrightarrow> sm_field_bytes p + length (take m ?b) \<le> so_max_field_bytes (sm_options p)"
        using field data m(2) by auto
      obtain es n where e: "emit_data (take m ?b) p = p\<lparr>sm_events := sm_events p @ es, sm_field_bytes := n\<rparr>" "Ev_complete \<notin> set es"
          "reported (emit_data (take m ?b) p) = before @ [with_body (b @ (if is_file (sm_part p) then take m ?b else [])) (sm_part p)]"
          "\<not> is_file (sm_part p) \<longrightarrow> n = sm_field_bytes p + m"
        using emit_data_ok [OF rep events fits] unfolding data by blast
      define q where "q = erase_front m (emit_data (take m ?b) p)"
      have step: "process_body p = (False, q)" using None False by (simp add: process_body_def q_def Let_def m_def min_def)
      have q: "sm_buffer q = drop m ?b" "sm_delimiter q = ?d" "sm_marker q = sm_marker p" "sm_part q = sm_part p"
          "sm_options q = sm_options p" "sm_state q = Sm_body" "sm_message q = []" "\<not> sm_completed q"
          "Ev_complete \<notin> set (sm_events q)" "sm_field_bytes q = n"
          "reported q = before @ [with_body (b @ (if is_file (sm_part p) then take m ?b else [])) (sm_part p)]"
        using inv e assms(2) by (simp_all add: q_def erase_front_def)
      have "find_str ?d (drop m r) = Some (i - m)" using find_str_drop [OF ne find m(2)] .
      moreover have "drop (i - m + length ?d) (drop m r) = drop (i + length ?d) r" using m(2) by simp
      moreover have "before @ with_body ((b @ (if is_file (sm_part p) then take m ?b else [])) @
          (if is_file (sm_part p) then take (i - m) (drop m ?b @ f) else [])) (sm_part p) # map reported_part ps = goal"
        using goal pre(1) by (cases "is_file (sm_part p)") simp_all
      ultimately have "awaits_state mo q (drop m r) goal Sm_body"
        unfolding awaits_state.simps q pre(2) [symmetric]
        using rest field e(4) m(2)
        by - (rule exI [of _ before], rule exI [of _ "b @ (if is_file (sm_part p) then take m ?b else [])"],
            rule exI [of _ "i - m"], rule exI [of _ ps], cases "is_file (sm_part p)"; simp)
      then have "awaits mo q (sm_buffer q @ f) goal" using q inv pre(2) by (simp add: awaits_def)
      with step f show ?thesis by (simp add: step_ok_def)
    qed
  qed
qed


subsection \<open>The loop and the calls\<close>

lemma process_state_ok:
  assumes "awaits mo p (sm_buffer p @ f) goal" and "sm_state p \<noteq> Sm_done"
  shows "step_ok mo (process_state p) f goal"
proof (cases "sm_state p")
  case Sm_error
  with assms(1) show ?thesis by (simp add: awaits_def)
qed (use assms process_first_ok process_headers_ok process_body_ok process_suffix_ok in
    \<open>simp_all add: process_state_def\<close>)

lemma process_loop_ok:
  "awaits mo p (sm_buffer p @ f) goal \<Longrightarrow>
   \<exists>q. process_loop p = (True, q) \<and> awaits mo q (sm_buffer q @ f) goal \<and> (f = [] \<longrightarrow> sm_state q = Sm_done)"
proof (induction p rule: process_loop.induct)
  case (1 p)
  show ?case
  proof (cases "sm_state p = Sm_done")
    case True
    then have "complete_once p = p" using 1(2) by (simp add: awaits_def complete_once_def)
    with True 1(2) show ?thesis by (simp add: process_loop.simps [of p])
  next
    case False
    obtain again q where step: "process_state p = (again, q)" by fastforce
    have q: "awaits mo q (sm_buffer q @ f) goal" "\<not> again \<longrightarrow> f \<noteq> []"
      using process_state_ok [OF 1(2) False] step by (auto simp: step_ok_def)
    have err: "sm_state p \<noteq> Sm_error" "sm_state q \<noteq> Sm_error" using 1(2) q(1) by (auto simp: awaits_def)
    show ?thesis
    proof (cases again)
      case True
      with 1(1) [OF False err(1) step [symmetric] True q(1)] show ?thesis
        using False err step by (simp add: process_loop.simps [of p])
    next
      case again: False
      with False err step q show ?thesis by (auto simp: process_loop.simps [of p])
    qed
  qed
qed

text \<open>A whole delivery: segments in order, then \<open>finish\<close>; a false return stops it.\<close>

fun stream_feed :: "string list \<Rightarrow> streaming_multipart \<Rightarrow> bool \<times> streaming_multipart" where
  "stream_feed [] p = sm_finish p"
| "stream_feed (seg # segs) p =
     (case sm_append seg p of (ok, q) \<Rightarrow> if ok then stream_feed segs q else (False, q))"

lemma sm_append_ok:
  assumes "awaits mo p (sm_buffer p @ seg @ f) goal"
  shows "\<exists>q. sm_append seg p = (True, q) \<and> awaits mo q (sm_buffer q @ f) goal"
proof (cases "sm_state p = Sm_done")
  case True
  with assms show ?thesis by (simp add: sm_append_def awaits_def)
next
  case False
  define p1 where "p1 = p\<lparr>sm_buffer := sm_buffer p @ seg\<rparr>"
  have "awaits_state mo p1 r goal s = awaits_state mo p r goal s" for r s
    by (cases s) (simp_all add: p1_def)
  then have "awaits mo p1 (sm_buffer p1 @ f) goal" using assms by (simp add: awaits_def p1_def)
  moreover have "sm_append seg p = process_loop p1"
    using False assms by (auto simp: sm_append_def p1_def awaits_def)
  ultimately show ?thesis using process_loop_ok by metis
qed

lemma stream_feed_ok:
  "awaits mo p (sm_buffer p @ concat segs) goal \<Longrightarrow>
   \<exists>q. stream_feed segs p = (True, q) \<and> awaits mo q [] goal \<and> sm_state q = Sm_done"
proof (induction segs arbitrary: p)
  case Nil
  then obtain q where q: "process_loop p = (True, q)" "awaits mo q (sm_buffer q) goal" "sm_state q = Sm_done"
    using process_loop_ok [of mo p "[]" goal] by auto
  then have "complete_once q = q" "sm_buffer q = []" by (auto simp: awaits_def complete_once_def)
  with q show ?case by (simp add: sm_finish_def)
next
  case (Cons seg segs)
  then obtain q where "sm_append seg p = (True, q)" "awaits mo q (sm_buffer q @ concat segs) goal"
    using sm_append_ok [of mo p seg "concat segs" goal] by auto
  with Cons.IH [of q] show ?case by simp
qed


subsection \<open>Witness\<close>

definition sample_form :: string where
  "sample_form = ''--b'' @ crlf @ ''Content-Disposition: form-data; name=a'' @ crlf2 @ ''1'' @ crlf @ ''--b'' @ crlf @
     ''Content-Disposition: form-data; name=f; filename=x'' @ crlf2 @ ''data'' @ crlf @ ''--b--''"

definition sample_form_type :: string where
  "sample_form_type = ''multipart/form-data; boundary=b''"

definition roomy_options :: streaming_options where
  "roomy_options = \<lparr>so_max_header_bytes = 64 * 1024 + 3, so_max_field_bytes = 64 * 1024\<rparr>"


text \<open>
  The restriction to the closing boundary is needed: a line end behind it is accepted in the segment
  that brings the boundary and refused in the next one.\<close>

lemma trailing_line_end_depends_on_cut:
  "fst (stream_feed [sample_form @ crlf] (streaming_new ''b'' default_streaming_options)) \<and>
   \<not> fst (stream_feed [sample_form, crlf] (streaming_new ''b'' default_streaming_options))"
  by code_simp

text \<open>
  A form field over the limit whose delimiter is in the same segment does not stop the parser: the
  state set by \<open>fail\<close> is overwritten and \<open>finish\<close> returns true.\<close>

lemma field_limit_overwritten:
  "(case stream_feed [sample_form] (streaming_new ''b'' \<lparr>so_max_header_bytes = 100, so_max_field_bytes = 0\<rparr>) of
      (ok, q) \<Rightarrow> ok \<and> sm_complete q \<and> \<not> sm_ok q)"
  by code_simp

end
