(* ===== verification/Body_Stream.thy ===== *)
theory Body_Stream
  imports Prelude
begin

text \<open>
  \<open>HttpRequestBodyStream\<close> (src/src/http/http_request_body_stream.cpp): the handle through which a
  handler receives a request body and exerts back-pressure. The shared state is the record; a call
  under its mutex is one step. Which callbacks ran, in order, is recorded. Of the user's data callback
  only what it does to the stream matters: whether it pauses reading on a given chunk.
\<close>

datatype body_event = Bs_data string | Bs_complete | Bs_cancel | Bs_pause | Bs_resume

record body_stream =
  bs_data_callback :: "(string \<Rightarrow> bool) option"
  bs_complete_callback :: bool
  bs_cancel_callback :: bool
  bs_pause_callback :: bool
  bs_resume_callback :: bool
  bs_completed :: bool
  bs_canceled :: bool
  bs_reading_paused :: bool
  bs_events :: "body_event list"

definition body_stream_new :: body_stream where
  "body_stream_new =
     \<lparr>bs_data_callback = None, bs_complete_callback = False, bs_cancel_callback = False,
      bs_pause_callback = False, bs_resume_callback = False, bs_completed = False, bs_canceled = False,
      bs_reading_paused = False, bs_events = []\<rparr>"

definition bs_emit :: "body_event \<Rightarrow> body_stream \<Rightarrow> body_stream" where
  "bs_emit e b = b\<lparr>bs_events := bs_events b @ [e]\<rparr>"

definition pause_reading :: "body_stream \<Rightarrow> body_stream" where
  "pause_reading b =
     (if bs_reading_paused b then b
      else
        let b1 = b\<lparr>bs_reading_paused := True\<rparr>
        in if bs_pause_callback b1 then bs_emit Bs_pause b1 else b1)"

definition resume_reading :: "body_stream \<Rightarrow> body_stream" where
  "resume_reading b =
     (if \<not> bs_reading_paused b then b
      else
        let b1 = b\<lparr>bs_reading_paused := False\<rparr>
        in if bs_resume_callback b1 then bs_emit Bs_resume b1 else b1)"

definition bs_on_data :: "string \<Rightarrow> body_stream \<Rightarrow> body_stream" where
  "bs_on_data chunk b =
     (if chunk = [] then b
      else if bs_canceled b \<or> bs_completed b then b
      else case bs_data_callback b of
             None \<Rightarrow> b
           | Some pauses \<Rightarrow>
               let b1 = bs_emit (Bs_data chunk) b in if pauses chunk then pause_reading b1 else b1)"

definition bs_on_complete :: "body_stream \<Rightarrow> body_stream" where
  "bs_on_complete b =
     (if bs_canceled b then b
      else if bs_completed b then b
      else
        let callback = bs_complete_callback b;
            b1 = b\<lparr>bs_completed := True, bs_complete_callback := False, bs_data_callback := None,
                   bs_cancel_callback := False, bs_pause_callback := False, bs_resume_callback := False\<rparr>
        in if callback then bs_emit Bs_complete b1 else b1)"

definition bs_on_cancel :: "body_stream \<Rightarrow> body_stream" where
  "bs_on_cancel b =
     (if bs_canceled b then b
      else
        let b1 = b\<lparr>bs_canceled := True\<rparr>
        in if bs_completed b1 then b1
           else
             let callback = bs_cancel_callback b1;
                 b2 = b1\<lparr>bs_cancel_callback := False, bs_data_callback := None, bs_complete_callback := False,
                         bs_pause_callback := False, bs_resume_callback := False\<rparr>
             in if callback then bs_emit Bs_cancel b2 else b2)"

text \<open>What the data callback has been given.\<close>

fun event_data :: "body_event \<Rightarrow> string" where
  "event_data (Bs_data d) = d"
| "event_data _ = []"

definition delivered :: "body_stream \<Rightarrow> string" where
  "delivered b = concat (map event_data (bs_events b))"

subsection \<open>Laws\<close>

named_theorems body_stream_defs

lemmas [body_stream_defs] = bs_emit_def pause_reading_def resume_reading_def bs_on_data_def bs_on_complete_def
  bs_on_cancel_def Let_def

text \<open>A stream on which a handler still waits for data.\<close>

definition listening :: "body_stream \<Rightarrow> bool" where
  "listening b \<longleftrightarrow> bs_data_callback b \<noteq> None \<and> bs_complete_callback b \<and> \<not> bs_completed b \<and> \<not> bs_canceled b \<and>
     Bs_complete \<notin> set (bs_events b)"

lemma on_data_listening:
  assumes "listening b"
  shows "listening (bs_on_data chunk b)" and "delivered (bs_on_data chunk b) = delivered b @ chunk"
    and "bs_reading_paused b \<Longrightarrow> bs_reading_paused (bs_on_data chunk b)"
  using assms by (auto simp: listening_def delivered_def body_stream_defs split: option.splits)

lemma pause_listening [simp]:
  "listening (pause_reading b) = listening b" "delivered (pause_reading b) = delivered b"
  "bs_reading_paused (pause_reading b)"
  by (auto simp: listening_def delivered_def body_stream_defs)

lemma resume_listening [simp]:
  "listening (resume_reading b) = listening b" "delivered (resume_reading b) = delivered b"
  "\<not> bs_reading_paused (resume_reading b)"
  by (auto simp: listening_def delivered_def body_stream_defs)

lemma on_complete_listening:
  assumes "listening b"
  shows "bs_completed (bs_on_complete b)" and "delivered (bs_on_complete b) = delivered b"
    and "bs_events (bs_on_complete b) = bs_events b @ [Bs_complete]"
  using assms by (auto simp: listening_def delivered_def body_stream_defs)

text \<open>
  A stream that completes while reading is paused loses its resume callback: the later
  \<open>resume_reading\<close> tells nobody, although \<open>pause_reading\<close> had stopped the connection.\<close>

lemma resume_after_complete_is_silent:
  assumes "bs_reading_paused b" and "bs_resume_callback b" and "\<not> bs_canceled b" and "\<not> bs_completed b"
    and "\<not> bs_complete_callback b"
  shows "bs_events (resume_reading (bs_on_complete b)) = bs_events b"
  using assms by (simp add: body_stream_defs)

end
