(* ===== verification/Http_Context.thy ===== *)
theory Http_Context
  imports Parser Body_Stream Writer
begin

text \<open>
  \<open>HttpContext\<close> (src/src/http/http_context.cpp): the per-connection state of the server, its request
  parser and the decoder that streams a request body, fixed-length or chunked, to the handler. The
  buffer is its readable bytes.
\<close>

datatype streaming_body_mode = Body_none | Body_fixed_length | Body_chunked

datatype streaming_chunk_state = Chunk_size | Chunk_data | Chunk_data_crlf | Chunk_trailers

record http_context =
  hc_parser :: http_parser
  hc_writer_state :: bool
  hc_next_sequence :: nat
  hc_body_stream :: body_stream
  hc_mode :: streaming_body_mode
  hc_chunk_state :: streaming_chunk_state
  hc_remaining :: u64
  hc_decoded :: u64
  hc_trailer_bytes :: nat
  hc_active :: bool
  hc_peer_ip :: string
  hc_peer_port :: u16

definition context_new :: http_context where
  "context_new =
     \<lparr>hc_parser = parser_new Mode_request default_parser_options, hc_writer_state = False, hc_next_sequence = 0,
      hc_body_stream = body_stream_new, hc_mode = Body_none, hc_chunk_state = Chunk_size, hc_remaining = 0,
      hc_decoded = 0, hc_trailer_bytes = 0, hc_active = False, hc_peer_ip = [], hc_peer_port = 0\<rparr>"

definition k_max_streaming_trailers :: nat where
  "k_max_streaming_trailers = 64 * 1024"

definition k_max_streaming_body :: u64 where
  "k_max_streaming_body = 8 * 1024 * 1024"

definition valid_trailer_line :: "string \<Rightarrow> bool" where
  "valid_trailer_line line \<longleftrightarrow>
     \<not> (line \<noteq> [] \<and> (hd line = CHR '' '' \<or> hd line = CHR 0x09)) \<and>
     (case find_char CHR '':'' line of None \<Rightarrow> False | Some colon \<Rightarrow> colon \<noteq> 0)"

subsection \<open>Requests\<close>

definition with_peer :: "http_context \<Rightarrow> parse_status option \<times> http_parser \<times> string \<Rightarrow>
    parse_status option \<times> http_context \<times> string" where
  "with_peer c r =
     (case r of (status, p, buf) \<Rightarrow>
        (status,
         c\<lparr>hc_parser := (if status = Some Complete
              then p\<lparr>p_request := (p_request p)\<lparr>r_peer_ip := hc_peer_ip c, r_peer_port := hc_peer_port c\<rparr>\<rparr> else p)\<rparr>,
         buf))"

definition context_parse_request :: "timestamp \<Rightarrow> http_context \<Rightarrow> string \<Rightarrow> parse_status option \<times> http_context \<times> string" where
  "context_parse_request receive_time c buf = with_peer c (parse_request receive_time (hc_parser c) buf)"

definition context_parse_request_head :: "timestamp \<Rightarrow> http_context \<Rightarrow> string \<Rightarrow>
    parse_status option \<times> http_context \<times> string" where
  "context_parse_request_head receive_time c buf = with_peer c (parse_request_head receive_time (hc_parser c) buf)"

definition set_peer_address :: "string \<Rightarrow> u16 \<Rightarrow> http_context \<Rightarrow> http_context" where
  "set_peer_address ip port c = c\<lparr>hc_peer_ip := ip, hc_peer_port := port\<rparr>"

definition make_response_writer :: "bool \<Rightarrow> bool \<Rightarrow> http_context \<Rightarrow> response_writer \<times> http_context" where
  "make_response_writer close_connection include_body c =
     (writer_new (hc_next_sequence c) close_connection include_body,
      c\<lparr>hc_writer_state := True, hc_next_sequence := hc_next_sequence c + 1\<rparr>)"

subsection \<open>Streaming bodies\<close>

definition start_streaming_body :: "body_stream \<Rightarrow> u64 \<Rightarrow> http_context \<Rightarrow> http_context" where
  "start_streaming_body body remaining_bytes c =
     c\<lparr>hc_body_stream := body, hc_mode := Body_fixed_length, hc_remaining := remaining_bytes, hc_active := True\<rparr>"

definition start_streaming_chunked_body :: "body_stream \<Rightarrow> http_context \<Rightarrow> http_context" where
  "start_streaming_chunked_body body c =
     c\<lparr>hc_body_stream := body, hc_mode := Body_chunked, hc_chunk_state := Chunk_size, hc_remaining := 0,
       hc_decoded := 0, hc_trailer_bytes := 0, hc_active := True\<rparr>"

text \<open>The next piece of the body in the buffer, handed to the stream.\<close>

definition deliver :: "http_context \<Rightarrow> string \<Rightarrow> nat \<times> http_context \<times> string" where
  "deliver c buf =
     (let chunk_size = min (unat (hc_remaining c)) (length buf)
      in (chunk_size,
          c\<lparr>hc_body_stream := bs_on_data (take chunk_size buf) (hc_body_stream c),
            hc_remaining := hc_remaining c - of_nat chunk_size\<rparr>,
          drop chunk_size buf))"

definition context_complete :: "http_context \<Rightarrow> http_context" where
  "context_complete c = c\<lparr>hc_active := False, hc_body_stream := bs_on_complete (hc_body_stream c)\<rparr>"

lemma deliver_shorter:
  "deliver c buf = (n, c1, buf1) \<Longrightarrow> hc_remaining c \<noteq> 0 \<Longrightarrow> buf \<noteq> [] \<Longrightarrow> length buf1 < length buf"
proof -
  assume "deliver c buf = (n, c1, buf1)" "hc_remaining c \<noteq> 0" "buf \<noteq> []"
  moreover from this have "0 < unat (hc_remaining c)" by (metis gr0I unsigned_eq_0_iff)
  ultimately show ?thesis by (auto simp: deliver_def Let_def)
qed

function process_fixed :: "http_context \<Rightarrow> string \<Rightarrow> parse_status \<times> http_context \<times> string" where
  "process_fixed c buf =
     (if hc_remaining c \<noteq> 0 \<and> buf \<noteq> [] then
        if bs_reading_paused (hc_body_stream c) then (Incomplete, c, buf)
        else case deliver c buf of (n, c1, buf1) \<Rightarrow> process_fixed c1 buf1
      else if hc_remaining c \<noteq> 0 then (Incomplete, c, buf)
      else (Complete, context_complete c, buf))"
  by pat_completeness auto
termination
  by (relation "measure (length \<circ> snd)") (auto dest: deliver_shorter [OF sym])

declare process_fixed.simps [simp del]

datatype chunk_control = Chunk_again | Chunk_return parse_status

definition chunk_size_step :: "http_context \<Rightarrow> string \<Rightarrow> chunk_control \<times> http_context \<times> string" where
  "chunk_size_step c buf =
     (case find_str crlf buf of
        None \<Rightarrow> (Chunk_return Incomplete, c, buf)
      | Some eol \<Rightarrow>
          let line = take eol buf;
              size_part = (case find_char CHR '';'' line of None \<Rightarrow> line | Some semicolon \<Rightarrow> take semicolon line)
          in (case parse_hex_u64 size_part of
                None \<Rightarrow> (Chunk_return Error, c, buf)
              | Some sz \<Rightarrow>
                  if k_max_streaming_body < sz \<or> k_max_streaming_body - sz < hc_decoded c
                  then (Chunk_return Error, c, buf)
                  else (Chunk_again,
                        c\<lparr>hc_remaining := sz, hc_chunk_state := (if sz = 0 then Chunk_trailers else Chunk_data)\<rparr>,
                        drop (eol + 2) buf)))"

definition chunk_data_step :: "http_context \<Rightarrow> string \<Rightarrow> chunk_control \<times> http_context \<times> string" where
  "chunk_data_step c buf =
     (if bs_reading_paused (hc_body_stream c) then (Chunk_return Incomplete, c, buf)
      else if buf = [] then (Chunk_return Incomplete, c, buf)
      else case deliver c buf of
             (n, c1, buf1) \<Rightarrow>
               let c2 = c1\<lparr>hc_decoded := hc_decoded c1 + of_nat n\<rparr>
               in (Chunk_again, (if hc_remaining c2 = 0 then c2\<lparr>hc_chunk_state := Chunk_data_crlf\<rparr> else c2), buf1))"

definition chunk_crlf_step :: "http_context \<Rightarrow> string \<Rightarrow> chunk_control \<times> http_context \<times> string" where
  "chunk_crlf_step c buf =
     (if length buf < 2 then (Chunk_return Incomplete, c, buf)
      else if buf ! 0 \<noteq> CHR 0x0D \<or> buf ! 1 \<noteq> CHR 0x0A then (Chunk_return Error, c, buf)
      else (Chunk_again, c\<lparr>hc_chunk_state := Chunk_size\<rparr>, drop 2 buf))"

definition chunk_trailers_step :: "http_context \<Rightarrow> string \<Rightarrow> chunk_control \<times> http_context \<times> string" where
  "chunk_trailers_step c buf =
     (case find_str crlf buf of
        None \<Rightarrow> (Chunk_return Incomplete, c, buf)
      | Some line_size \<Rightarrow>
          let c1 = c\<lparr>hc_trailer_bytes := hc_trailer_bytes c + (line_size + 2)\<rparr>
          in if k_max_streaming_trailers < hc_trailer_bytes c1 then (Chunk_return Error, c1, buf)
             else if line_size = 0 then
               (Chunk_return Complete, context_complete (c1\<lparr>hc_mode := Body_none\<rparr>), drop 2 buf)
             else if \<not> valid_trailer_line (take line_size buf) then (Chunk_return Error, c1, buf)
             else (Chunk_again, c1, drop (line_size + 2) buf))"

definition chunk_step :: "http_context \<Rightarrow> string \<Rightarrow> chunk_control \<times> http_context \<times> string" where
  "chunk_step c buf =
     (case hc_chunk_state c of
        Chunk_size \<Rightarrow> chunk_size_step c buf
      | Chunk_data \<Rightarrow> chunk_data_step c buf
      | Chunk_data_crlf \<Rightarrow> chunk_crlf_step c buf
      | Chunk_trailers \<Rightarrow> chunk_trailers_step c buf)"

definition chunk_measure :: "http_context \<times> string \<Rightarrow> nat" where
  "chunk_measure cb = 2 * length (snd cb) + (if hc_chunk_state (fst cb) = Chunk_data then 1 else 0)"

lemma chunk_step_measure:
  assumes "chunk_step c buf = (Chunk_again, c1, buf1)"
  shows "chunk_measure (c1, buf1) < chunk_measure (c, buf)"
proof (cases "hc_chunk_state c")
  case Chunk_size
  with assms obtain eol where "find_str crlf buf = Some eol" "buf1 = drop (eol + 2) buf"
    by (auto simp: chunk_step_def chunk_size_step_def Let_def split: option.splits if_splits)
  moreover from this have "eol + 2 \<le> length buf" using find_str_bound [of crlf buf eol] by simp
  ultimately show ?thesis using Chunk_size by (auto simp: chunk_measure_def)
next
  case Chunk_data
  obtain n d where d: "deliver c buf = (n, d, buf1)" "buf \<noteq> []"
      "hc_chunk_state c1 = (if hc_remaining d = 0 then Chunk_data_crlf else hc_chunk_state d)"
    using assms Chunk_data
    by (auto simp: chunk_step_def chunk_data_step_def Let_def split: if_splits prod.splits)
  show ?thesis
  proof (cases "hc_remaining c = 0")
    case True
    then have "hc_remaining d = 0" "length buf1 \<le> length buf" using d(1) by (auto simp: deliver_def Let_def)
    then show ?thesis using d(3) Chunk_data by (simp add: chunk_measure_def)
  next
    case False
    then have "length buf1 < length buf" using deliver_shorter d(1,2) by blast
    then show ?thesis using Chunk_data by (simp add: chunk_measure_def)
  qed
next
  case Chunk_data_crlf
  with assms show ?thesis
    by (auto simp: chunk_step_def chunk_crlf_step_def chunk_measure_def split: if_splits)
next
  case Chunk_trailers
  with assms obtain eol where "find_str crlf buf = Some eol" "buf1 = drop (eol + 2) buf" "hc_chunk_state c1 = Chunk_trailers"
    by (auto simp: chunk_step_def chunk_trailers_step_def Let_def split: option.splits if_splits)
  moreover from this have "eol + 2 \<le> length buf" using find_str_bound [of crlf buf eol] by simp
  ultimately show ?thesis using Chunk_trailers by (auto simp: chunk_measure_def)
qed

function process_chunked :: "http_context \<Rightarrow> string \<Rightarrow> parse_status \<times> http_context \<times> string" where
  "process_chunked c buf =
     (case chunk_step c buf of
        (control, c1, buf1) \<Rightarrow>
          (case control of Chunk_again \<Rightarrow> process_chunked c1 buf1 | Chunk_return status \<Rightarrow> (status, c1, buf1)))"
  by pat_completeness auto
termination
  by (relation "measure chunk_measure") (auto dest: chunk_step_measure [OF sym])

declare process_chunked.simps [simp del]

definition process_streaming_body :: "http_context \<Rightarrow> string \<Rightarrow> parse_status \<times> http_context \<times> string" where
  "process_streaming_body c buf =
     (if bs_reading_paused (hc_body_stream c) then (Incomplete, c, buf)
      else if hc_mode c = Body_chunked then process_chunked c buf
      else process_fixed c buf)"

definition cancel_streaming_body :: "http_context \<Rightarrow> http_context" where
  "cancel_streaming_body c =
     (if \<not> hc_active c then c
      else c\<lparr>hc_active := False, hc_mode := Body_none, hc_chunk_state := Chunk_size, hc_remaining := 0,
             hc_decoded := 0, hc_trailer_bytes := 0, hc_body_stream := bs_on_cancel (hc_body_stream c)\<rparr>)"

definition context_reset :: "http_context \<Rightarrow> http_context" where
  "context_reset c =
     c\<lparr>hc_parser := parser_reset (hc_parser c), hc_mode := Body_none, hc_chunk_state := Chunk_size,
       hc_remaining := 0, hc_decoded := 0, hc_trailer_bytes := 0, hc_active := False,
       hc_body_stream := body_stream_new\<rparr>"

end
