(* ===== verification/Http_Router.thy ===== *)
theory Http_Router
  imports Http_Context
begin

text \<open>
  \<open>HttpRouter\<close> (src/src/http/http_router.cpp): the route table, the dispatch of a request and the
  adapter that buffers a streamed body for a plain handler. A handler is a value; which one is called,
  and with what, is the result of the dispatch.
\<close>

subsection \<open>Routes\<close>

datatype 'h route_handler = Plain 'h | Streaming 'h

record 'h route =
  rt_method :: string
  rt_path :: string
  rt_handler :: "'h route_handler"

text \<open>The two fallback handlers are \<open>None\<close> while they are those the constructor installs.\<close>

record 'h http_router =
  ro_routes :: "'h route list"
  ro_not_found :: "'h option"
  ro_method_not_allowed :: "'h option"

definition router_new :: "'h http_router" where
  "router_new = \<lparr>ro_routes = [], ro_not_found = None, ro_method_not_allowed = None\<rparr>"

definition find_route :: "string \<Rightarrow> string \<Rightarrow> 'h http_router \<Rightarrow> 'h route option" where
  "find_route method path r = List.find (\<lambda>rt. rt_method rt = method \<and> rt_path rt = path) (ro_routes r)"

definition allowed_methods :: "string \<Rightarrow> 'h http_router \<Rightarrow> string list" where
  "allowed_methods path r =
     foldl (\<lambda>methods rt. if rt_path rt \<noteq> path then methods
              else if rt_method rt \<in> set methods then methods else methods @ [rt_method rt]) [] (ro_routes r)"

fun assign_route :: "string \<Rightarrow> string \<Rightarrow> 'h route_handler \<Rightarrow> 'h route list \<Rightarrow> 'h route list" where
  "assign_route method path handler [] = [\<lparr>rt_method = method, rt_path = path, rt_handler = handler\<rparr>]"
| "assign_route method path handler (rt # rts) =
     (if rt_method rt = method \<and> rt_path rt = path then rt\<lparr>rt_handler := handler\<rparr> # rts
      else rt # assign_route method path handler rts)"

definition register :: "string \<Rightarrow> string \<Rightarrow> 'h route_handler \<Rightarrow> 'h http_router \<Rightarrow> 'h http_router" where
  "register method path handler r =
     r\<lparr>ro_routes := assign_route (uppercase method) path handler (ro_routes r)\<rparr>"

definition add_streaming :: "string \<Rightarrow> string \<Rightarrow> 'h \<Rightarrow> 'h http_router \<Rightarrow> 'h http_router" where
  "add_streaming method path handler = register method path (Streaming handler)"

definition add_plain :: "string \<Rightarrow> string \<Rightarrow> 'h \<Rightarrow> 'h http_router \<Rightarrow> 'h http_router" where
  "add_plain method path handler = register method path (Plain handler)"

definition set_not_found_handler :: "'h \<Rightarrow> 'h http_router \<Rightarrow> 'h http_router" where
  "set_not_found_handler handler r = r\<lparr>ro_not_found := Some handler\<rparr>"

definition set_method_not_allowed_handler :: "'h \<Rightarrow> 'h http_router \<Rightarrow> 'h http_router" where
  "set_method_not_allowed_handler handler r = r\<lparr>ro_method_not_allowed := Some handler\<rparr>"

subsection \<open>Dispatch\<close>

datatype 'h router_call =
    Call_route "'h route_handler"
  | Call_method_not_allowed "'h option" "string list"
  | Call_not_found "'h option"

definition dispatch :: "'h http_router \<Rightarrow> http_request \<Rightarrow> 'h router_call" where
  "dispatch r request =
     (let method = uppercase (method_string request)
      in case find_route method (r_path request) r of
           Some rt \<Rightarrow> Call_route (rt_handler rt)
         | None \<Rightarrow>
             let methods = allowed_methods (r_path request) r
             in if methods \<noteq> [] then Call_method_not_allowed (ro_method_not_allowed r) methods
                else Call_not_found (ro_not_found r))"

definition join_methods :: "string list \<Rightarrow> string" where
  "join_methods methods = foldl (\<lambda>result m. (if result \<noteq> [] then result @ '', '' else result) @ m) [] methods"

definition make_response :: "response_writer \<Rightarrow> http_response" where
  "make_response w = response_new (wr_close_connection w)"

definition send_plain :: "response_writer \<Rightarrow> int \<Rightarrow> string \<Rightarrow> response_queue \<Rightarrow>
    bool \<times> response_writer \<times> response_queue" where
  "send_plain w status body =
     writer_send ((set_content_type ''text/plain; charset=utf-8'' ((make_response w)\<lparr>resp_status_code := status\<rparr>))
       \<lparr>resp_body := body\<rparr>) w"

text \<open>The handlers the constructor installs.\<close>

definition default_not_found :: "response_writer \<Rightarrow> response_queue \<Rightarrow> bool \<times> response_writer \<times> response_queue" where
  "default_not_found w = send_plain w 404 (''not found'' @ [CHR 0x0A])"

definition default_method_not_allowed :: "string list \<Rightarrow> response_writer \<Rightarrow> response_queue \<Rightarrow>
    bool \<times> response_writer \<times> response_queue" where
  "default_method_not_allowed methods w =
     writer_send ((add_header ''Allow'' (join_methods methods)
        (set_content_type ''text/plain; charset=utf-8'' ((make_response w)\<lparr>resp_status_code := 405\<rparr>)))
       \<lparr>resp_body := ''method not allowed'' @ [CHR 0x0A]\<rparr>) w"

subsection \<open>Plain handlers\<close>

definition has_streamed_body :: "http_request \<Rightarrow> bool" where
  "has_streamed_body request \<longleftrightarrow>
     has_content_length request \<and> 0 < content_length request \<or> request_header ''Transfer-Encoding'' request \<noteq> []"

text \<open>
  The adapter of \<open>add\<close>: the stream with the callbacks it sets, or the request the handler is called
  with at once. When the body is complete the handler is called with the bytes received.
\<close>

definition start_plain_handler :: "http_request \<Rightarrow> body_stream \<Rightarrow> body_stream \<times> http_request option" where
  "start_plain_handler request body =
     (if has_streamed_body request
      then (body\<lparr>bs_data_callback := Some (\<lambda>chunk. False), bs_complete_callback := True\<rparr>, None)
      else (body, Some request))"

definition buffered_call :: "http_request \<Rightarrow> body_stream \<Rightarrow> http_request option" where
  "buffered_call request body =
     (if Bs_complete \<in> set (bs_events body) then Some (request\<lparr>r_body := delivered body\<rparr>) else None)"

end
