(* ===== verification/Body_Delivery.thy ===== *)
theory Body_Delivery
  imports Http_Context
begin

text \<open>
  Streamed request bodies reach the handler complete and in order, whatever the segments are and
  however the handler pauses and resumes reading.
\<close>

subsection \<open>The wire format of a chunked body\<close>

text \<open>A chunk is its extensions and its data; a trailer is its line.\<close>

definition wire_chunk :: "string \<times> string \<Rightarrow> string" where
  "wire_chunk ch = to_chars 16 (length (snd ch)) @ fst ch @ crlf @ snd ch @ crlf"

definition good_ext :: "string \<Rightarrow> bool" where
  "good_ext ext \<longleftrightarrow> CHR 0x0D \<notin> set ext \<and> (ext = [] \<or> hd ext = CHR '';'')"

definition good_trailer :: "string \<Rightarrow> bool" where
  "good_trailer line \<longleftrightarrow> CHR 0x0D \<notin> set line \<and> line \<noteq> [] \<and> valid_trailer_line line"

definition wire_trailers :: "string list \<Rightarrow> string" where
  "wire_trailers ts = concat (map (\<lambda>line. line @ crlf) ts) @ crlf"

definition trailer_bytes :: "string list \<Rightarrow> nat" where
  "trailer_bytes ts = sum_list (map (\<lambda>line. length line + 2) ts) + 2"

definition chunk_texts :: "(string \<times> string) list \<Rightarrow> string" where
  "chunk_texts chunks = concat (map snd chunks)"

definition wire_body :: "(string \<times> string) list \<Rightarrow> string \<Rightarrow> string list \<Rightarrow> string" where
  "wire_body chunks last_ext ts = concat (map wire_chunk chunks) @ ''0'' @ last_ext @ crlf @ wire_trailers ts"

definition good_wire :: "(string \<times> string) list \<Rightarrow> string \<Rightarrow> string list \<Rightarrow> bool" where
  "good_wire chunks last_ext ts \<longleftrightarrow>
     (\<forall>ch \<in> set chunks. good_ext (fst ch) \<and> snd ch \<noteq> []) \<and> good_ext last_ext \<and>
     (\<forall>line \<in> set ts. good_trailer line) \<and> trailer_bytes ts \<le> k_max_streaming_trailers"

subsection \<open>Lines\<close>

lemma size_line:
  assumes "good_ext ext" and "n < 2 ^ 64"
  shows "find_str crlf (to_chars 16 n @ ext @ crlf @ r) = Some (length (to_chars 16 n @ ext))"
    and "parse_hex_u64 (case find_char CHR '';'' (to_chars 16 n @ ext) of
           None \<Rightarrow> to_chars 16 n @ ext | Some k \<Rightarrow> take k (to_chars 16 n @ ext)) = Some (of_nat n)"
proof -
  have no: "CHR 0x0D \<notin> set (to_chars 16 n)" "CHR '';'' \<notin> set (to_chars 16 n)"
    by (rule to_chars_not_in; simp add: is_digit_def digit_value_def in_range_def)+
  then have "CHR 0x0D \<notin> set (to_chars 16 n @ ext)" using assms(1) by (simp add: good_ext_def)
  from find_str_crlf [OF this, of r]
  show "find_str crlf (to_chars 16 n @ ext @ crlf @ r) = Some (length (to_chars 16 n @ ext))" by simp
  have size: "parse_hex_u64 (to_chars 16 n) = Some (of_nat n)"
    using assms(2) by (simp add: parse_hex_u64_def parse_unsigned_to_chars)
  show "parse_hex_u64 (case find_char CHR '';'' (to_chars 16 n @ ext) of
           None \<Rightarrow> to_chars 16 n @ ext | Some k \<Rightarrow> take k (to_chars 16 n @ ext)) = Some (of_nat n)"
  proof (cases ext)
    case Nil
    have "find_char CHR '';'' (to_chars 16 n) = None" using no(2) by simp
    with Nil size show ?thesis by (simp del: find_char_None)
  next
    case (Cons c cs)
    then have "c = CHR '';''" using assms(1) by (simp add: good_ext_def)
    with Cons no(2) size show ?thesis by (simp add: find_char_hit)
  qed
qed

lemma to_chars_16_0: "to_chars 16 0 = ''0''"
  by code_simp

subsection \<open>What remains of a body\<close>

text \<open>\<open>expects c r body rest\<close>: from state \<open>c\<close> the bytes \<open>r\<close> carry \<open>body\<close>, then \<open>rest\<close>.\<close>

fun expects_chunked :: "http_context \<Rightarrow> string \<Rightarrow> string \<Rightarrow> string \<Rightarrow> streaming_chunk_state \<Rightarrow> bool" where
  "expects_chunked c r body rest Chunk_size \<longleftrightarrow>
     (\<exists>chunks ext ts. r = wire_body chunks ext ts @ rest \<and> good_wire chunks ext ts \<and> body = chunk_texts chunks \<and>
        hc_trailer_bytes c = 0)"
| "expects_chunked c r body rest Chunk_data \<longleftrightarrow>
     (\<exists>d chunks ext ts. r = d @ crlf @ wire_body chunks ext ts @ rest \<and> good_wire chunks ext ts \<and>
        body = d @ chunk_texts chunks \<and> d \<noteq> [] \<and> unat (hc_remaining c) = length d \<and> hc_trailer_bytes c = 0)"
| "expects_chunked c r body rest Chunk_data_crlf \<longleftrightarrow>
     (\<exists>chunks ext ts. r = crlf @ wire_body chunks ext ts @ rest \<and> good_wire chunks ext ts \<and>
        body = chunk_texts chunks \<and> hc_trailer_bytes c = 0)"
| "expects_chunked c r body rest Chunk_trailers \<longleftrightarrow>
     (\<exists>ts. r = wire_trailers ts @ rest \<and> body = [] \<and> (\<forall>line \<in> set ts. good_trailer line) \<and>
        hc_trailer_bytes c + trailer_bytes ts \<le> k_max_streaming_trailers)"

definition expects :: "http_context \<Rightarrow> string \<Rightarrow> string \<Rightarrow> string \<Rightarrow> bool" where
  "expects c r body rest \<longleftrightarrow>
     (case hc_mode c of
        Body_none \<Rightarrow> False
      | Body_fixed_length \<Rightarrow> r = body @ rest \<and> unat (hc_remaining c) = length body
      | Body_chunked \<Rightarrow>
          expects_chunked c r body rest (hc_chunk_state c) \<and>
          unat (hc_decoded c) + length body \<le> unat k_max_streaming_body)"

text \<open>The invariant while the body streams, and the state after it.\<close>

definition streaming :: "http_context \<Rightarrow> string \<Rightarrow> string \<Rightarrow> string \<Rightarrow> bool" where
  "streaming c r goal rest \<longleftrightarrow> hc_active c \<and> listening (hc_body_stream c) \<and>
     (\<exists>body. expects c r body rest \<and> delivered (hc_body_stream c) @ body = goal)"

definition streamed :: "http_context \<Rightarrow> string \<Rightarrow> bool" where
  "streamed c goal \<longleftrightarrow> \<not> hc_active c \<and> delivered (hc_body_stream c) = goal \<and>
     (\<exists>es. bs_events (hc_body_stream c) = es @ [Bs_complete] \<and> Bs_complete \<notin> set es)"

abbreviation paused :: "http_context \<Rightarrow> bool" where
  "paused c \<equiv> bs_reading_paused (hc_body_stream c)"

lemma context_complete_streamed:
  assumes "listening (hc_body_stream c)" and "delivered (hc_body_stream c) = goal"
  shows "streamed (context_complete c) goal"
  using assms on_complete_listening [OF assms(1)]
  by (auto simp: streamed_def context_complete_def listening_def)

subsection \<open>Handing over a piece\<close>

lemma deliver_piece:
  assumes "deliver c buf = (n, c1, buf1)" and "buf @ f = d @ s" and "unat (hc_remaining c) = length d" and "buf \<noteq> []" and "d \<noteq> []"
    and "listening (hc_body_stream c)"
  obtains e where "d = take n buf @ e" "buf1 @ f = e @ s" "unat (hc_remaining c1) = length e"
    "n = length (take n buf)" "0 < n" "n \<le> length d"
    "listening (hc_body_stream c1)" "delivered (hc_body_stream c1) = delivered (hc_body_stream c) @ take n buf"
    "c1 = c\<lparr>hc_body_stream := hc_body_stream c1, hc_remaining := hc_remaining c1\<rparr>"
proof -
  have n: "n = min (length d) (length buf)" "buf1 = drop n buf"
    and c1: "c1 = c\<lparr>hc_body_stream := bs_on_data (take n buf) (hc_body_stream c), hc_remaining := hc_remaining c - of_nat n\<rparr>"
    using assms(1,3) by (auto simp: deliver_def Let_def)
  have pre: "take n buf = take n d"
    using assms(2) n(1) by (metis append_eq_conv_conj min.cobounded1 min.cobounded2 take_append take_take min_def append_Nil2 diff_is_0_eq take0)
  have split: "buf1 @ f = drop n d @ s"
    using assms(2) n by (metis drop_append drop0 diff_is_0_eq min.cobounded1 min.cobounded2)
  have "unat (hc_remaining c) < 2 ^ LENGTH(64)" by (rule unsigned_less)
  then have "length d < 2 ^ 64" using assms(3) by simp
  then have "unat (of_nat n :: u64) = n" using n(1) by (intro unat_u64) simp
  then have "unat (hc_remaining c - of_nat n) = length d - n"
    using assms(3) n(1) by (subst unat_sub) (simp_all add: word_le_nat_alt)
  then show ?thesis
    using n split pre c1 assms(4,5) on_data_listening [OF assms(6), of "take n buf"]
    by (intro that [of "drop n d"]) (simp_all add: append_take_drop_id)
qed

subsection \<open>The steps of the chunked decoder\<close>

text \<open>A step goes on, waits for bytes or for the reader, or finishes; it never fails.\<close>

definition chunk_ok :: "chunk_control \<times> http_context \<times> string \<Rightarrow> string \<Rightarrow> string \<Rightarrow> string \<Rightarrow> bool" where
  "chunk_ok r f goal rest \<longleftrightarrow>
     (case r of (control, c, buf) \<Rightarrow>
        (case control of
           Chunk_again \<Rightarrow> streaming c (buf @ f) goal rest \<and> hc_mode c = Body_chunked
         | Chunk_return st \<Rightarrow>
             st = Incomplete \<and> streaming c (buf @ f) goal rest \<and> hc_mode c = Body_chunked \<and> (f \<noteq> [] \<or> paused c) \<or>
             st = Complete \<and> streamed c goal \<and> buf @ f = rest))"

lemma wait_ok:
  "streaming c (buf @ f) goal rest \<Longrightarrow> hc_mode c = Body_chunked \<Longrightarrow> f \<noteq> [] \<or> paused c \<Longrightarrow>
   chunk_ok (Chunk_return Incomplete, c, buf) f goal rest"
  by (simp add: chunk_ok_def)

lemma k_max_body_nat: "unat k_max_streaming_body = 8388608"
  by (simp add: k_max_streaming_body_def)

lemma chunk_fits:
  assumes "unat decoded + n \<le> unat k_max_streaming_body"
  shows "\<not> (k_max_streaming_body < of_nat n \<or> k_max_streaming_body - of_nat n < decoded)"
proof -
  have "unat (of_nat n :: u64) = n" using assms by (intro unat_u64) (simp add: k_max_body_nat)
  moreover from this have "unat (k_max_streaming_body - of_nat n) = unat k_max_streaming_body - n"
    using assms by (subst unat_sub) (simp_all add: word_le_nat_alt)
  ultimately show ?thesis using assms by (simp add: word_less_nat_alt)
qed

lemma streamingI:
  assumes "hc_active c" and "listening (hc_body_stream c)" and "hc_mode c = Body_chunked"
    and "hc_chunk_state c = st" and "expects_chunked c r body rest st"
    and "unat (hc_decoded c) + length body \<le> unat k_max_streaming_body"
    and "delivered (hc_body_stream c) @ body = goal"
  shows "streaming c r goal rest"
  unfolding streaming_def expects_def using assms by auto

lemma chunk_size_ok:
  assumes "streaming c (buf @ f) goal rest" and "hc_mode c = Body_chunked" and "hc_chunk_state c = Chunk_size"
  shows "chunk_ok (chunk_size_step c buf) f goal rest"
proof -
  obtain chunks ext ts where wire: "buf @ f = wire_body chunks ext ts @ rest" "good_wire chunks ext ts"
      "delivered (hc_body_stream c) @ chunk_texts chunks = goal"
      "unat (hc_decoded c) + length (chunk_texts chunks) \<le> unat k_max_streaming_body" "hc_trailer_bytes c = 0"
    using assms by (auto simp: streaming_def expects_def)
  obtain n e r where line: "buf @ f = to_chars 16 n @ e @ crlf @ r" "good_ext e" "n < 2 ^ 64"
      "unat (hc_decoded c) + n \<le> unat k_max_streaming_body"
      "n = 0 \<Longrightarrow> chunks = [] \<and> r = wire_trailers ts @ rest"
      "n \<noteq> 0 \<Longrightarrow> \<exists>d cs. chunks = (e, d) # cs \<and> length d = n \<and> r = d @ crlf @ wire_body cs ext ts @ rest"
  proof (cases chunks)
    case Nil
    then show ?thesis using wire(1,2,4)
      by (intro that [of 0 ext "wire_trailers ts @ rest"]) (simp_all add: wire_body_def to_chars_16_0 good_wire_def)
  next
    case (Cons ch cs)
    then have "length (snd ch) < 2 ^ 64" "snd ch \<noteq> []" "good_ext (fst ch)"
      using wire(2,4) by (auto simp: chunk_texts_def k_max_body_nat good_wire_def)
    then show ?thesis using wire(1,4) Cons
      by (intro that [of "length (snd ch)" "fst ch" "snd ch @ crlf @ wire_body cs ext ts @ rest"])
        (auto simp: wire_body_def wire_chunk_def chunk_texts_def)
  qed
  have find: "find_str crlf (buf @ f) = Some (length (to_chars 16 n @ e))"
    unfolding line(1) by (rule size_line(1) [OF line(2,3)])
  show ?thesis
  proof (cases "find_str crlf buf")
    case None
    with find_str_unfound [OF _ find None] wait_ok assms show ?thesis by (simp add: chunk_size_step_def)
  next
    case (Some eol)
    then have eol: "eol = length (to_chars 16 n @ e)" using find_str_same [OF _ find Some] by simp
    have bound: "eol + 2 \<le> length buf" using find_str_bound [OF _ Some] by simp
    have "take eol buf = take eol (buf @ f)" using bound by simp
    then have line_text: "take eol buf = to_chars 16 n @ e" unfolding line(1) eol by simp
    have "drop (eol + 2) buf @ f = drop (eol + 2) (buf @ f)" using bound by simp
    then have rest_text: "drop (eol + 2) buf @ f = r" unfolding line(1) eol by simp
    have n: "(of_nat n :: u64) = 0 \<longleftrightarrow> n = 0" "unat (of_nat n :: u64) = n"
      using line(3) by (simp_all add: u64_eq_0 unat_u64)
    define c1 where "c1 = c\<lparr>hc_remaining := of_nat n, hc_chunk_state := (if n = 0 then Chunk_trailers else Chunk_data)\<rparr>"
    have step: "chunk_size_step c buf = (Chunk_again, c1, drop (eol + 2) buf)"
      using Some chunk_fits [OF line(4)] size_line(2) [OF line(2,3)] line_text n(1)
      by (simp add: chunk_size_step_def c1_def Let_def)
    have "streaming c1 r goal rest"
    proof (cases "n = 0")
      case True
      with line(5) wire assms(1) show ?thesis
        by (auto simp: streaming_def expects_def c1_def assms(2) chunk_texts_def good_wire_def)
    next
      case False
      then obtain d cs where d: "chunks = (e, d) # cs" "length d = n" "r = d @ crlf @ wire_body cs ext ts @ rest"
        using line(6) by blast
      have "good_wire cs ext ts" using wire(2) d(1) by (simp add: good_wire_def)
      moreover have "d \<noteq> []" using False d(2) by auto
      ultimately have "expects_chunked c1 r (d @ chunk_texts cs) rest Chunk_data"
        using d n(2) wire(5) by (auto simp: c1_def)
      then show ?thesis
        by (rule streamingI [rotated 4])
          (use False wire assms(1,2) d(1) in \<open>simp_all add: c1_def streaming_def chunk_texts_def\<close>)
    qed
    then show ?thesis using step rest_text assms(2) by (simp add: chunk_ok_def c1_def)
  qed
qed


lemma chunk_data_ok:
  assumes "streaming c (buf @ f) goal rest" and "hc_mode c = Body_chunked" and "hc_chunk_state c = Chunk_data"
  shows "chunk_ok (chunk_data_step c buf) f goal rest"
proof -
  obtain d chunks ext ts where wire: "buf @ f = d @ crlf @ wire_body chunks ext ts @ rest" "good_wire chunks ext ts"
      "d \<noteq> []" "unat (hc_remaining c) = length d" "hc_trailer_bytes c = 0"
      "delivered (hc_body_stream c) @ d @ chunk_texts chunks = goal"
      "unat (hc_decoded c) + (length d + length (chunk_texts chunks)) \<le> unat k_max_streaming_body"
    using assms by (auto simp: streaming_def expects_def)
  have listen: "listening (hc_body_stream c)" "hc_active c" using assms(1) by (auto simp: streaming_def)
  consider "paused c" | "\<not> paused c" "buf = []" | "\<not> paused c" "buf \<noteq> []" by blast
  then show ?thesis
  proof cases
    case 1
    then show ?thesis using wait_ok assms by (simp add: chunk_data_step_def)
  next
    case 2
    then have "f \<noteq> []" using wire(1) by auto
    with 2 show ?thesis using wait_ok assms by (simp add: chunk_data_step_def)
  next
    case 3
    obtain n c1 buf1 where d1: "deliver c buf = (n, c1, buf1)" by (cases "deliver c buf") auto
    obtain e where e: "d = take n buf @ e" "buf1 @ f = e @ crlf @ wire_body chunks ext ts @ rest"
        "unat (hc_remaining c1) = length e" "n = length (take n buf)" "0 < n" "n \<le> length d"
        "listening (hc_body_stream c1)" "delivered (hc_body_stream c1) = delivered (hc_body_stream c) @ take n buf"
      and c1: "c1 = c\<lparr>hc_body_stream := hc_body_stream c1, hc_remaining := hc_remaining c1\<rparr>"
      using deliver_piece [OF d1 wire(1,4) 3(2) wire(3) listen(1)] by blast
    have same: "hc_mode c1 = Body_chunked" "hc_active c1" "hc_chunk_state c1 = Chunk_data" "hc_trailer_bytes c1 = 0"
        "hc_decoded c1 = hc_decoded c"
      using arg_cong [OF c1, of hc_mode] arg_cong [OF c1, of hc_active] arg_cong [OF c1, of hc_chunk_state]
        arg_cong [OF c1, of hc_trailer_bytes] arg_cong [OF c1, of hc_decoded] assms(2,3) listen(2) wire(5)
      by simp_all
    have "length d = n + length e" using e(1,4) by simp
    moreover have "unat (of_nat n :: u64) = n" using wire(7) e(6) by (intro unat_u64) (simp add: k_max_body_nat)
    ultimately have decoded: "unat (hc_decoded c + of_nat n) = unat (hc_decoded c) + n"
      using wire(7) by (subst unat_add_u64) (simp_all add: k_max_body_nat)
    define c2 where "c2 = c1\<lparr>hc_decoded := hc_decoded c1 + of_nat n\<rparr>"
    define c3 where "c3 = (if hc_remaining c2 = 0 then c2\<lparr>hc_chunk_state := Chunk_data_crlf\<rparr> else c2)"
    have step: "chunk_data_step c buf = (Chunk_again, c3, buf1)"
      using 3 d1 by (simp add: chunk_data_step_def c2_def c3_def Let_def)
    have zero: "hc_remaining c2 = 0 \<longleftrightarrow> e = []"
    proof -
      have "hc_remaining c2 = hc_remaining c1" by (simp add: c2_def)
      then show ?thesis using e(3) by (metis length_0_conv unsigned_eq_0_iff)
    qed
    have goal: "delivered (hc_body_stream c1) @ e @ chunk_texts chunks = goal" using wire(6) e(1,8) by simp
    have "streaming c3 (buf1 @ f) goal rest"
    proof (cases "e = []")
      case True
      show ?thesis
        by (rule streamingI [where st = Chunk_data_crlf and body = "chunk_texts chunks"])
          (use True zero e(2,7) same wire(2,7) goal decoded \<open>length d = n + length e\<close> in
            \<open>auto simp: c3_def c2_def\<close>)
    next
      case False
      show ?thesis
        by (rule streamingI [where st = Chunk_data and body = "e @ chunk_texts chunks"])
          (use False zero e(2,3,7) same wire(2,7) goal decoded \<open>length d = n + length e\<close> in
            \<open>auto simp: c3_def c2_def\<close>)
    qed
    then show ?thesis using step same by (simp add: chunk_ok_def c3_def c2_def)
  qed
qed

lemma chunk_crlf_ok:
  assumes "streaming c (buf @ f) goal rest" and "hc_mode c = Body_chunked" and "hc_chunk_state c = Chunk_data_crlf"
  shows "chunk_ok (chunk_crlf_step c buf) f goal rest"
proof -
  obtain chunks ext ts where wire: "buf @ f = crlf @ wire_body chunks ext ts @ rest" "good_wire chunks ext ts"
      "hc_trailer_bytes c = 0" "delivered (hc_body_stream c) @ chunk_texts chunks = goal"
      "unat (hc_decoded c) + length (chunk_texts chunks) \<le> unat k_max_streaming_body"
    using assms by (auto simp: streaming_def expects_def)
  show ?thesis
  proof (cases "length buf < 2")
    case True
    have "2 \<le> length (buf @ f)" unfolding wire(1) by simp
    then have "f \<noteq> []" using True by auto
    then show ?thesis using True wait_ok assms by (simp add: chunk_crlf_step_def)
  next
    case False
    then obtain b where b: "buf = crlf @ b" "b @ f = wire_body chunks ext ts @ rest"
      using wire(1) by (auto simp: append_eq_Cons_conv)
    have "streaming (c\<lparr>hc_chunk_state := Chunk_size\<rparr>) (b @ f) goal rest"
      by (rule streamingI [where st = Chunk_size and body = "chunk_texts chunks"])
        (use assms wire b in \<open>auto simp: streaming_def\<close>)
    then show ?thesis using b(1) assms(2) by (simp add: chunk_crlf_step_def chunk_ok_def)
  qed
qed

lemma chunk_trailers_ok:
  assumes "streaming c (buf @ f) goal rest" and "hc_mode c = Body_chunked" and "hc_chunk_state c = Chunk_trailers"
  shows "chunk_ok (chunk_trailers_step c buf) f goal rest"
proof -
  obtain ts where wire: "buf @ f = wire_trailers ts @ rest" "\<forall>line \<in> set ts. good_trailer line"
      "hc_trailer_bytes c + trailer_bytes ts \<le> k_max_streaming_trailers" "delivered (hc_body_stream c) = goal"
      "unat (hc_decoded c) \<le> unat k_max_streaming_body"
    using assms by (auto simp: streaming_def expects_def)
  obtain line r where line: "buf @ f = line @ crlf @ r" "CHR 0x0D \<notin> set line"
      "line = [] \<and> ts = [] \<and> r = rest \<or> (\<exists>ts'. ts = line # ts' \<and> good_trailer line \<and> r = wire_trailers ts' @ rest)"
    using wire(1,2) by (cases ts) (auto simp: wire_trailers_def good_trailer_def)
  have find: "find_str crlf (buf @ f) = Some (length line)"
    unfolding line(1) using find_str_crlf [OF line(2)] by simp
  show ?thesis
  proof (cases "find_str crlf buf")
    case None
    with find_str_unfound [OF _ find None] wait_ok assms show ?thesis by (simp add: chunk_trailers_step_def)
  next
    case (Some eol)
    then have eol: "eol = length line" using find_str_same [OF _ find Some] by simp
    have bound: "eol + 2 \<le> length buf" using find_str_bound [OF _ Some] by simp
    have "take eol buf = take eol (buf @ f)" using bound by simp
    then have line_text: "take eol buf = line" unfolding line(1) eol by simp
    have "drop (eol + 2) buf @ f = drop (eol + 2) (buf @ f)" using bound by simp
    then have rest_text: "drop (eol + 2) buf @ f = r" unfolding line(1) eol by simp
    define c1 where "c1 = c\<lparr>hc_trailer_bytes := hc_trailer_bytes c + (eol + 2)\<rparr>"
    have fits: "hc_trailer_bytes c1 \<le> k_max_streaming_trailers"
      using line(3) wire(3) by (auto simp: c1_def eol trailer_bytes_def)
    from line(3) show ?thesis
    proof (elim disjE conjE exE)
      assume "line = []" "r = rest"
      then show ?thesis
        using Some eol fits rest_text context_complete_streamed [of "c1\<lparr>hc_mode := Body_none\<rparr>" goal] assms(1) wire(4)
        by (simp add: chunk_trailers_step_def chunk_ok_def c1_def streaming_def Let_def numeral_2_eq_2)
    next
      fix ts' assume ts': "ts = line # ts'" "good_trailer line" "r = wire_trailers ts' @ rest"
      then have "eol \<noteq> 0" "valid_trailer_line line" by (auto simp: eol good_trailer_def)
      then have step: "chunk_trailers_step c buf = (Chunk_again, c1, drop (eol + 2) buf)"
        using Some fits line_text by (simp add: chunk_trailers_step_def c1_def Let_def)
      have "streaming c1 r goal rest"
        by (rule streamingI [where st = Chunk_trailers and body = "[]"])
          (use assms wire ts' eol in \<open>auto simp: c1_def streaming_def trailer_bytes_def\<close>)
      then show ?thesis using step rest_text assms(2) by (simp add: chunk_ok_def c1_def)
    qed
  qed
qed


subsection \<open>The loops\<close>

lemma chunk_step_ok:
  "streaming c (buf @ f) goal rest \<Longrightarrow> hc_mode c = Body_chunked \<Longrightarrow> chunk_ok (chunk_step c buf) f goal rest"
  by (cases "hc_chunk_state c")
    (simp_all add: chunk_step_def chunk_size_ok chunk_data_ok chunk_crlf_ok chunk_trailers_ok)

text \<open>A call of the body decoder: it has to wait, or everything has been handed over.\<close>

definition call_ok :: "parse_status \<times> http_context \<times> string \<Rightarrow> string \<Rightarrow> string \<Rightarrow> string \<Rightarrow> bool" where
  "call_ok r f goal rest \<longleftrightarrow>
     (case r of (st, c, buf) \<Rightarrow>
        st = Incomplete \<and> streaming c (buf @ f) goal rest \<and> (f \<noteq> [] \<or> paused c) \<or>
        st = Complete \<and> streamed c goal \<and> buf @ f = rest)"

lemma process_chunked_ok:
  "streaming c (buf @ f) goal rest \<Longrightarrow> hc_mode c = Body_chunked \<Longrightarrow> call_ok (process_chunked c buf) f goal rest"
proof (induction c buf rule: process_chunked.induct)
  case (1 c buf)
  obtain control c1 buf1 where step: "chunk_step c buf = (control, c1, buf1)" by (cases "chunk_step c buf") auto
  have ok: "chunk_ok (control, c1, buf1) f goal rest" using chunk_step_ok [OF 1(2,3)] step by simp
  show ?case
  proof (cases control)
    case Chunk_again
    then have "streaming c1 (buf1 @ f) goal rest" "hc_mode c1 = Body_chunked" using ok by (auto simp: chunk_ok_def)
    then have "call_ok (process_chunked c1 buf1) f goal rest" using 1(1) [OF step [symmetric] refl Chunk_again] by blast
    then show ?thesis using step Chunk_again by (simp add: process_chunked.simps [of c buf])
  next
    case (Chunk_return st)
    then show ?thesis using step ok by (auto simp: process_chunked.simps [of c buf] call_ok_def chunk_ok_def)
  qed
qed

lemma process_fixed_ok:
  "streaming c (buf @ f) goal rest \<Longrightarrow> hc_mode c = Body_fixed_length \<Longrightarrow> call_ok (process_fixed c buf) f goal rest"
proof (induction c buf rule: process_fixed.induct)
  case (1 c buf)
  obtain d where d: "buf @ f = d @ rest" "unat (hc_remaining c) = length d" "delivered (hc_body_stream c) @ d = goal"
      "hc_active c" "listening (hc_body_stream c)"
    using 1(2,3) by (auto simp: streaming_def expects_def)
  have zero: "hc_remaining c = 0 \<longleftrightarrow> d = []" using d(2) by (metis length_0_conv unsigned_eq_0_iff)
  consider (finished) "d = []" | (empty) "d \<noteq> []" "buf = []" | (wait) "d \<noteq> []" "buf \<noteq> []" "paused c"
    | (more) "d \<noteq> []" "buf \<noteq> []" "\<not> paused c" by blast
  then show ?case
  proof cases
    case finished
    then show ?thesis using d zero context_complete_streamed [of c goal]
      by (simp add: process_fixed.simps [of c buf] call_ok_def)
  next
    case empty
    then have "f \<noteq> []" using d(1) by auto
    moreover have "process_fixed c buf = (Incomplete, c, buf)"
      using empty zero by (simp add: process_fixed.simps [of c "[]"])
    ultimately show ?thesis using 1(2) by (simp add: call_ok_def)
  next
    case wait
    then show ?thesis using zero 1(2) by (simp add: process_fixed.simps [of c buf] call_ok_def)
  next
    case more
    obtain n c1 buf1 where d1: "deliver c buf = (n, c1, buf1)" by (cases "deliver c buf") auto
    obtain e where e: "d = take n buf @ e" "buf1 @ f = e @ rest" "unat (hc_remaining c1) = length e"
        "listening (hc_body_stream c1)" "delivered (hc_body_stream c1) = delivered (hc_body_stream c) @ take n buf"
      and c1: "c1 = c\<lparr>hc_body_stream := hc_body_stream c1, hc_remaining := hc_remaining c1\<rparr>"
      using deliver_piece [OF d1 d(1,2) more(2,1) d(5)] by blast
    have "hc_mode c1 = Body_fixed_length" "hc_active c1"
      using arg_cong [OF c1, of hc_mode] arg_cong [OF c1, of hc_active] 1(3) d(4) by simp_all
    moreover from this have "streaming c1 (buf1 @ f) goal rest"
      using e d(3) by (auto simp: streaming_def expects_def)
    moreover have "process_fixed c buf = process_fixed c1 buf1"
      using more zero d1 by (simp add: process_fixed.simps [of c buf])
    ultimately show ?thesis using 1(1) more zero d1 by auto
  qed
qed

lemma process_streaming_body_ok:
  assumes "streaming c (buf @ f) goal rest"
  shows "call_ok (process_streaming_body c buf) f goal rest"
proof (cases "paused c")
  case True
  then show ?thesis using assms by (simp add: process_streaming_body_def call_ok_def)
next
  case False
  have "hc_mode c \<noteq> Body_none" using assms by (auto simp: streaming_def expects_def)
  then show ?thesis using False assms process_chunked_ok process_fixed_ok
    by (cases "hc_mode c") (auto simp: process_streaming_body_def)
qed

subsection \<open>Whole deliveries\<close>

text \<open>
  What happens to a connection whose request body streams: bytes arrive and are processed, the
  handler pauses, the handler resumes and the pending bytes are processed. Whether the decoder has
  ever reported an error is kept.
\<close>

datatype body_op = Arrive string | Pause | Resume

type_synonym body_session = "http_context \<times> string \<times> bool"

definition process_session :: "body_session \<Rightarrow> body_session" where
  "process_session s =
     (case s of (c, buf, failed) \<Rightarrow>
        if \<not> hc_active c then s
        else case process_streaming_body c buf of (st, c1, buf1) \<Rightarrow> (c1, buf1, failed \<or> st = Error))"

fun body_step :: "body_op \<Rightarrow> body_session \<Rightarrow> body_session" where
  "body_step (Arrive seg) (c, buf, failed) = process_session (c, buf @ seg, failed)"
| "body_step Pause (c, buf, failed) = (c\<lparr>hc_body_stream := pause_reading (hc_body_stream c)\<rparr>, buf, failed)"
| "body_step Resume (c, buf, failed) =
     process_session (c\<lparr>hc_body_stream := resume_reading (hc_body_stream c)\<rparr>, buf, failed)"

fun arrived :: "body_op \<Rightarrow> string" where
  "arrived (Arrive seg) = seg"
| "arrived _ = []"

definition arrived_all :: "body_op list \<Rightarrow> string" where
  "arrived_all ops = concat (map arrived ops)"

definition session_ok :: "body_session \<Rightarrow> string \<Rightarrow> string \<Rightarrow> string \<Rightarrow> bool" where
  "session_ok s f goal rest \<longleftrightarrow>
     (case s of (c, buf, failed) \<Rightarrow>
        \<not> failed \<and> (streaming c (buf @ f) goal rest \<or> \<not> hc_active c \<and> delivered (hc_body_stream c) = goal \<and>
           count_list (bs_events (hc_body_stream c)) Bs_complete = 1 \<and> buf @ f = rest))"

text \<open>After a step the body waits only for bytes or for the reader.\<close>

definition session_waits :: "body_session \<Rightarrow> string \<Rightarrow> bool" where
  "session_waits s f \<longleftrightarrow> (case s of (c, buf, failed) \<Rightarrow> hc_active c \<longrightarrow> f \<noteq> [] \<or> paused c)"

lemma streamed_count: "streamed c goal \<Longrightarrow> count_list (bs_events (hc_body_stream c)) Bs_complete = 1"
  by (auto simp: streamed_def count_list_0_iff [THEN iffD2])

lemma process_session_ok:
  assumes "session_ok s f goal rest"
  shows "session_ok (process_session s) f goal rest \<and> session_waits (process_session s) f"
proof -
  obtain c buf failed where s: "s = (c, buf, failed)" by (cases s)
  show ?thesis
  proof (cases "hc_active c")
    case False
    then show ?thesis using assms by (simp add: s process_session_def session_waits_def)
  next
    case True
    obtain st c1 buf1 where call: "process_streaming_body c buf = (st, c1, buf1)" by (cases "process_streaming_body c buf") auto
    have "streaming c (buf @ f) goal rest" "\<not> failed" using assms True by (auto simp: s session_ok_def)
    then have "call_ok (st, c1, buf1) f goal rest" using process_streaming_body_ok call by metis
    with True call \<open>\<not> failed\<close> streamed_count [of c1 goal] show ?thesis
      by (auto simp: s process_session_def session_ok_def session_waits_def call_ok_def streamed_def)
  qed
qed

lemma session_ok_stream:
  assumes "session_ok (c, buf, failed) f goal rest"
    and "\<And>b. listening b \<Longrightarrow> listening (g b)" "\<And>b. delivered (g b) = delivered b"
    "\<And>b. count_list (bs_events (g b)) Bs_complete = count_list (bs_events b) Bs_complete"
  shows "session_ok (c\<lparr>hc_body_stream := g (hc_body_stream c)\<rparr>, buf, failed) f goal rest"
proof -
  have "expects_chunked (c\<lparr>hc_body_stream := b\<rparr>) r body rest st = expects_chunked c r body rest st" for b r body st
    by (cases st) simp_all
  then show ?thesis using assms
    by (auto simp: session_ok_def streaming_def expects_def split: streaming_body_mode.splits)
qed

lemma count_complete:
  "count_list (bs_events (pause_reading b)) Bs_complete = count_list (bs_events b) Bs_complete"
  "count_list (bs_events (resume_reading b)) Bs_complete = count_list (bs_events b) Bs_complete"
  by (simp_all add: body_stream_defs)

lemma body_step_ok:
  assumes "session_ok s (arrived op @ f) goal rest"
  shows "session_ok (body_step op s) f goal rest \<and> session_waits (body_step op s) f"
proof -
  obtain c buf failed where s: "s = (c, buf, failed)" by (cases s)
  show ?thesis
  proof (cases op)
    case (Arrive seg)
    then have "session_ok (c, buf @ seg, failed) f goal rest" using assms by (simp add: s session_ok_def)
    with Arrive show ?thesis by (simp add: s process_session_ok)
  next
    case Pause
    have "session_ok (c\<lparr>hc_body_stream := pause_reading (hc_body_stream c)\<rparr>, buf, failed) f goal rest"
      using assms Pause by (intro session_ok_stream) (simp_all add: s count_complete)
    with Pause show ?thesis by (simp add: s session_waits_def)
  next
    case Resume
    have "session_ok (c\<lparr>hc_body_stream := resume_reading (hc_body_stream c)\<rparr>, buf, failed) f goal rest"
      using assms Resume by (intro session_ok_stream) (simp_all add: s count_complete)
    with Resume show ?thesis by (simp add: s process_session_ok)
  qed
qed

subsection \<open>Any sequence of operations\<close>

definition session_inv :: "string \<Rightarrow> string \<Rightarrow> string \<Rightarrow> body_op list \<Rightarrow> body_session \<Rightarrow> bool" where
  "session_inv input goal rest ops s \<longleftrightarrow>
     (\<forall>f. arrived_all ops @ f = input \<longrightarrow> session_ok s f goal rest \<and> (ops = [] \<or> session_waits s f))"

lemma session_history:
  assumes "streaming c input goal rest"
  shows "op_history body_step (c, [], False) (session_inv input goal rest)"
proof
  show "session_inv input goal rest [] (c, [], False)"
    using assms by (simp add: session_inv_def session_ok_def arrived_all_def)
next
  fix ops s op
  assume inv: "session_inv input goal rest ops s"
  have "session_ok (body_step op s) f goal rest \<and> session_waits (body_step op s) f"
    if "arrived_all (ops @ [op]) @ f = input" for f
    using that inv by (intro body_step_ok) (simp add: session_inv_def arrived_all_def)
  then show "session_inv input goal rest (ops @ [op]) (body_step op s)"
    by (simp add: session_inv_def)
qed

lemma session_prefix:
  "session_ok (c, buf, failed) f goal rest \<Longrightarrow> \<exists>more. delivered (hc_body_stream c) @ more = goal"
  by (auto simp: session_ok_def streaming_def)

lemma session_end:
  "session_ok (c, buf, failed) f goal rest \<Longrightarrow> \<not> hc_active c \<Longrightarrow>
   delivered (hc_body_stream c) = goal \<and> count_list (bs_events (hc_body_stream c)) Bs_complete = 1 \<and> buf @ f = rest"
  by (auto simp: session_ok_def streaming_def)

lemma session_run:
  assumes "streaming c input goal rest" and "ops \<noteq> []" and "arrived_all ops @ f = input"
    and "fold body_step ops (c, [], False) = (c', buf, failed)"
  shows "session_ok (c', buf, failed) f goal rest" and "session_waits (c', buf, failed) f" and "\<not> failed"
  using op_history.run [OF session_history [OF assms(1)], of ops] assms(2-4)
  by (auto simp: session_inv_def session_ok_def)

lemma chunked_start:
  assumes "good_wire chunks ext ts" and "length (chunk_texts chunks) \<le> unat k_max_streaming_body" and "listening b"
  shows "streaming (start_streaming_chunked_body b c) (wire_body chunks ext ts @ rest)
           (delivered b @ chunk_texts chunks) rest"
  by (rule streamingI [where st = Chunk_size and body = "chunk_texts chunks"])
    (use assms in \<open>auto simp: start_streaming_chunked_body_def\<close>)

lemma fixed_start:
  assumes "length body = unat n" and "listening b"
  shows "streaming (start_streaming_body b n c) (body @ rest) (delivered b @ body) rest"
  using assms by (auto simp: streaming_def expects_def start_streaming_body_def)


definition demo_stream :: body_stream where
  "demo_stream = body_stream_new\<lparr>bs_data_callback := Some (\<lambda>d. length d = 2), bs_complete_callback := True\<rparr>"

lemma demo_listening: "listening demo_stream" "delivered demo_stream = []"
  by (simp_all add: listening_def demo_stream_def body_stream_new_def delivered_def)

definition demo_ops :: "body_op list" where
  "demo_ops = [Arrive (''2;a=1'' @ crlf @ ''h''), Arrive (''i'' @ crlf @ ''3'' @ crlf @ ''abc''), Pause, Resume,
     Arrive (crlf @ ''0'' @ crlf @ ''X: y'' @ crlf @ crlf @ ''GET'')]"

definition demo_chunks :: "(string \<times> string) list" where
  "demo_chunks = [('';a=1'', ''hi''), ('''', ''abc'')]"

lemma demo_wire:
  "good_wire demo_chunks '''' [''X: y'']" "length (chunk_texts demo_chunks) \<le> unat k_max_streaming_body"
  "demo_ops \<noteq> []" "arrived_all demo_ops @ '''' = wire_body demo_chunks '''' [''X: y''] @ ''GET''"
  "chunk_texts demo_chunks = ''hiabc''"
proof -
  show "good_wire demo_chunks '''' [''X: y'']" by code_simp
  show "arrived_all demo_ops @ '''' = wire_body demo_chunks '''' [''X: y''] @ ''GET''" by code_simp
qed (simp_all add: k_max_body_nat chunk_texts_def demo_chunks_def demo_ops_def)


text \<open>
  A body of declared length, arriving in any segments and interleaved with any pauses and
  resumptions, is handed over byte for byte and completed exactly once; the bytes behind it stay in the
  buffer, and before the end the decoder waits only for missing bytes or for a paused reader.\<close>

theorem streaming_fixed_lossless:
  assumes "length body = unat n" and "listening b" and "ops \<noteq> []" and "arrived_all ops @ f = body @ rest"
    and "fold body_step ops (start_streaming_body b n c, [], False) = (c', buf, failed)"
  shows "\<not> failed \<and>
     (\<exists>more. delivered (hc_body_stream c') @ more = delivered b @ body) \<and>
     (if hc_active c' then f \<noteq> [] \<or> bs_reading_paused (hc_body_stream c')
      else delivered (hc_body_stream c') = delivered b @ body \<and>
        count_list (bs_events (hc_body_stream c')) Bs_complete = 1 \<and> buf @ f = rest)"
proof -
  note ok = session_run [OF fixed_start [OF assms(1,2), where c = c and rest = rest] assms(3,4,5)]
  then show ?thesis using session_prefix [OF ok(1)] session_end [OF ok(1)]
    by (simp add: session_waits_def)
qed

lemma streaming_fixed_lossless_witness:
  "\<exists>c buf. fold body_step [Arrive ''he'', Arrive ''llo'', Resume, Arrive ''GET'']
       (start_streaming_body demo_stream 5 context_new, [], False) = (c, buf, False) \<and>
     \<not> hc_active c \<and> delivered (hc_body_stream c) = ''hello''"
proof -
  let ?ops = "[Arrive ''he'', Arrive ''llo'', Resume, Arrive ''GET'']"
  obtain c buf failed where
    run: "fold body_step ?ops (start_streaming_body demo_stream 5 context_new, [], False) = (c, buf, failed)"
    by (cases "fold body_step ?ops (start_streaming_body demo_stream 5 context_new, [], False)") auto
  have active: "\<not> hc_active (fst (fold body_step ?ops (start_streaming_body demo_stream 5 context_new, [], False)))"
    by code_simp
  have "length ''hello'' = unat (5 :: u64)" "?ops \<noteq> []" "arrived_all ?ops @ '''' = ''hello'' @ ''GET''"
    by (simp_all add: arrived_all_def)
  from streaming_fixed_lossless [OF this(1) demo_listening(1) this(2,3) run] active run
  show ?thesis by (simp add: demo_listening)
qed

end
