(* ===== verification/Http_Router_Laws.thy ===== *)
theory Http_Router_Laws
  imports Http_Router Body_Delivery
begin

text \<open>
  The route table is a finite map from method and path, the latest registration winning; dispatch is a
  function of that map; a plain handler behind a streamed body is called once, with the whole body.
\<close>

subsection \<open>The table\<close>

definition route_key :: "'h route \<Rightarrow> string \<times> string" where
  "route_key rt = (rt_method rt, rt_path rt)"

definition lookup_route :: "string \<times> string \<Rightarrow> 'h route list \<Rightarrow> 'h route_handler option" where
  "lookup_route k rts = map_option rt_handler (List.find (\<lambda>rt. route_key rt = k) rts)"

lemma find_route_lookup:
  "map_option rt_handler (find_route method path r) = lookup_route (method, path) (ro_routes r)"
  by (simp add: find_route_def lookup_route_def route_key_def)

lemma lookup_assign:
  "lookup_route k (assign_route method path h rts) = (if k = (method, path) then Some h else lookup_route k rts)"
  by (induction rts) (auto simp: lookup_route_def route_key_def)

interpretation routes: lookup_table "[]" "\<lambda>k. assign_route (fst k) (snd k)" lookup_route
  by unfold_locales (auto simp: lookup_assign, simp add: lookup_route_def)

lemma keys_assign:
  "map route_key (assign_route method path h rts) =
    (if (method, path) \<in> set (map route_key rts) then map route_key rts else map route_key rts @ [(method, path)])"
  by (induction rts) (auto simp: route_key_def)

subsection \<open>Registrations\<close>

type_synonym 'h registration = "string \<times> string \<times> 'h route_handler"

definition register_all :: "'h registration list \<Rightarrow> 'h http_router \<Rightarrow> 'h http_router" where
  "register_all regs r = fold (\<lambda>(method, path, h). register method path h) regs r"

definition reg_key :: "'h registration \<Rightarrow> string \<times> string" where
  "reg_key reg = (uppercase (fst reg), fst (snd reg))"

lemma register_all_routes:
  "ro_routes (register_all regs r) =
     fold (\<lambda>(k, h). assign_route (fst k) (snd k) h) (map (\<lambda>reg. (reg_key reg, snd (snd reg))) regs) (ro_routes r)"
proof (induction regs arbitrary: r)
  case Nil
  show ?case by (simp add: register_all_def)
next
  case (Cons reg regs)
  obtain m p h where "reg = (m, p, h)" by (cases reg)
  with Cons [of "register m p h r"] show ?case by (simp add: register_all_def register_def reg_key_def)
qed

lemma register_all_fallbacks [simp]:
  "ro_not_found (register_all regs r) = ro_not_found r"
  "ro_method_not_allowed (register_all regs r) = ro_method_not_allowed r"
  by (induction regs arbitrary: r) (auto simp: register_all_def register_def)

lemma keys_register_all: "map route_key (ro_routes (register_all regs router_new)) = first_seen (map reg_key regs)"
proof (induction regs rule: rev_induct)
  case Nil
  show ?case by (simp add: register_all_def router_new_def)
next
  case (snoc reg regs)
  obtain m p h where reg: "reg = (m, p, h)" by (cases reg)
  let ?r = "register_all regs router_new"
  have "register_all (regs @ [reg]) router_new = register m p h ?r" by (simp add: register_all_def reg)
  then have "map route_key (ro_routes (register_all (regs @ [reg]) router_new)) =
      (if reg_key reg \<in> set (map route_key (ro_routes ?r)) then map route_key (ro_routes ?r)
       else map route_key (ro_routes ?r) @ [reg_key reg])"
    by (simp add: register_def keys_assign reg_key_def reg)
  then show ?case unfolding snoc by (simp add: first_seen_snoc)
qed

lemma allowed_methods_keys:
  "distinct (map route_key (ro_routes r)) \<Longrightarrow>
   allowed_methods path r = map fst (filter (\<lambda>k. snd k = path) (map route_key (ro_routes r)))"
proof -
  have "distinct (map route_key rts) \<Longrightarrow>
    foldl (\<lambda>methods rt. if rt_path rt \<noteq> path then methods
              else if rt_method rt \<in> set methods then methods else methods @ [rt_method rt]) [] rts =
    map fst (filter (\<lambda>k. snd k = path) (map route_key rts))" for rts :: "'a route list"
    by (induction rts rule: rev_induct) (auto simp: route_key_def)
  then show "distinct (map route_key (ro_routes r)) \<Longrightarrow> ?thesis" by (simp add: allowed_methods_def)
qed

subsection \<open>Dispatch\<close>

text \<open>The specification: a finite map of the registrations, and the methods registered for a path.\<close>

definition route_map :: "'h registration list \<Rightarrow> string \<times> string \<Rightarrow> 'h route_handler option" where
  "route_map regs = map_of (rev (map (\<lambda>reg. (reg_key reg, snd (snd reg))) regs))"

definition path_methods :: "'h registration list \<Rightarrow> string \<Rightarrow> string list" where
  "path_methods regs path = map fst (filter (\<lambda>k. snd k = path) (first_seen (map reg_key regs)))"

definition dispatch_spec :: "'h registration list \<Rightarrow> string \<Rightarrow> string \<Rightarrow> 'h router_call" where
  "dispatch_spec regs method path =
     (case route_map regs (uppercase method, path) of
        Some h \<Rightarrow> Call_route h
      | None \<Rightarrow> if path_methods regs path = [] then Call_not_found None
                else Call_method_not_allowed None (path_methods regs path))"

text \<open>
  C30: After any registrations the router's dispatch is the specified function of them: the handler
  registered last for the method (in any letter case) and exactly this path; otherwise the
  method-not-allowed handler, with every method registered for the path once and in order of first
  registration; otherwise the not-found handler.\<close>

theorem dispatch_refines_map:
  "dispatch (register_all regs router_new) request = dispatch_spec regs (method_string request) (r_path request)"
proof -
  let ?r = "register_all regs router_new"
  let ?k = "(uppercase (method_string request), r_path request)"
  have route: "map_option rt_handler (find_route (fst ?k) (snd ?k) ?r) = route_map regs ?k"
    using routes.latest_wins [of ?k "map (\<lambda>reg. (reg_key reg, snd (snd reg))) regs"]
    by (simp add: find_route_lookup register_all_routes route_map_def router_new_def)
  have methods: "allowed_methods path ?r = path_methods regs path" for path
    by (simp add: allowed_methods_keys keys_register_all path_methods_def)
  show ?thesis
  proof (cases "find_route (fst ?k) (snd ?k) ?r")
    case None
    then show ?thesis using route methods
      by (simp add: dispatch_def dispatch_spec_def router_new_def Let_def)
  next
    case (Some rt)
    then show ?thesis using route by (simp add: dispatch_def dispatch_spec_def Let_def) (metis option.simps(5))
  qed
qed

subsection \<open>Plain handlers\<close>

lemma plain_handler_listens:
  assumes "has_streamed_body request" and "bs_events body = []" and "\<not> bs_completed body" and "\<not> bs_canceled body"
    and "start_plain_handler request body = (b, started)"
  shows "listening b \<and> delivered b = [] \<and> started = None"
  using assms by (auto simp: start_plain_handler_def listening_def delivered_def)

lemma session_buffered_call:
  assumes "session_ok (c, buf, failed) f goal rest"
  shows "buffered_call request (hc_body_stream c) =
    (if hc_active c then None else Some (request\<lparr>r_body := goal\<rparr>))"
proof (cases "hc_active c")
  case True
  then show ?thesis using assms
    by (auto simp: session_ok_def streaming_def listening_def buffered_call_def)
next
  case False
  then have "count_list (bs_events (hc_body_stream c)) Bs_complete = 1" "delivered (hc_body_stream c) = goal"
    using session_end [OF assms] by auto
  moreover from this have "Bs_complete \<in> set (bs_events (hc_body_stream c))"
    by (metis count_notin zero_neq_one)
  ultimately show ?thesis using False by (simp add: buffered_call_def)
qed

text \<open>
  A handler registered with \<open>add\<close> whose request announces a chunked body is not called when the
  request arrives; it is called when the body is over, exactly once (one completion), with the
  request it was given and the whole data of the chunks as its body, whatever the segments and pauses.\<close>

theorem plain_handler_gets_whole_body:
  assumes "request_header ''Transfer-Encoding'' request \<noteq> []" and "bs_events body = []"
    and "\<not> bs_completed body" and "\<not> bs_canceled body"
    and "start_plain_handler request body = (b, started)"
    and "good_wire chunks ext ts" and "length (chunk_texts chunks) \<le> unat k_max_streaming_body"
    and "ops \<noteq> []" and "arrived_all ops @ f = wire_body chunks ext ts @ rest"
    and "fold body_step ops (start_streaming_chunked_body b c, [], False) = (c', buf, failed)"
  shows "started = None \<and>
    buffered_call request (hc_body_stream c') =
      (if hc_active c' then None else Some (request\<lparr>r_body := chunk_texts chunks\<rparr>)) \<and>
    count_list (bs_events (hc_body_stream c')) Bs_complete = (if hc_active c' then 0 else 1)"
proof -
  have b: "listening b" "delivered b = []" "started = None"
    using plain_handler_listens assms(1-5) by (auto simp: has_streamed_body_def)
  note ok = session_run [OF chunked_start [OF assms(6,7) b(1), where c = c and rest = rest] assms(8-10), unfolded b(2)]
  have "count_list (bs_events (hc_body_stream c')) Bs_complete = 0" if "hc_active c'"
    using ok(1) that by (auto simp: session_ok_def streaming_def listening_def count_list_0_iff)
  then show ?thesis using session_buffered_call [OF ok(1)] session_end [OF ok(1)] b(3) by simp
qed

definition demo_request :: http_request where
  "demo_request = request_new\<lparr>r_headers := hdr_add ''Transfer-Encoding'' ''chunked'' []\<rparr>"

lemma plain_handler_gets_whole_body_witness:
  "\<exists>c buf failed. fold body_step demo_ops
       (start_streaming_chunked_body (fst (start_plain_handler demo_request body_stream_new)) context_new, [], False) =
       (c, buf, failed) \<and>
     buffered_call demo_request (hc_body_stream c) = Some (demo_request\<lparr>r_body := ''hiabc''\<rparr>)"
proof -
  let ?b = "fst (start_plain_handler demo_request body_stream_new)"
  let ?run = "fold body_step demo_ops (start_streaming_chunked_body ?b context_new, [], False)"
  obtain c buf failed where run: "?run = (c, buf, failed)" by (cases ?run) auto
  have active: "\<not> hc_active (fst ?run)" by code_simp
  have header: "request_header ''Transfer-Encoding'' demo_request \<noteq> []" by code_simp
  have fresh: "bs_events body_stream_new = []" "\<not> bs_completed body_stream_new" "\<not> bs_canceled body_stream_new"
    by (simp_all add: body_stream_new_def)
  have start: "start_plain_handler demo_request body_stream_new = (?b, snd (start_plain_handler demo_request body_stream_new))"
    by simp
  from plain_handler_gets_whole_body [OF header fresh start demo_wire(1-4) run] active run show ?thesis
    by (simp add: demo_wire(5))
qed

end
