(* ===== verification/Parser_Rest.thy ===== *)
theory Parser_Rest
  imports Parser_Segments
begin

text \<open>
  The parser only takes bytes away from the buffer, and a message it completes has taken at least one:
  why the message loops of the server and of the client end.
\<close>

lemma parse_trailers_rest: "parse_trailers p buf = (ok, q, rest) \<Longrightarrow> length rest \<le> length buf"
proof (induction buf arbitrary: p rule: length_induct)
  case (1 buf)
  show ?case
  proof (cases p buf rule: parse_trailers_cases)
    case (line n h)
    then have "length rest \<le> length (drop (n + 2) buf)"
      using 1(1,2) trailer_line_shorter by metis
    then show ?thesis by simp
  qed (use 1(2) in auto)
qed

lemma parse_step_rest: "parse_step t p buf = (c, q, rest) \<Longrightarrow> length rest \<le> length buf"
  using parse_trailers_rest [of p buf]
  by (auto simp: parse_step_def start_line_step_def headers_step_def body_control_def parse_fixed_body_def
      parse_chunk_size_def parse_chunk_data_def set_error_def Let_def
      split: parser_state.splits option.splits if_splits prod.splits)

lemma head_step_rest: "head_step t p buf = (c, q, rest) \<Longrightarrow> length rest \<le> length buf"
  by (auto simp: head_step_def start_line_step_def headers_step_def set_error_def Let_def
      split: parser_state.splits option.splits if_splits prod.splits)

lemma parse_rest: "parse t p buf = (r, q, rest) \<Longrightarrow> length rest \<le> length buf"
proof (induction t p buf rule: parse.induct)
  case (1 t p buf)
  obtain c p1 b1 where step: "parse_step t p buf = (c, p1, b1)" by (cases "parse_step t p buf")
  have le: "length b1 \<le> length buf" using parse_step_rest [OF step] .
  show ?case
  proof (cases c)
    case Again
    then have "length rest \<le> length b1" using 1(1) [OF step [symmetric]] 1(2) parse_steps(2) step by auto
    with le show ?thesis by simp
  qed (use step 1(2) le parse_steps in auto)
qed

lemma parse_head_rest: "parse_head t p buf = (r, q, rest) \<Longrightarrow> length rest \<le> length buf"
proof (induction t p buf rule: parse_head.induct)
  case (1 t p buf)
  obtain c p1 b1 where step: "head_step t p buf = (c, p1, b1)" by (cases "head_step t p buf")
  have le: "length b1 \<le> length buf" using head_step_rest [OF step] .
  show ?case
  proof (cases c)
    case Again
    then have "length rest \<le> length b1" using 1(1) [OF step [symmetric]] 1(2) parse_head_Again step by auto
    with le show ?thesis by simp
  qed (use step 1(2) le parse_head_Return head_step_control in auto)
qed

lemma start_line_not_complete: "start_line_step t p buf = (c, q, rest) \<Longrightarrow> c \<noteq> Return Complete"
  by (auto simp: start_line_step_def Let_def split: option.splits if_splits prod.splits)

lemma parse_consumes:
  assumes "parse t p buf = (Some Complete, q, rest)" and "p_state p = S_start_line"
  shows "length rest < length buf"
proof -
  obtain c p1 b1 where step: "parse_step t p buf = (c, p1, b1)" by (cases "parse_step t p buf")
  have "start_line_step t p buf = (c, p1, b1)" using step assms(2) by (simp add: parse_step_def)
  then have "c \<noteq> Return Complete" by (rule start_line_not_complete)
  then have "c = Again" using step assms(1) parse_steps by (cases c) fastforce+
  then show ?thesis using step assms(1) parse_step_shorter parse_steps(2) parse_rest by fastforce
qed

lemma parse_head_consumes:
  assumes "parse_head t p buf = (Some Complete, q, rest)" and "p_state p = S_start_line"
  shows "length rest < length buf"
proof -
  obtain c p1 b1 where step: "head_step t p buf = (c, p1, b1)" by (cases "head_step t p buf")
  have "start_line_step t p buf = (c, p1, b1)" using step assms(2) by (simp add: head_step_def)
  then have "c \<noteq> Return Complete" by (rule start_line_not_complete)
  then have "c = Again" using step assms(1) parse_head_Return head_step_control by (cases c) fastforce+
  then show ?thesis using step assms(1) head_step_shorter parse_head_Again parse_head_rest by fastforce
qed

end
