(* ===== verification/Http_Server.thy ===== *)
theory Http_Server
  imports Http_Router Parser_Rest
begin

text \<open>
  \<open>HttpServer\<close> (src/src/http/http_server.cpp): what the server does with the bytes of one
  connection. The callbacks are functions: a handler given a writer acts on the shared response queue
  (it may also answer later, as an operation on that queue), a streaming handler also on the body stream.
  The connection is what it was given, in order, and whether it still counts as connected.
\<close>

subsection \<open>Configuration\<close>

record server_config =
  sv_http :: "http_request \<Rightarrow> http_response \<Rightarrow> http_response"
  sv_async :: "(http_request \<Rightarrow> response_writer \<Rightarrow> response_queue \<Rightarrow> response_queue) option"
  sv_streaming :: "(http_request \<Rightarrow> body_stream \<Rightarrow> response_writer \<Rightarrow> response_queue \<Rightarrow>
    body_stream \<times> response_queue) option"
  sv_allowed_methods :: "string list"

definition default_http_callback :: "http_request \<Rightarrow> http_response \<Rightarrow> http_response" where
  "default_http_callback request response =
     response\<lparr>resp_status_code := 404, resp_body := ''404 Not Found'', resp_close_connection := True\<rparr>"

definition default_allowed_methods :: "string list" where
  "default_allowed_methods =
     [''GET'', ''HEAD'', ''POST'', ''PUT'', ''DELETE'', ''OPTIONS'', ''TRACE'', ''CONNECT'', ''PATCH'']"

definition server_new :: server_config where
  "server_new = \<lparr>sv_http = default_http_callback, sv_async = None, sv_streaming = None,
     sv_allowed_methods = default_allowed_methods\<rparr>"

subsection \<open>The state of a connection\<close>

record server_session =
  ss_context :: http_context
  ss_buffer :: string
  ss_queue :: response_queue
  ss_out :: "string list"
  ss_connected :: bool
  ss_shutdown :: bool

definition session_new :: "string \<Rightarrow> u16 \<Rightarrow> server_session" where
  "session_new peer_ip peer_port =
     \<lparr>ss_context = set_peer_address peer_ip peer_port context_new, ss_buffer = [], ss_queue = queue_new,
      ss_out = [], ss_connected = True, ss_shutdown = False\<rparr>"

text \<open>\<open>TcpConnection::send\<close> and \<open>shutdown\<close>: both do nothing unless the connection is connected.\<close>

definition conn_send :: "string \<Rightarrow> server_session \<Rightarrow> server_session" where
  "conn_send bytes s = (if ss_connected s then s\<lparr>ss_out := ss_out s @ [bytes]\<rparr> else s)"

definition conn_shutdown :: "server_session \<Rightarrow> server_session" where
  "conn_shutdown s = (if ss_connected s then s\<lparr>ss_connected := False, ss_shutdown := True\<rparr> else s)"

definition bad_request_text :: string where
  "bad_request_text =
     ''HTTP/1.1 400 Bad Request'' @ crlf @ ''Connection: close'' @ crlf @ ''Content-Length: 0'' @ crlf @ crlf"

definition send_bad_request_and_close :: "server_session \<Rightarrow> server_session" where
  "send_bad_request_and_close s = conn_shutdown (conn_send bad_request_text s)"

subsection \<open>Requests\<close>

function header_has_token :: "string \<Rightarrow> string \<Rightarrow> bool" where
  "header_has_token val token =
     (if val = [] then False
      else
        let comma = find_char CHR '','' val;
            part = trim_ows (case comma of None \<Rightarrow> val | Some c \<Rightarrow> take c val)
        in if equals_ignore_case part token then True
           else (case comma of None \<Rightarrow> False | Some c \<Rightarrow> header_has_token (drop (c + 1) val) token))"
  by pat_completeness auto
termination
  by (relation "measure (\<lambda>(val, token). length val)") auto

declare header_has_token.simps [simp del]

definition should_close :: "http_request \<Rightarrow> bool" where
  "should_close request \<longleftrightarrow>
     (let connection_header = request_header ''Connection'' request
      in header_has_token connection_header ''close'' \<or>
         r_version request = V_http10 \<and> \<not> header_has_token connection_header ''Keep-Alive'')"

definition has_transfer_encoding :: "http_request \<Rightarrow> bool" where
  "has_transfer_encoding request \<longleftrightarrow> request_header ''Transfer-Encoding'' request \<noteq> []"

definition send_response :: "http_response \<Rightarrow> bool \<Rightarrow> server_session \<Rightarrow> bool \<times> server_session" where
  "send_response response include_body s =
     (let s1 = conn_send (response_to_buffer response include_body) s
      in (resp_close_connection response, if resp_close_connection response then conn_shutdown s1 else s1))"

definition on_request :: "server_config \<Rightarrow> http_request \<Rightarrow> server_session \<Rightarrow> bool \<times> server_session" where
  "on_request cfg request s =
     send_response (sv_http cfg request (response_new (should_close request))) (r_method request \<noteq> M_head) s"

definition on_options_star :: "server_config \<Rightarrow> http_request \<Rightarrow> server_session \<Rightarrow> bool \<times> server_session" where
  "on_options_star cfg request s =
     (let close = should_close request \<or> has_content_length request \<or> has_transfer_encoding request
      in send_response
           (add_header ''Allow'' (join_methods (sv_allowed_methods cfg))
              ((response_new close)\<lparr>resp_status_code := 204\<rparr>)) False s)"

definition on_async_request :: "(http_request \<Rightarrow> response_writer \<Rightarrow> response_queue \<Rightarrow> response_queue) \<Rightarrow>
    http_request \<Rightarrow> server_session \<Rightarrow> bool \<times> server_session" where
  "on_async_request handler request s =
     (let close = should_close request;
          (writer, c) = make_response_writer close (r_method request \<noteq> M_head) (ss_context s)
      in (close, s\<lparr>ss_context := c, ss_queue := handler request writer (ss_queue s)\<rparr>))"

definition on_streaming_request :: "(http_request \<Rightarrow> body_stream \<Rightarrow> response_writer \<Rightarrow> response_queue \<Rightarrow>
    body_stream \<times> response_queue) \<Rightarrow> http_request \<Rightarrow> server_session \<Rightarrow> bool \<times> server_session" where
  "on_streaming_request handler request s =
     (let close = should_close request;
          (writer, c) = make_response_writer close (r_method request \<noteq> M_head) (ss_context s);
          (stream, q) = handler request
             (body_stream_new\<lparr>bs_pause_callback := True, bs_resume_callback := True\<rparr>) writer (ss_queue s);
          c1 = (if has_transfer_encoding request then start_streaming_chunked_body stream c
                else start_streaming_body stream (content_length request) c)
      in (close, s\<lparr>ss_context := c1, ss_queue := q\<rparr>))"

definition handle_request :: "server_config \<Rightarrow> http_request \<Rightarrow> server_session \<Rightarrow> bool \<times> server_session" where
  "handle_request cfg request s =
     (if r_method request = M_options \<and> r_target_form request = TF_asterisk then on_options_star cfg request s
      else case sv_streaming cfg of
             Some handler \<Rightarrow> on_streaming_request handler request s
           | None \<Rightarrow>
               (case sv_async cfg of
                  Some handler \<Rightarrow> on_async_request handler request s
                | None \<Rightarrow> on_request cfg request s))"

subsection \<open>The message loop\<close>

definition reset_context :: "server_session \<Rightarrow> server_session" where
  "reset_context s = s\<lparr>ss_context := context_reset (ss_context s)\<rparr>"

text \<open>
  The streaming branch: \<open>Inl\<close> leaves the loop, \<open>Inr\<close> is the state behind the body, the context
  reset.\<close>

definition stream_body :: "server_session \<Rightarrow> server_session + server_session" where
  "stream_body s =
     (case process_streaming_body (ss_context s) (ss_buffer s) of
        (status, c, buf) \<Rightarrow>
          let s1 = s\<lparr>ss_context := c, ss_buffer := buf\<rparr>
          in (case status of
                Error \<Rightarrow> Inl (send_bad_request_and_close (s1\<lparr>ss_context := cancel_streaming_body c\<rparr>))
              | Incomplete \<Rightarrow> Inl s1
              | Complete \<Rightarrow> Inr (reset_context s1)))"

text \<open>
  One iteration: whether the loop goes on. \<open>None\<close> is a read outside the buffer in the parser.\<close>

definition request_step :: "server_config \<Rightarrow> timestamp \<Rightarrow> server_session \<Rightarrow> (bool \<times> server_session) option" where
  "request_step cfg receive_time s =
     (case (if sv_streaming cfg \<noteq> None then context_parse_request_head receive_time (ss_context s) (ss_buffer s)
            else context_parse_request receive_time (ss_context s) (ss_buffer s)) of
        (None, c, buf) \<Rightarrow> None
      | (Some status, c, buf) \<Rightarrow>
          let s1 = s\<lparr>ss_context := c, ss_buffer := buf\<rparr>
          in (case status of
                Error \<Rightarrow> Some (False, send_bad_request_and_close s1)
              | Incomplete \<Rightarrow> Some (False, s1)
              | Complete \<Rightarrow>
                  let (close, s2) = handle_request cfg (p_request (hc_parser c)) s1
                  in if \<not> hc_active (ss_context s2) then
                       (let s3 = reset_context s2 in Some (\<not> (close \<or> ss_buffer s3 = []), s3))
                     else (case stream_body s2 of
                             Inl s3 \<Rightarrow> Some (False, s3)
                           | Inr s3 \<Rightarrow> Some (\<not> (close \<or> ss_buffer s3 = []), s3))))"

definition message_step :: "server_config \<Rightarrow> timestamp \<Rightarrow> server_session \<Rightarrow> (bool \<times> server_session) option" where
  "message_step cfg receive_time s =
     (if hc_active (ss_context s) then
        (case stream_body s of
           Inl s1 \<Rightarrow> Some (False, s1)
         | Inr s1 \<Rightarrow> Some (ss_buffer s1 \<noteq> [], s1))
      else request_step cfg receive_time s)"

subsection \<open>The loop ends\<close>

lemma deliver_rest: "deliver c buf = (n, c1, rest) \<Longrightarrow> length rest \<le> length buf"
  by (auto simp: deliver_def Let_def)

lemma chunk_step_rest: "chunk_step c buf = (r, c1, rest) \<Longrightarrow> length rest \<le> length buf"
  by (auto simp: chunk_step_def chunk_size_step_def chunk_data_step_def chunk_crlf_step_def chunk_trailers_step_def
      Let_def dest: deliver_rest split: streaming_chunk_state.splits option.splits if_splits prod.splits)

lemma process_chunked_rest: "process_chunked c buf = (st, c1, rest) \<Longrightarrow> length rest \<le> length buf"
proof (induction c buf rule: process_chunked.induct)
  case (1 c buf)
  obtain r c2 b2 where step: "chunk_step c buf = (r, c2, b2)" by (cases "chunk_step c buf")
  with 1(1) [OF step [symmetric] refl] 1(2) chunk_step_rest [OF step] show ?case
    by (cases r) (fastforce simp: process_chunked.simps [of c buf])+
qed

lemma process_fixed_rest: "process_fixed c buf = (st, c1, rest) \<Longrightarrow> length rest \<le> length buf"
proof (induction c buf rule: process_fixed.induct)
  case (1 c buf)
  obtain n c2 b2 where d: "deliver c buf = (n, c2, b2)" by (cases "deliver c buf")
  show ?case
  proof (cases "hc_remaining c \<noteq> 0 \<and> buf \<noteq> [] \<and> \<not> bs_reading_paused (hc_body_stream c)")
    case True
    then have "length rest \<le> length b2" using 1 d by (auto simp: process_fixed.simps [of c buf])
    then show ?thesis using deliver_rest [OF d] by simp
  next
    case False
    then show ?thesis using 1(2) by (auto simp: process_fixed.simps [of c buf] split: if_splits)
  qed
qed

lemma process_streaming_body_rest:
  "process_streaming_body c buf = (st, c1, rest) \<Longrightarrow> length rest \<le> length buf"
  by (auto simp: process_streaming_body_def dest: process_chunked_rest process_fixed_rest split: if_splits)

lemma conn_simps [simp]:
  "ss_buffer (conn_send b s) = ss_buffer s" "ss_buffer (conn_shutdown s) = ss_buffer s"
  "ss_context (conn_send b s) = ss_context s" "ss_context (conn_shutdown s) = ss_context s"
  "ss_queue (conn_send b s) = ss_queue s" "ss_queue (conn_shutdown s) = ss_queue s"
  "ss_buffer (reset_context s) = ss_buffer s" "ss_connected (conn_send b s) = ss_connected s"
  by (simp_all add: conn_send_def conn_shutdown_def reset_context_def)

lemma reset_context_fresh [simp]:
  "p_state (hc_parser (ss_context (reset_context s))) = S_start_line" "\<not> hc_active (ss_context (reset_context s))"
  by (simp_all add: reset_context_def context_reset_def parser_reset_def)

lemma send_response_buffer: "ss_buffer (snd (send_response r b s)) = ss_buffer s"
  by (simp add: send_response_def Let_def)

lemma handle_request_buffer: "ss_buffer (snd (handle_request cfg request s)) = ss_buffer s"
  by (auto simp: handle_request_def on_options_star_def on_streaming_request_def on_async_request_def on_request_def
      send_response_buffer make_response_writer_def Let_def split: option.split prod.split)

lemma stream_body_Inr:
  assumes "stream_body s = Inr s1"
  shows "length (ss_buffer s1) \<le> length (ss_buffer s)" and "p_state (hc_parser (ss_context s1)) = S_start_line"
    and "\<not> hc_active (ss_context s1)"
  using assms by (auto simp: stream_body_def Let_def dest: process_streaming_body_rest
      split: prod.splits parse_status.splits)

definition message_measure :: "server_session \<Rightarrow> nat" where
  "message_measure s =
     4 * length (ss_buffer s) + (if hc_active (ss_context s) then 2 else 0) +
     (if p_state (hc_parser (ss_context s)) = S_start_line then 0 else 1)"

lemma context_parse_rest:
  assumes "(if h then context_parse_request_head t c buf else context_parse_request t c buf) = (Some Complete, c1, rest)"
  shows "length rest \<le> length buf" and "p_state (hc_parser c) = S_start_line \<Longrightarrow> length rest < length buf"
  using assms parse_rest parse_head_rest parse_consumes parse_head_consumes
  by (fastforce simp: context_parse_request_head_def context_parse_request_def with_peer_def parse_request_def
      parse_request_head_def split: if_splits prod.splits)+

lemma message_step_measure:
  assumes "message_step cfg t s = Some (True, s1)"
  shows "message_measure s1 < message_measure s"
proof (cases "hc_active (ss_context s)")
  case True
  then have "stream_body s = Inr s1" using assms by (auto simp: message_step_def split: sum.splits)
  then show ?thesis using True stream_body_Inr [of s s1] by (simp add: message_measure_def)
next
  case False
  then have step: "request_step cfg t s = Some (True, s1)" using assms by (simp add: message_step_def)
  obtain c buf where parse: "(if sv_streaming cfg \<noteq> None then context_parse_request_head t (ss_context s) (ss_buffer s)
      else context_parse_request t (ss_context s) (ss_buffer s)) = (Some Complete, c, buf)"
    using step by (auto simp: request_step_def Let_def split: option.splits prod.splits parse_status.splits)
  let ?s1 = "s\<lparr>ss_context := c, ss_buffer := buf\<rparr>"
  obtain close s2 where handle: "handle_request cfg (p_request (hc_parser c)) ?s1 = (close, s2)"
    by (cases "handle_request cfg (p_request (hc_parser c)) ?s1")
  have buf2: "ss_buffer s2 = buf" using handle_request_buffer [of cfg "p_request (hc_parser c)" ?s1] handle by simp
  have "length (ss_buffer s1) \<le> length buf \<and> p_state (hc_parser (ss_context s1)) = S_start_line \<and> \<not> hc_active (ss_context s1)"
    using step parse handle buf2 stream_body_Inr [of s2 s1]
    by (auto simp: request_step_def Let_def split: if_splits sum.splits)
  then show ?thesis using context_parse_rest [OF parse] by (auto simp: message_measure_def)
qed

text \<open>\<open>on_plain_message\<close>.\<close>

function on_plain_message :: "server_config \<Rightarrow> timestamp \<Rightarrow> server_session \<Rightarrow> server_session option" where
  "on_plain_message cfg receive_time s =
     (if \<not> ss_connected s then Some s
      else case message_step cfg receive_time s of
             None \<Rightarrow> None
           | Some (again, s1) \<Rightarrow> if again then on_plain_message cfg receive_time s1 else Some s1)"
  by pat_completeness auto
termination
  by (relation "measure (\<lambda>(cfg, t, s). message_measure s)") (auto dest: message_step_measure)

declare on_plain_message.simps [simp del]

text \<open>Bytes arrive; the event loop flushes the ready responses; the connection goes away.\<close>

definition on_message :: "server_config \<Rightarrow> timestamp \<Rightarrow> string \<Rightarrow> server_session \<Rightarrow> server_session option" where
  "on_message cfg receive_time bytes s =
     on_plain_message cfg receive_time (s\<lparr>ss_buffer := ss_buffer s @ bytes\<rparr>)"

definition flush_responses :: "server_session \<Rightarrow> server_session" where
  "flush_responses s =
     (let q = flush_ready_responses (ss_queue s);
          s1 = fold conn_send (drop (length (rq_sent (ss_queue s))) (rq_sent q)) (s\<lparr>ss_queue := q\<rparr>)
      in if rq_shutdown q then conn_shutdown s1 else s1)"

definition on_disconnect :: "server_session \<Rightarrow> server_session" where
  "on_disconnect s = s\<lparr>ss_connected := False, ss_context := cancel_streaming_body (ss_context s)\<rparr>"

end
