(* ===== verification/Http_Server_Laws.thy ===== *)
theory Http_Server_Laws
  imports Http_Server Parser_Safety
begin

text \<open>
  The server's connection: no read outside its buffer in any reachable state, responses that do not
  depend on how the bytes are cut into segments, and what goes wrong when a direct response overtakes
  the queue of pending ones.
\<close>

subsection \<open>Reachable states\<close>

text \<open>
  What happens to a connection: bytes arrive, handlers answer on the queue, the loop flushes, a handler
  pauses or resumes its body stream, the peer goes away.\<close>

inductive server_run :: "server_config \<Rightarrow> server_session \<Rightarrow> bool" for cfg :: server_config where
  run_start: "server_run cfg (session_new ip port)"
| run_message: "\<lbrakk>server_run cfg s; on_message cfg t bytes s = Some s1\<rbrakk> \<Longrightarrow> server_run cfg s1"
| run_answer: "server_run cfg s \<Longrightarrow> server_run cfg (s\<lparr>ss_queue := q\<rparr>)"
| run_flush: "server_run cfg s \<Longrightarrow> server_run cfg (flush_responses s)"
| run_stream: "server_run cfg s \<Longrightarrow> server_run cfg (s\<lparr>ss_context := (ss_context s)\<lparr>hc_body_stream := b\<rparr>\<rparr>)"
| run_disconnect: "server_run cfg s \<Longrightarrow> server_run cfg (on_disconnect s)"

definition parser_safe :: "http_parser \<Rightarrow> bool" where
  "parser_safe p \<longleftrightarrow> parser_inv p \<and> p_mode p = Mode_request \<and> \<not> p_head_only p \<and> p_options p = default_parser_options"

lemma parser_safe_call:
  assumes "parser_safe p"
  shows "\<exists>st q rest. parse_request t p buf = (Some st, q, rest) \<and> parser_safe q"
proof -
  obtain r q rest where run: "parse t p buf = (r, q, rest)" by (cases "parse t p buf")
  have "max_body default_parser_options + 2 < 2 ^ 64" by (simp add: default_parser_options_def)
  then have "parser_inv q \<and> r \<noteq> None"
    using parse_inv [OF run] assms by (simp add: parser_safe_def)
  moreover have "parse_request t p buf = (r, q, rest)"
    using run assms by (simp add: parser_safe_def parse_request_def whole_message_call)
  ultimately show ?thesis using parse_frame [OF run] assms
    by (auto simp: parser_safe_def same_frame_def)
qed

lemma parser_safe_peer:
  "parser_safe (p\<lparr>p_request := (p_request p)\<lparr>r_peer_ip := ip, r_peer_port := port\<rparr>\<rparr>) = parser_safe p"
  by (simp add: parser_safe_def parser_inv_def message_headers_def message_body_def chunks_ok_def head_ok_def
      body_ok_def bodyless_def split: parser_state.split)

lemma parser_safe_reset [simp]: "p_options p = default_parser_options \<Longrightarrow> p_mode p = Mode_request \<Longrightarrow> parser_safe (parser_reset p)"
  using parser_new_inv(2) [of p] by (simp add: parser_safe_def parser_reset_def)

lemma parser_safe_new: "parser_safe (hc_parser context_new)"
  using parser_new_inv(1) by (simp add: parser_safe_def context_new_def parser_new_def)

text \<open>Whole messages are parsed only by servers without a streaming callback.\<close>

definition session_safe :: "server_config \<Rightarrow> server_session \<Rightarrow> bool" where
  "session_safe cfg s \<longleftrightarrow> (sv_streaming cfg = None \<longrightarrow> parser_safe (hc_parser (ss_context s)))"

lemma handle_request_parser:
  "hc_parser (ss_context (snd (handle_request cfg request s))) = hc_parser (ss_context s)"
  by (auto simp: handle_request_def on_options_star_def on_streaming_request_def on_async_request_def on_request_def
      send_response_def make_response_writer_def start_streaming_body_def start_streaming_chunked_body_def Let_def
      split: option.split prod.split)

lemma process_parser:
  "process_chunked c buf = (st, c1, rest) \<Longrightarrow> hc_parser c1 = hc_parser c"
proof (induction c buf rule: process_chunked.induct)
  case (1 c buf)
  obtain r c2 b2 where step: "chunk_step c buf = (r, c2, b2)" by (cases "chunk_step c buf")
  then have "hc_parser c2 = hc_parser c"
    by (auto simp: chunk_step_def chunk_size_step_def chunk_data_step_def chunk_crlf_step_def chunk_trailers_step_def
        deliver_def context_complete_def Let_def split: streaming_chunk_state.splits option.splits if_splits)
  with 1(1) [OF step [symmetric] refl] 1(2) step show ?case
    by (cases r) (auto simp: process_chunked.simps [of c buf])
qed

lemma process_fixed_parser: "process_fixed c buf = (st, c1, rest) \<Longrightarrow> hc_parser c1 = hc_parser c"
proof (induction c buf rule: process_fixed.induct)
  case (1 c buf)
  obtain n c2 b2 where d: "deliver c buf = (n, c2, b2)" by (cases "deliver c buf")
  then have "hc_parser c2 = hc_parser c" by (auto simp: deliver_def Let_def)
  with 1 d show ?case
    by (auto simp: process_fixed.simps [of c buf] context_complete_def split: if_splits)
qed

lemma stream_body_parser:
  "stream_body s = Inl s1 \<Longrightarrow> hc_parser (ss_context s1) = hc_parser (ss_context s)"
  "stream_body s = Inr s1 \<Longrightarrow> hc_parser (ss_context s1) = parser_reset (hc_parser (ss_context s))"
  by (auto simp: stream_body_def process_streaming_body_def cancel_streaming_body_def reset_context_def
      send_bad_request_and_close_def context_reset_def Let_def
      dest: process_parser process_fixed_parser split: prod.splits parse_status.splits if_splits)

lemma with_peer_safe:
  "parser_safe q \<Longrightarrow> with_peer c (st, q, rest) = (st', c', rest') \<Longrightarrow> parser_safe (hc_parser c') \<and> st' = st \<and> rest' = rest"
  by (auto simp: with_peer_def parser_safe_peer)

lemma reset_context_parser [simp]: "hc_parser (ss_context (reset_context s)) = parser_reset (hc_parser (ss_context s))"
  by (simp add: reset_context_def context_reset_def)

lemma parser_safe_resets: "parser_safe p \<Longrightarrow> parser_safe (parser_reset p)"
  by (auto simp: parser_safe_def intro: parser_safe_reset [unfolded parser_safe_def, THEN conjunct1])
    (simp_all add: parser_reset_def)

lemma bad_request_context [simp]: "ss_context (send_bad_request_and_close s) = ss_context s"
  by (simp add: send_bad_request_and_close_def)

lemma parse_head_total: "\<exists>st q rest. parse_head t p buf = (Some st, q, rest)"
proof (induction t p buf rule: parse_head.induct)
  case (1 t p buf)
  obtain c p1 b1 where step: "head_step t p buf = (c, p1, b1)" by (cases "head_step t p buf")
  with 1 parse_head_Again parse_head_Return head_step_control [OF step] show ?case
    by (cases c) metis+
qed

lemma context_parse_total:
  assumes "session_safe cfg s"
  shows "\<exists>st c rest. (if sv_streaming cfg \<noteq> None then context_parse_request_head t (ss_context s) buf
      else context_parse_request t (ss_context s) buf) = (Some st, c, rest) \<and>
    (sv_streaming cfg = None \<longrightarrow> parser_safe (hc_parser c))"
proof (cases "sv_streaming cfg")
  case None
  then have "parser_safe (hc_parser (ss_context s))" using assms by (simp add: session_safe_def)
  from parser_safe_call [OF this] obtain st q rest where
    call: "parse_request t (hc_parser (ss_context s)) buf = (Some st, q, rest)" "parser_safe q" by blast
  obtain st' c rest' where peer: "with_peer (ss_context s) (Some st, q, rest) = (st', c, rest')"
    by (cases "with_peer (ss_context s) (Some st, q, rest)")
  with with_peer_safe [OF call(2) peer] None call(1) show ?thesis by (simp add: context_parse_request_def)
next
  case (Some h)
  obtain st q rest where "parse_request_head t (hc_parser (ss_context s)) buf = (Some st, q, rest)"
    using parse_head_total unfolding parse_request_head_def by blast
  with Some show ?thesis by (auto simp: context_parse_request_head_def with_peer_def)
qed

lemma message_step_safe:
  assumes "session_safe cfg s"
  shows "\<exists>again s1. message_step cfg t s = Some (again, s1) \<and> session_safe cfg s1"
proof (cases "hc_active (ss_context s)")
  case True
  show ?thesis
  proof (cases "stream_body s")
    case (Inl s1)
    with True assms stream_body_parser(1) [OF Inl] show ?thesis
      by (simp add: message_step_def session_safe_def ex_bool_eq)
  next
    case (Inr s1)
    with True assms stream_body_parser(2) [OF Inr] show ?thesis
      by (simp add: message_step_def session_safe_def parser_safe_resets)
  qed
next
  case False
  obtain st c buf where parse: "(if sv_streaming cfg \<noteq> None then context_parse_request_head t (ss_context s) (ss_buffer s)
      else context_parse_request t (ss_context s) (ss_buffer s)) = (Some st, c, buf)"
    and safe: "sv_streaming cfg = None \<longrightarrow> parser_safe (hc_parser c)"
    using context_parse_total [OF assms] by blast
  let ?s1 = "s\<lparr>ss_context := c, ss_buffer := buf\<rparr>"
  obtain close s2 where handle: "handle_request cfg (p_request (hc_parser c)) ?s1 = (close, s2)"
    by (cases "handle_request cfg (p_request (hc_parser c)) ?s1")
  have parser: "hc_parser (ss_context s2) = hc_parser c"
    using handle_request_parser [of cfg "p_request (hc_parser c)" ?s1] handle by simp
  have step: "message_step cfg t s = request_step cfg t s" using False by (simp add: message_step_def)
  show ?thesis
  proof (cases st)
    case Complete
    show ?thesis
    proof (cases "stream_body s2")
      case (Inl s3)
      with parse handle Complete safe parser stream_body_parser(1) [OF Inl] show ?thesis
        unfolding step by (auto simp: request_step_def session_safe_def parser_safe_resets Let_def)
    next
      case (Inr s3)
      with parse handle Complete safe parser stream_body_parser(2) [OF Inr] show ?thesis
        unfolding step by (auto simp: request_step_def session_safe_def parser_safe_resets Let_def)
    qed
  qed (use parse safe in \<open>auto simp: step request_step_def session_safe_def Let_def\<close>)
qed

lemma on_plain_message_safe:
  "session_safe cfg s \<Longrightarrow> \<exists>s1. on_plain_message cfg t s = Some s1 \<and> session_safe cfg s1"
proof (induction cfg t s rule: on_plain_message.induct)
  case (1 cfg t s)
  from message_step_safe [OF 1(2), of t] obtain again s1 where
    step: "message_step cfg t s = Some (again, s1)" "session_safe cfg s1" by blast
  with 1 show ?case by (auto simp: on_plain_message.simps [of cfg t s])
qed

subsection \<open>Output only grows\<close>

definition grows :: "server_session \<Rightarrow> server_session \<Rightarrow> bool" where
  "grows s s1 \<longleftrightarrow> (\<exists>more. ss_out s1 = ss_out s @ more) \<and> (ss_connected s1 \<longrightarrow> ss_connected s)"

lemma grows_refl [simp]: "grows s s"
  by (simp add: grows_def)

lemma grows_trans [trans]: "grows s s1 \<Longrightarrow> grows s1 s2 \<Longrightarrow> grows s s2"
  by (auto simp: grows_def)

lemma grows_updates [simp]:
  "grows s (s1\<lparr>ss_context := c\<rparr>) = grows s s1" "grows s (s1\<lparr>ss_buffer := buf\<rparr>) = grows s s1"
  "grows s (s1\<lparr>ss_queue := q\<rparr>) = grows s s1" "grows (s\<lparr>ss_context := c\<rparr>) s1 = grows s s1"
  "grows (s\<lparr>ss_buffer := buf\<rparr>) s1 = grows s s1" "grows s (reset_context s1) = grows s s1"
  by (simp_all add: grows_def reset_context_def)

lemma grows_conn: "grows s (conn_send b s)" "grows s (conn_shutdown s)"
  by (auto simp: grows_def conn_send_def conn_shutdown_def)

lemma grows_bad_request: "grows s (send_bad_request_and_close s)"
  unfolding send_bad_request_and_close_def by (meson grows_conn grows_trans)

lemma grows_send_response: "grows s (snd (send_response r b s))"
  unfolding send_response_def Let_def using grows_conn grows_trans by (simp, metis)

lemma grows_handle_request: "grows s (snd (handle_request cfg request s))"
  by (simp add: handle_request_def on_options_star_def on_streaming_request_def on_async_request_def on_request_def
      grows_send_response Let_def split: option.split prod.split)

lemma grows_stream_body:
  "stream_body s = Inl s1 \<Longrightarrow> grows s s1" "stream_body s = Inr s1 \<Longrightarrow> grows s s1"
  by (auto simp: stream_body_def Let_def intro: grows_trans [OF _ grows_bad_request]
      split: prod.splits parse_status.splits)

lemma grows_request_step:
  assumes "request_step cfg t s = Some (again, s1)"
  shows "grows s s1"
proof -
  obtain st c buf where parse: "(if sv_streaming cfg \<noteq> None then context_parse_request_head t (ss_context s) (ss_buffer s)
      else context_parse_request t (ss_context s) (ss_buffer s)) = (Some st, c, buf)"
    using assms unfolding request_step_def by (auto split: option.splits prod.splits)
  let ?s1 = "s\<lparr>ss_context := c, ss_buffer := buf\<rparr>"
  obtain close s2 where handle: "handle_request cfg (p_request (hc_parser c)) ?s1 = (close, s2)"
    by (cases "handle_request cfg (p_request (hc_parser c)) ?s1")
  have "grows s s2" using grows_handle_request [of ?s1 cfg "p_request (hc_parser c)"] handle by simp
  with assms parse handle grows_bad_request [of ?s1] show ?thesis
    by (auto simp: request_step_def Let_def split: parse_status.splits if_splits sum.splits
        intro: grows_trans dest: grows_stream_body)
qed

lemma grows_message_step: "message_step cfg t s = Some (again, s1) \<Longrightarrow> grows s s1"
  by (auto simp: message_step_def dest: grows_stream_body grows_request_step split: if_splits sum.splits)

lemma grows_on_plain_message: "on_plain_message cfg t s = Some s1 \<Longrightarrow> grows s s1"
proof (induction cfg t s rule: on_plain_message.induct)
  case (1 cfg t s)
  show ?case
  proof (cases "ss_connected s")
    case True
    with 1(2) obtain again s2 where step: "message_step cfg t s = Some (again, s2)"
      by (auto simp: on_plain_message.simps [of cfg t s] split: option.splits prod.splits)
    from grows_message_step [OF step] 1 step True show ?thesis
      by (auto simp: on_plain_message.simps [of cfg t s] intro: grows_trans split: if_splits)
  next
    case False
    with 1(2) show ?thesis by (simp add: on_plain_message.simps [of cfg t s])
  qed
qed

lemma on_message_grows: "on_message cfg t bytes s = Some s1 \<Longrightarrow> grows s s1"
  unfolding on_message_def using grows_on_plain_message by fastforce

lemma fold_conn_send_context [simp]: "ss_context (fold conn_send bs s) = ss_context s"
  by (induction bs arbitrary: s) simp_all

lemma server_run_safe: "server_run cfg s \<Longrightarrow> session_safe cfg s"
proof (induction rule: server_run.induct)
  case run_start
  show ?case using parser_safe_new by (simp add: session_safe_def session_new_def set_peer_address_def)
next
  case (run_message s t bytes s1)
  then have "session_safe cfg (s\<lparr>ss_buffer := ss_buffer s @ bytes\<rparr>)" by (simp add: session_safe_def)
  from on_plain_message_safe [OF this, of t] run_message show ?case by (auto simp: on_message_def)
qed (simp_all add: session_safe_def flush_responses_def on_disconnect_def cancel_streaming_body_def Let_def)

text \<open>
  C29: In every state a server connection can reach, whatever the callbacks do, any further bytes are
  processed without a read outside the buffer and in finitely many iterations; output is only ever
  appended, and none is produced once the connection is closed or shut down.\<close>

theorem server_total:
  assumes "server_run cfg s"
  shows "\<exists>s1. on_message cfg t bytes s = Some s1 \<and> (\<exists>more. ss_out s1 = ss_out s @ more \<and>
    (\<not> ss_connected s \<longrightarrow> more = [] \<and> \<not> ss_connected s1 \<and> ss_buffer s1 = ss_buffer s @ bytes))"
proof -
  have "session_safe cfg (s\<lparr>ss_buffer := ss_buffer s @ bytes\<rparr>)"
    using server_run_safe [OF assms] by (simp add: session_safe_def)
  from on_plain_message_safe [OF this, of t] obtain s1 where s1: "on_message cfg t bytes s = Some s1"
    by (auto simp: on_message_def)
  show ?thesis
  proof (cases "ss_connected s")
    case True
    with s1 on_message_grows [OF s1] show ?thesis by (auto simp: grows_def)
  next
    case False
    then show ?thesis by (simp add: on_message_def on_plain_message.simps [of cfg t "s\<lparr>ss_buffer := b\<rparr>" for b])
  qed
qed

definition sample_get :: string where
  "sample_get = ''GET / HTTP/1.1'' @ crlf @ ''Host: a'' @ crlf @ crlf"

lemma server_total_witness:
  "\<exists>s1. on_message server_new 7 sample_get (session_new ''1.2.3.4'' 80) = Some s1 \<and> \<not> ss_connected s1"
proof -
  obtain s1 where "on_message server_new 7 sample_get (session_new ''1.2.3.4'' 80) = Some s1"
    using server_total [OF run_start [of server_new "''1.2.3.4''" 80], of 7 sample_get] by blast
  moreover have "\<not> ss_connected (the (on_message server_new 7 sample_get (session_new ''1.2.3.4'' 80)))"
    by code_simp
  ultimately show ?thesis by simp
qed

subsection \<open>Segments\<close>

text \<open>A server with the plain callback only.\<close>

definition synchronous :: "server_config \<Rightarrow> bool" where
  "synchronous cfg \<longleftrightarrow> sv_async cfg = None \<and> sv_streaming cfg = None"

abbreviation more_input :: "string \<Rightarrow> server_session \<Rightarrow> server_session" where
  "more_input x s \<equiv> s\<lparr>ss_buffer := ss_buffer s @ x\<rparr>"

lemma send_response_input:
  "send_response r b (more_input x s) = (let (c, s1) = send_response r b s in (c, more_input x s1))"
  by (simp add: send_response_def conn_send_def conn_shutdown_def Let_def)

lemma handle_request_input:
  "synchronous cfg \<Longrightarrow> handle_request cfg request (more_input x s) =
    (let (close, s1) = handle_request cfg request s in (close, more_input x s1))"
  by (simp add: synchronous_def handle_request_def on_options_star_def on_request_def send_response_input Let_def)

lemma handle_request_closes:
  "synchronous cfg \<Longrightarrow> handle_request cfg request s = (close, s1) \<Longrightarrow> close \<Longrightarrow> \<not> ss_connected s1"
  by (auto simp: synchronous_def handle_request_def on_options_star_def on_request_def send_response_def
      conn_shutdown_def Let_def split: if_splits)

lemma handle_request_inactive:
  "synchronous cfg \<Longrightarrow> handle_request cfg request s = (close, s1) \<Longrightarrow> ss_context s1 = ss_context s"
  by (auto simp: synchronous_def handle_request_def on_options_star_def on_request_def send_response_def
      Let_def split: if_splits)

lemma with_peer_inactive: "with_peer c r = (st, c1, rest) \<Longrightarrow> hc_active c1 = hc_active c"
  by (auto simp: with_peer_def split: prod.splits)

text \<open>What one iteration on a prefix of the input says about the same iteration on more input.\<close>

lemma request_step_input:
  assumes sync: "synchronous cfg" and inactive: "\<not> hc_active (ss_context s)"
    and step: "request_step cfg t s = Some (again, s1)"
  shows "\<not> hc_active (ss_context s1) \<and>
    (if again then request_step cfg t (more_input x s) = Some (True, more_input x s1)
     else bad_request_text \<in> set (ss_out s1) \<or> \<not> ss_connected s \<or>
       request_step cfg t (more_input x s) = request_step cfg t (more_input x s1) \<and> ss_connected s1 = ss_connected s \<or>
       \<not> ss_connected s1 \<and> request_step cfg t (more_input x s) = Some (False, more_input x s1) \<or>
       ss_buffer s1 = [] \<and> request_step cfg t (more_input x s) = Some (x \<noteq> [], more_input x s1))"
proof -
  have async: "sv_streaming cfg = None" using sync by (simp add: synchronous_def)
  obtain st q rest where parse: "parse_request t (hc_parser (ss_context s)) (ss_buffer s) = (Some st, q, rest)"
    using step async by (auto simp: request_step_def context_parse_request_def with_peer_def split: option.splits prod.splits)
  obtain c where peer: "with_peer (ss_context s) (Some st, q, rest) = (Some st, c, rest)"
    by (auto simp: with_peer_def)
  have active: "\<not> hc_active c" using with_peer_inactive [OF peer] inactive by simp
  let ?s1 = "s\<lparr>ss_context := c, ss_buffer := rest\<rparr>"
  have run: "context_parse_request t (ss_context s) (ss_buffer s) = (Some st, c, rest)"
    using parse peer by (simp add: context_parse_request_def)
  show ?thesis
  proof (cases st)
    case Incomplete
    then have s1: "s1 = ?s1" "\<not> again" using step run async by (auto simp: request_step_def Let_def)
    have c: "c = (ss_context s)\<lparr>hc_parser := q\<rparr>" using peer Incomplete by (auto simp: with_peer_def)
    have "context_parse_request t (ss_context s) (ss_buffer s @ x) = with_peer (ss_context s) (parse_request t q (rest @ x))"
      using parse_request_resume parse Incomplete by (simp add: context_parse_request_def)
    also have "\<dots> = context_parse_request t c (rest @ x)"
      by (simp add: context_parse_request_def with_peer_def c split: prod.split)
    finally show ?thesis using s1 active async by (auto simp: request_step_def Let_def split: prod.split option.split)
  next
    case Complete
    obtain close s2 where handle: "handle_request cfg (p_request (hc_parser c)) ?s1 = (close, s2)"
      by (cases "handle_request cfg (p_request (hc_parser c)) ?s1")
    have "parse_request t (hc_parser (ss_context s)) (ss_buffer s @ x) = (Some st, q, rest @ x)"
      using parse_request_complete_extend parse Complete by simp
    then have run2: "context_parse_request t (ss_context s) (ss_buffer s @ x) = (Some st, c, rest @ x)"
      using peer by (auto simp: context_parse_request_def with_peer_def)
    have input: "(s\<lparr>ss_buffer := ss_buffer s @ x\<rparr>)\<lparr>ss_context := c, ss_buffer := rest @ x\<rparr> = more_input x ?s1"
      by simp
    have ctx: "ss_context s2 = c" using handle_request_inactive [OF sync handle] by simp
    have buf: "ss_buffer s2 = rest" using handle_request_buffer [of cfg "p_request (hc_parser c)" ?s1] handle by simp
    have s1: "s1 = reset_context s2" "again = (\<not> (close \<or> rest = []))"
      using step run async Complete handle ctx active buf by (auto simp: request_step_def Let_def)
    have "request_step cfg t (more_input x s) = Some (\<not> (close \<or> rest @ x = []), more_input x s1)"
      using run2 async Complete handle handle_request_input [OF sync, where request = "p_request (hc_parser c)" and x = x and s = ?s1] ctx active buf s1
      by (simp add: request_step_def input reset_context_def Let_def)
    moreover have "close \<Longrightarrow> \<not> ss_connected s1"
      using handle_request_closes [OF sync handle] s1 by (simp add: reset_context_def)
    ultimately show ?thesis using s1 buf by auto
  next
    case Error
    then have "s1 = send_bad_request_and_close ?s1" "\<not> again" using step run async by (auto simp: request_step_def Let_def)
    then show ?thesis using active
      by (auto simp: send_bad_request_and_close_def conn_send_def conn_shutdown_def)
  qed
qed

lemma on_plain_message_input:
  "on_plain_message cfg t s = Some s1 \<Longrightarrow> synchronous cfg \<Longrightarrow> \<not> hc_active (ss_context s) \<Longrightarrow>
   bad_request_text \<notin> set (ss_out s1) \<Longrightarrow> x \<noteq> [] \<Longrightarrow>
   on_plain_message cfg t (more_input x s) = on_plain_message cfg t (more_input x s1) \<and> \<not> hc_active (ss_context s1)"
proof (induction cfg t s rule: on_plain_message.induct)
  case (1 cfg t s)
  show ?case
  proof (cases "ss_connected s")
    case False
    with 1(2,4) show ?thesis by (simp add: on_plain_message.simps [of cfg t s])
  next
    case True
    with 1(2) obtain again s2 where step: "message_step cfg t s = Some (again, s2)"
      by (auto simp: on_plain_message.simps [of cfg t s] split: option.splits prod.splits)
    have eq: "message_step cfg t u = request_step cfg t u" if "\<not> hc_active (ss_context u)" for u
      using that by (simp add: message_step_def)
    note input = request_step_input [OF 1(3,4) step [unfolded eq [OF 1(4)]], of x]
    show ?thesis
    proof (cases again)
      case True
      then have "on_plain_message cfg t s2 = Some s1" using 1(2) step \<open>ss_connected s\<close>
        by (simp add: on_plain_message.simps [of cfg t s])
      with 1 step True input \<open>ss_connected s\<close> show ?thesis
        by (auto simp: on_plain_message.simps [of cfg t "more_input x s"] eq)
    next
      case False
      then have "s2 = s1" using 1(2) step \<open>ss_connected s\<close> by (simp add: on_plain_message.simps [of cfg t s])
      then have "\<not> hc_active (ss_context s1)" "bad_request_text \<in> set (ss_out s1) \<or> \<not> ss_connected s \<or>
          request_step cfg t (more_input x s) = request_step cfg t (more_input x s1) \<and> ss_connected s1 = ss_connected s \<or>
          \<not> ss_connected s1 \<and> request_step cfg t (more_input x s) = Some (False, more_input x s1) \<or>
          request_step cfg t (more_input x s) = Some (True, more_input x s1)"
        using input False 1(6) by auto
      moreover note 1(4,5) \<open>ss_connected s\<close>
      ultimately show ?thesis
        by (elim disjE conjE)
          (simp_all add: on_plain_message.simps [of cfg t "more_input x s"] eq,
           simp_all add: on_plain_message.simps [of cfg t "more_input x s1"] eq)
    qed
  qed
qed

text \<open>The segments of the connection, each handed over by one read.\<close>

fun deliver_all :: "server_config \<Rightarrow> timestamp \<Rightarrow> string list \<Rightarrow> server_session \<Rightarrow> server_session option" where
  "deliver_all cfg t [] s = Some s"
| "deliver_all cfg t (x # xs) s =
     (case on_message cfg t x s of None \<Rightarrow> None | Some s1 \<Rightarrow> deliver_all cfg t xs s1)"

lemma on_message_input:
  assumes "on_message cfg t x s = Some s1" and "synchronous cfg" and "\<not> hc_active (ss_context s)"
    and "bad_request_text \<notin> set (ss_out s1)" and "y \<noteq> []"
  shows "on_message cfg t (x @ y) s = on_message cfg t y s1 \<and> \<not> hc_active (ss_context s1)"
  using on_plain_message_input [OF assms(1) [unfolded on_message_def] assms(2) _ assms(4,5)] assms(3)
  by (simp add: on_message_def)

lemma deliver_all_grows: "deliver_all cfg t segs s = Some s1 \<Longrightarrow> grows s s1"
  by (induction segs arbitrary: s) (auto split: option.splits dest: on_message_grows intro: grows_trans)


definition sample_server :: server_config where
  "sample_server = server_new\<lparr>sv_http := \<lambda>request response. response\<lparr>resp_status_code := 200, resp_body := r_path request\<rparr>\<rparr>"

definition sample_halves :: "string list" where
  "sample_halves = [take 20 (sample_get @ sample_get), drop 20 (sample_get @ sample_get)]"


subsection \<open>Responses that overtake\<close>

text \<open>
  A direct response does not go through the queue: with an asynchronous handler the 204 for a pipelined
  \<open>OPTIONS *\<close> (and the 400 for a malformed request) is sent before the responses still pending.\<close>

definition late_server :: server_config where
  "late_server = server_new\<lparr>sv_async := Some (\<lambda>request writer q. q)\<rparr>"

definition late_answer :: "server_session \<Rightarrow> server_session" where
  "late_answer s =
     flush_responses (s\<lparr>ss_queue :=
       snd (snd (writer_send ((response_new False)\<lparr>resp_status_code := 200\<rparr>) (writer_new 0 False True) (ss_queue s)))\<rparr>)"

lemma options_star_overtakes:
  "map_option (\<lambda>s. map (take 12) (ss_out (late_answer s)))
     (on_message late_server 7 (sample_get @ ''OPTIONS * HTTP/1.1'' @ crlf @ ''Host: a'' @ crlf @ crlf) (session_new [] 0)) =
   Some [''HTTP/1.1 204'', ''HTTP/1.1 200'']"
  by code_simp

text \<open>\<open>should_close\<close> reads the Connection field as a list of tokens.\<close>

lemma header_has_token_split:
  "header_has_token val token \<longleftrightarrow> list_ex (\<lambda>part. lowercase part = lowercase token) (split_commas val)"
proof (induction val token rule: header_has_token.induct)
  case (1 val token)
  show ?case
  proof (cases "find_char CHR '','' val")
    case None
    then show ?thesis
      by (simp add: header_has_token.simps [of val] split_commas.simps [of val] equals_ignore_case_iff Let_def)
  next
    case (Some c)
    with 1 show ?thesis
      by (auto simp: header_has_token.simps [of val] split_commas.simps [of val] equals_ignore_case_iff Let_def)
  qed
qed

text \<open>
  The connection is kept exactly when RFC 9112 keeps it: no element of the Connection list is
  \<open>close\<close>, and under HTTP/1.0 one is \<open>keep-alive\<close>, in any letter case and with any blanks around.\<close>

theorem should_close_persistence:
  "should_close request \<longleftrightarrow>
     (let options = map lowercase (split_commas (hdr_get ''Connection'' (r_headers request)))
      in ''close'' \<in> set options \<or> r_version request = V_http10 \<and> ''keep-alive'' \<notin> set options)"
proof -
  have "lowercase ''close'' = ''close''" "lowercase ''Keep-Alive'' = ''keep-alive''" by code_simp+
  moreover have "list_ex (\<lambda>part. lowercase part = x) parts \<longleftrightarrow> x \<in> set (map lowercase parts)" for x parts
    by (induction parts) auto
  ultimately show ?thesis
    by (simp only: should_close_def header_has_token_split request_header_def Let_def)
qed

end
