(* ===== verification/Tcp_Connection.thy ===== *)
theory Tcp_Connection
  imports Prelude
begin

text \<open>
  \<open>TcpConnection\<close> and its \<open>Channel\<close> (src/src/net/tcp_connection.cpp, src/src/net/channel.cpp), in a
  build without OKLIB_ENABLE_TLS, the default: a connection for which TLS is enabled carries the
  configuration error. What the kernel answers to a read or a write is an argument. The loop's queue
  of functors is a list of tasks, run in order; the callbacks that ran are recorded.
\<close>

subsection \<open>The channel\<close>

text \<open>The interest in reading and writing, and whether the poller has the descriptor.\<close>

record channel =
  ch_reading :: bool
  ch_writing :: bool
  ch_polled :: bool

definition channel_new :: channel where
  "channel_new = \<lparr>ch_reading = False, ch_writing = False, ch_polled = False\<rparr>"

definition is_none_event :: "channel \<Rightarrow> bool" where
  "is_none_event ch \<longleftrightarrow> \<not> ch_reading ch \<and> \<not> ch_writing ch"

text \<open>\<open>Channel::update\<close> through \<open>Poller::update_channel\<close>: no interest removes the descriptor.\<close>

definition channel_update :: "channel \<Rightarrow> channel" where
  "channel_update ch = ch\<lparr>ch_polled := \<not> is_none_event ch\<rparr>"

definition enable_reading :: "channel \<Rightarrow> channel" where
  "enable_reading ch = channel_update (ch\<lparr>ch_reading := True\<rparr>)"

definition disable_reading :: "channel \<Rightarrow> channel" where
  "disable_reading ch = channel_update (ch\<lparr>ch_reading := False\<rparr>)"

definition enable_writing :: "channel \<Rightarrow> channel" where
  "enable_writing ch = channel_update (ch\<lparr>ch_writing := True\<rparr>)"

definition disable_writing :: "channel \<Rightarrow> channel" where
  "disable_writing ch = channel_update (ch\<lparr>ch_writing := False\<rparr>)"

definition disable_all :: "channel \<Rightarrow> channel" where
  "disable_all ch = channel_update (ch\<lparr>ch_reading := False, ch_writing := False\<rparr>)"

definition channel_remove :: "channel \<Rightarrow> channel" where
  "channel_remove ch = ch\<lparr>ch_polled := False\<rparr>"

subsection \<open>The connection\<close>

datatype tcp_state = Disconnected | Connecting | Connected | Disconnecting

datatype tcp_task = Send_task string | Send_raw_task string | Shutdown_task | Force_close_task
  | Start_read_task | Stop_read_task | Write_complete_task | High_water_task nat

text \<open>The callbacks: the connection callback with what \<open>connected()\<close> says when it runs.\<close>

datatype tcp_event = Ev_connection bool | Ev_message | Ev_close | Ev_write_complete | Ev_high_water nat

record tcp_connection =
  tc_state :: tcp_state
  tc_reading :: bool
  tc_channel :: channel
  tc_input :: string
  tc_output :: string
  tc_high_water_mark :: nat
  tc_write_complete_callback :: bool
  tc_high_water_callback :: bool
  tc_close_callback :: bool
  tc_send_filter :: "(string \<Rightarrow> string) option"
  tc_tls_error :: "string option"
  tc_tls_pending :: "string list"
  tc_tasks :: "tcp_task list"
  tc_events :: "tcp_event list"
  tc_wire :: string
  tc_fin :: bool

definition tcp_new :: tcp_connection where
  "tcp_new =
     \<lparr>tc_state = Connecting, tc_reading = True, tc_channel = channel_new, tc_input = [], tc_output = [],
      tc_high_water_mark = 64 * 1024 * 1024, tc_write_complete_callback = False, tc_high_water_callback = False,
      tc_close_callback = False, tc_send_filter = None, tc_tls_error = None, tc_tls_pending = [], tc_tasks = [],
      tc_events = [], tc_wire = [], tc_fin = False\<rparr>"

definition emit_event :: "tcp_event \<Rightarrow> tcp_connection \<Rightarrow> tcp_connection" where
  "emit_event e c = c\<lparr>tc_events := tc_events c @ [e]\<rparr>"

definition queue_in_loop :: "tcp_task \<Rightarrow> tcp_connection \<Rightarrow> tcp_connection" where
  "queue_in_loop t c = c\<lparr>tc_tasks := tc_tasks c @ [t]\<rparr>"

definition enable_tls :: "bool \<Rightarrow> tcp_connection \<Rightarrow> tcp_connection" where
  "enable_tls enabled c =
     (if \<not> enabled then c
      else c\<lparr>tc_tls_error := Some ''oklib was built without OKLIB_ENABLE_TLS=ON'', tc_tls_pending := []\<rparr>)"

text \<open>
  The kernel's answers. A write accepts some bytes, would block (EAGAIN, EWOULDBLOCK), finds the peer
  gone (EPIPE, ECONNRESET) or fails in another way.\<close>

datatype write_result = Wrote nat | Write_again | Write_reset | Write_failed

datatype read_result = Got string | Eof | Read_failed

subsection \<open>Closing\<close>

definition handle_close :: "tcp_connection \<Rightarrow> tcp_connection" where
  "handle_close c =
     (if tc_state c = Disconnected then c
      else
        let c1 = emit_event (Ev_connection False)
                   (c\<lparr>tc_state := Disconnected, tc_channel := disable_all (tc_channel c)\<rparr>)
        in if tc_close_callback c1 then emit_event Ev_close c1 else c1)"

definition force_close_in_loop :: "tcp_connection \<Rightarrow> tcp_connection" where
  "force_close_in_loop c =
     (if tc_state c = Connected \<or> tc_state c = Disconnecting then handle_close c else c)"

definition fail_tls :: "tcp_connection \<Rightarrow> tcp_connection" where
  "fail_tls c = force_close_in_loop c"

definition start_tls_handshake :: "tcp_connection \<Rightarrow> tcp_connection" where
  "start_tls_handshake c = (case tc_tls_error c of None \<Rightarrow> c | Some e \<Rightarrow> fail_tls c)"

definition shutdown_in_loop :: "tcp_connection \<Rightarrow> tcp_connection" where
  "shutdown_in_loop c = (if \<not> ch_writing (tc_channel c) then c\<lparr>tc_fin := True\<rparr> else c)"

subsection \<open>Sending\<close>

definition send_raw_in_loop :: "write_result \<Rightarrow> string \<Rightarrow> tcp_connection \<Rightarrow> tcp_connection" where
  "send_raw_in_loop r data c =
     (if tc_state c = Disconnected then c
      else
        let direct = (\<not> ch_writing (tc_channel c) \<and> tc_output c = []);
            written = (case r of Wrote n \<Rightarrow> if direct then min n (length data) else 0 | _ \<Rightarrow> 0);
            fault_error = (direct \<and> r = Write_reset);
            remaining = length data - written;
            c1 = c\<lparr>tc_wire := tc_wire c @ take written data\<rparr>;
            c2 = (if direct \<and> (case r of Wrote n \<Rightarrow> True | _ \<Rightarrow> False) \<and> remaining = 0 \<and> tc_write_complete_callback c1
                  then queue_in_loop Write_complete_task c1 else c1)
        in if \<not> fault_error \<and> 0 < remaining then
             (let old_len = length (tc_output c2);
                  c3 = (if tc_high_water_mark c2 \<le> old_len + remaining \<and> old_len < tc_high_water_mark c2 \<and>
                           tc_high_water_callback c2
                        then queue_in_loop (High_water_task (old_len + remaining)) c2 else c2);
                  c4 = c3\<lparr>tc_output := tc_output c3 @ drop written data\<rparr>
              in if \<not> ch_writing (tc_channel c4) then c4\<lparr>tc_channel := enable_writing (tc_channel c4)\<rparr> else c4)
           else c2)"

definition send_in_loop :: "write_result \<Rightarrow> string \<Rightarrow> tcp_connection \<Rightarrow> tcp_connection" where
  "send_in_loop r message0 c =
     (let message = (case tc_send_filter c of None \<Rightarrow> message0 | Some f \<Rightarrow> f message0)
      in if message = [] then c
         else if tc_tls_error c \<noteq> None
         then start_tls_handshake (c\<lparr>tc_tls_pending := tc_tls_pending c @ [message]\<rparr>)
         else send_raw_in_loop r message c)"

definition tcp_send :: "bool \<Rightarrow> write_result \<Rightarrow> string \<Rightarrow> tcp_connection \<Rightarrow> tcp_connection" where
  "tcp_send in_loop r message c =
     (if tc_state c \<noteq> Connected then c
      else if in_loop then send_in_loop r message c
      else queue_in_loop (Send_task message) c)"

definition tcp_send_raw :: "bool \<Rightarrow> write_result \<Rightarrow> string \<Rightarrow> tcp_connection \<Rightarrow> tcp_connection" where
  "tcp_send_raw in_loop r message c =
     (if tc_state c \<noteq> Connected then c
      else if in_loop then send_raw_in_loop r message c
      else queue_in_loop (Send_raw_task message) c)"

definition tcp_shutdown :: "bool \<Rightarrow> tcp_connection \<Rightarrow> tcp_connection" where
  "tcp_shutdown in_loop c =
     (if tc_state c \<noteq> Connected then c
      else
        let c1 = c\<lparr>tc_state := Disconnecting\<rparr>
        in if in_loop then shutdown_in_loop c1 else queue_in_loop Shutdown_task c1)"

definition force_close :: "tcp_connection \<Rightarrow> tcp_connection" where
  "force_close c =
     (if tc_state c = Connected \<or> tc_state c = Disconnecting
      then queue_in_loop Force_close_task (c\<lparr>tc_state := Disconnecting\<rparr>) else c)"

subsection \<open>Reading\<close>

definition dispatch_pending_read_in_loop :: "tcp_connection \<Rightarrow> tcp_connection" where
  "dispatch_pending_read_in_loop c =
     (if tc_state c \<noteq> Connected then c
      else if tc_input c \<noteq> [] then emit_event Ev_message c else c)"

definition start_read_in_loop :: "tcp_connection \<Rightarrow> tcp_connection" where
  "start_read_in_loop c =
     (if tc_reading c then c
      else dispatch_pending_read_in_loop (c\<lparr>tc_channel := enable_reading (tc_channel c), tc_reading := True\<rparr>))"

definition stop_read_in_loop :: "tcp_connection \<Rightarrow> tcp_connection" where
  "stop_read_in_loop c =
     (if \<not> tc_reading c then c
      else c\<lparr>tc_channel := disable_reading (tc_channel c), tc_reading := False\<rparr>)"

definition start_read :: "bool \<Rightarrow> tcp_connection \<Rightarrow> tcp_connection" where
  "start_read in_loop c = (if in_loop then start_read_in_loop c else queue_in_loop Start_read_task c)"

definition stop_read :: "bool \<Rightarrow> tcp_connection \<Rightarrow> tcp_connection" where
  "stop_read in_loop c = (if in_loop then stop_read_in_loop c else queue_in_loop Stop_read_task c)"

text \<open>\<open>handle_error\<close> only writes a log line.\<close>

definition handle_read :: "read_result \<Rightarrow> tcp_connection \<Rightarrow> tcp_connection" where
  "handle_read r c =
     (case r of
        Got bytes \<Rightarrow>
          let c1 = c\<lparr>tc_input := tc_input c @ bytes\<rparr>
          in if tc_tls_error c1 \<noteq> None then fail_tls (c1\<lparr>tc_input := []\<rparr>) else emit_event Ev_message c1
      | Eof \<Rightarrow> handle_close c
      | Read_failed \<Rightarrow> c)"

definition handle_write :: "write_result \<Rightarrow> tcp_connection \<Rightarrow> tcp_connection" where
  "handle_write r c =
     (if \<not> ch_writing (tc_channel c) then c
      else
        let n = (case r of Wrote k \<Rightarrow> min k (length (tc_output c)) | _ \<Rightarrow> 0)
        in if 0 < n then
             (let c1 = c\<lparr>tc_wire := tc_wire c @ take n (tc_output c), tc_output := drop n (tc_output c)\<rparr>
              in if tc_output c1 = [] then
                   (let c2 = c1\<lparr>tc_channel := disable_writing (tc_channel c1)\<rparr>;
                        c3 = (if tc_write_complete_callback c2 then queue_in_loop Write_complete_task c2 else c2)
                    in if tc_state c3 = Disconnecting then shutdown_in_loop c3 else c3)
                 else c1)
           else c)"

subsection \<open>Life cycle\<close>

definition connect_established :: "tcp_connection \<Rightarrow> tcp_connection" where
  "connect_established c =
     (let c1 = start_tls_handshake (c\<lparr>tc_state := Connected, tc_channel := enable_reading (tc_channel c)\<rparr>)
      in if tc_state c1 = Connected then emit_event (Ev_connection True) c1 else c1)"

definition connect_destroyed :: "tcp_connection \<Rightarrow> tcp_connection" where
  "connect_destroyed c =
     (let c1 = (if tc_state c = Connected
                then emit_event (Ev_connection False)
                       (c\<lparr>tc_state := Disconnected, tc_channel := disable_all (tc_channel c)\<rparr>)
                else c)
      in c1\<lparr>tc_channel := channel_remove (tc_channel c1)\<rparr>)"

text \<open>\<open>Channel::handle_event\<close> with the connection's callbacks: close, error, read, write, in this order.\<close>

record ready_events =
  re_close :: bool
  re_error :: bool
  re_read :: "read_result option"
  re_write :: "write_result option"

definition handle_event :: "ready_events \<Rightarrow> tcp_connection \<Rightarrow> tcp_connection" where
  "handle_event ev c =
     (let c1 = (if re_close ev \<and> re_read ev = None then handle_close c else c);
          c2 = (case re_read ev of None \<Rightarrow> c1 | Some r \<Rightarrow> handle_read r c1)
      in case re_write ev of None \<Rightarrow> c2 | Some r \<Rightarrow> handle_write r c2)"

text \<open>A functor the loop runs. The user's callbacks are only recorded.\<close>

definition run_task :: "write_result \<Rightarrow> tcp_task \<Rightarrow> tcp_connection \<Rightarrow> tcp_connection" where
  "run_task r t c =
     (case t of
        Send_task message \<Rightarrow> send_in_loop r message c
      | Send_raw_task message \<Rightarrow> send_raw_in_loop r message c
      | Shutdown_task \<Rightarrow> shutdown_in_loop c
      | Force_close_task \<Rightarrow> force_close_in_loop c
      | Start_read_task \<Rightarrow> start_read_in_loop c
      | Stop_read_task \<Rightarrow> stop_read_in_loop c
      | Write_complete_task \<Rightarrow> emit_event Ev_write_complete c
      | High_water_task n \<Rightarrow> emit_event (Ev_high_water n) c)"

definition run_next_task :: "write_result \<Rightarrow> tcp_connection \<Rightarrow> tcp_connection" where
  "run_next_task r c =
     (case tc_tasks c of [] \<Rightarrow> c | t # ts \<Rightarrow> run_task r t (c\<lparr>tc_tasks := ts\<rparr>))"

text \<open>The application takes bytes out of the input buffer.\<close>

definition consume_input :: "nat \<Rightarrow> tcp_connection \<Rightarrow> tcp_connection" where
  "consume_input n c = c\<lparr>tc_input := drop n (tc_input c)\<rparr>"

end
