(* ===== verification/Tcp_Laws.thy ===== *)
theory Tcp_Laws
  imports Tcp_Connection
begin

text \<open>
  A TCP connection over any sequence of calls, events and kernel answers: the bytes it puts on the wire,
  when it sends FIN, which callbacks it makes, and that its channel waits for exactly what is needed.
\<close>

subsection \<open>Histories\<close>

text \<open>
  One operation of the history. An application call carries whether it comes from the loop's own thread;
  an event or a task carries what the kernel answers to the write it may make. The loop makes an event
  call only for a connection it has established and not yet closed.\<close>

datatype tcp_op =
    Established | Destroyed | Hangup | Readable read_result | Writable write_result | Run_next write_result
  | Send bool write_result string | Send_raw bool write_result string | Shutdown bool | Force_close
  | Start_read bool | Stop_read bool | Consume nat

definition live :: "tcp_connection \<Rightarrow> bool" where
  "live c \<longleftrightarrow> tc_state c = Connected \<or> tc_state c = Disconnecting"

fun tcp_step :: "tcp_op \<Rightarrow> tcp_connection \<Rightarrow> tcp_connection" where
  "tcp_step Established c = (if tc_state c = Connecting then connect_established c else c)"
| "tcp_step Destroyed c = (if tc_state c = Connecting then c else connect_destroyed c)"
| "tcp_step Hangup c = (if live c then handle_close c else c)"
| "tcp_step (Readable r) c = (if live c then handle_read r c else c)"
| "tcp_step (Writable r) c = handle_write r c"
| "tcp_step (Run_next r) c = run_next_task r c"
| "tcp_step (Send in_loop r message) c = tcp_send in_loop r message c"
| "tcp_step (Send_raw in_loop r message) c = tcp_send_raw in_loop r message c"
| "tcp_step (Shutdown in_loop) c = tcp_shutdown in_loop c"
| "tcp_step Force_close c = force_close c"
| "tcp_step (Start_read in_loop) c = (if tc_state c = Connecting then c else start_read in_loop c)"
| "tcp_step (Stop_read in_loop) c = (if tc_state c = Connecting then c else stop_read in_loop c)"
| "tcp_step (Consume n) c = consume_input n c"

definition filtered :: "tcp_connection \<Rightarrow> string \<Rightarrow> string" where
  "filtered c message = (case tc_send_filter c of None \<Rightarrow> message | Some f \<Rightarrow> f message)"

text \<open>The bytes an operation hands to the raw sender of a connection that is not closed.\<close>

definition plain_bytes :: "tcp_connection \<Rightarrow> string \<Rightarrow> string" where
  "plain_bytes c message = (if tc_tls_error c = None \<and> tc_state c \<noteq> Disconnected then filtered c message else [])"

fun handed :: "tcp_op \<Rightarrow> tcp_connection \<Rightarrow> string" where
  "handed (Send True r message) c = (if tc_state c = Connected then plain_bytes c message else [])"
| "handed (Send_raw True r message) c = (if tc_state c = Connected then message else [])"
| "handed (Run_next r) c =
     (case tc_tasks c of
        Send_task message # ts \<Rightarrow> plain_bytes c message
      | Send_raw_task message # ts \<Rightarrow> if tc_state c = Disconnected then [] else message
      | _ \<Rightarrow> [])"
| "handed _ c = []"

text \<open>The kernel reported EPIPE or ECONNRESET for a message that was written directly.\<close>

definition resets :: "write_result \<Rightarrow> bool" where
  "resets r \<longleftrightarrow> r = Write_reset"

fun peer_gone :: "tcp_op \<Rightarrow> bool" where
  "peer_gone (Send in_loop r message) = resets r"
| "peer_gone (Send_raw in_loop r message) = resets r"
| "peer_gone (Run_next r) = resets r"
| "peer_gone _ = False"

text \<open>The history's state: the connection, the bytes handed over so far, and whether none was lost.\<close>

type_synonym tcp_history = "tcp_connection \<times> string \<times> bool"

definition history_step :: "tcp_op \<Rightarrow> tcp_history \<Rightarrow> tcp_history" where
  "history_step op h = (case h of (c, sent, intact) \<Rightarrow>
     (tcp_step op c, sent @ handed op c, intact \<and> \<not> peer_gone op))"

lemma history_step_simp [simp]:
  "history_step op (c, sent, intact) = (tcp_step op c, sent @ handed op c, intact \<and> \<not> peer_gone op)"
  by (simp add: history_step_def)

text \<open>A connection as its owner prepares it: any callbacks, filter, mark and TLS setting.\<close>

definition prepared :: "tcp_connection \<Rightarrow> bool" where
  "prepared c \<longleftrightarrow> tc_state c = Connecting \<and> tc_reading c \<and> tc_channel c = channel_new \<and> tc_input c = [] \<and>
     tc_output c = [] \<and> tc_tasks c = [] \<and> tc_events c = [] \<and> tc_wire c = [] \<and> \<not> tc_fin c \<and> tc_tls_pending c = []"

subsection \<open>The rules of the channel and of the raw sender\<close>

lemmas channel_defs = enable_reading_def disable_reading_def enable_writing_def disable_writing_def
  disable_all_def channel_remove_def channel_update_def is_none_event_def channel_new_def

lemmas close_defs = handle_close_def force_close_in_loop_def fail_tls_def start_tls_handshake_def
  emit_event_def queue_in_loop_def Let_def

lemma send_raw_keeps [simp]:
  "tc_state (send_raw_in_loop r data c) = tc_state c" "tc_reading (send_raw_in_loop r data c) = tc_reading c"
  "tc_input (send_raw_in_loop r data c) = tc_input c" "tc_events (send_raw_in_loop r data c) = tc_events c"
  "tc_fin (send_raw_in_loop r data c) = tc_fin c" "tc_tls_error (send_raw_in_loop r data c) = tc_tls_error c"
  "ch_reading (tc_channel (send_raw_in_loop r data c)) = ch_reading (tc_channel c)"
  by (simp_all add: send_raw_in_loop_def queue_in_loop_def channel_defs Let_def)

lemma send_raw_tasks:
  "\<exists>more. tc_tasks (send_raw_in_loop r data c) = tc_tasks c @ more \<and> set more \<subseteq> insert Write_complete_task (range High_water_task)"
  by (auto simp: send_raw_in_loop_def queue_in_loop_def Let_def)

lemma send_raw_stream:
  "tc_state c \<noteq> Disconnected \<Longrightarrow> \<not> resets r \<Longrightarrow> (tc_output c \<noteq> [] \<longrightarrow> ch_writing (tc_channel c)) \<Longrightarrow>
   tc_wire (send_raw_in_loop r data c) @ tc_output (send_raw_in_loop r data c) = tc_wire c @ tc_output c @ data"
  by (cases r) (auto simp: send_raw_in_loop_def queue_in_loop_def resets_def Let_def min_def)

lemma send_raw_writing:
  "tc_state c \<noteq> Disconnected \<Longrightarrow> ch_writing (tc_channel c) = (tc_output c \<noteq> []) \<Longrightarrow>
   ch_writing (tc_channel (send_raw_in_loop r data c)) = (tc_output (send_raw_in_loop r data c) \<noteq> [])"
  by (cases r) (auto simp: send_raw_in_loop_def queue_in_loop_def channel_defs Let_def min_def)

subsection \<open>What the channel waits for\<close>

definition wired :: "tcp_connection \<Rightarrow> bool" where
  "wired c \<longleftrightarrow>
     (tc_state c = Connecting \<longrightarrow> tc_tasks c = [] \<and> tc_reading c \<and> tc_output c = [] \<and> tc_channel c = channel_new) \<and>
     (tc_state c = Disconnected \<longrightarrow> \<not> ch_writing (tc_channel c)) \<and>
     (tc_state c = Connected \<or> tc_state c = Disconnecting \<longrightarrow>
        ch_writing (tc_channel c) = (tc_output c \<noteq> []) \<and> ch_reading (tc_channel c) = tc_reading c)"

lemma wired_emit [simp]: "wired (emit_event e c) = wired c"
  by (simp add: wired_def emit_event_def)

lemma wired_input [simp]: "wired (c\<lparr>tc_input := b\<rparr>) = wired c" "wired (c\<lparr>tc_tls_pending := ps\<rparr>) = wired c"
  by (simp_all add: wired_def)

lemma wired_queue: "wired c \<Longrightarrow> tc_state c \<noteq> Connecting \<Longrightarrow> wired (queue_in_loop t c)"
  by (simp add: wired_def queue_in_loop_def split: tcp_state.splits)

lemma wired_close: "wired c \<Longrightarrow> wired (handle_close c)" "wired c \<Longrightarrow> wired (force_close_in_loop c)"
  by (auto simp: wired_def handle_close_def force_close_in_loop_def emit_event_def channel_defs Let_def
      split: tcp_state.splits)

lemma wired_tls: "wired c \<Longrightarrow> wired (start_tls_handshake c)" "wired c \<Longrightarrow> wired (fail_tls c)"
  by (simp_all add: start_tls_handshake_def fail_tls_def wired_close split: option.split)

lemma wired_fin: "wired c \<Longrightarrow> wired (shutdown_in_loop c)"
  by (auto simp: shutdown_in_loop_def wired_def)

lemma wired_send_raw:
  assumes "wired c" and "tc_state c \<noteq> Connecting"
  shows "wired (send_raw_in_loop r data c)"
proof (cases "tc_state c = Disconnected")
  case True
  with assms show ?thesis by (simp add: send_raw_in_loop_def)
next
  case False
  with assms send_raw_writing [of c r data] show ?thesis
    by (auto simp: wired_def split: tcp_state.splits)
qed

lemma wired_send: "wired c \<Longrightarrow> tc_state c \<noteq> Connecting \<Longrightarrow> wired (send_in_loop r data c)"
  by (simp add: send_in_loop_def wired_send_raw wired_tls Let_def)

lemma wired_reading:
  "wired c \<Longrightarrow> tc_state c \<noteq> Connecting \<Longrightarrow> wired (start_read_in_loop c)"
  "wired c \<Longrightarrow> tc_state c \<noteq> Connecting \<Longrightarrow> wired (stop_read_in_loop c)"
  by (auto simp: wired_def start_read_in_loop_def stop_read_in_loop_def dispatch_pending_read_in_loop_def emit_event_def
      channel_defs split: tcp_state.splits)

lemma wired_handle_write: "wired c \<Longrightarrow> wired (handle_write r c)"
  by (cases "tc_state c")
    (auto simp: wired_def handle_write_def shutdown_in_loop_def queue_in_loop_def channel_defs Let_def split: write_result.splits)

lemma wired_tasks: "wired c \<Longrightarrow> tc_tasks c = t # ts \<Longrightarrow> wired (c\<lparr>tc_tasks := ts\<rparr>) \<and> tc_state c \<noteq> Connecting"
  by (auto simp: wired_def split: tcp_state.splits)

lemma wired_run_next: "wired c \<Longrightarrow> wired (run_next_task r c)"
proof (cases "tc_tasks c")
  case (Cons t ts)
  assume "wired c"
  from wired_tasks [OF this Cons] have "wired (c\<lparr>tc_tasks := ts\<rparr>)" "tc_state (c\<lparr>tc_tasks := ts\<rparr>) \<noteq> Connecting"
    by simp_all
  then show ?thesis
    by (cases t) (simp_all add: run_next_task_def run_task_def Cons
        wired_send wired_send_raw wired_fin wired_close wired_reading)
qed (simp add: run_next_task_def)

lemma wired_step: "wired c \<Longrightarrow> wired (tcp_step op c)"
proof (cases op)
  case Established
  moreover assume "wired c"
  moreover from this have "tc_state c = Connecting \<Longrightarrow> wired (c\<lparr>tc_state := Connected, tc_channel := enable_reading (tc_channel c)\<rparr>)"
    by (simp add: wired_def channel_defs)
  ultimately show ?thesis by (auto simp: connect_established_def wired_tls Let_def)
next
  case Destroyed
  moreover assume "wired c"
  ultimately show ?thesis
    by (auto simp: connect_destroyed_def wired_def emit_event_def channel_defs Let_def split: tcp_state.splits)
next
  case (Shutdown b)
  moreover assume "wired c"
  moreover from this have "tc_state c = Connected \<Longrightarrow> wired (c\<lparr>tc_state := Disconnecting\<rparr>)" by (simp add: wired_def)
  ultimately show ?thesis by (auto simp: tcp_shutdown_def wired_fin wired_queue Let_def)
next
  case Force_close
  moreover assume "wired c"
  moreover from this have "live c \<Longrightarrow> wired (c\<lparr>tc_state := Disconnecting\<rparr>)" by (auto simp: wired_def live_def)
  ultimately show ?thesis by (auto simp: force_close_def wired_queue live_def)
qed (auto simp: handle_read_def tcp_send_def tcp_send_raw_def start_read_def stop_read_def consume_input_def Let_def
      intro: wired_close wired_tls wired_handle_write wired_run_next wired_send wired_send_raw wired_queue wired_reading
      split: read_result.split)

text \<open>The poller has the descriptor exactly while there is an interest.\<close>

definition polled_ok :: "tcp_connection \<Rightarrow> bool" where
  "polled_ok c \<longleftrightarrow> ch_polled (tc_channel c) = (\<not> is_none_event (tc_channel c))"

lemma polled_updates [simp]:
  "polled_ok (c\<lparr>tc_state := st\<rparr>) = polled_ok c" "polled_ok (c\<lparr>tc_tasks := ts\<rparr>) = polled_ok c"
  "polled_ok (c\<lparr>tc_fin := b\<rparr>) = polled_ok c" "polled_ok (c\<lparr>tc_input := s\<rparr>) = polled_ok c"
  "polled_ok (c\<lparr>tc_tls_pending := ps\<rparr>) = polled_ok c" "polled_ok (emit_event e c) = polled_ok c"
  "polled_ok (queue_in_loop t c) = polled_ok c" "polled_ok (c\<lparr>tc_wire := w\<rparr>) = polled_ok c"
  "polled_ok (c\<lparr>tc_output := s\<rparr>) = polled_ok c" "polled_ok (c\<lparr>tc_reading := b\<rparr>) = polled_ok c"
  "polled_ok (c\<lparr>tc_channel := channel_update ch\<rparr>)"
  by (simp_all add: polled_ok_def emit_event_def queue_in_loop_def channel_update_def is_none_event_def)

lemmas update_defs = enable_reading_def disable_reading_def enable_writing_def disable_writing_def disable_all_def

lemma polled_functions [simp]:
  "polled_ok c \<Longrightarrow> polled_ok (handle_close c)" "polled_ok c \<Longrightarrow> polled_ok (shutdown_in_loop c)"
  "polled_ok c \<Longrightarrow> polled_ok (start_read_in_loop c)" "polled_ok c \<Longrightarrow> polled_ok (stop_read_in_loop c)"
  "polled_ok c \<Longrightarrow> polled_ok (send_raw_in_loop r data c)" "polled_ok c \<Longrightarrow> polled_ok (handle_write r c)"
  by (simp_all add: handle_close_def shutdown_in_loop_def start_read_in_loop_def stop_read_in_loop_def
      dispatch_pending_read_in_loop_def send_raw_in_loop_def handle_write_def update_defs Let_def)

lemma polled_tls [simp]:
  "polled_ok c \<Longrightarrow> polled_ok (force_close_in_loop c)" "polled_ok c \<Longrightarrow> polled_ok (start_tls_handshake c)"
  "polled_ok c \<Longrightarrow> polled_ok (fail_tls c)"
  by (simp_all add: force_close_in_loop_def start_tls_handshake_def fail_tls_def split: option.split)

lemma polled_send [simp]: "polled_ok c \<Longrightarrow> polled_ok (send_in_loop r data c)"
  by (simp add: send_in_loop_def Let_def)

lemma polled_run_next: "polled_ok c \<Longrightarrow> polled_ok (run_next_task r c)"
proof (cases "tc_tasks c")
  case (Cons t ts)
  assume "polled_ok c"
  then show ?thesis by (cases t) (simp_all add: run_next_task_def run_task_def Cons)
qed (simp add: run_next_task_def)

lemma polled_step: "polled_ok c \<Longrightarrow> op \<noteq> Destroyed \<Longrightarrow> polled_ok (tcp_step op c)"
  by (cases op) (simp_all add: connect_established_def handle_read_def tcp_send_def tcp_send_raw_def tcp_shutdown_def
      force_close_def start_read_def stop_read_def consume_input_def polled_run_next update_defs Let_def
      split: read_result.split)

definition interest_inv :: "tcp_op list \<Rightarrow> tcp_connection \<Rightarrow> bool" where
  "interest_inv ops c \<longleftrightarrow> wired c \<and> (Destroyed \<notin> set ops \<longrightarrow> polled_ok c)"

lemma prepared_wired: "prepared c \<Longrightarrow> wired c \<and> polled_ok c"
  by (simp add: prepared_def wired_def polled_ok_def channel_new_def is_none_event_def)

lemma interest_history:
  assumes "prepared c"
  shows "op_history tcp_step c interest_inv"
proof
  show "interest_inv [] c" using prepared_wired [OF assms] by (simp add: interest_inv_def)
next
  fix ops c1 op
  assume "interest_inv ops c1"
  then show "interest_inv (ops @ [op]) (tcp_step op c1)"
    using wired_step [of c1 op] polled_step [of c1 op] by (auto simp: interest_inv_def)
qed

text \<open>
  Between establishment and close, after any calls, events and kernel answers, the channel is
  interested in writing exactly while output is buffered and in reading exactly while reading is not
  paused, and (until it is destroyed) the poller has it exactly while it is interested in something: no
  buffered byte is forgotten and no idle connection spins.\<close>

theorem channel_interest_exact:
  assumes "prepared c" and "live (fold tcp_step ops c)"
  shows "ch_writing (tc_channel (fold tcp_step ops c)) = (tc_output (fold tcp_step ops c) \<noteq> []) \<and>
    ch_reading (tc_channel (fold tcp_step ops c)) = tc_reading (fold tcp_step ops c) \<and>
    (Destroyed \<notin> set ops \<longrightarrow> ch_polled (tc_channel (fold tcp_step ops c)) =
       (tc_output (fold tcp_step ops c) \<noteq> [] \<or> tc_reading (fold tcp_step ops c)))"
  using op_history.run [OF interest_history [OF assms(1)], of ops] assms(2)
  by (auto simp: interest_inv_def wired_def live_def polled_ok_def is_none_event_def)

subsection \<open>The byte stream\<close>

definition stream_inv :: "string \<Rightarrow> tcp_connection \<Rightarrow> bool" where
  "stream_inv sent c \<longleftrightarrow> wired c \<and> tc_wire c @ tc_output c = sent"

lemma close_stream [simp]:
  "tc_wire (handle_close c) = tc_wire c" "tc_output (handle_close c) = tc_output c"
  "tc_wire (force_close_in_loop c) = tc_wire c" "tc_output (force_close_in_loop c) = tc_output c"
  "tc_wire (fail_tls c) = tc_wire c" "tc_output (fail_tls c) = tc_output c"
  "tc_wire (start_tls_handshake c) = tc_wire c" "tc_output (start_tls_handshake c) = tc_output c"
  "tc_wire (shutdown_in_loop c) = tc_wire c" "tc_output (shutdown_in_loop c) = tc_output c"
  "tc_wire (start_read_in_loop c) = tc_wire c" "tc_output (start_read_in_loop c) = tc_output c"
  "tc_wire (stop_read_in_loop c) = tc_wire c" "tc_output (stop_read_in_loop c) = tc_output c"
  by (simp_all add: handle_close_def force_close_in_loop_def fail_tls_def start_tls_handshake_def emit_event_def
      shutdown_in_loop_def start_read_in_loop_def stop_read_in_loop_def dispatch_pending_read_in_loop_def Let_def
      split: option.split)

lemma handle_write_stream: "tc_wire (handle_write r c) @ tc_output (handle_write r c) = tc_wire c @ tc_output c"
  by (simp add: handle_write_def shutdown_in_loop_def queue_in_loop_def Let_def)

lemma send_raw_appends:
  assumes "wired c" and "\<not> resets r"
  shows "tc_wire (send_raw_in_loop r data c) @ tc_output (send_raw_in_loop r data c) =
    tc_wire c @ tc_output c @ (if tc_state c = Disconnected then [] else data)"
proof (cases "tc_state c = Disconnected")
  case True
  then show ?thesis by (simp add: send_raw_in_loop_def)
next
  case False
  have "tc_output c \<noteq> [] \<longrightarrow> ch_writing (tc_channel c)"
    using assms(1) False by (cases "tc_state c") (auto simp: wired_def)
  with False assms(2) send_raw_stream show ?thesis by simp
qed

lemma send_appends:
  "wired c \<Longrightarrow> \<not> resets r \<Longrightarrow>
   tc_wire (send_in_loop r message c) @ tc_output (send_in_loop r message c) = tc_wire c @ tc_output c @ plain_bytes c message"
  using send_raw_appends [of c r "filtered c message"]
  by (auto simp: send_in_loop_def plain_bytes_def filtered_def Let_def)

lemma run_next_appends:
  assumes "wired c" and "\<not> resets r"
  shows "tc_wire (run_next_task r c) @ tc_output (run_next_task r c) = tc_wire c @ tc_output c @ handed (Run_next r) c"
proof (cases "tc_tasks c")
  case (Cons t ts)
  let ?c = "c\<lparr>tc_tasks := ts\<rparr>"
  have w: "wired ?c" using wired_tasks [OF assms(1) Cons] by simp
  have same: "plain_bytes ?c m = plain_bytes c m" for m by (simp add: plain_bytes_def filtered_def)
  show ?thesis
    using send_appends [OF w assms(2)] send_raw_appends [OF w assms(2)]
    by (cases t) (simp_all add: run_next_task_def run_task_def Cons emit_event_def same)
qed (simp add: run_next_task_def)

lemma step_appends:
  assumes "wired c" and "\<not> peer_gone op"
  shows "tc_wire (tcp_step op c) @ tc_output (tcp_step op c) = tc_wire c @ tc_output c @ handed op c"
proof (cases op)
  case (Run_next r)
  with assms run_next_appends show ?thesis by simp
next
  case (Send b r m)
  with assms send_appends [of c r m] show ?thesis by (cases b) (simp_all add: tcp_send_def queue_in_loop_def)
next
  case (Send_raw b r m)
  with assms send_raw_appends [of c r m] show ?thesis by (cases b) (simp_all add: tcp_send_raw_def queue_in_loop_def)
next
  case (Writable r)
  then show ?thesis using handle_write_stream by simp
qed (simp_all add: connect_established_def connect_destroyed_def handle_read_def tcp_shutdown_def force_close_def
    start_read_def stop_read_def consume_input_def emit_event_def queue_in_loop_def Let_def split: read_result.split)

definition history_inv :: "tcp_op list \<Rightarrow> tcp_history \<Rightarrow> bool" where
  "history_inv ops h = (case h of (c, sent, intact) \<Rightarrow> wired c \<and> (intact \<longrightarrow> tc_wire c @ tc_output c = sent))"

lemma stream_history:
  assumes "prepared c"
  shows "op_history history_step (c, [], True) history_inv"
proof
  show "history_inv [] (c, [], True)"
    using prepared_wired [OF assms] assms by (simp add: history_inv_def prepared_def)
next
  fix ops h op
  assume inv: "history_inv ops h"
  obtain c1 sent intact where h: "h = (c1, sent, intact)" by (cases h)
  from inv wired_step [of c1 op] step_appends [of c1 op] show "history_inv (ops @ [op]) (history_step op h)"
    by (auto simp: h history_inv_def history_step_def)
qed


subsection \<open>FIN\<close>

text \<open>Calls made by the loop's own thread.\<close>

fun loop_thread :: "tcp_op \<Rightarrow> bool" where
  "loop_thread (Send in_loop r message) = in_loop"
| "loop_thread (Send_raw in_loop r message) = in_loop"
| "loop_thread (Shutdown in_loop) = in_loop"
| "loop_thread _ = True"

fun quiet_task :: "tcp_task \<Rightarrow> bool" where
  "quiet_task (Send_task m) = False"
| "quiet_task (Send_raw_task m) = False"
| "quiet_task Shutdown_task = False"
| "quiet_task _ = True"

definition fin_inv :: "tcp_connection \<Rightarrow> bool" where
  "fin_inv c \<longleftrightarrow> wired c \<and> list_all quiet_task (tc_tasks c) \<and>
     (tc_fin c \<longrightarrow> tc_output c = [] \<and> (tc_state c = Disconnecting \<or> tc_state c = Disconnected))"

lemma send_raw_quiet: "list_all quiet_task (tc_tasks c) \<Longrightarrow> list_all quiet_task (tc_tasks (send_raw_in_loop r data c))"
proof -
  obtain more where more: "tc_tasks (send_raw_in_loop r data c) = tc_tasks c @ more"
      "set more \<subseteq> insert Write_complete_task (range High_water_task)"
    using send_raw_tasks by blast
  moreover have "list_all quiet_task more" using more(2) by (induction more) auto
  moreover assume "list_all quiet_task (tc_tasks c)"
  ultimately show ?thesis by simp
qed

lemma close_tasks [simp]:
  "tc_tasks (handle_close c) = tc_tasks c" "tc_tasks (force_close_in_loop c) = tc_tasks c"
  "tc_tasks (fail_tls c) = tc_tasks c" "tc_tasks (start_tls_handshake c) = tc_tasks c"
  "tc_tasks (shutdown_in_loop c) = tc_tasks c" "tc_tasks (start_read_in_loop c) = tc_tasks c"
  "tc_tasks (stop_read_in_loop c) = tc_tasks c"
  by (simp_all add: handle_close_def force_close_in_loop_def fail_tls_def start_tls_handshake_def emit_event_def
      shutdown_in_loop_def start_read_in_loop_def stop_read_in_loop_def dispatch_pending_read_in_loop_def Let_def
      split: option.split)

lemma close_fin [simp]:
  "tc_fin (handle_close c) = tc_fin c" "tc_fin (force_close_in_loop c) = tc_fin c"
  "tc_fin (fail_tls c) = tc_fin c" "tc_fin (start_tls_handshake c) = tc_fin c"
  "tc_fin (start_read_in_loop c) = tc_fin c" "tc_fin (stop_read_in_loop c) = tc_fin c"
  by (simp_all add: handle_close_def force_close_in_loop_def fail_tls_def start_tls_handshake_def emit_event_def
      start_read_in_loop_def stop_read_in_loop_def dispatch_pending_read_in_loop_def Let_def split: option.split)

text \<open>Closing only ever leads to \<open>Disconnected\<close>; reading leaves the state alone.\<close>

lemma close_state:
  "tc_state (handle_close c) = Disconnected"
  "tc_state (force_close_in_loop c) = (if live c then Disconnected else tc_state c)"
  "tc_state (fail_tls c) = (if live c then Disconnected else tc_state c)"
  "tc_state (start_tls_handshake c) = (if tc_tls_error c \<noteq> None \<and> live c then Disconnected else tc_state c)"
  by (auto simp: handle_close_def force_close_in_loop_def fail_tls_def start_tls_handshake_def emit_event_def
      live_def Let_def split: option.split)

lemma read_state [simp]:
  "tc_state (start_read_in_loop c) = tc_state c" "tc_state (stop_read_in_loop c) = tc_state c"
  "tc_state (shutdown_in_loop c) = tc_state c" "tc_state (handle_write r c) = tc_state c"
  by (simp_all add: start_read_in_loop_def stop_read_in_loop_def dispatch_pending_read_in_loop_def emit_event_def
      shutdown_in_loop_def handle_write_def queue_in_loop_def Let_def)

lemma handle_write_tasks: "list_all quiet_task (tc_tasks c) \<Longrightarrow> list_all quiet_task (tc_tasks (handle_write r c))"
  by (simp add: handle_write_def shutdown_in_loop_def queue_in_loop_def Let_def)

lemma handle_write_fin:
  "wired c \<Longrightarrow> tc_fin (handle_write r c) \<Longrightarrow> tc_fin c \<or> tc_output (handle_write r c) = [] \<and> tc_state c = Disconnecting"
  by (auto simp: handle_write_def shutdown_in_loop_def queue_in_loop_def Let_def split: if_splits)

lemma handle_write_empty: "tc_output c = [] \<Longrightarrow> handle_write r c = c"
  by (simp add: handle_write_def Let_def split: write_result.split)

lemma send_quiet:
  "list_all quiet_task (tc_tasks c) \<Longrightarrow> list_all quiet_task (tc_tasks (send_in_loop r m c))"
  "tc_fin (send_in_loop r m c) = tc_fin c"
  by (simp_all add: send_in_loop_def send_raw_quiet Let_def)

lemma handle_read_keeps [simp]:
  "tc_fin (handle_read r c) = tc_fin c" "tc_output (handle_read r c) = tc_output c"
  "tc_wire (handle_read r c) = tc_wire c" "tc_tasks (handle_read r c) = tc_tasks c"
  by (simp_all add: handle_read_def emit_event_def Let_def split: read_result.split)

lemma handle_read_state: "tc_state (handle_read r c) = tc_state c \<or> tc_state (handle_read r c) = Disconnected"
  by (auto simp: handle_read_def emit_event_def close_state Let_def split: read_result.split)

lemma fin_inv_step:
  assumes "fin_inv c" and "loop_thread op"
  shows "fin_inv (tcp_step op c)"
proof -
  have "wired (tcp_step op c)" using assms(1) wired_step by (simp add: fin_inv_def)
  moreover have "list_all quiet_task (tc_tasks (tcp_step op c))"
  proof (cases op)
    case (Run_next r)
    show ?thesis
    proof (cases "tc_tasks c")
      case (Cons t ts)
      with assms(1) Run_next show ?thesis
        by (cases t) (simp_all add: fin_inv_def run_next_task_def run_task_def emit_event_def)
    qed (use Run_next assms(1) in \<open>simp add: fin_inv_def run_next_task_def\<close>)
  qed (use assms in \<open>simp_all add: fin_inv_def handle_write_tasks tcp_send_def tcp_send_raw_def tcp_shutdown_def send_quiet
      send_raw_quiet connect_established_def connect_destroyed_def handle_read_def force_close_def start_read_def
      stop_read_def consume_input_def emit_event_def queue_in_loop_def Let_def split: read_result.split\<close>)
  moreover have "tc_fin (tcp_step op c) \<Longrightarrow> tc_output (tcp_step op c) = [] \<and>
      (tc_state (tcp_step op c) = Disconnecting \<or> tc_state (tcp_step op c) = Disconnected)"
  proof (cases op)
    case (Run_next r)
    assume fin: "tc_fin (tcp_step op c)"
    show ?thesis
    proof (cases "tc_tasks c")
      case (Cons t ts)
      with assms(1) Run_next fin show ?thesis
        by (cases t) (auto simp: fin_inv_def run_next_task_def run_task_def emit_event_def close_state live_def)
    qed (use Run_next assms(1) fin in \<open>simp add: fin_inv_def run_next_task_def\<close>)
  next
    case (Writable r)
    assume "tc_fin (tcp_step op c)"
    with Writable assms(1) handle_write_fin [of c r] handle_write_empty [of c r] show ?thesis
      by (auto simp: fin_inv_def)
  next
    case (Shutdown b)
    assume "tc_fin (tcp_step op c)"
    with Shutdown assms(1,2) show ?thesis
      by (auto simp: fin_inv_def tcp_shutdown_def shutdown_in_loop_def wired_def Let_def split: if_splits)
  next
    case (Readable r)
    assume "tc_fin (tcp_step op c)"
    with Readable assms(1) handle_read_state [of r c] show ?thesis
      by (auto simp: fin_inv_def split: if_splits)
  qed (use assms in \<open>auto simp: fin_inv_def tcp_send_def tcp_send_raw_def send_quiet
      connect_established_def connect_destroyed_def force_close_def start_read_def
      stop_read_def consume_input_def emit_event_def queue_in_loop_def close_state Let_def split: if_splits\<close>)
  ultimately show ?thesis by (simp add: fin_inv_def)
qed

lemma send_after_fin:
  assumes "fin_inv c" and "tc_fin c" and "loop_thread op"
  shows "tc_wire (tcp_step op c) = tc_wire c \<and> handed op c = [] \<and> tc_fin (tcp_step op c)"
proof (cases op)
  case (Run_next r)
  show ?thesis
  proof (cases "tc_tasks c")
    case (Cons t ts)
    with assms Run_next show ?thesis
      by (cases t) (simp_all add: fin_inv_def run_next_task_def run_task_def emit_event_def)
  qed (use Run_next assms in \<open>simp add: run_next_task_def\<close>)
next
  case (Writable r)
  with assms handle_write_empty show ?thesis by (simp add: fin_inv_def)
qed (use assms in \<open>auto simp: fin_inv_def tcp_send_def tcp_send_raw_def tcp_shutdown_def connect_established_def
    connect_destroyed_def handle_read_def force_close_def start_read_def stop_read_def consume_input_def
    emit_event_def queue_in_loop_def Let_def split: read_result.splits\<close>)

definition fin_history :: "tcp_op list \<Rightarrow> tcp_history \<Rightarrow> bool" where
  "fin_history ops h \<longleftrightarrow> (list_all loop_thread ops \<longrightarrow> fin_inv (fst h))"

lemma fin_op_history:
  assumes "prepared c"
  shows "op_history history_step (c, [], True) fin_history"
proof
  show "fin_history [] (c, [], True)"
    using prepared_wired [OF assms] assms by (simp add: fin_history_def fin_inv_def prepared_def)
next
  fix ops h op
  assume inv: "fin_history ops h"
  obtain c1 sent intact where h: "h = (c1, sent, intact)" by (cases h)
  from inv fin_inv_step [of c1 op] show "fin_history (ops @ [op]) (history_step op h)"
    by (simp add: h fin_history_def history_step_def)
qed

lemma after_fin:
  "fin_inv c \<Longrightarrow> tc_fin c \<Longrightarrow> list_all loop_thread ops \<Longrightarrow> fold history_step ops (c, sent, intact) = (c', sent', intact') \<Longrightarrow>
   tc_wire c' = tc_wire c \<and> sent' = sent"
proof (induction ops arbitrary: c sent intact)
  case (Cons op ops)
  have op: "loop_thread op" "list_all loop_thread ops" using Cons.prems(3) by auto
  note one = send_after_fin [OF Cons.prems(1,2) op(1)]
  have "fold history_step ops (tcp_step op c, sent, intact \<and> \<not> peer_gone op) = (c', sent', intact')"
    using Cons.prems(4) one by simp
  from Cons.IH [OF fin_inv_step [OF Cons.prems(1) op(1)] _ op(2) this] one show ?case by simp
qed simp

text \<open>
  C32: When every call comes from the loop's thread, FIN is sent only after every byte handed to the
  connection is on the wire, and whatever is called afterwards nothing follows it: the peer reads the
  whole stream and then its end.\<close>

theorem fin_ends_the_stream:
  assumes "prepared c" and "list_all loop_thread (ops @ later)"
    and "fold history_step ops (c, [], True) = (c1, sent1, True)" and "tc_fin c1"
    and "fold history_step later (c1, sent1, True) = (c2, sent2, intact)"
  shows "tc_wire c1 = sent1 \<and> tc_wire c2 = sent1 \<and> sent2 = sent1"
proof -
  have stream: "tc_wire c1 @ tc_output c1 = sent1"
    using op_history.run [OF stream_history [OF assms(1)], of ops] assms(3) by (simp add: history_inv_def)
  have inv: "fin_inv c1"
    using op_history.run [OF fin_op_history [OF assms(1)], of ops] assms(2,3) by (simp add: fin_history_def)
  then have "tc_output c1 = []" using assms(4) by (simp add: fin_inv_def)
  moreover have "list_all loop_thread later" using assms(2) by simp
  ultimately show ?thesis using stream after_fin [OF inv assms(4) _ assms(5)] by simp
qed

text \<open>
  With calls from another thread it does not hold: \<open>shutdown\<close> changes the state at once, so the loop,
  draining older output, sends FIN before it reaches the queued message, which then meets a closed
  connection.\<close>

lemma shutdown_overtakes_queued_send:
  "let c = fold tcp_step [Established, Send True (Write_again) ''a'', Send False Write_again ''b'', Shutdown False,
      Writable (Wrote 1), Run_next Write_reset] tcp_new
   in tc_fin c \<and> tc_wire c = ''a'' \<and> tc_output c = []"
  by code_simp

text \<open>Reading resumed after the close: the descriptor is back in the poller.\<close>

lemma resume_after_close_polls_again:
  "let c = fold tcp_step [Established, Stop_read True, Hangup, Destroyed, Start_read True] tcp_new
   in tc_state c = Disconnected \<and> ch_polled (tc_channel c)"
  by code_simp

subsection \<open>Life cycle\<close>

fun is_life :: "tcp_event \<Rightarrow> bool" where
  "is_life (Ev_connection b) = True"
| "is_life Ev_close = True"
| "is_life _ = False"

definition life :: "tcp_connection \<Rightarrow> tcp_event list" where
  "life c = filter is_life (tc_events c)"

text \<open>The states in the order a connection goes through them.\<close>

fun rank :: "tcp_state \<Rightarrow> nat" where
  "rank Connecting = 0"
| "rank Connected = 1"
| "rank Disconnecting = 2"
| "rank Disconnected = 3"

text \<open>The callbacks a connection in this state has made.\<close>

definition expected_life :: "tcp_connection \<Rightarrow> bool" where
  "expected_life c \<longleftrightarrow>
     life c = (if tc_state c = Connecting then []
       else if live c then [Ev_connection True]
       else if Ev_close \<in> set (tc_events c) then [Ev_connection True, Ev_connection False, Ev_close]
       else [Ev_connection True, Ev_connection False])"

definition life_inv :: "tcp_connection \<Rightarrow> bool" where
  "life_inv c \<longleftrightarrow> wired c \<and> tc_tls_error c = None \<and> expected_life c"

lemma expected_life_same:
  "life c = life d \<Longrightarrow> tc_state c = tc_state d \<Longrightarrow> (Ev_close \<in> set (tc_events c)) = (Ev_close \<in> set (tc_events d)) \<Longrightarrow>
   expected_life c = expected_life d"
  by (simp add: expected_life_def live_def)

lemma expected_life_keeps [simp]:
  "expected_life (c\<lparr>tc_tasks := ts\<rparr>) = expected_life c" "expected_life (c\<lparr>tc_input := i\<rparr>) = expected_life c"
  "expected_life (send_raw_in_loop r data c) = expected_life c" "expected_life (queue_in_loop t c) = expected_life c"
  "expected_life (shutdown_in_loop c) = expected_life c" "expected_life (handle_write r c) = expected_life c"
  "expected_life (start_read_in_loop c) = expected_life c" "expected_life (stop_read_in_loop c) = expected_life c"
  "\<not> is_life e \<Longrightarrow> expected_life (emit_event e c) = expected_life c"
  by (rule expected_life_same; auto simp: life_def queue_in_loop_def shutdown_in_loop_def handle_write_def
      start_read_in_loop_def stop_read_in_loop_def dispatch_pending_read_in_loop_def emit_event_def Let_def)+

lemma live_unclosed: "expected_life c \<Longrightarrow> live c \<Longrightarrow> Ev_close \<notin> set (tc_events c)"
proof -
  assume "expected_life c" "live c"
  then have "life c = [Ev_connection True]" by (auto simp: expected_life_def live_def)
  then have "Ev_close \<notin> set (life c)" by simp
  then show ?thesis by (simp add: life_def)
qed

lemma expected_life_close: "expected_life c \<Longrightarrow> live c \<Longrightarrow> expected_life (handle_close c)"
  using live_unclosed [of c]
  by (auto simp: expected_life_def life_def handle_close_def emit_event_def live_def Let_def)

lemma no_tls_life:
  "tc_tls_error c = None \<Longrightarrow> expected_life c \<Longrightarrow> expected_life (send_in_loop r data c)"
  "tc_tls_error c = None \<Longrightarrow> expected_life c \<Longrightarrow> expected_life (force_close_in_loop c)"
  using expected_life_close by (auto simp: send_in_loop_def force_close_in_loop_def live_def Let_def)

lemma tls_keeps [simp]:
  "tc_tls_error (handle_close c) = tc_tls_error c" "tc_tls_error (force_close_in_loop c) = tc_tls_error c"
  "tc_tls_error (fail_tls c) = tc_tls_error c" "tc_tls_error (start_tls_handshake c) = tc_tls_error c"
  "tc_tls_error (start_read_in_loop c) = tc_tls_error c" "tc_tls_error (stop_read_in_loop c) = tc_tls_error c"
  "tc_tls_error (shutdown_in_loop c) = tc_tls_error c" "tc_tls_error (handle_write r c) = tc_tls_error c"
  "tc_tls_error (handle_read q c) = tc_tls_error c" "tc_tls_error (emit_event e c) = tc_tls_error c"
  "tc_tls_error (queue_in_loop t c) = tc_tls_error c" "tc_tls_error (send_in_loop r data c) = tc_tls_error c"
  by (simp_all add: handle_close_def force_close_in_loop_def fail_tls_def start_tls_handshake_def emit_event_def
      start_read_in_loop_def stop_read_in_loop_def dispatch_pending_read_in_loop_def shutdown_in_loop_def
      handle_write_def queue_in_loop_def handle_read_def send_in_loop_def Let_def split: option.split read_result.split)

lemma life_run_next:
  assumes "expected_life c" and "tc_tls_error c = None"
  shows "expected_life (run_next_task r c) \<and> tc_tls_error (run_next_task r c) = None"
proof (cases "tc_tasks c")
  case (Cons t ts)
  with assms no_tls_life [of "c\<lparr>tc_tasks := ts\<rparr>"] show ?thesis
    by (cases t) (simp_all add: run_next_task_def run_task_def)
qed (use assms in \<open>simp add: run_next_task_def\<close>)

lemma life_inv_step:
  assumes "life_inv c"
  shows "life_inv (tcp_step op c)"
proof -
  have c: "expected_life c" "tc_tls_error c = None" and "wired (tcp_step op c)"
    using assms wired_step by (auto simp: life_inv_def)
  moreover have "expected_life (tcp_step op c) \<and> tc_tls_error (tcp_step op c) = None"
  proof (cases op)
    case Established
    then show ?thesis using c
      by (simp add: connect_established_def start_tls_handshake_def expected_life_def life_def live_def emit_event_def Let_def)
  next
    case Destroyed
    then show ?thesis using c live_unclosed [OF c(1)]
      by (simp add: connect_destroyed_def expected_life_def life_def live_def emit_event_def Let_def)
  next
    case (Shutdown b)
    moreover have "tc_state c = Connected \<Longrightarrow> expected_life (c\<lparr>tc_state := Disconnecting\<rparr>)"
      using c by (auto simp: expected_life_def life_def live_def)
    ultimately show ?thesis using c by (auto simp: tcp_shutdown_def Let_def)
  next
    case Force_close
    moreover have "live c \<Longrightarrow> expected_life (c\<lparr>tc_state := Disconnecting\<rparr>)"
      using c by (auto simp: expected_life_def life_def live_def)
    ultimately show ?thesis using c by (auto simp: force_close_def live_def)
  next
    case (Readable q)
    then show ?thesis using c expected_life_close
      by (auto simp: handle_read_def Let_def split: read_result.split)
  next
    case (Run_next r)
    then show ?thesis using c life_run_next by simp
  qed (use c in \<open>simp_all add: expected_life_close no_tls_life tcp_send_def tcp_send_raw_def start_read_def stop_read_def consume_input_def\<close>)
  ultimately show ?thesis by (simp add: life_inv_def)
qed

lemma life_history:
  assumes "prepared c" and "tc_tls_error c = None"
  shows "op_history tcp_step c (\<lambda>ops d. life_inv d)"
proof
  show "life_inv c" using prepared_wired [OF assms(1)] assms
    by (simp add: life_inv_def expected_life_def life_def prepared_def)
qed (rule life_inv_step)


text \<open>
  A connection whose TLS setup failed is closed while it is being established: its owner sees a closing
  callback for a connection that was never announced.\<close>

lemma failed_tls_closes_unannounced:
  "life (tcp_step Established (enable_tls True tcp_new)) = [Ev_connection False]"
  by code_simp

subsection \<open>Examples\<close>

lemma tcp_new_prepared: "prepared tcp_new" "tc_tls_error tcp_new = None"
  by (simp_all add: prepared_def tcp_new_def)

definition sample_ops :: "tcp_op list" where
  "sample_ops = [Established, Send True (Wrote 2) ''hello'', Send True Write_again '' you'', Stop_read True,
     Writable (Wrote 3), Shutdown True, Writable (Wrote 9)]"

lemma channel_interest_exact_witness:
  "ch_writing (tc_channel (fold tcp_step (take 4 sample_ops) tcp_new)) \<and>
   \<not> ch_reading (tc_channel (fold tcp_step (take 4 sample_ops) tcp_new))"
proof -
  have "live (fold tcp_step (take 4 sample_ops) tcp_new)" by code_simp
  note exact = channel_interest_exact [OF tcp_new_prepared(1) this]
  have "tc_output (fold tcp_step (take 4 sample_ops) tcp_new) \<noteq> []" by code_simp
  moreover have "\<not> tc_reading (fold tcp_step (take 4 sample_ops) tcp_new)" by code_simp
  ultimately show ?thesis using exact by simp
qed


lemma fin_ends_the_stream_witness:
  "\<exists>c1 c2 intact. fold history_step sample_ops (tcp_new, [], True) = (c1, ''hello you'', True) \<and>
     fold history_step [Send True (Wrote 1) ''x'', Hangup] (c1, ''hello you'', True) = (c2, ''hello you'', intact) \<and>
     tc_wire c2 = ''hello you''"
proof -
  let ?h = "fold history_step sample_ops (tcp_new, [], True)"
  obtain c1 where h: "?h = (c1, ''hello you'', True)"
  proof -
    have "snd ?h = (''hello you'', True)" by code_simp
    then show thesis using that by (cases ?h) auto
  qed
  have "tc_fin (fst ?h)" by code_simp
  then have fin: "tc_fin c1" using h by simp
  obtain c2 sent2 intact where later: "fold history_step [Send True (Wrote 1) ''x'', Hangup] (c1, ''hello you'', True) = (c2, sent2, intact)"
    by (cases "fold history_step [Send True (Wrote 1) ''x'', Hangup] (c1, ''hello you'', True)") auto
  have "list_all loop_thread (sample_ops @ [Send True (Wrote 1) ''x'', Hangup])" by code_simp
  from fin_ends_the_stream [OF tcp_new_prepared(1) this h fin later] h later show ?thesis by auto
qed


end
