(* ===== verification/Ws_Server.thy ===== *)
theory Ws_Server
  imports Http_Server Ws_Handshake Ws_Frame
begin

text \<open>
  \<open>WebSocketChannel\<close> and \<open>WebSocketServer\<close> (src/src/websocket/websocket_channel.cpp,
  src/src/websocket/websocket_server.cpp): the upgrade of an HTTP connection, the frames received on
  it and what the service answers. The connection is the HTTP server's session; deflate and inflate
  (zlib) are functions of the model, and a service callback is the list of channel calls it makes.
\<close>

subsection \<open>The channel\<close>

record zlib =
  zl_available :: bool
  zl_deflate :: "string \<Rightarrow> string option"
  zl_inflate :: "string \<Rightarrow> string option"

record ws_channel =
  wc_role :: ws_role
  wc_compression_enabled :: bool
  wc_close_sent :: bool
  wc_close_received :: bool

definition ws_channel_new :: "ws_role \<Rightarrow> bool \<Rightarrow> ws_channel" where
  "ws_channel_new role compression =
     \<lparr>wc_role = role, wc_compression_enabled = compression, wc_close_sent = False, wc_close_received = False\<rparr>"

definition ws_frame_new :: "ws_opcode \<Rightarrow> string \<Rightarrow> ws_frame" where
  "ws_frame_new op payload =
     \<lparr>f_fin = True, f_rsv1 = False, f_rsv2 = False, f_rsv3 = False, f_opcode = op, f_payload = payload\<rparr>"

definition send_frame :: "zlib \<Rightarrow> mask_key \<Rightarrow> ws_frame \<Rightarrow> ws_channel \<Rightarrow> server_session \<Rightarrow> bool \<times> server_session" where
  "send_frame z rnd frame0 ch s =
     (if \<not> ss_connected s then (False, s)
      else
        let masking = (if wc_role ch = Role_client then Masked else Unmasked);
            frame = (if wc_compression_enabled ch \<and> is_data_opcode (f_opcode frame0) \<and> f_payload frame0 \<noteq> []
                     then (case zl_deflate z (f_payload frame0) of
                             None \<Rightarrow> frame0
                           | Some compressed \<Rightarrow> frame0\<lparr>f_payload := compressed, f_rsv1 := True\<rparr>)
                     else frame0)
        in (True, conn_send (encode_websocket_frame rnd frame masking None) s))"

definition send_text :: "zlib \<Rightarrow> mask_key \<Rightarrow> string \<Rightarrow> ws_channel \<Rightarrow> server_session \<Rightarrow> bool \<times> server_session" where
  "send_text z rnd message = send_frame z rnd (ws_frame_new Op_text message)"

definition send_binary :: "zlib \<Rightarrow> mask_key \<Rightarrow> string \<Rightarrow> ws_channel \<Rightarrow> server_session \<Rightarrow> bool \<times> server_session" where
  "send_binary z rnd message = send_frame z rnd (ws_frame_new Op_binary message)"

definition send_ping :: "zlib \<Rightarrow> mask_key \<Rightarrow> string \<Rightarrow> ws_channel \<Rightarrow> server_session \<Rightarrow> bool \<times> server_session" where
  "send_ping z rnd payload ch s =
     (if 125 < length payload then (False, s) else send_frame z rnd (ws_frame_new Op_ping payload) ch s)"

definition send_pong :: "zlib \<Rightarrow> mask_key \<Rightarrow> string \<Rightarrow> ws_channel \<Rightarrow> server_session \<Rightarrow> bool \<times> server_session" where
  "send_pong z rnd payload ch s =
     (if 125 < length payload then (False, s) else send_frame z rnd (ws_frame_new Op_pong payload) ch s)"

definition close_payload :: "u16 \<Rightarrow> string \<Rightarrow> string" where
  "close_payload code reason =
     char_of_u8 (ucast (drop_bit 8 code AND 0xFF)) # char_of_u8 (ucast (code AND 0xFF)) # reason"

definition channel_close :: "zlib \<Rightarrow> mask_key \<Rightarrow> u16 \<Rightarrow> string \<Rightarrow> ws_channel \<Rightarrow> server_session \<Rightarrow>
    bool \<times> ws_channel \<times> server_session" where
  "channel_close z rnd code reason ch s =
     (if \<not> valid_close_code code \<or> 123 < length reason then (False, ch, s)
      else if wc_close_sent ch then (True, ch, s)
      else
        let ch1 = ch\<lparr>wc_close_sent := True\<rparr>;
            (ok, s1) = send_frame z rnd (ws_frame_new Op_close (close_payload code reason)) ch1 s
        in (ok, ch1, conn_shutdown s1))"

subsection \<open>Requests\<close>

definition looks_like_websocket_upgrade :: "http_request \<Rightarrow> bool" where
  "looks_like_websocket_upgrade request \<longleftrightarrow>
     equals_ignore_case (request_header ''Upgrade'' request) ''websocket'' \<or>
     request_header ''Sec-WebSocket-Key'' request \<noteq> [] \<or> request_header ''Sec-WebSocket-Version'' request \<noteq> []"

definition request_offers_permessage_deflate :: "http_request \<Rightarrow> bool" where
  "request_offers_permessage_deflate request \<longleftrightarrow>
     list_ex (\<lambda>v. find_str ''permessage-deflate'' (lowercase v) \<noteq> None)
       (hdr_values ''Sec-WebSocket-Extensions'' (r_headers request))"

definition encode_switching_protocols :: "string \<Rightarrow> string \<Rightarrow> bool \<Rightarrow> string" where
  "encode_switching_protocols accept_key selected_subprotocol compression_enabled =
     ''HTTP/1.1 101 Switching Protocols'' @ crlf @ ''Upgrade: websocket'' @ crlf @ ''Connection: Upgrade'' @ crlf @
     ''Sec-WebSocket-Accept: '' @ accept_key @ crlf @
     (if selected_subprotocol \<noteq> [] then ''Sec-WebSocket-Protocol: '' @ selected_subprotocol @ crlf else []) @
     (if compression_enabled
      then ''Sec-WebSocket-Extensions: permessage-deflate; server_no_context_takeover; client_no_context_takeover'' @ crlf
      else []) @
     crlf"

definition send_http_error :: "int \<Rightarrow> string \<Rightarrow> string \<Rightarrow> server_session \<Rightarrow> server_session" where
  "send_http_error status reason extra_headers s =
     conn_shutdown (conn_send
       (''HTTP/1.1 '' @ string_of_int status @ '' '' @ reason @ crlf @ ''Connection: close'' @ crlf @
        extra_headers @ ''Content-Length: 0'' @ crlf @ crlf) s)"

record ws_close_info =
  ci_code :: u16
  ci_reason :: string

definition close_info_new :: ws_close_info where
  "close_info_new = \<lparr>ci_code = 1005, ci_reason = []\<rparr>"

definition close_info_from_payload :: "string \<Rightarrow> bool \<times> ws_close_info" where
  "close_info_from_payload payload =
     (if payload = [] then (True, close_info_new)
      else if length payload = 1 then (False, close_info_new)
      else
        let info = close_info_new\<lparr>ci_code := read_u16 payload\<rparr>
        in if \<not> valid_close_code (ci_code info) then (False, info)
           else let info1 = info\<lparr>ci_reason := drop 2 payload\<rparr>
                in (ci_reason info1 = [] \<or> valid_utf8 (ci_reason info1), info1))"

definition close_code_for_error :: "ws_error \<Rightarrow> u16" where
  "close_code_for_error e =
     (case e of We_message_too_big \<Rightarrow> 1009 | We_invalid_utf8 \<Rightarrow> 1007 | _ \<Rightarrow> 1002)"

subsection \<open>The service and the connection\<close>

datatype ws_command = Send_text string | Send_binary string | Send_ping string | Send_pong string
  | Close_channel u16 string

record ws_service =
  sw_on_open :: "http_request \<Rightarrow> ws_command list"
  sw_on_message :: "string \<Rightarrow> ws_opcode \<Rightarrow> ws_command list"
  sw_on_close :: "ws_close_info \<Rightarrow> ws_command list"
  sw_on_error :: "ws_error \<Rightarrow> ws_command list"
  sw_select_subprotocol :: "(http_request \<Rightarrow> string list \<Rightarrow> string option) option"
  sw_options :: ws_options
  sw_ping_interval :: nat

record ws_config =
  wg_http :: server_config
  wg_service :: ws_service
  wg_zlib :: zlib

datatype ws_event = We_open | We_message string ws_opcode | We_closed ws_close_info | We_failed ws_error

record ws_session =
  wx_base :: server_session
  wx_websocket :: bool
  wx_frame_parser :: ws_frame_parser
  wx_assembler :: ws_assembler
  wx_channel :: "ws_channel option"
  wx_ping_timer :: bool
  wx_compression_enabled :: bool
  wx_close_notified :: bool
  wx_events :: "ws_event list"

definition ws_session_new :: "string \<Rightarrow> u16 \<Rightarrow> ws_session" where
  "ws_session_new ip port =
     \<lparr>wx_base = session_new ip port, wx_websocket = False,
      wx_frame_parser = frame_parser_new Role_server default_ws_options,
      wx_assembler = assembler_new default_ws_options, wx_channel = None, wx_ping_timer = False,
      wx_compression_enabled = False, wx_close_notified = False, wx_events = []\<rparr>"

definition emit_ws :: "ws_event \<Rightarrow> ws_session \<Rightarrow> ws_session" where
  "emit_ws e s = s\<lparr>wx_events := wx_events s @ [e]\<rparr>"

text \<open>A call on the channel of the connection; the server never masks, so the generator's key is immaterial.\<close>

definition channel_command :: "zlib \<Rightarrow> ws_command \<Rightarrow> ws_session \<Rightarrow> ws_session" where
  "channel_command z cmd s =
     (case wx_channel s of
        None \<Rightarrow> s
      | Some ch \<Rightarrow>
          (case cmd of
             Send_text m \<Rightarrow> s\<lparr>wx_base := snd (send_text z (0, 0, 0, 0) m ch (wx_base s))\<rparr>
           | Send_binary m \<Rightarrow> s\<lparr>wx_base := snd (send_binary z (0, 0, 0, 0) m ch (wx_base s))\<rparr>
           | Send_ping m \<Rightarrow> s\<lparr>wx_base := snd (send_ping z (0, 0, 0, 0) m ch (wx_base s))\<rparr>
           | Send_pong m \<Rightarrow> s\<lparr>wx_base := snd (send_pong z (0, 0, 0, 0) m ch (wx_base s))\<rparr>
           | Close_channel code reason \<Rightarrow>
               (case channel_close z (0, 0, 0, 0) code reason ch (wx_base s) of
                  (ok, ch1, base) \<Rightarrow> s\<lparr>wx_channel := Some ch1, wx_base := base\<rparr>)))"

definition run_commands :: "zlib \<Rightarrow> ws_command list \<Rightarrow> ws_session \<Rightarrow> ws_session" where
  "run_commands z cmds s = fold (channel_command z) cmds s"

definition notify_error :: "ws_config \<Rightarrow> ws_error \<Rightarrow> ws_session \<Rightarrow> ws_session" where
  "notify_error cfg e s = run_commands (wg_zlib cfg) (sw_on_error (wg_service cfg) e) (emit_ws (We_failed e) s)"

definition notify_close :: "ws_config \<Rightarrow> ws_close_info \<Rightarrow> ws_session \<Rightarrow> ws_session" where
  "notify_close cfg info s =
     (let s1 = s\<lparr>wx_ping_timer := False\<rparr>
      in if wx_close_notified s1 then s1
         else run_commands (wg_zlib cfg) (sw_on_close (wg_service cfg) info)
                (emit_ws (We_closed info) (s1\<lparr>wx_close_notified := True\<rparr>)))"

definition close_for_error :: "ws_config \<Rightarrow> ws_error \<Rightarrow> string \<Rightarrow> ws_session \<Rightarrow> ws_session" where
  "close_for_error cfg e reason s =
     (let code = close_code_for_error e
      in notify_close cfg \<lparr>ci_code = code, ci_reason = reason\<rparr>
           (channel_command (wg_zlib cfg) (Close_channel code reason) (notify_error cfg e s)))"

subsection \<open>Frames\<close>

text \<open>One frame of the loop of \<open>on_websocket_message\<close>: whether the loop goes on.\<close>

definition on_close_frame :: "ws_config \<Rightarrow> ws_frame \<Rightarrow> ws_session \<Rightarrow> ws_session" where
  "on_close_frame cfg frame s =
     (case close_info_from_payload (f_payload frame) of
        (False, info) \<Rightarrow> close_for_error cfg We_protocol_error ''bad close frame'' s
      | (True, info) \<Rightarrow>
          let ch = the (wx_channel s);
              s1 = s\<lparr>wx_channel := Some (ch\<lparr>wc_close_received := True\<rparr>)\<rparr>;
              s2 = (if \<not> wc_close_sent ch
                    then channel_command (wg_zlib cfg)
                           (Close_channel (if ci_code info = 1005 then 1000 else ci_code info) (ci_reason info)) s1
                    else s1)
          in notify_close cfg info s2)"

definition on_control_frame :: "ws_config \<Rightarrow> ws_frame \<Rightarrow> ws_session \<Rightarrow> bool \<times> ws_session" where
  "on_control_frame cfg frame s =
     (if f_opcode frame = Op_ping then (True, channel_command (wg_zlib cfg) (Send_pong (f_payload frame)) s)
      else if f_opcode frame = Op_pong then (True, s)
      else if f_opcode frame = Op_close then (False, on_close_frame cfg frame s)
      else (True, s))"

definition on_data_message :: "ws_config \<Rightarrow> ws_message \<Rightarrow> ws_session \<Rightarrow> bool \<times> ws_session" where
  "on_data_message cfg message s =
     (let deliver = (\<lambda>payload. (True, run_commands (wg_zlib cfg)
            (sw_on_message (wg_service cfg) payload (wm_opcode message))
            (emit_ws (We_message payload (wm_opcode message)) s)))
      in if wm_compressed message then
           (case (if wx_compression_enabled s then zl_inflate (wg_zlib cfg) (wm_payload message) else None) of
              None \<Rightarrow> (False, close_for_error cfg We_compression_error ''compression error'' s)
            | Some inflated \<Rightarrow>
                if wm_opcode message = Op_text \<and> \<not> valid_utf8 inflated
                then (False, close_for_error cfg We_invalid_utf8 ''invalid utf-8'' s)
                else deliver inflated)
         else deliver (wm_payload message))"

definition on_frame :: "ws_config \<Rightarrow> ws_frame \<Rightarrow> ws_session \<Rightarrow> bool \<times> ws_session" where
  "on_frame cfg frame s =
     (case assembler_consume frame (wx_assembler s) of
        (status, a, message) \<Rightarrow>
          let s1 = s\<lparr>wx_assembler := a\<rparr>
          in (case status of
                Msg_error \<Rightarrow> (False, close_for_error cfg (as_error a) ''protocol error'' s1)
              | Msg_control \<Rightarrow> on_control_frame cfg frame s1
              | Msg_incomplete \<Rightarrow> (True, s1)
              | Msg_complete \<Rightarrow> on_data_message cfg (the message) s1))"

fun on_frames :: "ws_config \<Rightarrow> ws_frame list \<Rightarrow> ws_session \<Rightarrow> ws_session" where
  "on_frames cfg [] s = s"
| "on_frames cfg (frame # frames) s =
     (case on_frame cfg frame s of (again, s1) \<Rightarrow> if again then on_frames cfg frames s1 else s1)"

definition with_base :: "(server_session \<Rightarrow> server_session) \<Rightarrow> ws_session \<Rightarrow> ws_session" where
  "with_base f s = s\<lparr>wx_base := f (wx_base s)\<rparr>"

text \<open>\<open>connection->force_close()\<close> where the connection has no channel: it no longer counts as connected.\<close>

definition on_websocket_message :: "ws_config \<Rightarrow> ws_session \<Rightarrow> ws_session" where
  "on_websocket_message cfg s =
     (if wx_channel s = None then with_base (\<lambda>b. b\<lparr>ss_connected := False\<rparr>) s
      else case ws_parse (wx_frame_parser s) (ss_buffer (wx_base s)) of
             (status, p, frames, left) \<Rightarrow>
               let s1 = with_base (\<lambda>b. b\<lparr>ss_buffer := left\<rparr>) (s\<lparr>wx_frame_parser := p\<rparr>)
               in if status = Ws_error then close_for_error cfg (fp_error p) ''protocol error'' s1
                  else on_frames cfg frames s1)"

subsection \<open>The upgrade\<close>

definition selected_subprotocol :: "ws_service \<Rightarrow> http_request \<Rightarrow> string option" where
  "selected_subprotocol service request =
     (let requested = websocket_requested_subprotocols request
      in case sw_select_subprotocol service of
           None \<Rightarrow> Some []
         | Some select \<Rightarrow>
             (case select request requested of
                None \<Rightarrow> Some []
              | Some selected \<Rightarrow>
                  if selected = [] then Some []
                  else if selected \<notin> set requested then None else Some selected))"

definition refuse_upgrade :: "int \<Rightarrow> string \<Rightarrow> string \<Rightarrow> ws_session \<Rightarrow> bool \<times> ws_session" where
  "refuse_upgrade status reason extra s = (False, with_base (send_http_error status reason extra) s)"

definition accept_upgrade :: "ws_config \<Rightarrow> http_request \<Rightarrow> string \<Rightarrow> string \<Rightarrow> ws_session \<Rightarrow> ws_session" where
  "accept_upgrade cfg request accept subprotocol s =
     (let compression_enabled = (enable_compression (sw_options (wg_service cfg)) \<and> zl_available (wg_zlib cfg) \<and>
            request_offers_permessage_deflate request);
          options = (sw_options (wg_service cfg))\<lparr>enable_compression := compression_enabled\<rparr>;
          s1 = with_base (conn_send (encode_switching_protocols accept subprotocol compression_enabled)) s;
          s2 = s1\<lparr>wx_websocket := True, wx_compression_enabled := compression_enabled,
                  wx_frame_parser := frame_parser_new Role_server options,
                  wx_assembler := assembler_new options,
                  wx_channel := Some (ws_channel_new Role_server compression_enabled),
                  wx_ping_timer := 0 < sw_ping_interval (wg_service cfg) \<or> wx_ping_timer s1\<rparr>
      in run_commands (wg_zlib cfg) (sw_on_open (wg_service cfg) request) (emit_ws We_open s2))"

definition try_websocket_upgrade :: "ws_config \<Rightarrow> http_request \<Rightarrow> ws_session \<Rightarrow> bool \<times> ws_session" where
  "try_websocket_upgrade cfg request s =
     (if \<not> websocket_is_upgrade_request request then
        (if request_header ''Sec-WebSocket-Version'' request \<noteq> ''13''
         then refuse_upgrade 426 ''Upgrade Required'' (''Sec-WebSocket-Version: 13'' @ crlf) s
         else refuse_upgrade 400 ''Bad Request'' [] s)
      else case websocket_validate_client_key (request_header ''Sec-WebSocket-Key'' request) of
             None \<Rightarrow> refuse_upgrade 400 ''Bad Request'' [] s
           | Some accept \<Rightarrow>
               (case selected_subprotocol (wg_service cfg) request of
                  None \<Rightarrow> refuse_upgrade 400 ''Bad Request'' [] s
                | Some subprotocol \<Rightarrow> (True, accept_upgrade cfg request accept subprotocol s)))"

subsection \<open>The message loop\<close>

text \<open>The HTTP callbacks: as in the HTTP server, but a body stream gets no pause and resume callbacks.\<close>

definition on_streaming_http_request :: "(http_request \<Rightarrow> body_stream \<Rightarrow> response_writer \<Rightarrow> response_queue \<Rightarrow>
    body_stream \<times> response_queue) \<Rightarrow> http_request \<Rightarrow> server_session \<Rightarrow> bool \<times> server_session" where
  "on_streaming_http_request handler request s =
     (let close = should_close request;
          (writer, c) = make_response_writer close (r_method request \<noteq> M_head) (ss_context s);
          (stream, q) = handler request body_stream_new writer (ss_queue s);
          c1 = (if has_transfer_encoding request then start_streaming_chunked_body stream c
                else start_streaming_body stream (content_length request) c)
      in (close, s\<lparr>ss_context := c1, ss_queue := q\<rparr>))"

definition handle_http_request :: "server_config \<Rightarrow> http_request \<Rightarrow> server_session \<Rightarrow> bool \<times> server_session" where
  "handle_http_request cfg request s =
     (case sv_streaming cfg of
        Some handler \<Rightarrow> on_streaming_http_request handler request s
      | None \<Rightarrow>
          (case sv_async cfg of
             Some handler \<Rightarrow> on_async_request handler request s
           | None \<Rightarrow> on_request cfg request s))"

definition ws_stream_body :: "server_session \<Rightarrow> server_session + server_session" where
  "ws_stream_body s =
     (case process_streaming_body (ss_context s) (ss_buffer s) of
        (status, c, buf) \<Rightarrow>
          let s1 = s\<lparr>ss_context := c, ss_buffer := buf\<rparr>
          in (case status of
                Error \<Rightarrow> Inl (send_http_error 400 ''Bad Request'' [] s1)
              | Incomplete \<Rightarrow> Inl s1
              | Complete \<Rightarrow> Inr (reset_context s1)))"

definition ws_request_step :: "ws_config \<Rightarrow> timestamp \<Rightarrow> ws_session \<Rightarrow> (bool \<times> ws_session) option" where
  "ws_request_step cfg receive_time s =
     (let base = wx_base s; http = wg_http cfg in
      case (if sv_streaming http \<noteq> None then context_parse_request_head receive_time (ss_context base) (ss_buffer base)
            else context_parse_request receive_time (ss_context base) (ss_buffer base)) of
        (None, c, buf) \<Rightarrow> None
      | (Some status, c, buf) \<Rightarrow>
          let base1 = base\<lparr>ss_context := c, ss_buffer := buf\<rparr>; s1 = s\<lparr>wx_base := base1\<rparr>
          in (case status of
                Error \<Rightarrow> Some (False, with_base (send_http_error 400 ''Bad Request'' []) s1)
              | Incomplete \<Rightarrow> Some (False, s1)
              | Complete \<Rightarrow>
                  let request = p_request (hc_parser c)
                  in if looks_like_websocket_upgrade request then
                       (case try_websocket_upgrade cfg request s1 of
                          (False, s2) \<Rightarrow> Some (False, s2)
                        | (True, s2) \<Rightarrow>
                            let s3 = with_base reset_context s2
                            in Some (False, if ss_buffer (wx_base s3) \<noteq> [] then on_websocket_message cfg s3 else s3))
                     else
                       let (close, base2) = handle_http_request http request base1
                       in if \<not> hc_active (ss_context base2) then
                            (let base3 = reset_context base2
                             in Some (\<not> (close \<or> ss_buffer base3 = []), s1\<lparr>wx_base := base3\<rparr>))
                          else (case ws_stream_body base2 of
                                  Inl base3 \<Rightarrow> Some (False, s1\<lparr>wx_base := base3\<rparr>)
                                | Inr base3 \<Rightarrow> Some (\<not> (close \<or> ss_buffer base3 = []), s1\<lparr>wx_base := base3\<rparr>))))"

definition ws_message_step :: "ws_config \<Rightarrow> timestamp \<Rightarrow> ws_session \<Rightarrow> (bool \<times> ws_session) option" where
  "ws_message_step cfg receive_time s =
     (if hc_active (ss_context (wx_base s)) then
        (case ws_stream_body (wx_base s) of
           Inl base \<Rightarrow> Some (False, s\<lparr>wx_base := base\<rparr>)
         | Inr base \<Rightarrow> Some (ss_buffer base \<noteq> [], s\<lparr>wx_base := base\<rparr>))
      else ws_request_step cfg receive_time s)"

lemma ws_stream_body_Inr:
  assumes "ws_stream_body s = Inr s1"
  shows "length (ss_buffer s1) \<le> length (ss_buffer s)" and "p_state (hc_parser (ss_context s1)) = S_start_line"
    and "\<not> hc_active (ss_context s1)"
  using assms by (auto simp: ws_stream_body_def Let_def dest: process_streaming_body_rest
      split: prod.splits parse_status.splits)

lemma handle_http_request_buffer: "ss_buffer (snd (handle_http_request cfg request s)) = ss_buffer s"
  by (auto simp: handle_http_request_def on_streaming_http_request_def on_async_request_def on_request_def
      send_response_buffer make_response_writer_def Let_def split: option.split prod.split)

lemma ws_message_step_measure:
  assumes "ws_message_step cfg t s = Some (True, s1)"
  shows "message_measure (wx_base s1) < message_measure (wx_base s)"
proof (cases "hc_active (ss_context (wx_base s))")
  case True
  then obtain base where "ws_stream_body (wx_base s) = Inr base" "s1 = s\<lparr>wx_base := base\<rparr>"
    using assms by (auto simp: ws_message_step_def split: sum.splits)
  then show ?thesis using True ws_stream_body_Inr [of "wx_base s" base] by (simp add: message_measure_def)
next
  case False
  let ?b = "wx_base s"
  have step: "ws_request_step cfg t s = Some (True, s1)" using assms False by (simp add: ws_message_step_def)
  obtain c buf where parse: "(if sv_streaming (wg_http cfg) \<noteq> None
      then context_parse_request_head t (ss_context ?b) (ss_buffer ?b)
      else context_parse_request t (ss_context ?b) (ss_buffer ?b)) = (Some Complete, c, buf)"
    using step by (auto simp: ws_request_step_def Let_def split: option.splits prod.splits parse_status.splits)
  let ?b1 = "?b\<lparr>ss_context := c, ss_buffer := buf\<rparr>"
  obtain close b2 where handle: "handle_http_request (wg_http cfg) (p_request (hc_parser c)) ?b1 = (close, b2)"
    by (cases "handle_http_request (wg_http cfg) (p_request (hc_parser c)) ?b1")
  have buf2: "ss_buffer b2 = buf"
    using handle_http_request_buffer [of "wg_http cfg" "p_request (hc_parser c)" ?b1] handle by simp
  have plain: "\<not> looks_like_websocket_upgrade (p_request (hc_parser c))"
    using step parse by (auto simp: ws_request_step_def Let_def split: bool.splits prod.splits)
  have "length (ss_buffer (wx_base s1)) \<le> length buf \<and>
      p_state (hc_parser (ss_context (wx_base s1))) = S_start_line \<and> \<not> hc_active (ss_context (wx_base s1))"
    using step parse handle buf2 plain ws_stream_body_Inr [of b2]
    by (auto simp: ws_request_step_def Let_def split: if_splits sum.splits)
  then show ?thesis using context_parse_rest [OF parse] by (auto simp: message_measure_def)
qed

function ws_http_loop :: "ws_config \<Rightarrow> timestamp \<Rightarrow> ws_session \<Rightarrow> ws_session option" where
  "ws_http_loop cfg receive_time s =
     (if \<not> ss_connected (wx_base s) then Some s
      else case ws_message_step cfg receive_time s of
             None \<Rightarrow> None
           | Some (again, s1) \<Rightarrow> if again then ws_http_loop cfg receive_time s1 else Some s1)"
  by pat_completeness auto
termination
  by (relation "measure (\<lambda>(cfg, t, s). message_measure (wx_base s))") (auto dest: ws_message_step_measure)

declare ws_http_loop.simps [simp del]

definition ws_on_plain_message :: "ws_config \<Rightarrow> timestamp \<Rightarrow> ws_session \<Rightarrow> ws_session option" where
  "ws_on_plain_message cfg receive_time s =
     (if wx_websocket s then Some (on_websocket_message cfg s) else ws_http_loop cfg receive_time s)"

definition ws_on_message :: "ws_config \<Rightarrow> timestamp \<Rightarrow> string \<Rightarrow> ws_session \<Rightarrow> ws_session option" where
  "ws_on_message cfg receive_time bytes s =
     ws_on_plain_message cfg receive_time (with_base (\<lambda>b. b\<lparr>ss_buffer := ss_buffer b @ bytes\<rparr>) s)"

text \<open>\<open>on_connection\<close> for a closed connection; the ping timer.\<close>

definition ws_on_disconnect :: "ws_config \<Rightarrow> ws_session \<Rightarrow> ws_session" where
  "ws_on_disconnect cfg s =
     (let s1 = with_base (\<lambda>b. b\<lparr>ss_connected := False\<rparr>) s
      in if wx_websocket s1 \<and> wx_channel s1 \<noteq> None then notify_close cfg close_info_new s1 else s1)"

definition ping_tick :: "ws_config \<Rightarrow> ws_session \<Rightarrow> ws_session" where
  "ping_tick cfg s =
     (if wx_ping_timer s \<and> ss_connected (wx_base s) then channel_command (wg_zlib cfg) (Send_ping []) s else s)"

end
