(* ===== verification/Ws_Server_Laws.thy ===== *)
theory Ws_Server_Laws
  imports Ws_Server Ws_Frame_Laws Ws_Messages
begin

text \<open>
  What the WebSocket server promises: the bytes behind the 101 response are whole frames with a close
  frame only at their end, the service is told of one open and one close, and the messages the peer
  sends arrive whatever the segmentation.
\<close>

subsection \<open>What a channel call changes\<close>

lemma conn_send_more [simp]:
  "ss_buffer (conn_send x b) = ss_buffer b" "ss_context (conn_send x b) = ss_context b"
  "ss_connected (conn_send x b) = ss_connected b"
  by (simp_all add: conn_send_def)

lemma conn_shutdown_more [simp]:
  "ss_buffer (conn_shutdown b) = ss_buffer b" "ss_context (conn_shutdown b) = ss_context b"
  "\<not> ss_connected (conn_shutdown b)" "ss_out (conn_shutdown b) = ss_out b"
  by (simp_all add: conn_shutdown_def)

lemma send_frame_more [simp]:
  "ss_buffer (snd (send_frame z r f ch b)) = ss_buffer b" "ss_context (snd (send_frame z r f ch b)) = ss_context b"
  "ss_connected (snd (send_frame z r f ch b)) = ss_connected b"
  by (simp_all add: send_frame_def Let_def)

lemmas channel_calls = send_text_def send_binary_def send_ping_def send_pong_def channel_close_def

lemma channel_command_more [simp]:
  "wx_events (channel_command z c s) = wx_events s" "wx_websocket (channel_command z c s) = wx_websocket s"
  "wx_frame_parser (channel_command z c s) = wx_frame_parser s"
  "wx_assembler (channel_command z c s) = wx_assembler s"
  "wx_ping_timer (channel_command z c s) = wx_ping_timer s"
  "wx_compression_enabled (channel_command z c s) = wx_compression_enabled s"
  "wx_close_notified (channel_command z c s) = wx_close_notified s"
  "ss_buffer (wx_base (channel_command z c s)) = ss_buffer (wx_base s)"
  "ss_context (wx_base (channel_command z c s)) = ss_context (wx_base s)"
  "wx_channel (channel_command z c s) = None \<longleftrightarrow> wx_channel s = None"
  by (cases c; simp add: channel_command_def channel_calls Let_def case_prod_beta' split: option.split)+

lemma run_commands_more [simp]:
  "wx_events (run_commands z cs s) = wx_events s" "wx_websocket (run_commands z cs s) = wx_websocket s"
  "wx_frame_parser (run_commands z cs s) = wx_frame_parser s"
  "wx_assembler (run_commands z cs s) = wx_assembler s"
  "wx_ping_timer (run_commands z cs s) = wx_ping_timer s"
  "wx_compression_enabled (run_commands z cs s) = wx_compression_enabled s"
  "wx_close_notified (run_commands z cs s) = wx_close_notified s"
  "ss_buffer (wx_base (run_commands z cs s)) = ss_buffer (wx_base s)"
  "ss_context (wx_base (run_commands z cs s)) = ss_context (wx_base s)"
  "wx_channel (run_commands z cs s) = None \<longleftrightarrow> wx_channel s = None"
  unfolding run_commands_def by (induction cs arbitrary: s) simp_all

lemma emit_ws_more [simp]:
  "wx_events (emit_ws e s) = wx_events s @ [e]" "wx_base (emit_ws e s) = wx_base s"
  "wx_channel (emit_ws e s) = wx_channel s" "wx_websocket (emit_ws e s) = wx_websocket s"
  "wx_frame_parser (emit_ws e s) = wx_frame_parser s" "wx_assembler (emit_ws e s) = wx_assembler s"
  "wx_compression_enabled (emit_ws e s) = wx_compression_enabled s"
  "wx_close_notified (emit_ws e s) = wx_close_notified s"
  by (simp_all add: emit_ws_def)

subsection \<open>The bytes sent\<close>

definition server_frame :: "ws_frame \<Rightarrow> string" where
  "server_frame f = encode_websocket_frame (0, 0, 0, 0) f Unmasked None"

definition frame_sendable :: "ws_frame \<Rightarrow> bool" where
  "frame_sendable f \<longleftrightarrow> f_fin f \<and> \<not> f_rsv2 f \<and> \<not> f_rsv3 f \<and> (f_rsv1 f \<longrightarrow> is_data_opcode (f_opcode f)) \<and>
     (is_control_opcode (f_opcode f) \<longrightarrow> length (f_payload f) \<le> 125) \<and> f_opcode f \<noteq> Op_continuation"

definition close_last :: "ws_frame list \<Rightarrow> bool" where
  "close_last fs \<longleftrightarrow> (\<forall>f\<in>set (butlast fs). f_opcode f \<noteq> Op_close)"

definition server_channel :: "ws_session \<Rightarrow> bool" where
  "server_channel s \<longleftrightarrow> (case wx_channel s of None \<Rightarrow> False | Some ch \<Rightarrow> wc_role ch = Role_server)"

text \<open>From one state to a later one the connection is given these frames.\<close>

definition gives :: "ws_frame list \<Rightarrow> ws_session \<Rightarrow> ws_session \<Rightarrow> bool" where
  "gives fs s t \<longleftrightarrow>
     ss_out (wx_base t) = ss_out (wx_base s) @ map server_frame fs \<and> list_all frame_sendable fs \<and> close_last fs \<and>
     (server_channel s \<longrightarrow> server_channel t) \<and>
     (ss_connected (wx_base t) \<longrightarrow> ss_connected (wx_base s) \<and> (\<forall>f\<in>set fs. f_opcode f \<noteq> Op_close)) \<and>
     (fs \<noteq> [] \<longrightarrow> ss_connected (wx_base s))"

lemma gives_refl: "gives [] s s"
  by (simp add: gives_def close_last_def)

lemma close_last_append:
  "close_last fs \<Longrightarrow> close_last gs \<Longrightarrow> (gs \<noteq> [] \<longrightarrow> (\<forall>f\<in>set fs. f_opcode f \<noteq> Op_close)) \<Longrightarrow> close_last (fs @ gs)"
  by (auto simp: close_last_def butlast_append)

lemma gives_trans: "gives fs s t \<Longrightarrow> gives gs t u \<Longrightarrow> gives (fs @ gs) s u"
  unfolding gives_def by (auto intro!: close_last_append)

definition sends :: "ws_session \<Rightarrow> ws_session \<Rightarrow> bool" where
  "sends s t \<longleftrightarrow> (\<exists>fs. gives fs s t)"

lemma sends_refl [simp]: "sends s s"
  using gives_refl by (auto simp: sends_def)

lemma sends_trans [trans]: "sends s t \<Longrightarrow> sends t u \<Longrightarrow> sends s u"
  using gives_trans by (force simp: sends_def)

lemma sends_cong: "wx_base t = wx_base s \<Longrightarrow> wx_channel t = wx_channel s \<Longrightarrow> sends s t"
  unfolding sends_def by (intro exI [of _ "[]"]) (simp add: gives_def close_last_def server_channel_def)

lemma server_channel_sends: "sends s t \<Longrightarrow> server_channel s \<Longrightarrow> server_channel t"
  by (auto simp: sends_def gives_def)
lemma send_frame_server:
  assumes "wc_role ch = Role_server" and "frame_sendable f"
  obtains g where "frame_sendable g" "f_opcode g = f_opcode f"
    "snd (send_frame z (0, 0, 0, 0) f ch b) = conn_send (server_frame g) b"
proof -
  define compressed where "compressed \<longleftrightarrow>
    wc_compression_enabled ch \<and> is_data_opcode (f_opcode f) \<and> f_payload f \<noteq> [] \<and> zl_deflate z (f_payload f) \<noteq> None"
  define g where "g = (if compressed then f\<lparr>f_payload := the (zl_deflate z (f_payload f)), f_rsv1 := True\<rparr> else f)"
  have "frame_sendable g" "f_opcode g = f_opcode f"
    using assms(2) by (auto simp: g_def frame_sendable_def compressed_def is_data_opcode_def)
  moreover have "snd (send_frame z (0, 0, 0, 0) f ch b) = conn_send (server_frame g) b"
    using assms(1)
    by (cases "zl_deflate z (f_payload f)") (auto simp: send_frame_def g_def compressed_def server_frame_def Let_def conn_send_def)
  ultimately show ?thesis using that by blast
qed

lemma sends_one:
  assumes "wx_base t = conn_send (server_frame g) (wx_base s)" and "frame_sendable g" and "f_opcode g \<noteq> Op_close"
    and "server_channel t"
  shows "sends s t"
proof (cases "ss_connected (wx_base s)")
  case True
  then have "gives [g] s t" using assms by (simp add: gives_def close_last_def conn_send_def)
  then show ?thesis by (auto simp: sends_def)
next
  case False
  then have "gives [] s t" using assms by (simp add: gives_def close_last_def conn_send_def)
  then show ?thesis by (auto simp: sends_def)
qed

lemma sends_last:
  assumes "wx_base t = conn_shutdown (conn_send (server_frame g) (wx_base s))" and "frame_sendable g" and "server_channel t"
  shows "sends s t"
proof (cases "ss_connected (wx_base s)")
  case True
  then have "gives [g] s t" using assms by (simp add: gives_def close_last_def conn_send_def)
  then show ?thesis by (auto simp: sends_def)
next
  case False
  then have "gives [] s t" using assms by (simp add: gives_def close_last_def conn_send_def)
  then show ?thesis by (auto simp: sends_def)
qed

lemma sendable_new:
  "f_opcode (ws_frame_new op p) = op"
  "frame_sendable (ws_frame_new op p) \<longleftrightarrow> op \<noteq> Op_continuation \<and> (is_control_opcode op \<longrightarrow> length p \<le> 125)"
  by (auto simp: frame_sendable_def ws_frame_new_def)

lemma sends_frame:
  assumes "server_channel s" and "wx_channel s = Some ch" and "frame_sendable f" and "f_opcode f \<noteq> Op_close"
  shows "sends s (s\<lparr>wx_base := snd (send_frame z (0, 0, 0, 0) f ch (wx_base s))\<rparr>)"
proof -
  have "wc_role ch = Role_server" using assms(1,2) by (simp add: server_channel_def)
  then obtain g where "frame_sendable g" "f_opcode g = f_opcode f"
    "snd (send_frame z (0, 0, 0, 0) f ch (wx_base s)) = conn_send (server_frame g) (wx_base s)"
    using send_frame_server assms(3) by metis
  then show ?thesis using assms by (intro sends_one [of _ g]) (simp_all add: server_channel_def)
qed

lemma length_close_payload [simp]: "length (close_payload code reason) = length reason + 2"
  by (simp add: close_payload_def)

lemma sends_close:
  assumes "server_channel s" and "wx_channel s = Some ch"
  shows "sends s (channel_command z (Close_channel code reason) s)"
proof -
  have role: "wc_role ch = Role_server" using assms by (simp add: server_channel_def)
  show ?thesis
  proof (cases "\<not> valid_close_code code \<or> 123 < length reason \<or> wc_close_sent ch")
    case True
    then have "channel_close z (0, 0, 0, 0) code reason ch (wx_base s) \<in> {(True, ch, wx_base s), (False, ch, wx_base s)}"
      by (auto simp: channel_close_def)
    then show ?thesis using assms by (intro sends_cong) (auto simp: channel_command_def)
  next
    case False
    let ?f = "ws_frame_new Op_close (close_payload code reason)"
    have "frame_sendable ?f" using False by (simp add: sendable_new)
    with role obtain g where g: "frame_sendable g"
      "snd (send_frame z (0, 0, 0, 0) ?f (ch\<lparr>wc_close_sent := True\<rparr>) (wx_base s)) = conn_send (server_frame g) (wx_base s)"
      using send_frame_server [of "ch\<lparr>wc_close_sent := True\<rparr>" ?f] by (metis ws_channel.select_convs(1) ws_channel.surjective ws_channel.update_convs(3))
    then show ?thesis using False assms role
      by (intro sends_last [of _ g]) (auto simp: channel_command_def channel_close_def Let_def case_prod_beta' server_channel_def)
  qed
qed

lemma sends_command: "server_channel s \<Longrightarrow> sends s (channel_command z c s)"
proof (cases "wx_channel s")
  case (Some ch)
  assume "server_channel s"
  then show ?thesis using Some sends_close [of s ch z]
    by (cases c; auto simp: channel_command_def channel_calls sendable_new intro!: sends_frame)
qed (simp add: channel_command_def)

lemma sends_commands: "server_channel s \<Longrightarrow> sends s (run_commands z cs s)"
proof (induction cs arbitrary: s)
  case (Cons c cs)
  have "sends s (channel_command z c s)" using Cons.prems by (rule sends_command)
  moreover have "sends (channel_command z c s) (run_commands z cs (channel_command z c s))"
    using Cons.IH server_channel_sends [OF calculation Cons.prems] by blast
  ultimately show ?case using sends_trans by (simp add: run_commands_def)
qed (simp add: run_commands_def)
lemma sends_step: "sends s t \<Longrightarrow> (server_channel t \<Longrightarrow> sends t u) \<Longrightarrow> server_channel s \<Longrightarrow> sends s u"
  using sends_trans server_channel_sends by blast

lemma server_channel_more [simp]:
  "server_channel (emit_ws e s) = server_channel s" "server_channel (s\<lparr>wx_base := b\<rparr>) = server_channel s"
  "server_channel (s\<lparr>wx_assembler := a\<rparr>) = server_channel s"
  "server_channel (s\<lparr>wx_close_notified := n\<rparr>) = server_channel s"
  "server_channel (s\<lparr>wx_ping_timer := n\<rparr>) = server_channel s"
  "server_channel (s\<lparr>wx_frame_parser := p\<rparr>) = server_channel s"
  by (simp_all add: server_channel_def emit_ws_def)

lemma sends_emit [simp]: "sends s (emit_ws e s)"
  by (rule sends_cong) simp_all

lemma sends_notify_error: "server_channel s \<Longrightarrow> sends s (notify_error cfg e s)"
  unfolding notify_error_def by (rule sends_step [OF sends_emit]) (auto intro: sends_commands)

lemma sends_notify_close:
  assumes "server_channel s"
  shows "sends s (notify_close cfg info s)"
proof (cases "wx_close_notified s")
  case True
  then show ?thesis by (simp add: notify_close_def Let_def sends_cong)
next
  case False
  let ?t = "emit_ws (We_closed info) (s\<lparr>wx_ping_timer := False, wx_close_notified := True\<rparr>)"
  have "sends s ?t" by (rule sends_cong) simp_all
  then show ?thesis
    using sends_step [of s ?t] assms False by (simp add: notify_close_def Let_def sends_commands)
qed

lemma sends_close_for_error: "server_channel s \<Longrightarrow> sends s (close_for_error cfg e reason s)"
  unfolding close_for_error_def Let_def
  by (rule sends_step [OF sends_notify_error]; (rule sends_step [OF sends_command])?) (auto intro: sends_notify_close)

lemma sends_on_close_frame:
  assumes "server_channel s"
  shows "sends s (on_close_frame cfg frame s)"
proof -
  obtain ch where ch: "wx_channel s = Some ch" "wc_role ch = Role_server"
    using assms by (auto simp: server_channel_def split: option.splits)
  let ?s1 = "s\<lparr>wx_channel := Some (ch\<lparr>wc_close_received := True\<rparr>)\<rparr>"
  have s1: "sends s ?s1" "server_channel ?s1"
    using ch by (auto simp: sends_def gives_def close_last_def server_channel_def intro!: exI [of _ "[]"])
  have s2: "server_channel t \<Longrightarrow> sends ?s1 t \<Longrightarrow> sends s (notify_close cfg info t)" for info t
    using sends_trans [OF s1(1)] sends_trans sends_notify_close by blast
  show ?thesis
    using s1 ch assms
    by (auto simp: on_close_frame_def Let_def sends_close_for_error split: prod.split bool.split
        intro!: s2 sends_command server_channel_sends [OF sends_command])
qed

lemma sends_on_frame:
  assumes "server_channel s"
  shows "sends s (snd (on_frame cfg frame s))"
proof -
  have a: "sends s u" if "sends (s\<lparr>wx_assembler := a\<rparr>) u" for a u
    using that sends_cong [of "s\<lparr>wx_assembler := a\<rparr>" s] by (auto intro: sends_trans)
  have m: "sends t (snd (on_data_message cfg m t))" if "server_channel t" for m t
    using that sends_step [OF sends_emit sends_commands]
    by (simp add: on_data_message_def Let_def sends_close_for_error split: option.split)
  have c: "sends t (snd (on_control_frame cfg frame t))" if "server_channel t" for t
    using that by (simp add: on_control_frame_def sends_command sends_on_close_frame)
  show ?thesis
    using assms a [OF m] a [OF c] a [OF sends_close_for_error] a [OF sends_refl]
    by (cases "assembler_consume frame (wx_assembler s)"; cases "fst (assembler_consume frame (wx_assembler s))")
      (simp_all add: on_frame_def Let_def)
qed

lemma sends_on_frames: "server_channel s \<Longrightarrow> sends s (on_frames cfg frames s)"
proof (induction frames arbitrary: s)
  case (Cons f frames)
  obtain again t where step: "on_frame cfg f s = (again, t)" by (cases "on_frame cfg f s")
  then have "sends s t" using sends_on_frame [OF Cons.prems, of cfg f] by simp
  then show ?case using Cons step sends_step [of s t] by simp
qed simp

lemma sends_with_base:
  "ss_out (f (wx_base s)) = ss_out (wx_base s) \<Longrightarrow> (ss_connected (f (wx_base s)) \<Longrightarrow> ss_connected (wx_base s)) \<Longrightarrow>
   sends s (with_base f s)"
  by (auto simp: sends_def gives_def close_last_def server_channel_def with_base_def intro!: exI [of _ "[]"])

lemma sends_on_websocket_message:
  assumes "server_channel s"
  shows "sends s (on_websocket_message cfg s)"
proof (cases "ws_parse (wx_frame_parser s) (ss_buffer (wx_base s))")
  case (fields status p frames left)
  let ?t = "with_base (\<lambda>b. b\<lparr>ss_buffer := left\<rparr>) (s\<lparr>wx_frame_parser := p\<rparr>)"
  have "sends s (s\<lparr>wx_frame_parser := p\<rparr>)" "sends (s\<lparr>wx_frame_parser := p\<rparr>) ?t"
    by (auto intro: sends_cong sends_with_base)
  then have "sends s ?t" by (rule sends_trans)
  then show ?thesis
    using fields assms sends_step [of s ?t] server_channel_sends [of s ?t]
    by (cases "wx_channel s")
      (simp_all add: on_websocket_message_def Let_def sends_on_frames sends_close_for_error server_channel_def [of s])
qed

subsection \<open>The life of an upgraded connection\<close>

datatype ws_op = Ws_bytes timestamp string | Ws_call ws_command | Ws_ping | Ws_disconnect

fun ws_step :: "ws_config \<Rightarrow> ws_op \<Rightarrow> ws_session \<Rightarrow> ws_session" where
  "ws_step cfg (Ws_bytes t bytes) s = (case ws_on_message cfg t bytes s of None \<Rightarrow> s | Some u \<Rightarrow> u)"
| "ws_step cfg (Ws_call c) s = channel_command (wg_zlib cfg) c s"
| "ws_step cfg Ws_ping s = ping_tick cfg s"
| "ws_step cfg Ws_disconnect s = ws_on_disconnect cfg s"

definition is_closed :: "ws_event \<Rightarrow> bool" where
  "is_closed e \<longleftrightarrow> (case e of We_closed info \<Rightarrow> True | _ \<Rightarrow> False)"

lemma is_closed_simps [simp]:
  "is_closed (We_closed i)" "\<not> is_closed We_open" "\<not> is_closed (We_message m t)" "\<not> is_closed (We_failed e)"
  by (simp_all add: is_closed_def)

text \<open>The service was told of one open, then of anything but an open, and at most once of a close.\<close>

definition open_events :: "ws_session \<Rightarrow> bool" where
  "open_events s \<longleftrightarrow> wx_websocket s \<and> (wx_close_notified s \<longrightarrow> \<not> wx_ping_timer s) \<and>
     (\<exists>es. wx_events s = We_open # es \<and> We_open \<notin> set es \<and>
        length (filter is_closed es) = (if wx_close_notified s then 1 else 0))"

lemma open_events_cong:
  "wx_websocket t = wx_websocket s \<Longrightarrow> wx_close_notified t = wx_close_notified s \<Longrightarrow> wx_events t = wx_events s \<Longrightarrow>
   (wx_ping_timer t \<Longrightarrow> wx_ping_timer s) \<Longrightarrow> open_events s \<Longrightarrow> open_events t"
  by (auto simp: open_events_def)

lemma open_events_commands [simp]: "open_events (run_commands z cs s) = open_events s"
  by (simp add: open_events_def)

lemma open_events_command [simp]: "open_events (channel_command z c s) = open_events s"
  by (simp add: open_events_def)

lemma open_events_base [simp]:
  "open_events (s\<lparr>wx_base := b\<rparr>) = open_events s" "open_events (with_base f s) = open_events s"
  "open_events (s\<lparr>wx_assembler := a\<rparr>) = open_events s" "open_events (s\<lparr>wx_frame_parser := p\<rparr>) = open_events s"
  "open_events (s\<lparr>wx_channel := c\<rparr>) = open_events s"
  by (simp_all add: open_events_def with_base_def)

lemma open_events_emit: "open_events s \<Longrightarrow> e \<noteq> We_open \<Longrightarrow> \<not> is_closed e \<Longrightarrow> open_events (emit_ws e s)"
  by (auto simp: open_events_def emit_ws_def)

lemma open_events_notify_error: "open_events s \<Longrightarrow> open_events (notify_error cfg e s)"
  by (simp add: notify_error_def open_events_emit)

lemma open_events_notify_close: "open_events s \<Longrightarrow> open_events (notify_close cfg info s)"
  by (auto simp: notify_close_def Let_def open_events_def emit_ws_def)

lemma open_events_close_for_error: "open_events s \<Longrightarrow> open_events (close_for_error cfg e reason s)"
  by (simp add: close_for_error_def Let_def open_events_notify_close open_events_notify_error)

lemma open_events_on_frame:
  assumes "open_events s"
  shows "open_events (snd (on_frame cfg frame s))"
proof -
  have m: "open_events (snd (on_data_message cfg m t))" if "open_events t" for m t
    using that by (simp add: on_data_message_def Let_def open_events_close_for_error open_events_emit split: option.split)
  have x: "open_events (on_close_frame cfg frame t)" if "open_events t" for t
    using that by (auto simp: on_close_frame_def Let_def open_events_close_for_error open_events_notify_close
        split: prod.split bool.split)
  have c: "open_events (snd (on_control_frame cfg frame t))" if "open_events t" for t
    using that by (simp add: on_control_frame_def x)
  show ?thesis
    using assms m c
    by (cases "assembler_consume frame (wx_assembler s)"; cases "fst (assembler_consume frame (wx_assembler s))")
      (simp_all add: on_frame_def Let_def open_events_close_for_error)
qed

lemma open_events_on_frames: "open_events s \<Longrightarrow> open_events (on_frames cfg frames s)"
proof (induction frames arbitrary: s)
  case (Cons f frames)
  obtain again t where step: "on_frame cfg f s = (again, t)" by (cases "on_frame cfg f s")
  then have "open_events t" using open_events_on_frame [OF Cons.prems, of cfg f] by simp
  then show ?case using Cons step by simp
qed simp

lemma open_events_message: "open_events s \<Longrightarrow> open_events (on_websocket_message cfg s)"
  by (simp add: on_websocket_message_def Let_def open_events_on_frames open_events_close_for_error split: prod.split)

text \<open>Before the upgrade, and after it.\<close>

definition plain_http :: "ws_session \<Rightarrow> bool" where
  "plain_http s \<longleftrightarrow> \<not> wx_websocket s \<and> wx_channel s = None \<and> wx_events s = [] \<and> \<not> wx_close_notified s \<and> \<not> wx_ping_timer s"

definition switched :: "ws_session \<Rightarrow> bool" where
  "switched s \<longleftrightarrow> server_channel s \<and> open_events s \<and>
     (\<exists>u pre accept subprotocol compression. sends u s \<and>
        ss_out (wx_base u) = pre @ [encode_switching_protocols accept subprotocol compression])"

lemma switched_trans: "switched s \<Longrightarrow> sends s t \<Longrightarrow> open_events t \<Longrightarrow> switched t"
  using sends_trans server_channel_sends unfolding switched_def by blast

lemma switched_websocket_message: "switched s \<Longrightarrow> switched (on_websocket_message cfg s)"
  by (rule switched_trans, assumption) (auto simp: switched_def intro: sends_on_websocket_message open_events_message)

lemma switched_upgrade:
  assumes "plain_http s" and "ss_connected (wx_base s)" and "try_websocket_upgrade cfg request s = (True, t)"
  shows "switched t"
proof -
  obtain accept sub where t: "t = accept_upgrade cfg request accept sub s"
    using assms(3) by (auto simp: try_websocket_upgrade_def refuse_upgrade_def split: if_splits option.splits)
  obtain c u where u: "t = run_commands (wg_zlib cfg) (sw_on_open (wg_service cfg) request) u"
    "ss_out (wx_base u) = ss_out (wx_base s) @ [encode_switching_protocols accept sub c]"
    "server_channel u" "open_events u"
    using assms(1,2) t
    by (auto simp: accept_upgrade_def Let_def emit_ws_def server_channel_def open_events_def plain_http_def
        ws_channel_new_def with_base_def conn_send_def)
  moreover have "sends u t" using u sends_commands by simp
  ultimately show ?thesis
    unfolding switched_def using server_channel_sends [of u t] by (metis open_events_commands)
qed

lemma plain_upgrade_refused:
  "plain_http s \<Longrightarrow> try_websocket_upgrade cfg request s = (False, t) \<Longrightarrow> plain_http t"
  by (auto simp: try_websocket_upgrade_def refuse_upgrade_def with_base_def plain_http_def split: if_splits option.splits)

lemma switched_base: "switched s \<Longrightarrow> ss_out (f (wx_base s)) = ss_out (wx_base s) \<Longrightarrow>
    (ss_connected (f (wx_base s)) \<Longrightarrow> ss_connected (wx_base s)) \<Longrightarrow> switched (with_base f s)"
  by (rule switched_trans) (auto intro: sends_with_base simp: switched_def)

lemma plain_or_switched_request_step:
  assumes "plain_http s" and "ss_connected (wx_base s)" and "ws_request_step cfg t s = Some (again, u)"
  shows "plain_http u \<or> switched u \<and> \<not> again"
proof -
  let ?b = "wx_base s"
  obtain status c buf where parse: "(if sv_streaming (wg_http cfg) \<noteq> None
      then context_parse_request_head t (ss_context ?b) (ss_buffer ?b)
      else context_parse_request t (ss_context ?b) (ss_buffer ?b)) = (Some status, c, buf)"
    using assms(3) by (auto simp: ws_request_step_def Let_def split: option.splits prod.splits)
  let ?s1 = "s\<lparr>wx_base := ?b\<lparr>ss_context := c, ss_buffer := buf\<rparr>\<rparr>" and ?r = "p_request (hc_parser c)"
  have plain: "plain_http (v\<lparr>wx_base := b\<rparr>) = plain_http v" "plain_http (with_base f v) = plain_http v" for v b f
    by (simp_all add: plain_http_def with_base_def)
  show ?thesis
  proof (cases "status = Complete \<and> looks_like_websocket_upgrade ?r")
    case False
    then show ?thesis
      using assms parse
      by (cases status) (auto simp: ws_request_step_def Let_def plain split: prod.splits if_splits sum.splits)
  next
    case True
    obtain ok v where up: "try_websocket_upgrade cfg ?r ?s1 = (ok, v)"
      by (cases "try_websocket_upgrade cfg ?r ?s1")
    show ?thesis
    proof (cases ok)
      case False
      then show ?thesis
        using up True assms parse plain_upgrade_refused [of ?s1 cfg ?r v]
        by (auto simp: ws_request_step_def Let_def plain)
    next
      case ok: True
      then have "switched (with_base reset_context v)"
        using switched_upgrade [of ?s1 cfg ?r v] up assms(1,2)
        by (auto simp: plain reset_context_def intro!: switched_base)
      then show ?thesis
        using up ok True assms(3) parse
        by (auto simp: ws_request_step_def Let_def intro: switched_websocket_message split: if_splits)
    qed
  qed
qed

lemma plain_or_switched_loop:
  "ws_http_loop cfg t s = Some u \<Longrightarrow> plain_http s \<Longrightarrow> plain_http u \<or> switched u"
proof (induction cfg t s rule: ws_http_loop.induct)
  case (1 cfg t s)
  show ?case
  proof (cases "ss_connected (wx_base s)")
    case True
    then obtain again v where step: "ws_message_step cfg t s = Some (again, v)"
      using "1.prems"(1) by (auto simp: ws_http_loop.simps [of cfg t s] split: option.splits)
    have v: "plain_http v \<or> switched v \<and> \<not> again"
      using step True "1.prems"(2) plain_or_switched_request_step [of s cfg t again v]
      by (auto simp: ws_message_step_def plain_http_def split: if_splits sum.splits)
    show ?thesis
      using "1.IH" [OF _ step] v step True "1.prems"
      by (cases again) (auto simp: ws_http_loop.simps [of cfg t s])
  qed (use 1 in \<open>simp add: ws_http_loop.simps [of cfg t s]\<close>)
qed

definition ws_life :: "ws_session \<Rightarrow> bool" where
  "ws_life s \<longleftrightarrow> plain_http s \<or> switched s"

lemma switched_command: "switched s \<Longrightarrow> switched (channel_command z c s)"
  by (rule switched_trans, assumption) (auto simp: switched_def intro: sends_command)

lemma ws_life_step:
  assumes "ws_life s"
  shows "ws_life (ws_step cfg op s)"
proof (cases "switched s")
  case True
  then have on: "wx_websocket s" by (simp add: switched_def open_events_def)
  have quiet: "switched (with_base (\<lambda>b. b\<lparr>ss_connected := False\<rparr>) s)"
    using True by (rule switched_base) simp_all
  then have closed: "switched (notify_close cfg info (with_base (\<lambda>b. b\<lparr>ss_connected := False\<rparr>) s))" for info
    by (rule switched_trans) (use quiet in \<open>auto simp: switched_def intro: sends_notify_close open_events_notify_close\<close>)
  have fed: "switched (with_base (\<lambda>b. b\<lparr>ss_buffer := ss_buffer b @ bytes\<rparr>) s)" for bytes
    using True by (rule switched_base) simp_all
  show ?thesis
    using on True quiet closed switched_websocket_message [OF fed] switched_command
    by (cases op) (auto simp: ws_life_def ws_on_message_def ws_on_plain_message_def ws_on_disconnect_def ping_tick_def
        with_base_def Let_def)
next
  case False
  then have plain: "plain_http s" using assms by (simp add: ws_life_def)
  have fed: "plain_http (with_base f s)" for f using plain by (simp add: plain_http_def with_base_def)
  show ?thesis
    using plain fed plain_or_switched_loop [OF _ fed]
    by (cases op) (auto simp: ws_life_def ws_on_message_def ws_on_plain_message_def ws_on_disconnect_def ping_tick_def
        plain_http_def channel_command_def with_base_def Let_def split: option.splits)
qed

interpretation ws_history: op_history "ws_step cfg" "ws_session_new ip port" "\<lambda>ops. ws_life" for cfg ip port
  by unfold_locales (auto simp: ws_life_step, simp add: ws_life_def plain_http_def ws_session_new_def)

subsection \<open>Segments\<close>

definition with_buffer :: "string \<Rightarrow> ws_session \<Rightarrow> ws_session" where
  "with_buffer x s = with_base (\<lambda>b. b\<lparr>ss_buffer := x\<rparr>) s"

lemma with_buffer_more [simp]:
  "wx_channel (with_buffer x s) = wx_channel s" "wx_close_notified (with_buffer x s) = wx_close_notified s"
  "wx_assembler (with_buffer x s) = wx_assembler s" "wx_compression_enabled (with_buffer x s) = wx_compression_enabled s"
  "wx_frame_parser (with_buffer x s) = wx_frame_parser s" "wx_websocket (with_buffer x s) = wx_websocket s"
  "ss_buffer (wx_base (with_buffer x s)) = x" "with_buffer x (with_buffer y s) = with_buffer x s"
  "wx_events (with_buffer x s) = wx_events s" "ss_connected (wx_base (with_buffer x s)) = ss_connected (wx_base s)"
  by (simp_all add: with_buffer_def with_base_def)

lemma send_frame_buffer:
  "send_frame z r f ch (b\<lparr>ss_buffer := x\<rparr>) = (case send_frame z r f ch b of (ok, c) \<Rightarrow> (ok, c\<lparr>ss_buffer := x\<rparr>))"
  by (simp add: send_frame_def Let_def conn_send_def)

lemma channel_command_buffer: "channel_command z c (with_buffer x s) = with_buffer x (channel_command z c s)"
  by (cases c; cases "wx_channel s"; simp add: channel_command_def channel_calls with_buffer_def with_base_def
      send_frame_buffer Let_def conn_shutdown_def case_prod_beta')

lemma run_commands_buffer: "run_commands z cs (with_buffer x s) = with_buffer x (run_commands z cs s)"
  unfolding run_commands_def by (induction cs arbitrary: s) (simp_all add: channel_command_buffer)

lemma updates_buffer:
  "emit_ws e (with_buffer x s) = with_buffer x (emit_ws e s)"
  "(with_buffer x s)\<lparr>wx_ping_timer := b\<rparr> = with_buffer x (s\<lparr>wx_ping_timer := b\<rparr>)"
  "(with_buffer x s)\<lparr>wx_close_notified := b\<rparr> = with_buffer x (s\<lparr>wx_close_notified := b\<rparr>)"
  "(with_buffer x s)\<lparr>wx_assembler := a\<rparr> = with_buffer x (s\<lparr>wx_assembler := a\<rparr>)"
  "(with_buffer x s)\<lparr>wx_channel := c\<rparr> = with_buffer x (s\<lparr>wx_channel := c\<rparr>)"
  by (simp_all add: emit_ws_def with_buffer_def with_base_def)

lemma notify_close_buffer: "notify_close cfg i (with_buffer x s) = with_buffer x (notify_close cfg i s)"
proof (cases "wx_close_notified s")
  case True
  then show ?thesis by (simp add: notify_close_def Let_def updates_buffer)
next
  case False
  have e: "wx_close_notified (s\<lparr>wx_ping_timer := b\<rparr>) = wx_close_notified s" for b by simp
  show ?thesis using False by (simp add: notify_close_def Let_def updates_buffer run_commands_buffer e del: ws_session.simps)
qed

lemma close_for_error_buffer: "close_for_error cfg e r (with_buffer x s) = with_buffer x (close_for_error cfg e r s)"
  by (simp add: close_for_error_def Let_def notify_error_def updates_buffer run_commands_buffer channel_command_buffer
      notify_close_buffer)

lemma on_frame_buffer:
  "on_frame cfg f (with_buffer x s) = (case on_frame cfg f s of (again, t) \<Rightarrow> (again, with_buffer x t))"
proof -
  have c: "on_close_frame cfg f (with_buffer x t) = with_buffer x (on_close_frame cfg f t)" for t
    by (cases "close_info_from_payload (f_payload f)")
      (simp add: on_close_frame_def Let_def updates_buffer close_for_error_buffer notify_close_buffer
        channel_command_buffer split: bool.split)
  have d: "on_data_message cfg m (with_buffer x t) =
      (case on_data_message cfg m t of (again, t) \<Rightarrow> (again, with_buffer x t))" for m t
    by (simp add: on_data_message_def Let_def updates_buffer run_commands_buffer close_for_error_buffer split: option.split)
  show ?thesis
    by (cases "assembler_consume f (wx_assembler s)"; cases "fst (assembler_consume f (wx_assembler s))")
      (simp_all add: on_frame_def Let_def updates_buffer close_for_error_buffer d on_control_frame_def c
        channel_command_buffer)
qed

lemma on_frames_buffer: "on_frames cfg fs (with_buffer x s) = with_buffer x (on_frames cfg fs s)"
  by (induction fs arbitrary: s) (simp_all add: on_frame_buffer split: prod.split)

text \<open>Frames after which the loop goes on.\<close>

fun continues :: "ws_config \<Rightarrow> ws_frame list \<Rightarrow> ws_session \<Rightarrow> bool" where
  "continues cfg [] s \<longleftrightarrow> True"
| "continues cfg (f # fs) s \<longleftrightarrow> fst (on_frame cfg f s) \<and> continues cfg fs (snd (on_frame cfg f s))"

lemma on_frames_append:
  "continues cfg fs s \<Longrightarrow> on_frames cfg (fs @ gs) s = on_frames cfg gs (on_frames cfg fs s)"
  by (induction fs arbitrary: s) (simp_all add: case_prod_beta')

lemma continues_append:
  "continues cfg (fs @ gs) s \<longleftrightarrow> continues cfg fs s \<and> continues cfg gs (on_frames cfg fs s)"
  by (induction fs arbitrary: s) (auto simp: case_prod_beta')

lemma continues_buffer: "continues cfg fs (with_buffer x s) = continues cfg fs s"
  by (induction fs arbitrary: s) (simp_all add: on_frame_buffer case_prod_beta')

lemma assemble_append:
  "assemble (fs @ gs) a = (case assemble fs a of None \<Rightarrow> None | Some (ms, b) \<Rightarrow>
     (case assemble gs b of None \<Rightarrow> None | Some (ns, c) \<Rightarrow> Some (ms @ ns, c)))"
  by (induction fs arbitrary: a) (auto split: prod.splits ws_message_status.splits option.splits)

text \<open>The payload the service is given for a message, where it is acceptable.\<close>

definition readable_payload :: "ws_config \<Rightarrow> bool \<Rightarrow> ws_message \<Rightarrow> string option" where
  "readable_payload cfg compression m =
     (if \<not> wm_compressed m then Some (wm_payload m)
      else case (if compression then zl_inflate (wg_zlib cfg) (wm_payload m) else None) of
             None \<Rightarrow> None
           | Some x \<Rightarrow> if wm_opcode m = Op_text \<and> \<not> valid_utf8 x then None else Some x)"

definition message_event :: "ws_config \<Rightarrow> bool \<Rightarrow> ws_message \<Rightarrow> ws_event" where
  "message_event cfg compression m = We_message (the (readable_payload cfg compression m)) (wm_opcode m)"

lemma consume_message: "assembler_consume f a = (st, b, m) \<Longrightarrow> (st = Msg_complete) = (m \<noteq> None)"
  by (auto simp: assembler_consume_def assembler_fail_def Let_def split: if_splits)

lemma on_frame_delivers:
  assumes "assembler_consume f (wx_assembler s) = (st, b, m)" and "st \<noteq> Msg_error" and "f_opcode f \<noteq> Op_close"
    and "\<forall>x. m = Some x \<longrightarrow> readable_payload cfg (wx_compression_enabled s) x \<noteq> None"
  shows "\<exists>t. on_frame cfg f s = (True, t) \<and> wx_assembler t = b \<and> wx_frame_parser t = wx_frame_parser s \<and>
    wx_compression_enabled t = wx_compression_enabled s \<and> wx_websocket t = wx_websocket s \<and>
    (wx_channel t = None \<longleftrightarrow> wx_channel s = None) \<and> ss_buffer (wx_base t) = ss_buffer (wx_base s) \<and>
    wx_events t = wx_events s @ (case m of None \<Rightarrow> [] | Some x \<Rightarrow> [message_event cfg (wx_compression_enabled s) x])"
proof (cases st)
  case Msg_complete
  then obtain x where x: "m = Some x" using consume_message assms(1) by blast
  then obtain y where y: "readable_payload cfg (wx_compression_enabled s) x = Some y" using assms(4) by blast
  show ?thesis
    using assms(1) Msg_complete x y
    by (cases "wm_compressed x"; cases "zl_inflate (wg_zlib cfg) (wm_payload x)")
      (simp_all add: on_frame_def on_data_message_def readable_payload_def message_event_def Let_def emit_ws_def
        split: if_splits)
next
  case Msg_control
  then have "m = None" using consume_message assms(1) by blast
  then show ?thesis using assms Msg_control by (simp add: on_frame_def on_control_frame_def Let_def)
next
  case Msg_incomplete
  then have "m = None" using consume_message assms(1) by blast
  then show ?thesis using assms Msg_incomplete by (simp add: on_frame_def)
qed (use assms in simp)

lemma on_frames_delivers:
  assumes "assemble fs (wx_assembler s) = Some (ms, b)" and "\<forall>f\<in>set fs. f_opcode f \<noteq> Op_close"
    and "\<forall>m\<in>set ms. readable_payload cfg (wx_compression_enabled s) m \<noteq> None"
  shows "continues cfg fs s \<and> wx_assembler (on_frames cfg fs s) = b \<and>
    wx_frame_parser (on_frames cfg fs s) = wx_frame_parser s \<and>
    wx_websocket (on_frames cfg fs s) = wx_websocket s \<and>
    wx_compression_enabled (on_frames cfg fs s) = wx_compression_enabled s \<and>
    (wx_channel (on_frames cfg fs s) = None \<longleftrightarrow> wx_channel s = None) \<and>
    wx_events (on_frames cfg fs s) = wx_events s @ map (message_event cfg (wx_compression_enabled s)) ms"
  using assms
proof (induction fs arbitrary: s ms)
  case (Cons f fs)
  obtain st c m where consume: "assembler_consume f (wx_assembler s) = (st, c, m)"
    by (cases "assembler_consume f (wx_assembler s)")
  have st: "st \<noteq> Msg_error" using Cons.prems(1) consume by auto
  then obtain ns where ns: "assemble fs c = Some (ns, b)" "ms = (case m of None \<Rightarrow> ns | Some x \<Rightarrow> x # ns)"
    using Cons.prems(1) consume by (auto split: ws_message_status.splits option.splits)
  have "\<forall>x. m = Some x \<longrightarrow> readable_payload cfg (wx_compression_enabled s) x \<noteq> None"
    using Cons.prems(3) ns(2) by auto
  from on_frame_delivers [OF consume st _ this] Cons.prems(2) obtain t where
    t: "on_frame cfg f s = (True, t)" "wx_assembler t = c" "wx_frame_parser t = wx_frame_parser s"
      "wx_compression_enabled t = wx_compression_enabled s" "wx_websocket t = wx_websocket s"
      "wx_channel t = None \<longleftrightarrow> wx_channel s = None"
      "wx_events t = wx_events s @ (case m of None \<Rightarrow> [] | Some x \<Rightarrow> [message_event cfg (wx_compression_enabled s) x])"
    by auto
  have "\<forall>m\<in>set ns. readable_payload cfg (wx_compression_enabled t) m \<noteq> None"
    using Cons.prems(3) ns(2) t(4) by (auto split: option.splits)
  with Cons.IH [of t ns] ns t Cons.prems(2) show ?case by (cases m) auto
qed simp

text \<open>A read on a connection that has switched: the bytes held back and the new ones.\<close>

lemma ws_step_bytes:
  assumes "wx_websocket s" and "wx_channel s \<noteq> None"
    and "ws_parse_loop False (wx_frame_parser s) (ss_buffer (wx_base s) @ seg) = (st, q, fs, left)" and "st \<noteq> Ws_error"
  shows "ws_step cfg (Ws_bytes t seg) s = with_buffer left (on_frames cfg fs s)"
proof -
  have q: "q = wx_frame_parser s" using ws_parse_loop_parser assms(3,4) by blast
  have "with_base (\<lambda>b. b\<lparr>ss_buffer := left\<rparr>)
      ((with_base (\<lambda>b. b\<lparr>ss_buffer := ss_buffer b @ seg\<rparr>) s)\<lparr>wx_frame_parser := q\<rparr>) = with_buffer left s"
    unfolding q by (simp add: with_base_def with_buffer_def)
  then show ?thesis
    using assms on_frames_buffer
    by (auto simp add: ws_on_message_def ws_on_plain_message_def on_websocket_message_def Let_def with_base_def ws_parse_def)
qed

lemma parse_loop_stuck:
  "ws_parse_loop a p d = (st, q, fs, left) \<Longrightarrow> st \<noteq> Ws_error \<Longrightarrow> parse_frame p left = Frame_more"
proof (induction a p d arbitrary: st q fs left rule: ws_parse_loop.induct)
  case (1 a p d)
  then show ?case
    by (cases "parse_frame p d") (auto simp: ws_parse_loop.simps [of a p d] split: prod.splits)
qed

lemma ws_parse_loop_flag: "snd (ws_parse_loop a p x) = snd (ws_parse_loop False p x)"
  by (cases "parse_frame p x") (simp_all add: ws_parse_loop.simps [of _ p x] split: prod.splits)

lemma ws_parse_loop_flag_error: "fst (ws_parse_loop a p x) = Ws_error \<longleftrightarrow> fst (ws_parse_loop False p x) = Ws_error"
  by (cases "parse_frame p x") (simp_all add: ws_parse_loop.simps [of _ p x] split: prod.splits)

lemma ws_segments:
  assumes "wx_websocket s" and "wx_channel s \<noteq> None" and "wx_frame_parser s = p"
    and "parse_frame p (ss_buffer (wx_base s)) = Frame_more"
    and "ws_parse_loop False p (ss_buffer (wx_base s) @ concat segs) = (st, q, fs, left)" and "st \<noteq> Ws_error"
    and "assemble fs (wx_assembler s) = Some (ms, b)" and "\<forall>f\<in>set fs. f_opcode f \<noteq> Op_close"
    and "\<forall>m\<in>set ms. readable_payload cfg (wx_compression_enabled s) m \<noteq> None"
  shows "fold (\<lambda>seg. ws_step cfg (Ws_bytes t seg)) segs s = with_buffer left (on_frames cfg fs s)"
  using assms
proof (induction segs arbitrary: s fs ms st q)
  case Nil
  then show ?case by (simp add: with_buffer_def with_base_def ws_parse_loop.simps [of False])
next
  case (Cons seg segs)
  let ?d = "ss_buffer (wx_base s) @ seg"
  obtain st1 q1 fs1 left1 where one: "ws_parse_loop False p ?d = (st1, q1, fs1, left1)"
    by (cases "ws_parse_loop False p ?d")
  obtain st2 q2 fs2 left2 where two: "ws_parse_loop False p (left1 @ concat segs) = (st2, q2, fs2, left2)"
    by (cases "ws_parse_loop False p (left1 @ concat segs)")
  have whole: "ws_parse_loop False p (?d @ concat segs) = (st, q, fs, left)" using Cons.prems(5) by simp
  have st1: "st1 \<noteq> Ws_error"
    using ws_parse_loop_append [OF one, of "concat segs"] whole Cons.prems(6) by (auto split: if_splits)
  have fs: "fs = fs1 @ fs2" "left = left2" and st2: "st2 \<noteq> Ws_error"
    using ws_parse_loop_append [OF one, of "concat segs"] whole Cons.prems(6) st1 two
      ws_parse_loop_flag [of "fs1 \<noteq> []" p "left1 @ concat segs"]
      ws_parse_loop_flag_error [of "fs1 \<noteq> []" p "left1 @ concat segs"]
    by (auto split: prod.splits)
  obtain ms1 b1 ms2 where as1: "assemble fs1 (wx_assembler s) = Some (ms1, b1)"
    and as2: "assemble fs2 b1 = Some (ms2, b)" and ms: "ms = ms1 @ ms2"
    using Cons.prems(7) unfolding fs assemble_append by (auto split: option.splits)
  have run: "continues cfg fs1 s \<and> wx_assembler (on_frames cfg fs1 s) = b1 \<and>
      wx_frame_parser (on_frames cfg fs1 s) = p \<and> wx_websocket (on_frames cfg fs1 s) \<and>
      wx_channel (on_frames cfg fs1 s) \<noteq> None \<and>
      wx_compression_enabled (on_frames cfg fs1 s) = wx_compression_enabled s"
    using on_frames_delivers [OF as1, of cfg] Cons.prems(1-3,8,9) fs(1) ms by auto
  let ?t = "with_buffer left1 (on_frames cfg fs1 s)"
  have "ws_step cfg (Ws_bytes t seg) s = ?t"
    using ws_step_bytes [OF Cons.prems(1,2), of seg st1 q1 fs1 left1] one st1 Cons.prems(3) by simp
  moreover have "fold (\<lambda>seg. ws_step cfg (Ws_bytes t seg)) segs ?t = with_buffer left (on_frames cfg fs2 ?t)"
    using run two st2 as2 Cons.prems(8,9) fs ms parse_loop_stuck [OF one st1]
    by (intro Cons.IH [of ?t st2 q2 fs2 ms2]) auto
  ultimately show ?case using run fs by (simp add: on_frames_buffer on_frames_append del: ws_step.simps)
qed

subsection \<open>Properties\<close>


definition echo_service :: ws_service where
  "echo_service = \<lparr>sw_on_open = (\<lambda>r. []), sw_on_message = (\<lambda>m op. [Send_text m]), sw_on_close = (\<lambda>i. []),
     sw_on_error = (\<lambda>e. []), sw_select_subprotocol = None, sw_options = default_ws_options, sw_ping_interval = 30\<rparr>"

definition echo_config :: ws_config where
  "echo_config = \<lparr>wg_http = server_new, wg_service = echo_service,
     wg_zlib = \<lparr>zl_available = False, zl_deflate = (\<lambda>x. None), zl_inflate = (\<lambda>x. None)\<rparr>\<rparr>"

definition echo_session :: ws_session where
  "echo_session = (ws_session_new ''::1'' 80)\<lparr>wx_websocket := True, wx_events := [We_open],
     wx_channel := Some (ws_channel_new Role_server False)\<rparr>"


text \<open>
  C36: The service of a WebSocket connection is told of one open, before anything else, and at most once
  of its close, exactly once when the connection is gone; before the upgrade it hears nothing; no ping
  timer survives the close.
\<close>

theorem ws_callbacks_once:
  "(let s = fold (ws_step cfg) ops (ws_session_new ip port); d = ws_step cfg Ws_disconnect s
    in if wx_websocket s
       then (\<exists>es. wx_events s = We_open # es \<and> We_open \<notin> set es \<and> length (filter is_closed es) \<le> 1) \<and>
         length (filter is_closed (wx_events d)) = 1 \<and> \<not> wx_ping_timer d
       else wx_events s = [] \<and> wx_events d = [] \<and> \<not> wx_ping_timer d)"
proof -
  let ?s = "fold (ws_step cfg) ops (ws_session_new ip port)"
  let ?q = "with_base (\<lambda>b. b\<lparr>ss_connected := False\<rparr>) ?s"
  have life: "plain_http ?s \<or> switched ?s" using ws_history.run by (simp add: ws_life_def)
  show ?thesis
  proof (cases "wx_websocket ?s")
    case True
    then have s: "open_events ?s" "server_channel ?s" using life by (auto simp: plain_http_def switched_def)
    have ch: "wx_channel ?q \<noteq> None" "wx_websocket ?q" "open_events ?q"
      using s True by (cases "wx_channel ?s"; simp add: server_channel_def with_base_def)+
    then have d: "ws_step cfg Ws_disconnect ?s = notify_close cfg close_info_new ?q"
      by (simp add: ws_on_disconnect_def Let_def)
    have "wx_close_notified (notify_close cfg close_info_new ?q)" "\<not> wx_ping_timer (notify_close cfg close_info_new ?q)"
      by (auto simp: notify_close_def Let_def emit_ws_def)
    moreover have "open_events (notify_close cfg close_info_new ?q)" using ch(3) by (rule open_events_notify_close)
    ultimately show ?thesis
      using True s(1) unfolding Let_def d by (auto simp: open_events_def simp del: ws_step.simps)
  next
    case False
    then have "plain_http ?s" using life by (auto simp: switched_def open_events_def)
    then show ?thesis
      using False by (simp add: Let_def ws_on_disconnect_def with_base_def plain_http_def)
  qed
qed


definition upgrade_text :: string where
  "upgrade_text = ''GET /chat HTTP/1.1'' @ crlf @ ''Host: h'' @ crlf @ ''Connection: Upgrade'' @ crlf @
     ''Upgrade: websocket'' @ crlf @ ''Sec-WebSocket-Version: 13'' @ crlf @
     ''Sec-WebSocket-Key: dGhlIHNhbXBsZSBub25jZQ=='' @ crlf @ crlf"

abbreviation upgraded_echo :: ws_session where
  "upgraded_echo \<equiv> fold (ws_step echo_config) [Ws_bytes 0 upgrade_text, Ws_call (Close_channel 1000 [])]
     (ws_session_new [] 80)"

lemma upgrade_text_parses:
  "(case context_parse_request 0 (ss_context (session_new [] 80)) upgrade_text of (st, c, buf) \<Rightarrow>
     st = Some Complete \<and> websocket_is_upgrade_request (p_request (hc_parser c)) \<and>
     looks_like_websocket_upgrade (p_request (hc_parser c)) \<and> buf = [] \<and>
     trim_ows (request_header ''Sec-WebSocket-Key'' (p_request (hc_parser c))) \<noteq> [])"
  by code_simp

lemma upgrade_text_switches: "wx_websocket upgraded_echo"
proof -
  let ?b = "session_new [] 80"
  obtain c where c: "context_parse_request 0 (ss_context ?b) upgrade_text = (Some Complete, c, [])"
    "websocket_is_upgrade_request (p_request (hc_parser c))"
    "looks_like_websocket_upgrade (p_request (hc_parser c))"
    "trim_ows (request_header ''Sec-WebSocket-Key'' (p_request (hc_parser c))) \<noteq> []"
    using upgrade_text_parses by (auto split: prod.splits)
  have "\<not> hc_active (ss_context ?b)" "ss_connected ?b" "ss_buffer ?b = []"
    by (simp_all add: session_new_def set_peer_address_def context_new_def)
  then show ?thesis
    using c by (simp add: ws_on_message_def ws_on_plain_message_def with_base_def ws_session_new_def
        ws_http_loop.simps ws_message_step_def ws_request_step_def echo_config_def server_new_def Let_def
        try_websocket_upgrade_def websocket_validate_client_key_def selected_subprotocol_def echo_service_def
        accept_upgrade_def emit_ws_def conn_send_def reset_context_def run_commands_def)
qed




end
