(* ===== verification/Upload_Writer.thy ===== *)
theory Upload_Writer
  imports Prelude
begin

text \<open>
  \<open>UploadFileWriterPool\<close> and \<open>UploadFileWriterSession\<close> (src/src/http/upload_file_writer.cpp): uploads
  collected in blocks by the network threads and written to a part file by a worker, which renames it to
  the final path. A call under a mutex is one step and so is each file operation of the worker; a run is
  any interleaving of such steps. The file system is the list of its files with their contents; the
  outcome of each file operation is an argument. Sizes are natural numbers: they count bytes held or
  written, below \<open>2 ^ 64\<close> in any run of the program.
\<close>

subsection \<open>Paths\<close>

text \<open>What \<open>std::filesystem::path\<close> does with them on POSIX.\<close>

definition path_join :: "string \<Rightarrow> string \<Rightarrow> string" where
  "path_join dir name =
     (if name \<noteq> [] \<and> hd name = CHR ''/'' then name
      else if dir = [] \<or> last dir = CHR ''/'' then dir @ name
      else dir @ ''/'' @ name)"

definition path_filename :: "string \<Rightarrow> string" where
  "path_filename path = rev (takeWhile (\<lambda>c. c \<noteq> CHR ''/'') (rev path))"

definition path_extension :: "string \<Rightarrow> string" where
  "path_extension path =
     (let name = path_filename path; tail = takeWhile (\<lambda>c. c \<noteq> CHR ''.'') (rev name)
      in if name = ''.'' \<or> name = ''..'' \<or> length name \<le> length tail + 1 then []
         else CHR ''.'' # rev tail)"

definition path_stem :: "string \<Rightarrow> string" where
  "path_stem path = (let name = path_filename path in take (length name - length (path_extension path)) name)"

subsection \<open>State\<close>

record upload_block =
  ub_data :: string
  ub_capacity :: nat

record upload_options =
  uo_dir :: string
  uo_file_name :: string
  uo_content_type :: string
  uo_block_size :: nat
  uo_high_watermark :: nat
  uo_low_watermark :: nat
  uo_max_size :: nat
  uo_overwrite :: bool

definition default_upload_options :: upload_options where
  "default_upload_options =
     \<lparr>uo_dir = ''uploads'', uo_file_name = ''upload.bin'', uo_content_type = ''application/octet-stream'',
      uo_block_size = 256 * 1024, uo_high_watermark = 8 * 1024 * 1024, uo_low_watermark = 4 * 1024 * 1024,
      uo_max_size = 1024 * 1024 * 1024, uo_overwrite = False\<rparr>"

record pool_options =
  po_max_active :: nat
  po_max_queued :: nat
  po_max_cached :: nat

definition default_pool_options :: pool_options where
  "default_pool_options =
     \<lparr>po_max_active = 128, po_max_queued = 512 * 1024 * 1024, po_max_cached = 32 * 1024 * 1024\<rparr>"

record upload_result =
  ur_ok :: bool
  ur_canceled :: bool
  ur_path :: string
  ur_file_name :: string
  ur_content_type :: string
  ur_bytes :: nat
  ur_error :: string

record upload_pool =
  up_options :: pool_options
  up_active :: nat
  up_queued :: nat
  up_completed :: nat
  up_failed :: nat
  up_canceled :: nat
  up_reserved :: "string list"
  up_next_part :: nat
  up_cached :: "upload_block list"
  up_cached_bytes :: nat

definition pool_new :: "pool_options \<Rightarrow> upload_pool" where
  "pool_new opts =
     \<lparr>up_options = opts, up_active = 0, up_queued = 0, up_completed = 0, up_failed = 0, up_canceled = 0,
      up_reserved = [], up_next_part = 0, up_cached = [], up_cached_bytes = 0\<rparr>"

text \<open>Where a worker stands in \<open>run_upload_writer_session\<close>, and its local variables.\<close>

datatype worker_phase = Ph_open | Ph_wait | Ph_low | Ph_write | Ph_wrote | Ph_close | Ph_status | Ph_publish
  | Ph_release | Ph_unreserve | Ph_retire | Ph_flag | Ph_end

datatype upload_event = Ev_high | Ev_low | Ev_complete upload_result

record upload_session =
  us_options :: upload_options
  us_final_path :: string
  us_part_path :: string
  us_ready :: "upload_block list"
  us_free :: "upload_block list"
  us_pending :: "upload_block option"
  us_finished :: bool
  us_canceled :: bool
  us_failed :: bool
  us_worker_done :: bool
  us_above :: bool
  us_queued :: nat
  us_written :: nat
  us_allocated :: nat
  us_message :: string
  us_phase :: worker_phase
  us_ok :: bool
  us_error :: string
  us_open :: bool
  us_block :: upload_block
  us_stop :: bool
  us_result :: upload_result
  us_high_owed :: nat
  us_events :: "upload_event list"

definition no_block :: upload_block where
  "no_block = \<lparr>ub_data = [], ub_capacity = 0\<rparr>"

definition session_start :: "upload_options \<Rightarrow> string \<Rightarrow> string \<Rightarrow> upload_session" where
  "session_start options final_path part_path =
     \<lparr>us_options = options, us_final_path = final_path, us_part_path = part_path, us_ready = [], us_free = [],
      us_pending = None, us_finished = False, us_canceled = False, us_failed = False, us_worker_done = False,
      us_above = False, us_queued = 0, us_written = 0, us_allocated = 0, us_message = [], us_phase = Ph_open,
      us_ok = True, us_error = [], us_open = False, us_block = no_block, us_stop = False,
      us_result = \<lparr>ur_ok = False, ur_canceled = False, ur_path = final_path, ur_file_name = uo_file_name options,
        ur_content_type = uo_content_type options, ur_bytes = 0, ur_error = []\<rparr>,
      us_high_owed = 0, us_events = []\<rparr>"

subsection \<open>The pool\<close>

definition fallback_upload_file_name :: "string \<Rightarrow> string" where
  "fallback_upload_file_name file_name = (if file_name = [] then ''upload.bin'' else file_name)"

definition file_name_with_index :: "string \<Rightarrow> nat \<Rightarrow> string" where
  "file_name_with_index file_name index =
     (if index = 0 then file_name
      else
        let extension = path_extension file_name;
            stem0 = path_stem file_name;
            stem = (if stem0 = [] then ''upload'' else stem0)
        in stem @ ''-'' @ to_chars 10 index @ extension)"

type_synonym files = "(string \<times> string) list"

text \<open>
  The search for a free name; the fuel is one more than the number of names that can be taken, and
  \<open>reserve_paths_finds\<close> shows that it suffices.
\<close>

fun find_free_path :: "nat \<Rightarrow> upload_options \<Rightarrow> string \<Rightarrow> files \<Rightarrow> string list \<Rightarrow> nat \<Rightarrow> string option" where
  "find_free_path 0 options name files reserved index = None"
| "find_free_path (Suc fuel) options name files reserved index =
     (let file_name = file_name_with_index name index; final_path = path_join (uo_dir options) file_name
      in if map_of files final_path \<noteq> None \<and> \<not> uo_overwrite options \<or> final_path \<in> set reserved
         then find_free_path fuel options name files reserved (index + 1)
         else Some file_name)"

definition reserve_upload_paths :: "upload_options \<Rightarrow> files \<Rightarrow> upload_pool \<Rightarrow>
    ((string \<times> string \<times> string) \<times> upload_pool) option" where
  "reserve_upload_paths options files pool =
     (case find_free_path (length files + length (up_reserved pool) + 2) options
             (fallback_upload_file_name (uo_file_name options)) files (up_reserved pool) 0 of
        None \<Rightarrow> None
      | Some file_name \<Rightarrow>
          let final_path = path_join (uo_dir options) file_name;
              id = up_next_part pool + 1;
              part_name = ''.'' @ path_filename final_path @ ''.'' @ to_chars 10 id @ ''.part''
          in Some ((final_path, path_join (uo_dir options) part_name, file_name),
                   pool\<lparr>up_reserved := final_path # up_reserved pool, up_next_part := id\<rparr>))"

definition try_increment_active :: "upload_pool \<Rightarrow> bool \<times> upload_pool" where
  "try_increment_active pool =
     (if po_max_active (up_options pool) \<le> up_active pool then (False, pool)
      else (True, pool\<lparr>up_active := up_active pool + 1\<rparr>))"

definition try_reserve_queued :: "nat \<Rightarrow> upload_pool \<Rightarrow> bool \<times> upload_pool" where
  "try_reserve_queued bytes pool =
     (if po_max_queued (up_options pool) < bytes \<or> po_max_queued (up_options pool) - bytes < up_queued pool
      then (False, pool)
      else (True, pool\<lparr>up_queued := up_queued pool + bytes\<rparr>))"

definition release_queued :: "nat \<Rightarrow> upload_pool \<Rightarrow> upload_pool" where
  "release_queued bytes pool = pool\<lparr>up_queued := up_queued pool - bytes\<rparr>"

definition acquire_cached_pool_block :: "nat \<Rightarrow> upload_pool \<Rightarrow> upload_block option \<times> upload_pool" where
  "acquire_cached_pool_block capacity pool =
     (case index_of (\<lambda>b. ub_capacity b = capacity) (up_cached pool) of
        None \<Rightarrow> (None, pool)
      | Some i \<Rightarrow>
          (Some ((up_cached pool ! i)\<lparr>ub_data := []\<rparr>),
           pool\<lparr>up_cached := take i (up_cached pool) @ drop (Suc i) (up_cached pool),
                up_cached_bytes := up_cached_bytes pool - capacity\<rparr>))"

definition cache_pool_block :: "upload_block \<Rightarrow> upload_pool \<Rightarrow> upload_pool" where
  "cache_pool_block block pool =
     (if ub_capacity block = 0 \<or> po_max_cached (up_options pool) < ub_capacity block then pool
      else if po_max_cached (up_options pool) - ub_capacity block < up_cached_bytes pool then pool
      else pool\<lparr>up_cached_bytes := up_cached_bytes pool + ub_capacity block,
                up_cached := up_cached pool @ [block\<lparr>ub_data := []\<rparr>]\<rparr>)"

subsection \<open>Blocks of a session\<close>

definition acquire_block :: "upload_session \<Rightarrow> upload_pool \<Rightarrow> upload_block \<times> upload_session \<times> upload_pool" where
  "acquire_block s pool =
     (if us_free s \<noteq> [] then ((last (us_free s))\<lparr>ub_data := []\<rparr>, s\<lparr>us_free := butlast (us_free s)\<rparr>, pool)
      else
        let capacity = max (uo_block_size (us_options s)) 1
        in (case acquire_cached_pool_block capacity pool of
              (Some cached, pool1) \<Rightarrow> (cached, s, pool1)
            | (None, pool1) \<Rightarrow>
                (\<lparr>ub_data = [], ub_capacity = capacity\<rparr>, s\<lparr>us_allocated := us_allocated s + 1\<rparr>, pool1)))"

definition fail_session :: "string \<Rightarrow> upload_session \<Rightarrow> upload_session" where
  "fail_session message s =
     (if us_finished s \<or> us_canceled s \<or> us_failed s then s
      else s\<lparr>us_failed := True, us_finished := True, us_message := message\<rparr>)"

definition clear_block :: "upload_block \<Rightarrow> upload_block" where
  "clear_block b = b\<lparr>ub_data := []\<rparr>"

definition discard_ready_blocks :: "upload_session \<Rightarrow> upload_pool \<Rightarrow> upload_session \<times> upload_pool" where
  "discard_ready_blocks s pool =
     (s\<lparr>us_queued := 0, us_pending := None, us_ready := [],
        us_free := us_free s @ (case us_pending s of None \<Rightarrow> [] | Some b \<Rightarrow> [clear_block b]) @
          map clear_block (us_ready s)\<rparr>,
      release_queued (us_queued s) pool)"

definition flush_pending_block :: "upload_session \<Rightarrow> upload_session" where
  "flush_pending_block s =
     (case us_pending s of
        None \<Rightarrow> s
      | Some b \<Rightarrow> if ub_data b = [] then s else s\<lparr>us_ready := us_ready s @ [b], us_pending := None\<rparr>)"

definition release_session_blocks :: "upload_session \<Rightarrow> upload_pool \<Rightarrow> upload_session \<times> upload_pool" where
  "release_session_blocks s pool =
     (s\<lparr>us_pending := None, us_ready := [], us_free := []\<rparr>,
      fold cache_pool_block
        ((case us_pending s of None \<Rightarrow> [] | Some b \<Rightarrow> [b]) @ us_ready s @ us_free s) pool)"

subsection \<open>The calls of the network threads\<close>

text \<open>The copy loop of \<open>append\<close>; \<open>None\<close> is an iteration that copies nothing, which repeats for ever.\<close>

definition take_pending :: "upload_session \<Rightarrow> upload_pool \<Rightarrow> upload_block \<times> upload_session \<times> upload_pool" where
  "take_pending s pool = (case us_pending s of None \<Rightarrow> acquire_block s pool | Some b \<Rightarrow> (b, s, pool))"

function store_bytes :: "string \<Rightarrow> upload_session \<Rightarrow> upload_pool \<Rightarrow> (upload_session \<times> upload_pool) option" where
  "store_bytes remaining s pool =
     (if remaining = [] then Some (s, pool)
      else
        (case take_pending s pool of
           (b, s1, pool1) \<Rightarrow>
             let copy_size = min (length remaining) (ub_capacity b - length (ub_data b));
                 b1 = b\<lparr>ub_data := ub_data b @ take copy_size remaining\<rparr>;
                 s2 = s1\<lparr>us_pending := Some b1, us_queued := us_queued s1 + copy_size\<rparr>;
                 s3 = (if length (ub_data b1) = ub_capacity b1 then flush_pending_block s2 else s2)
             in if copy_size = 0 then None else store_bytes (drop copy_size remaining) s3 pool1))"
  by pat_completeness auto
termination
  by (relation "measure (\<lambda>(remaining, s, pool). length remaining)") auto

declare store_bytes.simps [simp del]

text \<open>\<open>append\<close>, up to the invocation of the watermark callback outside the lock, which is owed then.\<close>

definition session_append :: "string \<Rightarrow> upload_session \<Rightarrow> upload_pool \<Rightarrow> (bool \<times> upload_session \<times> upload_pool) option" where
  "session_append data s pool =
     (if data = [] then Some (True, s, pool)
      else if us_finished s \<or> us_canceled s \<or> us_failed s \<or> us_worker_done s then Some (False, s, pool)
      else if uo_max_size (us_options s) < length data \<or>
              uo_max_size (us_options s) - length data < us_written s + us_queued s
      then Some (False, fail_session ''upload size limit exceeded'' s, pool)
      else
        (case try_reserve_queued (length data) pool of
           (False, pool1) \<Rightarrow> Some (False, fail_session ''global upload queue limit exceeded'' s, pool1)
         | (True, pool1) \<Rightarrow>
             (case store_bytes data s pool1 of
                None \<Rightarrow> None
              | Some (s1, pool2) \<Rightarrow>
                  Some (True,
                    if \<not> us_above s1 \<and> uo_high_watermark (us_options s1) \<le> us_queued s1
                    then s1\<lparr>us_above := True, us_high_owed := us_high_owed s1 + 1\<rparr> else s1,
                    pool2))))"

definition call_high :: "upload_session \<Rightarrow> upload_session" where
  "call_high s =
     (if us_high_owed s = 0 then s
      else s\<lparr>us_high_owed := us_high_owed s - 1, us_events := us_events s @ [Ev_high]\<rparr>)"

definition session_finish :: "upload_session \<Rightarrow> upload_session" where
  "session_finish s =
     (if us_canceled s \<or> us_failed s then s else (flush_pending_block s)\<lparr>us_finished := True\<rparr>)"

definition session_cancel :: "upload_session \<Rightarrow> upload_session" where
  "session_cancel s =
     (if us_worker_done s then s else s\<lparr>us_canceled := True, us_finished := True\<rparr>)"

subsection \<open>The worker\<close>

text \<open>The outcomes of the file operations of a step, in the order the worker asks for them.\<close>

record file_outcome =
  fo_ok :: bool
  fo_opened :: bool
  fo_error :: string

definition file_put :: "string \<Rightarrow> string \<Rightarrow> files \<Rightarrow> files" where
  "file_put path content files = (path, content) # filter (\<lambda>(p, c). p \<noteq> path) files"

definition file_remove :: "string \<Rightarrow> files \<Rightarrow> files" where
  "file_remove path files = filter (\<lambda>(p, c). p \<noteq> path) files"

definition worker_open :: "file_outcome \<Rightarrow> upload_session \<Rightarrow> files \<Rightarrow> upload_session \<times> files" where
  "worker_open out s files =
     (if \<not> fo_ok out then (s\<lparr>us_ok := False, us_error := fo_error out, us_phase := Ph_wait\<rparr>, files)
      else if \<not> fo_opened out
      then (s\<lparr>us_ok := False, us_error := ''failed to open upload part file'', us_phase := Ph_wait\<rparr>, files)
      else (s\<lparr>us_open := True, us_phase := Ph_wait\<rparr>, file_put (us_part_path s) [] files))"

text \<open>The locked region at the head of the loop; while the condition of the wait is false the worker stays.\<close>

definition worker_take :: "upload_session \<Rightarrow> upload_pool \<Rightarrow> upload_session \<times> upload_pool" where
  "worker_take s pool =
     (if \<not> (us_finished s \<or> us_canceled s \<or> us_failed s \<or> us_ready s \<noteq> []) then (s, pool)
      else if us_canceled s \<or> us_failed s \<or> \<not> us_ok s then
        (case discard_ready_blocks s pool of (s1, pool1) \<Rightarrow> (s1\<lparr>us_block := no_block, us_phase := Ph_close\<rparr>, pool1))
      else if us_ready s \<noteq> [] then
        (let block = hd (us_ready s);
             s1 = s\<lparr>us_block := block, us_ready := tl (us_ready s), us_queued := us_queued s - length (ub_data block)\<rparr>;
             low = us_above s1 \<and> us_queued s1 \<le> uo_low_watermark (us_options s1);
             next = (if ub_data block = [] then Ph_wait else Ph_write)
         in (if low then s1\<lparr>us_above := False, us_phase := Ph_low\<rparr> else s1\<lparr>us_phase := next\<rparr>,
             release_queued (length (ub_data block)) pool))
      else (s\<lparr>us_block := no_block, us_phase := Ph_close\<rparr>, pool))"

definition worker_low :: "upload_session \<Rightarrow> upload_session" where
  "worker_low s =
     s\<lparr>us_events := us_events s @ [Ev_low],
       us_phase := (if ub_data (us_block s) = [] then Ph_wait else Ph_write)\<rparr>"

definition worker_write :: "file_outcome \<Rightarrow> upload_session \<Rightarrow> files \<Rightarrow> upload_session \<times> files" where
  "worker_write out s files =
     (if fo_ok out
      then (s\<lparr>us_phase := Ph_wrote\<rparr>,
            file_put (us_part_path s) ((case map_of files (us_part_path s) of None \<Rightarrow> [] | Some c \<Rightarrow> c) @ ub_data (us_block s)) files)
      else (s\<lparr>us_ok := False, us_error := ''failed to write upload file'', us_phase := Ph_wrote\<rparr>, files))"

definition worker_wrote :: "upload_session \<Rightarrow> upload_session" where
  "worker_wrote s =
     (let s1 = s\<lparr>us_written := us_written s + length (ub_data (us_block s)),
                us_free := us_free s @ [clear_block (us_block s)], us_block := no_block, us_phase := Ph_wait\<rparr>
      in if us_ok s1 then s1 else fail_session (us_error s1) s1)"

definition worker_close :: "file_outcome \<Rightarrow> upload_session \<Rightarrow> upload_session" where
  "worker_close out s =
     (if us_open s then
        (let ok = us_ok s \<and> fo_ok out
         in s\<lparr>us_open := False, us_ok := ok,
              us_error := (if \<not> ok \<and> us_error s = [] then ''failed to close upload file'' else us_error s),
              us_phase := Ph_status\<rparr>)
      else s\<lparr>us_phase := Ph_status\<rparr>)"

definition worker_status :: "upload_session \<Rightarrow> upload_session" where
  "worker_status s =
     (let failed = us_failed s \<or> \<not> us_ok s;
          error = (if failed \<and> us_error s = []
                   then (if us_message s = [] then ''upload failed'' else us_message s) else us_error s);
          result = (us_result s)\<lparr>ur_canceled := us_canceled s, ur_bytes := us_written s\<rparr>
      in s\<lparr>us_stop := us_canceled s \<or> failed, us_error := error, us_result := result,
           us_phase := Ph_publish\<rparr>)"

text \<open>Where the rename fails, the message is that of the removal of the part file, which reuses the error code.\<close>

definition worker_publish :: "file_outcome \<Rightarrow> upload_session \<Rightarrow> files \<Rightarrow> upload_session \<times> files" where
  "worker_publish out s files =
     (let result = us_result s
      in if us_stop s then
           (s\<lparr>us_result := result\<lparr>ur_ok := False,
                ur_error := (if ur_canceled result then ''upload canceled'' else us_error s)\<rparr>, us_phase := Ph_release\<rparr>,
            file_remove (us_part_path s) files)
         else if \<not> fo_ok out then
           (s\<lparr>us_result := result\<lparr>ur_ok := False, ur_error := fo_error out\<rparr>, us_phase := Ph_release\<rparr>,
            file_remove (us_part_path s) files)
         else
           (s\<lparr>us_result := result\<lparr>ur_ok := True\<rparr>, us_phase := Ph_release\<rparr>,
            file_remove (us_part_path s)
              (file_put (us_final_path s) (case map_of files (us_part_path s) of None \<Rightarrow> [] | Some c \<Rightarrow> c) files)))"

text \<open>\<open>finish_worker_state\<close>: blocks, path and counters go back to the pool, then the completion runs.\<close>

definition release_upload_path :: "string \<Rightarrow> upload_pool \<Rightarrow> upload_pool" where
  "release_upload_path final_path pool = pool\<lparr>up_reserved := removeAll final_path (up_reserved pool)\<rparr>"

definition worker_retire :: "upload_result \<Rightarrow> upload_pool \<Rightarrow> upload_pool" where
  "worker_retire result pool =
     (let pool1 = pool\<lparr>up_active := up_active pool - 1\<rparr>
      in if ur_canceled result then pool1\<lparr>up_canceled := up_canceled pool1 + 1\<rparr>
         else if ur_ok result then pool1\<lparr>up_completed := up_completed pool1 + 1\<rparr>
         else pool1\<lparr>up_failed := up_failed pool1 + 1\<rparr>)"

definition worker_flag :: "upload_session \<Rightarrow> upload_session" where
  "worker_flag s =
     s\<lparr>us_worker_done := True, us_phase := Ph_end, us_events := us_events s @ [Ev_complete (us_result s)]\<rparr>"

definition worker_step :: "file_outcome \<Rightarrow> upload_session \<Rightarrow> upload_pool \<Rightarrow> files \<Rightarrow>
    upload_session \<times> upload_pool \<times> files" where
  "worker_step out s pool files =
     (case us_phase s of
        Ph_open \<Rightarrow> (case worker_open out s files of (s1, files1) \<Rightarrow> (s1, pool, files1))
      | Ph_wait \<Rightarrow> (case worker_take s pool of (s1, pool1) \<Rightarrow> (s1, pool1, files))
      | Ph_low \<Rightarrow> (worker_low s, pool, files)
      | Ph_write \<Rightarrow> (case worker_write out s files of (s1, files1) \<Rightarrow> (s1, pool, files1))
      | Ph_wrote \<Rightarrow> (worker_wrote s, pool, files)
      | Ph_close \<Rightarrow> (worker_close out s, pool, files)
      | Ph_status \<Rightarrow> (worker_status s, pool, files)
      | Ph_publish \<Rightarrow> (case worker_publish out s files of (s1, files1) \<Rightarrow> (s1, pool, files1))
      | Ph_release \<Rightarrow>
          (case release_session_blocks s pool of (s1, pool1) \<Rightarrow> (s1\<lparr>us_phase := Ph_unreserve\<rparr>, pool1, files))
      | Ph_unreserve \<Rightarrow> (s\<lparr>us_phase := Ph_retire\<rparr>, release_upload_path (us_final_path s) pool, files)
      | Ph_retire \<Rightarrow> (s\<lparr>us_phase := Ph_flag\<rparr>, worker_retire (us_result s) pool, files)
      | Ph_flag \<Rightarrow> (worker_flag s, pool, files)
      | Ph_end \<Rightarrow> (s, pool, files))"

subsection \<open>The pool and its sessions\<close>

record upload_world =
  uw_pool :: upload_pool
  uw_sessions :: "upload_session list"
  uw_files :: files

definition world_new :: "pool_options \<Rightarrow> files \<Rightarrow> upload_world" where
  "world_new opts files = \<lparr>uw_pool = pool_new opts, uw_sessions = [], uw_files = files\<rparr>"

text \<open>\<open>create_session\<close>: refused when too many uploads are active; \<open>None\<close> would be a search that never ends.\<close>

definition create_session :: "upload_options \<Rightarrow> upload_world \<Rightarrow> (bool \<times> upload_world) option" where
  "create_session options w =
     (case try_increment_active (uw_pool w) of
        (False, pool) \<Rightarrow> Some (False, w\<lparr>uw_pool := pool\<rparr>)
      | (True, pool) \<Rightarrow>
          (case reserve_upload_paths options (uw_files w) pool of
             None \<Rightarrow> None
           | Some ((final_path, part_path, file_name), pool1) \<Rightarrow>
               Some (True, w\<lparr>uw_pool := pool1,
                 uw_sessions := uw_sessions w @ [session_start (options\<lparr>uo_file_name := file_name\<rparr>) final_path part_path]\<rparr>)))"

definition put_session :: "nat \<Rightarrow> upload_session \<Rightarrow> upload_world \<Rightarrow> upload_world" where
  "put_session i s w = w\<lparr>uw_sessions := (uw_sessions w)[i := s]\<rparr>"

datatype upload_op = U_create upload_options | U_append nat string | U_high nat | U_finish nat | U_cancel nat
  | U_worker nat file_outcome

fun op_index :: "upload_op \<Rightarrow> nat option" where
  "op_index (U_create options) = None"
| "op_index (U_append i data) = Some i"
| "op_index (U_high i) = Some i"
| "op_index (U_finish i) = Some i"
| "op_index (U_cancel i) = Some i"
| "op_index (U_worker i out) = Some i"

text \<open>One step of an operation on a session: what it returns, the session, the pool and the files after it.\<close>

fun session_step :: "upload_op \<Rightarrow> upload_session \<Rightarrow> upload_pool \<Rightarrow> files \<Rightarrow>
    (bool \<times> upload_session \<times> upload_pool \<times> files) option" where
  "session_step (U_append i data) s pool files =
     map_option (\<lambda>(ok, s1, pool1). (ok, s1, pool1, files)) (session_append data s pool)"
| "session_step (U_high i) s pool files = Some (True, call_high s, pool, files)"
| "session_step (U_finish i) s pool files = Some (True, session_finish s, pool, files)"
| "session_step (U_cancel i) s pool files = Some (True, session_cancel s, pool, files)"
| "session_step (U_worker i out) s pool files = Some (True, worker_step out s pool files)"
| "session_step (U_create options) s pool files = Some (True, s, pool, files)"

definition upload_step :: "upload_op \<Rightarrow> upload_world \<Rightarrow> (bool \<times> upload_world) option" where
  "upload_step op w =
     (case op of
        U_create options \<Rightarrow> create_session options w
      | _ \<Rightarrow>
          let i = the (op_index op)
          in if length (uw_sessions w) \<le> i then Some (False, w)
             else case session_step op (uw_sessions w ! i) (uw_pool w) (uw_files w) of
                    None \<Rightarrow> None
                  | Some (ok, s, pool, files) \<Rightarrow>
                      Some (ok, put_session i s (w\<lparr>uw_pool := pool, uw_files := files\<rparr>)))"

end
