(* ===== verification/Upload_Session_Laws.thy ===== *)
theory Upload_Session_Laws
  imports Upload_Writer
begin

text \<open>
  What a call of a network thread on an upload session keeps: the blocks, the accounting of the pool and
  the place of every accepted byte.
\<close>

subsection \<open>Blocks\<close>

definition block_capacity :: "upload_session \<Rightarrow> nat" where
  "block_capacity s = max (uo_block_size (us_options s)) 1"

definition pending_bytes :: "upload_session \<Rightarrow> string" where
  "pending_bytes s = (case us_pending s of None \<Rightarrow> [] | Some b \<Rightarrow> ub_data b)"

definition waiting_bytes :: "upload_session \<Rightarrow> string" where
  "waiting_bytes s = concat (map ub_data (us_ready s)) @ pending_bytes s"

definition blocks_wf :: "upload_session \<Rightarrow> bool" where
  "blocks_wf s \<longleftrightarrow>
     (\<forall>b\<in>set (us_ready s). ub_data b \<noteq> [] \<and> length (ub_data b) \<le> ub_capacity b \<and> ub_capacity b = block_capacity s) \<and>
     (\<forall>b\<in>set (us_free s). ub_capacity b = block_capacity s) \<and>
     (\<forall>b. us_pending s = Some b \<longrightarrow>
        ub_data b \<noteq> [] \<and> length (ub_data b) < ub_capacity b \<and> ub_capacity b = block_capacity s)"

definition cache_only :: "upload_pool \<Rightarrow> upload_pool \<Rightarrow> bool" where
  "cache_only pool pool1 \<longleftrightarrow> up_queued pool1 = up_queued pool \<and> up_options pool1 = up_options pool \<and>
    up_active pool1 = up_active pool \<and> up_reserved pool1 = up_reserved pool \<and> up_next_part pool1 = up_next_part pool \<and>
    up_completed pool1 = up_completed pool \<and> up_failed pool1 = up_failed pool \<and> up_canceled pool1 = up_canceled pool"

lemma cache_only_refl [simp]: "cache_only pool pool"
  by (simp add: cache_only_def)

lemma cache_only_trans: "cache_only a b \<Longrightarrow> cache_only b c \<Longrightarrow> cache_only a c"
  by (simp add: cache_only_def)

lemma acquire_cached_pool_block_only:
  "acquire_cached_pool_block c pool = (b, pool1) \<Longrightarrow>
    cache_only pool pool1 \<and> (\<forall>x. b = Some x \<longrightarrow> ub_data x = [] \<and> ub_capacity x = c)"
  by (auto simp: acquire_cached_pool_block_def cache_only_def index_of_Some split: option.splits)

lemma cache_pool_block_only: "cache_only pool (cache_pool_block b pool)"
  by (simp add: cache_pool_block_def cache_only_def)

text \<open>The session after a call that only fills blocks.\<close>

definition filled :: "upload_session \<Rightarrow> upload_session \<Rightarrow> bool" where
  "filled s t \<longleftrightarrow> us_options t = us_options s \<and> us_final_path t = us_final_path s \<and> us_part_path t = us_part_path s \<and>
    us_finished t = us_finished s \<and> us_canceled t = us_canceled s \<and> us_failed t = us_failed s \<and>
    us_worker_done t = us_worker_done s \<and> us_above t = us_above s \<and> us_written t = us_written s \<and>
    us_message t = us_message s \<and> us_phase t = us_phase s \<and> us_ok t = us_ok s \<and> us_error t = us_error s \<and>
    us_open t = us_open s \<and> us_block t = us_block s \<and> us_stop t = us_stop s \<and> us_result t = us_result s \<and>
    us_high_owed t = us_high_owed s \<and> us_events t = us_events s"

lemma filled_refl [simp]: "filled s s"
  by (simp add: filled_def)

lemma filled_trans: "filled s t \<Longrightarrow> filled t u \<Longrightarrow> filled s u"
  by (simp add: filled_def)

lemma block_capacity_filled: "filled s t \<Longrightarrow> block_capacity t = block_capacity s"
  by (simp add: filled_def block_capacity_def)

lemma acquire_block_free:
  assumes "\<forall>b\<in>set (us_free s). ub_capacity b = block_capacity s" and "acquire_block s pool = (b, t, pool1)"
  shows "filled s t" and "cache_only pool pool1" and "ub_data b = []" and "ub_capacity b = block_capacity s"
    and "us_ready t = us_ready s" and "us_queued t = us_queued s" and "set (us_free t) \<subseteq> set (us_free s)"
  using assms
  by (auto simp: acquire_block_def filled_def Let_def in_set_butlastD block_capacity_def
      split: if_splits option.splits prod.splits dest: acquire_cached_pool_block_only)

lemma take_pending_block:
  assumes "blocks_wf s" and "take_pending s pool = (b, t, pool1)"
  shows "filled s t \<and> cache_only pool pool1 \<and> ub_data b = pending_bytes s \<and> ub_capacity b = block_capacity s \<and>
    length (ub_data b) < ub_capacity b \<and> us_ready t = us_ready s \<and> us_queued t = us_queued s \<and>
    set (us_free t) \<subseteq> set (us_free s)"
proof (cases "us_pending s")
  case (Some x)
  then show ?thesis using assms by (auto simp: take_pending_def blocks_wf_def pending_bytes_def)
next
  case None
  then have a: "acquire_block s pool = (b, t, pool1)" using assms(2) by (simp add: take_pending_def)
  have f: "\<forall>b\<in>set (us_free s). ub_capacity b = block_capacity s" using assms(1) by (simp add: blocks_wf_def)
  have "0 < block_capacity s" by (simp add: block_capacity_def)
  then show ?thesis using acquire_block_free [OF f a] None by (simp add: pending_bytes_def)
qed

lemma store_bytes_total:
  assumes "blocks_wf s"
  shows "\<exists>t pool1. store_bytes r s pool = Some (t, pool1) \<and> filled s t \<and> cache_only pool pool1 \<and> blocks_wf t \<and>
    waiting_bytes t = waiting_bytes s @ r \<and> us_queued t = us_queued s + length r"
  using assms
proof (induction "length r" arbitrary: r s pool rule: less_induct)
  case less
  show ?case
  proof (cases "r = []")
    case True
    then show ?thesis using less.prems by (simp add: store_bytes.simps)
  next
    case False
    obtain b s1 pool1 where take: "take_pending s pool = (b, s1, pool1)" by (cases "take_pending s pool")
    note b = take_pending_block [OF less.prems take]
    define n where "n = min (length r) (ub_capacity b - length (ub_data b))"
    have n: "0 < n" "n \<le> length r" "length (ub_data b) + n \<le> ub_capacity b"
      using b False by (auto simp: n_def)
    define b1 where "b1 = b\<lparr>ub_data := ub_data b @ take n r\<rparr>"
    define s2 where "s2 = s1\<lparr>us_pending := Some b1, us_queued := us_queued s1 + n\<rparr>"
    define s3 where "s3 = (if length (ub_data b1) = ub_capacity b1 then flush_pending_block s2 else s2)"
    have b1: "ub_data b1 \<noteq> []" "length (ub_data b1) \<le> ub_capacity b1" "ub_capacity b1 = block_capacity s"
      using n b False by (auto simp: b1_def)
    have fill: "filled s s3"
      using b by (auto simp: s3_def s2_def filled_def flush_pending_block_def)
    have wait: "waiting_bytes s3 = waiting_bytes s @ take n r"
      using b b1 by (auto simp: s3_def s2_def waiting_bytes_def pending_bytes_def flush_pending_block_def b1_def)
    have queue: "us_queued s3 = us_queued s + n"
      using b by (auto simp: s3_def s2_def flush_pending_block_def)
    have "blocks_wf s3"
      using b b1 less.prems n wait block_capacity_filled [OF fill]
      by (auto simp: blocks_wf_def s3_def s2_def flush_pending_block_def)
    moreover have "length (drop n r) < length r" using n by simp
    ultimately obtain t pool2 where
      "store_bytes (drop n r) s3 pool1 = Some (t, pool2)" "filled s3 t" "cache_only pool1 pool2" "blocks_wf t"
      "waiting_bytes t = waiting_bytes s3 @ drop n r" "us_queued t = us_queued s3 + length (drop n r)"
      using less.hyps by blast
    moreover have "store_bytes r s pool = store_bytes (drop n r) s3 pool1"
      using False take n(1) by (simp add: store_bytes.simps [of r s pool] n_def b1_def s2_def s3_def Let_def)
    ultimately show ?thesis
      using fill wait queue n b filled_trans [of s s3 t] cache_only_trans [of pool pool1 pool2] by simp
  qed
qed

subsection \<open>A session\<close>

definition good :: "upload_session \<Rightarrow> bool" where
  "good s \<longleftrightarrow> us_ok s \<and> \<not> us_canceled s \<and> \<not> us_failed s"

definition writing :: "upload_session \<Rightarrow> bool" where
  "writing s \<longleftrightarrow> us_phase s \<in> {Ph_low, Ph_write, Ph_wrote}"

definition in_loop :: "upload_session \<Rightarrow> bool" where
  "in_loop s \<longleftrightarrow> us_phase s \<in> {Ph_open, Ph_wait, Ph_low, Ph_write, Ph_wrote}"

definition session_wf :: "upload_session \<Rightarrow> bool" where
  "session_wf s \<longleftrightarrow> blocks_wf s \<and> (us_failed s \<longrightarrow> us_finished s) \<and> (us_canceled s \<longrightarrow> us_finished s) \<and>
     (us_finished s \<and> \<not> us_canceled s \<and> \<not> us_failed s \<longrightarrow> us_pending s = None) \<and>
     (writing s \<longrightarrow> length (ub_data (us_block s)) \<le> block_capacity s \<and> ub_capacity (us_block s) = block_capacity s) \<and>
     (in_loop s \<longrightarrow> us_queued s = length (waiting_bytes s)) \<and>
     (\<not> in_loop s \<and> us_ok s \<longrightarrow> us_finished s \<and> us_queued s = 0) \<and>
     (us_phase s \<in> {Ph_close, Ph_status} \<and> good s \<longrightarrow> us_ready s = []) \<and>
     (us_phase s \<in> {Ph_release, Ph_unreserve, Ph_retire, Ph_flag, Ph_end} \<and> ur_ok (us_result s) \<longrightarrow> us_ok s) \<and>
     (us_phase s = Ph_publish \<and> \<not> us_stop s \<longrightarrow> us_ok s) \<and>
     (us_phase s = Ph_open \<longrightarrow> us_ok s)"

text \<open>The bytes of a successful upload, wherever they are: on disk, in the hands of the worker, waiting.\<close>

definition in_flight :: "upload_session \<Rightarrow> string" where
  "in_flight s = (if us_phase s \<in> {Ph_low, Ph_write} then ub_data (us_block s) else [])"

definition size_bound :: "upload_session \<Rightarrow> nat" where
  "size_bound s = uo_max_size (us_options s) + block_capacity s"

definition on_disk :: "upload_session \<Rightarrow> files \<Rightarrow> string option" where
  "on_disk s files = (if us_phase s = Ph_open then Some [] else map_of files (us_part_path s))"

definition written_count :: "upload_session \<Rightarrow> nat" where
  "written_count s = us_written s + (if us_phase s = Ph_wrote then length (ub_data (us_block s)) else 0)"

definition content :: "upload_session \<Rightarrow> string \<Rightarrow> files \<Rightarrow> bool" where
  "content s a files \<longleftrightarrow>
     ((in_loop s \<or> us_phase s \<in> {Ph_close, Ph_status}) \<and> good s \<longrightarrow>
        (\<exists>c. on_disk s files = Some c \<and> a = c @ in_flight s @ waiting_bytes s \<and> length c = written_count s \<and>
             length a \<le> size_bound s)) \<and>
     (us_phase s = Ph_publish \<and> \<not> us_stop s \<longrightarrow>
        map_of files (us_part_path s) = Some a \<and> ur_bytes (us_result s) = length a \<and> length a \<le> size_bound s) \<and>
     (us_phase s \<in> {Ph_release, Ph_unreserve} \<and> ur_ok (us_result s) \<longrightarrow>
        map_of files (us_final_path s) = Some a \<and> ur_bytes (us_result s) = length a \<and> length a \<le> size_bound s)"

lemma map_of_file_put [simp]: "map_of (file_put p c files) q = (if q = p then Some c else map_of files q)"
proof -
  have "map_of (filter (\<lambda>(x, y). x \<noteq> p) files) q = map_of files q" if "q \<noteq> p"
    using that by (induction files) auto
  then show ?thesis by (simp add: file_put_def)
qed

lemma map_of_file_remove [simp]: "map_of (file_remove p files) q = (if q = p then None else map_of files q)"
  unfolding file_remove_def by (induction files) auto

lemma waiting_bytes_flush [simp]: "waiting_bytes (flush_pending_block s) = waiting_bytes s"
  by (auto simp: flush_pending_block_def waiting_bytes_def pending_bytes_def split: option.split)

lemma flush_filled: "filled s (flush_pending_block s)" and flush_queued [simp]: "us_queued (flush_pending_block s) = us_queued s"
  by (auto simp: flush_pending_block_def filled_def split: option.split)

lemma flush_blocks: "blocks_wf s \<Longrightarrow> blocks_wf (flush_pending_block s) \<and> us_pending (flush_pending_block s) = None"
  by (auto simp: flush_pending_block_def blocks_wf_def block_capacity_def split: option.split)

text \<open>What a step on a session keeps: the pool's accounting of it and every file that is not its own.\<close>

definition pool_keeps :: "upload_session \<Rightarrow> upload_pool \<Rightarrow> upload_session \<Rightarrow> upload_pool \<Rightarrow> bool" where
  "pool_keeps s pool t pool1 \<longleftrightarrow>
     up_queued pool1 + us_queued s = up_queued pool + us_queued t \<and> up_options pool1 = up_options pool \<and>
     us_options t = us_options s \<and> us_final_path t = us_final_path s \<and> us_part_path t = us_part_path s \<and>
     up_next_part pool1 = up_next_part pool \<and> (us_queued t \<le> us_queued s \<or> up_queued pool1 \<le> po_max_queued (up_options pool))"

lemma cache_only_keeps:
  "cache_only pool pool1 \<Longrightarrow> us_queued t = us_queued s \<Longrightarrow> us_options t = us_options s \<Longrightarrow>
   us_final_path t = us_final_path s \<Longrightarrow> us_part_path t = us_part_path s \<Longrightarrow> pool_keeps s pool t pool1"
  by (simp add: cache_only_def pool_keeps_def)

lemma fail_session_keeps:
  assumes "session_wf s" and "content s a files"
  shows "session_wf (fail_session m s) \<and> content (fail_session m s) a files"
proof (cases "us_finished s \<or> us_canceled s \<or> us_failed s")
  case True
  then show ?thesis using assms by (simp add: fail_session_def)
next
  case False
  let ?t = "s\<lparr>us_failed := True, us_finished := True, us_message := m\<rparr>"
  have t: "fail_session m s = ?t" using False by (simp add: fail_session_def)
  have views: "blocks_wf ?t = blocks_wf s" "waiting_bytes ?t = waiting_bytes s" "block_capacity ?t = block_capacity s"
    "writing ?t = writing s" "in_loop ?t = in_loop s" "\<not> good ?t" "size_bound ?t = size_bound s"
    by (simp_all add: blocks_wf_def waiting_bytes_def pending_bytes_def block_capacity_def writing_def in_loop_def
        good_def size_bound_def)
  show ?thesis unfolding t using assms by (simp add: session_wf_def content_def views)
qed

lemma filled_views:
  assumes "filled s t"
  shows "good t = good s" "in_loop t = in_loop s" "writing t = writing s" "in_flight t = in_flight s"
    "size_bound t = size_bound s" "on_disk t files = on_disk s files" "written_count t = written_count s"
    "block_capacity t = block_capacity s"
  using assms by (simp_all add: filled_def good_def in_loop_def writing_def in_flight_def size_bound_def on_disk_def
      written_count_def block_capacity_def)

text \<open>The outcomes of \<open>append\<close>: it accepts all of the data, or it keeps the session or fails it.\<close>

lemma session_append_cases:
  assumes "session_wf s"
  shows "(\<exists>t. session_append data s pool = Some (data = [], t, pool) \<and> (t = s \<or> (\<exists>m. t = fail_session m s))) \<or>
    (data \<noteq> [] \<and> \<not> us_finished s \<and> us_written s + us_queued s + length data \<le> uo_max_size (us_options s) \<and>
     up_queued pool + length data \<le> po_max_queued (up_options pool) \<and>
     (\<exists>u pool1 b n. session_append data s pool = Some (True, u\<lparr>us_above := b, us_high_owed := n\<rparr>, pool1) \<and> filled s u \<and>
        cache_only (pool\<lparr>up_queued := up_queued pool + length data\<rparr>) pool1 \<and> blocks_wf u \<and>
        waiting_bytes u = waiting_bytes s @ data \<and> us_queued u = us_queued s + length data))"
proof (cases "data = [] \<or> us_finished s \<or> us_canceled s \<or> us_failed s \<or> us_worker_done s \<or>
    uo_max_size (us_options s) < length data \<or> uo_max_size (us_options s) - length data < us_written s + us_queued s \<or>
    \<not> fst (try_reserve_queued (length data) pool)")
  case True
  then show ?thesis by (auto simp: session_append_def try_reserve_queued_def)
next
  case False
  let ?p = "pool\<lparr>up_queued := up_queued pool + length data\<rparr>"
  have reserve: "try_reserve_queued (length data) pool = (True, ?p)"
    "up_queued pool + length data \<le> po_max_queued (up_options pool)"
    using False by (auto simp: try_reserve_queued_def split: if_splits)
  have "blocks_wf s" using assms by (simp add: session_wf_def)
  then obtain u pool1 where store: "store_bytes data s ?p = Some (u, pool1)" "filled s u" "cache_only ?p pool1"
    "blocks_wf u" "waiting_bytes u = waiting_bytes s @ data" "us_queued u = us_queued s + length data"
    using store_bytes_total by blast
  have same: "u = u\<lparr>us_above := us_above u, us_high_owed := us_high_owed u\<rparr>" by simp
  have "\<exists>b n. session_append data s pool = Some (True, u\<lparr>us_above := b, us_high_owed := n\<rparr>, pool1)"
  proof (cases "\<not> us_above u \<and> uo_high_watermark (us_options u) \<le> us_queued u")
    case True
    then show ?thesis using False reserve store(1) by (auto simp: session_append_def)
  next
    case False
    then have "session_append data s pool = Some (True, u, pool1)"
      using \<open>\<not> (data = [] \<or> _)\<close> reserve store(1) by (auto simp: session_append_def)
    then show ?thesis using same by metis
  qed
  then show ?thesis using False reserve(2) store(2-) by auto
qed

lemma session_append_total: "session_wf s \<Longrightarrow> \<exists>r. session_append data s pool = Some r"
  using session_append_cases [of s data pool] by auto

lemma session_wfD:
  assumes "session_wf s"
  shows session_blocks: "blocks_wf s" and session_failed: "us_failed s \<Longrightarrow> us_finished s"
    and session_canceled: "us_canceled s \<Longrightarrow> us_finished s"
    and session_flushed: "us_finished s \<Longrightarrow> \<not> us_canceled s \<Longrightarrow> \<not> us_failed s \<Longrightarrow> us_pending s = None"
    and session_block: "writing s \<Longrightarrow> length (ub_data (us_block s)) \<le> block_capacity s \<and> ub_capacity (us_block s) = block_capacity s"
    and session_queued: "in_loop s \<Longrightarrow> us_queued s = length (waiting_bytes s)"
    and session_left: "\<not> in_loop s \<Longrightarrow> us_ok s \<Longrightarrow> us_finished s \<and> us_queued s = 0"
    and session_closing: "us_phase s \<in> {Ph_close, Ph_status} \<Longrightarrow> good s \<Longrightarrow> us_ready s = []"
    and session_ended: "us_phase s \<in> {Ph_release, Ph_unreserve, Ph_retire, Ph_flag, Ph_end} \<Longrightarrow> ur_ok (us_result s) \<Longrightarrow> us_ok s"
    and session_publish: "us_phase s = Ph_publish \<Longrightarrow> \<not> us_stop s \<Longrightarrow> us_ok s"
    and session_open: "us_phase s = Ph_open \<Longrightarrow> us_ok s"
  using assms unfolding session_wf_def by blast+

lemma session_append_accepts:
  assumes "session_wf s" and "content s a files" and "\<not> us_finished s"
    and "us_written s + us_queued s + length data \<le> uo_max_size (us_options s)"
    and "filled s u" and "blocks_wf u" and "waiting_bytes u = waiting_bytes s @ data"
    and "us_queued u = us_queued s + length data"
  shows "session_wf (u\<lparr>us_above := b, us_high_owed := n\<rparr>) \<and> content (u\<lparr>us_above := b, us_high_owed := n\<rparr>) (a @ data) files"
proof -
  let ?t = "u\<lparr>us_above := b, us_high_owed := n\<rparr>"
  have same: "waiting_bytes ?t = waiting_bytes u" "good ?t = good u" "in_loop ?t = in_loop u" "writing ?t = writing u"
    "in_flight ?t = in_flight u" "size_bound ?t = size_bound u" "on_disk ?t files = on_disk u files"
    "written_count ?t = written_count u" "block_capacity ?t = block_capacity u" "blocks_wf ?t = blocks_wf u"
    by (simp_all add: good_def in_loop_def writing_def in_flight_def size_bound_def on_disk_def written_count_def
        block_capacity_def waiting_bytes_def pending_bytes_def blocks_wf_def)
  note views = same filled_views [OF assms(5)] assms(6,7)
  have f: "us_finished u = us_finished s" "us_canceled u = us_canceled s" "us_failed u = us_failed s" "us_ok u = us_ok s"
    "us_phase u = us_phase s" "us_block u = us_block s" "us_result u = us_result s" "us_stop u = us_stop s"
    "us_options u = us_options s" "us_final_path u = us_final_path s" "us_part_path u = us_part_path s"
    using assms(5) by (simp_all add: filled_def)
  have loop: "us_ok s \<Longrightarrow> in_loop s" using session_left [OF assms(1)] assms(3) by blast
  have late: "\<not> (us_phase s = Ph_publish \<and> \<not> us_stop s)" "\<not> (us_phase s \<in> {Ph_close, Ph_status} \<and> good s)"
      "\<not> (us_phase s \<in> {Ph_release, Ph_unreserve} \<and> ur_ok (us_result s))"
      using loop session_publish [OF assms(1)] session_ended [OF assms(1)] unfolding in_loop_def good_def by fastforce+
  have "session_wf ?t"
    using session_wfD [OF assms(1)] assms(3,8) loop views f late(2)
    unfolding session_wf_def by (intro conjI impI) (simp_all add: same)
  moreover have "content ?t (a @ data) files"
  proof -
    have part: "\<exists>c. on_disk s files = Some c \<and> a = c @ in_flight s @ waiting_bytes s \<and> length c = written_count s \<and>
        length (a @ data) \<le> size_bound s" if g: "in_loop s" "good s"
    proof -
      obtain c where c: "on_disk s files = Some c" "a = c @ in_flight s @ waiting_bytes s" "length c = written_count s"
        using assms(2) g by (auto simp: content_def)
      have "length a \<le> us_written s + us_queued s + block_capacity s"
        using session_queued [OF assms(1) g(1)] session_block [OF assms(1)] c(2,3)
        by (auto simp: in_flight_def written_count_def writing_def)
      then show ?thesis using c assms(4) by (simp add: size_bound_def)
    qed
    show ?thesis
      unfolding content_def using late part by (auto simp: views f)
  qed
  ultimately show ?thesis by simp
qed

lemma session_append_keeps:
  assumes "session_wf s" and "content s a files" and "session_append data s pool = Some (ok, t, pool1)"
  shows "session_wf t \<and> content t (a @ (if ok then data else [])) files \<and> pool_keeps s pool t pool1 \<and>
    us_phase t = us_phase s \<and> us_result t = us_result s \<and>
    up_reserved pool1 = up_reserved pool \<and> up_active pool1 = up_active pool \<and>
    up_completed pool1 = up_completed pool \<and> up_failed pool1 = up_failed pool \<and> up_canceled pool1 = up_canceled pool"
  using session_append_cases [OF assms(1), of data pool]
proof (rule disjE, goal_cases)
  case 1
  then obtain u where "session_append data s pool = Some (data = [], u, pool)"
    and u: "u = s \<or> (\<exists>m. u = fail_session m s)" by blast
  then have "t = u" "pool1 = pool" "ok = (data = [])" using assms(3) by simp_all
  then show ?thesis
    using u assms(1,2) fail_session_keeps [OF assms(1,2)] by (auto simp: pool_keeps_def fail_session_def)
next
  case 2
  then obtain u p1 b n where fin: "\<not> us_finished s" and lim: "us_written s + us_queued s + length data \<le> uo_max_size (us_options s)"
    and room: "up_queued pool + length data \<le> po_max_queued (up_options pool)"
    and run: "session_append data s pool = Some (True, u\<lparr>us_above := b, us_high_owed := n\<rparr>, p1)"
    and u: "filled s u" "cache_only (pool\<lparr>up_queued := up_queued pool + length data\<rparr>) p1" "blocks_wf u"
      "waiting_bytes u = waiting_bytes s @ data" "us_queued u = us_queued s + length data"
    by blast
  have "ok" "t = u\<lparr>us_above := b, us_high_owed := n\<rparr>" "pool1 = p1" using assms(3) run by simp_all
  then show ?thesis
    using session_append_accepts [OF assms(1,2) fin lim u(1,3-5), where b = b and n = n] u room
    by (simp add: pool_keeps_def cache_only_def filled_def)
qed

definition unretired :: "upload_session \<Rightarrow> bool" where
  "unretired s \<longleftrightarrow> us_phase s \<notin> {Ph_flag, Ph_end}"

definition holds_path :: "upload_session \<Rightarrow> bool" where
  "holds_path s \<longleftrightarrow> us_phase s \<notin> {Ph_retire, Ph_flag, Ph_end}"

definition ledger_keeps :: "upload_session \<Rightarrow> upload_pool \<Rightarrow> upload_session \<Rightarrow> upload_pool \<Rightarrow> bool" where
  "ledger_keeps s pool t pool1 \<longleftrightarrow>
     up_reserved pool1 = (if holds_path s \<and> \<not> holds_path t then removeAll (us_final_path s) (up_reserved pool)
       else up_reserved pool) \<and>
     (holds_path t \<longrightarrow> holds_path s) \<and> (unretired t \<longrightarrow> unretired s) \<and>
     (let retire = unretired s \<and> \<not> unretired t; r = us_result s; one = (\<lambda>b. if retire \<and> b then 1 else 0)
      in up_active pool1 = up_active pool - one True \<and>
         up_canceled pool1 = up_canceled pool + one (ur_canceled r) \<and>
         up_completed pool1 = up_completed pool + one (\<not> ur_canceled r \<and> ur_ok r) \<and>
         up_failed pool1 = up_failed pool + one (\<not> ur_canceled r \<and> \<not> ur_ok r)) \<and>
     (\<not> unretired s \<or> \<not> unretired t \<longrightarrow> us_result t = us_result s)"

definition step_keeps :: "upload_session \<Rightarrow> string \<Rightarrow> upload_pool \<Rightarrow> files \<Rightarrow>
    upload_session \<Rightarrow> string \<Rightarrow> upload_pool \<Rightarrow> files \<Rightarrow> bool" where
  "step_keeps s a pool files t a1 pool1 files1 \<longleftrightarrow>
     session_wf t \<and> content t a1 files1 \<and> pool_keeps s pool t pool1 \<and> ledger_keeps s pool t pool1 \<and>
     (\<forall>p. p \<noteq> us_part_path s \<and> (p \<noteq> us_final_path s \<or> \<not> holds_path s) \<longrightarrow> map_of files1 p = map_of files p)"

text \<open>A step that leaves the phase, the result, the pool and the files alone.\<close>

lemma step_keeps_quiet:
  assumes "session_wf t" and "content t a files" and "us_queued t = us_queued s" and "us_options t = us_options s"
    and "us_final_path t = us_final_path s" and "us_part_path t = us_part_path s" and "us_phase t = us_phase s"
    and "us_result t = us_result s"
  shows "step_keeps s a pool files t a pool files"
proof -
  have "holds_path t = holds_path s" "unretired t = unretired s" using assms by (simp_all add: holds_path_def unretired_def)
  then show ?thesis using assms by (simp add: step_keeps_def pool_keeps_def ledger_keeps_def)
qed

lemma call_high_keeps:
  assumes "session_wf s" and "content s a files"
  shows "step_keeps s a pool files (call_high s) a pool files"
proof (rule step_keeps_quiet)
  let ?t = "call_high s"
  have views: "blocks_wf ?t = blocks_wf s" "waiting_bytes ?t = waiting_bytes s" "block_capacity ?t = block_capacity s"
    "writing ?t = writing s" "in_loop ?t = in_loop s" "good ?t = good s" "size_bound ?t = size_bound s"
    "on_disk ?t files = on_disk s files" "written_count ?t = written_count s" "in_flight ?t = in_flight s"
    by (simp_all add: call_high_def blocks_wf_def waiting_bytes_def pending_bytes_def block_capacity_def writing_def
        in_loop_def good_def size_bound_def on_disk_def written_count_def in_flight_def)
  have f: "us_finished ?t = us_finished s" "us_canceled ?t = us_canceled s" "us_failed ?t = us_failed s"
    "us_ok ?t = us_ok s" "us_phase ?t = us_phase s" "us_block ?t = us_block s" "us_result ?t = us_result s"
    "us_stop ?t = us_stop s" "us_options ?t = us_options s" "us_final_path ?t = us_final_path s"
    "us_part_path ?t = us_part_path s" "us_pending ?t = us_pending s" "us_ready ?t = us_ready s"
    "us_queued ?t = us_queued s"
    by (simp_all add: call_high_def)
  show "session_wf ?t" "content ?t a files" using assms unfolding session_wf_def content_def by (simp_all add: views f)
qed (simp_all add: call_high_def)

lemma session_finish_keeps:
  assumes "session_wf s" and "content s a files"
  shows "step_keeps s a pool files (session_finish s) a pool files"
proof (cases "us_canceled s \<or> us_failed s")
  case True
  then have "session_finish s = s" by (simp add: session_finish_def)
  then show ?thesis using assms by (auto intro: step_keeps_quiet)
next
  case False
  let ?u = "flush_pending_block s"
  let ?t = "?u\<lparr>us_finished := True\<rparr>"
  have u: "filled s ?u" "blocks_wf ?u" "us_pending ?u = None"
    using flush_filled flush_blocks [OF session_blocks [OF assms(1)]] by blast+
  have same: "waiting_bytes ?t = waiting_bytes ?u" "good ?t = good ?u" "in_loop ?t = in_loop ?u" "writing ?t = writing ?u"
    "in_flight ?t = in_flight ?u" "size_bound ?t = size_bound ?u" "on_disk ?t files = on_disk ?u files"
    "written_count ?t = written_count ?u" "block_capacity ?t = block_capacity ?u" "blocks_wf ?t = blocks_wf ?u"
    by (simp_all add: good_def in_loop_def writing_def in_flight_def size_bound_def on_disk_def written_count_def
        block_capacity_def waiting_bytes_def pending_bytes_def blocks_wf_def)
  note views = same filled_views [OF u(1)]
  have f: "us_canceled ?u = us_canceled s" "us_failed ?u = us_failed s" "us_ok ?u = us_ok s"
    "us_phase ?u = us_phase s" "us_block ?u = us_block s" "us_result ?u = us_result s" "us_stop ?u = us_stop s"
    "us_options ?u = us_options s" "us_final_path ?u = us_final_path s" "us_part_path ?u = us_part_path s"
    using u(1) by (simp_all add: filled_def)
  have ready: "us_phase s \<in> {Ph_close, Ph_status} \<and> good s \<Longrightarrow> us_ready ?u = []"
    using session_closing [OF assms(1)] session_left [OF assms(1)] session_flushed [OF assms(1)] False
    by (auto simp: in_loop_def good_def flush_pending_block_def)
  have "session_wf ?t"
    using session_wfD [OF assms(1)] ready u False
    unfolding session_wf_def by (intro conjI impI) (simp_all add: views f)
  moreover have "content ?t a files"
    using assms(2) unfolding content_def by (simp add: views f)
  moreover have "session_finish s = ?t" using False by (simp add: session_finish_def)
  ultimately show ?thesis using f by (auto intro!: step_keeps_quiet)
qed

lemma session_cancel_keeps:
  assumes "session_wf s" and "content s a files"
  shows "step_keeps s a pool files (session_cancel s) a pool files"
proof (cases "us_worker_done s")
  case True
  then have "session_cancel s = s" by (simp add: session_cancel_def)
  then show ?thesis using assms by (auto intro: step_keeps_quiet)
next
  case False
  let ?t = "s\<lparr>us_canceled := True, us_finished := True\<rparr>"
  have views: "waiting_bytes ?t = waiting_bytes s" "\<not> good ?t" "in_loop ?t = in_loop s" "writing ?t = writing s"
    "size_bound ?t = size_bound s" "block_capacity ?t = block_capacity s" "blocks_wf ?t = blocks_wf s"
    by (simp_all add: good_def in_loop_def writing_def size_bound_def
        block_capacity_def waiting_bytes_def pending_bytes_def blocks_wf_def)
  have "session_wf ?t"
    using session_wfD [OF assms(1)] unfolding session_wf_def by (intro conjI impI) (simp_all add: views)
  moreover have "content ?t a files" using assms(2) unfolding content_def by (simp add: views)
  moreover have "session_cancel s = ?t" using False by (simp add: session_cancel_def)
  ultimately show ?thesis by (auto intro!: step_keeps_quiet)
qed

end
