(* ===== verification/Upload_Worker_Laws.thy ===== *)
theory Upload_Worker_Laws
  imports Upload_Session_Laws
begin

text \<open>What a step of the worker of an upload session keeps.\<close>

lemma ledger_keeps_early:
  assumes "holds_path s" and "holds_path t" and "up_reserved pool1 = up_reserved pool" and "up_active pool1 = up_active pool"
    and "up_canceled pool1 = up_canceled pool" and "up_completed pool1 = up_completed pool" and "up_failed pool1 = up_failed pool"
  shows "ledger_keeps s pool t pool1"
proof -
  have "unretired s" "unretired t" using assms(1,2) by (auto simp: holds_path_def unretired_def)
  then show ?thesis using assms by (simp add: ledger_keeps_def)
qed

lemma worker_open_keeps:
  assumes "session_wf s" and "content s a files" and "us_phase s = Ph_open" and "worker_open out s files = (t, files1)"
    and "us_part_path s \<noteq> us_final_path s"
  shows "step_keeps s a pool files t a pool files1"
proof -
  have t: "us_ready t = us_ready s" "us_free t = us_free s" "us_pending t = us_pending s" "us_options t = us_options s"
    "us_queued t = us_queued s" "us_final_path t = us_final_path s" "us_part_path t = us_part_path s"
    "us_finished t = us_finished s" "us_canceled t = us_canceled s" "us_failed t = us_failed s"
    "us_written t = us_written s" "us_phase t = Ph_wait"
    using assms(4) by (auto simp: worker_open_def split: if_splits)
  have views: "blocks_wf t = blocks_wf s" "waiting_bytes t = waiting_bytes s" "size_bound t = size_bound s"
    "in_loop s" "in_loop t" "\<not> writing t" "in_flight t = []" "in_flight s = []" "written_count t = us_written s"
    "written_count s = us_written s"
    using t assms(3) by (simp_all add: blocks_wf_def waiting_bytes_def pending_bytes_def size_bound_def block_capacity_def
        in_loop_def writing_def in_flight_def written_count_def)
  have "session_wf t"
    using session_wfD [OF assms(1)] unfolding session_wf_def by (intro conjI impI) (simp_all add: views t)
  moreover have "content t a files1"
  proof (cases "us_ok t")
    case True
    then have "files1 = file_put (us_part_path s) [] files" "us_ok s"
      using assms(4) session_open [OF assms(1,3)] by (auto simp: worker_open_def split: if_splits)
    then show ?thesis
      using assms(2,3) True by (auto simp: content_def t views good_def on_disk_def)
  next
    case False
    then show ?thesis by (simp add: content_def good_def t)
  qed
  moreover have "pool_keeps s pool t pool" using t by (simp add: pool_keeps_def)
  moreover have "ledger_keeps s pool t pool" using t assms(3) by (intro ledger_keeps_early) (simp_all add: holds_path_def)
  ultimately show ?thesis
    using assms(4) by (auto simp: step_keeps_def worker_open_def split: if_splits)
qed

lemma session_wf_in_loop:
  assumes "blocks_wf t" and "in_loop t" and "us_failed t \<Longrightarrow> us_finished t" and "us_canceled t \<Longrightarrow> us_finished t"
    and "us_finished t \<Longrightarrow> \<not> us_canceled t \<Longrightarrow> \<not> us_failed t \<Longrightarrow> us_pending t = None"
    and "writing t \<Longrightarrow> length (ub_data (us_block t)) \<le> block_capacity t \<and> ub_capacity (us_block t) = block_capacity t"
    and "us_queued t = length (waiting_bytes t)" and "us_phase t \<noteq> Ph_open"
  shows "session_wf t"
  using assms unfolding session_wf_def by (simp, auto simp: in_loop_def)

lemma pool_keeps_less:
  assumes "us_queued s = us_queued t + n" and "us_queued s \<le> up_queued pool" and "us_options t = us_options s"
    and "us_final_path t = us_final_path s" and "us_part_path t = us_part_path s"
  shows "pool_keeps s pool t (release_queued n pool)"
  using assms by (simp add: pool_keeps_def release_queued_def)

lemma ledger_release_queued: "holds_path s \<Longrightarrow> holds_path t \<Longrightarrow> ledger_keeps s pool t (release_queued n pool)"
  by (rule ledger_keeps_early) (simp_all add: release_queued_def)

lemma worker_discard_keeps:
  assumes "session_wf s" and "us_phase s = Ph_wait" and "us_canceled s \<or> us_failed s \<or> \<not> us_ok s"
    and "us_queued s \<le> up_queued pool"
  shows "step_keeps s a pool files
    ((fst (discard_ready_blocks s pool))\<lparr>us_block := no_block, us_phase := Ph_close\<rparr>) a
    (snd (discard_ready_blocks s pool)) files"
proof -
  let ?t = "(fst (discard_ready_blocks s pool))\<lparr>us_block := no_block, us_phase := Ph_close\<rparr>"
  have t: "us_ready ?t = []" "us_pending ?t = None" "us_options ?t = us_options s" "us_queued ?t = 0"
    "us_final_path ?t = us_final_path s" "us_part_path ?t = us_part_path s" "us_finished ?t = us_finished s"
    "us_canceled ?t = us_canceled s" "us_failed ?t = us_failed s" "us_ok ?t = us_ok s" "us_phase ?t = Ph_close"
    by (simp_all add: discard_ready_blocks_def)
  have "blocks_wf ?t"
    using session_blocks [OF assms(1)]
    by (auto simp: blocks_wf_def discard_ready_blocks_def clear_block_def block_capacity_def split: option.split)
  moreover have v: "\<not> in_loop ?t" "\<not> writing ?t" "\<not> good ?t"
    using t assms(3) by (auto simp: in_loop_def writing_def good_def)
  ultimately have "session_wf ?t"
    using session_wfD [OF assms(1)] assms(3) unfolding session_wf_def
    by (intro conjI impI) (auto simp: t(1-10) discard_ready_blocks_def)
  moreover have "content ?t a files" using v t by (simp add: content_def)
  moreover have "pool_keeps s pool ?t (snd (discard_ready_blocks s pool))"
    using t assms(4) by (auto simp: discard_ready_blocks_def intro: pool_keeps_less)
  moreover have "ledger_keeps s pool ?t (snd (discard_ready_blocks s pool))"
    using assms(2) by (auto simp: discard_ready_blocks_def holds_path_def intro: ledger_release_queued)
  ultimately show ?thesis by (simp add: step_keeps_def)
qed

lemma worker_take_block:
  assumes "session_wf s" and "content s a files" and "us_phase s = Ph_wait" and "us_ready s = b # bs"
    and "ph = Ph_low \<or> ph = Ph_write" and "us_queued s \<le> up_queued pool"
    and "t = s\<lparr>us_block := b, us_ready := bs, us_queued := us_queued s - length (ub_data b), us_above := abv, us_phase := ph\<rparr>"
  shows "step_keeps s a pool files t a (release_queued (length (ub_data b)) pool) files"
proof -
  have q: "us_queued s = length (waiting_bytes s)" using session_queued [OF assms(1)] assms(3) by (simp add: in_loop_def)
  have w: "waiting_bytes s = ub_data b @ waiting_bytes t"
    using assms(4,7) by (simp add: waiting_bytes_def pending_bytes_def)
  have b: "ub_capacity b = block_capacity s" "length (ub_data b) \<le> block_capacity s"
    using session_blocks [OF assms(1)] assms(4) by (auto simp: blocks_wf_def)
  have f: "us_finished t = us_finished s" "us_canceled t = us_canceled s" "us_failed t = us_failed s"
    "us_pending t = us_pending s" "us_block t = b" "us_phase t = ph" "us_options t = us_options s"
    "us_final_path t = us_final_path s" "us_part_path t = us_part_path s" "us_ok t = us_ok s" "us_ready t = bs"
    "us_free t = us_free s" "us_written t = us_written s" "us_queued t = us_queued s - length (ub_data b)"
    by (simp_all add: assms(7))
  have views: "in_loop t" "writing t" "in_flight t = ub_data b" "written_count t = written_count s" "on_disk t files = on_disk s files"
    using assms(3,5) f(5,6,9,13) unfolding in_loop_def writing_def in_flight_def written_count_def on_disk_def by fastforce+
  have views2: "good t = good s" "block_capacity t = block_capacity s" "in_loop s" "in_flight s = []"
    "size_bound t = size_bound s"
    using assms(3) by (simp_all add: good_def block_capacity_def size_bound_def in_loop_def in_flight_def f)
  have "blocks_wf t"
    using session_blocks [OF assms(1)] assms(4) by (auto simp: blocks_wf_def f views2)
  note views = views views2 this
  have len: "us_queued s = us_queued t + length (ub_data b)" using q w f(14) by simp
  have "session_wf t"
  proof (rule session_wf_in_loop)
    show "us_failed t \<Longrightarrow> us_finished t" "us_canceled t \<Longrightarrow> us_finished t"
      using session_failed [OF assms(1)] session_canceled [OF assms(1)] f by simp_all
    show "us_finished t \<Longrightarrow> \<not> us_canceled t \<Longrightarrow> \<not> us_failed t \<Longrightarrow> us_pending t = None"
      using session_flushed [OF assms(1)] f by simp
    show "length (ub_data (us_block t)) \<le> block_capacity t \<and> ub_capacity (us_block t) = block_capacity t"
      using b f(5) views(7) by simp
    have "length (waiting_bytes s) = length (ub_data b) + length (waiting_bytes t)" by (simp add: w)
    then show "us_queued t = length (waiting_bytes t)" using q len by linarith
    show "us_phase t \<noteq> Ph_open" using assms(5) f(6) by auto
  qed (fact views)+
  moreover have "content t a files" using assms(2,3,5) w f by (auto simp: content_def views)
  moreover have "pool_keeps s pool t (release_queued (length (ub_data b)) pool)"
    using len assms(6) f by (intro pool_keeps_less) simp_all
  moreover have "ledger_keeps s pool t (release_queued (length (ub_data b)) pool)"
    using assms(3,5) f(6) by (intro ledger_release_queued) (auto simp: holds_path_def)
  ultimately show ?thesis by (simp add: step_keeps_def)
qed

lemma worker_take_keeps:
  assumes "session_wf s" and "content s a files" and "us_phase s = Ph_wait" and "worker_take s pool = (t, pool1)"
    and "us_queued s \<le> up_queued pool"
  shows "step_keeps s a pool files t a pool1 files"
proof -
  consider (blocked) "\<not> (us_finished s \<or> us_canceled s \<or> us_failed s \<or> us_ready s \<noteq> [])"
    | (stop) "us_canceled s \<or> us_failed s \<or> \<not> us_ok s" "us_finished s \<or> us_canceled s \<or> us_failed s \<or> us_ready s \<noteq> []"
    | (block) b bs where "\<not> (us_canceled s \<or> us_failed s \<or> \<not> us_ok s)" "us_ready s = b # bs"
    | (done_all) "\<not> (us_canceled s \<or> us_failed s \<or> \<not> us_ok s)" "us_ready s = []" "us_finished s"
    by (cases "us_ready s") auto
  then show ?thesis
  proof cases
    case blocked
    then have "t = s" "pool1 = pool" using assms(4) by (auto simp: worker_take_def)
    then show ?thesis using assms(1,2) by (auto intro: step_keeps_quiet)
  next
    case stop
    then have "t = (fst (discard_ready_blocks s pool))\<lparr>us_block := no_block, us_phase := Ph_close\<rparr>"
      "pool1 = snd (discard_ready_blocks s pool)"
      using assms(4) by (auto simp: worker_take_def case_prod_beta')
    then show ?thesis using worker_discard_keeps [OF assms(1,3) stop(1) assms(5)] by simp
  next
    case block
    have "ub_data b \<noteq> []" using session_blocks [OF assms(1)] block(2) by (simp add: blocks_wf_def)
    moreover have "t = (if us_above s \<and> us_queued s - length (ub_data b) \<le> uo_low_watermark (us_options s)
        then s\<lparr>us_block := b, us_ready := bs, us_queued := us_queued s - length (ub_data b), us_above := False, us_phase := Ph_low\<rparr>
        else s\<lparr>us_block := b, us_ready := bs, us_queued := us_queued s - length (ub_data b), us_above := us_above s, us_phase := Ph_write\<rparr>)"
      "pool1 = release_queued (length (ub_data b)) pool"
      using calculation assms(4) block by (auto simp: worker_take_def Let_def split: if_splits)
    moreover have "s\<lparr>us_block := b, us_ready := bs, us_queued := q, us_above := us_above s, us_phase := ph\<rparr> =
        s\<lparr>us_block := b, us_ready := bs, us_queued := q, us_phase := ph\<rparr>" for q ph by simp
    ultimately show ?thesis
      using worker_take_block [OF assms(1-3) block(2) disjI1 [OF refl] assms(5) refl, where abv = False]
        worker_take_block [OF assms(1-3) block(2) disjI2 [OF refl] assms(5) refl, where abv = "us_above s"]
      by (simp split: if_splits)
  next
    case done_all
    then have t: "t = s\<lparr>us_block := no_block, us_phase := Ph_close\<rparr>" "pool1 = pool"
      using assms(4) by (auto simp: worker_take_def)
    have q: "us_queued s = length (waiting_bytes s)" using session_queued [OF assms(1)] assms(3) by (simp add: in_loop_def)
    have w: "waiting_bytes s = []"
      using session_flushed [OF assms(1)] done_all by (simp add: waiting_bytes_def pending_bytes_def)
    have views: "\<not> in_loop t" "in_loop s" "\<not> writing t" "good t = good s" "block_capacity t = block_capacity s"
      "size_bound t = size_bound s" "in_flight t = []" "in_flight s = []" "written_count t = written_count s"
      "on_disk t files = on_disk s files" "waiting_bytes t = []" "blocks_wf t = blocks_wf s"
      using assms(3) w by (auto simp: t in_loop_def writing_def good_def block_capacity_def size_bound_def in_flight_def
          written_count_def on_disk_def waiting_bytes_def pending_bytes_def blocks_wf_def)
    have f: "us_finished t" "us_canceled t = us_canceled s" "us_failed t = us_failed s" "us_ready t = []"
      "us_pending t = us_pending s" "us_queued t = 0" "us_phase t = Ph_close" "us_final_path t = us_final_path s"
      "us_part_path t = us_part_path s" "us_options t = us_options s"
      using done_all q w by (simp_all add: t)
    have "session_wf t"
      using session_wfD [OF assms(1)] done_all(3) unfolding session_wf_def by (intro conjI impI) (auto simp: views f)
    moreover have "content t a files" using assms(2) w by (auto simp: content_def views f)
    moreover have "pool_keeps s pool t pool" using f q w by (simp add: pool_keeps_def)
    moreover have "ledger_keeps s pool t pool" using f assms(3) by (intro ledger_keeps_early) (simp_all add: holds_path_def)
    ultimately show ?thesis by (simp add: step_keeps_def t(2))
  qed
qed

text \<open>The steps between the locked regions: they touch neither the blocks nor the pool.\<close>

lemma step_keeps_loop:
  assumes "session_wf s" and "in_loop s" and "in_loop t" and "us_phase t \<noteq> Ph_open"
    and "us_ready t = us_ready s" and "us_pending t = us_pending s" and "us_free t = us_free s @ xs"
    and "\<forall>b\<in>set xs. ub_capacity b = block_capacity s" and "us_queued t = us_queued s"
    and "us_options t = us_options s" and "us_final_path t = us_final_path s" and "us_part_path t = us_part_path s"
    and "us_failed t \<longrightarrow> us_finished t" and "us_canceled t = us_canceled s" and "us_failed s \<longrightarrow> us_failed t"
    and "us_finished t \<longrightarrow> us_failed t \<or> us_finished s" and "us_finished s \<longrightarrow> us_finished t"
    and "writing t \<longrightarrow> writing s \<and> us_block t = us_block s"
    and "content t a files1" and "\<forall>p. p \<noteq> us_part_path s \<longrightarrow> map_of files1 p = map_of files p"
  shows "step_keeps s a pool files t a pool files1"
proof -
  have cap: "block_capacity t = block_capacity s" "waiting_bytes t = waiting_bytes s"
    using assms(5,6,10) by (simp_all add: block_capacity_def waiting_bytes_def pending_bytes_def)
  have blocks: "blocks_wf t"
    using session_blocks [OF assms(1)] assms(5-8) by (auto simp: blocks_wf_def cap)
  have "session_wf t"
  proof (rule session_wf_in_loop)
    show "us_failed t \<Longrightarrow> us_finished t" using assms(13) by blast
    show "us_canceled t \<Longrightarrow> us_finished t" using session_canceled [OF assms(1)] assms(14,17) by simp
    show "us_pending t = None" if "us_finished t" "\<not> us_canceled t" "\<not> us_failed t"
      using session_flushed [OF assms(1)] that assms(6,14-16) by auto
    show "length (ub_data (us_block t)) \<le> block_capacity t \<and> ub_capacity (us_block t) = block_capacity t" if "writing t"
      using session_block [OF assms(1)] assms(18) that cap by simp
    show "us_queued t = length (waiting_bytes t)" using session_queued [OF assms(1,2)] assms(9) cap by simp
  qed (fact blocks assms)+
  moreover have "pool_keeps s pool t pool" using assms(9-12) by (simp add: pool_keeps_def)
  moreover have "ledger_keeps s pool t pool"
    using assms(2,3) by (intro ledger_keeps_early) (auto simp: in_loop_def holds_path_def)
  ultimately show ?thesis using assms(19,20) by (simp add: step_keeps_def)
qed

lemma worker_low_keeps:
  assumes "session_wf s" and "content s a files" and "us_phase s = Ph_low"
  shows "step_keeps s a pool files (worker_low s) a pool files"
proof (rule step_keeps_loop [OF assms(1), of _ "[]"])
  let ?t = "worker_low s"
  have f: "us_phase ?t = (if ub_data (us_block s) = [] then Ph_wait else Ph_write)" "us_block ?t = us_block s"
    by (simp_all add: worker_low_def)
  have views: "in_loop ?t" "in_loop s" "good ?t = good s" "in_flight ?t = in_flight s" "waiting_bytes ?t = waiting_bytes s"
    "written_count ?t = written_count s" "on_disk ?t files = on_disk s files" "size_bound ?t = size_bound s"
    using assms(3) by (simp_all add: worker_low_def in_loop_def good_def in_flight_def waiting_bytes_def pending_bytes_def
        written_count_def on_disk_def size_bound_def block_capacity_def)
  show "in_loop s" "in_loop ?t" "us_phase ?t \<noteq> Ph_open" using views f by simp_all
  show "content ?t a files" using assms(2) views by (simp add: content_def f)
qed (use assms(3) session_failed [OF assms(1)] in \<open>simp_all add: worker_low_def writing_def\<close>)

lemma worker_write_keeps:
  assumes "session_wf s" and "content s a files" and "us_phase s = Ph_write" and "worker_write out s files = (t, files1)"
  shows "step_keeps s a pool files t a pool files1"
proof (rule step_keeps_loop [OF assms(1), of _ "[]"])
  have t: "us_ready t = us_ready s" "us_free t = us_free s" "us_pending t = us_pending s" "us_options t = us_options s"
    "us_queued t = us_queued s" "us_final_path t = us_final_path s" "us_part_path t = us_part_path s"
    "us_finished t = us_finished s" "us_canceled t = us_canceled s" "us_failed t = us_failed s"
    "us_written t = us_written s" "us_phase t = Ph_wrote" "us_block t = us_block s"
    using assms(4) by (auto simp: worker_write_def split: if_splits)
  show "in_loop s" "in_loop t" "us_phase t \<noteq> Ph_open" using assms(3) t by (simp_all add: in_loop_def)
  have views: "waiting_bytes t = waiting_bytes s" "size_bound t = size_bound s" "in_flight t = []"
    "in_flight s = ub_data (us_block s)" "written_count t = us_written s + length (ub_data (us_block s))"
    "written_count s = us_written s"
    using t assms(3) by (simp_all add: waiting_bytes_def pending_bytes_def size_bound_def block_capacity_def
        in_flight_def written_count_def)
  show "content t a files1"
  proof (cases "us_ok t")
    case True
    then have ok: "us_ok s" and files1: "files1 = file_put (us_part_path s)
        ((case map_of files (us_part_path s) of None \<Rightarrow> [] | Some c \<Rightarrow> c) @ ub_data (us_block s)) files"
      using assms(4) by (auto simp: worker_write_def split: if_splits)
    show ?thesis
      using assms(2,3) True ok
      by (auto simp: content_def good_def on_disk_def in_loop_def files1 t views)
  qed (simp add: content_def good_def t)
  show "\<forall>p. p \<noteq> us_part_path s \<longrightarrow> map_of files1 p = map_of files p"
    using assms(4) by (auto simp: worker_write_def split: if_splits)
  show "writing t \<longrightarrow> writing s \<and> us_block t = us_block s" using assms(3) t by (simp add: writing_def)
  show "us_failed t \<longrightarrow> us_finished t" "us_free t = us_free s @ []" "us_finished t \<longrightarrow> us_failed t \<or> us_finished s"
    using session_failed [OF assms(1)] t by simp_all
qed (use assms(4) in \<open>auto simp: worker_write_def split: if_splits\<close>)

lemma worker_wrote_keeps:
  assumes "session_wf s" and "content s a files" and "us_phase s = Ph_wrote"
  shows "step_keeps s a pool files (worker_wrote s) a pool files"
proof (rule step_keeps_loop [OF assms(1), of _ "[clear_block (us_block s)]"])
  define t where "t = worker_wrote s"
  have t: "us_ready t = us_ready s" "us_free t = us_free s @ [clear_block (us_block s)]" "us_pending t = us_pending s"
    "us_options t = us_options s" "us_queued t = us_queued s" "us_final_path t = us_final_path s"
    "us_part_path t = us_part_path s" "us_canceled t = us_canceled s" "us_ok t = us_ok s"
    "us_written t = us_written s + length (ub_data (us_block s))" "us_phase t = Ph_wait"
    "us_ok s \<Longrightarrow> us_failed t = us_failed s"
    by (simp_all add: t_def worker_wrote_def fail_session_def Let_def)
  show "in_loop s" "in_loop (worker_wrote s)" "us_phase (worker_wrote s) \<noteq> Ph_open"
    using assms(3) t(11) by (simp_all add: in_loop_def t_def)
  have views: "waiting_bytes t = waiting_bytes s" "size_bound t = size_bound s" "in_flight t = []" "in_flight s = []"
    "written_count t = written_count s" "on_disk t files = on_disk s files"
    using t(1-11) assms(3) by (simp_all add: waiting_bytes_def pending_bytes_def size_bound_def block_capacity_def
        in_flight_def written_count_def on_disk_def)
  have "content t a files"
    using assms(2,3) t by (auto simp: content_def good_def in_loop_def views)
  then show "content (worker_wrote s) a files" by (simp add: t_def)
  show "\<forall>b\<in>set [clear_block (us_block s)]. ub_capacity b = block_capacity s"
    using session_block [OF assms(1)] assms(3) by (simp add: writing_def clear_block_def)
  show "writing (worker_wrote s) \<longrightarrow> writing s \<and> us_block (worker_wrote s) = us_block s"
    using t(11) by (simp add: writing_def t_def)
qed (use session_failed [OF assms(1)] in \<open>auto simp: worker_wrote_def fail_session_def Let_def\<close>)

text \<open>The steps behind the loop.\<close>

lemma session_wf_left:
  assumes "session_wf s" and "\<not> in_loop s" and "\<not> in_loop t" and "blocks_wf t" and "us_finished t = us_finished s"
    and "us_canceled t = us_canceled s" and "us_failed t = us_failed s" and "us_pending t = None \<or> us_pending t = us_pending s"
    and "us_queued t = us_queued s" and "us_ok t \<longrightarrow> us_ok s"
    and "us_phase t \<in> {Ph_close, Ph_status} \<longrightarrow> us_phase s \<in> {Ph_close, Ph_status} \<and> us_ready t = us_ready s"
    and "us_phase t = Ph_publish \<longrightarrow> (us_stop t \<or> us_ok t)"
    and "us_phase t \<in> {Ph_release, Ph_unreserve, Ph_retire, Ph_flag, Ph_end} \<longrightarrow> (ur_ok (us_result t) \<longrightarrow> us_ok t)"
  shows "session_wf t"
proof -
  have "\<not> writing t" "us_phase t \<noteq> Ph_open" using assms(3) by (auto simp: writing_def in_loop_def)
  moreover have "us_ready t = []" if "us_phase t \<in> {Ph_close, Ph_status}" "good t"
    using session_closing [OF assms(1)] that assms(6,7,10,11) by (simp add: good_def)
  moreover have "us_finished t" "us_queued t = 0" if "us_ok t"
    using session_left [OF assms(1,2)] that assms(5,9,10) by simp_all
  moreover have "us_pending t = None" if "us_finished t" "\<not> us_canceled t" "\<not> us_failed t"
    using session_flushed [OF assms(1)] that assms(5-8) by auto
  ultimately show ?thesis
    using session_failed [OF assms(1)] session_canceled [OF assms(1)] assms(3-7,12,13) unfolding session_wf_def by blast
qed

lemma blocks_wf_same:
  "us_ready t = us_ready s \<Longrightarrow> us_free t = us_free s \<Longrightarrow> us_pending t = us_pending s \<Longrightarrow> us_options t = us_options s \<Longrightarrow>
   blocks_wf t = blocks_wf s"
  by (simp add: blocks_wf_def block_capacity_def)

lemma worker_close_keeps:
  assumes "session_wf s" and "content s a files" and "us_phase s = Ph_close"
  shows "step_keeps s a pool files (worker_close out s) a pool files"
proof -
  define t where "t = worker_close out s"
  have t: "us_ready t = us_ready s" "us_free t = us_free s" "us_pending t = us_pending s" "us_options t = us_options s"
    "us_queued t = us_queued s" "us_final_path t = us_final_path s" "us_part_path t = us_part_path s"
    "us_canceled t = us_canceled s" "us_ok t \<longrightarrow> us_ok s" "us_failed t = us_failed s" "us_finished t = us_finished s"
    "us_written t = us_written s" "us_phase t = Ph_status"
    by (auto simp: t_def worker_close_def Let_def)
  have views: "\<not> in_loop s" "\<not> in_loop t" "waiting_bytes t = waiting_bytes s" "in_flight t = []" "in_flight s = []"
    "written_count t = written_count s" "on_disk t files = on_disk s files" "size_bound t = size_bound s"
    "blocks_wf t"
    using t assms(3) session_blocks [OF assms(1)] blocks_wf_same [OF t(1-4)]
    by (simp_all add: in_loop_def waiting_bytes_def pending_bytes_def in_flight_def written_count_def on_disk_def
        size_bound_def block_capacity_def)
  have "session_wf t" using t assms(3) by (intro session_wf_left [OF assms(1)] views) simp_all
  moreover have "content t a files"
    using assms(2,3) t by (auto simp: content_def good_def views)
  moreover have "pool_keeps s pool t pool" "ledger_keeps s pool t pool"
    using t assms(3) by (simp_all add: pool_keeps_def ledger_keeps_early holds_path_def)
  ultimately show ?thesis by (simp add: step_keeps_def t_def)
qed

lemma worker_status_keeps:
  assumes "session_wf s" and "content s a files" and "us_phase s = Ph_status"
  shows "step_keeps s a pool files (worker_status s) a pool files"
proof -
  define t where "t = worker_status s"
  have t: "us_ready t = us_ready s" "us_free t = us_free s" "us_pending t = us_pending s" "us_options t = us_options s"
    "us_queued t = us_queued s" "us_final_path t = us_final_path s" "us_part_path t = us_part_path s"
    "us_canceled t = us_canceled s" "us_ok t = us_ok s" "us_failed t = us_failed s" "us_finished t = us_finished s"
    "us_phase t = Ph_publish" "us_stop t = (\<not> good s)" "ur_bytes (us_result t) = us_written s"
    by (auto simp: t_def worker_status_def Let_def good_def)
  have views: "\<not> in_loop s" "\<not> in_loop t" "size_bound t = size_bound s" "blocks_wf t"
    using t assms(3) session_blocks [OF assms(1)] blocks_wf_same [OF t(1-4)]
    by (simp_all add: in_loop_def size_bound_def block_capacity_def)
  have "session_wf t" using t assms(3) by (intro session_wf_left [OF assms(1)] views) (simp_all add: good_def)
  moreover have "content t a files"
  proof (cases "good s")
    case True
    have "us_ready s = []" "us_pending s = None"
      using True assms(3) session_closing [OF assms(1)] session_left [OF assms(1) views(1)] session_flushed [OF assms(1)]
      by (simp_all add: good_def)
    then show ?thesis
      using assms(2,3) True t
      by (simp add: content_def views on_disk_def in_flight_def waiting_bytes_def pending_bytes_def written_count_def)
  qed (use t views in \<open>simp add: content_def\<close>)
  moreover have "pool_keeps s pool t pool" "ledger_keeps s pool t pool"
    using t assms(3) by (simp_all add: pool_keeps_def ledger_keeps_early holds_path_def)
  ultimately show ?thesis by (simp add: step_keeps_def t_def)
qed

lemma worker_publish_keeps:
  assumes "session_wf s" and "content s a files" and "us_phase s = Ph_publish" and "worker_publish out s files = (t, files1)"
    and "us_part_path s \<noteq> us_final_path s"
  shows "step_keeps s a pool files t a pool files1"
proof -
  have t: "us_ready t = us_ready s" "us_free t = us_free s" "us_pending t = us_pending s" "us_options t = us_options s"
    "us_queued t = us_queued s" "us_final_path t = us_final_path s" "us_part_path t = us_part_path s"
    "us_canceled t = us_canceled s" "us_ok t = us_ok s" "us_failed t = us_failed s" "us_finished t = us_finished s"
    "us_phase t = Ph_release" "ur_ok (us_result t) = (\<not> us_stop s \<and> fo_ok out)" "ur_bytes (us_result t) = ur_bytes (us_result s)"
    using assms(4) by (auto simp: worker_publish_def Let_def split: if_splits)
  have views: "\<not> in_loop s" "\<not> in_loop t" "size_bound t = size_bound s" "blocks_wf t"
    using t assms(3) session_blocks [OF assms(1)] blocks_wf_same [OF t(1-4)]
    by (simp_all add: in_loop_def size_bound_def block_capacity_def)
  have "session_wf t"
    using t assms(3) session_publish [OF assms(1,3)] by (intro session_wf_left [OF assms(1)] views) simp_all
  moreover have "content t a files1"
    using assms(2-5) t by (auto simp: content_def views worker_publish_def Let_def split: if_splits)
  moreover have "pool_keeps s pool t pool" "ledger_keeps s pool t pool"
    using t assms(3) by (simp_all add: pool_keeps_def ledger_keeps_early holds_path_def)
  moreover have "\<forall>p. p \<noteq> us_part_path s \<and> (p \<noteq> us_final_path s \<or> \<not> holds_path s) \<longrightarrow> map_of files1 p = map_of files p"
    using assms(3,4) by (auto simp: worker_publish_def Let_def holds_path_def split: if_splits)
  ultimately show ?thesis by (simp add: step_keeps_def)
qed

lemma fold_cache_only: "cache_only pool (fold cache_pool_block bs pool)"
proof (induction bs arbitrary: pool)
  case (Cons b bs)
  show ?case using cache_only_trans [OF cache_pool_block_only Cons] by simp
qed simp

lemma worker_release_keeps:
  assumes "session_wf s" and "content s a files" and "us_phase s = Ph_release" and "release_session_blocks s pool = (u, pool1)"
  shows "step_keeps s a pool files (u\<lparr>us_phase := Ph_unreserve\<rparr>) a pool1 files"
proof -
  define t where "t = u\<lparr>us_phase := Ph_unreserve\<rparr>"
  have t: "us_ready t = []" "us_free t = []" "us_pending t = None" "us_options t = us_options s"
    "us_queued t = us_queued s" "us_final_path t = us_final_path s" "us_part_path t = us_part_path s"
    "us_canceled t = us_canceled s" "us_ok t = us_ok s" "us_failed t = us_failed s" "us_finished t = us_finished s"
    "us_phase t = Ph_unreserve" "us_result t = us_result s"
    using assms(4) by (auto simp: t_def release_session_blocks_def)
  have pool1: "cache_only pool pool1"
    using assms(4) fold_cache_only by (auto simp: release_session_blocks_def simp del: fold_append)
  have views: "\<not> in_loop s" "\<not> in_loop t" "size_bound t = size_bound s" "blocks_wf t"
    using t assms(3) by (simp_all add: in_loop_def size_bound_def block_capacity_def blocks_wf_def)
  have "session_wf t"
    using t assms(3) session_ended [OF assms(1)] by (intro session_wf_left [OF assms(1)] views) simp_all
  moreover have "content t a files" using assms(2,3) t by (simp add: content_def views)
  moreover have "pool_keeps s pool t pool1" using pool1 t by (intro cache_only_keeps) simp_all
  moreover have "ledger_keeps s pool t pool1"
    using t assms(3) pool1 by (intro ledger_keeps_early) (simp_all add: holds_path_def cache_only_def)
  ultimately show ?thesis by (simp add: step_keeps_def t_def)
qed

lemma worker_tail_keeps:
  assumes "session_wf s" and "us_phase s \<in> {Ph_unreserve, Ph_retire, Ph_flag}"
    and "us_phase t \<in> {Ph_retire, Ph_flag, Ph_end}" and "us_ready t = us_ready s" and "us_free t = us_free s"
    and "us_pending t = us_pending s" and "us_options t = us_options s" and "us_queued t = us_queued s"
    and "us_final_path t = us_final_path s" and "us_part_path t = us_part_path s" and "us_canceled t = us_canceled s"
    and "us_ok t = us_ok s" and "us_failed t = us_failed s" and "us_finished t = us_finished s"
    and "us_result t = us_result s" and "ledger_keeps s pool t pool1" and "up_queued pool1 = up_queued pool"
    and "up_options pool1 = up_options pool" and "up_next_part pool1 = up_next_part pool"
  shows "step_keeps s a pool files t a1 pool1 files"
proof -
  have views: "\<not> in_loop s" "\<not> in_loop t" "blocks_wf t"
    using assms(2,3) session_blocks [OF assms(1)] blocks_wf_same [OF assms(4-7)] by (auto simp: in_loop_def)
  have "us_phase t \<notin> {Ph_close, Ph_status, Ph_publish, Ph_release, Ph_unreserve}" using assms(3) by auto
  moreover from this have "session_wf t"
    using assms(2,8,11-15) session_ended [OF assms(1)] assms(6)
    by (intro session_wf_left [OF assms(1)] views) auto
  ultimately have "session_wf t" "content t a1 files" using views(2) by (auto simp: content_def)
  moreover have "pool_keeps s pool t pool1" using assms by (simp add: pool_keeps_def)
  ultimately show ?thesis using assms(16) by (simp add: step_keeps_def)
qed

lemma worker_unreserve_keeps:
  assumes "session_wf s" and "us_phase s = Ph_unreserve"
  shows "step_keeps s a pool files (s\<lparr>us_phase := Ph_retire\<rparr>) a (release_upload_path (us_final_path s) pool) files"
  using assms(2) by (intro worker_tail_keeps [OF assms(1)])
    (simp_all add: release_upload_path_def ledger_keeps_def holds_path_def unretired_def)

lemma worker_retire_keeps:
  assumes "session_wf s" and "us_phase s = Ph_retire"
  shows "step_keeps s a pool files (s\<lparr>us_phase := Ph_flag\<rparr>) a (worker_retire (us_result s) pool) files"
  using assms(2) by (intro worker_tail_keeps [OF assms(1)])
    (simp_all add: worker_retire_def ledger_keeps_def holds_path_def unretired_def Let_def)

lemma worker_flag_keeps:
  assumes "session_wf s" and "us_phase s = Ph_flag"
  shows "step_keeps s a pool files (worker_flag s) a pool files"
  using assms(2) by (intro worker_tail_keeps [OF assms(1)])
    (simp_all add: worker_flag_def ledger_keeps_def holds_path_def unretired_def Let_def)

lemma worker_step_keeps:
  assumes "session_wf s" and "content s a files" and "us_queued s \<le> up_queued pool" and "us_part_path s \<noteq> us_final_path s"
    and "worker_step out s pool files = (t, pool1, files1)"
  shows "step_keeps s a pool files t a pool1 files1"
proof (cases "us_phase s")
  case Ph_open
  then show ?thesis using assms worker_open_keeps by (auto simp: worker_step_def split: prod.splits)
next
  case Ph_wait
  then show ?thesis using assms worker_take_keeps by (auto simp: worker_step_def split: prod.splits)
next
  case Ph_low
  then show ?thesis using assms worker_low_keeps by (auto simp: worker_step_def)
next
  case Ph_write
  then show ?thesis using assms worker_write_keeps by (auto simp: worker_step_def split: prod.splits)
next
  case Ph_wrote
  then show ?thesis using assms worker_wrote_keeps by (auto simp: worker_step_def)
next
  case Ph_close
  then show ?thesis using assms worker_close_keeps by (auto simp: worker_step_def)
next
  case Ph_status
  then show ?thesis using assms worker_status_keeps by (auto simp: worker_step_def)
next
  case Ph_publish
  then show ?thesis using assms worker_publish_keeps by (auto simp: worker_step_def split: prod.splits)
next
  case Ph_release
  then show ?thesis using assms worker_release_keeps by (auto simp: worker_step_def split: prod.splits)
next
  case Ph_unreserve
  then show ?thesis using assms worker_unreserve_keeps by (auto simp: worker_step_def)
next
  case Ph_retire
  then show ?thesis using assms worker_retire_keeps by (auto simp: worker_step_def)
next
  case Ph_flag
  then show ?thesis using assms worker_flag_keeps by (auto simp: worker_step_def)
next
  case Ph_end
  then show ?thesis using assms by (auto simp: worker_step_def intro: step_keeps_quiet)
qed

text \<open>Every operation on a session returns and keeps its invariants; the accepted bytes grow by an accepted append.\<close>

definition accepted :: "upload_op \<Rightarrow> bool \<Rightarrow> string" where
  "accepted op ok = (case op of U_append i data \<Rightarrow> if ok then data else [] | _ \<Rightarrow> [])"

lemma session_step_keeps:
  assumes "session_wf s" and "content s a files" and "us_queued s \<le> up_queued pool" and "us_part_path s \<noteq> us_final_path s"
  shows "\<exists>ok t pool1 files1. session_step op s pool files = Some (ok, t, pool1, files1) \<and>
    step_keeps s a pool files t (a @ accepted op ok) pool1 files1"
proof (cases op)
  case (U_append i data)
  obtain ok t pool1 where run: "session_append data s pool = Some (ok, t, pool1)"
    using session_append_total [OF assms(1)] by (metis surj_pair)
  note k = session_append_keeps [OF assms(1,2) run]
  have "holds_path t = holds_path s" "unretired t = unretired s" using k by (simp_all add: holds_path_def unretired_def)
  then have "step_keeps s a pool files t (a @ (if ok then data else [])) pool1 files"
    using k by (simp add: step_keeps_def ledger_keeps_def)
  then show ?thesis using U_append run by (simp add: accepted_def)
next
  case (U_worker i out)
  obtain t pool1 files1 where "worker_step out s pool files = (t, pool1, files1)" by (cases "worker_step out s pool files")
  then show ?thesis using U_worker worker_step_keeps [OF assms] by (simp add: accepted_def ex_bool_eq)
qed (use assms call_high_keeps session_finish_keeps session_cancel_keeps step_keeps_quiet in \<open>auto simp: accepted_def\<close>)

end
