(* ===== verification/Upload_Writer_Laws.thy ===== *)
theory Upload_Writer_Laws
  imports Upload_Worker_Laws
begin

text \<open>
  The upload writer under every interleaving of network threads and workers: what a successful upload
  leaves on disk, the accounting of the pool, and that no call hangs.
\<close>

subsection \<open>Names\<close>

lemma to_chars_no:
  assumes "c \<in> {CHR ''/'', CHR ''.'', CHR ''-''}"
  shows "c \<notin> set (to_chars 10 n)"
proof -
  have "\<not> is_digit 10 CHR ''/''" "\<not> is_digit 10 CHR ''.''" "\<not> is_digit 10 CHR ''-''" by code_simp+
  then show ?thesis using to_chars_digits [of 10 c n] assms by auto
qed

lemma to_chars_inj: "to_chars 10 m = to_chars 10 n \<Longrightarrow> m = n"
proof -
  assume "to_chars 10 m = to_chars 10 n"
  then have "numeral_value 10 (to_chars 10 m) = numeral_value 10 (to_chars 10 n)" by (rule arg_cong)
  then show ?thesis by (simp add: numeral_value_to_chars)
qed

lemma takeWhile_rev_append: "c \<notin> set ys \<Longrightarrow> takeWhile (\<lambda>x. x \<noteq> c) (rev (xs @ c # ys)) = rev ys"
  by (auto simp: takeWhile_tail takeWhile_append2)

lemma last_part_unique: "xs @ c # ys = xs' @ c # ys' \<Longrightarrow> c \<notin> set ys \<Longrightarrow> c \<notin> set ys' \<Longrightarrow> xs = xs' \<and> ys = ys'"
  by (metis append_same_eq rev_rev_ident same_append_eq takeWhile_rev_append append_Cons)

lemma path_filename_no_slash: "CHR ''/'' \<notin> set (path_filename p)"
  unfolding path_filename_def by (auto dest: set_takeWhileD)

lemma path_filename_plain: "CHR ''/'' \<notin> set name \<Longrightarrow> path_filename name = name"
proof -
  assume "CHR ''/'' \<notin> set name"
  then have "takeWhile (\<lambda>c. c \<noteq> CHR ''/'') (rev name) = rev name" by (subst takeWhile_eq_all_conv) auto
  then show ?thesis unfolding path_filename_def by (simp only: rev_rev_ident)
qed

lemma path_filename_join: "CHR ''/'' \<notin> set name \<Longrightarrow> path_filename (path_join dir name) = name"
proof -
  assume n: "CHR ''/'' \<notin> set name"
  have self: "path_filename name = name" using n by (rule path_filename_plain)
  show ?thesis
  proof (cases "dir = [] \<or> last dir = CHR ''/''")
    case True
    have j: "path_join dir name = dir @ name" using n True by (cases name) (auto simp: path_join_def)
    show ?thesis
    proof (cases "dir = []")
      case False
      then have "dir = butlast dir @ [CHR ''/'']" using True by (metis append_butlast_last_id)
      then have "path_join dir name = butlast dir @ CHR ''/'' # name" using j by (metis append_Cons append_assoc append_Nil)
      then show ?thesis using takeWhile_rev_append [OF n, of "butlast dir"] by (simp add: path_filename_def)
    qed (use j self in simp)
  next
    case False
    then have "path_join dir name = dir @ CHR ''/'' # name" using n by (cases name) (auto simp: path_join_def)
    then show ?thesis using takeWhile_rev_append [OF n, of dir] by (simp add: path_filename_def)
  qed
qed

lemma path_extension_length:
  "length (path_extension p) \<le> length (path_filename p)" "path_filename p \<noteq> [] \<Longrightarrow> length (path_extension p) < length (path_filename p)"
  by (auto simp: path_extension_def Let_def)

lemma path_extension_set: "set (path_extension p) \<subseteq> insert (CHR ''.'') (set (path_filename p))"
  by (auto simp: path_extension_def Let_def dest: set_takeWhileD)

definition plain_name :: "string \<Rightarrow> bool" where
  "plain_name name \<longleftrightarrow> CHR ''/'' \<notin> set name \<and> (name = [] \<or> hd name \<noteq> CHR ''.'')"

lemma plain_indexed:
  assumes "plain_name name" and "name \<noteq> []"
  shows "plain_name (file_name_with_index name i) \<and> file_name_with_index name i \<noteq> []"
proof (cases "i = 0")
  case False
  have f: "path_filename name = name"
    using assms(1) path_filename_plain by (simp add: plain_name_def)
  have len: "length (path_extension name) < length name" using path_extension_length(2) [of name] assms(2) f by simp
  then have stem: "path_stem name \<noteq> []" "hd (path_stem name) = hd name"
    by (auto simp: path_stem_def Let_def f hd_take)
  have "CHR ''/'' \<notin> set (path_extension name)" "CHR ''/'' \<notin> set (path_stem name)"
    using path_extension_set [of name] assms(1) f by (auto simp: plain_name_def path_stem_def Let_def dest: in_set_takeD)
  then show ?thesis
    using False stem assms to_chars_no [of "CHR ''/''" i] by (simp add: file_name_with_index_def Let_def plain_name_def)
qed (use assms in \<open>simp add: file_name_with_index_def\<close>)

text \<open>Indexed names never repeat, so the search for a free one ends.\<close>

lemma indexed_inj:
  assumes "i \<noteq> 0" and "j \<noteq> 0"
    and "path_join dir (file_name_with_index name i) = path_join dir (file_name_with_index name j)"
  shows "i = j"
proof -
  let ?stem = "if path_stem name = [] then ''upload'' else path_stem name"
  have "hd ?stem \<noteq> CHR ''/''" "?stem \<noteq> []"
    using path_filename_no_slash [of name] by (auto simp: path_stem_def Let_def dest: in_set_takeD hd_in_set)
  then have "?stem @ ''-'' @ to_chars 10 i @ path_extension name = ?stem @ ''-'' @ to_chars 10 j @ path_extension name"
    using assms by (auto simp: file_name_with_index_def path_join_def Let_def split: if_splits)
  then show ?thesis using to_chars_inj by simp
qed

lemma find_free_path_None:
  "find_free_path fuel opts name files reserved i = None \<Longrightarrow> k < fuel \<Longrightarrow>
   path_join (uo_dir opts) (file_name_with_index name (i + k)) \<in> fst ` set files \<union> set reserved"
proof (induction fuel arbitrary: i k)
  case (Suc fuel)
  let ?p = "path_join (uo_dir opts) (file_name_with_index name i)"
  have here: "map_of files ?p \<noteq> None \<or> ?p \<in> set reserved" and rest: "find_free_path fuel opts name files reserved (i + 1) = None"
    using Suc.prems(1) by (auto simp: Let_def split: if_splits)
  show ?case
  proof (cases k)
    case 0
    then show ?thesis using here by (auto simp: map_of_eq_None_iff)
  next
    case (Suc k')
    then show ?thesis using Suc.IH [OF rest, of k'] Suc.prems(2) by simp
  qed
qed simp

lemma find_free_path_total: "find_free_path (length files + length reserved + 2) opts name files reserved 0 \<noteq> None"
proof
  assume none: "find_free_path (length files + length reserved + 2) opts name files reserved 0 = None"
  let ?n = "length files + length reserved"
  let ?f = "\<lambda>k. path_join (uo_dir opts) (file_name_with_index name k)"
  have "?f ` {1..?n + 1} \<subseteq> fst ` set files \<union> set reserved"
  proof (rule image_subsetI)
    fix k assume "k \<in> {1..?n + 1}"
    then show "?f k \<in> fst ` set files \<union> set reserved" using find_free_path_None [OF none, of k] by simp
  qed
  then have "card (?f ` {1..?n + 1}) \<le> card (fst ` set files \<union> set reserved)"
    by (intro card_mono) auto
  also have "\<dots> \<le> card (fst ` set files) + card (set reserved)" by (rule card_Un_le)
  also have "\<dots> \<le> ?n" by (meson add_mono card_image_le card_length finite_set le_trans)
  also have "card (?f ` {1..?n + 1}) = ?n + 1"
    by (subst card_image, rule inj_onI, rule indexed_inj) auto
  finally show False by simp
qed

lemma find_free_path_Some:
  "find_free_path fuel opts name files reserved i = Some n \<Longrightarrow>
   path_join (uo_dir opts) n \<notin> set reserved \<and> (\<exists>k. n = file_name_with_index name k)"
  by (induction fuel arbitrary: i) (auto simp: Let_def split: if_splits)

subsection \<open>The pool\<close>

definition count :: "('a \<Rightarrow> bool) \<Rightarrow> 'a list \<Rightarrow> nat" where
  "count P xs = length (filter P xs)"

lemma count_update: "i < length xs \<Longrightarrow> count P (xs[i := x]) + (if P (xs ! i) then 1 else 0) = count P xs + (if P x then 1 else 0)"
proof (induction xs arbitrary: i)
  case (Cons y ys)
  show ?case
  proof (cases i)
    case (Suc j)
    then have "count P (ys[j := x]) + (if P (ys ! j) then 1 else 0) = count P ys + (if P x then 1 else 0)"
      using Cons by simp
    then show ?thesis using Suc by (simp add: count_def)
  qed (simp add: count_def)
qed simp

lemma sum_list_update': "i < length xs \<Longrightarrow> sum_list (map f (xs[i := x])) + f (xs ! i) = sum_list (map f xs) + (f x :: nat)"
  by (induction xs arbitrary: i) (auto simp: nth_Cons split: nat.splits)

definition canceled_result :: "upload_session \<Rightarrow> bool" where
  "canceled_result s \<longleftrightarrow> \<not> unretired s \<and> ur_canceled (us_result s)"

definition completed_result :: "upload_session \<Rightarrow> bool" where
  "completed_result s \<longleftrightarrow> \<not> unretired s \<and> \<not> ur_canceled (us_result s) \<and> ur_ok (us_result s)"

definition failed_result :: "upload_session \<Rightarrow> bool" where
  "failed_result s \<longleftrightarrow> \<not> unretired s \<and> \<not> ur_canceled (us_result s) \<and> \<not> ur_ok (us_result s)"

definition ledger :: "upload_world \<Rightarrow> bool" where
  "ledger w \<longleftrightarrow> (let pool = uw_pool w; ss = uw_sessions w in
     up_queued pool = sum_list (map us_queued ss) \<and> up_queued pool \<le> po_max_queued (up_options pool) \<and>
     up_active pool = count unretired ss \<and> up_active pool \<le> po_max_active (up_options pool) \<and>
     up_canceled pool = count canceled_result ss \<and> up_completed pool = count completed_result ss \<and>
     up_failed pool = count failed_result ss \<and> up_next_part pool = length ss)"

text \<open>Each live upload owns its final path; the names the pool makes for part files belong to no other.\<close>

definition paths_owned :: "upload_world \<Rightarrow> bool" where
  "paths_owned w \<longleftrightarrow> (let ss = uw_sessions w in
     set (up_reserved (uw_pool w)) = us_final_path ` set (filter holds_path ss) \<and>
     (\<forall>i j. i < length ss \<and> j < length ss \<and> i \<noteq> j \<and> holds_path (ss ! i) \<and> holds_path (ss ! j) \<longrightarrow>
        us_final_path (ss ! i) \<noteq> us_final_path (ss ! j)))"

definition named :: "nat \<Rightarrow> upload_session \<Rightarrow> bool" where
  "named i s \<longleftrightarrow> path_filename (us_part_path s) = ''.'' @ path_filename (us_final_path s) @ ''.'' @ to_chars 10 (Suc i) @ ''.part'' \<and>
     path_filename (us_final_path s) \<noteq> [] \<and> hd (path_filename (us_final_path s)) \<noteq> CHR ''.''"

lemma named_part_final: "named i s \<Longrightarrow> named j t \<Longrightarrow> us_part_path s \<noteq> us_final_path t"
  by (auto simp: named_def)

lemma named_part_part: "named i s \<Longrightarrow> named j t \<Longrightarrow> us_part_path s = us_part_path t \<Longrightarrow> i = j"
proof -
  assume n: "named i s" "named j t" "us_part_path s = us_part_path t"
  have "path_filename (us_part_path u) =
      ((''.'' @ path_filename (us_final_path u)) @ CHR ''.'' # to_chars 10 (Suc k)) @ ''.part''" if "named k u" for k u
    using that by (simp add: named_def)
  from this [OF n(1)] this [OF n(2)] have "(''.'' @ path_filename (us_final_path s)) @ CHR ''.'' # to_chars 10 (Suc i) =
      (''.'' @ path_filename (us_final_path t)) @ CHR ''.'' # to_chars 10 (Suc j)"
    unfolding n(3) by (simp only: append_same_eq)
  then have "to_chars 10 (Suc i) = to_chars 10 (Suc j)"
    by (rule last_part_unique [THEN conjunct2]) (rule to_chars_no, simp)+
  then show "i = j" using to_chars_inj [of "Suc i" "Suc j"] by simp
qed

definition world_inv :: "upload_world \<Rightarrow> (nat \<Rightarrow> string) \<Rightarrow> bool" where
  "world_inv w acc \<longleftrightarrow> ledger w \<and> paths_owned w \<and>
     (\<forall>i < length (uw_sessions w). session_wf (uw_sessions w ! i) \<and> named i (uw_sessions w ! i) \<and>
        content (uw_sessions w ! i) (acc i) (uw_files w)) \<and>
     (\<forall>i \<ge> length (uw_sessions w). acc i = [])"

lemma content_frame:
  assumes "content s a files" and "map_of files1 (us_part_path s) = map_of files (us_part_path s)"
    and "holds_path s \<Longrightarrow> map_of files1 (us_final_path s) = map_of files (us_final_path s)"
  shows "content s a files1"
proof -
  have d: "on_disk s files1 = on_disk s files" using assms(2) by (simp add: on_disk_def)
  have "us_phase s \<in> {Ph_release, Ph_unreserve} \<Longrightarrow> map_of files1 (us_final_path s) = map_of files (us_final_path s)"
    using assms(3) by (auto simp: holds_path_def)
  note h = this and c = assms(1) [unfolded content_def]
  note c1 = c [THEN conjunct1] and c2 = c [THEN conjunct2, THEN conjunct1] and c3 = c [THEN conjunct2, THEN conjunct2]
  show ?thesis unfolding content_def d assms(2) by (intro conjI, rule c1, rule c2) (use c3 h in metis)
qed

lemma queued_le_sum: "i < length ss \<Longrightarrow> us_queued (ss ! i) \<le> sum_list (map us_queued ss)"
  by (rule member_le_sum_list) simp_all

lemma tallies_keep:
  assumes "ledger_keeps s pool t pool1" and "i < length ss" and "ss ! i = s"
    and "up_active pool = count unretired ss" and "up_canceled pool = count canceled_result ss"
    and "up_completed pool = count completed_result ss" and "up_failed pool = count failed_result ss"
  shows "up_active pool1 = count unretired (ss[i := t]) \<and> up_active pool1 \<le> up_active pool \<and>
    up_canceled pool1 = count canceled_result (ss[i := t]) \<and>
    up_completed pool1 = count completed_result (ss[i := t]) \<and> up_failed pool1 = count failed_result (ss[i := t])"
proof (cases "unretired s \<and> \<not> unretired t")
  case True
  then have r: "us_result t = us_result s" "up_active pool1 = up_active pool - 1"
    "up_canceled pool1 = up_canceled pool + (if ur_canceled (us_result s) then 1 else 0)"
    "up_completed pool1 = up_completed pool + (if \<not> ur_canceled (us_result s) \<and> ur_ok (us_result s) then 1 else 0)"
    "up_failed pool1 = up_failed pool + (if \<not> ur_canceled (us_result s) \<and> \<not> ur_ok (us_result s) then 1 else 0)"
    using assms(1) by (simp_all add: ledger_keeps_def Let_def)
  have now: "canceled_result t = ur_canceled (us_result s)" "\<not> canceled_result s"
    "completed_result t = (\<not> ur_canceled (us_result s) \<and> ur_ok (us_result s))" "\<not> completed_result s"
    "failed_result t = (\<not> ur_canceled (us_result s) \<and> \<not> ur_ok (us_result s))" "\<not> failed_result s"
    using True r(1) by (simp_all add: canceled_result_def completed_result_def failed_result_def)
  have c: "count P (ss[i := t]) + (if P s then 1 else 0) = count P ss + (if P t then 1 else 0)" for P
    using count_update [OF assms(2), of P t] unfolding assms(3) .
  have "count unretired (ss[i := t]) + 1 = count unretired ss" using c [of unretired] True by simp
  moreover have "count canceled_result (ss[i := t]) = count canceled_result ss + (if ur_canceled (us_result s) then 1 else 0)"
    using c [of canceled_result] now(1,2) by simp
  moreover have "count completed_result (ss[i := t]) =
      count completed_result ss + (if \<not> ur_canceled (us_result s) \<and> ur_ok (us_result s) then 1 else 0)"
    using c [of completed_result] now(3,4) by simp
  moreover have "count failed_result (ss[i := t]) =
      count failed_result ss + (if \<not> ur_canceled (us_result s) \<and> \<not> ur_ok (us_result s) then 1 else 0)"
    using c [of failed_result] now(5,6) by simp
  ultimately show ?thesis unfolding r(2-5) assms(4-7) by simp
next
  case False
  then have u: "unretired t = unretired s" using assms(1) by (auto simp: ledger_keeps_def)
  have "canceled_result t = canceled_result s" "completed_result t = completed_result s" "failed_result t = failed_result s"
    using assms(1) u by (auto simp: ledger_keeps_def canceled_result_def completed_result_def failed_result_def)
  moreover have "up_active pool1 = up_active pool" "up_canceled pool1 = up_canceled pool"
    "up_completed pool1 = up_completed pool" "up_failed pool1 = up_failed pool"
    using assms(1) False by (simp_all add: ledger_keeps_def Let_def)
  moreover have "count P (ss[i := t]) = count P ss" if "P t = P s" for P
    using count_update [OF assms(2), of P t] that unfolding assms(3) by simp
  ultimately show ?thesis using assms(4-7) u by simp
qed

lemma held_paths: "us_final_path ` set (filter holds_path ss) = {us_final_path (ss ! j) |j. j < length ss \<and> holds_path (ss ! j)}"
  by (auto simp: in_set_conv_nth)

lemma held_paths_update:
  assumes "i < length ss" and "ss ! i = s" and "us_final_path t = us_final_path s" and "holds_path t \<longrightarrow> holds_path s"
    and "\<forall>j < length ss. j \<noteq> i \<and> holds_path s \<and> holds_path (ss ! j) \<longrightarrow> us_final_path (ss ! j) \<noteq> us_final_path s"
  shows "us_final_path ` set (filter holds_path (ss[i := t])) =
    (if holds_path s \<and> \<not> holds_path t then us_final_path ` set (filter holds_path ss) - {us_final_path s}
     else us_final_path ` set (filter holds_path ss))" (is "?L = ?R")
proof -
  have L: "x \<in> ?L \<longleftrightarrow> (holds_path t \<and> x = us_final_path s) \<or> (\<exists>j < length ss. j \<noteq> i \<and> holds_path (ss ! j) \<and> x = us_final_path (ss ! j))"
    for x
    unfolding held_paths using assms(1,3) by (auto simp: nth_list_update)
  have S: "x \<in> us_final_path ` set (filter holds_path ss) \<longleftrightarrow>
      (holds_path s \<and> x = us_final_path s) \<or> (\<exists>j < length ss. j \<noteq> i \<and> holds_path (ss ! j) \<and> x = us_final_path (ss ! j))" for x
    unfolding held_paths using assms(1,2) by auto
  show ?thesis
  proof (rule set_eqI)
    fix x
    show "x \<in> ?L \<longleftrightarrow> x \<in> ?R"
    proof (cases "holds_path s \<and> \<not> holds_path t")
      case True
      then have "x \<in> ?R \<longleftrightarrow> x \<in> us_final_path ` set (filter holds_path ss) \<and> x \<noteq> us_final_path s" by simp
      then show ?thesis unfolding L S using True assms(5) by blast
    next
      case False
      then have "x \<in> ?R \<longleftrightarrow> x \<in> us_final_path ` set (filter holds_path ss)" by (simp only: if_False)
      then show ?thesis unfolding L S using False assms(4) by blast
    qed
  qed
qed

lemma paths_owned_step:
  assumes own: "paths_owned w" and i: "i < length (uw_sessions w)" and s: "uw_sessions w ! i = s"
    and f: "us_final_path t = us_final_path s" and l: "ledger_keeps s (uw_pool w) t pool1"
  shows "paths_owned (put_session i t (w\<lparr>uw_pool := pool1, uw_files := files1\<rparr>))"
proof -
  let ?ss = "uw_sessions w"
  have res: "set (up_reserved (uw_pool w)) = us_final_path ` set (filter holds_path ?ss)"
    and dis: "\<And>j k. j < length ?ss \<Longrightarrow> k < length ?ss \<Longrightarrow> j \<noteq> k \<Longrightarrow> holds_path (?ss ! j) \<Longrightarrow> holds_path (?ss ! k) \<Longrightarrow>
      us_final_path (?ss ! j) \<noteq> us_final_path (?ss ! k)"
    using own unfolding paths_owned_def Let_def by blast+
  have holds: "holds_path t \<longrightarrow> holds_path s" and
    res1: "set (up_reserved pool1) = (if holds_path s \<and> \<not> holds_path t then set (up_reserved (uw_pool w)) - {us_final_path s}
      else set (up_reserved (uw_pool w)))"
    using l by (simp_all add: ledger_keeps_def)
  have "\<forall>j < length ?ss. j \<noteq> i \<and> holds_path s \<and> holds_path (?ss ! j) \<longrightarrow> us_final_path (?ss ! j) \<noteq> us_final_path s"
    using dis [OF _ i] s by auto
  from held_paths_update [OF i s f holds this] have "set (up_reserved pool1) = us_final_path ` set (filter holds_path (?ss[i := t]))"
    unfolding res1 res by simp
  moreover have "us_final_path (?ss[i := t] ! j) \<noteq> us_final_path (?ss[i := t] ! k)"
    if "j < length ?ss" "k < length ?ss" "j \<noteq> k" "holds_path (?ss[i := t] ! j)" "holds_path (?ss[i := t] ! k)" for j k
  proof -
    have "us_final_path (?ss[i := t] ! n) = us_final_path (?ss ! n) \<and> (holds_path (?ss[i := t] ! n) \<longrightarrow> holds_path (?ss ! n))"
      if "n < length ?ss" for n
      using that s f holds by (cases "n = i") simp_all
    then show ?thesis using \<open>j < _\<close> \<open>k < _\<close> \<open>j \<noteq> k\<close> that dis by metis
  qed
  ultimately show ?thesis unfolding paths_owned_def put_session_def Let_def by simp
qed

lemma ledger_step:
  assumes L: "ledger w" and i: "i < length (uw_sessions w)" and s: "uw_sessions w ! i = s"
    and p: "pool_keeps s (uw_pool w) t pool1" and l: "ledger_keeps s (uw_pool w) t pool1"
  shows "ledger (put_session i t (w\<lparr>uw_pool := pool1, uw_files := files1\<rparr>))"
proof -
  let ?ss = "uw_sessions w" and ?pool = "uw_pool w"
  have o: "up_queued ?pool = sum_list (map us_queued ?ss)" "up_queued ?pool \<le> po_max_queued (up_options ?pool)"
    "up_active ?pool = count unretired ?ss" "up_active ?pool \<le> po_max_active (up_options ?pool)"
    "up_canceled ?pool = count canceled_result ?ss" "up_completed ?pool = count completed_result ?ss"
    "up_failed ?pool = count failed_result ?ss" "up_next_part ?pool = length ?ss"
    using L unfolding ledger_def Let_def by blast+
  note t = tallies_keep [OF l i s o(3,5-7)]
  have q: "sum_list (map us_queued (?ss[i := t])) + us_queued s = sum_list (map us_queued ?ss) + us_queued t"
    using sum_list_update' [OF i, of us_queued t] unfolding s .
  have k: "up_queued pool1 + us_queued s = up_queued ?pool + us_queued t" "up_options pool1 = up_options ?pool"
    "up_next_part pool1 = up_next_part ?pool"
    "us_queued t \<le> us_queued s \<or> up_queued pool1 \<le> po_max_queued (up_options ?pool)"
    using p unfolding pool_keeps_def by blast+
  have "up_queued pool1 = sum_list (map us_queued (?ss[i := t]))" using q k(1) o(1) by linarith
  moreover have "up_queued pool1 \<le> po_max_queued (up_options ?pool)" using k(1,4) o(2) by linarith
  ultimately show ?thesis using t k(2,3) o(4,8) unfolding ledger_def put_session_def Let_def by simp
qed

lemma world_step_session:
  assumes inv: "world_inv w acc" and i: "i < length (uw_sessions w)" and s: "uw_sessions w ! i = s"
    and step: "step_keeps s (acc i) (uw_pool w) (uw_files w) t (acc i @ d) pool1 files1"
  shows "world_inv (put_session i t (w\<lparr>uw_pool := pool1, uw_files := files1\<rparr>)) (acc(i := acc i @ d))"
proof -
  let ?ss = "uw_sessions w" and ?w1 = "put_session i t (w\<lparr>uw_pool := pool1, uw_files := files1\<rparr>)"
  have w1: "uw_sessions ?w1 = ?ss[i := t]" "uw_files ?w1 = files1" by (simp_all add: put_session_def)
  have k: "session_wf t" "content t (acc i @ d) files1" "pool_keeps s (uw_pool w) t pool1" "ledger_keeps s (uw_pool w) t pool1"
    and frame: "\<And>p. p \<noteq> us_part_path s \<Longrightarrow> p \<noteq> us_final_path s \<or> \<not> holds_path s \<Longrightarrow> map_of files1 p = map_of (uw_files w) p"
    using step unfolding step_keeps_def by blast+
  have paths: "us_final_path t = us_final_path s" "us_part_path t = us_part_path s"
    using k(3) unfolding pool_keeps_def by blast+
  have I: "ledger w" "paths_owned w" "\<And>j. j < length ?ss \<Longrightarrow> session_wf (?ss ! j)" "\<And>j. j < length ?ss \<Longrightarrow> named j (?ss ! j)"
    "\<And>j. j < length ?ss \<Longrightarrow> content (?ss ! j) (acc j) (uw_files w)" "\<And>j. length ?ss \<le> j \<Longrightarrow> acc j = []"
    using inv unfolding world_inv_def by blast+
  have ns: "named i s" using I(4) [OF i] s by simp
  have others: "content (?ss ! j) (acc j) files1" if j: "j < length ?ss" "j \<noteq> i" for j
  proof (rule content_frame [OF I(5) [OF j(1)]])
    note nj = I(4) [OF j(1)]
    show "map_of files1 (us_part_path (?ss ! j)) = map_of (uw_files w) (us_part_path (?ss ! j))"
      using named_part_part [OF nj ns] named_part_final [OF nj ns] j(2) by (intro frame) auto
    show "map_of files1 (us_final_path (?ss ! j)) = map_of (uw_files w) (us_final_path (?ss ! j))" if h: "holds_path (?ss ! j)"
    proof (rule frame)
      show "us_final_path (?ss ! j) \<noteq> us_part_path s" using named_part_final [OF ns nj] by simp
      show "us_final_path (?ss ! j) \<noteq> us_final_path s \<or> \<not> holds_path s"
        using I(2) h j i s unfolding paths_owned_def Let_def by blast
    qed
  qed
  have "named i t" using ns paths by (simp add: named_def)
  then have "session_wf (?ss[i := t] ! j) \<and> named j (?ss[i := t] ! j) \<and> content (?ss[i := t] ! j) ((acc(i := acc i @ d)) j) files1"
    if "j < length ?ss" for j
    using that k(1,2) others [OF that] I(3,4) [OF that] by (simp add: nth_list_update)
  then show ?thesis
    using ledger_step [OF I(1) i s k(3,4)] paths_owned_step [OF I(2) i s paths(1) k(4)] I(6) i
    unfolding world_inv_def w1 by simp
qed

subsection \<open>New sessions\<close>

lemma session_start_wf: "session_wf (session_start opts final part)"
  by (simp add: session_start_def session_wf_def blocks_wf_def waiting_bytes_def pending_bytes_def writing_def in_loop_def
      no_block_def)

lemma session_start_content: "content (session_start opts final part) [] files"
  by (simp add: session_start_def content_def good_def in_loop_def on_disk_def in_flight_def waiting_bytes_def
      pending_bytes_def written_count_def)

lemma reserve_upload_paths_total:
  assumes "plain_name (uo_file_name opts)"
  obtains final part name where
    "reserve_upload_paths opts files pool = Some ((final, part, name),
       pool\<lparr>up_reserved := final # up_reserved pool, up_next_part := up_next_part pool + 1\<rparr>)"
    "final \<notin> set (up_reserved pool)" "path_filename final \<noteq> []" "hd (path_filename final) \<noteq> CHR ''.''"
    "path_filename part = ''.'' @ path_filename final @ ''.'' @ to_chars 10 (Suc (up_next_part pool)) @ ''.part''"
proof -
  let ?name = "fallback_upload_file_name (uo_file_name opts)"
  have plain: "plain_name ?name" "?name \<noteq> []"
    using assms by (auto simp: fallback_upload_file_name_def plain_name_def)
  obtain n where n: "find_free_path (length files + length (up_reserved pool) + 2) opts ?name files (up_reserved pool) 0 = Some n"
    using find_free_path_total by blast
  then obtain k where k: "n = file_name_with_index ?name k" "path_join (uo_dir opts) n \<notin> set (up_reserved pool)"
    using find_free_path_Some by blast
  let ?final = "path_join (uo_dir opts) n"
  have f: "plain_name n" "n \<noteq> []" unfolding k(1) using plain_indexed [OF plain] by simp_all
  then have pf: "path_filename ?final = n" using path_filename_join by (simp add: plain_name_def)
  let ?part = "''.'' @ n @ ''.'' @ to_chars 10 (Suc (up_next_part pool)) @ ''.part''"
  have "path_filename (path_join (uo_dir opts) ?part) = ?part"
    using f(1) to_chars_no [of "CHR ''/''" "Suc (up_next_part pool)"]
    by (intro path_filename_join) (simp add: plain_name_def)
  then have part: "path_filename (path_join (uo_dir opts) ?part) =
      ''.'' @ path_filename ?final @ ''.'' @ to_chars 10 (Suc (up_next_part pool)) @ ''.part''"
    using pf by simp
  show ?thesis
  proof (rule that [OF _ k(2) _ _ part])
    show "reserve_upload_paths opts files pool = Some ((?final, path_join (uo_dir opts) ?part, n),
        pool\<lparr>up_reserved := ?final # up_reserved pool, up_next_part := up_next_part pool + 1\<rparr>)"
      using n pf by (simp add: reserve_upload_paths_def Let_def)
    show "path_filename ?final \<noteq> []" using f(2) pf by metis
    show "hd (path_filename ?final) \<noteq> CHR ''.''" using f pf unfolding plain_name_def by metis
  qed
qed

lemma create_session_keeps:
  assumes inv: "world_inv w acc" and plain: "plain_name (uo_file_name opts)"
  shows "\<exists>ok w1. create_session opts w = Some (ok, w1) \<and> world_inv w1 acc"
proof (cases "po_max_active (up_options (uw_pool w)) \<le> up_active (uw_pool w)")
  case True
  then have "create_session opts w = Some (False, w)" by (simp add: create_session_def try_increment_active_def)
  then show ?thesis using inv by blast
next
  case False
  let ?ss = "uw_sessions w" and ?pool = "(uw_pool w)\<lparr>up_active := up_active (uw_pool w) + 1\<rparr>"
  obtain final part name where r: "reserve_upload_paths opts (uw_files w) ?pool = Some ((final, part, name),
       ?pool\<lparr>up_reserved := final # up_reserved ?pool, up_next_part := up_next_part ?pool + 1\<rparr>)"
    "final \<notin> set (up_reserved ?pool)" "path_filename final \<noteq> []" "hd (path_filename final) \<noteq> CHR ''.''"
    "path_filename part = ''.'' @ path_filename final @ ''.'' @ to_chars 10 (Suc (up_next_part ?pool)) @ ''.part''"
    by (rule reserve_upload_paths_total [OF plain])
  define s where "s = session_start (opts\<lparr>uo_file_name := name\<rparr>) final part"
  define w1 where "w1 = w\<lparr>uw_pool := ?pool\<lparr>up_reserved := final # up_reserved ?pool, up_next_part := up_next_part ?pool + 1\<rparr>,
    uw_sessions := ?ss @ [s]\<rparr>"
  have run: "create_session opts w = Some (True, w1)"
    using False r(1) by (simp add: create_session_def try_increment_active_def w1_def s_def)
  have s: "us_final_path s = final" "us_part_path s = part" "us_queued s = 0" "unretired s" "holds_path s"
    "\<not> canceled_result s" "\<not> completed_result s" "\<not> failed_result s"
    by (simp_all add: s_def session_start_def unretired_def holds_path_def canceled_result_def completed_result_def
        failed_result_def)
  have I: "ledger w" "paths_owned w" "\<And>j. j < length ?ss \<Longrightarrow> session_wf (?ss ! j) \<and> named j (?ss ! j) \<and> content (?ss ! j) (acc j) (uw_files w)"
    "\<And>j. length ?ss \<le> j \<Longrightarrow> acc j = []"
    using inv unfolding world_inv_def by blast+
  have "named (length ?ss) s"
    using r(3-5) I(1) s unfolding named_def ledger_def Let_def by simp
  moreover have "session_wf s" "content s (acc (length ?ss)) (uw_files w)"
    using I(4) session_start_wf session_start_content unfolding s_def by simp_all
  ultimately have "\<forall>j < length (uw_sessions w1). session_wf (uw_sessions w1 ! j) \<and> named j (uw_sessions w1 ! j) \<and>
      content (uw_sessions w1 ! j) (acc j) (uw_files w1)"
    using I(3) by (auto simp: w1_def nth_append less_Suc_eq)
  moreover have "ledger w1"
    using I(1) False s unfolding ledger_def Let_def by (simp add: w1_def count_def)
  moreover have "paths_owned w1"
  proof -
    have in_res: "us_final_path (?ss ! j) \<in> set (up_reserved (uw_pool w))" if "j < length ?ss" "holds_path (?ss ! j)" for j
      using I(2) that unfolding paths_owned_def Let_def by auto
    have dis: "us_final_path (?ss ! j) \<noteq> us_final_path (?ss ! k)"
      if "j < length ?ss" "k < length ?ss" "j \<noteq> k" "holds_path (?ss ! j)" "holds_path (?ss ! k)" for j k
      using I(2) that unfolding paths_owned_def Let_def by blast
    have new: "us_final_path (?ss ! j) \<noteq> final" if "j < length ?ss" "holds_path (?ss ! j)" for j
      using in_res [OF that] r(2) by auto
    have "us_final_path ((?ss @ [s]) ! j) \<noteq> us_final_path ((?ss @ [s]) ! k)"
      if "j < Suc (length ?ss)" "k < Suc (length ?ss)" "j \<noteq> k" "holds_path ((?ss @ [s]) ! j)" "holds_path ((?ss @ [s]) ! k)" for j k
      using that dis [of j k] new [of j] new [of k] s(1)
      by (cases "j < length ?ss"; cases "k < length ?ss") (auto simp: nth_append)
    moreover have "set (final # up_reserved (uw_pool w)) = us_final_path ` set (filter holds_path (?ss @ [s]))"
      using I(2) s(1,5) unfolding paths_owned_def Let_def by simp
    ultimately show ?thesis unfolding paths_owned_def Let_def by (simp add: w1_def)
  qed
  ultimately show ?thesis using run I(4) by (auto simp: world_inv_def w1_def)
qed

text \<open>A run: the operations in the order in which they take effect, with the bytes each session accepted.\<close>

definition note_accepted :: "upload_op \<Rightarrow> bool \<Rightarrow> (nat \<Rightarrow> string) \<Rightarrow> nat \<Rightarrow> string" where
  "note_accepted op ok acc = (case op_index op of None \<Rightarrow> acc | Some i \<Rightarrow> acc(i := acc i @ accepted op ok))"

fun upload_run :: "upload_op list \<Rightarrow> upload_world \<Rightarrow> (nat \<Rightarrow> string) \<Rightarrow> (upload_world \<times> (nat \<Rightarrow> string)) option" where
  "upload_run [] w acc = Some (w, acc)"
| "upload_run (op # ops) w acc =
     (case upload_step op w of
        None \<Rightarrow> None
      | Some (ok, w1) \<Rightarrow>
          upload_run ops w1
            (if (case op_index op of None \<Rightarrow> False | Some i \<Rightarrow> i < length (uw_sessions w))
             then note_accepted op ok acc else acc))"

definition plain_op :: "upload_op \<Rightarrow> bool" where
  "plain_op op \<longleftrightarrow> (case op of U_create opts \<Rightarrow> plain_name (uo_file_name opts) | _ \<Rightarrow> True)"

lemma upload_step_keeps:
  assumes inv: "world_inv w acc" and plain: "plain_op op"
  shows "\<exists>ok w1. upload_step op w = Some (ok, w1) \<and>
    world_inv w1 (if (case op_index op of None \<Rightarrow> False | Some i \<Rightarrow> i < length (uw_sessions w))
             then note_accepted op ok acc else acc)"
proof (cases "op_index op")
  case None
  then obtain opts where op: "op = U_create opts" by (cases op) auto
  then show ?thesis using create_session_keeps [OF inv] plain by (simp add: upload_step_def plain_op_def)
next
  case (Some i)
  then have step: "upload_step op w = (if length (uw_sessions w) \<le> i then Some (False, w)
      else case session_step op (uw_sessions w ! i) (uw_pool w) (uw_files w) of
             None \<Rightarrow> None
           | Some (ok, s, pool, files) \<Rightarrow> Some (ok, put_session i s (w\<lparr>uw_pool := pool, uw_files := files\<rparr>)))"
    by (cases op) (auto simp: upload_step_def Let_def)
  show ?thesis
  proof (cases "i < length (uw_sessions w)")
    case True
    let ?s = "uw_sessions w ! i"
    have s: "session_wf ?s" "content ?s (acc i) (uw_files w)" "named i ?s" using inv True by (simp_all add: world_inv_def)
    have "us_queued ?s \<le> up_queued (uw_pool w)"
      using queued_le_sum [OF True] inv by (simp add: world_inv_def ledger_def Let_def)
    then obtain ok t pool1 files1 where "session_step op ?s (uw_pool w) (uw_files w) = Some (ok, t, pool1, files1)"
      and k: "step_keeps ?s (acc i) (uw_pool w) (uw_files w) t (acc i @ accepted op ok) pool1 files1"
      using session_step_keeps [OF s(1,2)] named_part_final [OF s(3) s(3)] by blast
    then show ?thesis
      using world_step_session [OF inv True refl k] True step Some by (simp add: note_accepted_def)
  qed (use step Some inv in \<open>simp add: ex_bool_eq\<close>)
qed

lemma upload_run_keeps:
  "world_inv w acc \<Longrightarrow> \<forall>op\<in>set ops. plain_op op \<Longrightarrow> \<exists>w1 acc1. upload_run ops w acc = Some (w1, acc1) \<and> world_inv w1 acc1"
proof (induction ops arbitrary: w acc)
  case (Cons op ops)
  from upload_step_keeps [OF Cons.prems(1), of op] Cons.prems(2) obtain ok w1 where
    step: "upload_step op w = Some (ok, w1)"
    and inv: "world_inv w1 (if (case op_index op of None \<Rightarrow> False | Some i \<Rightarrow> i < length (uw_sessions w))
             then note_accepted op ok acc else acc)"
    by auto
  from Cons.IH [OF inv] Cons.prems(2) step show ?case by simp
qed simp

lemma world_new_inv: "world_inv (world_new opts files) (\<lambda>i. [])"
  by (simp add: world_inv_def world_new_def ledger_def paths_owned_def pool_new_def count_def)

lemma distinct_filtered:
  "(\<And>i j. i < length ss \<Longrightarrow> j < length ss \<Longrightarrow> i \<noteq> j \<Longrightarrow> P (ss ! i) \<Longrightarrow> P (ss ! j) \<Longrightarrow> f (ss ! i) \<noteq> f (ss ! j)) \<Longrightarrow>
   distinct (map f (filter P ss))"
proof (induction ss)
  case (Cons x xs)
  have "f x \<noteq> f y" if "P x" "y \<in> set xs" "P y" for y
  proof -
    obtain j where "j < length xs" "xs ! j = y" using \<open>y \<in> set xs\<close> by (auto simp: in_set_conv_nth)
    then show ?thesis using Cons.prems [of 0 "Suc j"] \<open>P x\<close> \<open>P y\<close> by simp
  qed
  moreover have "distinct (map f (filter P xs))" using Cons.prems [of "Suc _" "Suc _"] by (intro Cons.IH) simp
  ultimately show ?case by auto
qed simp

subsection \<open>Properties\<close>

text \<open>
  C38: Whatever the interleaving of appends, finishes, cancellations and worker steps, with whatever
  outcomes of the file operations, an upload reported as ok has left exactly the bytes its appends
  accepted, in order, under its final path while it owns that path; the reported count is their number and
  exceeds the size limit by less than one block at most. File names are those the callers pass: without a
  slash and not starting with a dot.
\<close>

theorem upload_saves_what_it_accepted:
  assumes "\<forall>op\<in>set ops. plain_op op" and "upload_run ops (world_new opts files) (\<lambda>i. []) = Some (w, acc)"
    and "i < length (uw_sessions w)" and "us_phase (uw_sessions w ! i) \<in> {Ph_release, Ph_unreserve}"
    and "ur_ok (us_result (uw_sessions w ! i))"
  shows "map_of (uw_files w) (us_final_path (uw_sessions w ! i)) = Some (acc i) \<and>
    ur_bytes (us_result (uw_sessions w ! i)) = length (acc i) \<and>
    length (acc i) \<le> uo_max_size (us_options (uw_sessions w ! i)) + max (uo_block_size (us_options (uw_sessions w ! i))) 1"
proof -
  have "world_inv w acc"
    using upload_run_keeps [OF world_new_inv [of opts files] assms(1)] unfolding assms(2) by simp
  then have "content (uw_sessions w ! i) (acc i) (uw_files w)" using assms(3) by (simp add: world_inv_def)
  then show ?thesis using assms(4,5) unfolding content_def size_bound_def block_capacity_def by blast
qed

definition all_ok :: file_outcome where
  "all_ok = \<lparr>fo_ok = True, fo_opened = True, fo_error = []\<rparr>"

definition upload_example :: "upload_op list" where
  "upload_example =
     [U_create (default_upload_options\<lparr>uo_file_name := ''a.txt'', uo_block_size := 4, uo_max_size := 10\<rparr>),
      U_append 0 ''hello'', U_worker 0 all_ok, U_worker 0 all_ok, U_append 0 ''wor'', U_finish 0] @
     replicate 10 (U_worker 0 all_ok)"

theorem upload_saves_what_it_accepted_witness:
  "\<exists>w acc. upload_run upload_example (world_new default_pool_options [(''uploads/a.txt'', ''old'')]) (\<lambda>i. []) = Some (w, acc) \<and>
    map_of (uw_files w) (us_final_path (uw_sessions w ! 0)) = Some (acc 0) \<and>
    ur_bytes (us_result (uw_sessions w ! 0)) = length (acc 0)"
proof -
  let ?run = "upload_run upload_example (world_new default_pool_options [(''uploads/a.txt'', ''old'')]) (\<lambda>i. [])"
  have plain: "\<forall>op\<in>set upload_example. plain_op op" by code_simp
  have "case ?run of None \<Rightarrow> False | Some (w, acc) \<Rightarrow> 0 < length (uw_sessions w) \<and>
      us_phase (uw_sessions w ! 0) \<in> {Ph_release, Ph_unreserve} \<and> ur_ok (us_result (uw_sessions w ! 0))"
    by code_simp
  then obtain w acc where run: "?run = Some (w, acc)" "0 < length (uw_sessions w)"
    "us_phase (uw_sessions w ! 0) \<in> {Ph_release, Ph_unreserve}" "ur_ok (us_result (uw_sessions w ! 0))"
    by (auto split: option.splits)
  from upload_saves_what_it_accepted [OF plain run] run(1) show ?thesis by blast
qed



text \<open>
  The callbacks run outside the lock: the worker can drain the queue and report the low watermark before the
  network thread has reported the high one, which then comes last, with an empty queue behind it.
\<close>

lemma high_watermark_reported_late:
  "(case upload_run
      ([U_create (default_upload_options\<lparr>uo_block_size := 4, uo_high_watermark := 4, uo_low_watermark := 0\<rparr>),
        U_worker 0 all_ok, U_append 0 ''data''] @ replicate 4 (U_worker 0 all_ok) @ [U_high 0])
      (world_new default_pool_options []) (\<lambda>i. []) of
     None \<Rightarrow> False
   | Some (w, acc) \<Rightarrow> us_events (uw_sessions w ! 0) = [Ev_low, Ev_high] \<and> us_queued (uw_sessions w ! 0) = 0 \<and>
       \<not> us_above (uw_sessions w ! 0))"
  by code_simp

text \<open>
  A worker that could not open its file leaves the loop without failing the session, so an append that comes
  before the session is marked done is accepted: its bytes stay counted in the pool for ever.
\<close>

lemma queued_bytes_leak:
  "(case upload_run
      ([U_create (default_upload_options\<lparr>uo_block_size := 4\<rparr>), U_worker 0 (all_ok\<lparr>fo_opened := False\<rparr>),
        U_append 0 ''data'', U_worker 0 all_ok, U_append 0 ''xy''] @ replicate 8 (U_worker 0 all_ok))
      (world_new default_pool_options []) (\<lambda>i. []) of
     None \<Rightarrow> False
   | Some (w, acc) \<Rightarrow> us_phase (uw_sessions w ! 0) = Ph_end \<and> acc 0 = ''dataxy'' \<and> up_queued (uw_pool w) = 2)"
  by code_simp

text \<open>The block in the hands of the worker is not counted, so an upload can exceed its limit by a block.\<close>

lemma size_limit_exceeded:
  "(case upload_run
      [U_create (default_upload_options\<lparr>uo_block_size := 4, uo_max_size := 4\<rparr>), U_worker 0 all_ok, U_append 0 ''data'',
        U_worker 0 all_ok, U_append 0 ''more'']
      (world_new default_pool_options []) (\<lambda>i. []) of
     None \<Rightarrow> False | Some (w, acc) \<Rightarrow> acc 0 = ''datamore'' \<and> uo_max_size (us_options (uw_sessions w ! 0)) = 4)"
  by code_simp

end
