(* ===== verification/Http_Client.thy ===== *)
theory Http_Client
  imports Client_Cache Http_Context Parser_Rest
begin

text \<open>
  \<open>HttpClient\<close> (src/src/http/http_client.cpp, src/include/oklib/http/http_client.h): requests are
  queued, written to the connection and matched with the responses in order; a response is delivered
  whole or, with a streaming callback, piece by piece. Connections are numbered, for a connection that
  is shutting down may still be open when the next one is established. What the client does (bytes
  sent, calls of \<open>TcpClient\<close>, callbacks) is appended to an event log; a callback of the application is
  the list of calls it makes on the client.
\<close>

subsection \<open>Requests\<close>

definition serialize :: "string \<Rightarrow> bool \<Rightarrow> client_request \<Rightarrow> string" where
  "serialize host include_body request =
     cr_method request @ '' '' @ cr_target request @ '' HTTP/1.1'' @ crlf @
     (if \<not> hdr_contains ''Host'' (cr_headers request) then ''Host: '' @ host @ crlf else []) @
     (if \<not> hdr_contains ''Connection'' (cr_headers request) then ''Connection: Keep-Alive'' @ crlf else []) @
     (if cr_body request \<noteq> [] \<and> \<not> hdr_contains ''Content-Length'' (cr_headers request) \<and>
         \<not> hdr_contains ''Transfer-Encoding'' (cr_headers request)
      then ''Content-Length: '' @ to_chars 10 (length (cr_body request)) @ crlf else []) @
     concat (map (\<lambda>e. h_field e @ '': '' @ h_value e @ crlf) (cr_headers request)) @ crlf @
     (if include_body then cr_body request else [])"

function client_header_has_token :: "string \<Rightarrow> string \<Rightarrow> bool" where
  "client_header_has_token value token =
     (if value = [] then False
      else
        let comma = find_char CHR '','' value;
            part = trim_ows (case comma of None \<Rightarrow> value | Some c \<Rightarrow> take c value)
        in if equals_ignore_case part token then True
           else case comma of
                  None \<Rightarrow> False
                | Some c \<Rightarrow> client_header_has_token (drop (c + 1) value) token)"
  by pat_completeness auto
termination
  by (relation "measure (\<lambda>(value, token). length value)") auto

declare client_header_has_token.simps [simp del]

definition expects_continue :: "client_request \<Rightarrow> bool" where
  "expects_continue request \<longleftrightarrow>
     cr_body request \<noteq> [] \<and> equals_ignore_case (hdr_get ''Expect'' (cr_headers request)) ''100-continue''"

definition expects_no_response_body :: "client_request \<Rightarrow> bool" where
  "expects_no_response_body request \<longleftrightarrow> equals_ignore_case (cr_method request) ''HEAD''"

definition response_closes_connection :: "http_response_message \<Rightarrow> bool" where
  "response_closes_connection response \<longleftrightarrow>
     (let connection = hdr_get ''Connection'' (m_headers response)
      in client_header_has_token connection ''close'' \<or>
         (m_version response = V_http10 \<and> \<not> client_header_has_token connection ''Keep-Alive''))"

subsection \<open>State\<close>

record queued_request =
  qr_request :: client_request
  qr_cache_entry_id :: "nat option"

record response_stream =
  rs_data_callback :: bool
  rs_complete_callback :: bool
  rs_completed :: bool

definition response_stream_new :: response_stream where
  "response_stream_new = \<lparr>rs_data_callback = False, rs_complete_callback = False, rs_completed = False\<rparr>"

datatype client_command = Cmd_send client_request | Cmd_connect | Cmd_disconnect | Cmd_stop
  | Cmd_stream_handlers bool bool

datatype client_event = Ev_connect | Ev_disconnect | Ev_stop | Ev_sent nat string
  | Ev_response http_response_message | Ev_head http_response_message | Ev_data string | Ev_complete | Ev_error

record client_config =
  ck_host :: string
  ck_tls :: bool
  ck_clock :: "nat \<Rightarrow> http_time"
  ck_on_response :: "(http_response_message \<Rightarrow> client_command list) option"
  ck_on_streaming :: "(http_response_message \<Rightarrow> client_command list) option"
  ck_on_data :: "string \<Rightarrow> client_command list"
  ck_on_complete :: "client_command list"
  ck_on_error :: "client_command list option"

record client_state =
  hk_parser :: http_parser
  hk_connection :: "(nat \<times> bool) option"
  hk_buffers :: "nat \<Rightarrow> string"
  hk_pending :: "queued_request list"
  hk_in_flight :: "queued_request list"
  hk_stream :: response_stream
  hk_mode :: streaming_body_mode
  hk_chunk_state :: streaming_chunk_state
  hk_remaining :: u64
  hk_decoded :: u64
  hk_trailer_bytes :: nat
  hk_active :: bool
  hk_close :: bool
  hk_awaiting :: bool
  hk_connecting :: bool
  hk_stopped :: bool
  hk_cache :: "client_cache option"
  hk_deferred :: "http_response_message list"
  hk_ticks :: nat
  hk_events :: "client_event list"

definition client_new :: "client_cache option \<Rightarrow> client_state" where
  "client_new cache =
     \<lparr>hk_parser = parser_new Mode_response default_parser_options, hk_connection = None, hk_buffers = (\<lambda>n. []),
      hk_pending = [], hk_in_flight = [], hk_stream = response_stream_new, hk_mode = Body_none,
      hk_chunk_state = Chunk_size, hk_remaining = 0, hk_decoded = 0, hk_trailer_bytes = 0, hk_active = False,
      hk_close = False, hk_awaiting = False, hk_connecting = False, hk_stopped = False, hk_cache = cache,
      hk_deferred = [], hk_ticks = 0, hk_events = []\<rparr>"

definition client_emit :: "client_event \<Rightarrow> client_state \<Rightarrow> client_state" where
  "client_emit e s = s\<lparr>hk_events := hk_events s @ [e]\<rparr>"

definition client_connected :: "client_state \<Rightarrow> bool" where
  "client_connected s \<longleftrightarrow> (case hk_connection s of None \<Rightarrow> False | Some (n, up) \<Rightarrow> up)"

text \<open>\<open>system_clock::now()\<close>.\<close>

definition read_clock :: "client_config \<Rightarrow> client_state \<Rightarrow> http_time \<times> client_state" where
  "read_clock cfg s = (ck_clock cfg (hk_ticks s), s\<lparr>hk_ticks := hk_ticks s + 1\<rparr>)"

text \<open>
  \<open>connection_->send\<close> on a connected connection, and \<open>TcpClient::disconnect\<close>, which shuts the connection
  down: it is no longer connected but stays open until the peer closes.
\<close>

definition client_conn_send :: "string \<Rightarrow> client_state \<Rightarrow> client_state" where
  "client_conn_send bytes s =
     (case hk_connection s of
        Some (n, True) \<Rightarrow> client_emit (Ev_sent n bytes) s
      | _ \<Rightarrow> s)"

definition tcp_disconnect :: "client_state \<Rightarrow> client_state" where
  "tcp_disconnect s =
     client_emit Ev_disconnect
       (s\<lparr>hk_connection := (case hk_connection s of None \<Rightarrow> None | Some (n, up) \<Rightarrow> Some (n, False))\<rparr>)"

subsection \<open>Sending\<close>

definition request_connect :: "client_state \<Rightarrow> client_state" where
  "request_connect s =
     (if hk_stopped s \<or> hk_connecting s \<or> client_connected s then s
      else client_emit Ev_connect (s\<lparr>hk_connecting := True\<rparr>))"

fun client_flush_loop :: "string \<Rightarrow> queued_request list \<Rightarrow> client_state \<Rightarrow> client_state" where
  "client_flush_loop host [] s = s\<lparr>hk_pending := []\<rparr>"
| "client_flush_loop host (q # qs) s =
     (let wait_for_continue = expects_continue (qr_request q);
          s1 = client_conn_send (serialize host (\<not> wait_for_continue) (qr_request q)) s;
          s2 = s1\<lparr>hk_in_flight := hk_in_flight s1 @ [q]\<rparr>
      in if wait_for_continue then s2\<lparr>hk_pending := qs, hk_awaiting := True\<rparr>
         else client_flush_loop host qs s2)"

definition flush_requests :: "client_config \<Rightarrow> client_state \<Rightarrow> client_state" where
  "flush_requests cfg s =
     (if \<not> client_connected s then s
      else if hk_awaiting s then s
      else client_flush_loop (ck_host cfg) (hk_pending s) s)"

definition cache_scheme :: "client_config \<Rightarrow> string" where
  "cache_scheme cfg = (if ck_tls cfg then ''https'' else ''http'')"

definition set_request_headers :: "http_headers \<Rightarrow> client_request \<Rightarrow> client_request" where
  "set_request_headers headers request =
     fold (\<lambda>e r. r\<lparr>cr_headers := hdr_set (h_field e) (h_value e) (cr_headers r)\<rparr>) headers request"

definition enqueue :: "client_config \<Rightarrow> queued_request \<Rightarrow> client_state \<Rightarrow> client_state" where
  "enqueue cfg queued s =
     (let s1 = s\<lparr>hk_pending := hk_pending s @ [queued]\<rparr>
      in if \<not> client_connected s1 then request_connect s1 else flush_requests cfg s1)"

definition client_send_in_loop :: "client_config \<Rightarrow> client_request \<Rightarrow> client_state \<Rightarrow> client_state" where
  "client_send_in_loop cfg request s0 =
     (let s = s0\<lparr>hk_stopped := False\<rparr>; queued = \<lparr>qr_request = request, qr_cache_entry_id = None\<rparr>
      in case hk_cache s of
           None \<Rightarrow> enqueue cfg queued s
         | Some cache \<Rightarrow>
             if ck_on_streaming cfg \<noteq> None then enqueue cfg queued s
             else
               let (now, s1) = read_clock cfg s;
                   (lookup, cache1) = cache_lookup (cache_scheme cfg) (ck_host cfg) request now cache;
                   s2 = s1\<lparr>hk_cache := Some cache1\<rparr>
               in if lr_state lookup = Lookup_fresh then s2\<lparr>hk_deferred := hk_deferred s2 @ [lr_response lookup]\<rparr>
                  else if lr_state lookup = Lookup_stale \<and> lr_entry_id lookup \<noteq> None then
                    enqueue cfg \<lparr>qr_request = set_request_headers (lr_validation_headers lookup) request,
                                 qr_cache_entry_id = lr_entry_id lookup\<rparr> s2
                  else enqueue cfg queued s2)"

definition client_connect :: "client_state \<Rightarrow> client_state" where
  "client_connect s = request_connect (s\<lparr>hk_stopped := False\<rparr>)"

definition client_disconnect :: "client_state \<Rightarrow> client_state" where
  "client_disconnect s = tcp_disconnect (s\<lparr>hk_stopped := True, hk_connecting := False, hk_awaiting := False\<rparr>)"

definition client_stop :: "client_state \<Rightarrow> client_state" where
  "client_stop s = client_emit Ev_stop (s\<lparr>hk_stopped := True, hk_connecting := False, hk_awaiting := False\<rparr>)"

definition client_call :: "client_config \<Rightarrow> client_command \<Rightarrow> client_state \<Rightarrow> client_state" where
  "client_call cfg cmd s =
     (case cmd of
        Cmd_send request \<Rightarrow> client_send_in_loop cfg request s
      | Cmd_connect \<Rightarrow> client_connect s
      | Cmd_disconnect \<Rightarrow> client_disconnect s
      | Cmd_stop \<Rightarrow> client_stop s
      | Cmd_stream_handlers data complete \<Rightarrow>
          s\<lparr>hk_stream := (hk_stream s)\<lparr>rs_data_callback := data, rs_complete_callback := complete\<rparr>\<rparr>)"

definition client_commands :: "client_config \<Rightarrow> client_command list \<Rightarrow> client_state \<Rightarrow> client_state" where
  "client_commands cfg cmds s = fold (client_call cfg) cmds s"

subsection \<open>The response stream\<close>

definition stream_on_data :: "client_config \<Rightarrow> string \<Rightarrow> client_state \<Rightarrow> client_state" where
  "stream_on_data cfg chunk s =
     (if chunk = [] then s
      else if rs_data_callback (hk_stream s) then client_commands cfg (ck_on_data cfg chunk) (client_emit (Ev_data chunk) s)
      else s)"

definition stream_on_complete :: "client_config \<Rightarrow> client_state \<Rightarrow> client_state" where
  "stream_on_complete cfg s =
     (if rs_completed (hk_stream s) then s
      else
        let s1 = s\<lparr>hk_stream := (hk_stream s)\<lparr>rs_completed := True\<rparr>\<rparr>
        in if rs_complete_callback (hk_stream s1) then client_commands cfg (ck_on_complete cfg) (client_emit Ev_complete s1)
           else s1)"

text \<open>What \<open>finish_streaming_response\<close> and \<open>handle_parse_error\<close> both reset.\<close>

definition clear_streaming :: "client_state \<Rightarrow> client_state" where
  "clear_streaming s =
     s\<lparr>hk_active := False, hk_close := False, hk_mode := Body_none, hk_chunk_state := Chunk_size, hk_remaining := 0,
       hk_decoded := 0, hk_trailer_bytes := 0\<rparr>"

definition finish_streaming_response :: "client_config \<Rightarrow> client_state \<Rightarrow> client_state" where
  "finish_streaming_response cfg s =
     (let close_after_response = hk_close s;
          s1 = clear_streaming s;
          s2 = s1\<lparr>hk_in_flight := tl (hk_in_flight s1)\<rparr>;
          s3 = (stream_on_complete cfg s2)\<lparr>hk_stream := response_stream_new\<rparr>
      in if close_after_response then tcp_disconnect s3
         else if \<not> hk_stopped s3 then flush_requests cfg s3
         else s3)"

text \<open>The next piece of the body in the buffer, handed to the stream.\<close>

definition client_deliver :: "client_config \<Rightarrow> client_state \<Rightarrow> string \<Rightarrow> nat \<times> client_state \<times> string" where
  "client_deliver cfg s buf =
     (let chunk_size = min (unat (hk_remaining s)) (length buf);
          s1 = stream_on_data cfg (take chunk_size buf) s
      in (chunk_size, s1\<lparr>hk_remaining := hk_remaining s1 - of_nat chunk_size\<rparr>, drop chunk_size buf))"

definition same_body :: "client_state \<Rightarrow> client_state \<Rightarrow> bool" where
  "same_body s t \<longleftrightarrow> hk_parser t = hk_parser s \<and> hk_buffers t = hk_buffers s \<and>
     hk_mode t = hk_mode s \<and> hk_chunk_state t = hk_chunk_state s \<and> hk_remaining t = hk_remaining s \<and>
     hk_decoded t = hk_decoded s \<and> hk_trailer_bytes t = hk_trailer_bytes s \<and> hk_active t = hk_active s \<and>
     hk_close t = hk_close s"

lemma same_body_refl [simp]: "same_body s s"
  by (simp add: same_body_def)

lemma same_body_trans: "same_body s t \<Longrightarrow> same_body t u \<Longrightarrow> same_body s u"
  by (simp add: same_body_def)

lemma same_body_emit [simp]: "same_body s (client_emit e t) = same_body s t"
  by (simp add: same_body_def client_emit_def)

lemma same_body_send [simp]: "same_body s (client_conn_send bytes t) = same_body s t"
  by (auto simp: same_body_def client_conn_send_def client_emit_def split: option.split bool.split)

lemma same_body_flush: "same_body s t \<Longrightarrow> same_body s (client_flush_loop host qs t)"
proof (induction qs arbitrary: t)
  case (Cons q qs)
  have "same_body s ((client_conn_send b t)\<lparr>hk_in_flight := x\<rparr>)" for b x
    using Cons.prems same_body_send [of s b t] by (simp add: same_body_def)
  then show ?case using Cons.IH by (auto simp: Let_def same_body_def)
qed (simp add: same_body_def)

lemma same_body_flush_requests: "same_body s (flush_requests cfg s)"
  by (simp add: flush_requests_def same_body_flush)

lemma same_body_request_connect: "same_body s (request_connect s)"
  by (simp add: request_connect_def) (simp add: same_body_def)

lemma same_body_enqueue: "same_body s (enqueue cfg q s)"
  using same_body_request_connect [of "s\<lparr>hk_pending := hk_pending s @ [q]\<rparr>"]
    same_body_flush_requests [of "s\<lparr>hk_pending := hk_pending s @ [q]\<rparr>" cfg]
  by (simp add: enqueue_def Let_def) (simp add: same_body_def)

lemma same_body_send_in_loop: "same_body s (client_send_in_loop cfg r s)"
proof -
  have "same_body s (enqueue cfg q t)" if "same_body s t" for q t
    using that same_body_enqueue same_body_trans by blast
  moreover have "same_body s (s\<lparr>hk_stopped := False\<rparr>)"
    "\<And>c. same_body s (s\<lparr>hk_stopped := False, hk_ticks := hk_ticks s + 1, hk_cache := c\<rparr>)"
    "\<And>c d. same_body s (s\<lparr>hk_stopped := False, hk_ticks := hk_ticks s + 1, hk_cache := c, hk_deferred := d\<rparr>)"
    by (simp_all add: same_body_def)
  ultimately show ?thesis
    by (auto simp: client_send_in_loop_def read_clock_def Let_def split: option.split prod.split)
qed

lemma same_body_command: "same_body s (client_call cfg cmd s)"
proof (cases cmd)
  case Cmd_connect
  then show ?thesis using same_body_request_connect [of "s\<lparr>hk_stopped := False\<rparr>"]
    by (simp add: client_call_def client_connect_def) (simp add: same_body_def)
qed (simp_all add: client_call_def same_body_send_in_loop client_disconnect_def tcp_disconnect_def client_stop_def,
    simp_all add: same_body_def)

lemma same_body_commands: "same_body s t \<Longrightarrow> same_body s (client_commands cfg cmds t)"
  unfolding client_commands_def
  by (induction cmds arbitrary: t) (simp_all, metis same_body_trans same_body_command)

lemma same_body_on_data: "same_body s (stream_on_data cfg chunk s)"
  by (simp add: stream_on_data_def same_body_commands)

lemma same_body_on_complete: "same_body s (stream_on_complete cfg s)"
  by (auto simp: stream_on_complete_def Let_def intro!: same_body_commands) (simp_all add: same_body_def)

lemma client_deliver_shorter:
  assumes "client_deliver cfg s buf = (n, t, rest)" and "hk_remaining s \<noteq> 0" and "buf \<noteq> []"
  shows "length rest < length buf"
proof -
  have "0 < unat (hk_remaining s)" using assms(2) by (metis gr0I unsigned_eq_0_iff)
  then show ?thesis using assms(1,3) by (auto simp: client_deliver_def Let_def)
qed

function client_process_fixed :: "client_config \<Rightarrow> client_state \<Rightarrow> string \<Rightarrow> parse_status \<times> client_state \<times> string" where
  "client_process_fixed cfg s buf =
     (if hk_remaining s \<noteq> 0 \<and> buf \<noteq> [] then
        (case client_deliver cfg s buf of (n, s1, buf1) \<Rightarrow> client_process_fixed cfg s1 buf1)
      else if hk_remaining s \<noteq> 0 then (Incomplete, s, buf)
      else (Complete, finish_streaming_response cfg s, buf))"
  by pat_completeness auto
termination
  by (relation "measure (\<lambda>(cfg, s, buf). length buf)") (auto dest: client_deliver_shorter [OF sym])

declare client_process_fixed.simps [simp del]

definition client_chunk_size_step :: "client_state \<Rightarrow> string \<Rightarrow> chunk_control \<times> client_state \<times> string" where
  "client_chunk_size_step s buf =
     (case find_str crlf buf of
        None \<Rightarrow> (Chunk_return Incomplete, s, buf)
      | Some eol \<Rightarrow>
          let line = take eol buf;
              size_part = (case find_char CHR '';'' line of None \<Rightarrow> line | Some semicolon \<Rightarrow> take semicolon line)
          in (case parse_hex_u64 size_part of
                None \<Rightarrow> (Chunk_return Error, s, buf)
              | Some sz \<Rightarrow>
                  if k_max_streaming_body < sz \<or> k_max_streaming_body - sz < hk_decoded s
                  then (Chunk_return Error, s, buf)
                  else (Chunk_again,
                        s\<lparr>hk_remaining := sz, hk_chunk_state := (if sz = 0 then Chunk_trailers else Chunk_data)\<rparr>,
                        drop (eol + 2) buf)))"

definition client_chunk_data_step :: "client_config \<Rightarrow> client_state \<Rightarrow> string \<Rightarrow> chunk_control \<times> client_state \<times> string" where
  "client_chunk_data_step cfg s buf =
     (if buf = [] then (Chunk_return Incomplete, s, buf)
      else case client_deliver cfg s buf of
             (n, s1, buf1) \<Rightarrow>
               let s2 = s1\<lparr>hk_decoded := hk_decoded s1 + of_nat n\<rparr>
               in (Chunk_again, (if hk_remaining s2 = 0 then s2\<lparr>hk_chunk_state := Chunk_data_crlf\<rparr> else s2), buf1))"

definition client_chunk_crlf_step :: "client_state \<Rightarrow> string \<Rightarrow> chunk_control \<times> client_state \<times> string" where
  "client_chunk_crlf_step s buf =
     (if length buf < 2 then (Chunk_return Incomplete, s, buf)
      else if buf ! 0 \<noteq> CHR 0x0D \<or> buf ! 1 \<noteq> CHR 0x0A then (Chunk_return Error, s, buf)
      else (Chunk_again, s\<lparr>hk_chunk_state := Chunk_size\<rparr>, drop 2 buf))"

definition client_chunk_trailers_step :: "client_config \<Rightarrow> client_state \<Rightarrow> string \<Rightarrow> chunk_control \<times> client_state \<times> string" where
  "client_chunk_trailers_step cfg s buf =
     (case find_str crlf buf of
        None \<Rightarrow> (Chunk_return Incomplete, s, buf)
      | Some line_size \<Rightarrow>
          let s1 = s\<lparr>hk_trailer_bytes := hk_trailer_bytes s + (line_size + 2)\<rparr>
          in if k_max_streaming_trailers < hk_trailer_bytes s1 then (Chunk_return Error, s1, buf)
             else if line_size = 0 then (Chunk_return Complete, finish_streaming_response cfg s1, drop 2 buf)
             else if \<not> valid_trailer_line (take line_size buf) then (Chunk_return Error, s1, buf)
             else (Chunk_again, s1, drop (line_size + 2) buf))"

definition client_chunk_step :: "client_config \<Rightarrow> client_state \<Rightarrow> string \<Rightarrow> chunk_control \<times> client_state \<times> string" where
  "client_chunk_step cfg s buf =
     (case hk_chunk_state s of
        Chunk_size \<Rightarrow> client_chunk_size_step s buf
      | Chunk_data \<Rightarrow> client_chunk_data_step cfg s buf
      | Chunk_data_crlf \<Rightarrow> client_chunk_crlf_step s buf
      | Chunk_trailers \<Rightarrow> client_chunk_trailers_step cfg s buf)"

definition client_chunk_measure :: "client_state \<times> string \<Rightarrow> nat" where
  "client_chunk_measure sb = 2 * length (snd sb) + (if hk_chunk_state (fst sb) = Chunk_data then 1 else 0)"

lemma client_deliver_more:
  assumes "client_deliver cfg s buf = (n, t, rest)"
  shows "hk_chunk_state t = hk_chunk_state s" "length rest \<le> length buf"
    "hk_remaining t = hk_remaining s - of_nat n" "n = min (unat (hk_remaining s)) (length buf)"
  using assms same_body_on_data [of s cfg "take n buf"]
  by (auto simp: client_deliver_def same_body_def Let_def)

lemma client_chunk_step_measure:
  assumes "client_chunk_step cfg s buf = (Chunk_again, t, rest)"
  shows "client_chunk_measure (t, rest) < client_chunk_measure (s, buf)"
proof (cases "hk_chunk_state s")
  case Chunk_size
  with assms obtain eol where "find_str crlf buf = Some eol" "rest = drop (eol + 2) buf"
    by (auto simp: client_chunk_step_def client_chunk_size_step_def Let_def split: option.splits if_splits)
  moreover from this have "eol + 2 \<le> length buf" using find_str_bound [of crlf buf eol] by simp
  ultimately show ?thesis using Chunk_size by (auto simp: client_chunk_measure_def)
next
  case Chunk_data
  obtain n d where d: "client_deliver cfg s buf = (n, d, rest)" "buf \<noteq> []"
      "hk_chunk_state t = (if hk_remaining d = 0 then Chunk_data_crlf else hk_chunk_state d)"
    using assms Chunk_data
    by (auto simp: client_chunk_step_def client_chunk_data_step_def Let_def split: if_splits prod.splits)
  note more = client_deliver_more [OF d(1)]
  show ?thesis
  proof (cases "hk_remaining s = 0")
    case True
    then have "hk_remaining d = 0" using more(3,4) by simp
    then show ?thesis using d(3) more(2) Chunk_data by (simp add: client_chunk_measure_def)
  next
    case False
    then have "length rest < length buf" using client_deliver_shorter [OF d(1)] d(2) by blast
    then show ?thesis using Chunk_data by (simp add: client_chunk_measure_def)
  qed
next
  case Chunk_data_crlf
  with assms show ?thesis
    by (auto simp: client_chunk_step_def client_chunk_crlf_step_def client_chunk_measure_def split: if_splits)
next
  case Chunk_trailers
  with assms obtain eol where "find_str crlf buf = Some eol" "rest = drop (eol + 2) buf" "hk_chunk_state t = Chunk_trailers"
    by (auto simp: client_chunk_step_def client_chunk_trailers_step_def Let_def split: option.splits if_splits)
  moreover from this have "eol + 2 \<le> length buf" using find_str_bound [of crlf buf eol] by simp
  ultimately show ?thesis using Chunk_trailers by (auto simp: client_chunk_measure_def)
qed

function client_process_chunked :: "client_config \<Rightarrow> client_state \<Rightarrow> string \<Rightarrow> parse_status \<times> client_state \<times> string" where
  "client_process_chunked cfg s buf =
     (case client_chunk_step cfg s buf of
        (control, s1, buf1) \<Rightarrow>
          (case control of
             Chunk_again \<Rightarrow> client_process_chunked cfg s1 buf1
           | Chunk_return status \<Rightarrow> (status, s1, buf1)))"
  by pat_completeness auto
termination
  by (relation "measure (\<lambda>(cfg, s, buf). client_chunk_measure (s, buf))") (auto dest: client_chunk_step_measure [OF sym])

declare client_process_chunked.simps [simp del]

definition client_streaming_body :: "client_config \<Rightarrow> client_state \<Rightarrow> string \<Rightarrow> parse_status \<times> client_state \<times> string" where
  "client_streaming_body cfg s buf =
     (if hk_mode s = Body_chunked then client_process_chunked cfg s buf else client_process_fixed cfg s buf)"

subsection \<open>Messages\<close>

definition handle_continue_response :: "client_state \<Rightarrow> client_state" where
  "handle_continue_response s =
     (if \<not> hk_awaiting s \<or> \<not> client_connected s \<or> hk_in_flight s = [] then s
      else (client_conn_send (cr_body (qr_request (hd (hk_in_flight s)))) s)\<lparr>hk_awaiting := False\<rparr>)"

definition handle_parse_error :: "client_config \<Rightarrow> client_state \<Rightarrow> client_state" where
  "handle_parse_error cfg s =
     (let s1 = clear_streaming (s\<lparr>hk_parser := parser_reset (hk_parser s), hk_pending := [], hk_in_flight := [],
            hk_awaiting := False\<rparr>);
          s2 = (case ck_on_error cfg of None \<Rightarrow> s1 | Some cmds \<Rightarrow> client_commands cfg cmds (client_emit Ev_error s1))
      in tcp_disconnect s2)"

definition reset_parser :: "client_state \<Rightarrow> client_state" where
  "reset_parser s = s\<lparr>hk_parser := parser_reset (hk_parser s)\<rparr>"

definition with_client_buffer :: "nat \<Rightarrow> string \<Rightarrow> client_state \<Rightarrow> client_state" where
  "with_client_buffer n buf s = s\<lparr>hk_buffers := (hk_buffers s)(n := buf)\<rparr>"

text \<open>
  The body of \<open>on_message\<close>'s loop in its three branches; the flag is whether the loop goes on.
\<close>

definition streaming_body_step :: "client_config \<Rightarrow> nat \<Rightarrow> client_state \<Rightarrow> bool \<times> client_state" where
  "streaming_body_step cfg n s =
     (case client_streaming_body cfg s (hk_buffers s n) of
        (status, s1, buf) \<Rightarrow>
          let s2 = with_client_buffer n buf s1
          in (case status of
                Error \<Rightarrow> (False, handle_parse_error cfg s2)
              | Incomplete \<Rightarrow> (False, s2)
              | Complete \<Rightarrow> (client_connected s2 \<and> buf \<noteq> [], s2)))"

definition start_stream :: "bool \<Rightarrow> http_response_message \<Rightarrow> client_state \<Rightarrow> client_state" where
  "start_stream request_expects_no_body response s0 =
     (let s = s0\<lparr>hk_close := response_closes_connection response, hk_stream := response_stream_new\<rparr>;
          len = (case m_content_length response of None \<Rightarrow> 0 | Some l \<Rightarrow> l);
          has_body = (\<not> request_expects_no_body \<and> status_code_allows_body (m_status_code response))
      in if has_body \<and> m_chunked response then
           s\<lparr>hk_mode := Body_chunked, hk_chunk_state := Chunk_size, hk_remaining := 0, hk_decoded := 0,
             hk_trailer_bytes := 0, hk_active := True\<rparr>
         else if has_body \<and> 0 < len then
           s\<lparr>hk_mode := Body_fixed_length, hk_remaining := len, hk_active := True\<rparr>
         else s)"

definition streaming_response_step :: "client_config \<Rightarrow> (http_response_message \<Rightarrow> client_command list) \<Rightarrow> bool \<Rightarrow>
    http_response_message \<Rightarrow> nat \<Rightarrow> client_state \<Rightarrow> bool \<times> client_state" where
  "streaming_response_step cfg callback request_expects_no_body response n s =
     (let s1 = start_stream request_expects_no_body response (reset_parser s);
          head = response\<lparr>m_body := []\<rparr>;
          s2 = client_commands cfg (callback head) (client_emit (Ev_head head) s1)
      in if \<not> hk_active s2 then
           (let s3 = finish_streaming_response cfg s2 in (client_connected s3 \<and> hk_buffers s3 n \<noteq> [], s3))
         else streaming_body_step cfg n s2)"

definition cache_response :: "client_config \<Rightarrow> queued_request \<Rightarrow> http_response_message \<Rightarrow> client_state \<Rightarrow>
    http_response_message \<times> client_state" where
  "cache_response cfg completed response s =
     (case hk_cache s of
        None \<Rightarrow> (response, s)
      | Some cache \<Rightarrow>
          let (now, s1) = read_clock cfg s
          in if m_status_code response = 304 \<and> qr_cache_entry_id completed \<noteq> None then
               (case update_from_304 (the (qr_cache_entry_id completed)) response now cache of
                  (revalidated, cache1) \<Rightarrow>
                    (case revalidated of None \<Rightarrow> response | Some r \<Rightarrow> r, s1\<lparr>hk_cache := Some cache1\<rparr>))
             else
               let (clock, s2) = read_clock cfg s1
               in (response, s2\<lparr>hk_cache := Some (cache_store clock (cache_scheme cfg) (ck_host cfg)
                     (qr_request completed) response now cache)\<rparr>))"

definition whole_response_step :: "client_config \<Rightarrow> http_response_message \<Rightarrow> nat \<Rightarrow> client_state \<Rightarrow> bool \<times> client_state" where
  "whole_response_step cfg response0 n s =
     (let close_after_response = response_closes_connection response0;
          s1 = reset_parser s;
          (response, s2) =
            (case hk_in_flight s1 of
               [] \<Rightarrow> (response0, s1)
             | completed # waiting \<Rightarrow> cache_response cfg completed response0 (s1\<lparr>hk_in_flight := waiting\<rparr>));
          s3 = (case ck_on_response cfg of
                  None \<Rightarrow> s2
                | Some callback \<Rightarrow> client_commands cfg (callback response) (client_emit (Ev_response response) s2))
      in if close_after_response then (False, tcp_disconnect s3)
         else let s4 = flush_requests cfg s3 in (hk_buffers s4 n \<noteq> [], s4))"

definition client_response_step :: "client_config \<Rightarrow> nat \<Rightarrow> client_state \<Rightarrow> (bool \<times> client_state) option" where
  "client_response_step cfg n s =
     (let request_expects_no_body =
            (hk_in_flight s \<noteq> [] \<and> expects_no_response_body (qr_request (hd (hk_in_flight s))))
      in case (if ck_on_streaming cfg \<noteq> None \<or> request_expects_no_body
               then parse_response_head (hk_parser s) (hk_buffers s n)
               else parse_response (hk_parser s) (hk_buffers s n)) of
           (None, p, buf) \<Rightarrow> None
         | (Some status, p, buf) \<Rightarrow>
             let s1 = with_client_buffer n buf (s\<lparr>hk_parser := p\<rparr>)
             in (case status of
                   Incomplete \<Rightarrow> Some (False, s1)
                 | Error \<Rightarrow> Some (False, handle_parse_error cfg s1)
                 | Complete \<Rightarrow>
                     let response = p_response p
                     in if m_status_code response = 100 then
                          (let s2 = handle_continue_response (reset_parser s1) in Some (hk_buffers s2 n \<noteq> [], s2))
                        else
                          let s2 = s1\<lparr>hk_awaiting := False\<rparr>
                          in Some (case ck_on_streaming cfg of
                                     Some callback \<Rightarrow>
                                       streaming_response_step cfg callback request_expects_no_body response n s2
                                   | None \<Rightarrow> whole_response_step cfg response n s2)))"

definition client_message_step :: "client_config \<Rightarrow> nat \<Rightarrow> client_state \<Rightarrow> (bool \<times> client_state) option" where
  "client_message_step cfg n s =
     (if hk_active s then Some (streaming_body_step cfg n s) else client_response_step cfg n s)"

subsection \<open>The loop ends\<close>

lemma finish_streaming_response_more:
  "hk_parser (finish_streaming_response cfg s) = hk_parser s"
  "hk_buffers (finish_streaming_response cfg s) = hk_buffers s"
  "\<not> hk_active (finish_streaming_response cfg s)"
proof -
  let ?s2 = "(clear_streaming s)\<lparr>hk_in_flight := tl (hk_in_flight (clear_streaming s))\<rparr>"
  define t where "t = (stream_on_complete cfg ?s2)\<lparr>hk_stream := response_stream_new\<rparr>"
  have "same_body ?s2 (stream_on_complete cfg ?s2)" by (rule same_body_on_complete)
  then have t: "hk_parser t = hk_parser s" "hk_buffers t = hk_buffers s" "\<not> hk_active t"
    by (simp_all add: t_def same_body_def clear_streaming_def)
  moreover have "same_body t (flush_requests cfg t)" by (rule same_body_flush_requests)
  moreover have "same_body t (tcp_disconnect t)"
    unfolding tcp_disconnect_def same_body_emit by (simp add: same_body_def)
  ultimately show "hk_parser (finish_streaming_response cfg s) = hk_parser s"
    "hk_buffers (finish_streaming_response cfg s) = hk_buffers s" "\<not> hk_active (finish_streaming_response cfg s)"
    unfolding finish_streaming_response_def Let_def t_def [symmetric] by (simp_all add: same_body_def)
qed

definition body_kept :: "client_state \<Rightarrow> string \<Rightarrow> parse_status \<times> client_state \<times> string \<Rightarrow> bool" where
  "body_kept s buf r \<longleftrightarrow>
     (case r of (status, t, rest) \<Rightarrow>
        hk_parser t = hk_parser s \<and> hk_buffers t = hk_buffers s \<and> length rest \<le> length buf \<and>
        (status = Complete \<longrightarrow> \<not> hk_active t))"

lemma client_deliver_kept:
  assumes "client_deliver cfg s buf = (n, t, rest)"
  shows "hk_parser t = hk_parser s" "hk_buffers t = hk_buffers s" "length rest \<le> length buf"
  using assms same_body_on_data [of s cfg "take n buf"]
  by (auto simp: client_deliver_def same_body_def Let_def)

lemma client_process_fixed_kept: "body_kept s buf (client_process_fixed cfg s buf)"
proof (induction cfg s buf rule: client_process_fixed.induct)
  case (1 cfg s buf)
  show ?case
  proof (cases "hk_remaining s \<noteq> 0 \<and> buf \<noteq> []")
    case True
    obtain n t rest where d: "client_deliver cfg s buf = (n, t, rest)" by (cases "client_deliver cfg s buf")
    have "body_kept t rest (client_process_fixed cfg t rest)" using 1 True d by simp
    then show ?thesis using True d client_deliver_kept [OF d]
      by (auto simp: client_process_fixed.simps [of cfg s buf] body_kept_def split: prod.splits)
  qed (auto simp: client_process_fixed.simps [of cfg s buf] body_kept_def finish_streaming_response_more)
qed

lemma client_chunk_step_kept:
  assumes "client_chunk_step cfg s buf = (control, t, rest)"
  shows "hk_parser t = hk_parser s" "hk_buffers t = hk_buffers s" "length rest \<le> length buf"
    "control = Chunk_return Complete \<Longrightarrow> \<not> hk_active t"
  using assms client_deliver_kept
  by (auto simp: client_chunk_step_def client_chunk_size_step_def client_chunk_data_step_def client_chunk_crlf_step_def
      client_chunk_trailers_step_def finish_streaming_response_more Let_def
      split: streaming_chunk_state.splits option.splits if_splits prod.splits)

lemma client_process_chunked_kept: "body_kept s buf (client_process_chunked cfg s buf)"
proof (induction cfg s buf rule: client_process_chunked.induct)
  case (1 cfg s buf)
  obtain control t rest where step: "client_chunk_step cfg s buf = (control, t, rest)"
    by (cases "client_chunk_step cfg s buf")
  note kept = client_chunk_step_kept [OF step]
  show ?case
  proof (cases control)
    case Chunk_again
    then have "body_kept t rest (client_process_chunked cfg t rest)" using 1 step by simp
    then show ?thesis using step kept Chunk_again
      by (auto simp: client_process_chunked.simps [of cfg s buf] body_kept_def split: prod.splits)
  qed (use step kept in \<open>auto simp: client_process_chunked.simps [of cfg s buf] body_kept_def\<close>)
qed

lemma client_streaming_body_kept: "body_kept s buf (client_streaming_body cfg s buf)"
  by (simp add: client_streaming_body_def client_process_chunked_kept client_process_fixed_kept)

definition client_measure :: "nat \<Rightarrow> client_state \<Rightarrow> nat" where
  "client_measure n s =
     4 * length (hk_buffers s n) + (if hk_active s then 2 else 0) +
     (if p_state (hk_parser s) = S_start_line then 0 else 1)"

lemma streaming_body_step_again:
  assumes "streaming_body_step cfg n s = (True, t)"
  shows "hk_parser t = hk_parser s" "length (hk_buffers t n) \<le> length (hk_buffers s n)" "\<not> hk_active t"
  using assms client_streaming_body_kept [of s "hk_buffers s n" cfg]
  by (auto simp: streaming_body_step_def with_client_buffer_def body_kept_def Let_def
      split: prod.splits parse_status.splits)

text \<open>What the branches behind a parsed response leave: the parser at a start line, no body active.\<close>

definition response_settled :: "nat \<Rightarrow> string \<Rightarrow> client_state \<Rightarrow> bool" where
  "response_settled n buf t \<longleftrightarrow> p_state (hk_parser t) = S_start_line \<and> hk_buffers t n = buf \<and> \<not> hk_active t"

lemma settled_same_body: "same_body s t \<Longrightarrow> response_settled n buf t = response_settled n buf s"
  by (simp add: response_settled_def same_body_def)

lemma settled_commands [simp]: "response_settled n buf (client_commands cfg cmds s) = response_settled n buf s"
  by (rule settled_same_body) (simp add: same_body_commands)

lemma settled_emit [simp]: "response_settled n buf (client_emit e s) = response_settled n buf s"
  by (simp add: response_settled_def client_emit_def)

lemma settled_flush [simp]: "response_settled n buf (flush_requests cfg s) = response_settled n buf s"
  by (rule settled_same_body) (rule same_body_flush_requests)

lemma settled_tcp_disconnect [simp]: "response_settled n buf (tcp_disconnect s) = response_settled n buf s"
  by (simp add: tcp_disconnect_def) (simp add: response_settled_def)

lemma settled_cache_response:
  "cache_response cfg q r s = (r1, t) \<Longrightarrow> response_settled n buf t = response_settled n buf s"
  by (auto simp: cache_response_def read_clock_def response_settled_def Let_def split: option.splits if_splits prod.splits)

lemma settled_updates [simp]:
  "response_settled n buf (s\<lparr>hk_in_flight := q\<rparr>) = response_settled n buf s"
  "response_settled n buf (s\<lparr>hk_awaiting := b\<rparr>) = response_settled n buf s"
  by (simp_all add: response_settled_def)

lemma whole_response_step_settled:
  assumes "\<not> hk_active s" and "hk_buffers s n = buf"
  shows "response_settled n buf (snd (whole_response_step cfg response n s))"
proof -
  have start: "response_settled n buf (reset_parser s)"
    using assms by (simp add: response_settled_def reset_parser_def parser_reset_def)
  obtain r t where mid: "(case hk_in_flight (reset_parser s) of
        [] \<Rightarrow> (response, reset_parser s)
      | completed # waiting \<Rightarrow> cache_response cfg completed response ((reset_parser s)\<lparr>hk_in_flight := waiting\<rparr>)) = (r, t)"
    by (metis surj_pair)
  then have "response_settled n buf t"
    using start by (auto split: list.splits dest!: settled_cache_response)
  then show ?thesis
    unfolding whole_response_step_def Let_def mid by (simp split: option.split)
qed

lemma finish_streaming_settled: "p_state (hk_parser s) = S_start_line \<Longrightarrow> hk_buffers s n = buf \<Longrightarrow>
    response_settled n buf (finish_streaming_response cfg s)"
  by (simp add: response_settled_def finish_streaming_response_more)

lemma handle_continue_settled:
  assumes "\<not> hk_active s" and "hk_buffers s n = buf"
  shows "response_settled n buf (handle_continue_response (reset_parser s))"
proof -
  have start: "response_settled n buf (reset_parser s)"
    using assms by (simp add: response_settled_def reset_parser_def parser_reset_def)
  have "same_body t (client_conn_send bytes t)" for bytes t by simp
  then have "response_settled n buf (client_conn_send bytes t) = response_settled n buf t" for bytes t by (rule settled_same_body)
  with start show ?thesis by (simp add: handle_continue_response_def)
qed

lemma streaming_response_step_again:
  assumes "streaming_response_step cfg callback nb response n s = (True, t)" and "hk_buffers s n = buf"
  shows "p_state (hk_parser t) = S_start_line" "length (hk_buffers t n) \<le> length buf" "\<not> hk_active t"
proof -
  define s2 where "s2 = client_commands cfg (callback (response\<lparr>m_body := []\<rparr>))
      (client_emit (Ev_head (response\<lparr>m_body := []\<rparr>)) (start_stream nb response (reset_parser s)))"
  have "same_body (start_stream nb response (reset_parser s)) s2"
    unfolding s2_def by (rule same_body_commands) simp
  then have s2: "p_state (hk_parser s2) = S_start_line" "hk_buffers s2 n = buf"
    using assms(2) by (simp_all add: same_body_def start_stream_def reset_parser_def parser_reset_def Let_def)
  have step: "(if \<not> hk_active s2 then
           (let s3 = finish_streaming_response cfg s2 in (client_connected s3 \<and> hk_buffers s3 n \<noteq> [], s3))
         else streaming_body_step cfg n s2) = (True, t)"
    using assms(1) unfolding streaming_response_step_def s2_def Let_def .
  show "p_state (hk_parser t) = S_start_line" "length (hk_buffers t n) \<le> length buf" "\<not> hk_active t"
    using step s2 streaming_body_step_again [of cfg n s2 t] finish_streaming_response_more [of cfg s2]
    by (auto simp: Let_def split: if_splits)
qed

lemma client_message_step_measure:
  assumes "client_message_step cfg n s = Some (True, t)"
  shows "client_measure n t < client_measure n s"
proof (cases "hk_active s")
  case True
  then have "streaming_body_step cfg n s = (True, t)" using assms by (simp add: client_message_step_def)
  then show ?thesis using True streaming_body_step_again [of cfg n s t] by (auto simp: client_measure_def)
next
  case False
  then have step: "client_response_step cfg n s = Some (True, t)" using assms by (simp add: client_message_step_def)
  obtain head p buf where parse: "(if head then parse_response_head (hk_parser s) (hk_buffers s n)
      else parse_response (hk_parser s) (hk_buffers s n)) = (Some Complete, p, buf)"
    and after: "p_state (hk_parser t) = S_start_line \<and> length (hk_buffers t n) \<le> length buf \<and> \<not> hk_active t"
  proof -
    let ?head = "ck_on_streaming cfg \<noteq> None \<or>
      hk_in_flight s \<noteq> [] \<and> expects_no_response_body (qr_request (hd (hk_in_flight s)))"
    obtain status p buf where parse: "(if ?head then parse_response_head (hk_parser s) (hk_buffers s n)
        else parse_response (hk_parser s) (hk_buffers s n)) = (Some status, p, buf)"
      using step unfolding client_response_step_def Let_def by (auto split: option.splits prod.splits)
    have complete: "status = Complete"
      using step unfolding client_response_step_def Let_def parse by (cases status) simp_all
    define s1 where "s1 = with_client_buffer n buf (s\<lparr>hk_parser := p\<rparr>)"
    have s1: "\<not> hk_active s1" "hk_buffers s1 n = buf" using False by (simp_all add: s1_def with_client_buffer_def)
    have cases: "(if m_status_code (p_response p) = 100
        then (let s2 = handle_continue_response (reset_parser s1) in Some (hk_buffers s2 n \<noteq> [], s2))
        else let s2 = s1\<lparr>hk_awaiting := False\<rparr>
             in Some (case ck_on_streaming cfg of
                        Some callback \<Rightarrow> streaming_response_step cfg callback
                          (hk_in_flight s \<noteq> [] \<and> expects_no_response_body (qr_request (hd (hk_in_flight s))))
                          (p_response p) n s2
                      | None \<Rightarrow> whole_response_step cfg (p_response p) n s2)) = Some (True, t)"
      using step unfolding client_response_step_def Let_def parse complete s1_def by simp
    have "p_state (hk_parser t) = S_start_line \<and> length (hk_buffers t n) \<le> length buf \<and> \<not> hk_active t"
    proof (cases "m_status_code (p_response p) = 100")
      case True
      then show ?thesis using cases handle_continue_settled [OF s1] by (auto simp: response_settled_def Let_def)
    next
      case other: False
      have s2: "\<not> hk_active (s1\<lparr>hk_awaiting := False\<rparr>)" "hk_buffers (s1\<lparr>hk_awaiting := False\<rparr>) n = buf"
        using s1 by simp_all
      show ?thesis
      proof (cases "ck_on_streaming cfg")
        case None
        then show ?thesis using cases other whole_response_step_settled [OF s2, of cfg "p_response p"]
          by (auto simp: response_settled_def Let_def)
      next
        case (Some callback)
        then show ?thesis using cases other streaming_response_step_again [OF _ s2(2)]
          by (auto simp: Let_def)
      qed
    qed
    then show ?thesis using that parse complete by blast
  qed
  have "length buf \<le> length (hk_buffers s n)" "p_state (hk_parser s) = S_start_line \<Longrightarrow> length buf < length (hk_buffers s n)"
    using parse parse_rest parse_head_rest parse_consumes parse_head_consumes
    by (fastforce simp: parse_response_def parse_response_head_def split: if_splits)+
  then show ?thesis using after by (auto simp: client_measure_def)
qed

function client_message_loop :: "client_config \<Rightarrow> nat \<Rightarrow> client_state \<Rightarrow> client_state option" where
  "client_message_loop cfg n s =
     (case client_message_step cfg n s of
        None \<Rightarrow> None
      | Some (again, s1) \<Rightarrow> if again then client_message_loop cfg n s1 else Some s1)"
  by pat_completeness auto
termination
  by (relation "measure (\<lambda>(cfg, n, s). client_measure n s)") (auto dest: client_message_step_measure)

declare client_message_loop.simps [simp del]

subsection \<open>Callbacks of the connection\<close>

definition client_on_message :: "client_config \<Rightarrow> nat \<Rightarrow> string \<Rightarrow> client_state \<Rightarrow> client_state option" where
  "client_on_message cfg n bytes s =
     client_message_loop cfg n (with_client_buffer n (hk_buffers s n @ bytes) s)"

text \<open>\<open>on_connection\<close> for a connection just established (its buffer is empty) and for a closed one.\<close>

definition client_established :: "client_config \<Rightarrow> nat \<Rightarrow> client_state \<Rightarrow> client_state" where
  "client_established cfg n s =
     flush_requests cfg (reset_parser
       (with_client_buffer n [] (s\<lparr>hk_connecting := False, hk_connection := Some (n, True)\<rparr>)))"

definition client_closed :: "client_config \<Rightarrow> nat \<Rightarrow> client_state \<Rightarrow> client_state" where
  "client_closed cfg n s =
     (let had_unfinished_work =
            (hk_pending s \<noteq> [] \<or> hk_in_flight s \<noteq> [] \<or> hk_awaiting s \<or> hk_active s);
          s1 = (reset_parser s)\<lparr>hk_connection := (case hk_connection s of
                    None \<Rightarrow> None | Some (m, up) \<Rightarrow> if m = n then None else Some (m, up)),
                  hk_connecting := False, hk_in_flight := [], hk_active := False, hk_close := False,
                  hk_mode := Body_none, hk_awaiting := False\<rparr>;
          s2 = (if ck_tls cfg \<and> had_unfinished_work
                then (case ck_on_error cfg of None \<Rightarrow> s1 | Some cmds \<Rightarrow> client_commands cfg cmds (client_emit Ev_error s1))
                else s1)
      in if \<not> hk_stopped s2 \<and> hk_pending s2 \<noteq> [] then request_connect s2 else s2)"

text \<open>The task \<open>deliver_cached_response\<close> queued in the event loop.\<close>

definition client_run_deferred :: "client_config \<Rightarrow> client_state \<Rightarrow> client_state" where
  "client_run_deferred cfg s =
     (case hk_deferred s of
        [] \<Rightarrow> s
      | response # later \<Rightarrow>
          let s1 = s\<lparr>hk_deferred := later\<rparr>
          in if hk_stopped s1 then s1
             else case ck_on_response cfg of
                    None \<Rightarrow> s1
                  | Some callback \<Rightarrow> client_commands cfg (callback response) (client_emit (Ev_response response) s1))"

datatype client_op = Op_call client_command | Op_established nat | Op_closed nat | Op_bytes nat string
  | Op_deferred

definition client_op_step :: "client_config \<Rightarrow> client_op \<Rightarrow> client_state \<Rightarrow> client_state option" where
  "client_op_step cfg op s =
     (case op of
        Op_call cmd \<Rightarrow> Some (client_call cfg cmd s)
      | Op_established n \<Rightarrow> Some (client_established cfg n s)
      | Op_closed n \<Rightarrow> Some (client_closed cfg n s)
      | Op_bytes n bytes \<Rightarrow> client_on_message cfg n bytes s
      | Op_deferred \<Rightarrow> Some (client_run_deferred cfg s))"

fun client_run :: "client_config \<Rightarrow> client_op list \<Rightarrow> client_state \<Rightarrow> client_state option" where
  "client_run cfg [] s = Some s"
| "client_run cfg (op # ops) s =
     (case client_op_step cfg op s of None \<Rightarrow> None | Some s1 \<Rightarrow> client_run cfg ops s1)"

end
