(* ===== verification/Request_Roundtrip.thy ===== *)
theory Request_Roundtrip
  imports Http_Client Response_Roundtrip
begin

text \<open>
  What the client serialises, the server's parser reads back: method, target, header fields and body,
  with the bytes of the next request left in the buffer.
\<close>

subsection \<open>The request line\<close>

definition request_line :: "string \<Rightarrow> string \<Rightarrow> string" where
  "request_line m target = m @ '' '' @ target @ '' HTTP/1.1''"

definition clean_request_line :: "string \<Rightarrow> string \<Rightarrow> bool" where
  "clean_request_line m target \<longleftrightarrow> m \<noteq> [] \<and> list_all is_token_char m \<and>
     CHR '' '' \<notin> set target \<and> CHR 0x0D \<notin> set target"

text \<open>The request the parser starts its headers with.\<close>

definition started_request :: "string \<Rightarrow> string \<Rightarrow> timestamp \<Rightarrow> http_request" where
  "started_request m target t =
     (set_request_target target (snd (set_method m request_new)))\<lparr>r_version := V_http11, r_receive_time := t\<rparr>"

lemma find_char_from_hit:
  assumes "c \<notin> set b" and "i = length a"
  shows "find_char_from c (a @ b @ c # d) i = Some (length a + length b)"
  using find_char_hit [OF assms(1), of d] assms(2) by (simp add: find_char_from_def)

lemma find_char_from_miss:
  assumes "c \<notin> set b" and "i = length a"
  shows "find_char_from c (a @ b) i = None"
  using assms by (simp add: find_char_from_def)

lemma parse_clean_request_line:
  assumes "clean_request_line m target" and "p_request p = request_new"
  shows "parse_request_line (request_line m target) t p = (True, p\<lparr>p_request := started_request m target t\<rparr>)"
proof -
  note clean = assms(1) [unfolded clean_request_line_def]
  have m: "CHR '' '' \<notin> set m" using clean by (auto simp: list_all_iff dest!: token_char_not_sep)
  have shape: "request_line m target = m @ CHR '' '' # (target @ CHR '' '' # ''HTTP/1.1'')"
    by (simp add: request_line_def)
  have first: "find_char CHR '' '' (request_line m target) = Some (length m)"
    unfolding shape using m by (rule find_char_hit)
  have "find_char_from CHR '' '' ((m @ '' '') @ target @ CHR '' '' # ''HTTP/1.1'') (length m + 1) =
      Some (length (m @ '' '') + length target)"
    using clean by (intro find_char_from_hit) simp_all
  then have second: "find_char_from CHR '' '' (request_line m target) (length m + 1) = Some (length m + 1 + length target)"
    by (simp add: request_line_def)
  have "find_char_from CHR '' '' ((m @ '' '' @ target @ '' '') @ ''HTTP/1.1'') (length m + 1 + length target + 1) = None"
    by (intro find_char_from_miss) simp_all
  then have third: "find_char_from CHR '' '' (request_line m target) (length m + 1 + length target + 1) = None"
    by (simp add: request_line_def)
  have parts: "take (length m) (request_line m target) = m"
    "take target_len (drop (length m + 1) (request_line m target)) = take target_len (target @ '' HTTP/1.1'')"
    "drop (length m + 1 + length target + 1) (request_line m target) = ''HTTP/1.1''" for target_len
    by (simp_all add: request_line_def)
  have ok: "set_method m r = (True, snd (set_method m r))" for r
    using clean by (simp add: set_method_def)
  obtain r where r: "set_method m request_new = (True, r)" using ok by blast
  show ?thesis
    unfolding parse_request_line_def first second third parts option.case assms(2) r Let_def
    by (simp add: parse_version_def started_request_def r)
qed

lemma request_line_parsed:
  assumes p: "p_state p = S_start_line" "p_mode p = Mode_request" "p_request p = request_new"
    and clean: "clean_request_line m target"
    and fits: "length (request_line m target) \<le> max_start_line (p_options p)"
  shows "start_line_step t p (request_line m target @ crlf @ rest) =
    (Again, p\<lparr>p_request := started_request m target t, p_state := S_headers\<rparr>, rest)"
proof -
  have "CHR 0x0D \<notin> set (request_line m target)"
    using clean by (auto simp: request_line_def clean_request_line_def list_all_iff dest!: token_char_not_sep)
  then have "find_str crlf (request_line m target @ crlf @ rest) = Some (length (request_line m target))"
    by (rule find_str_crlf)
  with p fits show ?thesis
    by (simp add: start_line_step_def parse_clean_request_line [OF clean p(3)])
qed

subsection \<open>The head\<close>

definition request_head_parser :: "parser_options \<Rightarrow> string \<Rightarrow> string \<Rightarrow> timestamp \<Rightarrow> (string \<times> string) list \<Rightarrow> http_parser" where
  "request_head_parser opts m target t hs =
     (parser_new Mode_request opts)\<lparr>p_state := S_headers,
        p_request := (started_request m target t)\<lparr>r_headers := map header_entry_of hs\<rparr>,
        p_header_bytes := length (concat (map header_line hs)) + 2\<rparr>"

definition head_fits :: "parser_options \<Rightarrow> string \<Rightarrow> string \<Rightarrow> (string \<times> string) list \<Rightarrow> bool" where
  "head_fits opts m target hs \<longleftrightarrow> clean_request_line m target \<and> (\<forall>fv\<in>set hs. clean_header fv) \<and>
     length (request_line m target) \<le> max_start_line opts \<and>
     length (concat (map header_line hs)) + 2 \<le> max_headers opts"

lemma request_target_fields:
  "r_headers (set_request_target target r) = r_headers r" "r_method (set_request_target target r) = r_method r"
  "r_method_token (set_request_target target r) = r_method_token r" "r_body (set_request_target target r) = r_body r"
  "r_content_length (set_request_target target r) = r_content_length r"
  "r_target (set_request_target target r) = target"
  by (simp_all add: set_request_target_def set_path_and_query_def Let_def split: option.split)

lemma method_fields:
  "r_headers (snd (set_method m r)) = r_headers r" "r_body (snd (set_method m r)) = r_body r"
  "r_content_length (snd (set_method m r)) = r_content_length r"
  by (simp_all add: set_method_def)

lemma started_request_headers [simp]: "r_headers (started_request m target t) = []"
  by (simp add: started_request_def request_target_fields method_fields) (simp add: request_new_def)

lemma blank_line_step:
  assumes "p_state p = S_headers" and "p_header_bytes p + 2 \<le> max_headers (p_options p)"
  shows "headers_step h p (crlf @ rest) =
    (let (ok, q) = finish_headers (p\<lparr>p_header_bytes := p_header_bytes p + 2\<rparr>)
     in (if \<not> ok then Return Error else if h \<or> p_state q = S_complete then Return Complete else Again, q, rest))"
proof -
  have "find_str crlf (crlf @ rest) = Some 0" using find_str_crlf [of "[]" rest] by simp
  then show ?thesis
    using assms by (simp add: headers_step_def Let_def split: prod.split)
qed

lemma parse_request_head_bytes:
  assumes "head_fits opts m target hs"
  shows "parse t (parser_new Mode_request opts)
      (request_line m target @ crlf @ concat (map header_line hs) @ crlf @ rest) =
    (let (ok, q) = finish_headers (request_head_parser opts m target t hs) in
     if \<not> ok then (Some Error, q, rest) else if p_state q = S_complete then (Some Complete, q, rest)
     else parse t q rest)"
proof -
  note facts = assms [unfolded head_fits_def]
  let ?p0 = "parser_new Mode_request opts"
  define p1 where "p1 = ?p0\<lparr>p_request := started_request m target t, p_state := S_headers\<rparr>"
  have "start_line_step t ?p0 (request_line m target @ crlf @ concat (map header_line hs) @ crlf @ rest) =
      (Again, p1, concat (map header_line hs) @ crlf @ rest)"
    unfolding p1_def using facts by (intro request_line_parsed) (simp_all add: parser_new_def)
  then have "parse_step t ?p0 (request_line m target @ crlf @ concat (map header_line hs) @ crlf @ rest) =
      (Again, p1, concat (map header_line hs) @ crlf @ rest)"
    by (simp add: parse_step_def parser_new_def)
  then have "parse t ?p0 (request_line m target @ crlf @ concat (map header_line hs) @ crlf @ rest) =
      parse t p1 (concat (map header_line hs) @ crlf @ rest)"
    by (rule parse_Again)
  also have "\<dots> = parse t (after_lines p1 hs) (crlf @ rest)"
    using facts by (intro parse_header_lines) (simp_all add: p1_def parser_new_def)
  also have "\<dots> = (let (ok, q) = finish_headers (request_head_parser opts m target t hs) in
     if \<not> ok then (Some Error, q, rest) else if p_state q = S_complete then (Some Complete, q, rest)
     else parse t q rest)"
  proof -
    define p2 where "p2 = after_lines p1 hs"
    have st: "p_state p2 = S_headers" and room: "p_header_bytes p2 + 2 \<le> max_headers (p_options p2)"
      using facts by (simp_all add: p2_def p1_def after_lines_def set_message_headers_def parser_new_def)
    have bytes: "p2\<lparr>p_header_bytes := p_header_bytes p2 + 2\<rparr> = request_head_parser opts m target t hs"
      by (simp add: p2_def p1_def after_lines_def set_message_headers_def message_headers_def request_head_parser_def
          parser_new_def)
    obtain ok q where fin: "finish_headers (request_head_parser opts m target t hs) = (ok, q)" by fastforce
    have "parse_step t p2 (crlf @ rest) =
        (if \<not> ok then Return Error else if p_state q = S_complete then Return Complete else Again, q, rest)"
      using blank_line_step [OF st room, of False rest] unfolding bytes fin by (simp add: parse_step_def st)
    then have "parse t p2 (crlf @ rest) = (if \<not> ok then (Some Error, q, rest)
        else if p_state q = S_complete then (Some Complete, q, rest) else parse t q rest)"
      by (simp add: parse.simps [of t p2])
    then show ?thesis by (simp add: p2_def fin)
  qed
  finally show ?thesis .
qed

subsection \<open>Framing\<close>

definition request_lines :: "string \<Rightarrow> client_request \<Rightarrow> (string \<times> string) list" where
  "request_lines host r =
     (if hdr_contains ''Host'' (cr_headers r) then [] else [(''Host'', host)]) @
     (if hdr_contains ''Connection'' (cr_headers r) then [] else [(''Connection'', ''Keep-Alive'')]) @
     (if cr_body r = [] then [] else [(''Content-Length'', to_chars 10 (length (cr_body r)))]) @
     map (\<lambda>e. (h_field e, h_value e)) (cr_headers r)"

text \<open>A request whose header fields leave the framing to the client, within the parser's limits.\<close>

definition sendable :: "parser_options \<Rightarrow> string \<Rightarrow> client_request \<Rightarrow> bool" where
  "sendable opts host r \<longleftrightarrow> clean_request_line (cr_method r) (cr_target r) \<and> CHR 0x0D \<notin> set host \<and>
     (\<forall>e\<in>set (cr_headers r). plain_header (h_field e, h_value e)) \<and>
     length (request_line (cr_method r) (cr_target r)) \<le> max_start_line opts \<and>
     length (concat (map header_line (request_lines host r))) + 2 \<le> max_headers opts \<and>
     length (cr_body r) \<le> max_body opts \<and> length (cr_body r) < 2 ^ 64"

lemma plain_no_length: "\<forall>e\<in>set hs. plain_header (h_field e, h_value e) \<Longrightarrow>
    \<not> hdr_contains ''Content-Length'' hs \<and> \<not> hdr_contains ''Transfer-Encoding'' hs"
  by (auto simp: hdr_contains_def list_ex_iff equals_ignore_case_iff plain_header_def framing_names)

lemma clean_host: "CHR 0x0D \<notin> set host \<Longrightarrow> clean_header (''Host'', host)"
proof -
  have "list_all is_token_char ''Host''" by code_simp
  then show "CHR 0x0D \<notin> set host \<Longrightarrow> clean_header (''Host'', host)" by (simp add: clean_header_def)
qed

lemma sendable_fits: "sendable opts host r \<Longrightarrow> head_fits opts (cr_method r) (cr_target r) (request_lines host r)"
  by (auto simp: sendable_def head_fits_def request_lines_def plain_header_def clean_length clean_host)

lemma serialize_lines:
  assumes "sendable opts host r"
  shows "serialize host include_body r =
    request_line (cr_method r) (cr_target r) @ crlf @ concat (map header_line (request_lines host r)) @ crlf @
    (if include_body then cr_body r else [])"
proof -
  have "\<not> hdr_contains ''Content-Length'' (cr_headers r)" "\<not> hdr_contains ''Transfer-Encoding'' (cr_headers r)"
    using assms plain_no_length by (auto simp: sendable_def)
  then show ?thesis
    by (simp add: serialize_def request_line_def request_lines_def header_line_def comp_def)
qed

lemma request_framing:
  fixes r :: client_request and host :: string
  assumes "\<forall>e\<in>set (cr_headers r). plain_header (h_field e, h_value e)" and "length (cr_body r) < 2 ^ 64"
  defines "h \<equiv> map header_entry_of (request_lines host r)"
  shows "content_lengths h = Some (if cr_body r = [] then [] else [of_nat (length (cr_body r))])"
    and "transfer_codings h = []" and "hdr_contains ''Host'' h"
proof -
  let ?own = "map (\<lambda>e. (h_field e, h_value e)) (cr_headers r)"
  have plain: "\<forall>fv\<in>set ?own. plain_header fv" using assms(1) by auto
  have digits: "CHR '','' \<notin> set (to_chars 10 (length (cr_body r)))"
    by (rule to_chars_not_in) (simp_all, code_simp)
  have names: "lowercase ''Host'' = ''host''" by code_simp
  have "hdr_values ''Content-Length'' h = (if cr_body r = [] then [] else [to_chars 10 (length (cr_body r))])"
    "hdr_values ''Transfer-Encoding'' h = []"
    using plain_values [OF plain]
    by (simp_all add: h_def request_lines_def hdr_values_Cons header_entry_of_def framing_names names)
  then show "content_lengths h = Some (if cr_body r = [] then [] else [of_nat (length (cr_body r))])"
    "transfer_codings h = []"
    using digits assms(2)
    by (simp_all add: content_lengths_def transfer_codings_def split_commas_single parse_decimal_u64_def
        parse_unsigned_to_chars)
  show "hdr_contains ''Host'' h"
    by (auto simp: h_def request_lines_def hdr_contains_def list_ex_iff header_entry_of_def)
qed

definition parsed_request :: "string \<Rightarrow> client_request \<Rightarrow> timestamp \<Rightarrow> http_request" where
  "parsed_request host r t =
     (started_request (cr_method r) (cr_target r) t)\<lparr>r_headers := map header_entry_of (request_lines host r),
        r_body := cr_body r,
        r_content_length := (if cr_body r = [] then None else Some (of_nat (length (cr_body r))))\<rparr>"

lemma started_request_fields:
  assumes "clean_request_line m target"
  shows "method_string (started_request m target t) = m" "r_target (started_request m target t) = target"
    "r_version (started_request m target t) = V_http11" "r_body (started_request m target t) = []"
    "r_content_length (started_request m target t) = None" "r_receive_time (started_request m target t) = t"
    "r_method (started_request m target t) = method_of_token m"
proof -
  have "m \<noteq> []" "list_all is_token_char m" using assms by (simp_all add: clean_request_line_def)
  then have token: "r_method_token (snd (set_method m request_new)) = m"
    "r_method (snd (set_method m request_new)) = method_of_token m"
    by (simp_all add: set_method_def)
  with \<open>m \<noteq> []\<close> show "method_string (started_request m target t) = m"
    by (simp add: method_string_def started_request_def request_target_fields)
  show "r_target (started_request m target t) = target" "r_version (started_request m target t) = V_http11"
    "r_receive_time (started_request m target t) = t"
    by (simp_all add: started_request_def request_target_fields)
  show "r_method (started_request m target t) = method_of_token m"
    by (simp add: started_request_def request_target_fields token)
  show "r_body (started_request m target t) = []" "r_content_length (started_request m target t) = None"
    by (simp_all add: started_request_def request_target_fields method_fields, simp_all add: request_new_def)
qed

lemma request_roundtrip:
  assumes ok: "sendable opts host r"
  shows "\<exists>q. parse t (parser_new Mode_request opts) (serialize host True r @ rest) = (Some Complete, q, rest) \<and>
    p_request q = parsed_request host r t"
proof -
  let ?n = "length (cr_body r)"
  define hp where "hp = request_head_parser opts (cr_method r) (cr_target r) t (request_lines host r)"
  note facts = ok [unfolded sendable_def]
  have clean: "clean_request_line (cr_method r) (cr_target r)" using facts by blast
  note fields = started_request_fields [OF clean, of t]
  have hp: "p_mode hp = Mode_request" "p_options hp = opts" "p_head_only hp = False"
    "p_request hp = (started_request (cr_method r) (cr_target r) t)\<lparr>r_headers := map header_entry_of (request_lines host r)\<rparr>"
    by (simp_all add: hp_def request_head_parser_def parser_new_def)
  have headers: "message_headers hp = map header_entry_of (request_lines host r)" by (simp add: message_headers_def hp)
  note framing = request_framing [of r host, OF _ _]
  have lens: "content_lengths (message_headers hp) = Some (if cr_body r = [] then [] else [of_nat ?n])"
    and codings: "transfer_codings (message_headers hp) = []"
    and host: "hdr_contains ''Host'' (message_headers hp)"
    using request_framing [of r host] facts by (simp_all add: headers)
  have te: "is_chunked_transfer (message_headers hp) = (False, False, True)"
    using codings by (simp add: is_chunked_transfer_def)
  have un: "unat (of_nat ?n :: u64) = ?n" "(of_nat ?n :: u64) = 0 \<longleftrightarrow> ?n = 0"
    using facts by (simp_all add: unat_u64 u64_eq_0)
  have run: "parse t (parser_new Mode_request opts) (serialize host True r @ rest) =
    (let (ok, q) = finish_headers hp in
     if \<not> ok then (Some Error, q, cr_body r @ rest) else if p_state q = S_complete then (Some Complete, q, cr_body r @ rest)
     else parse t q (cr_body r @ rest))"
    using parse_request_head_bytes [OF sendable_fits [OF ok], of t "cr_body r @ rest"]
    by (simp add: serialize_lines [OF ok] hp_def)
  show ?thesis
  proof (cases "cr_body r = []")
    case True
    have "finish_headers hp = (True, hp\<lparr>p_state := S_complete\<rparr>)"
      using lens te host hp True by (simp add: finish_headers_def finish_message_def headers)
    with run True fields show ?thesis by (simp add: hp parsed_request_def)
  next
    case False
    define b where "b = (set_message_content_length (of_nat ?n) hp)\<lparr>p_fixed_body_bytes := of_nat ?n, p_state := S_fixed_body\<rparr>"
    have fin: "finish_headers hp = (True, b)"
      using lens te host hp False un facts by (simp add: finish_headers_def headers b_def)
    have b: "p_state b = S_fixed_body" "p_mode b = Mode_request" "unat (p_fixed_body_bytes b) = ?n"
      "p_request b = (p_request hp)\<lparr>r_content_length := Some (of_nat ?n)\<rparr>"
      using un hp by (simp_all add: b_def set_message_content_length_def)
    have "parse t b (cr_body r @ rest) = (Some Complete,
        b\<lparr>p_request := (p_request b)\<lparr>r_body := cr_body r\<rparr>, p_state := S_complete\<rparr>, rest)"
      using b by (intro parse_Return) (simp add: parse_step_def parse_fixed_body_def finish_message_def body_control_def)
    with run fin b(1) False show ?thesis by (simp add: b hp parsed_request_def)
  qed
qed

subsection \<open>Property\<close>

lemma method_string_update:
  "method_string (r\<lparr>r_headers := h, r_body := b, r_content_length := n\<rparr>) = method_string r"
  by (simp add: method_string_def)

lemma parse_request_new: "parse_request t (parser_new Mode_request opts) buf = parse t (parser_new Mode_request opts) buf"
  by (simp add: parse_request_def parser_new_def)

text \<open>
  C7: A request the client serialises is read back by the server's parser: the same method, target, header
  fields in order (with the \<open>Host\<close>, \<open>Connection\<close> and \<open>Content-Length\<close> the client adds) and body, and the
  bytes behind it stay in the buffer. With \<open>Expect\<close> the head and the body are sent apart, and are the same bytes.
\<close>

theorem client_request_roundtrip:
  assumes "sendable opts host r"
  shows "\<exists>q. parse_request t (parser_new Mode_request opts) (serialize host True r @ rest) = (Some Complete, q, rest) \<and>
    method_string (p_request q) = cr_method r \<and> r_target (p_request q) = cr_target r \<and>
    r_version (p_request q) = V_http11 \<and> r_receive_time (p_request q) = t \<and>
    r_headers (p_request q) = map header_entry_of (request_lines host r) \<and> r_body (p_request q) = cr_body r \<and>
    r_content_length (p_request q) = (if cr_body r = [] then None else Some (of_nat (length (cr_body r)))) \<and>
    serialize host True r = serialize host False r @ cr_body r"
proof -
  have "clean_request_line (cr_method r) (cr_target r)" using assms by (simp add: sendable_def)
  note fields = started_request_fields [OF this, of t]
  have body: "serialize host True r = serialize host False r @ cr_body r" by (simp add: serialize_def)
  obtain q where "parse t (parser_new Mode_request opts) (serialize host True r @ rest) = (Some Complete, q, rest)"
    "p_request q = parsed_request host r t"
    using request_roundtrip [OF assms] by blast
  then show ?thesis
    using fields by (simp add: parse_request_new body parsed_request_def method_string_update)
qed

definition sample_request :: client_request where
  "sample_request =
     \<lparr>cr_method = ''POST'', cr_target = ''/items?id=7'', cr_headers = [\<lparr>h_field = ''Accept'', h_value = ''text/plain''\<rparr>],
      cr_body = ''hello''\<rparr>"

theorem client_request_roundtrip_witness:
  "\<exists>q. parse_request 5 (parser_new Mode_request default_parser_options)
      (serialize ''example.org'' True sample_request @ ''GET'') = (Some Complete, q, ''GET'') \<and>
    r_target (p_request q) = ''/items?id=7'' \<and> r_body (p_request q) = ''hello''"
proof -
  have "sendable default_parser_options ''example.org'' sample_request" by code_simp
  from client_request_roundtrip [OF this, of 5 "''GET''"] show ?thesis by (auto simp: sample_request_def)
qed

end
