(* ===== verification/Parser_Prefix.thy ===== *)
theory Parser_Prefix
  imports Parser_Rest
begin

text \<open>
  A prefix of a message the parser accepts is never refused: the parser waits for the rest. The start
  line alone needs a byte to spare, for its limit counts a CR that waits for its LF.
\<close>

lemma find_crlf_later:
  "find_str crlf y = None \<Longrightarrow> find_str crlf (y @ z) = Some i \<Longrightarrow> length y \<le> i + 1"
  using find_str_unfound(1) [of crlf y z i] by simp

lemma parse_trailers_error:
  "parse_trailers p y = (False, q, rest) \<Longrightarrow> p_error p = E_none \<Longrightarrow> p_error q \<noteq> E_none \<Longrightarrow>
   \<not> fst (parse_trailers p (y @ z))"
proof (induction y arbitrary: p rule: length_induct)
  case (1 y)
  show ?case
  proof (cases p y rule: parse_trailers_cases)
    case (line n h)
    have "parse_trailers (set_message_trailers h p) (drop (n + 2) y) = (False, q, rest)" using line(2) 1(2) by simp
    moreover have "p_error (set_message_trailers h p) = E_none" using 1(3) by (simp add: set_message_trailers_def)
    ultimately have "\<not> fst (parse_trailers (set_message_trailers h p) (drop (n + 2) y @ z))"
      using 1(1,4) trailer_line_shorter [OF line(1)] by blast
    then show ?thesis by (simp add: parse_trailers_line [OF line(1)])
  next
    case error
    have found: "find_str crlf y \<noteq> None"
    proof
      assume "find_str crlf y = None"
      then have "parse_trailers p y = (False, p, y)" by (simp add: parse_trailers.simps [of p y])
      with error 1(3) show False by (cases p) (auto simp: set_error_def)
    qed
    then obtain n where n: "find_str crlf y = Some n" by blast
    note whole = find_crlf_extend [OF n, of z]
    show ?thesis
    proof (cases p "y @ z" rule: parse_trailers_cases)
      case finish
      then have "n = 0" using whole by simp
      then show ?thesis using n error by (simp add: parse_trailers.simps [of p y] finish_message_def)
    next
      case (line m h)
      have "n = m" using line(1) whole by (simp add: trailer_line_def)
      then have "take m (y @ z) = take m y" using crlf_bound [OF n] by simp
      then have "trailer_line p y m h" using line(1) n \<open>n = m\<close> unfolding trailer_line_def \<open>take m (y @ z) = take m y\<close> by simp
      then have "parse_trailers p y = parse_trailers (set_message_trailers h p) (drop (m + 2) y)"
        and "length (drop (m + 2) y) < length y"
        using parse_trailers_line [of p y m h "[]"] trailer_line_shorter by auto
      moreover have "length y \<le> length (drop (m + 2) y)"
        by (rule parse_trailers_rest [OF trans [OF calculation(1) [symmetric] error]])
      ultimately show ?thesis by simp
    qed (use whole in auto)
  qed (use 1 in auto)
qed

lemma line_keeps_error:
  "parse_request_line l t p = (True, q) \<Longrightarrow> p_error q = p_error p"
  "parse_response_line l p = (True, q) \<Longrightarrow> p_error q = p_error p"
  by (auto simp: parse_request_line_def parse_response_line_def set_error_def Let_def
      split: option.splits if_splits prod.splits)

lemma finish_headers_keeps_error:
  "finish_headers p = (True, q) \<Longrightarrow> p_error q = p_error p \<and> p_state q \<noteq> S_start_line"
  by (auto simp: finish_headers_def set_error_def finish_message_def set_message_content_length_def Let_def
      split: option.splits if_splits prod.splits)

lemma again_keeps_error:
  assumes "parse_step t p y = (Again, q, rest)" and "p_error p = E_none"
  shows "p_error q = E_none \<and> p_state q \<noteq> S_start_line"
proof (cases "p_state p")
  case S_start_line
  with assms show ?thesis
    by (auto simp: parse_step_def start_line_step_def Let_def dest: line_keeps_error
        split: option.splits if_splits prod.splits)
next
  case S_headers
  with assms show ?thesis
    by (auto simp: parse_step_def headers_step_def set_message_headers_def Let_def dest!: finish_headers_keeps_error
        split: option.splits if_splits prod.splits)
next
  case S_chunk_size
  with assms show ?thesis
    by (auto simp: parse_step_def body_control_def parse_chunk_size_def set_error_def Let_def
        split: option.splits if_splits prod.splits)
next
  case S_chunk_data
  with assms show ?thesis
    by (auto simp: parse_step_def body_control_def parse_chunk_data_def set_error_def Let_def
        split: option.splits if_splits prod.splits)
qed (use assms in \<open>auto simp: parse_step_def body_control_def split: if_splits prod.splits\<close>)

definition line_room :: "http_parser \<Rightarrow> string \<Rightarrow> bool" where
  "line_room p buf \<longleftrightarrow>
     (p_state p = S_start_line \<longrightarrow> (\<forall>i. find_str crlf buf = Some i \<longrightarrow> i < max_start_line (p_options p)))"

lemma parse_step_prefix:
  assumes "parse_step t p y = (Return Error, q, rest)" and "p_error p = E_none" and "line_room p (y @ z)"
    and "parse_step t p (y @ z) = (c, q', rest')"
  shows "c \<noteq> Again \<and> c \<noteq> Return Complete"
proof (cases "p_state p")
  case S_start_line
  show ?thesis
  proof (cases "find_str crlf y")
    case None
    then have "max_start_line (p_options p) < length y"
      using assms(1) S_start_line by (simp add: parse_step_def start_line_step_def split: if_splits)
    then have "find_str crlf (y @ z) = None"
      using find_crlf_later [OF None, of z] assms(3) S_start_line
      by (cases "find_str crlf (y @ z)") (auto simp: line_room_def)
    then show ?thesis using assms(4) S_start_line
      by (auto simp: parse_step_def start_line_step_def split: if_splits)
  next
    case (Some i)
    then show ?thesis
      using assms(1,4) S_start_line find_crlf_extend [OF Some, of z] crlf_bound [OF Some]
      by (auto simp: parse_step_def start_line_step_def Let_def split: if_splits prod.splits)
  qed
next
  case S_headers
  show ?thesis
  proof (cases "find_str crlf y")
    case None
    then have full: "max_headers (p_options p) < p_header_bytes p + length y"
      using assms(1) S_headers by (simp add: parse_step_def headers_step_def split: if_splits)
    show ?thesis
    proof (cases "find_str crlf (y @ z)")
      case (Some i)
      then have "max_headers (p_options p) < p_header_bytes p + (i + 2)"
        using find_crlf_later [OF None Some] full by linarith
      then show ?thesis using assms(4) S_headers Some by (auto simp: parse_step_def headers_step_def)
    qed (use assms(4) S_headers in \<open>auto simp: parse_step_def headers_step_def split: if_splits\<close>)
  next
    case (Some i)
    then show ?thesis
      using assms(1,4) S_headers find_crlf_extend [OF Some, of z] crlf_bound [OF Some]
      by (auto simp: parse_step_def headers_step_def Let_def split: if_splits prod.splits option.splits)
  qed
next
  case S_chunk_size
  obtain i where i: "find_str crlf y = Some i"
    using assms(1,2) S_chunk_size
    by (cases "find_str crlf y") (auto simp: parse_step_def body_control_def parse_chunk_size_def)
  show ?thesis
    using assms(1,2,4) S_chunk_size i find_crlf_extend [OF i, of z] crlf_bound [OF i]
    by (auto simp: parse_step_def body_control_def parse_chunk_size_def set_error_def Let_def
        split: if_splits prod.splits option.splits)
next
  case S_chunk_data
  with assms(1,2,4) show ?thesis
    by (auto simp: parse_step_def body_control_def parse_chunk_data_def set_error_def nth_append Let_def
        split: if_splits prod.splits option.splits)
next
  case S_trailers
  obtain ok p1 b1 where short: "parse_trailers p y = (ok, p1, b1)" by (cases "parse_trailers p y")
  with assms(1) S_trailers have "\<not> ok" "p_error p1 \<noteq> E_none"
    by (auto simp: parse_step_def body_control_def split: if_splits)
  then have "\<not> fst (parse_trailers p (y @ z))"
    using parse_trailers_error [of p y p1 b1 z] short assms(2) by simp
  then show ?thesis using assms(4) S_trailers
    by (auto simp: parse_step_def body_control_def split: if_splits prod.splits)
qed (use assms in \<open>auto simp: parse_step_def body_control_def parse_fixed_body_def finish_message_def Let_def
    split: if_splits prod.splits\<close>)

lemma parse_prefix:
  assumes "parse t p (y @ z) = (Some Complete, q, rest)" and "p_error p = E_none" and "line_room p (y @ z)"
  shows "fst (parse t p y) \<noteq> Some Error"
  using assms
proof (induction t p y rule: parse.induct)
  case (1 t p y)
  obtain c p1 b1 where step: "parse_step t p y = (c, p1, b1)" by (cases "parse_step t p y")
  show ?case
  proof (cases c)
    case Again
    have "parse_step t p (y @ z) = (Again, p1, b1 @ z)" using parse_step_extend step Again by blast
    then have "parse t p1 (b1 @ z) = (Some Complete, q, rest)" using 1(2) parse_Again by simp
    moreover have "p_error p1 = E_none" "line_room p1 (b1 @ z)"
      using again_keeps_error [of t p y p1 b1] step Again 1(3) by (simp_all add: line_room_def)
    ultimately have "fst (parse t p1 b1) \<noteq> Some Error" using 1(1) [OF step [symmetric]] Again by blast
    then show ?thesis using step Again parse_Again by simp
  next
    case (Return st)
    show ?thesis
    proof (cases "st = Error")
      case True
      obtain c2 p2 b2 where whole: "parse_step t p (y @ z) = (c2, p2, b2)" by (cases "parse_step t p (y @ z)")
      then have "c2 \<noteq> Again \<and> c2 \<noteq> Return Complete"
        using parse_step_prefix step Return True 1(3,4) by blast
      then have False using 1(2) whole parse_steps by (cases c2) fastforce+
      then show ?thesis ..
    next
      case False
      then show ?thesis using step Return parse_Return by simp
    qed
  next
    case Out_of_bounds
    then show ?thesis using step parse_Out_of_bounds by simp
  qed
qed

end
