(* ===== verification/Client_Delivery.thy ===== *)
theory Client_Delivery
  imports Http_Client Response_Roundtrip Parser_Prefix Parser_Safety
begin

text \<open>
  The client and the server's serialiser together: whatever the segments of the byte stream, the client
  hands out the responses the server wrote, each as soon as its last byte is there, and takes one
  request off the queue for each.
\<close>

subsection \<open>What the server writes\<close>

datatype reply = Whole http_response | Streamed http_response "string list"

fun reply_bytes :: "reply \<Rightarrow> string" where
  "reply_bytes (Whole r) = response_to_buffer r True"
| "reply_bytes (Streamed r chunks) = chunked_bytes r chunks"

fun reply_head :: "reply \<Rightarrow> http_response" where
  "reply_head (Whole r) = r"
| "reply_head (Streamed r chunks) = r"

fun reply_framing :: "reply \<Rightarrow> string \<times> string" where
  "reply_framing (Whole r) = (''Content-Length'', to_chars 10 (length (body_of r)))"
| "reply_framing (Streamed r chunks) = (''Transfer-Encoding'', ''chunked'')"

fun reply_message :: "reply \<Rightarrow> http_response_message" where
  "reply_message (Whole r) =
     (parsed_head r (reply_framing (Whole r)))\<lparr>m_body := body_of r, m_content_length := Some (of_nat (length (body_of r)))\<rparr>"
| "reply_message (Streamed r chunks) =
     (parsed_head r (reply_framing (Streamed r chunks)))\<lparr>m_body := concat chunks, m_chunked := True\<rparr>"

text \<open>A reply that leaves the connection open, within the client's limits.\<close>

definition reply_ok :: "reply \<Rightarrow> bool" where
  "reply_ok reply \<longleftrightarrow>
     serialisable default_parser_options (reply_head reply) (reply_framing reply) \<and>
     length (status_line (reply_head reply)) < max_start_line default_parser_options \<and>
     resp_status_code (reply_head reply) \<noteq> 100 \<and> \<not> resp_close_connection (reply_head reply) \<and>
     (case reply of
        Whole r \<Rightarrow> length (body_of r) \<le> max_body default_parser_options
      | Streamed r chunks \<Rightarrow> status_code_allows_body (resp_status_code r) \<and> (\<forall>c\<in>set chunks. c \<noteq> []) \<and>
          length (concat chunks) \<le> max_body default_parser_options)"

abbreviation fresh_parser :: http_parser where
  "fresh_parser \<equiv> parser_new Mode_response default_parser_options"

lemma max_body_default: "max_body default_parser_options = 8388608"
  by (simp add: default_parser_options_def)

lemma reply_parsed:
  assumes "reply_ok reply"
  obtains q where "parse 0 fresh_parser (reply_bytes reply @ rest) = (Some Complete, q, rest)"
    "p_response q = reply_message reply"
proof (cases reply)
  case (Whole r)
  have "length (body_of r) < 2 ^ 64" using assms Whole by (simp add: reply_ok_def max_body_default)
  then show ?thesis
    using that fixed_roundtrip [of default_parser_options r 0 rest] assms Whole by (auto simp: reply_ok_def)
next
  case (Streamed r chunks)
  have "max_body default_parser_options + 2 < 2 ^ 64" by (simp add: max_body_default)
  then show ?thesis
    using that chunked_roundtrip [of default_parser_options r chunks 0 rest] assms Streamed by (auto simp: reply_ok_def)
qed

lemma reply_room: "reply_ok reply \<Longrightarrow> line_room fresh_parser (reply_bytes reply @ rest)"
proof -
  assume ok: "reply_ok reply"
  let ?r = "reply_head reply"
  have st: "0 \<le> resp_status_code ?r" and no_cr: "CHR 0x0D \<notin> set (status_message ?r)"
    using ok by (auto simp: reply_ok_def serialisable_def)
  have "\<exists>more. reply_bytes reply = status_line ?r @ crlf @ more"
  proof (cases reply)
    case (Whole r)
    then show ?thesis using response_to_buffer_lines [of r] st by simp
  next
    case (Streamed r chunks)
    then show ?thesis
      using st by (simp add: chunked_bytes_def headers_to_buffer_def status_line_def string_of_int_def)
  qed
  then obtain more where bytes: "reply_bytes reply = status_line ?r @ crlf @ more" by blast
  have "\<not> is_digit 10 CHR 0x0D" by code_simp
  then have "CHR 0x0D \<notin> set (status_line ?r)"
    using no_cr to_chars_not_in [of 10 "CHR 0x0D"] by (simp add: status_line_def)
  then have "find_str crlf (reply_bytes reply @ rest) = Some (length (status_line ?r))"
    using find_str_crlf [of "status_line ?r" "more @ rest"] by (simp add: bytes)
  then show ?thesis using ok by (simp add: line_room_def reply_ok_def parser_new_def)
qed

lemma reply_nonempty: "reply_ok reply \<Longrightarrow> reply_bytes reply \<noteq> []"
proof
  assume ok: "reply_ok reply" and empty: "reply_bytes reply = []"
  obtain q where "parse 0 fresh_parser (reply_bytes reply @ []) = (Some Complete, q, [])"
    using reply_parsed [OF ok] by blast
  then have "length ([] :: string) < length (reply_bytes reply)"
    using parse_consumes [of 0 fresh_parser "reply_bytes reply" q "[]"] by (simp add: parser_new_def)
  then show False using empty by simp
qed

lemma reply_stays_open: "reply_ok reply \<Longrightarrow> \<not> response_closes_connection (reply_message reply)"
proof -
  assume ok: "reply_ok reply"
  let ?r = "reply_head reply"
  have "hdr_get ''Connection'' (map header_entry_of (response_lines ?r (reply_framing reply))) = ''Keep-Alive''"
    using ok by (simp add: reply_ok_def response_lines_def hdr_get_values hdr_values_Cons header_entry_of_def) code_simp
  moreover have "m_headers (reply_message reply) = map header_entry_of (response_lines ?r (reply_framing reply))"
    "m_version (reply_message reply) = V_http11"
    by (cases reply; simp add: parsed_head_def)+
  moreover have "\<not> client_header_has_token ''Keep-Alive'' ''close''" by code_simp
  ultimately show ?thesis by (simp add: response_closes_connection_def)
qed

lemma reply_status: "m_status_code (reply_message reply) = resp_status_code (reply_head reply)"
  by (cases reply) (simp_all add: parsed_head_def)

lemma reset_fresh: "same_frame fresh_parser q \<Longrightarrow> parser_reset q = fresh_parser"
  by (cases q) (simp add: same_frame_def parser_reset_def parser_new_def)

subsection \<open>Calls on the client\<close>

fun responses_in :: "client_event list \<Rightarrow> http_response_message list" where
  "responses_in [] = []"
| "responses_in (Ev_response r # es) = r # responses_in es"
| "responses_in (_ # es) = responses_in es"

lemma responses_in_append [simp]: "responses_in (es @ fs) = responses_in es @ responses_in fs"
  by (induction es rule: responses_in.induct) simp_all

definition responses_of :: "client_state \<Rightarrow> http_response_message list" where
  "responses_of s = responses_in (hk_events s)"

text \<open>The requests waiting for a response or for the connection, in order.\<close>

definition outstanding :: "client_state \<Rightarrow> queued_request list" where
  "outstanding s = hk_in_flight s @ hk_pending s"

definition with_body :: "queued_request \<Rightarrow> bool" where
  "with_body q \<longleftrightarrow> \<not> expects_no_response_body (qr_request q)"

fun no_head :: "client_command \<Rightarrow> bool" where
  "no_head (Cmd_send r) = (\<not> expects_no_response_body r)"
| "no_head _ = True"

definition queue_grows :: "client_state \<Rightarrow> client_state \<Rightarrow> bool" where
  "queue_grows s t \<longleftrightarrow> same_body s t \<and> hk_cache t = hk_cache s \<and> responses_of t = responses_of s \<and>
     (\<exists>new. outstanding t = outstanding s @ new \<and> list_all with_body new) \<and>
     (\<exists>more. hk_in_flight t = hk_in_flight s @ more)"

lemma queue_grows_refl [simp]: "queue_grows s s"
  by (simp add: queue_grows_def)

lemma queue_grows_trans [trans]: "queue_grows s t \<Longrightarrow> queue_grows t u \<Longrightarrow> queue_grows s u"
  unfolding queue_grows_def using same_body_trans by fastforce

lemma queue_grows_cong:
  "same_body s t \<Longrightarrow> hk_cache t = hk_cache s \<Longrightarrow> hk_events t = hk_events s \<Longrightarrow> hk_in_flight t = hk_in_flight s \<Longrightarrow>
   hk_pending t = hk_pending s \<Longrightarrow> queue_grows s t"
  by (simp add: queue_grows_def responses_of_def outstanding_def)

lemma queue_grows_emit: "responses_in [e] = [] \<Longrightarrow> queue_grows s (client_emit e s)"
  by (simp add: queue_grows_def responses_of_def outstanding_def client_emit_def same_body_def)

lemma client_conn_send_more [simp]:
  "hk_in_flight (client_conn_send b s) = hk_in_flight s" "hk_pending (client_conn_send b s) = hk_pending s"
  "hk_cache (client_conn_send b s) = hk_cache s" "responses_of (client_conn_send b s) = responses_of s"
  "hk_awaiting (client_conn_send b s) = hk_awaiting s"
  by (simp_all add: client_conn_send_def client_emit_def responses_of_def split: option.split bool.split)

lemma flush_loop_grows:
  "hk_cache (client_flush_loop host qs s) = hk_cache s \<and> responses_of (client_flush_loop host qs s) = responses_of s \<and>
   outstanding (client_flush_loop host qs s) = hk_in_flight s @ qs \<and>
   (\<exists>more. hk_in_flight (client_flush_loop host qs s) = hk_in_flight s @ more)"
proof (induction qs arbitrary: s)
  case Nil
  show ?case by (simp add: outstanding_def responses_of_def)
next
  case (Cons q qs)
  let ?w = "expects_continue (qr_request q)"
  define s2 where "s2 = (client_conn_send (serialize host (\<not> ?w) (qr_request q)) s)\<lparr>hk_in_flight := hk_in_flight s @ [q]\<rparr>"
  have s2: "hk_in_flight s2 = hk_in_flight s @ [q]" "hk_cache s2 = hk_cache s" "responses_of s2 = responses_of s"
    using client_conn_send_more(4) [of "serialize host (\<not> ?w) (qr_request q)" s]
    by (simp_all add: s2_def responses_of_def)
  have run: "client_flush_loop host (q # qs) s = (if ?w then s2\<lparr>hk_pending := qs, hk_awaiting := True\<rparr> else client_flush_loop host qs s2)"
    by (simp add: s2_def Let_def)
  show ?case
  proof (cases ?w)
    case True
    then have "client_flush_loop host (q # qs) s = s2\<lparr>hk_pending := qs, hk_awaiting := True\<rparr>" using run by simp
    then show ?thesis using s2 by (simp add: outstanding_def responses_of_def)
  next
    case False
    then have "client_flush_loop host (q # qs) s = client_flush_loop host qs s2" using run by simp
    then show ?thesis using Cons.IH [of s2] s2 by auto
  qed
qed

lemma flush_requests_grows: "queue_grows s (flush_requests cfg s)"
  using flush_loop_grows [of "ck_host cfg" "hk_pending s" s] same_body_flush [OF same_body_refl, of s "ck_host cfg" "hk_pending s"]
  by (simp add: flush_requests_def queue_grows_def outstanding_def)

lemma request_connect_grows: "queue_grows s (request_connect s)"
proof -
  have "queue_grows s (s\<lparr>hk_connecting := True\<rparr>)" by (rule queue_grows_cong) (simp_all add: same_body_def)
  also have "queue_grows (s\<lparr>hk_connecting := True\<rparr>) (client_emit Ev_connect (s\<lparr>hk_connecting := True\<rparr>))" by (rule queue_grows_emit) simp
  finally show ?thesis by (simp add: request_connect_def)
qed

lemma enqueue_grows: "with_body q \<Longrightarrow> queue_grows s (enqueue cfg q s)"
proof -
  assume "with_body q"
  then have "queue_grows s (s\<lparr>hk_pending := hk_pending s @ [q]\<rparr>)"
    by (simp add: queue_grows_def outstanding_def responses_of_def same_body_def)
  then show ?thesis
    using request_connect_grows flush_requests_grows queue_grows_trans by (simp add: enqueue_def Let_def)
qed

lemma send_in_loop_grows:
  assumes "hk_cache s = None" and "\<not> expects_no_response_body r"
  shows "queue_grows s (client_send_in_loop cfg r s)"
proof -
  define s1 where "s1 = s\<lparr>hk_stopped := False\<rparr>"
  have "queue_grows s s1" unfolding s1_def by (rule queue_grows_cong) (simp_all add: same_body_def)
  also have "queue_grows s1 (enqueue cfg \<lparr>qr_request = r, qr_cache_entry_id = None\<rparr> s1)"
    using assms(2) by (intro enqueue_grows) (simp add: with_body_def)
  finally show ?thesis using assms(1) by (simp add: client_send_in_loop_def s1_def Let_def)
qed

lemma tcp_disconnect_grows: "queue_grows s (tcp_disconnect s)"
proof -
  let ?c = "case hk_connection s of None \<Rightarrow> None | Some (n, up) \<Rightarrow> Some (n, False)"
  have "queue_grows s (s\<lparr>hk_connection := ?c\<rparr>)" by (rule queue_grows_cong) (simp_all add: same_body_def)
  also have "queue_grows (s\<lparr>hk_connection := ?c\<rparr>) (client_emit Ev_disconnect (s\<lparr>hk_connection := ?c\<rparr>))" by (rule queue_grows_emit) simp
  finally show ?thesis by (simp add: tcp_disconnect_def)
qed

lemma command_grows:
  assumes "hk_cache s = None" and "no_head cmd"
  shows "queue_grows s (client_call cfg cmd s)"
proof (cases cmd)
  case (Cmd_send r)
  then show ?thesis using send_in_loop_grows assms by (simp add: client_call_def)
next
  case Cmd_connect
  have "queue_grows s (s\<lparr>hk_stopped := False\<rparr>)" by (rule queue_grows_cong) (simp_all add: same_body_def)
  also have "queue_grows (s\<lparr>hk_stopped := False\<rparr>) (request_connect (s\<lparr>hk_stopped := False\<rparr>))" by (rule request_connect_grows)
  finally show ?thesis by (simp add: client_call_def client_connect_def Cmd_connect)
next
  case Cmd_disconnect
  let ?s = "s\<lparr>hk_stopped := True, hk_connecting := False, hk_awaiting := False\<rparr>"
  have "queue_grows s ?s" by (rule queue_grows_cong) (simp_all add: same_body_def)
  also have "queue_grows ?s (tcp_disconnect ?s)" by (rule tcp_disconnect_grows)
  finally show ?thesis by (simp add: client_call_def client_disconnect_def Cmd_disconnect)
next
  case Cmd_stop
  let ?s = "s\<lparr>hk_stopped := True, hk_connecting := False, hk_awaiting := False\<rparr>"
  have "queue_grows s ?s" by (rule queue_grows_cong) (simp_all add: same_body_def)
  also have "queue_grows ?s (client_emit Ev_stop ?s)" by (rule queue_grows_emit) simp
  finally show ?thesis by (simp add: client_call_def client_stop_def Cmd_stop)
next
  case (Cmd_stream_handlers d c)
  then show ?thesis by (intro queue_grows_cong) (simp_all add: client_call_def same_body_def)
qed

lemma commands_grow: "hk_cache s = None \<Longrightarrow> list_all no_head cmds \<Longrightarrow> queue_grows s (client_commands cfg cmds s)"
proof (induction cmds arbitrary: s)
  case (Cons c cs)
  have first: "queue_grows s (client_call cfg c s)" using Cons.prems by (intro command_grows) simp_all
  then have "hk_cache (client_call cfg c s) = None" using Cons.prems(1) by (simp add: queue_grows_def)
  then have "queue_grows (client_call cfg c s) (client_commands cfg cs (client_call cfg c s))"
    using Cons.prems(2) by (intro Cons.IH) simp_all
  with first show ?case using queue_grows_trans by (simp add: client_commands_def)
qed (simp add: client_commands_def)

subsection \<open>One response\<close>

definition plain_config :: "client_config \<Rightarrow> bool" where
  "plain_config cfg \<longleftrightarrow> ck_on_streaming cfg = None \<and>
     (case ck_on_response cfg of None \<Rightarrow> False | Some callback \<Rightarrow> \<forall>r. list_all no_head (callback r))"

definition plain_client :: "client_state \<Rightarrow> bool" where
  "plain_client s \<longleftrightarrow> hk_cache s = None \<and> \<not> hk_active s \<and> list_all with_body (outstanding s)"

lemma plain_client_grows: "queue_grows s t \<Longrightarrow> plain_client s \<Longrightarrow> plain_client t"
  by (auto simp: queue_grows_def plain_client_def same_body_def)

lemma head_with_body: "plain_client s \<Longrightarrow>
    \<not> (hk_in_flight s \<noteq> [] \<and> expects_no_response_body (qr_request (hd (hk_in_flight s))))"
  by (cases "hk_in_flight s") (auto simp: plain_client_def outstanding_def with_body_def)

text \<open>\<open>answers r buf n s t\<close>: the response \<open>r\<close> was handed out and answers the first request in flight.\<close>

definition answers :: "http_response_message \<Rightarrow> nat \<Rightarrow> string \<Rightarrow> client_state \<Rightarrow> client_state \<Rightarrow> bool" where
  "answers r n buf s t \<longleftrightarrow> hk_parser t = parser_reset (hk_parser s) \<and> hk_buffers t n = buf \<and> plain_client t \<and>
     responses_of t = responses_of s @ [r] \<and>
     (hk_in_flight s \<noteq> [] \<longrightarrow>
        (\<exists>new. outstanding t = tl (outstanding s) @ new) \<and> (\<exists>more. hk_in_flight t = tl (hk_in_flight s) @ more))"

lemma whole_response_answers:
  assumes cfg: "plain_config cfg" and s: "plain_client s" "hk_buffers s n = buf"
    and open_response: "\<not> response_closes_connection r"
  shows "\<exists>t. whole_response_step cfg r n s = (buf \<noteq> [], t) \<and> answers r n buf s t"
proof -
  obtain callback where cb: "ck_on_response cfg = Some callback" "list_all no_head (callback r)"
    using cfg by (auto simp: plain_config_def split: option.splits)
  define s1 where "s1 = (reset_parser s)\<lparr>hk_in_flight := tl (hk_in_flight s)\<rparr>"
  have s1: "hk_parser s1 = parser_reset (hk_parser s)" "hk_buffers s1 = hk_buffers s" "hk_cache s1 = None"
    "\<not> hk_active s1" "hk_in_flight s1 = tl (hk_in_flight s)" "hk_pending s1 = hk_pending s" "hk_events s1 = hk_events s"
    using s by (simp_all add: s1_def reset_parser_def plain_client_def)
  have "set (outstanding s1) \<subseteq> set (outstanding s)"
    using s1 by (cases "hk_in_flight s") (auto simp: outstanding_def)
  then have plain1: "plain_client s1" using s s1 by (auto simp: plain_client_def list_all_iff)
  define s2 where "s2 = client_emit (Ev_response r) s1"
  have s2: "plain_client s2" "hk_parser s2 = hk_parser s1" "hk_buffers s2 = hk_buffers s1"
    "responses_of s2 = responses_of s @ [r]" "hk_in_flight s2 = hk_in_flight s1" "outstanding s2 = outstanding s1"
    using plain1 s1 by (simp_all add: s2_def client_emit_def plain_client_def outstanding_def responses_of_def)
  have "queue_grows s2 (client_commands cfg (callback r) s2)"
    using s2(1) cb(2) by (intro commands_grow) (simp_all add: plain_client_def)
  also have "queue_grows (client_commands cfg (callback r) s2) (flush_requests cfg (client_commands cfg (callback r) s2))"
    by (rule flush_requests_grows)
  finally have g: "queue_grows s2 (flush_requests cfg (client_commands cfg (callback r) s2))" .
  define t where "t = flush_requests cfg (client_commands cfg (callback r) s2)"
  have g: "queue_grows s2 t" using g by (simp add: t_def)
  have mid: "(case hk_in_flight (reset_parser s) of
        [] \<Rightarrow> (r, reset_parser s)
      | completed # waiting \<Rightarrow> cache_response cfg completed r ((reset_parser s)\<lparr>hk_in_flight := waiting\<rparr>)) = (r, s1)"
    using s by (cases "hk_in_flight s") (auto simp: s1_def reset_parser_def cache_response_def plain_client_def)
  have t: "whole_response_step cfg r n s = (hk_buffers t n \<noteq> [], t)"
    unfolding whole_response_step_def Let_def mid prod.case cb(1) option.case
    using open_response by (simp add: s2_def t_def)
  have "answers r n buf s t"
    using g s2 s1 s plain_client_grows [OF g]
    by (cases "hk_in_flight s") (auto simp: answers_def queue_grows_def same_body_def outstanding_def)
  moreover from this have "hk_buffers t n = buf" by (simp add: answers_def)
  ultimately show ?thesis using t by blast
qed

lemma client_message_step_plain:
  assumes "plain_config cfg" and "plain_client s"
  shows "client_message_step cfg n s =
    (case parse_response (hk_parser s) (hk_buffers s n) of
       (None, p, buf) \<Rightarrow> None
     | (Some status, p, buf) \<Rightarrow>
         let s1 = with_client_buffer n buf (s\<lparr>hk_parser := p\<rparr>)
         in (case status of
               Incomplete \<Rightarrow> Some (False, s1)
             | Error \<Rightarrow> Some (False, handle_parse_error cfg s1)
             | Complete \<Rightarrow>
                 if m_status_code (p_response p) = 100 then
                   (let s2 = handle_continue_response (reset_parser s1) in Some (hk_buffers s2 n \<noteq> [], s2))
                 else Some (whole_response_step cfg (p_response p) n (s1\<lparr>hk_awaiting := False\<rparr>))))"
proof -
  have body: "(hk_in_flight s \<noteq> [] \<and> expects_no_response_body (qr_request (hd (hk_in_flight s)))) = False"
    using head_with_body [OF assms(2)] by blast
  have none: "ck_on_streaming cfg = None" "hk_active s = False"
    using assms by (simp_all add: plain_client_def plain_config_def)
  show ?thesis
    unfolding client_message_step_def client_response_step_def Let_def body none option.case by (simp cong: if_cong)
qed

lemma client_step_complete:
  assumes cfg: "plain_config cfg" and s: "plain_client s"
    and parse: "parse_response (hk_parser s) (hk_buffers s n) = (Some Complete, p, buf)"
    and r: "\<not> response_closes_connection (p_response p)" "m_status_code (p_response p) \<noteq> 100"
  shows "\<exists>t. client_message_step cfg n s = Some (buf \<noteq> [], t) \<and>
    answers (p_response p) n buf (s\<lparr>hk_parser := p\<rparr>) t"
proof -
  define s1 where "s1 = (with_client_buffer n buf (s\<lparr>hk_parser := p\<rparr>))\<lparr>hk_awaiting := False\<rparr>"
  have s1: "plain_client s1" "hk_buffers s1 n = buf"
    using s by (simp_all add: s1_def with_client_buffer_def plain_client_def outstanding_def)
  have "client_message_step cfg n s = Some (whole_response_step cfg (p_response p) n s1)"
    using parse r(2) by (simp add: client_message_step_plain [OF cfg s] s1_def Let_def)
  moreover have "answers r n buf (s\<lparr>hk_parser := p\<rparr>) t" if "answers r n buf s1 t" for r t
    using that by (simp add: answers_def s1_def with_client_buffer_def outstanding_def responses_of_def)
  ultimately show ?thesis using whole_response_answers [OF cfg s1 r(1)] by fastforce
qed

lemma client_step_incomplete:
  assumes cfg: "plain_config cfg" and s: "plain_client s"
    and parse: "parse_response (hk_parser s) (hk_buffers s n) = (Some Incomplete, p, buf)"
  shows "client_message_loop cfg n s = Some (with_client_buffer n buf (s\<lparr>hk_parser := p\<rparr>))"
proof -
  have "client_message_step cfg n s = Some (False, with_client_buffer n buf (s\<lparr>hk_parser := p\<rparr>))"
    using parse by (simp add: client_message_step_plain [OF cfg s] Let_def)
  then show ?thesis by (simp add: client_message_loop.simps [of cfg n s])
qed

subsection \<open>A stream of responses\<close>

definition reply_stream :: "reply list \<Rightarrow> string" where
  "reply_stream replies = concat (map reply_bytes replies)"

lemma reply_stream_simps [simp]:
  "reply_stream [] = []" "reply_stream (r # rs) = reply_bytes r @ reply_stream rs"
  by (simp_all add: reply_stream_def)

lemma parse_fresh_empty: "parse 0 fresh_parser [] = (Some Incomplete, fresh_parser, [])"
  by (rule parse_Return) (simp add: parse_step_def start_line_step_def parser_new_def)

lemma parse_fresh_some: "fst (parse 0 fresh_parser y) \<noteq> None"
proof -
  have max: "max_body default_parser_options + 2 < 2 ^ 64" by (simp add: max_body_default)
  obtain r q rest where run: "parse 0 fresh_parser y = (r, q, rest)" by (cases "parse 0 fresh_parser y")
  have "parser_inv fresh_parser \<and> p_options fresh_parser = default_parser_options \<and> \<not> p_head_only fresh_parser"
    using parser_session_inv [OF session_new max] by blast
  with parse_inv [OF run] max run show ?thesis by auto
qed

text \<open>
  Before the next reply is complete its bytes \<open>x\<close> are in the parser and the buffer.
\<close>

definition waiting :: "nat \<Rightarrow> client_state \<Rightarrow> string \<Rightarrow> bool" where
  "waiting n s x \<longleftrightarrow> plain_client s \<and> parse 0 fresh_parser x = (Some Incomplete, hk_parser s, hk_buffers s n)"

lemma waiting_parse:
  assumes "waiting n s x"
  shows "parse_response (hk_parser s) (hk_buffers s n @ bytes) = parse 0 fresh_parser (x @ bytes)"
proof -
  have run: "parse 0 fresh_parser x = (Some Incomplete, hk_parser s, hk_buffers s n)"
    using assms by (simp add: waiting_def)
  then have "same_frame fresh_parser (hk_parser s)" by (rule parse_frame)
  then have "(hk_parser s)\<lparr>p_mode := Mode_response, p_head_only := False\<rparr> = hk_parser s"
    by (cases "hk_parser s") (simp add: same_frame_def parser_new_def)
  then show ?thesis using parse_resume [OF run, of bytes] by (simp add: parse_response_def)
qed

lemma fresh_waiting: "plain_client s \<Longrightarrow> hk_parser s = fresh_parser \<Longrightarrow> hk_buffers s n = [] \<Longrightarrow> waiting n s []"
  by (simp add: waiting_def parse_fresh_empty)

text \<open>The replies completed by the bytes \<open>y\<close>, of which \<open>x\<close> remain.\<close>

definition progress :: "nat \<Rightarrow> reply list \<Rightarrow> string \<Rightarrow> string \<Rightarrow> client_state \<Rightarrow> client_state \<Rightarrow> bool" where
  "progress n replies y g s t \<longleftrightarrow>
     (\<exists>k x. k \<le> length replies \<and> waiting n t x \<and> y = reply_stream (take k replies) @ x \<and>
        x @ g = reply_stream (drop k replies) \<and>
        (k < length replies \<longrightarrow> length x < length (reply_bytes (replies ! k))) \<and>
        responses_of t = responses_of s @ map reply_message (take k replies) \<and>
        (\<exists>new. outstanding t = drop k (outstanding s) @ new) \<and> length (hk_in_flight s) \<le> length (hk_in_flight t) + k)"

lemma progress_none:
  assumes "waiting n t y" and "y @ g = reply_stream replies"
    and "case replies of [] \<Rightarrow> True | r # rs \<Rightarrow> length y < length (reply_bytes r)"
    and "responses_of t = responses_of s" "outstanding t = outstanding s" "hk_in_flight t = hk_in_flight s"
  shows "progress n replies y g s t"
  unfolding progress_def
  using assms by (intro exI [of _ 0] exI [of _ y]) (auto split: list.splits)

lemma progress_next:
  assumes "progress n rs y g t1 t" and "answers (reply_message r) n b s t1" and "hk_in_flight s \<noteq> []"
  shows "progress n (r # rs) (reply_bytes r @ y) g s t"
proof -
  obtain k x new where p: "k \<le> length rs" "waiting n t x" "y = reply_stream (take k rs) @ x"
      "x @ g = reply_stream (drop k rs)" "k < length rs \<longrightarrow> length x < length (reply_bytes (rs ! k))"
      "responses_of t = responses_of t1 @ map reply_message (take k rs)" "outstanding t = drop k (outstanding t1) @ new"
      "length (hk_in_flight t1) \<le> length (hk_in_flight t) + k"
    using assms(1) by (auto simp: progress_def)
  obtain new1 more where a: "responses_of t1 = responses_of s @ [reply_message r]"
      "outstanding t1 = tl (outstanding s) @ new1" "hk_in_flight t1 = tl (hk_in_flight s) @ more"
    using assms(2,3) by (auto simp: answers_def)
  have "outstanding t = drop (Suc k) (outstanding s) @ drop (k - length (tl (outstanding s))) new1 @ new"
    using p(7) a(2) by (simp add: drop_Suc)
  then have "\<exists>new. outstanding t = drop (Suc k) (outstanding s) @ new" by blast
  moreover have "length (hk_in_flight s) \<le> length (hk_in_flight t) + Suc k"
    using p(8) a(3) assms(3) by (cases "hk_in_flight s") auto
  ultimately show ?thesis
    unfolding progress_def using p a(1)
    by (intro exI [of _ "Suc k"] exI [of _ x]) auto
qed

lemma loop_delivers:
  assumes cfg: "plain_config cfg"
  shows "list_all reply_ok replies \<Longrightarrow> y @ g = reply_stream replies \<Longrightarrow> plain_client s \<Longrightarrow>
    parse_response (hk_parser s) (hk_buffers s n) = parse 0 fresh_parser y \<Longrightarrow>
    length replies \<le> length (hk_in_flight s) \<Longrightarrow>
    \<exists>t. client_message_loop cfg n s = Some t \<and> progress n replies y g s t"
proof (induction replies arbitrary: y s)
  case Nil
  then have "parse_response (hk_parser s) (hk_buffers s n) = (Some Incomplete, fresh_parser, [])"
    by (simp add: parse_fresh_empty)
  note run = client_step_incomplete [OF cfg Nil(3) this]
  define t where "t = with_client_buffer n [] (s\<lparr>hk_parser := fresh_parser\<rparr>)"
  have "plain_client t" "responses_of t = responses_of s" "outstanding t = outstanding s" "hk_in_flight t = hk_in_flight s"
    using Nil(3) by (simp_all add: t_def with_client_buffer_def plain_client_def outstanding_def responses_of_def)
  moreover from this have "waiting n t []" by (intro fresh_waiting) (simp_all add: t_def with_client_buffer_def)
  ultimately have "progress n [] y g s t" using Nil(2) by (intro progress_none) simp_all
  then show ?case using run t_def by blast
next
  case (Cons r rs)
  have ok: "reply_ok r" "list_all reply_ok rs" using Cons.prems(1) by simp_all
  have flying: "hk_in_flight s \<noteq> []" using Cons.prems(5) by auto
  show ?case
  proof (cases "length (reply_bytes r) \<le> length y")
    case True
    define y' where "y' = drop (length (reply_bytes r)) y"
    have "take (length (reply_bytes r)) y = take (length (reply_bytes r)) (y @ g)" using True by simp
    also have "\<dots> = reply_bytes r" unfolding Cons.prems(2) by simp
    finally have y: "y = reply_bytes r @ y'" unfolding y'_def by (metis append_take_drop_id)
    with Cons.prems(2) have rest: "y' @ g = reply_stream rs" by simp
    obtain q where q: "parse 0 fresh_parser (reply_bytes r @ y') = (Some Complete, q, y')" "p_response q = reply_message r"
      using reply_parsed [OF ok(1)] by blast
    have fresh: "parser_reset q = fresh_parser" using parse_frame [OF q(1)] by (rule reset_fresh)
    have parse: "parse_response (hk_parser s) (hk_buffers s n) = (Some Complete, q, y')"
      using Cons.prems(4) q(1) y by simp
    have "\<not> response_closes_connection (p_response q)" "m_status_code (p_response q) \<noteq> 100"
      using reply_stays_open ok(1) reply_status q(2) by (simp_all add: reply_ok_def)
    from client_step_complete [OF cfg Cons.prems(3) parse this] q(2) obtain t1 where
      step: "client_message_step cfg n s = Some (y' \<noteq> [], t1)" and
      ans: "answers (reply_message r) n y' (s\<lparr>hk_parser := q\<rparr>) t1"
      by auto
    have t1: "plain_client t1" "hk_parser t1 = fresh_parser" "hk_buffers t1 n = y'"
      using ans fresh by (simp_all add: answers_def)
    have parse1: "parse_response (hk_parser t1) (hk_buffers t1 n) = parse 0 fresh_parser y'"
      using t1 waiting_parse [OF fresh_waiting, of "t1\<lparr>hk_buffers := \<lambda>m. []\<rparr>" n y']
      by (simp add: plain_client_def outstanding_def)
    have len: "length rs \<le> length (hk_in_flight t1)"
      using ans Cons.prems(5) flying by (cases "hk_in_flight s") (auto simp: answers_def)
    have next_state: "\<exists>t. (if y' \<noteq> [] then client_message_loop cfg n t1 else Some t1) = Some t \<and> progress n rs y' g t1 t"
    proof (cases "y' = []")
      case True
      then have "waiting n t1 y'" using t1 fresh_waiting by simp
      then have "progress n rs y' g t1 t1"
        using rest True ok(2) reply_nonempty by (intro progress_none) (auto split: list.splits)
      with True show ?thesis by simp
    next
      case False
      then show ?thesis using Cons.IH [OF ok(2) rest t1(1) parse1 len] by simp
    qed
    then obtain t where t: "(if y' \<noteq> [] then client_message_loop cfg n t1 else Some t1) = Some t" "progress n rs y' g t1 t"
      by blast
    have "progress n (r # rs) (reply_bytes r @ y') g (s\<lparr>hk_parser := q\<rparr>) t"
      by (rule progress_next [OF t(2) ans]) (use flying in simp)
    then have "progress n (r # rs) y g s t"
      by (simp add: progress_def y outstanding_def responses_of_def)
    moreover have "client_message_loop cfg n s = Some t"
      using step t(1) by (simp add: client_message_loop.simps [of cfg n s])
    ultimately show ?thesis by blast
  next
    case False
    then obtain z where "y @ z = reply_bytes r"
      using Cons.prems(2) by (auto simp: append_eq_append_conv2)
    then have z: "reply_bytes r = y @ z" by simp
    with False have more: "z \<noteq> []" by auto
    obtain q where whole: "parse 0 fresh_parser (y @ z) = (Some Complete, q, [])"
      using reply_parsed [OF ok(1), of "[]"] z by auto
    have err: "p_error fresh_parser = E_none" by (simp add: parser_new_def)
    have room: "line_room fresh_parser (y @ z)" using reply_room [OF ok(1), of "[]"] z by simp
    obtain st p buf where run: "parse 0 fresh_parser y = (st, p, buf)" by (cases "parse 0 fresh_parser y")
    have "st \<noteq> Some Error" using parse_prefix [OF whole err room] run by simp
    moreover have "st \<noteq> Some Complete" using parse_complete_extend [of 0 fresh_parser y p buf z] run whole more by auto
    moreover have "st \<noteq> None" using parse_fresh_some [of y] run by simp
    ultimately have st: "parse 0 fresh_parser y = (Some Incomplete, p, buf)"
      using run by (cases st) (auto, metis parse_status.exhaust)
    then have "parse_response (hk_parser s) (hk_buffers s n) = (Some Incomplete, p, buf)" using Cons.prems(4) by simp
    note loop = client_step_incomplete [OF cfg Cons.prems(3) this]
    define t where "t = with_client_buffer n buf (s\<lparr>hk_parser := p\<rparr>)"
    have "waiting n t y" "responses_of t = responses_of s" "outstanding t = outstanding s" "hk_in_flight t = hk_in_flight s"
      using Cons.prems(3) st
      by (simp_all add: t_def waiting_def with_client_buffer_def plain_client_def outstanding_def responses_of_def)
    then have "progress n (r # rs) y g s t"
      using Cons.prems(2) False by (intro progress_none) simp_all
    then show ?thesis using loop t_def by blast
  qed
qed



lemma progress_trans:
  assumes "progress n replies y (z @ g) s t" and "k \<le> length replies" and "y = reply_stream (take k replies) @ x"
    and "responses_of t1 = responses_of s @ map reply_message (take k replies)"
    and "outstanding t1 = drop k (outstanding s) @ new" and "length (hk_in_flight s) \<le> length (hk_in_flight t1) + k"
    and "progress n (drop k replies) (x @ z) g t1 u"
  shows "progress n replies (y @ z) g s u"
proof -
  obtain j x' new' where p: "j \<le> length replies - k" "waiting n u x'" "x @ z = reply_stream (take j (drop k replies)) @ x'"
      "x' @ g = reply_stream (drop j (drop k replies))"
      "j < length replies - k \<longrightarrow> length x' < length (reply_bytes (drop k replies ! j))"
      "responses_of u = responses_of t1 @ map reply_message (take j (drop k replies))"
      "outstanding u = drop j (outstanding t1) @ new'" "length (hk_in_flight t1) \<le> length (hk_in_flight u) + j"
    using assms(7) unfolding progress_def length_drop by blast
  have split: "take (k + j) replies = take k replies @ take j (drop k replies)" by (rule take_add)
  have "y @ z = reply_stream (take (k + j) replies) @ x'"
    using p(3) assms(3) by (simp add: split reply_stream_def)
  moreover have "x' @ g = reply_stream (drop (k + j) replies)" using p(4) by (simp add: add.commute)
  moreover have "k + j < length replies \<longrightarrow> length x' < length (reply_bytes (replies ! (k + j)))"
    using p(5) assms(2) by simp
  moreover have "responses_of u = responses_of s @ map reply_message (take (k + j) replies)"
    using p(6) assms(4) by (simp add: split)
  moreover have "\<exists>new. outstanding u = drop (k + j) (outstanding s) @ new"
    using p(7) assms(5) by (simp add: add.commute)
  moreover have "length (hk_in_flight s) \<le> length (hk_in_flight u) + (k + j)" "k + j \<le> length replies"
    using p(1,8) assms(2,6) by linarith+
  ultimately show ?thesis unfolding progress_def using p(2) by blast
qed

lemma segment_delivers:
  assumes cfg: "plain_config cfg" and ok: "list_all reply_ok replies" and len: "length replies \<le> length (hk_in_flight s)"
    and p: "progress n replies y (seg @ g) s t"
  shows "\<exists>u. client_on_message cfg n seg t = Some u \<and> progress n replies (y @ seg) g s u"
proof -
  obtain k x new where k: "k \<le> length replies" "waiting n t x" "y = reply_stream (take k replies) @ x"
      "x @ seg @ g = reply_stream (drop k replies)"
      "responses_of t = responses_of s @ map reply_message (take k replies)"
      "outstanding t = drop k (outstanding s) @ new" "length (hk_in_flight s) \<le> length (hk_in_flight t) + k"
    using p unfolding progress_def by blast
  define t1 where "t1 = with_client_buffer n (hk_buffers t n @ seg) t"
  have t1: "plain_client t1" "responses_of t1 = responses_of t" "outstanding t1 = outstanding t"
    "hk_in_flight t1 = hk_in_flight t" "hk_parser t1 = hk_parser t" "hk_buffers t1 n = hk_buffers t n @ seg"
    using k(2)
    by (simp_all add: t1_def with_client_buffer_def waiting_def plain_client_def outstanding_def responses_of_def)
  have "list_all reply_ok (drop k replies)" using ok by (auto simp: list_all_iff dest: in_set_dropD)
  moreover have "(x @ seg) @ g = reply_stream (drop k replies)" using k(4) by simp
  moreover have "parse_response (hk_parser t1) (hk_buffers t1 n) = parse 0 fresh_parser (x @ seg)"
    using waiting_parse [OF k(2)] t1 by simp
  moreover have "length (drop k replies) \<le> length (hk_in_flight t1)" using len k(7) t1 by simp
  ultimately obtain u where u: "client_message_loop cfg n t1 = Some u" "progress n (drop k replies) (x @ seg) g t1 u"
    using loop_delivers [OF cfg _ _ t1(1)] by blast
  have "progress n replies (y @ seg) g s u"
    by (rule progress_trans [OF p k(1,3) _ _ _ u(2)]) (use k t1 in simp_all)
  then show ?thesis using u(1) by (simp add: client_on_message_def t1_def)
qed

lemma segments_deliver:
  assumes cfg: "plain_config cfg" and ok: "list_all reply_ok replies" and len: "length replies \<le> length (hk_in_flight s)"
  shows "progress n replies y (concat segs @ g) s t \<Longrightarrow>
    \<exists>u. client_run cfg (map (Op_bytes n) segs) t = Some u \<and> progress n replies (y @ concat segs) g s u"
proof (induction segs arbitrary: y t)
  case (Cons seg segs)
  then have "progress n replies y (seg @ (concat segs @ g)) s t" by simp
  from segment_delivers [OF cfg ok len this] obtain t1 where
    t1: "client_on_message cfg n seg t = Some t1" "progress n replies (y @ seg) (concat segs @ g) s t1" by blast
  from Cons.IH [OF t1(2)] show ?case using t1(1) by (simp add: client_op_step_def)
qed simp

subsection \<open>Property\<close>

text \<open>A client between two responses: the parser and the buffer of the connection are fresh.\<close>

definition between_responses :: "nat \<Rightarrow> client_state \<Rightarrow> bool" where
  "between_responses n s \<longleftrightarrow> plain_client s \<and> hk_parser s = fresh_parser \<and> hk_buffers s n = []"

text \<open>
  C6: A client and a server's serialiser agree on the stream: when the bytes of the responses to the
  requests in flight arrive, in any segments, the client has handed out exactly the responses whose last
  byte has arrived, in order and as written, and each has taken the first request off the queue; requests
  the response callback sends only join the end of it.
\<close>

theorem client_delivers_responses:
  assumes "plain_config cfg" and "list_all reply_ok replies" and "between_responses n s"
    and "length replies \<le> length (hk_in_flight s)" and "concat segs @ future = reply_stream replies"
  shows "\<exists>u k new. client_run cfg (map (Op_bytes n) segs) s = Some u \<and> k \<le> length replies \<and>
    length (reply_stream (take k replies)) \<le> length (concat segs) \<and>
    (k < length replies \<longrightarrow> length (concat segs) < length (reply_stream (take (Suc k) replies))) \<and>
    responses_of u = responses_of s @ map reply_message (take k replies) \<and>
    outstanding u = drop k (outstanding s) @ new"
proof -
  have "waiting n s []" using assms(3) by (intro fresh_waiting) (simp_all add: between_responses_def)
  then have "progress n replies [] (concat segs @ future) s s"
    using assms(2,5) reply_nonempty by (intro progress_none) (auto split: list.splits)
  from segments_deliver [OF assms(1,2,4) this] obtain u where
    u: "client_run cfg (map (Op_bytes n) segs) s = Some u" "progress n replies (concat segs) future s u" by auto
  obtain k x new where k: "k \<le> length replies" "concat segs = reply_stream (take k replies) @ x"
      "k < length replies \<longrightarrow> length x < length (reply_bytes (replies ! k))"
      "responses_of u = responses_of s @ map reply_message (take k replies)" "outstanding u = drop k (outstanding s) @ new"
    using u(2) unfolding progress_def by blast
  have "length (reply_stream (take (Suc k) replies)) = length (reply_stream (take k replies)) + length (reply_bytes (replies ! k))"
    if "k < length replies" using that by (simp add: take_Suc_conv_app_nth reply_stream_def)
  then show ?thesis using u(1) k by (intro exI [of _ u] exI [of _ k] exI [of _ new]) auto
qed

definition demo_config :: client_config where
  "demo_config =
     \<lparr>ck_host = ''h'', ck_tls = False, ck_clock = (\<lambda>n. 0), ck_on_response = Some (\<lambda>r. []), ck_on_streaming = None,
      ck_on_data = (\<lambda>d. []), ck_on_complete = [], ck_on_error = Some []\<rparr>"

definition demo_request :: "string \<Rightarrow> http_headers \<Rightarrow> string \<Rightarrow> client_request" where
  "demo_request m h b = \<lparr>cr_method = m, cr_target = ''/'', cr_headers = h, cr_body = b\<rparr>"

definition demo_start :: "client_op list" where
  "demo_start = [Op_call (Cmd_send (demo_request ''GET'' [] [])), Op_established 0,
     Op_call (Cmd_send (demo_request ''PUT'' [] ''x''))]"

definition demo_replies :: "reply list" where
  "demo_replies = [Whole sample_response_200, Streamed sample_response_200 [''hello '', ''world'']]"

definition demo_segments :: "string list" where
  "demo_segments = [take 30 (reply_stream demo_replies), drop 30 (reply_stream demo_replies)]"

theorem client_delivers_responses_witness:
  "\<exists>s u. client_run demo_config demo_start (client_new None) = Some s \<and>
     client_run demo_config (map (Op_bytes 0) demo_segments) s = Some u \<and>
     map m_body (responses_of u) = [''hello'', ''hello world''] \<and> drop 2 (outstanding s) = []"
proof -
  have "case client_run demo_config demo_start (client_new None) of None \<Rightarrow> False
    | Some s \<Rightarrow> list_all with_body (outstanding s) \<and> hk_cache s = None \<and> \<not> hk_active s \<and> hk_parser s = fresh_parser \<and>
        hk_buffers s 0 = [] \<and> length (hk_in_flight s) = 2 \<and> length (outstanding s) = 2 \<and> responses_of s = []"
    by code_simp
  then obtain s where s: "client_run demo_config demo_start (client_new None) = Some s"
    "between_responses 0 s" "length (hk_in_flight s) = 2" "length (outstanding s) = 2" "responses_of s = []"
    by (auto simp: between_responses_def plain_client_def split: option.splits)
  have ok: "list_all reply_ok demo_replies" by code_simp
  have cfg: "plain_config demo_config" by (simp add: plain_config_def demo_config_def)
  have segs: "concat demo_segments @ [] = reply_stream demo_replies" by (simp add: demo_segments_def)
  have two: "length demo_replies = 2" by (simp add: demo_replies_def)
  from client_delivers_responses [OF cfg ok s(2) _ segs] s(3) two obtain u k where
    u: "client_run demo_config (map (Op_bytes 0) demo_segments) s = Some u" "k \<le> 2"
      "k < 2 \<longrightarrow> length (reply_stream demo_replies) < length (reply_stream (take (Suc k) demo_replies))"
      "responses_of u = responses_of s @ map reply_message (take k demo_replies)"
    using segs by auto
  have "length (reply_stream (take (Suc k) demo_replies)) \<le> length (reply_stream demo_replies)" if "k < 2"
    using that by (auto simp: less_2_cases_iff demo_replies_def)
  with u(2,3) have "k = 2" by fastforce
  then have "map m_body (responses_of u) = map (m_body \<circ> reply_message) demo_replies" using u(4) s(5) two by simp
  also have "\<dots> = [''hello'', ''hello world'']" by code_simp
  finally show ?thesis using s u(1) by auto
qed

subsection \<open>Where requests and responses part\<close>

text \<open>
  A response that is not the answer to the waiting request ends the wait for \<open>100 Continue\<close>: the next
  request is written where the server expects the body, which is never sent.
\<close>

definition body_events :: "client_state \<Rightarrow> string list" where
  "body_events s = concat (map (\<lambda>e. case e of Ev_sent n bytes \<Rightarrow> [bytes] | _ \<Rightarrow> []) (hk_events s))"

definition expect_request :: client_request where
  "expect_request = demo_request ''POST'' [\<lparr>h_field = ''Expect'', h_value = ''100-continue''\<rparr>] ''body''"

definition empty_ok :: string where
  "empty_ok = ''HTTP/1.1 200 OK'' @ crlf @ ''Content-Length: 0'' @ crlf @ crlf"

lemma continue_body_lost:
  "case client_run demo_config
      [Op_established 0, Op_call (Cmd_send (demo_request ''GET'' [] [])), Op_call (Cmd_send expect_request),
       Op_call (Cmd_send (demo_request ''PUT'' [] [])), Op_bytes 0 empty_ok,
       Op_bytes 0 (''HTTP/1.1 100 Continue'' @ crlf @ crlf)] (client_new None) of
     None \<Rightarrow> False
   | Some s \<Rightarrow>
       body_events s = [serialize ''h'' True (demo_request ''GET'' [] []), serialize ''h'' False expect_request,
         serialize ''h'' True (demo_request ''PUT'' [] [])] \<and> \<not> hk_awaiting s"
  by code_simp

text \<open>An interim response other than 100 is taken for the answer; the real one goes to the next request.\<close>

lemma interim_response_taken:
  "case client_run demo_config
      [Op_established 0, Op_call (Cmd_send (demo_request ''GET'' [] [])),
       Op_bytes 0 (''HTTP/1.1 103 Early Hints'' @ crlf @ crlf)] (client_new None) of
     None \<Rightarrow> False
   | Some s \<Rightarrow> map m_status_code (responses_of s) = [103] \<and> hk_in_flight s = []"
  by code_simp

text \<open>
  After \<open>disconnect\<close> the next request opens a second connection; when the first one closes at last, the
  request in flight on the second is forgotten.
\<close>

lemma old_connection_clears_new:
  "case client_run demo_config
      [Op_established 0, Op_call (Cmd_send (demo_request ''GET'' [] [])),
       Op_bytes 0 (''HTTP/1.1 200 OK'' @ crlf @ ''Connection: close'' @ crlf @ ''Content-Length: 0'' @ crlf @ crlf),
       Op_call (Cmd_send (demo_request ''HEAD'' [] [])), Op_established 1, Op_closed 0] (client_new None) of
     None \<Rightarrow> False
   | Some s \<Rightarrow> hk_connection s = Some (1, True) \<and> hk_in_flight s = [] \<and> hk_pending s = []"
  by code_simp

end
