(* ===== verification/Client_Streaming.thy ===== *)
theory Client_Streaming
  imports Http_Client Body_Delivery
begin

text \<open>
  The client's decoder for streamed response bodies against the server's for streamed request bodies: on
  the same bytes they make the same callbacks, end with the same status and leave the same bytes, so what
  is proved of one holds of the other.
\<close>

subsection \<open>What the stream has been given\<close>

fun stream_in :: "client_event list \<Rightarrow> body_event list" where
  "stream_in [] = []"
| "stream_in (Ev_data d # es) = Bs_data d # stream_in es"
| "stream_in (Ev_complete # es) = Bs_complete # stream_in es"
| "stream_in (_ # es) = stream_in es"

lemma stream_in_append [simp]: "stream_in (es @ fs) = stream_in es @ stream_in fs"
  by (induction es rule: stream_in.induct) simp_all

definition stream_of :: "client_state \<Rightarrow> body_event list" where
  "stream_of s = stream_in (hk_events s)"

fun handlers_kept :: "client_command \<Rightarrow> bool" where
  "handlers_kept (Cmd_stream_handlers d c) = False"
| "handlers_kept _ = True"

lemma stream_of_emit [simp]: "stream_of (client_emit e s) = stream_of s @ stream_in [e]"
  by (simp add: stream_of_def client_emit_def)

lemma hk_stream_emit [simp]: "hk_stream (client_emit e s) = hk_stream s"
  by (simp add: client_emit_def)

text \<open>A call that makes no callback of the stream.\<close>

definition silent :: "client_state \<Rightarrow> client_state \<Rightarrow> bool" where
  "silent s t \<longleftrightarrow> stream_of t = stream_of s \<and> hk_stream t = hk_stream s"

lemma silent_refl [simp]: "silent s s"
  by (simp add: silent_def)

lemma silent_trans: "silent s t \<Longrightarrow> silent t u \<Longrightarrow> silent s u"
  by (simp add: silent_def)

lemma silent_cong: "hk_events t = hk_events s \<Longrightarrow> hk_stream t = hk_stream s \<Longrightarrow> silent s t"
  by (simp add: silent_def stream_of_def)

lemma silent_send [simp]: "silent s (client_conn_send b t) = silent s t"
  by (auto simp: silent_def client_conn_send_def split: option.split bool.split)

lemma silent_emit: "stream_in [e] = [] \<Longrightarrow> silent s (client_emit e t) = silent s t"
  by (simp add: silent_def)

lemma silent_flush: "silent s t \<Longrightarrow> silent s (client_flush_loop host qs t)"
proof (induction qs arbitrary: t)
  case (Cons q qs)
  have "silent s ((client_conn_send b t)\<lparr>hk_in_flight := x\<rparr>)" for b x
    using Cons.prems silent_send [of s b t] by (simp add: silent_def stream_of_def)
  then show ?case using Cons.IH by (auto simp: Let_def silent_def stream_of_def)
qed (simp add: silent_def stream_of_def)

lemma silent_flush_requests: "silent s (flush_requests cfg s)"
  by (simp add: flush_requests_def silent_flush)

lemma silent_request_connect: "silent s (request_connect s)"
  by (simp add: request_connect_def silent_emit) (simp add: silent_def stream_of_def)

lemma silent_enqueue: "silent s (enqueue cfg q s)"
  using silent_request_connect [of "s\<lparr>hk_pending := hk_pending s @ [q]\<rparr>"]
    silent_flush_requests [of "s\<lparr>hk_pending := hk_pending s @ [q]\<rparr>" cfg]
  by (simp add: enqueue_def Let_def) (simp add: silent_def stream_of_def)

lemma silent_send_in_loop: "silent s (client_send_in_loop cfg r s)"
proof -
  have "silent s (enqueue cfg q t)" if "silent s t" for q t
    using that silent_enqueue silent_trans by blast
  moreover have "silent s (s\<lparr>hk_stopped := False\<rparr>)"
    "\<And>c. silent s (s\<lparr>hk_stopped := False, hk_ticks := hk_ticks s + 1, hk_cache := c\<rparr>)"
    "\<And>c d. silent s (s\<lparr>hk_stopped := False, hk_ticks := hk_ticks s + 1, hk_cache := c, hk_deferred := d\<rparr>)"
    by (simp_all add: silent_def stream_of_def)
  ultimately show ?thesis
    by (auto simp: client_send_in_loop_def read_clock_def Let_def split: option.split prod.split)
qed

lemma silent_tcp_disconnect: "silent s (tcp_disconnect s)"
  by (simp add: tcp_disconnect_def silent_emit) (simp add: silent_def stream_of_def)

lemma command_stream:
  "stream_of (client_call cfg cmd s) = stream_of s"
  "handlers_kept cmd \<Longrightarrow> hk_stream (client_call cfg cmd s) = hk_stream s"
proof -
  have "silent s (client_call cfg cmd s)" if "handlers_kept cmd"
  proof (cases cmd)
    case Cmd_connect
    then show ?thesis using silent_request_connect [of "s\<lparr>hk_stopped := False\<rparr>"]
      by (simp add: client_call_def client_connect_def) (simp add: silent_def stream_of_def)
  next
    case Cmd_disconnect
    then show ?thesis
      using silent_tcp_disconnect [of "s\<lparr>hk_stopped := True, hk_connecting := False, hk_awaiting := False\<rparr>"]
      by (simp add: client_call_def client_disconnect_def) (simp add: silent_def stream_of_def)
  next
    case Cmd_stop
    then show ?thesis
      by (simp add: client_call_def client_stop_def silent_emit) (simp add: silent_def stream_of_def)
  qed (use that in \<open>simp_all add: client_call_def silent_send_in_loop\<close>)
  then show "stream_of (client_call cfg cmd s) = stream_of s"
    "handlers_kept cmd \<Longrightarrow> hk_stream (client_call cfg cmd s) = hk_stream s"
    by (cases cmd; simp add: silent_def; simp add: client_call_def stream_of_def)+
qed

lemma commands_stream:
  "stream_of (client_commands cfg cmds s) = stream_of s"
  "list_all handlers_kept cmds \<Longrightarrow> hk_stream (client_commands cfg cmds s) = hk_stream s"
  unfolding client_commands_def by (induction cmds arbitrary: s) (simp_all add: command_stream)

subsection \<open>The two decoders\<close>

definition handlers_config :: "client_config \<Rightarrow> bool" where
  "handlers_config cfg \<longleftrightarrow> (\<forall>d. list_all handlers_kept (ck_on_data cfg d))"

definition open_stream :: "body_stream \<Rightarrow> bool" where
  "open_stream b \<longleftrightarrow> bs_data_callback b = Some (\<lambda>d. False) \<and> bs_complete_callback b \<and> \<not> bs_completed b \<and>
     \<not> bs_canceled b \<and> \<not> bs_reading_paused b"

definition same_stream :: "body_event list \<Rightarrow> http_context \<Rightarrow> client_state \<Rightarrow> bool" where
  "same_stream pre c s \<longleftrightarrow>
     hk_mode s = hc_mode c \<and> hk_chunk_state s = hc_chunk_state c \<and> hk_remaining s = hc_remaining c \<and>
     hk_decoded s = hc_decoded c \<and> hk_trailer_bytes s = hc_trailer_bytes c \<and> hk_active s = hc_active c \<and>
     open_stream (hc_body_stream c) \<and> stream_of s = pre @ bs_events (hc_body_stream c) \<and>
     hk_stream s = \<lparr>rs_data_callback = True, rs_complete_callback = True, rs_completed = False\<rparr>"

definition same_result :: "body_event list \<Rightarrow> parse_status \<times> http_context \<times> string \<Rightarrow>
    parse_status \<times> client_state \<times> string \<Rightarrow> bool" where
  "same_result pre r r' \<longleftrightarrow>
     (case (r, r') of ((status, c, rest), (status', s, rest')) \<Rightarrow>
        status' = status \<and> rest' = rest \<and> stream_of s = pre @ bs_events (hc_body_stream c) \<and>
        hk_active s = hc_active c \<and> (status = Incomplete \<longrightarrow> same_stream pre c s))"

lemma same_deliver:
  assumes cfg: "handlers_config cfg" and s: "same_stream pre c s"
    and d: "deliver c buf = (n, c1, rest)" "client_deliver cfg s buf = (n', s1, rest')"
  shows "n' = n \<and> rest' = rest \<and> same_stream pre c1 s1"
proof -
  define chunk where "chunk = take n buf"
  have n: "n = min (unat (hc_remaining c)) (length buf)" "n' = n" "rest = drop n buf" "rest' = rest"
    and c1: "c1 = c\<lparr>hc_body_stream := bs_on_data chunk (hc_body_stream c), hc_remaining := hc_remaining c - of_nat n\<rparr>"
    using d s by (auto simp: deliver_def client_deliver_def same_stream_def chunk_def Let_def)
  define s2 where "s2 = stream_on_data cfg chunk s"
  have s1: "s1 = s2\<lparr>hk_remaining := hk_remaining s2 - of_nat n\<rparr>"
    using d(2) n by (auto simp: client_deliver_def s2_def chunk_def Let_def)
  have body: "same_body s s2" unfolding s2_def by (rule same_body_on_data)
  have stream: "stream_of s2 = stream_of s @ (if chunk = [] then [] else [Bs_data chunk])" "hk_stream s2 = hk_stream s"
    using cfg s by (simp_all add: s2_def stream_on_data_def commands_stream handlers_config_def same_stream_def)
  have "bs_events (bs_on_data chunk (hc_body_stream c)) =
      bs_events (hc_body_stream c) @ (if chunk = [] then [] else [Bs_data chunk]) \<and>
      open_stream (bs_on_data chunk (hc_body_stream c))"
    using s by (simp add: same_stream_def open_stream_def bs_on_data_def bs_emit_def Let_def)
  then show ?thesis
    using n c1 s1 body stream s unfolding same_stream_def same_body_def by (simp add: stream_of_def)
qed

lemma same_finish:
  assumes "same_stream pre c s"
  shows "same_result pre (Complete, context_complete c, rest) (Complete, finish_streaming_response cfg s, rest)"
proof -
  define s2 where "s2 = (clear_streaming s)\<lparr>hk_in_flight := tl (hk_in_flight (clear_streaming s))\<rparr>"
  define s3 where "s3 = (stream_on_complete cfg s2)\<lparr>hk_stream := response_stream_new\<rparr>"
  have s2: "stream_of s2 = stream_of s" "hk_stream s2 = hk_stream s"
    by (simp_all add: s2_def clear_streaming_def stream_of_def)
  then have s3: "stream_of s3 = stream_of s @ [Bs_complete]"
  proof -
    have "stream_of (stream_on_complete cfg s2) = stream_of s @ [Bs_complete]"
      using s2 assms
      by (simp add: stream_on_complete_def same_stream_def commands_stream Let_def) (simp add: stream_of_def)
    then show ?thesis by (simp add: s3_def stream_of_def)
  qed
  have "stream_of (finish_streaming_response cfg s) = stream_of s3"
    using silent_tcp_disconnect [of s3] silent_flush_requests [of s3 cfg]
    unfolding finish_streaming_response_def Let_def s2_def [symmetric] s3_def [symmetric] by (simp add: silent_def)
  moreover have "bs_events (bs_on_complete (hc_body_stream c)) = bs_events (hc_body_stream c) @ [Bs_complete]"
    using assms by (simp add: same_stream_def open_stream_def bs_on_complete_def bs_emit_def Let_def)
  ultimately show ?thesis
    using assms s3 by (simp add: same_result_def same_stream_def context_complete_def finish_streaming_response_more)
qed

lemma same_process_fixed:
  assumes cfg: "handlers_config cfg"
  shows "same_stream pre c s \<Longrightarrow> same_result pre (process_fixed c buf) (client_process_fixed cfg s buf)"
proof (induction c buf arbitrary: s rule: process_fixed.induct)
  case (1 c buf)
  have eq: "hk_remaining s = hc_remaining c" "\<not> bs_reading_paused (hc_body_stream c)"
    using 1(2) by (simp_all add: same_stream_def open_stream_def)
  show ?case
  proof (cases "hc_remaining c \<noteq> 0 \<and> buf \<noteq> []")
    case True
    obtain n c1 rest where d: "deliver c buf = (n, c1, rest)" by (cases "deliver c buf")
    obtain n' s1 rest' where d': "client_deliver cfg s buf = (n', s1, rest')" by (cases "client_deliver cfg s buf")
    have same: "rest' = rest" "same_stream pre c1 s1" using same_deliver [OF cfg 1(2) d d'] by simp_all
    have "same_result pre (process_fixed c1 rest) (client_process_fixed cfg s1 rest)"
      using 1(1) [OF True eq(2) d [symmetric]] same(2) by simp
    then show ?thesis
      using True d d' eq same(1) by (simp add: process_fixed.simps [of c buf] client_process_fixed.simps [of cfg s buf])
  next
    case False
    then show ?thesis
      using same_finish [OF 1(2), of buf cfg] 1(2) eq
      by (auto simp: process_fixed.simps [of c buf] client_process_fixed.simps [of cfg s buf] same_result_def
          same_stream_def)
  qed
qed

definition same_step :: "body_event list \<Rightarrow> chunk_control \<times> http_context \<times> string \<Rightarrow>
    chunk_control \<times> client_state \<times> string \<Rightarrow> bool" where
  "same_step pre r r' \<longleftrightarrow>
     (case (r, r') of ((control, c, rest), (control', s, rest')) \<Rightarrow>
        control' = control \<and> rest' = rest \<and>
        (case control of
           Chunk_again \<Rightarrow> same_stream pre c s
         | Chunk_return status \<Rightarrow> same_result pre (status, c, rest) (status, s, rest)))"

lemma same_stream_result: "same_stream pre c s \<Longrightarrow> same_result pre (status, c, rest) (status, s, rest)"
  by (simp add: same_result_def) (simp add: same_stream_def)

lemma same_chunk_step:
  assumes cfg: "handlers_config cfg" and s: "same_stream pre c s"
  shows "same_step pre (chunk_step c buf) (client_chunk_step cfg s buf)"
proof -
  note again = same_stream_result [OF s]
  have eq: "hk_chunk_state s = hc_chunk_state c" "hk_decoded s = hc_decoded c" "hk_remaining s = hc_remaining c"
    "hk_trailer_bytes s = hc_trailer_bytes c" "\<not> bs_reading_paused (hc_body_stream c)"
    using s by (simp_all add: same_stream_def open_stream_def)
  show ?thesis
  proof (cases "hc_chunk_state c")
    case Chunk_size
    have "same_stream pre (c\<lparr>hc_remaining := sz, hc_chunk_state := st\<rparr>) (s\<lparr>hk_remaining := sz, hk_chunk_state := st\<rparr>)" for sz st
      using s by (simp add: same_stream_def stream_of_def)
    then show ?thesis
      using again eq Chunk_size
      by (auto simp: chunk_step_def client_chunk_step_def chunk_size_step_def client_chunk_size_step_def same_step_def Let_def
          split: option.split)
  next
    case Chunk_data
    obtain n c1 rest where d: "deliver c buf = (n, c1, rest)" by (cases "deliver c buf")
    obtain n' s1 rest' where d': "client_deliver cfg s buf = (n', s1, rest')" by (cases "client_deliver cfg s buf")
    have same: "n' = n" "rest' = rest" "same_stream pre c1 s1" using same_deliver [OF cfg s d d'] by simp_all
    have "same_stream pre (c1\<lparr>hc_decoded := x\<rparr>) (s1\<lparr>hk_decoded := x\<rparr>)"
      "same_stream pre (c1\<lparr>hc_decoded := x, hc_chunk_state := st\<rparr>) (s1\<lparr>hk_decoded := x, hk_chunk_state := st\<rparr>)" for x st
      using same(3) by (simp_all add: same_stream_def stream_of_def)
    moreover have "hk_decoded s1 = hc_decoded c1" "hk_remaining s1 = hc_remaining c1" using same(3) by (simp_all add: same_stream_def)
    ultimately show ?thesis
      using again eq Chunk_data d d' same(1,2)
      by (auto simp: chunk_step_def client_chunk_step_def chunk_data_step_def client_chunk_data_step_def same_step_def Let_def)
  next
    case Chunk_data_crlf
    have "same_stream pre (c\<lparr>hc_chunk_state := st\<rparr>) (s\<lparr>hk_chunk_state := st\<rparr>)" for st
      using s by (simp add: same_stream_def stream_of_def)
    then show ?thesis
      using again eq Chunk_data_crlf
      by (auto simp: chunk_step_def client_chunk_step_def chunk_crlf_step_def client_chunk_crlf_step_def same_step_def)
  next
    case Chunk_trailers
    have bytes: "same_stream pre (c\<lparr>hc_trailer_bytes := x\<rparr>) (s\<lparr>hk_trailer_bytes := x\<rparr>)" for x
      using s by (simp add: same_stream_def stream_of_def)
    have fin: "same_result pre (Complete, context_complete (c\<lparr>hc_trailer_bytes := x, hc_mode := Body_none\<rparr>), r)
        (Complete, finish_streaming_response cfg (s\<lparr>hk_trailer_bytes := x\<rparr>), r)" for x r
      using same_finish [OF bytes, of x r cfg] by (simp add: same_result_def context_complete_def)
    show ?thesis
      using again eq Chunk_trailers bytes fin same_stream_result [OF bytes]
      by (auto simp: chunk_step_def client_chunk_step_def chunk_trailers_step_def client_chunk_trailers_step_def
          same_step_def Let_def split: option.split)
  qed
qed

lemma same_process_chunked:
  assumes cfg: "handlers_config cfg"
  shows "same_stream pre c s \<Longrightarrow> same_result pre (process_chunked c buf) (client_process_chunked cfg s buf)"
proof (induction c buf arbitrary: s rule: process_chunked.induct)
  case (1 c buf)
  obtain control c1 rest where step: "chunk_step c buf = (control, c1, rest)" by (cases "chunk_step c buf")
  obtain control' s1 rest' where step': "client_chunk_step cfg s buf = (control', s1, rest')"
    by (cases "client_chunk_step cfg s buf")
  have same: "same_step pre (control, c1, rest) (control', s1, rest')"
    using same_chunk_step [OF cfg 1(2), of buf] step step' by simp
  show ?case
  proof (cases control)
    case Chunk_again
    then have "same_result pre (process_chunked c1 rest) (client_process_chunked cfg s1 rest)"
      using same 1(1) [OF step [symmetric]] by (simp add: same_step_def)
    with same step step' Chunk_again show ?thesis
      by (simp add: process_chunked.simps [of c buf] client_process_chunked.simps [of cfg s buf] same_step_def)
  next
    case (Chunk_return status)
    with same step step' show ?thesis
      by (simp add: process_chunked.simps [of c buf] client_process_chunked.simps [of cfg s buf] same_step_def)
  qed
qed

subsection \<open>Property\<close>

text \<open>
  C23: The client's decoder of streamed bodies, fixed-length and chunked, is the server's: from
  corresponding states, on the same bytes, it ends with the same status, hands the same pieces to its stream
  (and completes it at the same point), leaves the same bytes, and is again in a corresponding state; a data
  callback may send requests, disconnect or stop the client meanwhile.
\<close>

theorem client_streaming_refines_server:
  assumes "handlers_config cfg" and "same_stream pre c s"
    and "process_streaming_body c buf = (status, c', rest)"
  shows "\<exists>s'. client_streaming_body cfg s buf = (status, s', rest) \<and>
    stream_of s' = pre @ bs_events (hc_body_stream c') \<and> hk_active s' = hc_active c' \<and>
    (status = Incomplete \<longrightarrow> same_stream pre c' s')"
proof -
  have eq: "\<not> bs_reading_paused (hc_body_stream c)" "hk_mode s = hc_mode c"
    using assms(2) by (simp_all add: same_stream_def open_stream_def)
  have "same_result pre (process_streaming_body c buf) (client_streaming_body cfg s buf)"
    using same_process_chunked [OF assms(1,2), of buf] same_process_fixed [OF assms(1,2), of buf] eq
    by (simp add: process_streaming_body_def client_streaming_body_def)
  with assms(3) show ?thesis by (auto simp: same_result_def split: prod.splits)
qed

definition stream_config :: client_config where
  "stream_config =
     \<lparr>ck_host = ''h'', ck_tls = False, ck_clock = (\<lambda>n. 0), ck_on_response = None,
      ck_on_streaming = Some (\<lambda>r. [Cmd_stream_handlers True True]), ck_on_data = (\<lambda>d. [Cmd_stop]), ck_on_complete = [],
      ck_on_error = None\<rparr>"

definition stream_client :: client_state where
  "stream_client =
     (client_new None)\<lparr>hk_mode := Body_chunked, hk_active := True,
        hk_stream := \<lparr>rs_data_callback = True, rs_complete_callback = True, rs_completed = False\<rparr>\<rparr>"

definition stream_context :: http_context where
  "stream_context = start_streaming_chunked_body
     (body_stream_new\<lparr>bs_data_callback := Some (\<lambda>d. False), bs_complete_callback := True\<rparr>) context_new"

definition stream_bytes :: string where
  "stream_bytes = ''5'' @ crlf @ ''hello'' @ crlf @ ''0'' @ crlf @ crlf @ ''HTTP''"

theorem client_streaming_refines_server_witness:
  "\<exists>s. client_streaming_body stream_config stream_client stream_bytes = (Complete, s, ''HTTP'') \<and>
     stream_of s = [Bs_data ''hello'', Bs_complete]"
proof -
  have cfg: "handlers_config stream_config" by (simp add: handlers_config_def stream_config_def)
  have same: "same_stream [] stream_context stream_client"
    by (simp add: same_stream_def stream_context_def stream_client_def start_streaming_chunked_body_def context_new_def
        client_new_def open_stream_def stream_of_def body_stream_new_def)
  have "case process_streaming_body stream_context stream_bytes of (status, c, rest) \<Rightarrow>
      status = Complete \<and> rest = ''HTTP'' \<and> bs_events (hc_body_stream c) = [Bs_data ''hello'', Bs_complete]"
    by code_simp
  then obtain c where c: "process_streaming_body stream_context stream_bytes = (Complete, c, ''HTTP'')"
    "bs_events (hc_body_stream c) = [Bs_data ''hello'', Bs_complete]"
    by (auto split: prod.splits)
  from client_streaming_refines_server [OF cfg same c(1)] c(2) show ?thesis by auto
qed

end
