(* ===== verification/Ws_Client.thy ===== *)
theory Ws_Client
  imports Ws_Server Http_Client
begin

text \<open>
  \<open>WebSocketClient\<close> (src/src/websocket/websocket_client.cpp): the URL, the opening handshake and the
  frames of the client. The TCP connection is the connection part of the server's session record (connected,
  buffer, output), on which the channel already works; calls of \<open>TcpClient\<close> are recorded, the resolver and
  the random device are functions of the configuration. A callback is the list of channel calls it makes.
\<close>

subsection \<open>The URL\<close>

datatype ws_client_error_code = Wce_ok | Wce_invalid_url | Wce_unsupported_scheme | Wce_unsupported_host
  | Wce_tls_not_enabled

definition parse_port :: "string \<Rightarrow> u16 option" where
  "parse_port value =
     (if value = [] then None
      else case from_chars_unsigned 32 10 value of
             None \<Rightarrow> None
           | Some (parsed, used) \<Rightarrow>
               if used \<noteq> length value \<or> parsed = 0 \<or> 65535 < parsed then None else Some (of_nat parsed))"

definition strip_fragment :: "string \<Rightarrow> string" where
  "strip_fragment target =
     (let path = (case find_char CHR ''#'' target of None \<Rightarrow> target | Some fragment \<Rightarrow> take fragment target)
      in if path = [] then ''/'' else path)"

definition is_reserved_request_header :: "string \<Rightarrow> bool" where
  "is_reserved_request_header field \<longleftrightarrow>
     equals_ignore_case field ''Host'' \<or> equals_ignore_case field ''Upgrade'' \<or>
     equals_ignore_case field ''Connection'' \<or> equals_ignore_case field ''Sec-WebSocket-Key'' \<or>
     equals_ignore_case field ''Sec-WebSocket-Version'' \<or> equals_ignore_case field ''Sec-WebSocket-Extensions''"

definition response_accepts_permessage_deflate :: "http_response_message \<Rightarrow> bool" where
  "response_accepts_permessage_deflate response \<longleftrightarrow>
     list_ex (\<lambda>v. find_str ''permessage-deflate'' (lowercase v) \<noteq> None)
       (hdr_values ''Sec-WebSocket-Extensions'' (m_headers response))"

record parsed_endpoint =
  pe_addresses :: "string list"
  pe_host_header :: string
  pe_host_name :: string
  pe_target :: string
  pe_secure :: bool

definition rfind_char :: "char \<Rightarrow> string \<Rightarrow> nat option" where
  "rfind_char c s = map_option (\<lambda>i. length s - 1 - i) (index_of ((=) c) (rev s))"

text \<open>Host, port and whether the host is a bracketed IPv6 address.\<close>

definition parse_authority :: "string \<Rightarrow> u16 \<Rightarrow> ws_client_error_code + string \<times> u16 \<times> bool" where
  "parse_authority authority default_port =
     (if hd authority = CHR ''['' then
        (case find_char CHR '']'' authority of
           None \<Rightarrow> Inl Wce_invalid_url
         | Some close \<Rightarrow>
             if close = 1 then Inl Wce_invalid_url
             else
               let host = take (close - 1) (drop 1 authority)
               in if close + 1 < length authority then
                    (if authority ! (close + 1) \<noteq> CHR '':'' \<or> close + 2 = length authority then Inl Wce_invalid_url
                     else case parse_port (drop (close + 2) authority) of
                            None \<Rightarrow> Inl Wce_invalid_url
                          | Some port \<Rightarrow> Inr (host, port, True))
                  else Inr (host, default_port, True))
      else
        (case rfind_char CHR '':'' authority of
           None \<Rightarrow> Inr (authority, default_port, False)
         | Some colon \<Rightarrow>
             if find_char CHR '':'' authority \<noteq> Some colon \<or> colon = 0 \<or> length authority \<le> colon + 1
             then Inl Wce_unsupported_host
             else case parse_port (drop (colon + 1) authority) of
                    None \<Rightarrow> Inl Wce_unsupported_host
                  | Some port \<Rightarrow> Inr (take colon authority, port, False)))"

definition endpoint_target :: "string \<Rightarrow> nat option \<Rightarrow> string" where
  "endpoint_target remainder target_start =
     (case target_start of
        None \<Rightarrow> ''/''
      | Some start \<Rightarrow>
          let suffix = drop start remainder
          in if suffix \<noteq> [] \<and> hd suffix = CHR ''?'' then ''/'' @ strip_fragment suffix
             else if suffix \<noteq> [] \<and> hd suffix = CHR ''#'' then ''/''
             else strip_fragment suffix)"

definition parse_endpoint :: "(string \<Rightarrow> u16 \<Rightarrow> string list) \<Rightarrow> string \<Rightarrow> ws_client_error_code + parsed_endpoint" where
  "parse_endpoint resolve url =
     (case find_str ''://'' url of
        None \<Rightarrow> Inl Wce_invalid_url
      | Some scheme_end \<Rightarrow>
          if scheme_end = 0 then Inl Wce_invalid_url
          else
            let scheme = lowercase (take scheme_end url); secure = (scheme = ''wss'')
            in if scheme \<noteq> ''ws'' \<and> \<not> secure then Inl Wce_unsupported_scheme
               else
                 let remainder = drop (scheme_end + 3) url;
                     target_start = index_of (\<lambda>c. c \<in> set ''/?#'') remainder;
                     authority = (case target_start of None \<Rightarrow> remainder | Some n \<Rightarrow> take n remainder)
                 in if authority = [] \<or> CHR ''@'' \<in> set authority then Inl Wce_unsupported_host
                    else
                      (case parse_authority authority (if secure then 443 else 80) of
                         Inl e \<Rightarrow> Inl e
                       | Inr (host, port, bracketed) \<Rightarrow>
                           if host = [] then Inl Wce_unsupported_host
                           else
                             let addresses = resolve host port;
                                 default_port = (\<not> secure \<and> port = 80 \<or> secure \<and> port = 443)
                             in if addresses = [] then Inl Wce_unsupported_host
                                else Inr \<lparr>pe_addresses = addresses,
                                  pe_host_header = (if bracketed then ''['' @ host @ '']'' else host) @
                                    (if default_port then [] else '':'' @ to_chars 10 (unat port)),
                                  pe_host_name = host, pe_target = endpoint_target remainder target_start,
                                  pe_secure = secure\<rparr>))"

subsection \<open>State\<close>

datatype tcp_client_call = Tcc_connect "string list" | Tcc_disconnect | Tcc_stop

record ws_client_config =
  wcc_options :: ws_options
  wcc_tls_built :: bool
  wcc_zlib :: zlib
  wcc_resolve :: "string \<Rightarrow> u16 \<Rightarrow> string list"
  wcc_device :: "nat \<Rightarrow> u32 list"
  wcc_masks :: "nat \<Rightarrow> mask_key"
  wcc_on_open :: "ws_command list"
  wcc_on_message :: "string \<Rightarrow> ws_opcode \<Rightarrow> ws_command list"
  wcc_on_close :: "ws_close_info \<Rightarrow> ws_command list"
  wcc_on_error :: "ws_error \<Rightarrow> ws_command list"

record ws_client =
  wl_base :: server_session
  wl_connection :: bool
  wl_channel :: "ws_channel option"
  wl_parser :: http_parser
  wl_frame_parser :: ws_frame_parser
  wl_assembler :: ws_assembler
  wl_host_header :: string
  wl_host_name :: string
  wl_target :: string
  wl_key :: string
  wl_headers :: http_headers
  wl_handshake_complete :: bool
  wl_compression_enabled :: bool
  wl_close_notified :: bool
  wl_tls_enabled :: bool
  wl_server_name :: string
  wl_client :: bool
  wl_draws :: nat
  wl_masked :: nat
  wl_calls :: "tcp_client_call list"
  wl_events :: "ws_event list"

definition no_connection :: server_session where
  "no_connection = (session_new [] 0)\<lparr>ss_connected := False\<rparr>"

definition ws_client_new :: "ws_client_config \<Rightarrow> string \<Rightarrow> ws_client" where
  "ws_client_new cfg server_name =
     \<lparr>wl_base = no_connection, wl_connection = False, wl_channel = None,
      wl_parser = parser_new Mode_response default_parser_options,
      wl_frame_parser = frame_parser_new Role_client (wcc_options cfg), wl_assembler = assembler_new (wcc_options cfg),
      wl_host_header = [], wl_host_name = [], wl_target = [], wl_key = [], wl_headers = [],
      wl_handshake_complete = False, wl_compression_enabled = False, wl_close_notified = False,
      wl_tls_enabled = False, wl_server_name = server_name, wl_client = False, wl_draws = 0, wl_masked = 0,
      wl_calls = [], wl_events = []\<rparr>"

definition emit_wl :: "ws_event \<Rightarrow> ws_client \<Rightarrow> ws_client" where
  "emit_wl e s = s\<lparr>wl_events := wl_events s @ [e]\<rparr>"

definition with_wl_base :: "(server_session \<Rightarrow> server_session) \<Rightarrow> ws_client \<Rightarrow> ws_client" where
  "with_wl_base f s = s\<lparr>wl_base := f (wl_base s)\<rparr>"

text \<open>\<open>connection_->force_close()\<close>: the connection no longer counts as connected.\<close>

definition wl_force_close :: "ws_client \<Rightarrow> ws_client" where
  "wl_force_close s = (if wl_connection s then with_wl_base (\<lambda>b. b\<lparr>ss_connected := False\<rparr>) s else s)"

text \<open>
  A call on the channel, masked with the next random key: \<open>send_text\<close>, \<open>send_binary\<close>, \<open>send_ping\<close>
  and \<open>close\<close> of the client forward to it and do nothing without one.
\<close>

definition wl_channel_command :: "ws_client_config \<Rightarrow> ws_command \<Rightarrow> ws_client \<Rightarrow> ws_client" where
  "wl_channel_command cfg cmd s =
     (case wl_channel s of
        None \<Rightarrow> s
      | Some ch \<Rightarrow>
          let z = wcc_zlib cfg; rnd = wcc_masks cfg (wl_masked s); s1 = s\<lparr>wl_masked := wl_masked s + 1\<rparr>
          in (case cmd of
                Send_text m \<Rightarrow> s1\<lparr>wl_base := snd (send_text z rnd m ch (wl_base s))\<rparr>
              | Send_binary m \<Rightarrow> s1\<lparr>wl_base := snd (send_binary z rnd m ch (wl_base s))\<rparr>
              | Send_ping m \<Rightarrow> s1\<lparr>wl_base := snd (send_ping z rnd m ch (wl_base s))\<rparr>
              | Send_pong m \<Rightarrow> s1\<lparr>wl_base := snd (send_pong z rnd m ch (wl_base s))\<rparr>
              | Close_channel code reason \<Rightarrow>
                  (case channel_close z rnd code reason ch (wl_base s) of
                     (ok, ch1, base) \<Rightarrow> s1\<lparr>wl_channel := Some ch1, wl_base := base\<rparr>)))"

definition wl_commands :: "ws_client_config \<Rightarrow> ws_command list \<Rightarrow> ws_client \<Rightarrow> ws_client" where
  "wl_commands cfg cmds s = fold (wl_channel_command cfg) cmds s"

definition wl_report_error :: "ws_client_config \<Rightarrow> ws_error \<Rightarrow> ws_client \<Rightarrow> ws_client" where
  "wl_report_error cfg e s = wl_commands cfg (wcc_on_error cfg e) (emit_wl (We_failed e) s)"

definition wl_notify_close :: "ws_client_config \<Rightarrow> ws_close_info \<Rightarrow> ws_client \<Rightarrow> ws_client" where
  "wl_notify_close cfg info s =
     (if wl_close_notified s then s
      else wl_commands cfg (wcc_on_close cfg info) (emit_wl (We_closed info) (s\<lparr>wl_close_notified := True\<rparr>)))"

definition wl_close_for_error :: "ws_client_config \<Rightarrow> ws_error \<Rightarrow> string \<Rightarrow> ws_client \<Rightarrow> ws_client" where
  "wl_close_for_error cfg e reason s =
     (let code = close_code_for_error e
      in wl_notify_close cfg \<lparr>ci_code = code, ci_reason = reason\<rparr>
           (wl_channel_command cfg (Close_channel code reason) (wl_report_error cfg e s)))"

definition wl_reset_connection_state :: "ws_client_config \<Rightarrow> ws_client \<Rightarrow> ws_client" where
  "wl_reset_connection_state cfg s =
     s\<lparr>wl_connection := False, wl_channel := None, wl_parser := parser_reset (wl_parser s),
       wl_frame_parser := frame_parser_new Role_client (wcc_options cfg), wl_assembler := assembler_new (wcc_options cfg),
       wl_handshake_complete := False, wl_compression_enabled := False, wl_close_notified := False\<rparr>"

subsection \<open>Opening\<close>

definition wl_stop :: "ws_client \<Rightarrow> ws_client" where
  "wl_stop s =
     (if wl_client s
      then (with_wl_base conn_shutdown s)\<lparr>wl_calls := wl_calls s @ [Tcc_disconnect, Tcc_stop]\<rparr>
      else s)"

definition wl_start :: "ws_client_config \<Rightarrow> parsed_endpoint \<Rightarrow> http_headers \<Rightarrow> ws_client \<Rightarrow> ws_client" where
  "wl_start cfg endpoint headers s =
     (let s1 = wl_reset_connection_state cfg (wl_stop s)
      in s1\<lparr>wl_headers := headers, wl_host_header := pe_host_header endpoint, wl_host_name := pe_host_name endpoint,
            wl_target := pe_target endpoint, wl_key := websocket_generate_key (wcc_device cfg (wl_draws s1)),
            wl_draws := wl_draws s1 + 1, wl_client := True, wl_calls := wl_calls s1 @ [Tcc_connect (pe_addresses endpoint)]\<rparr>)"

definition wl_open :: "ws_client_config \<Rightarrow> string \<Rightarrow> http_headers \<Rightarrow> ws_client \<Rightarrow> ws_client_error_code \<times> ws_client" where
  "wl_open cfg url headers s =
     (case parse_endpoint (wcc_resolve cfg) url of
        Inl e \<Rightarrow> (e, wl_report_error cfg (if e = Wce_unsupported_scheme then We_unsupported_url else We_bad_handshake) s)
      | Inr endpoint \<Rightarrow>
          if pe_secure endpoint \<and> \<not> wcc_tls_built cfg
          then (Wce_tls_not_enabled, wl_report_error cfg We_tls_not_enabled s)
          else
            let s1 = (if pe_secure endpoint
                      then s\<lparr>wl_tls_enabled := True,
                             wl_server_name := (if wl_server_name s = [] then pe_host_name endpoint else wl_server_name s)\<rparr>
                      else s\<lparr>wl_tls_enabled := False\<rparr>)
            in (Wce_ok, wl_start cfg endpoint headers s1))"

definition handshake_request :: "bool \<Rightarrow> string \<Rightarrow> string \<Rightarrow> string \<Rightarrow> http_headers \<Rightarrow> string" where
  "handshake_request compression target host_header key headers =
     ''GET '' @ (if target = [] then ''/'' else target) @ '' HTTP/1.1'' @ crlf @ ''Host: '' @ host_header @ crlf @
     ''Upgrade: websocket'' @ crlf @ ''Connection: Upgrade'' @ crlf @ ''Sec-WebSocket-Key: '' @ key @ crlf @
     ''Sec-WebSocket-Version: 13'' @ crlf @
     (if compression
      then ''Sec-WebSocket-Extensions: permessage-deflate; client_no_context_takeover; server_no_context_takeover'' @ crlf
      else []) @
     concat (map (\<lambda>e. h_field e @ '': '' @ h_value e @ crlf)
       (filter (\<lambda>e. \<not> is_reserved_request_header (h_field e)) headers)) @ crlf"

definition offers_compression :: "ws_client_config \<Rightarrow> bool" where
  "offers_compression cfg \<longleftrightarrow> enable_compression (wcc_options cfg) \<and> zl_available (wcc_zlib cfg)"

definition send_handshake_request :: "ws_client_config \<Rightarrow> ws_client \<Rightarrow> ws_client" where
  "send_handshake_request cfg s =
     (if \<not> wl_connection s \<or> \<not> ss_connected (wl_base s) then s
      else with_wl_base (conn_send (handshake_request (offers_compression cfg) (wl_target s) (wl_host_header s)
             (wl_key s) (wl_headers s))) s)"

definition wl_connected :: "ws_client_config \<Rightarrow> ws_client \<Rightarrow> ws_client" where
  "wl_connected cfg s =
     send_handshake_request cfg (s\<lparr>wl_base := session_new [] 0, wl_connection := True, wl_close_notified := False\<rparr>)"

definition wl_disconnected :: "ws_client_config \<Rightarrow> ws_client \<Rightarrow> ws_client" where
  "wl_disconnected cfg s0 =
     (let s = with_wl_base (\<lambda>b. b\<lparr>ss_connected := False\<rparr>) s0;
          s1 = (if \<not> wl_handshake_complete s \<and> wl_tls_enabled s then wl_report_error cfg We_connection_error s else s);
          s2 = (if wl_channel s1 \<noteq> None then wl_notify_close cfg (close_info_new\<lparr>ci_code := 1006\<rparr>) s1 else s1)
      in wl_reset_connection_state cfg s2)"

subsection \<open>Frames\<close>

definition wl_on_close_frame :: "ws_client_config \<Rightarrow> ws_frame \<Rightarrow> ws_client \<Rightarrow> ws_client" where
  "wl_on_close_frame cfg frame s =
     (case close_info_from_payload (f_payload frame) of
        (False, info) \<Rightarrow> wl_close_for_error cfg We_protocol_error ''bad close frame'' s
      | (True, info) \<Rightarrow>
          let s2 = (case wl_channel s of
                      None \<Rightarrow> s
                    | Some ch \<Rightarrow>
                        let s1 = s\<lparr>wl_channel := Some (ch\<lparr>wc_close_received := True\<rparr>)\<rparr>
                        in if \<not> wc_close_sent ch
                           then wl_channel_command cfg
                                  (Close_channel (if ci_code info = 1005 then 1000 else ci_code info) (ci_reason info)) s1
                           else s1)
          in wl_notify_close cfg info s2)"

definition wl_on_control_frame :: "ws_client_config \<Rightarrow> ws_frame \<Rightarrow> ws_client \<Rightarrow> bool \<times> ws_client" where
  "wl_on_control_frame cfg frame s =
     (if f_opcode frame = Op_ping then (True, wl_channel_command cfg (Send_pong (f_payload frame)) s)
      else if f_opcode frame = Op_pong then (True, s)
      else if f_opcode frame = Op_close then (False, wl_on_close_frame cfg frame s)
      else (True, s))"

definition wl_on_data_message :: "ws_client_config \<Rightarrow> ws_message \<Rightarrow> ws_client \<Rightarrow> bool \<times> ws_client" where
  "wl_on_data_message cfg message s =
     (let deliver = (\<lambda>payload. (True, wl_commands cfg (wcc_on_message cfg payload (wm_opcode message))
            (emit_wl (We_message payload (wm_opcode message)) s)))
      in if wm_compressed message then
           (case (if wl_compression_enabled s then zl_inflate (wcc_zlib cfg) (wm_payload message) else None) of
              None \<Rightarrow> (False, wl_close_for_error cfg We_compression_error ''compression error'' s)
            | Some inflated \<Rightarrow>
                if wm_opcode message = Op_text \<and> \<not> valid_utf8 inflated
                then (False, wl_close_for_error cfg We_invalid_utf8 ''invalid utf-8'' s)
                else deliver inflated)
         else deliver (wm_payload message))"

definition wl_on_frame :: "ws_client_config \<Rightarrow> ws_frame \<Rightarrow> ws_client \<Rightarrow> bool \<times> ws_client" where
  "wl_on_frame cfg frame s =
     (case assembler_consume frame (wl_assembler s) of
        (status, a, message) \<Rightarrow>
          let s1 = s\<lparr>wl_assembler := a\<rparr>
          in (case status of
                Msg_error \<Rightarrow> (False, wl_close_for_error cfg (as_error a) ''protocol error'' s1)
              | Msg_control \<Rightarrow> wl_on_control_frame cfg frame s1
              | Msg_incomplete \<Rightarrow> (True, s1)
              | Msg_complete \<Rightarrow> wl_on_data_message cfg (the message) s1))"

fun wl_on_frames :: "ws_client_config \<Rightarrow> ws_frame list \<Rightarrow> ws_client \<Rightarrow> ws_client" where
  "wl_on_frames cfg [] s = s"
| "wl_on_frames cfg (frame # frames) s =
     (case wl_on_frame cfg frame s of (again, s1) \<Rightarrow> if again then wl_on_frames cfg frames s1 else s1)"

definition wl_on_websocket_message :: "ws_client_config \<Rightarrow> ws_client \<Rightarrow> ws_client" where
  "wl_on_websocket_message cfg s =
     (case ws_parse (wl_frame_parser s) (ss_buffer (wl_base s)) of
        (status, p, frames, left) \<Rightarrow>
          let s1 = with_wl_base (\<lambda>b. b\<lparr>ss_buffer := left\<rparr>) (s\<lparr>wl_frame_parser := p\<rparr>)
          in if status = Ws_error then wl_close_for_error cfg (fp_error p) ''protocol error'' s1
             else wl_on_frames cfg frames s1)"

subsection \<open>The server's answer\<close>

definition wl_refuse :: "ws_client_config \<Rightarrow> ws_error \<Rightarrow> ws_client \<Rightarrow> ws_client" where
  "wl_refuse cfg e s = wl_force_close (wl_report_error cfg e s)"

definition handshake_accepted :: "string \<Rightarrow> http_response_message \<Rightarrow> bool" where
  "handshake_accepted key response \<longleftrightarrow>
     m_status_code response = 101 \<and>
     client_header_has_token (hdr_get ''Connection'' (m_headers response)) ''Upgrade'' \<and>
     equals_ignore_case (hdr_get ''Upgrade'' (m_headers response)) ''websocket'' \<and>
     hdr_get ''Sec-WebSocket-Accept'' (m_headers response) = websocket_accept_key key"

definition wl_upgrade :: "ws_client_config \<Rightarrow> bool \<Rightarrow> ws_client \<Rightarrow> ws_client" where
  "wl_upgrade cfg compression s =
     (let options = (wcc_options cfg)\<lparr>enable_compression := compression\<rparr>;
          s1 = s\<lparr>wl_compression_enabled := compression, wl_frame_parser := frame_parser_new Role_client options,
                 wl_assembler := assembler_new options, wl_channel := Some (ws_channel_new Role_client compression),
                 wl_handshake_complete := True\<rparr>;
          s2 = wl_commands cfg (wcc_on_open cfg) (emit_wl We_open s1)
      in if ss_buffer (wl_base s2) \<noteq> [] then wl_on_websocket_message cfg s2 else s2)"

text \<open>The head parser never reads outside the buffer, so the case without a status does not arise.\<close>

definition wl_on_handshake :: "ws_client_config \<Rightarrow> ws_client \<Rightarrow> ws_client" where
  "wl_on_handshake cfg s =
     (case parse_response_head (wl_parser s) (ss_buffer (wl_base s)) of
        (status, p, buf) \<Rightarrow>
          let s1 = with_wl_base (\<lambda>b. b\<lparr>ss_buffer := buf\<rparr>) (s\<lparr>wl_parser := p\<rparr>);
              s2 = s1\<lparr>wl_parser := parser_reset p\<rparr>; response = p_response p;
              compression = response_accepts_permessage_deflate response
          in if status = Some Incomplete then s1
             else if status \<noteq> Some Complete then wl_refuse cfg We_bad_handshake s2
             else if \<not> handshake_accepted (wl_key s2) response then wl_refuse cfg We_bad_handshake s2
             else if compression \<and> \<not> offers_compression cfg then wl_refuse cfg We_protocol_error s2
             else wl_upgrade cfg compression s2)"

definition wl_on_plain_message :: "ws_client_config \<Rightarrow> ws_client \<Rightarrow> ws_client" where
  "wl_on_plain_message cfg s =
     (if wl_handshake_complete s then wl_on_websocket_message cfg s else wl_on_handshake cfg s)"

definition wl_on_message :: "ws_client_config \<Rightarrow> string \<Rightarrow> ws_client \<Rightarrow> ws_client" where
  "wl_on_message cfg bytes s = wl_on_plain_message cfg (with_wl_base (\<lambda>b. b\<lparr>ss_buffer := ss_buffer b @ bytes\<rparr>) s)"

end
