(* ===== verification/Ws_Client_Laws.thy ===== *)
theory Ws_Client_Laws
  imports Ws_Client Request_Roundtrip Handshake_Laws Ws_Server_Laws
begin

text \<open>
  The two ends of the opening handshake: the server accepts the request the client writes, and the client
  accepts the server's answer to its own key.
\<close>

subsection \<open>Keys\<close>

lemma base64_char_in: "base64_char v \<in> set k_base64"
proof -
  have "base64_value (base64_char v) \<noteq> None" by (simp add: base64_value_char)
  then have "\<exists>c\<in>set k_base64. base64_char v = c" unfolding base64_value_def by auto
  then show ?thesis by blast
qed

lemma set_base64_encode: "set (base64_encode bs) \<subseteq> insert CHR ''='' (set k_base64)"
  using base64_char_in by (induction bs rule: base64_encode.induct) (auto simp: Let_def)

lemma base64_plain:
  "CHR 0x0D \<notin> set (base64_encode bs)" "trim_ows (base64_encode bs) = base64_encode bs"
proof -
  have "CHR 0x0D \<notin> set k_base64" "list_all (\<lambda>c. \<not> is_ows c) k_base64" "\<not> is_ows CHR ''=''" by code_simp+
  then show "CHR 0x0D \<notin> set (base64_encode bs)" "trim_ows (base64_encode bs) = base64_encode bs"
    using set_base64_encode [of bs] by (auto intro!: trim_ows_no_ows simp: list_all_iff)
qed

lemma accept_key_length: "length (websocket_accept_key key) = 28"
proof -
  have "sha1_final (sha1_update data sha1_new) = fips_sha1 data" for data
    using sha1_updates_abs [OF sha1_new_abs, of "[data]"] by (simp add: sha1_final_abs)
  then show ?thesis using base64_decodes by (simp add: websocket_accept_key_def length_fips_sha1)
qed

lemma accept_key_plain:
  "CHR 0x0D \<notin> set (websocket_accept_key key)" "trim_ows (websocket_accept_key key) = websocket_accept_key key"
  by (simp_all add: websocket_accept_key_def base64_plain)

lemma generated_key:
  "CHR 0x0D \<notin> set (websocket_generate_key rd)" "trim_ows (websocket_generate_key rd) = websocket_generate_key rd"
  "length (websocket_generate_key rd) = 24"
  using base64_decodes by (simp_all add: websocket_generate_key_def base64_plain)

subsection \<open>Header lines in the head parser\<close>

lemma headers_step_clean:
  assumes "p_state p = S_headers" and "clean_header fv"
    and "p_header_bytes p + length (header_line fv) \<le> max_headers (p_options p)"
  shows "headers_step h p (header_line fv @ rest) =
    (Again, set_message_headers (message_headers p @ [header_entry_of fv])
       (p\<lparr>p_header_bytes := p_header_bytes p + length (header_line fv)\<rparr>), rest)"
proof -
  obtain f v where fv: "fv = (f, v)" by (cases fv)
  define line where "line = f @ '': '' @ v"
  have clean: "clean_header (f, v)" using assms(2) fv by simp
  have hl: "header_line (f, v) = line @ crlf" by (simp add: header_line_def line_def)
  have found: "find_str crlf (line @ crlf @ rest) = Some (length line)"
    using parse_clean_header(2) [OF clean] unfolding line_def by (rule find_str_crlf)
  have parsed: "parse_header_line line h = Some (h @ [header_entry_of (f, v)])" for h
    using parse_clean_header(1) [OF clean] by (simp add: line_def)
  have "line \<noteq> []" by (simp add: line_def)
  then show ?thesis
    using found parsed assms(3) by (simp add: fv hl headers_step_def Let_def)
qed

lemma parse_head_header_lines:
  "p_state p = S_headers \<Longrightarrow> \<forall>fv\<in>set hs. clean_header fv \<Longrightarrow>
   p_header_bytes p + length (concat (map header_line hs)) \<le> max_headers (p_options p) \<Longrightarrow>
   parse_head t p (concat (map header_line hs) @ rest) = parse_head t (after_lines p hs) rest"
proof (induction hs arbitrary: p)
  case Nil
  have "after_lines p [] = p" by (cases p) (simp add: after_lines_def set_message_headers_def message_headers_def)
  then show ?case by simp
next
  case (Cons fv hs)
  define p1 where "p1 = set_message_headers (message_headers p @ [header_entry_of fv])
      (p\<lparr>p_header_bytes := p_header_bytes p + length (header_line fv)\<rparr>)"
  have "headers_step True p (header_line fv @ concat (map header_line hs) @ rest) =
      (Again, p1, concat (map header_line hs) @ rest)"
    using Cons.prems unfolding p1_def by (intro headers_step_clean) simp_all
  then have "head_step t p (header_line fv @ concat (map header_line hs) @ rest) =
      (Again, p1, concat (map header_line hs) @ rest)"
    using Cons.prems(1) by (simp add: head_step_def)
  then have "parse_head t p (concat (map header_line (fv # hs)) @ rest) =
      parse_head t p1 (concat (map header_line hs) @ rest)"
    by (simp add: parse_head_Again)
  also have "\<dots> = parse_head t (after_lines p1 hs) rest"
    using Cons.prems by (intro Cons.IH) (simp_all add: p1_def set_message_headers_def)
  also have "after_lines p1 hs = after_lines p (fv # hs)"
    by (simp add: p1_def after_lines_def set_message_headers_def message_headers_def)
  finally show ?case .
qed

subsection \<open>The server's answer\<close>

definition switching_lines :: "string \<Rightarrow> string \<Rightarrow> bool \<Rightarrow> (string \<times> string) list" where
  "switching_lines accept sub compression =
     [(''Upgrade'', ''websocket''), (''Connection'', ''Upgrade''), (''Sec-WebSocket-Accept'', accept)] @
     (if sub \<noteq> [] then [(''Sec-WebSocket-Protocol'', sub)] else []) @
     (if compression
      then [(''Sec-WebSocket-Extensions'', ''permessage-deflate; server_no_context_takeover; client_no_context_takeover'')]
      else [])"

definition switching_line :: string where
  "switching_line = ''HTTP/1.1 101 Switching Protocols''"

lemma encode_switching_lines:
  "encode_switching_protocols accept sub compression =
     switching_line @ crlf @ concat (map header_line (switching_lines accept sub compression)) @ crlf"
  by (simp add: encode_switching_protocols_def switching_lines_def switching_line_def header_line_def)

definition head_start :: http_parser where
  "head_start = (parser_new Mode_response default_parser_options)\<lparr>p_head_only := True\<rparr>"

definition switching_head :: http_parser where
  "switching_head = head_start\<lparr>p_state := S_headers, p_response := response_message_new
     \<lparr>m_version := V_http11, m_status_code := 101, m_reason_phrase := ''Switching Protocols''\<rparr>\<rparr>"

lemma switching_start: "start_line_step t head_start (switching_line @ crlf @ rest) = (Again, switching_head, rest)"
proof -
  have "CHR 0x0D \<notin> set switching_line" by code_simp
  then have found: "find_str crlf (switching_line @ crlf @ rest) = Some (length switching_line)" by (rule find_str_crlf)
  have line: "parse_response_line switching_line head_start = (True, switching_head\<lparr>p_state := S_start_line\<rparr>)" by code_simp
  have "length switching_line \<le> max_start_line (p_options head_start)" "p_mode head_start = Mode_response" by code_simp+
  then show ?thesis
    using found line by (simp add: start_line_step_def Let_def) (simp add: switching_head_def)
qed

lemma clean_switching: "CHR 0x0D \<notin> set accept \<Longrightarrow> CHR 0x0D \<notin> set sub \<Longrightarrow>
    \<forall>fv\<in>set (switching_lines accept sub compression). clean_header fv"
proof -
  have "clean_header (''Upgrade'', ''websocket'')" "clean_header (''Connection'', ''Upgrade'')"
    "list_all is_token_char ''Sec-WebSocket-Accept''" "list_all is_token_char ''Sec-WebSocket-Protocol''"
    "clean_header (''Sec-WebSocket-Extensions'', ''permessage-deflate; server_no_context_takeover; client_no_context_takeover'')"
    by code_simp+
  then show "CHR 0x0D \<notin> set accept \<Longrightarrow> CHR 0x0D \<notin> set sub \<Longrightarrow> ?thesis"
    by (auto simp: switching_lines_def clean_header_def)
qed

lemma handshake_names:
  "lowercase ''Upgrade'' = ''upgrade''" "lowercase ''Sec-WebSocket-Accept'' = ''sec-websocket-accept''"
  "lowercase ''Sec-WebSocket-Protocol'' = ''sec-websocket-protocol''"
  "lowercase ''Sec-WebSocket-Extensions'' = ''sec-websocket-extensions''"
  "lowercase ''Sec-WebSocket-Key'' = ''sec-websocket-key''"
  "lowercase ''Sec-WebSocket-Version'' = ''sec-websocket-version''" "lowercase ''Host'' = ''host''"
  by code_simp+

lemmas header_reading = hdr_get_values hdr_values_Cons header_entry_of_def framing_names handshake_names

lemma switching_values:
  fixes accept sub :: string and compression :: bool
  defines "h \<equiv> map header_entry_of (switching_lines accept sub compression)"
  shows "hdr_values ''Content-Length'' h = []" "hdr_values ''Transfer-Encoding'' h = []"
    "hdr_get ''Connection'' h = trim_ows ''Upgrade''" "hdr_get ''Upgrade'' h = trim_ows ''websocket''"
    "hdr_get ''Sec-WebSocket-Accept'' h = trim_ows accept"
    "hdr_values ''Sec-WebSocket-Extensions'' h = (if compression
       then [trim_ows ''permessage-deflate; server_no_context_takeover; client_no_context_takeover''] else [])"
  by (simp_all add: h_def switching_lines_def header_reading)

lemma switching_length:
  "length (concat (map header_line (switching_lines accept sub compression))) \<le> 250 + length accept + length sub"
  by (simp add: switching_lines_def header_line_def)

lemma switching_parsed:
  assumes "CHR 0x0D \<notin> set accept" and "CHR 0x0D \<notin> set sub" and "length accept + length sub \<le> 60000"
  shows "\<exists>q. parse_response_head (parser_new Mode_response default_parser_options)
      (encode_switching_protocols accept sub compression @ rest) = (Some Complete, q, rest) \<and>
    m_status_code (p_response q) = 101 \<and>
    m_headers (p_response q) = map header_entry_of (switching_lines accept sub compression)"
proof -
  let ?ls = "switching_lines accept sub compression"
  have start: "(parser_new Mode_response default_parser_options)\<lparr>p_mode := Mode_response, p_head_only := True\<rparr> = head_start"
    by (simp add: head_start_def parser_new_def)
  have head: "p_state switching_head = S_headers" "p_header_bytes switching_head = 0"
    "max_headers (p_options switching_head) = 65536" "p_state head_start = S_start_line"
    by (simp_all add: switching_head_def head_start_def parser_new_def default_parser_options_def)
  have room: "length (concat (map header_line ?ls)) + 2 \<le> 65536"
    using switching_length [of accept sub compression] assms(3) by linarith
  have "head_step 0 head_start (switching_line @ crlf @ concat (map header_line ?ls) @ crlf @ rest) =
      (Again, switching_head, concat (map header_line ?ls) @ crlf @ rest)"
    unfolding head_step_def head parser_state.case by (rule switching_start)
  then have "parse_head 0 head_start (switching_line @ crlf @ concat (map header_line ?ls) @ crlf @ rest) =
      parse_head 0 switching_head (concat (map header_line ?ls) @ crlf @ rest)"
    by (rule parse_head_Again)
  also have "\<dots> = parse_head 0 (after_lines switching_head ?ls) (crlf @ rest)"
    using clean_switching [OF assms(1,2)] room by (intro parse_head_header_lines) (simp_all add: head)
  finally have run: "parse_head 0 head_start (switching_line @ crlf @ concat (map header_line ?ls) @ crlf @ rest) =
      parse_head 0 (after_lines switching_head ?ls) (crlf @ rest)" .
  define p where "p = after_lines switching_head ?ls"
  define q where "q = p\<lparr>p_header_bytes := p_header_bytes p + 2, p_state := S_complete\<rparr>"
  have p: "p_state p = S_headers" "p_header_bytes p + 2 \<le> max_headers (p_options p)" "p_mode p = Mode_response"
    "m_status_code (p_response p) = 101" "m_headers (p_response p) = map header_entry_of ?ls"
    using room
    by (simp_all add: p_def after_lines_def set_message_headers_def message_headers_def switching_head_def head_start_def
        parser_new_def response_message_new_def default_parser_options_def)
  have "content_lengths (map header_entry_of ?ls) = Some []" "transfer_codings (map header_entry_of ?ls) = []"
    by (simp_all add: content_lengths_def transfer_codings_def switching_values)
  then have "finish_headers (p\<lparr>p_header_bytes := p_header_bytes p + 2\<rparr>) = (True, q)"
    using p by (simp add: finish_headers_def message_headers_def is_chunked_transfer_def finish_message_def
        status_code_allows_body_def q_def)
  then have "headers_step True p (crlf @ rest) = (Return Complete, q, rest)"
    using blank_line_step [OF p(1,2), of True rest] by simp
  then have "parse_head 0 p (crlf @ rest) = (Some Complete, q, rest)"
    using p(1) by (intro parse_head_Return) (simp add: head_step_def)
  then have "parse_response_head (parser_new Mode_response default_parser_options)
      (encode_switching_protocols accept sub compression @ rest) = (Some Complete, q, rest)"
    using run by (simp add: parse_response_head_def start encode_switching_lines p_def)
  moreover have "m_status_code (p_response q) = 101" "m_headers (p_response q) = map header_entry_of ?ls"
    using p by (simp_all add: q_def)
  ultimately show ?thesis by blast
qed

lemma switching_accepted:
  assumes "m_status_code r = 101" and "m_headers r = map header_entry_of (switching_lines (websocket_accept_key key) sub compression)"
  shows "handshake_accepted key r" "response_accepts_permessage_deflate r \<longleftrightarrow> compression"
proof -
  have "client_header_has_token (trim_ows ''Upgrade'') ''Upgrade''" "equals_ignore_case (trim_ows ''websocket'') ''websocket''"
    "find_str ''permessage-deflate'' (lowercase (trim_ows
       ''permessage-deflate; server_no_context_takeover; client_no_context_takeover'')) \<noteq> None"
    by code_simp+
  then show "handshake_accepted key r" "response_accepts_permessage_deflate r \<longleftrightarrow> compression"
    using assms switching_values [of "websocket_accept_key key" sub compression]
    by (simp_all add: handshake_accepted_def response_accepts_permessage_deflate_def accept_key_plain)
qed

subsection \<open>The client opens\<close>

lemma wl_channel_command_more:
  "wl_events (wl_channel_command cfg c s) = wl_events s"
  "wl_handshake_complete (wl_channel_command cfg c s) = wl_handshake_complete s"
  "wl_compression_enabled (wl_channel_command cfg c s) = wl_compression_enabled s"
  "wl_channel (wl_channel_command cfg c s) = None \<longleftrightarrow> wl_channel s = None"
  by (auto simp: wl_channel_command_def Let_def split: option.split ws_command.split prod.split)

lemma wl_channel_command_buffer: "ss_buffer (wl_base (wl_channel_command cfg c s)) = ss_buffer (wl_base s)"
  by (cases c; simp add: wl_channel_command_def channel_calls Let_def case_prod_beta' split: option.split)

lemma wl_commands_more:
  "wl_events (wl_commands cfg cs s) = wl_events s"
  "wl_handshake_complete (wl_commands cfg cs s) = wl_handshake_complete s"
  "wl_compression_enabled (wl_commands cfg cs s) = wl_compression_enabled s"
  "wl_channel (wl_commands cfg cs s) = None \<longleftrightarrow> wl_channel s = None"
  "ss_buffer (wl_base (wl_commands cfg cs s)) = ss_buffer (wl_base s)"
  unfolding wl_commands_def
  by (induction cs arbitrary: s) (simp_all add: wl_channel_command_more wl_channel_command_buffer)

text \<open>A client that has sent its request and waits for the answer.\<close>

definition wl_waiting :: "string \<Rightarrow> ws_client \<Rightarrow> bool" where
  "wl_waiting key s \<longleftrightarrow> wl_key s = key \<and> \<not> wl_handshake_complete s \<and> ss_buffer (wl_base s) = [] \<and>
     wl_parser s = parser_new Mode_response default_parser_options"

lemma client_opens:
  assumes wait: "wl_waiting key s" and sub: "CHR 0x0D \<notin> set sub" "length sub \<le> 59000"
    and compression: "compression \<longrightarrow> offers_compression cfg"
  defines "u \<equiv> wl_on_message cfg (encode_switching_protocols (websocket_accept_key key) sub compression) s"
  shows "wl_handshake_complete u" "wl_events u = wl_events s @ [We_open]" "wl_channel u \<noteq> None"
    "wl_compression_enabled u = compression"
proof -
  let ?bytes = "encode_switching_protocols (websocket_accept_key key) sub compression"
  have "length (websocket_accept_key key) + length sub \<le> 60000" using accept_key_length [of key] sub(2) by simp
  from switching_parsed [OF accept_key_plain(1) sub(1) this, of compression "[]"] obtain q where
    q: "parse_response_head (parser_new Mode_response default_parser_options) ?bytes = (Some Complete, q, [])"
      "m_status_code (p_response q) = 101"
      "m_headers (p_response q) = map header_entry_of (switching_lines (websocket_accept_key key) sub compression)"
    by auto
  note ok = switching_accepted [OF q(2,3)]
  define s1 where "s1 = with_wl_base (\<lambda>b. b\<lparr>ss_buffer := ss_buffer b @ ?bytes\<rparr>) s"
  have s1: "wl_key s1 = key" "\<not> wl_handshake_complete s1" "ss_buffer (wl_base s1) = ?bytes"
    "wl_parser s1 = parser_new Mode_response default_parser_options" "wl_events s1 = wl_events s"
    using wait by (simp_all add: s1_def with_wl_base_def wl_waiting_def)
  define s2 where "s2 = (with_wl_base (\<lambda>b. b\<lparr>ss_buffer := []\<rparr>) (s1\<lparr>wl_parser := q\<rparr>))\<lparr>wl_parser := parser_reset q\<rparr>"
  have s2: "wl_key s2 = key" "wl_events s2 = wl_events s" "ss_buffer (wl_base s2) = []"
    using s1 by (simp_all add: s2_def with_wl_base_def)
  have "u = wl_on_handshake cfg s1" using s1(2) by (simp add: u_def wl_on_message_def wl_on_plain_message_def s1_def)
  also have "\<dots> = wl_upgrade cfg compression s2"
    unfolding wl_on_handshake_def s1(3,4) q(1) prod.case Let_def s2_def [symmetric] s2(1) ok(2)
    using ok(1) compression by (cases compression) simp_all
  finally have u: "u = wl_upgrade cfg compression s2" .
  define s3 where "s3 = emit_wl We_open (s2\<lparr>wl_compression_enabled := compression,
      wl_frame_parser := frame_parser_new Role_client ((wcc_options cfg)\<lparr>enable_compression := compression\<rparr>),
      wl_assembler := assembler_new ((wcc_options cfg)\<lparr>enable_compression := compression\<rparr>),
      wl_channel := Some (ws_channel_new Role_client compression), wl_handshake_complete := True\<rparr>)"
  have "ss_buffer (wl_base (wl_commands cfg (wcc_on_open cfg) s3)) = []"
    by (simp add: wl_commands_more s3_def emit_wl_def s2)
  then have "u = wl_commands cfg (wcc_on_open cfg) s3" by (simp add: u wl_upgrade_def s3_def Let_def)
  then show "wl_handshake_complete u" "wl_events u = wl_events s @ [We_open]" "wl_channel u \<noteq> None"
    "wl_compression_enabled u = compression"
    by (simp_all add: wl_commands_more) (simp_all add: s3_def emit_wl_def s2)
qed

subsection \<open>The client's request\<close>

definition handshake_lines :: "bool \<Rightarrow> string \<Rightarrow> string \<Rightarrow> http_headers \<Rightarrow> (string \<times> string) list" where
  "handshake_lines compression host key headers =
     [(''Host'', host), (''Upgrade'', ''websocket''), (''Connection'', ''Upgrade''), (''Sec-WebSocket-Key'', key),
      (''Sec-WebSocket-Version'', ''13'')] @
     (if compression
      then [(''Sec-WebSocket-Extensions'', ''permessage-deflate; client_no_context_takeover; server_no_context_takeover'')]
      else []) @
     map (\<lambda>e. (h_field e, h_value e)) (filter (\<lambda>e. \<not> is_reserved_request_header (h_field e)) headers)"

definition origin_target :: "string \<Rightarrow> string" where
  "origin_target target = (if target = [] then ''/'' else target)"

lemma handshake_request_lines:
  "handshake_request compression target host key headers =
     request_line ''GET'' (origin_target target) @ crlf @
     concat (map header_line (handshake_lines compression host key headers)) @ crlf"
  by (simp add: handshake_request_def request_line_def origin_target_def handshake_lines_def header_line_def comp_def)

text \<open>A request within the server's limits whose own fields leave the framing alone.\<close>

definition handshake_ok :: "bool \<Rightarrow> string \<Rightarrow> string \<Rightarrow> string \<Rightarrow> http_headers \<Rightarrow> bool" where
  "handshake_ok compression target host key headers \<longleftrightarrow>
     CHR '' '' \<notin> set target \<and> CHR 0x0D \<notin> set target \<and> CHR 0x0D \<notin> set host \<and>
     list_all (\<lambda>e. plain_header (h_field e, h_value e)) headers \<and>
     length (request_line ''GET'' (origin_target target)) \<le> max_start_line default_parser_options \<and>
     length (concat (map header_line (handshake_lines compression host key headers))) + 2 \<le> max_headers default_parser_options"

lemma handshake_clean:
  assumes "handshake_ok compression target host key headers" and "CHR 0x0D \<notin> set key"
  shows "head_fits default_parser_options ''GET'' (origin_target target) (handshake_lines compression host key headers)"
proof -
  have literals: "clean_header (''Upgrade'', ''websocket'')" "clean_header (''Connection'', ''Upgrade'')"
    "list_all is_token_char ''Sec-WebSocket-Key''" "clean_header (''Sec-WebSocket-Version'', ''13'')"
    "clean_header (''Sec-WebSocket-Extensions'', ''permessage-deflate; client_no_context_takeover; server_no_context_takeover'')"
    "list_all is_token_char ''GET''"
    by code_simp+
  then have "clean_header (''Sec-WebSocket-Key'', key)" using assms(2) by (simp add: clean_header_def)
  moreover have "clean_header (''Host'', host)" using assms(1) clean_host by (simp add: handshake_ok_def)
  moreover have "clean_request_line ''GET'' (origin_target target)"
    using assms(1) literals by (simp add: clean_request_line_def handshake_ok_def origin_target_def)
  ultimately show ?thesis
    using assms(1) literals
    by (auto simp: head_fits_def handshake_ok_def handshake_lines_def list_all_iff plain_header_def)
qed

lemma reserved_names:
  "lowercase f = ''sec-websocket-extensions'' \<Longrightarrow> is_reserved_request_header f"
  by (simp add: is_reserved_request_header_def equals_ignore_case_iff handshake_names)

lemma own_extensions:
  "hdr_values ''Sec-WebSocket-Extensions''
     (map header_entry_of (map (\<lambda>e. (h_field e, h_value e)) (filter (\<lambda>e. \<not> is_reserved_request_header (h_field e)) hs))) = []"
  by (induction hs) (auto simp: hdr_values_Cons header_entry_of_def handshake_names dest: reserved_names)

lemma handshake_values:
  fixes compression :: bool and host key :: string and headers :: http_headers
  assumes "list_all (\<lambda>e. plain_header (h_field e, h_value e)) headers"
  defines "h \<equiv> map header_entry_of (handshake_lines compression host key headers)"
  shows "hdr_values ''Content-Length'' h = []" "hdr_values ''Transfer-Encoding'' h = []" "hdr_contains ''Host'' h"
    "hdr_get ''Connection'' h = trim_ows ''Upgrade''" "hdr_get ''Upgrade'' h = trim_ows ''websocket''"
    "hdr_get ''Sec-WebSocket-Key'' h = trim_ows key" "hdr_get ''Sec-WebSocket-Version'' h = trim_ows ''13''"
    "hdr_values ''Sec-WebSocket-Extensions'' h = (if compression
       then [trim_ows ''permessage-deflate; client_no_context_takeover; server_no_context_takeover''] else [])"
proof -
  let ?own = "map (\<lambda>e. (h_field e, h_value e)) (filter (\<lambda>e. \<not> is_reserved_request_header (h_field e)) headers)"
  have "\<forall>fv\<in>set ?own. plain_header fv" using assms(1) by (auto simp: list_all_iff)
  note own = plain_values [OF this]
  show "hdr_values ''Content-Length'' h = []" "hdr_values ''Transfer-Encoding'' h = []"
    "hdr_values ''Sec-WebSocket-Extensions'' h = (if compression
       then [trim_ows ''permessage-deflate; client_no_context_takeover; server_no_context_takeover''] else [])"
    using own own_extensions [of headers]
    by (simp_all add: h_def handshake_lines_def hdr_values_Cons header_entry_of_def framing_names handshake_names)
  show "hdr_contains ''Host'' h" "hdr_get ''Connection'' h = trim_ows ''Upgrade''"
    "hdr_get ''Upgrade'' h = trim_ows ''websocket''"
    "hdr_get ''Sec-WebSocket-Key'' h = trim_ows key" "hdr_get ''Sec-WebSocket-Version'' h = trim_ows ''13''"
    by (simp_all add: h_def handshake_lines_def header_reading hdr_contains_values)
qed

text \<open>The request the server sees.\<close>

definition upgrade_request :: "bool \<Rightarrow> string \<Rightarrow> string \<Rightarrow> string \<Rightarrow> http_headers \<Rightarrow> timestamp \<Rightarrow> http_request" where
  "upgrade_request compression target host key headers t =
     (started_request ''GET'' (origin_target target) t)
       \<lparr>r_headers := map header_entry_of (handshake_lines compression host key headers)\<rparr>"

lemma handshake_parsed:
  assumes ok: "handshake_ok compression target host key headers" and key: "CHR 0x0D \<notin> set key"
  shows "\<exists>q. parse t (parser_new Mode_request default_parser_options)
      (handshake_request compression target host key headers) = (Some Complete, q, []) \<and>
    p_request q = upgrade_request compression target host key headers t"
proof -
  let ?ls = "handshake_lines compression host key headers"
  define hp where "hp = request_head_parser default_parser_options ''GET'' (origin_target target) t ?ls"
  have plain: "list_all (\<lambda>e. plain_header (h_field e, h_value e)) headers" using ok by (simp add: handshake_ok_def)
  note vals = handshake_values [OF plain, of compression host key]
  have hp: "p_mode hp = Mode_request" "p_request hp = upgrade_request compression target host key headers t"
    by (simp_all add: hp_def request_head_parser_def parser_new_def upgrade_request_def)
  have headers: "message_headers hp = map header_entry_of ?ls" "r_headers (p_request hp) = map header_entry_of ?ls"
    by (simp_all add: message_headers_def hp upgrade_request_def)
  have "content_lengths (message_headers hp) = Some []" "transfer_codings (message_headers hp) = []"
    by (simp_all add: content_lengths_def transfer_codings_def headers vals)
  then have "finish_headers hp = (True, hp\<lparr>p_state := S_complete\<rparr>)"
    using vals(3)
    by (simp add: finish_headers_def is_chunked_transfer_def finish_message_def hp(1) headers)
  then have "parse t (parser_new Mode_request default_parser_options)
      (request_line ''GET'' (origin_target target) @ crlf @ concat (map header_line ?ls) @ crlf @ []) =
      (Some Complete, hp\<lparr>p_state := S_complete\<rparr>, [])"
    using parse_request_head_bytes [OF handshake_clean [OF ok key], of t "[]"] by (simp add: hp_def)
  then show ?thesis using hp(2) by (simp add: handshake_request_lines)
qed

lemma upgrade_request_ok:
  fixes compression :: bool and target host key ip :: string and headers :: http_headers and t :: timestamp
    and port :: u16
  assumes ok: "handshake_ok compression target host key headers" and key: "trim_ows key = key" "key \<noteq> []"
  defines "r \<equiv> (upgrade_request compression target host key headers t)\<lparr>r_peer_ip := ip, r_peer_port := port\<rparr>"
  shows "websocket_is_upgrade_request r" "looks_like_websocket_upgrade r" "request_header ''Sec-WebSocket-Key'' r = key"
    "websocket_validate_client_key (request_header ''Sec-WebSocket-Key'' r) = Some (websocket_accept_key key)"
    "request_offers_permessage_deflate r \<longleftrightarrow> compression"
proof -
  have plain: "list_all (\<lambda>e. plain_header (h_field e, h_value e)) headers" using ok by (simp add: handshake_ok_def)
  note vals = handshake_values [OF plain, of compression host key]
  have "list_all is_token_char ''GET''" by code_simp
  then have line: "clean_request_line ''GET'' (origin_target target)"
    using ok by (simp add: clean_request_line_def handshake_ok_def origin_target_def)
  have "method_string r = method_string (started_request ''GET'' (origin_target target) t)"
    by (simp add: r_def upgrade_request_def method_string_def)
  then have r: "method_string r = ''GET''" "r_version r = V_http11"
    "r_headers r = map header_entry_of (handshake_lines compression host key headers)"
    using started_request_fields [OF line, of t] by (simp_all add: r_def upgrade_request_def)
  have texts: "websocket_header_has_token (trim_ows ''Upgrade'') ''Upgrade''"
    "equals_ignore_case (trim_ows ''websocket'') ''websocket''" "trim_ows ''13'' = ''13''"
    "find_str ''permessage-deflate'' (lowercase (trim_ows
       ''permessage-deflate; client_no_context_takeover; server_no_context_takeover'')) \<noteq> None"
    by code_simp+
  show header: "request_header ''Sec-WebSocket-Key'' r = key" using vals key(1) by (simp add: request_header_def r)
  show "websocket_is_upgrade_request r" "looks_like_websocket_upgrade r"
    using texts vals key header
    by (simp_all add: websocket_is_upgrade_request_def looks_like_websocket_upgrade_def r request_header_def)
  show "websocket_validate_client_key (request_header ''Sec-WebSocket-Key'' r) = Some (websocket_accept_key key)"
    using header key by (simp add: websocket_validate_client_key_def)
  show "request_offers_permessage_deflate r \<longleftrightarrow> compression"
    using texts vals by (simp add: request_offers_permessage_deflate_def r)
qed

subsection \<open>The server switches\<close>

text \<open>Behind \<open>accept_upgrade\<close> the first bytes sent are the 101 answer.\<close>

lemma accept_upgrade_answers:
  fixes scfg :: ws_config and request :: http_request and accept sub :: string and s :: ws_session
  assumes "ss_connected (wx_base s)" and "ss_out (wx_base s) = []"
  defines "compression \<equiv> enable_compression (sw_options (wg_service scfg)) \<and> zl_available (wg_zlib scfg) \<and>
      request_offers_permessage_deflate request"
    and "u \<equiv> accept_upgrade scfg request accept sub s"
  shows "wx_websocket u" "wx_compression_enabled u = compression" "ss_buffer (wx_base u) = ss_buffer (wx_base s)"
    "\<exists>sent. ss_out (wx_base u) = encode_switching_protocols accept sub compression # sent"
proof -
  define s3 where "s3 = emit_ws We_open ((with_base (conn_send (encode_switching_protocols accept sub compression)) s)
      \<lparr>wx_websocket := True, wx_compression_enabled := compression,
       wx_frame_parser := frame_parser_new Role_server ((sw_options (wg_service scfg))\<lparr>enable_compression := compression\<rparr>),
       wx_assembler := assembler_new ((sw_options (wg_service scfg))\<lparr>enable_compression := compression\<rparr>),
       wx_channel := Some (ws_channel_new Role_server compression),
       wx_ping_timer := 0 < sw_ping_interval (wg_service scfg) \<or> wx_ping_timer s\<rparr>)"
  have u: "u = run_commands (wg_zlib scfg) (sw_on_open (wg_service scfg) request) s3"
    unfolding u_def accept_upgrade_def Let_def s3_def compression_def with_base_def by simp
  have s3: "wx_websocket s3" "wx_compression_enabled s3 = compression"
    "wx_base s3 = conn_send (encode_switching_protocols accept sub compression) (wx_base s)" "server_channel s3"
    by (simp_all add: s3_def with_base_def server_channel_def ws_channel_new_def emit_ws_def)
  have "sends s3 u" unfolding u by (rule sends_commands [OF s3(4)])
  then obtain fs where "ss_out (wx_base u) = ss_out (wx_base s3) @ map server_frame fs" by (auto simp: sends_def gives_def)
  then show "\<exists>sent. ss_out (wx_base u) = encode_switching_protocols accept sub compression # sent"
    using assms(1,2) by (simp add: s3 conn_send_def)
  show "wx_websocket u" "wx_compression_enabled u = compression" "ss_buffer (wx_base u) = ss_buffer (wx_base s)"
    using s3 by (simp_all add: u)
qed

lemma server_switches:
  fixes compression :: bool and target host key ip :: string and headers :: http_headers and t :: timestamp
    and port :: u16 and scfg :: ws_config
  assumes ok: "handshake_ok compression target host key headers"
    and key: "CHR 0x0D \<notin> set key" "trim_ows key = key" "key \<noteq> []"
  defines "r \<equiv> (upgrade_request compression target host key headers t)\<lparr>r_peer_ip := ip, r_peer_port := port\<rparr>"
  assumes sub: "selected_subprotocol (wg_service scfg) r = Some sub" and http: "sv_streaming (wg_http scfg) = None"
  defines "agreed \<equiv> enable_compression (sw_options (wg_service scfg)) \<and> zl_available (wg_zlib scfg) \<and> compression"
  shows "\<exists>u sent. ws_on_message scfg t (handshake_request compression target host key headers) (ws_session_new ip port) = Some u \<and>
    wx_websocket u \<and> wx_compression_enabled u = agreed \<and>
    ss_out (wx_base u) = encode_switching_protocols (websocket_accept_key key) sub agreed # sent"
proof -
  let ?bytes = "handshake_request compression target host key headers"
  obtain q where q: "parse t (parser_new Mode_request default_parser_options) ?bytes = (Some Complete, q, [])"
      "p_request q = upgrade_request compression target host key headers t"
    using handshake_parsed [OF ok key(1), of t] by blast
  note request = upgrade_request_ok [OF ok key(2,3), where t = t and ip = ip and port = port, folded r_def]
  define s0 where "s0 = with_base (\<lambda>b. b\<lparr>ss_buffer := ss_buffer b @ ?bytes\<rparr>) (ws_session_new ip port)"
  have s0: "ss_connected (wx_base s0)" "\<not> wx_websocket s0" "ss_buffer (wx_base s0) = ?bytes" "ss_out (wx_base s0) = []"
    "ss_context (wx_base s0) = set_peer_address ip port context_new"
    by (simp_all add: s0_def with_base_def ws_session_new_def session_new_def)
  define c where "c = (set_peer_address ip port context_new)\<lparr>hc_parser := q\<lparr>p_request := r\<rparr>\<rparr>"
  have parsed: "context_parse_request t (ss_context (wx_base s0)) (ss_buffer (wx_base s0)) = (Some Complete, c, [])"
    using q by (simp add: s0 context_parse_request_def set_peer_address_def context_new_def parse_request_new with_peer_def
        c_def r_def)
  have c: "p_request (hc_parser c) = r" by (simp add: c_def)
  define s1 where "s1 = s0\<lparr>wx_base := (wx_base s0)\<lparr>ss_context := c, ss_buffer := []\<rparr>\<rparr>"
  define s2 where "s2 = accept_upgrade scfg r (websocket_accept_key key) sub s1"
  have s1: "ss_connected (wx_base s1)" "ss_out (wx_base s1) = []" "ss_buffer (wx_base s1) = []"
    using s0 by (simp_all add: s1_def)
  have upgraded: "try_websocket_upgrade scfg r s1 = (True, s2)"
    using request sub by (simp add: try_websocket_upgrade_def s2_def)
  note answers = accept_upgrade_answers [OF s1(1,2), of scfg r "websocket_accept_key key" sub, folded s2_def]
  define u where "u = with_base reset_context s2"
  have u: "ss_buffer (wx_base u) = []" "wx_websocket u = wx_websocket s2" "ss_out (wx_base u) = ss_out (wx_base s2)"
    "wx_compression_enabled u = wx_compression_enabled s2"
    using answers(3) s1(3) by (simp_all add: u_def with_base_def reset_context_def)
  have "ws_request_step scfg t s0 = Some (False, u)"
    using http request(2) u(1)
    by (simp add: ws_request_step_def parsed Let_def c s1_def [symmetric] upgraded u_def [symmetric])
  moreover have "\<not> hc_active (ss_context (wx_base s0))" by (simp add: s0 set_peer_address_def context_new_def)
  ultimately have "ws_on_message scfg t ?bytes (ws_session_new ip port) = Some u"
    using s0(1,2)
    by (simp add: ws_on_message_def s0_def [symmetric] ws_on_plain_message_def ws_http_loop.simps [of scfg t s0]
        ws_message_step_def)
  moreover have "(enable_compression (sw_options (wg_service scfg)) \<and> zl_available (wg_zlib scfg) \<and>
      request_offers_permessage_deflate r) = agreed"
    using request(5) by (simp add: agreed_def)
  ultimately show ?thesis using answers u by simp
qed

subsection \<open>Agreement\<close>

lemma parse_authority_error: "parse_authority authority port \<noteq> Inl Wce_ok"
  by (simp add: parse_authority_def Let_def split: option.split if_splits)

lemma parse_endpoint_error: "parse_endpoint resolve url \<noteq> Inl Wce_ok"
proof -
  have port: "(case parse_authority a d of Inl e \<Rightarrow> Inl e | Inr (host, port, bracketed) \<Rightarrow>
      if host = [] then Inl Wce_unsupported_host else if none host port then Inl Wce_unsupported_host
      else Inr (endpoint host port bracketed)) \<noteq> Inl Wce_ok"
    for a d none and endpoint :: "string \<Rightarrow> u16 \<Rightarrow> bool \<Rightarrow> parsed_endpoint"
    using parse_authority_error [of a d] by (cases "parse_authority a d") (simp_all split: prod.split)
  show ?thesis
    unfolding parse_endpoint_def Let_def by (split option.split, intro conjI allI impI, simp) (simp only: split: if_split, simp add: port)
qed

text \<open>An opened client that gets its connection sends its request and waits.\<close>

lemma opened_waits:
  fixes cfg :: ws_client_config and s s0 :: ws_client and url :: string and headers :: http_headers
  assumes "wl_open cfg url headers s = (Wce_ok, s0)"
    and "parser_reset (wl_parser s) = parser_new Mode_response default_parser_options"
  defines "c \<equiv> wl_connected cfg s0"
  shows "wl_waiting (wl_key s0) c" "wl_headers s0 = headers"
    "ss_out (wl_base c) = [handshake_request (offers_compression cfg) (wl_target s0) (wl_host_header s0) (wl_key s0) headers]"
    "\<exists>rd. wl_key s0 = websocket_generate_key rd"
proof -
  obtain endpoint s1 where s0: "s0 = wl_start cfg endpoint headers s1" and s1: "wl_parser s1 = wl_parser s"
    using assms(1) parse_endpoint_error [of "wcc_resolve cfg" url] by (auto simp: wl_open_def Let_def split: sum.splits if_splits)
  then have parser: "wl_parser s0 = parser_new Mode_response default_parser_options" "\<not> wl_handshake_complete s0"
    using assms(2) by (simp_all add: wl_start_def Let_def wl_reset_connection_state_def wl_stop_def with_wl_base_def)
  show headers: "wl_headers s0 = headers" and "\<exists>rd. wl_key s0 = websocket_generate_key rd"
    using s0 by (auto simp: wl_start_def Let_def)
  show "wl_waiting (wl_key s0) c"
    "ss_out (wl_base c) = [handshake_request (offers_compression cfg) (wl_target s0) (wl_host_header s0) (wl_key s0) headers]"
    using parser headers
    by (simp_all add: c_def wl_connected_def send_handshake_request_def with_wl_base_def wl_waiting_def conn_send_def
        session_new_def)
qed

text \<open>
  C9: The two ends of a WebSocket handshake agree. A client that has opened a URL sends, once connected, one
  request; the server given those bytes switches to WebSocket and answers first with a 101 response; the
  client given that response accepts it and reports that the connection is open; and permessage-deflate is
  on at either end exactly when both have it.\<close>

theorem ws_handshake_agrees:
  assumes opened: "wl_open cfg url headers s = (Wce_ok, s0)"
    and parser: "parser_reset (wl_parser s) = parser_new Mode_response default_parser_options"
    and request: "handshake_ok (offers_compression cfg) (wl_target s0) (wl_host_header s0) (wl_key s0) headers"
    and server: "sv_streaming (wg_http scfg) = None"
      "selected_subprotocol (wg_service scfg) ((upgrade_request (offers_compression cfg) (wl_target s0) (wl_host_header s0)
         (wl_key s0) headers t)\<lparr>r_peer_ip := ip, r_peer_port := port\<rparr>) = Some sub"
      "CHR 0x0D \<notin> set sub" "length sub \<le> 59000"
  shows "\<exists>request answer sent u. ss_out (wl_base (wl_connected cfg s0)) = [request] \<and>
    ws_on_message scfg t request (ws_session_new ip port) = Some u \<and> wx_websocket u \<and>
    ss_out (wx_base u) = answer # sent \<and>
    (let c = wl_on_message cfg answer (wl_connected cfg s0) in
       wl_handshake_complete c \<and> wl_channel c \<noteq> None \<and>
       wl_events c = wl_events (wl_connected cfg s0) @ [We_open] \<and>
       wl_compression_enabled c = wx_compression_enabled u) \<and>
    (wx_compression_enabled u \<longleftrightarrow> offers_compression cfg \<and>
       enable_compression (sw_options (wg_service scfg)) \<and> zl_available (wg_zlib scfg))"
proof -
  note client = opened_waits [OF opened parser]
  obtain rd where rd: "wl_key s0 = websocket_generate_key rd" using client(4) by blast
  have key: "CHR 0x0D \<notin> set (wl_key s0)" "trim_ows (wl_key s0) = wl_key s0" "wl_key s0 \<noteq> []"
    using generated_key [of rd] by (auto simp: rd)
  define agreed where
    "agreed = (enable_compression (sw_options (wg_service scfg)) \<and> zl_available (wg_zlib scfg) \<and> offers_compression cfg)"
  obtain u sent where u: "ws_on_message scfg t (handshake_request (offers_compression cfg) (wl_target s0)
        (wl_host_header s0) (wl_key s0) headers) (ws_session_new ip port) = Some u"
      "wx_websocket u" "wx_compression_enabled u = agreed"
      "ss_out (wx_base u) = encode_switching_protocols (websocket_accept_key (wl_key s0)) sub agreed # sent"
    using server_switches [OF request key server(2,1)] unfolding agreed_def by blast
  have "agreed \<longrightarrow> offers_compression cfg" by (simp add: agreed_def)
  note open_client = client_opens [OF client(1) server(3,4) this]
  have "wx_compression_enabled u \<longleftrightarrow> offers_compression cfg \<and>
      enable_compression (sw_options (wg_service scfg)) \<and> zl_available (wg_zlib scfg)"
    by (auto simp: u(3) agreed_def)
  then show ?thesis
    using client(3) u open_client unfolding Let_def by (intro exI conjI) simp_all
qed

definition quiet_client :: ws_client_config where
  "quiet_client = \<lparr>wcc_options = default_ws_options, wcc_tls_built = False,
     wcc_zlib = \<lparr>zl_available = False, zl_deflate = (\<lambda>x. None), zl_inflate = (\<lambda>x. None)\<rparr>,
     wcc_resolve = (\<lambda>host port. [''127.0.0.1'']), wcc_device = (\<lambda>n. replicate 16 (of_nat n)),
     wcc_masks = (\<lambda>n. (1, 2, 3, 4)), wcc_on_open = [], wcc_on_message = (\<lambda>m op. []), wcc_on_close = (\<lambda>i. []),
     wcc_on_error = (\<lambda>e. [])\<rparr>"

definition origin_header :: http_headers where
  "origin_header = [\<lparr>h_field = ''Origin'', h_value = ''null''\<rparr>]"

definition chat_endpoint :: parsed_endpoint where
  "chat_endpoint = \<lparr>pe_addresses = [''127.0.0.1''], pe_host_header = ''example.org'', pe_host_name = ''example.org'',
     pe_target = ''/chat'', pe_secure = False\<rparr>"

definition opened_client :: ws_client where
  "opened_client = wl_start quiet_client chat_endpoint origin_header (ws_client_new quiet_client [])"

lemma client_opened:
  "wl_open quiet_client ''ws://example.org/chat'' origin_header (ws_client_new quiet_client []) = (Wce_ok, opened_client)"
proof -
  have "parse_endpoint (wcc_resolve quiet_client) ''ws://example.org/chat'' = Inr chat_endpoint" by code_simp
  then show ?thesis by (simp add: wl_open_def chat_endpoint_def opened_client_def ws_client_new_def)
qed

lemma opened_client_request:
  "handshake_ok (offers_compression quiet_client) (wl_target opened_client) (wl_host_header opened_client)
     (wl_key opened_client) origin_header"
proof -
  have fields: "wl_target opened_client = ''/chat''" "wl_host_header opened_client = ''example.org''"
    "length (wl_key opened_client) = 24" "\<not> offers_compression quiet_client"
    by (simp_all add: opened_client_def wl_start_def Let_def chat_endpoint_def generated_key offers_compression_def
        quiet_client_def)
  have "plain_header (''Origin'', ''null'')" "\<not> is_reserved_request_header ''Origin''"
    "length (request_line ''GET'' (origin_target ''/chat'')) \<le> max_start_line default_parser_options"
    by code_simp+
  then show ?thesis
    by (simp add: fields handshake_ok_def origin_header_def handshake_lines_def header_line_def default_parser_options_def)
qed

theorem ws_handshake_agrees_witness:
  "\<exists>request answer sent u. ss_out (wl_base (wl_connected quiet_client opened_client)) = [request] \<and>
    ws_on_message echo_config 5 request (ws_session_new ''::1'' 8080) = Some u \<and> wx_websocket u \<and>
    ss_out (wx_base u) = answer # sent \<and>
    (let c = wl_on_message quiet_client answer (wl_connected quiet_client opened_client) in
       wl_handshake_complete c \<and> wl_channel c \<noteq> None \<and>
       wl_events c = wl_events (wl_connected quiet_client opened_client) @ [We_open] \<and>
       wl_compression_enabled c = wx_compression_enabled u) \<and>
    (wx_compression_enabled u \<longleftrightarrow> offers_compression quiet_client \<and>
       enable_compression (sw_options (wg_service echo_config)) \<and> zl_available (wg_zlib echo_config))"
proof (rule ws_handshake_agrees [OF client_opened _ opened_client_request])
  show "parser_reset (wl_parser (ws_client_new quiet_client [])) = parser_new Mode_response default_parser_options"
    by (simp add: ws_client_new_def parser_reset_def parser_new_def)
  show "selected_subprotocol (wg_service echo_config) ((upgrade_request (offers_compression quiet_client)
      (wl_target opened_client) (wl_host_header opened_client) (wl_key opened_client) origin_header 5)
      \<lparr>r_peer_ip := ''::1'', r_peer_port := 8080\<rparr>) = Some []"
    by (simp add: selected_subprotocol_def echo_config_def echo_service_def)
qed (simp_all add: echo_config_def server_new_def)

end
