(* ===== verification/Event_Loop.thy ===== *)
theory Event_Loop
  imports Prelude
begin

text \<open>
  \<open>EventLoop\<close> (src/src/net/event_loop.cpp, src/include/oklib/net/event_loop.h): timers, the functors
  queued from other threads, the wake-up pipe and the phases of \<open>loop()\<close>.

  Each step is what runs without another thread in between: a region under a mutex, or one statement
  of the loop. The steps are taken in any order their phase allows. A callback is a number, and its body is
  the calls the loop's own thread makes (\<open>Own\<close>) while it runs; any other thread may call the loop at
  any time (\<open>Other\<close>), writing to the pipe in a later step. Time is the steady clock in nanoseconds, never
  going back; the pipe is whether it holds a byte. The channels are those of the theory Channel.
\<close>

subsection \<open>State\<close>

record timer =
  tm_id :: u64
  tm_generation :: u64
  tm_when :: int
  tm_interval :: int
  tm_repeat :: u32
  tm_callback :: nat

text \<open>
  Where \<open>loop()\<close> is: outside, before the test of \<open>quit_\<close>, behind it, in \<open>poll\<close> with the reading of
  the clock and the timeout, handling channels, in \<open>run_due_timers\<close> before a callback or inside one, and
  in \<open>do_pending_functors\<close>. The timers and functors are those held by the local vectors.
\<close>

datatype loop_phase = Idle | Head | Awake | Sleeping int int | Handling | Firing "timer list"
  | In_timer timer "timer list" | Running "nat list"

record event_loop =
  el_looping :: bool
  el_quit :: bool
  el_calling_pending :: bool
  el_pending :: "nat list"
  el_timers :: "timer list"
  el_generations :: "u64 \<rightharpoonup> u64"
  el_next_id :: u64
  el_next_generation :: u64
  el_wakeup :: bool
  el_waking :: nat
  el_phase :: loop_phase
  el_clock :: int
  el_fired :: "(timer \<times> int) list"
  el_ran :: "nat list"

definition loop_new :: "int \<Rightarrow> event_loop" where
  "loop_new now =
     \<lparr>el_looping = False, el_quit = False, el_calling_pending = False, el_pending = [], el_timers = [],
      el_generations = Map.empty, el_next_id = 1, el_next_generation = 1, el_wakeup = False, el_waking = 0,
      el_phase = Idle, el_clock = now, el_fired = [], el_ran = []\<rparr>"

definition k_infinite_repeats :: u32 where
  "k_infinite_repeats = 0xFFFFFFFF"

definition k_default_poll_timeout_ms :: int where
  "k_default_poll_timeout_ms = 10000"

subsection \<open>Waking the loop\<close>

definition loop_wakeup :: "event_loop \<Rightarrow> event_loop" where
  "loop_wakeup s = s\<lparr>el_wakeup := True\<rparr>"

text \<open>A thread that has left the mutex writes to the pipe in a step of its own.\<close>

definition wakeup_from :: "bool \<Rightarrow> event_loop \<Rightarrow> event_loop" where
  "wakeup_from in_loop s = (if in_loop then loop_wakeup s else s\<lparr>el_waking := el_waking s + 1\<rparr>)"

definition handle_wakeup :: "event_loop \<Rightarrow> event_loop" where
  "handle_wakeup s = s\<lparr>el_wakeup := False\<rparr>"

definition loop_quit :: "bool \<Rightarrow> event_loop \<Rightarrow> event_loop" where
  "loop_quit in_loop s =
     (let s1 = s\<lparr>el_quit := True\<rparr> in if \<not> in_loop then wakeup_from in_loop s1 else s1)"

definition loop_queue_in_loop :: "bool \<Rightarrow> nat \<Rightarrow> event_loop \<Rightarrow> event_loop" where
  "loop_queue_in_loop in_loop callback s =
     (let s1 = s\<lparr>el_pending := el_pending s @ [callback]\<rparr>
      in if \<not> in_loop \<or> el_calling_pending s1 then wakeup_from in_loop s1 else s1)"

definition queue_size :: "event_loop \<Rightarrow> nat" where
  "queue_size s = length (el_pending s)"

text \<open>In the loop's thread the callback runs at once.\<close>

definition run_in_loop :: "bool \<Rightarrow> nat \<Rightarrow> event_loop \<Rightarrow> event_loop" where
  "run_in_loop in_loop callback s =
     (if in_loop then s\<lparr>el_ran := el_ran s @ [callback]\<rparr> else loop_queue_in_loop in_loop callback s)"

subsection \<open>Timers\<close>

definition timer_is_current :: "event_loop \<Rightarrow> timer \<Rightarrow> bool" where
  "timer_is_current s t \<longleftrightarrow> el_generations s (tm_id t) = Some (tm_generation t)"

definition loop_cancel :: "bool \<Rightarrow> u64 \<Rightarrow> event_loop \<Rightarrow> event_loop" where
  "loop_cancel in_loop timer_id s =
     (if timer_id = 0 then s
      else wakeup_from in_loop (s\<lparr>el_generations := (el_generations s)(timer_id := None)\<rparr>))"

text \<open>The search for a free id does not end when every id is in use.\<close>

partial_function (option) next_timer_id :: "(u64 \<rightharpoonup> u64) \<Rightarrow> u64 \<Rightarrow> (u64 \<times> u64) option" where
  "next_timer_id generations next =
     (if next = 0 \<or> generations next \<noteq> None then next_timer_id generations (next + 1) else Some (next, next + 1))"

declare next_timer_id.simps [code]

text \<open>The generation given out and the counter behind it.\<close>

definition next_generation :: "u64 \<Rightarrow> u64 \<times> u64" where
  "next_generation next = (if next = 0 then (1, 2) else (next, next + 1))"

text \<open>The id of the timer and the new state.\<close>

definition add_timer :: "bool \<Rightarrow> int \<Rightarrow> int \<Rightarrow> u32 \<Rightarrow> nat option \<Rightarrow> u64 \<Rightarrow> event_loop \<Rightarrow> (u64 \<times> event_loop) option" where
  "add_timer in_loop when interval repeat callback timer_id s =
     (if callback = None \<or> repeat = 0 then Some (0, s)
      else
        case (if timer_id = 0
              then map_option (\<lambda>(i, next). (i, s\<lparr>el_next_id := next\<rparr>)) (next_timer_id (el_generations s) (el_next_id s))
              else Some (timer_id, s\<lparr>el_timers := filter (\<lambda>t. tm_id t \<noteq> timer_id) (el_timers s)\<rparr>)) of
          None \<Rightarrow> None
        | Some (i, s1) \<Rightarrow>
            let (generation, next) = next_generation (el_next_generation s1);
                s2 = s1\<lparr>el_next_generation := next, el_generations := (el_generations s1)(i \<mapsto> generation),
                       el_timers := el_timers s1 @ [\<lparr>tm_id = i, tm_generation = generation, tm_when = when,
                         tm_interval = interval, tm_repeat = repeat, tm_callback = the callback\<rparr>]\<rparr>
            in Some (i, wakeup_from in_loop s2))"

definition run_after :: "bool \<Rightarrow> int \<Rightarrow> nat \<Rightarrow> event_loop \<Rightarrow> (u64 \<times> event_loop) option" where
  "run_after in_loop delay callback s = add_timer in_loop (el_clock s + delay) 0 1 (Some callback) 0 s"

definition run_every :: "bool \<Rightarrow> int \<Rightarrow> nat \<Rightarrow> event_loop \<Rightarrow> (u64 \<times> event_loop) option" where
  "run_every in_loop interval callback s =
     (if interval \<le> 0 then Some (0, s)
      else add_timer in_loop (el_clock s + interval) interval k_infinite_repeats (Some callback) 0 s)"

definition set_timer :: "bool \<Rightarrow> int \<Rightarrow> nat option \<Rightarrow> u32 \<Rightarrow> u64 \<Rightarrow> event_loop \<Rightarrow> (u64 \<times> event_loop) option" where
  "set_timer in_loop timeout callback repeat timer_id s =
     (if timeout < 0 \<or> repeat = 0 then Some (0, s)
      else add_timer in_loop (el_clock s + timeout) timeout repeat callback timer_id s)"

definition set_timeout :: "bool \<Rightarrow> int \<Rightarrow> nat option \<Rightarrow> u64 \<Rightarrow> event_loop \<Rightarrow> (u64 \<times> event_loop) option" where
  "set_timeout in_loop timeout callback timer_id = set_timer in_loop timeout callback 1 timer_id"

definition set_interval :: "bool \<Rightarrow> int \<Rightarrow> nat option \<Rightarrow> u64 \<Rightarrow> event_loop \<Rightarrow> (u64 \<times> event_loop) option" where
  "set_interval in_loop interval callback timer_id = set_timer in_loop interval callback k_infinite_repeats timer_id"

text \<open>The earliest due time of a current timer, and how long the loop may sleep.\<close>

fun next_due :: "event_loop \<Rightarrow> timer list \<Rightarrow> int option \<Rightarrow> int option" where
  "next_due s [] next = next"
| "next_due s (t # ts) next =
     next_due s ts
       (if \<not> timer_is_current s t then next
        else case next of None \<Rightarrow> Some (tm_when t) | Some n \<Rightarrow> if tm_when t < n then Some (tm_when t) else Some n)"

definition poll_timeout_ms :: "event_loop \<Rightarrow> int" where
  "poll_timeout_ms s =
     (case next_due s (el_timers s) None of
        None \<Rightarrow> k_default_poll_timeout_ms
      | Some n \<Rightarrow> if n \<le> el_clock s then 0 else min ((n - el_clock s) div 1000000) k_default_poll_timeout_ms)"

text \<open>\<open>run_due_timers\<close>: its first locked region, a callback, and the locked region behind it.\<close>

definition collect_due :: "event_loop \<Rightarrow> event_loop" where
  "collect_due s =
     (let current = filter (timer_is_current s) (el_timers s)
      in s\<lparr>el_phase := Firing (filter (\<lambda>t. tm_when t \<le> el_clock s) current),
           el_timers := filter (\<lambda>t. \<not> tm_when t \<le> el_clock s) current\<rparr>)"

definition fire_timer :: "timer \<Rightarrow> timer list \<Rightarrow> event_loop \<Rightarrow> event_loop" where
  "fire_timer t ts s = s\<lparr>el_phase := In_timer t ts, el_fired := el_fired s @ [(t, el_clock s)]\<rparr>"

definition settle_timer :: "timer \<Rightarrow> timer list \<Rightarrow> event_loop \<Rightarrow> event_loop" where
  "settle_timer t ts s0 =
     (let s = s0\<lparr>el_phase := Firing ts\<rparr>
      in if \<not> timer_is_current s t then s
         else
           let t1 = (if tm_repeat t \<noteq> k_infinite_repeats then t\<lparr>tm_repeat := tm_repeat t - 1\<rparr> else t)
           in if tm_interval t1 \<noteq> 0 \<and> (tm_repeat t1 = k_infinite_repeats \<or> 0 < tm_repeat t1)
              then s\<lparr>el_timers := el_timers s @ [t1\<lparr>tm_when := el_clock s + tm_interval t1\<rparr>]\<rparr>
              else s\<lparr>el_generations := (el_generations s)(tm_id t1 := None)\<rparr>)"

subsection \<open>The loop\<close>

definition loop_start :: "event_loop \<Rightarrow> event_loop" where
  "loop_start s = s\<lparr>el_looping := True, el_quit := False, el_phase := Head\<rparr>"

definition loop_head :: "event_loop \<Rightarrow> event_loop" where
  "loop_head s = (if el_quit s then s\<lparr>el_looping := False, el_phase := Idle\<rparr> else s\<lparr>el_phase := Awake\<rparr>)"

definition loop_sleep :: "event_loop \<Rightarrow> event_loop" where
  "loop_sleep s = s\<lparr>el_phase := Sleeping (el_clock s) (poll_timeout_ms s)\<rparr>"

definition take_functors :: "event_loop \<Rightarrow> event_loop" where
  "take_functors s = s\<lparr>el_calling_pending := True, el_phase := Running (el_pending s), el_pending := []\<rparr>"

definition run_functor :: "nat \<Rightarrow> nat list \<Rightarrow> event_loop \<Rightarrow> event_loop" where
  "run_functor f fs s = s\<lparr>el_phase := Running fs, el_ran := el_ran s @ [f]\<rparr>"

definition end_functors :: "event_loop \<Rightarrow> event_loop" where
  "end_functors s = s\<lparr>el_calling_pending := False, el_phase := Head\<rparr>"

fun loop_advance :: "event_loop \<Rightarrow> event_loop" where
  "loop_advance s =
     (case el_phase s of
        Idle \<Rightarrow> loop_start s
      | Head \<Rightarrow> loop_head s
      | Awake \<Rightarrow> loop_sleep s
      | Sleeping at timeout \<Rightarrow> s\<lparr>el_phase := Handling\<rparr>
      | Handling \<Rightarrow> collect_due s
      | Firing [] \<Rightarrow> take_functors s
      | Firing (t # ts) \<Rightarrow> fire_timer t ts s
      | In_timer t ts \<Rightarrow> settle_timer t ts s
      | Running [] \<Rightarrow> end_functors s
      | Running (f # fs) \<Rightarrow> run_functor f fs s)"

subsection \<open>Steps\<close>

datatype loop_call = Quit | Queue nat | Run_in_loop nat | Cancel u64 | Run_after int nat | Run_every int nat
  | Set_timer int "nat option" u32 u64

definition loop_call_step :: "bool \<Rightarrow> loop_call \<Rightarrow> event_loop \<Rightarrow> event_loop option" where
  "loop_call_step in_loop call s =
     (case call of
        Quit \<Rightarrow> Some (loop_quit in_loop s)
      | Queue f \<Rightarrow> Some (loop_queue_in_loop in_loop f s)
      | Run_in_loop f \<Rightarrow> Some (run_in_loop in_loop f s)
      | Cancel i \<Rightarrow> Some (loop_cancel in_loop i s)
      | Run_after delay f \<Rightarrow> map_option snd (run_after in_loop delay f s)
      | Run_every interval f \<Rightarrow> map_option snd (run_every in_loop interval f s)
      | Set_timer timeout f repeat i \<Rightarrow> map_option snd (set_timer in_loop timeout f repeat i s))"

datatype loop_input = Tick int | Advance | Drain | Wake | Own loop_call | Other loop_call

text \<open>
  The owner's calls: from a channel's handler, a timer's callback or a functor, and, but for queueing a functor,
  before the loop starts.\<close>

definition own_allowed :: "loop_call \<Rightarrow> loop_phase \<Rightarrow> bool" where
  "own_allowed call p \<longleftrightarrow>
     (case p of
        Handling \<Rightarrow> True | In_timer t ts \<Rightarrow> True | Running fs \<Rightarrow> True
      | Idle \<Rightarrow> (case call of Queue f \<Rightarrow> False | _ \<Rightarrow> True)
      | _ \<Rightarrow> False)"

definition loop_step :: "loop_input \<Rightarrow> event_loop \<Rightarrow> event_loop option" where
  "loop_step i s =
     (case i of
        Tick d \<Rightarrow> if d < 0 then None else Some (s\<lparr>el_clock := el_clock s + d\<rparr>)
      | Advance \<Rightarrow> Some (loop_advance s)
      | Drain \<Rightarrow> if el_phase s = Handling then Some (handle_wakeup s) else None
      | Wake \<Rightarrow> if 0 < el_waking s then Some (loop_wakeup (s\<lparr>el_waking := el_waking s - 1\<rparr>)) else None
      | Own call \<Rightarrow> if own_allowed call (el_phase s) then loop_call_step True call s else None
      | Other call \<Rightarrow> loop_call_step False call s)"

fun loop_run :: "loop_input list \<Rightarrow> event_loop \<Rightarrow> event_loop option" where
  "loop_run [] s = Some s"
| "loop_run (i # is) s = (case loop_step i s of None \<Rightarrow> None | Some s1 \<Rightarrow> loop_run is s1)"

end
