(* ===== verification/Event_Loop_Laws.thy ===== *)
theory Event_Loop_Laws
  imports Event_Loop
begin

text \<open>
  What the loop promises: no timer is lost or doubled, timers fire when due, as often as asked and not after
  they were cancelled, and the loop never sleeps over a functor, a quit or a due timer.
\<close>

subsection \<open>Ids and generations\<close>

lemma next_timer_id_free:
  "generations (next + of_nat k) = None \<Longrightarrow> next + of_nat k \<noteq> 0 \<Longrightarrow>
     \<exists>i next'. next_timer_id generations next = Some (i, next') \<and> i \<noteq> 0 \<and> generations i = None"
proof (induction k arbitrary: "next")
  case 0
  then show ?case by (subst next_timer_id.simps) simp
next
  case (Suc k)
  show ?case
  proof (cases "next = 0 \<or> generations next \<noteq> None")
    case True
    have "next + 1 + of_nat k = next + of_nat (Suc k)" by simp
    then have "\<exists>i next'. next_timer_id generations (next + 1) = Some (i, next') \<and> i \<noteq> 0 \<and> generations i = None"
      using Suc by metis
    then show ?thesis using True by (subst next_timer_id.simps) auto
  next
    case False
    then show ?thesis by (subst next_timer_id.simps) auto
  qed
qed

lemma next_timer_id_returns:
  fixes generations :: "u64 \<rightharpoonup> u64"
  assumes "card (dom generations) < 2 ^ 64 - 1"
  obtains i n where "next_timer_id generations next = Some (i, n)" "i \<noteq> 0" "generations i = None"
proof -
  have "\<not> - {0} \<subseteq> dom generations"
  proof
    assume "- {0} \<subseteq> dom generations"
    then have "card (- {0 :: u64}) \<le> card (dom generations)" by (intro card_mono) simp_all
    moreover have "card (- {0 :: u64}) = 2 ^ 64 - 1" by (simp add: Compl_eq_Diff_UNIV card_Diff_singleton card_word)
    ultimately show False using assms by simp
  qed
  then obtain i where "i \<noteq> 0" "generations i = None" by (auto simp: dom_def)
  moreover have "next + of_nat (unat (i - next)) = i" by simp
  ultimately have "\<exists>i n. next_timer_id generations next = Some (i, n) \<and> i \<noteq> 0 \<and> generations i = None"
    using next_timer_id_free [of generations "next" "unat (i - next)"] by simp
  then show ?thesis using that by blast
qed

subsection \<open>What a step changes of the timers\<close>

text \<open>The part of the state the laws of timers are about.\<close>

definition same_timers :: "event_loop \<Rightarrow> event_loop \<Rightarrow> bool" where
  "same_timers s s1 \<longleftrightarrow> el_timers s1 = el_timers s \<and> el_generations s1 = el_generations s \<and>
     el_next_generation s1 = el_next_generation s \<and> el_phase s1 = el_phase s \<and> el_fired s1 = el_fired s \<and>
     el_clock s \<le> el_clock s1"

text \<open>A new timer has the next generation; of the old ones only those with its id may go.\<close>

definition new_timer :: "timer \<Rightarrow> event_loop \<Rightarrow> event_loop \<Rightarrow> bool" where
  "new_timer t s s1 \<longleftrightarrow> tm_generation t = el_next_generation s \<and> tm_repeat t \<noteq> 0 \<and> 0 \<le> tm_interval t \<and>
     (\<exists>P. el_timers s1 = filter P (el_timers s) @ [t] \<and> (\<forall>u. \<not> P u \<longrightarrow> tm_id u = tm_id t)) \<and>
     el_generations s1 = (el_generations s)(tm_id t \<mapsto> tm_generation t) \<and>
     el_next_generation s1 = el_next_generation s + 1 \<and> el_phase s1 = el_phase s \<and> el_fired s1 = el_fired s \<and>
     el_clock s1 = el_clock s"

definition no_timer :: "u64 \<Rightarrow> event_loop \<Rightarrow> event_loop \<Rightarrow> bool" where
  "no_timer i s s1 \<longleftrightarrow> same_timers (s\<lparr>el_generations := (el_generations s)(i := None)\<rparr>) s1"

lemma wakeup_from_timers [simp]:
  "el_timers (wakeup_from b s) = el_timers s" "el_generations (wakeup_from b s) = el_generations s"
  "el_next_generation (wakeup_from b s) = el_next_generation s" "el_phase (wakeup_from b s) = el_phase s"
  "el_fired (wakeup_from b s) = el_fired s" "el_clock (wakeup_from b s) = el_clock s"
  "el_pending (wakeup_from b s) = el_pending s" "el_quit (wakeup_from b s) = el_quit s"
  "el_calling_pending (wakeup_from b s) = el_calling_pending s"
  by (simp_all add: wakeup_from_def loop_wakeup_def)

definition ids_left :: "event_loop \<Rightarrow> bool" where
  "ids_left s \<longleftrightarrow> card (dom (el_generations s)) < 2 ^ 64 - 1 \<and> el_next_generation s \<noteq> 0"

lemma add_timer_cases:
  assumes "ids_left s" and "0 \<le> interval"
  shows "\<exists>i s1. add_timer in_loop due interval repeat callback timer_id s = Some (i, s1) \<and>
    (same_timers s s1 \<or> (\<exists>t. new_timer t s s1))"
proof (cases "callback = None \<or> repeat = 0")
  case False
  let ?t = "\<lambda>i. \<lparr>tm_id = i, tm_generation = el_next_generation s, tm_when = due, tm_interval = interval,
      tm_repeat = repeat, tm_callback = the callback\<rparr>"
  obtain i s1 where s1: "(if timer_id = 0
      then map_option (\<lambda>(i, next). (i, s\<lparr>el_next_id := next\<rparr>)) (next_timer_id (el_generations s) (el_next_id s))
      else Some (timer_id, s\<lparr>el_timers := filter (\<lambda>t. tm_id t \<noteq> timer_id) (el_timers s)\<rparr>)) = Some (i, s1)"
    and i: "\<exists>P. el_timers s1 = filter P (el_timers s) \<and> (\<forall>u. \<not> P u \<longrightarrow> tm_id u = i)"
    and same: "el_generations s1 = el_generations s" "el_next_generation s1 = el_next_generation s"
      "el_phase s1 = el_phase s" "el_fired s1 = el_fired s" "el_clock s1 = el_clock s"
  proof (cases "timer_id = 0")
    case True
    have "card (dom (el_generations s)) < 2 ^ 64 - 1" using assms(1) by (simp add: ids_left_def)
    from next_timer_id_returns [OF this, of "el_next_id s"] obtain i n
      where "next_timer_id (el_generations s) (el_next_id s) = Some (i, n)" by blast
    then show ?thesis
      using True by (intro that [of i "s\<lparr>el_next_id := n\<rparr>"] exI [of _ "\<lambda>u. True"]) simp_all
  next
    case False
    then show ?thesis
      by (intro that [of timer_id "s\<lparr>el_timers := filter (\<lambda>t. tm_id t \<noteq> timer_id) (el_timers s)\<rparr>"]
          exI [of _ "\<lambda>u. tm_id u \<noteq> timer_id"]) simp_all
  qed
  define s2 where "s2 = s1\<lparr>el_next_generation := el_next_generation s + 1,
    el_generations := (el_generations s1)(i \<mapsto> el_next_generation s), el_timers := el_timers s1 @ [?t i]\<rparr>"
  have "add_timer in_loop due interval repeat callback timer_id s = Some (i, wakeup_from in_loop s2)"
    unfolding add_timer_def s1 using False assms(1) by (auto simp: next_generation_def s2_def same ids_left_def)
  moreover have "new_timer (?t i) s (wakeup_from in_loop s2)"
    using i False assms(2) by (auto simp: new_timer_def s2_def same)
  ultimately show ?thesis by blast
qed (auto simp: add_timer_def same_timers_def)

lemma loop_call_cases:
  assumes "ids_left s"
  shows "\<exists>s1. loop_call_step in_loop call s = Some s1 \<and>
    (same_timers s s1 \<or> (\<exists>t. new_timer t s s1) \<or> (\<exists>i. call = Cancel i \<and> no_timer i s s1))"
proof (cases call)
  case (Run_after d f)
  then show ?thesis using add_timer_cases [OF assms, of 0 in_loop "el_clock s + d" 1 "Some f" 0]
    by (auto simp: loop_call_step_def run_after_def)
next
  case (Run_every d f)
  then show ?thesis using add_timer_cases [OF assms, of d in_loop "el_clock s + d" k_infinite_repeats "Some f" 0]
    by (auto simp: loop_call_step_def run_every_def same_timers_def)
next
  case (Set_timer d f r i)
  then show ?thesis using add_timer_cases [OF assms, of d in_loop "el_clock s + d" r f i]
    by (auto simp: loop_call_step_def set_timer_def same_timers_def)
qed (auto simp: loop_call_step_def loop_quit_def loop_queue_in_loop_def run_in_loop_def loop_cancel_def wakeup_from_def
    loop_wakeup_def same_timers_def no_timer_def Let_def)

text \<open>A step either advances the loop or is one of these.\<close>

lemma loop_step_cases:
  assumes "loop_step i s = Some s1" and "ids_left s"
  obtains (advance) "s1 = loop_advance s" | (quiet) "same_timers s s1" | (new) t where "new_timer t s s1"
    | (cancel) j where "no_timer j s s1"
proof (cases i)
  case (Own call)
  then show ?thesis using loop_call_cases [OF assms(2), of True call] assms(1) that
    by (auto simp: loop_step_def split: if_splits)
next
  case (Other call)
  then show ?thesis using loop_call_cases [OF assms(2), of False call] assms(1) that by (auto simp: loop_step_def)
qed (use assms(1) in \<open>auto simp: loop_step_def same_timers_def handle_wakeup_def loop_wakeup_def split: if_splits intro: that\<close>)

text \<open>A run: a timer of 5 ns repeated three times, two rounds in which it is called, then asleep again.\<close>

definition round_inputs :: "loop_input list" where
  "round_inputs = [Tick 6, Advance, Advance, Advance, Advance, Advance, Advance, Advance]"

definition loop_inputs :: "loop_input list" where
  "loop_inputs = [Own (Set_timer 5 (Some 1) 3 0), Advance, Advance, Advance] @ round_inputs @
     [Advance] @ round_inputs @ [Advance]"

abbreviation sample_loop :: event_loop where
  "sample_loop \<equiv> the (loop_run loop_inputs (loop_new 0))"

lemma sample_loop_runs: "loop_run loop_inputs (loop_new 0) = Some sample_loop" "length loop_inputs < 2 ^ 64 - 2"
proof -
  have "loop_run loop_inputs (loop_new 0) \<noteq> None" "length loop_inputs = 22" by code_simp+
  then show "loop_run loop_inputs (loop_new 0) = Some sample_loop" "length loop_inputs < 2 ^ 64 - 2" by auto
qed

subsection \<open>No timer is lost or doubled\<close>

text \<open>The timers in the vectors of the round that is running: collected, and of those the ones still to fire.\<close>

fun upcoming :: "loop_phase \<Rightarrow> timer list" where
  "upcoming (Firing ts) = ts"
| "upcoming (In_timer t ts) = ts"
| "upcoming p = []"

fun collected :: "loop_phase \<Rightarrow> timer list" where
  "collected (In_timer t ts) = t # ts"
| "collected p = upcoming p"

definition held :: "event_loop \<Rightarrow> timer list" where
  "held s = el_timers s @ collected (el_phase s)"

definition timers_inv :: "nat \<Rightarrow> event_loop \<Rightarrow> bool" where
  "timers_inv n s \<longleftrightarrow> distinct (map tm_generation (held s)) \<and>
     (\<forall>t\<in>set (held s). tm_generation t < el_next_generation s \<and> tm_repeat t \<noteq> 0 \<and> 0 \<le> tm_interval t) \<and>
     (\<forall>i g. el_generations s i = Some g \<longrightarrow> (\<exists>t\<in>set (held s). tm_id t = i \<and> tm_generation t = g)) \<and>
     0 < unat (el_next_generation s) \<and> unat (el_next_generation s) \<le> n + 1 \<and> card (dom (el_generations s)) \<le> n"

lemma timers_inv_new: "timers_inv 0 (loop_new now)"
  by (simp add: timers_inv_def held_def loop_new_def)

lemma timers_inv_ids: "timers_inv n s \<Longrightarrow> n < 2 ^ 64 - 2 \<Longrightarrow> ids_left s"
  by (auto simp: timers_inv_def ids_left_def)

lemma timers_inv_mono: "timers_inv n s \<Longrightarrow> n \<le> m \<Longrightarrow> timers_inv m s"
  by (auto simp: timers_inv_def)

lemma timers_inv_same: "same_timers s s1 \<Longrightarrow> timers_inv n s1 = timers_inv n s"
  by (simp add: same_timers_def timers_inv_def held_def)

lemma timers_inv_forget: "timers_inv n s \<Longrightarrow> timers_inv n (s\<lparr>el_generations := (el_generations s)(i := None)\<rparr>)"
proof -
  assume inv: "timers_inv n s"
  have "card (dom ((el_generations s)(i := None))) \<le> card (dom (el_generations s))" by (rule card_mono) auto
  then show ?thesis using inv by (auto simp: timers_inv_def held_def)
qed

lemma next_generation_bound:
  fixes g :: u64
  assumes "unat g \<le> n + 1" and "n < 2 ^ 64 - 2"
  shows "unat (g + 1) = unat g + 1" "t < g \<Longrightarrow> t < g + 1" "g < g + 1"
proof -
  show sum: "unat (g + 1) = unat g + 1" using assms unat_add_u64 [of g 1] by simp
  then show "t < g \<Longrightarrow> t < g + 1" "g < g + 1" by (simp_all add: word_less_nat_alt)
qed

lemma timers_inv_add:
  assumes inv: "timers_inv n s" and new: "new_timer t s s1" and n: "n < 2 ^ 64 - 2"
  shows "timers_inv (n + 1) s1"
proof -
  obtain P where P: "el_timers s1 = filter P (el_timers s) @ [t]" "\<And>u. \<not> P u \<Longrightarrow> tm_id u = tm_id t"
    using new by (auto simp: new_timer_def)
  have t: "tm_generation t = el_next_generation s" "tm_repeat t \<noteq> 0" "0 \<le> tm_interval t"
    "el_generations s1 = (el_generations s)(tm_id t \<mapsto> tm_generation t)"
    "el_next_generation s1 = el_next_generation s + 1" "el_phase s1 = el_phase s"
    using new by (simp_all add: new_timer_def)
  have bound: "unat (el_next_generation s) \<le> n + 1" using inv by (simp add: timers_inv_def)
  note incr = next_generation_bound [OF bound n]
  have held: "held s1 = filter P (el_timers s) @ t # collected (el_phase s)" by (simp add: held_def P t)
  have sub: "set (held s1) \<subseteq> insert t (set (held s))" unfolding held by (auto simp: held_def)
  have fresh: "el_next_generation s \<notin> tm_generation ` set (held s)" using inv by (auto simp: timers_inv_def)
  have "distinct (map tm_generation (held s))" using inv by (simp add: timers_inv_def)
  then have "distinct (map tm_generation (held s1))"
    using fresh unfolding held by (auto simp: held_def t distinct_map_filter)
  moreover have "\<forall>u\<in>set (held s1). tm_generation u < el_next_generation s1 \<and> tm_repeat u \<noteq> 0 \<and> 0 \<le> tm_interval u"
  proof
    fix u
    assume "u \<in> set (held s1)"
    then have "u = t \<or> u \<in> set (held s)" using sub by blast
    then show "tm_generation u < el_next_generation s1 \<and> tm_repeat u \<noteq> 0 \<and> 0 \<le> tm_interval u"
      using inv incr(2,3) by (auto simp: t timers_inv_def)
  qed
  moreover have "\<forall>i g. el_generations s1 i = Some g \<longrightarrow> (\<exists>u\<in>set (held s1). tm_id u = i \<and> tm_generation u = g)"
  proof (intro allI impI)
    fix i g
    assume g: "el_generations s1 i = Some g"
    show "\<exists>u\<in>set (held s1). tm_id u = i \<and> tm_generation u = g"
    proof (cases "i = tm_id t")
      case True
      then show ?thesis using g by (auto simp: t held)
    next
      case False
      then have "el_generations s i = Some g" using g by (simp add: t)
      then obtain u where u: "u \<in> set (held s)" "tm_id u = i" "tm_generation u = g"
        using inv unfolding timers_inv_def by blast
      then have "P u" using P(2) False by blast
      then have "u \<in> set (held s1)" using u(1) unfolding held by (auto simp: held_def)
      then show ?thesis using u by blast
    qed
  qed
  moreover have "card (dom (el_generations s1)) \<le> n + 1"
    using inv by (auto simp: t timers_inv_def card_insert_if)
  ultimately show ?thesis using bound incr(1) by (simp add: timers_inv_def t)
qed

lemma settle_timer_cases:
  assumes "el_phase s = In_timer t ts" and "tm_repeat t \<noteq> 0" and "0 \<le> tm_interval t"
  obtains (stale) "settle_timer t ts s = s\<lparr>el_phase := Firing ts\<rparr>" "\<not> timer_is_current s t"
    | (over) "settle_timer t ts s = s\<lparr>el_phase := Firing ts, el_generations := (el_generations s)(tm_id t := None)\<rparr>"
        "timer_is_current s t"
    | (again) u where "settle_timer t ts s = s\<lparr>el_phase := Firing ts, el_timers := el_timers s @ [u]\<rparr>"
        "timer_is_current s t" "tm_id u = tm_id t" "tm_generation u = tm_generation t"
        "tm_interval u = tm_interval t" "0 < tm_interval t" "tm_when u = el_clock s + tm_interval t" "tm_repeat u \<noteq> 0"
        "if tm_repeat t = k_infinite_repeats then tm_repeat u = k_infinite_repeats else tm_repeat u < tm_repeat t"
proof -
  define t1 where "t1 = (if tm_repeat t \<noteq> k_infinite_repeats then t\<lparr>tm_repeat := tm_repeat t - 1\<rparr> else t)"
  have t1: "tm_id t1 = tm_id t" "tm_generation t1 = tm_generation t" "tm_interval t1 = tm_interval t"
    by (simp_all add: t1_def)
  have "tm_repeat t - 1 < tm_repeat t" using assms(2) by (simp add: word_less_nat_alt unat_minus_one unat_gt_0)
  then have repeat: "if tm_repeat t = k_infinite_repeats then tm_repeat t1 = k_infinite_repeats else tm_repeat t1 < tm_repeat t"
    by (simp add: t1_def)
  have settle: "settle_timer t ts s = (let s1 = s\<lparr>el_phase := Firing ts\<rparr> in
      if \<not> timer_is_current s t then s1
      else if tm_interval t1 \<noteq> 0 \<and> (tm_repeat t1 = k_infinite_repeats \<or> 0 < tm_repeat t1)
        then s1\<lparr>el_timers := el_timers s @ [t1\<lparr>tm_when := el_clock s + tm_interval t1\<rparr>]\<rparr>
        else s1\<lparr>el_generations := (el_generations s)(tm_id t1 := None)\<rparr>)"
    by (simp add: settle_timer_def Let_def t1_def timer_is_current_def)
  consider "\<not> timer_is_current s t"
    | "timer_is_current s t" "tm_interval t1 \<noteq> 0" "tm_repeat t1 = k_infinite_repeats \<or> 0 < tm_repeat t1"
    | "timer_is_current s t" "\<not> (tm_interval t1 \<noteq> 0 \<and> (tm_repeat t1 = k_infinite_repeats \<or> 0 < tm_repeat t1))"
    by blast
  then show ?thesis
  proof cases
    case 1
    then show ?thesis using settle stale by simp
  next
    case 2
    have "tm_repeat t1 \<noteq> 0" using 2(3) by (auto simp: k_infinite_repeats_def)
    then show ?thesis
      using 2 settle repeat assms(3) t1
      by (intro again [of "t1\<lparr>tm_when := el_clock s + tm_interval t1\<rparr>"]) (simp_all add: t1)
  next
    case 3
    show ?thesis by (rule over) (use 3 settle in \<open>simp_all only: Let_def t1 if_False not_not simp_thms\<close>)
  qed
qed

lemma timers_inv_advance:
  assumes inv: "timers_inv n s"
  shows "timers_inv n (loop_advance s)"
proof (cases "el_phase s")
  case (Firing ts)
  then show ?thesis
  proof (cases ts)
    case Nil
    then show ?thesis using Firing inv by (simp add: timers_inv_def held_def take_functors_def)
  next
    case (Cons t us)
    then show ?thesis using Firing inv by (simp add: timers_inv_def held_def fire_timer_def)
  qed
next
  case (In_timer t ts)
  then have t: "tm_repeat t \<noteq> 0" "0 \<le> tm_interval t" and held: "held s = el_timers s @ t # ts"
    using inv by (simp_all add: timers_inv_def held_def)
  have gens: "distinct (map tm_generation (el_timers s @ t # ts))" using inv by (simp add: timers_inv_def held)
  have small: "card (dom ((el_generations s)(tm_id t := None))) \<le> card (dom (el_generations s))"
    by (rule card_mono) auto
  from In_timer t show ?thesis
  proof (cases rule: settle_timer_cases)
    case stale
    then show ?thesis using inv In_timer by (auto simp: timers_inv_def held_def timer_is_current_def)
  next
    case over
    have "\<exists>u\<in>set (el_timers s @ ts). tm_id u = i \<and> tm_generation u = g"
      if "el_generations s i = Some g" "i \<noteq> tm_id t" for i g
      using inv that held unfolding timers_inv_def by fastforce
    then show ?thesis using inv In_timer over small by (auto simp: timers_inv_def held_def)
  next
    case (again u)
    then show ?thesis using inv In_timer gens by (auto simp: timers_inv_def held_def)
  qed
next
  case Handling
  let ?p = "\<lambda>t. timer_is_current s t"
  have held: "held s = el_timers s" using Handling by (simp add: held_def)
  have held': "held (loop_advance s) = filter (\<lambda>t. \<not> tm_when t \<le> el_clock s) (filter ?p (el_timers s)) @
      filter (\<lambda>t. tm_when t \<le> el_clock s) (filter ?p (el_timers s))"
    using Handling by (simp add: held_def collect_due_def Let_def)
  have "distinct (map tm_generation (el_timers s))" using inv by (simp add: timers_inv_def held)
  then have "distinct (map tm_generation (held (loop_advance s)))"
    unfolding held' by (auto simp: distinct_map inj_on_def)
  moreover have "set (held (loop_advance s)) = {t \<in> set (el_timers s). ?p t}" unfolding held' by auto
  moreover have "\<exists>t\<in>{t \<in> set (el_timers s). ?p t}. tm_id t = i \<and> tm_generation t = g" if gen: "el_generations s i = Some g" for i g
  proof -
    obtain t where "t \<in> set (el_timers s)" "tm_id t = i" "tm_generation t = g"
      using inv gen unfolding timers_inv_def held by blast
    then show ?thesis using gen by (intro bexI [of _ t]) (simp_all add: timer_is_current_def)
  qed
  moreover have "el_generations (loop_advance s) = el_generations s"
    "el_next_generation (loop_advance s) = el_next_generation s"
    using Handling by (simp_all add: collect_due_def Let_def)
  ultimately show ?thesis using inv unfolding timers_inv_def held by auto
next
  case (Running fs)
  then show ?thesis using inv by (cases fs) (simp_all add: timers_inv_def held_def end_functors_def run_functor_def)
qed (use inv in \<open>simp_all add: timers_inv_def held_def loop_start_def loop_head_def loop_sleep_def\<close>)

lemma timers_inv_step:
  assumes "timers_inv n s" and "loop_step i s = Some s1" and "n < 2 ^ 64 - 2"
  shows "timers_inv (n + 1) s1"
  using assms(2) timers_inv_ids [OF assms(1,3)]
proof (cases rule: loop_step_cases)
  case advance
  then show ?thesis using timers_inv_advance [OF assms(1)] timers_inv_mono [of n _ "n + 1"] by simp
next
  case quiet
  then show ?thesis using assms(1) timers_inv_same timers_inv_mono [of n _ "n + 1"] by simp
next
  case (new t)
  then show ?thesis by (rule timers_inv_add [OF assms(1) _ assms(3)])
next
  case (cancel j)
  have "timers_inv n s1" using timers_inv_forget [OF assms(1)] cancel timers_inv_same by (simp add: no_timer_def)
  then show ?thesis using timers_inv_mono by simp
qed

lemma loop_run_append:
  "loop_run (is @ js) s = (case loop_run is s of None \<Rightarrow> None | Some t \<Rightarrow> loop_run js t)"
  by (induction "is" arbitrary: s) (simp_all split: option.split)

lemma loop_run_snoc:
  "loop_run (is @ [i]) s = Some u \<longleftrightarrow> (\<exists>t. loop_run is s = Some t \<and> loop_step i t = Some u)"
  by (auto simp: loop_run_append split: option.splits)

lemma timers_inv_run:
  assumes "loop_run is (loop_new now) = Some s" and "length is < 2 ^ 64 - 2"
  shows "timers_inv (length is) s"
  using assms
proof (induction "is" arbitrary: s rule: rev_induct)
  case Nil
  then show ?case using timers_inv_new [of now] by simp
next
  case (snoc i "is")
  then show ?case using timers_inv_step by (auto simp: loop_run_snoc)
qed

text \<open>
  C10: No timer is lost or doubled. After any run of the loop, with other threads adding, cancelling and queueing
  between any two of its steps, every id the loop regards as armed belongs to exactly one timer of the current
  generation, waiting in the loop or in the round that is running; and any call a thread then makes returns.\<close>

theorem timers_never_lost:
  assumes "loop_run is (loop_new now) = Some s" and "length is < 2 ^ 64 - 2"
  shows "(\<forall>i g. el_generations s i = Some g \<longrightarrow>
      (\<exists>!t. t \<in> set (held s) \<and> tm_id t = i \<and> tm_generation t = g)) \<and> loop_call_step in_loop call s \<noteq> None"
proof (intro conjI allI impI)
  note inv = timers_inv_run [OF assms]
  show "loop_call_step in_loop call s \<noteq> None" using loop_call_cases [OF timers_inv_ids [OF inv assms(2)]] by auto
  fix i g
  assume "el_generations s i = Some g"
  then obtain t where t: "t \<in> set (held s)" "tm_id t = i" "tm_generation t = g"
    using inv unfolding timers_inv_def by blast
  have "distinct (map tm_generation (held s))" using inv by (simp add: timers_inv_def)
  then have "u = t" if "u \<in> set (held s)" "tm_generation u = g" for u
    using that t by (auto simp: distinct_map dest: inj_onD)
  then show "\<exists>!t. t \<in> set (held s) \<and> tm_id t = i \<and> tm_generation t = g" using t by blast
qed

theorem timers_never_lost_witness:
  "(\<exists>!t. t \<in> set (held sample_loop) \<and> tm_id t = 1 \<and> tm_generation t = 1) \<and>
   loop_call_step False (Cancel 1) sample_loop \<noteq> None"
proof -
  have "el_generations sample_loop 1 = Some 1" by code_simp
  then show ?thesis using timers_never_lost [OF sample_loop_runs, of False "Cancel 1"] by blast
qed

subsection \<open>Timers fire when due and as often as asked\<close>

definition fires_before :: "timer \<times> int \<Rightarrow> timer \<Rightarrow> bool" where
  "fires_before e t \<longleftrightarrow> tm_generation (fst e) = tm_generation t \<longrightarrow>
     tm_id (fst e) = tm_id t \<and> tm_interval (fst e) = tm_interval t \<and> 0 < tm_interval t \<and>
     snd e + tm_interval t \<le> tm_when t \<and>
     (if tm_repeat (fst e) = k_infinite_repeats then tm_repeat t = k_infinite_repeats
      else tm_repeat t < tm_repeat (fst e))"

definition firing_inv :: "event_loop \<Rightarrow> bool" where
  "firing_inv s \<longleftrightarrow> sorted_wrt (\<lambda>e e'. fires_before e (fst e')) (el_fired s) \<and>
     (\<forall>e\<in>set (el_fired s). tm_when (fst e) \<le> snd e \<and> snd e \<le> el_clock s \<and>
        tm_generation (fst e) < el_next_generation s \<and> tm_repeat (fst e) \<noteq> 0 \<and>
        (\<forall>t\<in>set (el_timers s @ upcoming (el_phase s)). fires_before e t)) \<and>
     (\<forall>t\<in>set (upcoming (el_phase s)). tm_when t \<le> el_clock s) \<and>
     (\<forall>t ts. el_phase s = In_timer t ts \<longrightarrow> el_fired s \<noteq> [] \<and> fst (last (el_fired s)) = t)"

lemma firing_inv_same: "same_timers s s1 \<Longrightarrow> firing_inv s \<Longrightarrow> firing_inv s1"
  by (fastforce simp: same_timers_def firing_inv_def)

lemma firing_inv_forget [simp]: "firing_inv (s\<lparr>el_generations := g\<rparr>) = firing_inv s"
  by (simp add: firing_inv_def)

lemma firing_inv_add:
  assumes inv: "firing_inv s" and new: "new_timer t s s1" and n: "unat (el_next_generation s) \<le> n + 1" "n < 2 ^ 64 - 2"
  shows "firing_inv s1"
proof -
  obtain P where P: "el_timers s1 = filter P (el_timers s) @ [t]" using new by (auto simp: new_timer_def)
  have t: "tm_generation t = el_next_generation s" "el_next_generation s1 = el_next_generation s + 1"
    "el_phase s1 = el_phase s" "el_fired s1 = el_fired s" "el_clock s1 = el_clock s"
    using new by (simp_all add: new_timer_def)
  have "fires_before e t" if "e \<in> set (el_fired s)" for e
    using inv that by (auto simp: firing_inv_def fires_before_def t)
  then show ?thesis using inv next_generation_bound(2) [OF n] by (auto simp: firing_inv_def t P)
qed

lemma firing_inv_fire:
  assumes inv: "firing_inv s" and phase: "el_phase s = Firing (t # ts)" and timers: "timers_inv n s"
  shows "firing_inv (fire_timer t ts s)"
proof -
  have "tm_generation t \<notin> tm_generation ` set (el_timers s @ ts)" "tm_generation t < el_next_generation s" "tm_repeat t \<noteq> 0"
    using timers by (auto simp: timers_inv_def held_def phase)
  then have "fires_before (t, el_clock s) u" if "u \<in> set (el_timers s @ ts)" for u
    using that by (auto simp: fires_before_def)
  then show ?thesis
    using inv phase \<open>tm_generation t < el_next_generation s\<close> \<open>tm_repeat t \<noteq> 0\<close>
    by (auto simp: firing_inv_def fire_timer_def sorted_wrt_append)
qed

lemma firing_inv_settle:
  assumes inv: "firing_inv s" and phase: "el_phase s = In_timer t ts" and timers: "timers_inv n s"
  shows "firing_inv (settle_timer t ts s)"
proof -
  have t: "tm_repeat t \<noteq> 0" "0 \<le> tm_interval t" using timers by (simp_all add: timers_inv_def held_def phase)
  from phase t show ?thesis
  proof (cases rule: settle_timer_cases)
    case (again u)
    obtain es a where es: "el_fired s = es @ [(t, a)]"
      using inv phase by (cases "el_fired s" rule: rev_cases) (auto simp: firing_inv_def)
    then have a: "a \<le> el_clock s" "tm_when t \<le> a" using inv by (auto simp: firing_inv_def)
    have "fires_before e u" if "e \<in> set (el_fired s)" for e
    proof (cases "e = (t, a)")
      case True
      then show ?thesis using again a by (auto simp: fires_before_def)
    next
      case False
      then have "fires_before e t" using that inv es by (auto simp: firing_inv_def sorted_wrt_append)
      then show ?thesis using again a by (auto simp: fires_before_def split: if_splits)
    qed
    then show ?thesis using again inv phase by (auto simp: firing_inv_def)
  qed (use inv phase in \<open>simp_all add: firing_inv_def\<close>)
qed

lemma firing_inv_advance:
  assumes inv: "firing_inv s" and timers: "timers_inv n s"
  shows "firing_inv (loop_advance s)"
proof (cases "el_phase s")
  case (Firing ts)
  then show ?thesis
  proof (cases ts)
    case Nil
    then show ?thesis using Firing inv by (simp add: firing_inv_def take_functors_def)
  next
    case (Cons t us)
    then show ?thesis using Firing firing_inv_fire [OF inv _ timers] by simp
  qed
next
  case (In_timer t ts)
  then show ?thesis using firing_inv_settle [OF inv _ timers] by simp
next
  case Handling
  then show ?thesis using inv by (auto simp: firing_inv_def collect_due_def Let_def)
next
  case (Running fs)
  then show ?thesis using inv by (cases fs) (simp_all add: firing_inv_def end_functors_def run_functor_def)
qed (use inv in \<open>simp_all add: firing_inv_def loop_start_def loop_head_def loop_sleep_def\<close>)

lemma firing_inv_step:
  assumes "firing_inv s" and timers: "timers_inv n s" and "loop_step i s = Some s1" and n: "n < 2 ^ 64 - 2"
  shows "firing_inv s1"
  using assms(3) timers_inv_ids [OF timers n]
proof (cases rule: loop_step_cases)
  case advance
  then show ?thesis using firing_inv_advance [OF assms(1) timers] by simp
next
  case quiet
  then show ?thesis using firing_inv_same assms(1) by blast
next
  case (new t)
  then show ?thesis using firing_inv_add [OF assms(1) _ _ n] timers by (simp add: timers_inv_def)
next
  case (cancel j)
  then show ?thesis
    using firing_inv_same [of "s\<lparr>el_generations := (el_generations s)(j := None)\<rparr>"] assms(1) by (simp add: no_timer_def)
qed

lemma firing_inv_run:
  assumes "loop_run is (loop_new now) = Some s" and "length is < 2 ^ 64 - 2"
  shows "firing_inv s"
  using assms
proof (induction "is" arbitrary: s rule: rev_induct)
  case Nil
  then show ?case by (auto simp: firing_inv_def loop_new_def)
next
  case (snoc i "is")
  then obtain t where t: "loop_run is (loop_new now) = Some t" "loop_step i t = Some s" by (auto simp: loop_run_snoc)
  then show ?case using snoc firing_inv_step [OF _ timers_inv_run] by simp
qed

text \<open>
  C20: A timer never fires before it is due, two calls of one timer are at least its interval apart, and each call
  uses up one of the repetitions asked for: a timer set to repeat n times is called at most n times, a one-shot
  timer at most once, however the threads interleave.\<close>

theorem timers_fire_as_asked:
  assumes "loop_run is (loop_new now) = Some s" and "length is < 2 ^ 64 - 2"
    and "el_fired s ! j = (t, a)" and "j < length (el_fired s)"
  shows "tm_when t \<le> a \<and>
    (\<forall>k u b. k < j \<and> el_fired s ! k = (u, b) \<and> tm_generation u = tm_generation t \<longrightarrow>
       tm_id u = tm_id t \<and> 0 < tm_interval t \<and> b + tm_interval t \<le> a \<and>
       (tm_repeat u = k_infinite_repeats \<or> 0 < tm_repeat t \<and> tm_repeat t < tm_repeat u))"
proof (intro conjI allI impI)
  note inv = firing_inv_run [OF assms(1,2)]
  have t: "(t, a) \<in> set (el_fired s)" using assms(3,4) nth_mem by metis
  then show "tm_when t \<le> a" using inv by (auto simp: firing_inv_def)
  fix k u b
  assume k: "k < j \<and> el_fired s ! k = (u, b) \<and> tm_generation u = tm_generation t"
  then have "fires_before (el_fired s ! k) (fst (el_fired s ! j))"
    using inv assms(4) by (intro sorted_wrt_nth_less [of "\<lambda>e e'. fires_before e (fst e')"]) (simp_all add: firing_inv_def)
  moreover have "tm_repeat t \<noteq> 0" "tm_when t \<le> a" using inv t by (auto simp: firing_inv_def)
  ultimately show "tm_id u = tm_id t" "0 < tm_interval t" "b + tm_interval t \<le> a"
    "tm_repeat u = k_infinite_repeats \<or> 0 < tm_repeat t \<and> tm_repeat t < tm_repeat u"
    using k assms(3) by (auto simp: fires_before_def word_gt_0 split: if_splits)
qed

theorem timers_fire_as_asked_witness:
  "\<exists>t u. el_fired sample_loop ! 1 = (t, 12) \<and> el_fired sample_loop ! 0 = (u, 6) \<and> tm_when t \<le> 12 \<and>
    tm_id u = tm_id t \<and> 0 < tm_interval t \<and> 6 + tm_interval t \<le> 12 \<and> tm_repeat t < tm_repeat u"
proof -
  define t u where "t = fst (el_fired sample_loop ! 1)" and "u = fst (el_fired sample_loop ! 0)"
  have "snd (el_fired sample_loop ! 1) = 12" "snd (el_fired sample_loop ! 0) = 6" "1 < length (el_fired sample_loop)"
    by code_simp+
  then have fired: "el_fired sample_loop ! 1 = (t, 12)" "el_fired sample_loop ! 0 = (u, 6)" "1 < length (el_fired sample_loop)"
    unfolding t_def u_def by (metis prod.collapse)+
  have "tm_generation u = tm_generation t" "tm_repeat u \<noteq> k_infinite_repeats" unfolding t_def u_def by code_simp+
  with timers_fire_as_asked [OF sample_loop_runs fired(1,3)] fired show ?thesis by (intro exI [of _ t] exI [of _ u]) auto
qed

subsection \<open>A cancelled timer stays silent\<close>

text \<open>Timers of the id can be called only if their generation is at least the given one.\<close>

definition silent :: "u64 \<Rightarrow> u64 \<Rightarrow> event_loop \<Rightarrow> bool" where
  "silent i g s \<longleftrightarrow> g \<le> el_next_generation s \<and> (\<forall>h. el_generations s i = Some h \<longrightarrow> g \<le> h) \<and>
     (\<forall>t\<in>set (collected (el_phase s)). tm_id t = i \<longrightarrow> g \<le> tm_generation t)"

lemma silent_same: "same_timers s s1 \<Longrightarrow> silent i g s \<Longrightarrow> silent i g s1"
  by (simp add: same_timers_def silent_def)

lemma silent_step:
  assumes "silent i g s" and timers: "timers_inv n s" and "loop_step x s = Some s1" and n: "n < 2 ^ 64 - 2"
  shows "silent i g s1 \<and> (\<exists>fired. el_fired s1 = el_fired s @ fired \<and> (\<forall>e\<in>set fired. tm_id (fst e) = i \<longrightarrow> g \<le> tm_generation (fst e)))"
  using assms(3) timers_inv_ids [OF timers n]
proof (cases rule: loop_step_cases)
  case advance
  show ?thesis
  proof (cases "el_phase s")
    case (Firing ts)
    then show ?thesis
      using assms(1) advance by (cases ts) (auto simp: silent_def take_functors_def fire_timer_def)
  next
    case (In_timer t ts)
    have "tm_repeat t \<noteq> 0" "0 \<le> tm_interval t" using timers by (simp_all add: timers_inv_def held_def In_timer)
    with In_timer show ?thesis
      by (cases rule: settle_timer_cases) (use assms(1) advance In_timer in \<open>auto simp: silent_def\<close>)
  next
    case Handling
    then show ?thesis using assms(1) advance by (auto simp: silent_def collect_due_def Let_def timer_is_current_def)
  next
    case (Running fs)
    then show ?thesis using assms(1) advance by (cases fs) (auto simp: silent_def end_functors_def run_functor_def)
  qed (use assms(1) advance in \<open>auto simp: silent_def loop_start_def loop_head_def loop_sleep_def\<close>)
next
  case quiet
  then show ?thesis using silent_same [OF quiet assms(1)] by (simp add: same_timers_def)
next
  case (new t)
  have "unat (el_next_generation s) \<le> n + 1" using timers by (simp add: timers_inv_def)
  then have "g \<le> el_next_generation s + 1"
    using assms(1) next_generation_bound(3) [OF _ n, of "el_next_generation s"] by (force simp: silent_def)
  then show ?thesis using assms(1) new by (auto simp: silent_def new_timer_def)
next
  case (cancel j)
  have "silent i g (s\<lparr>el_generations := (el_generations s)(j := None)\<rparr>)" using assms(1) by (auto simp: silent_def)
  then have "silent i g s1" using cancel by (auto simp: no_timer_def intro: silent_same)
  then show ?thesis using cancel by (simp add: no_timer_def same_timers_def)
qed

lemma silent_run:
  assumes "silent i g s" and "timers_inv n s" and "loop_run xs s = Some u" and "n + length xs < 2 ^ 64 - 2"
  shows "\<exists>fired. el_fired u = el_fired s @ fired \<and> (\<forall>e\<in>set fired. tm_id (fst e) = i \<longrightarrow> g \<le> tm_generation (fst e))"
  using assms
proof (induction xs arbitrary: s n)
  case (Cons x xs)
  then obtain s1 where s1: "loop_step x s = Some s1" "loop_run xs s1 = Some u" by (auto split: option.splits)
  have n: "n < 2 ^ 64 - 2" using Cons.prems(4) by simp
  obtain fired where fired: "silent i g s1" "el_fired s1 = el_fired s @ fired"
    "\<forall>e\<in>set fired. tm_id (fst e) = i \<longrightarrow> g \<le> tm_generation (fst e)"
    using silent_step [OF Cons.prems(1,2) s1(1) n] by blast
  obtain fired' where "el_fired u = el_fired s1 @ fired'"
    "\<forall>e\<in>set fired'. tm_id (fst e) = i \<longrightarrow> g \<le> tm_generation (fst e)"
    using Cons.IH [OF fired(1) timers_inv_step [OF Cons.prems(2) s1(1) n] s1(2)] Cons.prems(4) by auto
  then show ?case using fired by (intro exI [of _ "fired @ fired'"]) auto
qed simp

text \<open>
  C40: A cancelled timer stays silent. Once any thread has cancelled an id while the loop is not in the middle of
  the round that collected it, no timer that had the id until then is ever called again: every later call under
  that id is of a timer added after the cancellation.\<close>

theorem cancelled_timer_silent:
  assumes "loop_run is (loop_new now) = Some s" and "i \<noteq> 0" and "i \<notin> tm_id ` set (collected (el_phase s))"
    and "loop_run js (loop_cancel in_loop i s) = Some u" and "length is + length js < 2 ^ 64 - 2"
  shows "\<exists>fired. el_fired u = el_fired s @ fired \<and>
    (\<forall>t a. (t, a) \<in> set fired \<and> tm_id t = i \<longrightarrow> (\<forall>h\<in>set (held s). tm_generation h < tm_generation t))"
proof -
  define s1 where "s1 = loop_cancel in_loop i s"
  have n: "length is < 2 ^ 64 - 2" using assms(5) by simp
  note inv = timers_inv_run [OF assms(1) n]
  have cancel: "same_timers (s\<lparr>el_generations := (el_generations s)(i := None)\<rparr>) s1"
    using assms(2) by (simp add: s1_def loop_cancel_def same_timers_def)
  have "timers_inv (length is) s1" using timers_inv_forget [OF inv] timers_inv_same [OF cancel] by simp
  moreover have "silent i (el_next_generation s) s1"
    using assms(3) cancel by (force simp: silent_def same_timers_def)
  moreover have "loop_run js s1 = Some u" using assms(4) by (simp add: s1_def)
  ultimately obtain fired where "el_fired u = el_fired s1 @ fired"
    "\<forall>e\<in>set fired. tm_id (fst e) = i \<longrightarrow> el_next_generation s \<le> tm_generation (fst e)"
    using silent_run assms(5) by blast
  moreover have "\<forall>h\<in>set (held s). tm_generation h < el_next_generation s" using inv by (simp add: timers_inv_def)
  ultimately show ?thesis using cancel by (intro exI [of _ fired]) (fastforce simp: same_timers_def)
qed

theorem cancelled_timer_silent_witness:
  "\<exists>u t a. loop_run ([Wake, Other (Set_timer 5 (Some 2) 1 1)] @ round_inputs) (loop_cancel False 1 sample_loop) = Some u \<and>
    el_fired u = el_fired sample_loop @ [(t, a)] \<and> tm_id t = 1 \<and>
    list_all (\<lambda>h. tm_generation h < tm_generation t) (held sample_loop)"
proof -
  let ?js = "[Wake, Other (Set_timer 5 (Some 2) 1 1)] @ round_inputs"
  let ?u = "the (loop_run ?js (loop_cancel False 1 sample_loop))"
  have "loop_run ?js (loop_cancel False 1 sample_loop) \<noteq> None" by code_simp
  then have u: "loop_run ?js (loop_cancel False 1 sample_loop) = Some ?u" by auto
  have "collected (el_phase sample_loop) = []" "length loop_inputs + length ?js = 32" by code_simp+
  then have "1 \<notin> tm_id ` set (collected (el_phase sample_loop))" "length loop_inputs + length ?js < 2 ^ 64 - 2"
    by simp_all
  from cancelled_timer_silent [OF sample_loop_runs(1) _ this(1) u this(2)] obtain fired where
    fired: "el_fired ?u = el_fired sample_loop @ fired"
      "\<forall>t a. (t, a) \<in> set fired \<and> tm_id t = 1 \<longrightarrow> (\<forall>h\<in>set (held sample_loop). tm_generation h < tm_generation t)"
    by auto
  have "length (el_fired ?u) = Suc (length (el_fired sample_loop))" "tm_id (fst (last (el_fired ?u))) = 1" by code_simp+
  then obtain t a where "fired = [(t, a)]" "tm_id t = 1" using fired(1) by (cases fired) auto
  then show ?thesis using u fired by (intro exI [of _ ?u] exI [of _ t] exI [of _ a]) (simp add: list_all_iff)
qed

subsection \<open>The loop never oversleeps\<close>

definition alarmed :: "event_loop \<Rightarrow> bool" where
  "alarmed s \<longleftrightarrow> el_wakeup s \<or> 0 < el_waking s"

definition wakes_in_time :: "int \<Rightarrow> int \<Rightarrow> event_loop \<Rightarrow> bool" where
  "wakes_in_time at timeout s \<longleftrightarrow> 0 \<le> timeout \<and> timeout \<le> k_default_poll_timeout_ms \<and>
     (alarmed s \<or> (\<forall>t\<in>set (el_timers s). timer_is_current s t \<longrightarrow> at + timeout * 1000000 \<le> max at (tm_when t)))"

definition sleep_inv :: "event_loop \<Rightarrow> bool" where
  "sleep_inv s \<longleftrightarrow> el_calling_pending s = (\<exists>fs. el_phase s = Running fs) \<and>
     (case el_phase s of
        Idle \<Rightarrow> el_pending s = [] \<or> alarmed s
      | Head \<Rightarrow> el_pending s = [] \<or> alarmed s
      | Awake \<Rightarrow> (el_pending s = [] \<and> \<not> el_quit s) \<or> alarmed s
      | Sleeping at timeout \<Rightarrow> ((el_pending s = [] \<and> \<not> el_quit s) \<or> alarmed s) \<and> wakes_in_time at timeout s
      | Running fs \<Rightarrow> el_pending s = [] \<or> alarmed s
      | _ \<Rightarrow> True)"

lemma next_due_le:
  "next_due s ts next = Some n \<Longrightarrow>
     (\<forall>m. next = Some m \<longrightarrow> n \<le> m) \<and> (\<forall>t\<in>set ts. timer_is_current s t \<longrightarrow> n \<le> tm_when t)"
  by (induction s ts "next" rule: next_due.induct) (fastforce split: if_splits option.splits)+

lemma next_due_None: "next_due s ts next = None \<Longrightarrow> next = None \<and> (\<forall>t\<in>set ts. \<not> timer_is_current s t)"
proof (induction ts arbitrary: "next")
  case (Cons t ts)
  from Cons.IH [OF Cons.prems [unfolded next_due.simps]] show ?case
    by (cases "timer_is_current s t"; cases "next") (simp_all split: if_split_asm)
qed simp

lemma truncated_milliseconds:
  fixes d k :: int
  assumes "0 < d" "0 \<le> k"
  shows "0 \<le> min (d div 1000000) k" "min (d div 1000000) k \<le> k" "min (d div 1000000) k * 1000000 \<le> d"
proof -
  have x: "0 \<le> d div 1000000" using assms by (intro div_int_pos_iff [THEN iffD2]) simp
  then show "0 \<le> min (d div 1000000) k" "min (d div 1000000) k \<le> k" using assms by simp_all
  have "min (d div 1000000) k * 1000000 \<le> d div 1000000 * 1000000" by (rule mult_right_mono) simp_all
  also have "\<dots> = d - d mod 1000000" by (rule minus_mod_eq_div_mult [symmetric])
  also have "\<dots> \<le> d" by simp
  finally show "min (d div 1000000) k * 1000000 \<le> d" .
qed

lemma poll_timeout_in_time: "wakes_in_time (el_clock s) (poll_timeout_ms s) s"
proof (cases "next_due s (el_timers s) None")
  case None
  then show ?thesis using next_due_None [OF None] by (auto simp: wakes_in_time_def poll_timeout_ms_def k_default_poll_timeout_ms_def)
next
  case (Some n)
  have due: "n \<le> tm_when t" if "t \<in> set (el_timers s)" "timer_is_current s t" for t
    using next_due_le [OF Some] that by blast
  show ?thesis
  proof (cases "n \<le> el_clock s")
    case False
    then have d: "0 < n - el_clock s" by simp
    have k: "0 \<le> k_default_poll_timeout_ms" by (simp add: k_default_poll_timeout_ms_def)
    have "poll_timeout_ms s = min ((n - el_clock s) div 1000000) k_default_poll_timeout_ms"
      using False Some by (simp add: poll_timeout_ms_def)
    then have small: "0 \<le> poll_timeout_ms s" "poll_timeout_ms s \<le> k_default_poll_timeout_ms"
      "poll_timeout_ms s * 1000000 \<le> n - el_clock s"
      using truncated_milliseconds [OF d k] by simp_all
    have "el_clock s + poll_timeout_ms s * 1000000 \<le> max (el_clock s) (tm_when t)"
      if "t \<in> set (el_timers s)" "timer_is_current s t" for t
      using due [OF that] small(3) by (simp only: le_max_iff_disj) linarith
    then show ?thesis using small(1,2) by (simp add: wakes_in_time_def)
  qed (use Some in \<open>simp add: wakes_in_time_def poll_timeout_ms_def k_default_poll_timeout_ms_def\<close>)
qed

text \<open>A call from another thread leaves the alarm on, or nothing to be woken for.\<close>

lemma wakeup_from_alarmed [simp]: "alarmed (wakeup_from b s)"
  by (simp add: alarmed_def wakeup_from_def loop_wakeup_def)

definition loop_view :: "event_loop \<Rightarrow> nat list \<times> bool \<times> bool \<times> loop_phase \<times> timer list \<times> (u64 \<rightharpoonup> u64)" where
  "loop_view s = (el_pending s, el_quit s, el_calling_pending s, el_phase s, el_timers s, el_generations s)"

lemma sleep_inv_alarmed:
  "sleep_inv s \<Longrightarrow> alarmed s1 \<Longrightarrow> el_phase s1 = el_phase s \<Longrightarrow> el_calling_pending s1 = el_calling_pending s \<Longrightarrow> sleep_inv s1"
  by (auto simp: sleep_inv_def wakes_in_time_def split: loop_phase.splits)

lemma sleep_inv_view: "sleep_inv s \<Longrightarrow> loop_view s1 = loop_view s \<Longrightarrow> alarmed s1 = alarmed s \<Longrightarrow> sleep_inv s1"
  by (auto simp: sleep_inv_def loop_view_def wakes_in_time_def timer_is_current_def split: loop_phase.split)

lemma alarmed_update [simp]:
  "alarmed (s\<lparr>el_quit := q\<rparr>) = alarmed s" "alarmed (s\<lparr>el_pending := fs\<rparr>) = alarmed s"
  "alarmed (s\<lparr>el_ran := fs\<rparr>) = alarmed s" "alarmed (s\<lparr>el_phase := p\<rparr>) = alarmed s"
  by (simp_all add: alarmed_def)

lemma add_timer_alarm:
  assumes "add_timer in_loop due interval repeat callback timer_id s = Some (i, s1)"
  shows "s1 = s \<or> alarmed s1 \<and> el_phase s1 = el_phase s \<and> el_calling_pending s1 = el_calling_pending s"
  using assms by (auto simp: add_timer_def Let_def next_generation_def split: if_splits option.splits)

lemma loop_call_alarm:
  assumes "loop_call_step in_loop call s = Some s1" and "in_loop \<Longrightarrow> own_allowed call (el_phase s)" and "sleep_inv s"
  shows "sleep_inv s1"
proof (cases call)
  case Quit
  then show ?thesis
    using assms by (cases in_loop) (auto simp: loop_call_step_def loop_quit_def Let_def own_allowed_def sleep_inv_def
        wakes_in_time_def split: loop_phase.splits)
next
  case (Queue f)
  then show ?thesis
    using assms by (cases in_loop) (auto simp: loop_call_step_def loop_queue_in_loop_def Let_def own_allowed_def sleep_inv_def
        wakes_in_time_def split: loop_phase.splits)
next
  case (Run_in_loop f)
  then show ?thesis
    using assms by (cases in_loop) (auto simp: loop_call_step_def loop_queue_in_loop_def run_in_loop_def Let_def
        loop_view_def intro: sleep_inv_view sleep_inv_alarmed)
next
  case (Cancel i)
  then show ?thesis
    using assms(1,3) by (cases "i = 0") (auto simp: loop_call_step_def loop_cancel_def intro!: sleep_inv_alarmed [OF assms(3)])
next
  case (Run_after d f)
  then show ?thesis
    using assms add_timer_alarm [of in_loop "el_clock s + d" 0 1 "Some f" 0 s]
    by (auto simp: loop_call_step_def run_after_def intro: sleep_inv_alarmed [of s])
next
  case (Run_every d f)
  then show ?thesis
    using assms add_timer_alarm [of in_loop "el_clock s + d" d k_infinite_repeats "Some f" 0 s]
    by (auto simp: loop_call_step_def run_every_def split: if_splits intro: sleep_inv_alarmed [of s])
next
  case (Set_timer d f r i)
  then show ?thesis
    using assms add_timer_alarm [of in_loop "el_clock s + d" d r f i s]
    by (auto simp: loop_call_step_def set_timer_def split: if_splits intro: sleep_inv_alarmed [of s])
qed

lemma sleep_inv_advance:
  assumes "sleep_inv s"
  shows "sleep_inv (loop_advance s)"
proof (cases "el_phase s")
  case Awake
  have "wakes_in_time (el_clock s) (poll_timeout_ms s) (s\<lparr>el_phase := Sleeping (el_clock s) (poll_timeout_ms s)\<rparr>)"
    using poll_timeout_in_time [of s] by (simp add: wakes_in_time_def timer_is_current_def)
  then show ?thesis using Awake assms by (simp add: sleep_inv_def loop_sleep_def)
next
  case (In_timer t ts)
  have "el_phase (settle_timer t ts s) = Firing ts" "el_calling_pending (settle_timer t ts s) = el_calling_pending s"
    by (simp_all add: settle_timer_def Let_def)
  then show ?thesis using In_timer assms by (simp add: sleep_inv_def)
next
  case (Firing ts)
  then show ?thesis using assms by (cases ts) (simp_all add: sleep_inv_def take_functors_def fire_timer_def)
next
  case (Running fs)
  then show ?thesis
    using assms by (cases fs) (auto simp: sleep_inv_def end_functors_def run_functor_def alarmed_def)
qed (use assms in \<open>auto simp: sleep_inv_def loop_start_def loop_head_def collect_due_def alarmed_def Let_def\<close>)

lemma sleep_inv_step:
  assumes "sleep_inv s" and "loop_step i s = Some s1"
  shows "sleep_inv s1"
proof (cases i)
  case (Tick d)
  then show ?thesis
    using assms by (auto simp: loop_step_def loop_view_def alarmed_def split: if_splits intro: sleep_inv_view)
next
  case Advance
  then show ?thesis using assms sleep_inv_advance by (auto simp: loop_step_def simp del: loop_advance.simps)
next
  case Drain
  then show ?thesis using assms by (auto simp: loop_step_def sleep_inv_def handle_wakeup_def split: if_splits)
next
  case Wake
  then have "s1 = loop_wakeup (s\<lparr>el_waking := el_waking s - 1\<rparr>)"
    using assms by (simp add: loop_step_def split: if_splits)
  then show ?thesis by (intro sleep_inv_alarmed [OF assms(1)]) (simp_all add: loop_wakeup_def alarmed_def)
next
  case (Own call)
  then show ?thesis using assms loop_call_alarm by (auto simp: loop_step_def split: if_splits)
next
  case (Other call)
  then show ?thesis using assms loop_call_alarm by (auto simp: loop_step_def)
qed

lemma sleep_inv_run: "loop_run is (loop_new now) = Some s \<Longrightarrow> sleep_inv s"
proof (induction "is" arbitrary: s rule: rev_induct)
  case Nil
  then show ?case by (auto simp: sleep_inv_def loop_new_def)
next
  case (snoc i "is")
  then show ?case using sleep_inv_step by (auto simp: loop_run_snoc)
qed



subsection \<open>What the loop gets wrong\<close>

text \<open>A timer cancelled by an earlier callback of its round is called all the same.\<close>

lemma cancelled_in_round_fires:
  "map_option (\<lambda>s. map (tm_id \<circ> fst) (el_fired s))
     (loop_run [Own (Run_after 5 1), Own (Run_after 5 2), Tick 9, Advance, Advance, Advance, Advance, Advance, Advance,
        Own (Cancel 2), Advance, Advance] (loop_new 0)) = Some [1, 2]"
  by code_simp

text \<open>A quit that comes before \<open>loop()\<close> is lost: the loop goes to sleep.\<close>

lemma quit_before_loop_is_lost:
  "map_option (\<lambda>s. (el_quit s, el_phase s)) (loop_run [Other Quit, Wake, Advance, Advance, Advance] (loop_new 0)) =
     Some (False, Sleeping 0 10000)"
  by code_simp

text \<open>A functor the owner queues before \<open>loop()\<close> waits for the first event, up to ten seconds.\<close>

lemma queued_before_loop_sleeps:
  "(\<lambda>s. (el_wakeup s, el_pending s, el_phase s)) ((loop_advance ^^ 3) (loop_queue_in_loop True 7 (loop_new 0))) =
     (False, [7], Sleeping 0 10000)"
  by code_simp

text \<open>A timer of interval zero is called once, whatever repetitions were asked for.\<close>

lemma zero_interval_fires_once:
  "map_option (\<lambda>s. (length (el_fired s), el_timers s, el_generations s 1))
     (loop_run (Own (Set_timer 0 (Some 1) k_infinite_repeats 0) # replicate 30 Advance) (loop_new 0)) = Some (1, [], None)"
  by code_simp

end
