(* ===== verification/Socks5.thy ===== *)
theory Socks5
  imports Prelude
begin

text \<open>
  The SOCKS5 proxy (src/examples/socks5_protocol.h, src/examples/socks5_proxy_server.cpp): the messages of
  RFC 1928 and RFC 1929, the options of the command line, and one proxy session with its two connections.

  Bytes are strings. Name resolution and \<open>inet_ntop\<close> are functions of the model. A session is driven by the
  events of its connections, timers and queued clean-up; of a connection it keeps what was sent on it and
  whether it is connected. A timer is whether it is armed.
\<close>

unbundle bit_operations_syntax

subsection \<open>Messages\<close>

definition k_socks_version :: u8 where
  "k_socks_version = 5"

definition k_auth_version :: u8 where
  "k_auth_version = 1"

datatype auth_method = No_auth | Username_password | No_acceptable_methods

fun auth_method_value :: "auth_method \<Rightarrow> u8" where
  "auth_method_value No_auth = 0"
| "auth_method_value Username_password = 2"
| "auth_method_value No_acceptable_methods = 0xFF"

datatype reply_code = Reply_success | Reply_general_failure | Reply_command_not_supported
  | Reply_addr_type_not_supported

fun reply_code_value :: "reply_code \<Rightarrow> u8" where
  "reply_code_value Reply_success = 0"
| "reply_code_value Reply_general_failure = 1"
| "reply_code_value Reply_command_not_supported = 7"
| "reply_code_value Reply_addr_type_not_supported = 8"

datatype socks_status = Need_more | Parsed | Refused

datatype address_type = Addr_ipv4 | Addr_domain | Addr_ipv6

fun address_type_value :: "address_type \<Rightarrow> u8" where
  "address_type_value Addr_ipv4 = 1"
| "address_type_value Addr_domain = 3"
| "address_type_value Addr_ipv6 = 4"

record auth_config =
  ac_username :: string
  ac_password :: string

definition auth_enabled :: "auth_config \<Rightarrow> bool" where
  "auth_enabled auth \<longleftrightarrow> ac_username auth \<noteq> [] \<or> ac_password auth \<noteq> []"

record auth_parse_result =
  ap_status :: socks_status
  ap_ok :: bool
  ap_consumed :: nat

definition auth_need_more :: auth_parse_result where
  "auth_need_more = \<lparr>ap_status = Need_more, ap_ok = False, ap_consumed = 0\<rparr>"

record target_address =
  ta_type :: address_type
  ta_host :: string
  ta_port :: u16

definition target_new :: target_address where
  "target_new = \<lparr>ta_type = Addr_ipv4, ta_host = [], ta_port = 0\<rparr>"

record request_parse_result =
  rp_status :: socks_status
  rp_reply :: reply_code
  rp_target :: target_address
  rp_consumed :: nat

definition request_need_more :: request_parse_result where
  "request_need_more = \<lparr>rp_status = Need_more, rp_reply = Reply_success, rp_target = target_new, rp_consumed = 0\<rparr>"

definition request_refused :: "reply_code \<Rightarrow> nat \<Rightarrow> request_parse_result" where
  "request_refused reply n = \<lparr>rp_status = Refused, rp_reply = reply, rp_target = target_new, rp_consumed = n\<rparr>"

definition request_parsed :: "address_type \<Rightarrow> string \<Rightarrow> u16 \<Rightarrow> nat \<Rightarrow> request_parse_result" where
  "request_parsed ty host port n =
     \<lparr>rp_status = Parsed, rp_reply = Reply_success, rp_target = \<lparr>ta_type = ty, ta_host = host, ta_port = port\<rparr>,
      rp_consumed = n\<rparr>"

definition contains_method :: "string \<Rightarrow> auth_method \<Rightarrow> bool" where
  "contains_method methods m \<longleftrightarrow> char_of_u8 (auth_method_value m) \<in> set methods"

definition choose_auth_method :: "string \<Rightarrow> auth_config \<Rightarrow> auth_method" where
  "choose_auth_method methods auth =
     (if auth_enabled auth
      then (if contains_method methods Username_password then Username_password else No_acceptable_methods)
      else if contains_method methods No_auth then No_auth else No_acceptable_methods)"

definition build_method_selection :: "auth_method \<Rightarrow> u8 list" where
  "build_method_selection m = [k_socks_version, auth_method_value m]"

definition build_auth_status :: "bool \<Rightarrow> u8 list" where
  "build_auth_status ok = [k_auth_version, if ok then 0 else 1]"

definition append_port :: "u8 list \<Rightarrow> u16 \<Rightarrow> u8 list" where
  "append_port output port = output @ [ucast (drop_bit 8 port AND 0xFF), ucast (port AND 0xFF)]"

text \<open>A bound address: its four or sixteen bytes in network order, and the port.\<close>

datatype inet_address = Inet4 "u8 list" u16 | Inet6 "u8 list" u16

definition build_ipv4_reply :: "reply_code \<Rightarrow> u8 list \<Rightarrow> u16 \<Rightarrow> u8 list" where
  "build_ipv4_reply reply address port =
     append_port ([k_socks_version, reply_code_value reply, 0, address_type_value Addr_ipv4] @ address) port"

definition build_ipv6_reply :: "reply_code \<Rightarrow> u8 list \<Rightarrow> u16 \<Rightarrow> u8 list" where
  "build_ipv6_reply reply address port =
     append_port ([k_socks_version, reply_code_value reply, 0, address_type_value Addr_ipv6] @ address) port"

definition build_reply :: "reply_code \<Rightarrow> u8 list" where
  "build_reply reply = build_ipv4_reply reply [0, 0, 0, 0] 0"

fun build_bound_reply :: "reply_code \<Rightarrow> inet_address \<Rightarrow> u8 list" where
  "build_bound_reply reply (Inet6 address port) = build_ipv6_reply reply address port"
| "build_bound_reply reply (Inet4 address port) = build_ipv4_reply reply address port"

text \<open>The byte at a position, as a number.\<close>

abbreviation byte_at :: "string \<Rightarrow> nat \<Rightarrow> u8" where
  "byte_at data i \<equiv> u8_of_char (data ! i)"

definition parse_user_password_auth :: "string \<Rightarrow> auth_config \<Rightarrow> auth_parse_result" where
  "parse_user_password_auth data auth =
     (if length data < 2 then auth_need_more
      else
        let version = byte_at data 0; username_len = unat (byte_at data 1)
        in if version \<noteq> k_auth_version then \<lparr>ap_status = Refused, ap_ok = False, ap_consumed = 2\<rparr>
           else
             let password_len_index = 2 + username_len
             in if length data \<le> password_len_index then auth_need_more
                else
                  let password_len = unat (byte_at data password_len_index);
                      total = password_len_index + 1 + password_len
                  in if length data < total then auth_need_more
                     else
                       let username = take username_len (drop 2 data);
                           password = take password_len (drop (password_len_index + 1) data)
                       in \<lparr>ap_status = Parsed, ap_ok = (username = ac_username auth \<and> password = ac_password auth),
                           ap_consumed = total\<rparr>)"

definition read_port :: "string \<Rightarrow> nat \<Rightarrow> u16" where
  "read_port data offset = push_bit 8 (ucast (byte_at data offset)) OR ucast (byte_at data (offset + 1))"

definition dotted :: "string \<Rightarrow> nat \<Rightarrow> string" where
  "dotted data offset =
     to_chars 10 (byte (data ! offset)) @ ''.'' @ to_chars 10 (byte (data ! (offset + 1))) @ ''.'' @
     to_chars 10 (byte (data ! (offset + 2))) @ ''.'' @ to_chars 10 (byte (data ! (offset + 3)))"

definition parse_connect_request :: "(string \<Rightarrow> string option) \<Rightarrow> string \<Rightarrow> request_parse_result" where
  "parse_connect_request ntop6 data =
     (if length data < 4 then request_need_more
      else
        let version = byte_at data 0; command = byte_at data 1; reserved = byte_at data 2; ty = byte_at data 3
        in if version \<noteq> k_socks_version then request_refused Reply_general_failure 1
           else if command \<noteq> 1 then request_refused Reply_command_not_supported 2
           else if reserved \<noteq> 0 then request_refused Reply_general_failure 3
           else if ty = address_type_value Addr_ipv4 then
             (if length data < 10 then request_need_more
              else request_parsed Addr_ipv4 (dotted data 4) (read_port data 8) 10)
           else if ty = address_type_value Addr_domain then
             (if length data < 5 then request_need_more
              else
                let domain_len = unat (byte_at data 4); total = 5 + domain_len + 2
                in if domain_len = 0 then request_refused Reply_general_failure 5
                   else if length data < total then request_need_more
                   else request_parsed Addr_domain (take domain_len (drop 5 data)) (read_port data (5 + domain_len)) total)
           else if ty = address_type_value Addr_ipv6 then
             (if length data < 22 then request_need_more
              else case ntop6 (take 16 (drop 4 data)) of
                     None \<Rightarrow> request_refused Reply_general_failure 4
                   | Some host \<Rightarrow> request_parsed Addr_ipv6 host (read_port data 20) 22)
           else request_refused Reply_addr_type_not_supported 4)"

subsection \<open>Options\<close>

datatype listen_mode = Listen_ipv4 | Listen_ipv6 | Listen_dual_stack

record socks_options =
  so_port :: u16
  so_io_threads :: nat
  so_listen_mode :: listen_mode
  so_auth :: auth_config
  so_connect_timeout :: nat
  so_handshake_timeout :: nat
  so_idle_timeout :: nat
  so_tls :: bool
  so_cert_file :: string
  so_key_file :: string

definition default_socks_options :: socks_options where
  "default_socks_options =
     \<lparr>so_port = 1080, so_io_threads = 0, so_listen_mode = Listen_ipv4, so_auth = \<lparr>ac_username = [], ac_password = []\<rparr>,
      so_connect_timeout = 10000, so_handshake_timeout = 15000, so_idle_timeout = 0, so_tls = False, so_cert_file = [],
      so_key_file = []\<rparr>"

definition argument_starts_with :: "string \<Rightarrow> string \<Rightarrow> bool" where
  "argument_starts_with value prefix \<longleftrightarrow> length prefix \<le> length value \<and> take (length prefix) value = prefix"

text \<open>A number of the given width that makes up the whole text.\<close>

definition whole_number :: "nat \<Rightarrow> string \<Rightarrow> nat option" where
  "whole_number w value =
     (if value = [] then None
      else case from_chars_unsigned w 10 value of
             None \<Rightarrow> None
           | Some (parsed, used) \<Rightarrow> if used \<noteq> length value then None else Some parsed)"

definition socks_parse_port :: "string \<Rightarrow> u16 option" where
  "socks_parse_port value =
     (case whole_number 32 value of
        None \<Rightarrow> None
      | Some parsed \<Rightarrow> if parsed = 0 \<or> 65535 < parsed then None else Some (of_nat parsed))"

definition parse_threads :: "string \<Rightarrow> nat option" where
  "parse_threads value =
     (case whole_number 32 value of None \<Rightarrow> None | Some parsed \<Rightarrow> if 2 ^ 31 - 1 < parsed then None else Some parsed)"

definition parse_milliseconds :: "bool \<Rightarrow> string \<Rightarrow> nat option" where
  "parse_milliseconds allow_zero value =
     (case whole_number 64 value of
        None \<Rightarrow> None
      | Some parsed \<Rightarrow> if (\<not> allow_zero \<and> parsed = 0) \<or> 2 ^ 63 - 1 < parsed then None else Some parsed)"

text \<open>The arguments behind the program's name: the options and the positional ones.\<close>

function parse_arguments :: "string list \<Rightarrow> socks_options \<Rightarrow> string list \<Rightarrow> (socks_options \<times> string list) option" where
  "parse_arguments args o1 positional =
     (case args of
        [] \<Rightarrow> Some (o1, positional)
      | arg # rest \<Rightarrow>
          let number = (\<lambda>parse store.
                case rest of
                  [] \<Rightarrow> None
                | v # rest1 \<Rightarrow> (case parse v of None \<Rightarrow> None | Some n \<Rightarrow> parse_arguments rest1 (store n) positional))
          in if arg = ''--threads'' then number parse_threads (\<lambda>n. o1\<lparr>so_io_threads := n\<rparr>)
             else if arg = ''--ipv6'' then
               (if so_listen_mode o1 = Listen_dual_stack then None
                else parse_arguments rest (o1\<lparr>so_listen_mode := Listen_ipv6\<rparr>) positional)
             else if arg = ''--dual-stack'' then
               (if so_listen_mode o1 = Listen_ipv6 then None
                else parse_arguments rest (o1\<lparr>so_listen_mode := Listen_dual_stack\<rparr>) positional)
             else if arg = ''--connect-timeout-ms'' then
               number (parse_milliseconds False) (\<lambda>n. o1\<lparr>so_connect_timeout := n\<rparr>)
             else if arg = ''--handshake-timeout-ms'' then
               number (parse_milliseconds False) (\<lambda>n. o1\<lparr>so_handshake_timeout := n\<rparr>)
             else if arg = ''--idle-timeout-ms'' then
               number (parse_milliseconds True) (\<lambda>n. o1\<lparr>so_idle_timeout := n\<rparr>)
             else if arg = ''--tls'' then
               (case rest of
                  cert # key # rest1 \<Rightarrow>
                    if argument_starts_with cert ''--'' \<or> argument_starts_with key ''--'' then None
                    else parse_arguments rest1 (o1\<lparr>so_tls := True, so_cert_file := cert, so_key_file := key\<rparr>) positional
                | _ \<Rightarrow> None)
             else if argument_starts_with arg ''--'' then None
             else if 3 < length (positional @ [arg]) then None
             else parse_arguments rest o1 (positional @ [arg]))"
  by pat_completeness auto
termination
  by (relation "measure (\<lambda>(args, o1, positional). length args)") auto

declare parse_arguments.simps [simp del]

definition parse_options :: "string list \<Rightarrow> socks_options option" where
  "parse_options args =
     (case parse_arguments args default_socks_options [] of
        None \<Rightarrow> None
      | Some (o1, positional) \<Rightarrow>
          (case positional of
             [p] \<Rightarrow> map_option (\<lambda>n. o1\<lparr>so_port := n\<rparr>) (socks_parse_port p)
           | [user, password] \<Rightarrow> Some (o1\<lparr>so_auth := \<lparr>ac_username = user, ac_password = password\<rparr>\<rparr>)
           | [p, user, password] \<Rightarrow>
               map_option (\<lambda>n. o1\<lparr>so_port := n, so_auth := \<lparr>ac_username = user, ac_password = password\<rparr>\<rparr>)
                 (socks_parse_port p)
           | _ \<Rightarrow> Some o1))"

end
