(* ===== verification/Socks5_Session.thy ===== *)
theory Socks5_Session
  imports Socks5
begin

text \<open>
  \<open>Socks5ProxySession\<close> (src/examples/socks5_proxy_server.cpp): the handshake with the client, the connection
  to the target and the relay between the two, with the timers and the queued clean-up.
\<close>

subsection \<open>State\<close>

datatype socks_phase = Greeting | User_password | Request | Connecting | Relay | Closed

record socks_config =
  sk_auth :: auth_config
  sk_connect_timeout :: int
  sk_handshake_timeout :: int
  sk_idle_timeout :: int
  sk_resolve :: "string \<Rightarrow> u16 \<Rightarrow> inet_address list"
  sk_ntop6 :: "string \<Rightarrow> string option"

text \<open>
  Of the client's connection (\<open>downstream_\<close>): the unread input, whether it is connected, shut down, forced
  closed, paused, and gone; of the target's: whether the session holds it (\<open>upstream_\<close>), whether it lives and
  whether it is connected. \<open>sx_client\<close> is the addresses of \<open>client_\<close>, \<open>sx_cleanup_queued\<close> the clean-up
  functor in the loop's queue, and \<open>sx_target\<close> the target of the request.
\<close>

record socks_session =
  sx_phase :: socks_phase
  sx_buffer :: string
  sx_connected :: bool
  sx_shutdown :: bool
  sx_forced :: bool
  sx_gone :: bool
  sx_paused :: bool
  sx_out :: "string list"
  sx_client :: "inet_address list option"
  sx_upstream :: bool
  sx_up_live :: bool
  sx_up_connected :: bool
  sx_up_out :: "string list"
  sx_preserved :: string
  sx_target :: "target_address option"
  sx_connect_timer :: bool
  sx_handshake_timer :: bool
  sx_idle_timer :: bool
  sx_self_hold :: bool
  sx_cleanup_scheduled :: bool
  sx_cleanup_queued :: bool

definition socks_new :: socks_session where
  "socks_new =
     \<lparr>sx_phase = Greeting, sx_buffer = [], sx_connected = True, sx_shutdown = False, sx_forced = False, sx_gone = False,
      sx_paused = False, sx_out = [], sx_client = None, sx_upstream = False, sx_up_live = False, sx_up_connected = False,
      sx_up_out = [], sx_preserved = [], sx_target = None, sx_connect_timer = False, sx_handshake_timer = False,
      sx_idle_timer = False, sx_self_hold = False, sx_cleanup_scheduled = False, sx_cleanup_queued = False\<rparr>"

definition socks_start :: "socks_config \<Rightarrow> socks_session \<Rightarrow> socks_session" where
  "socks_start cfg s = (if sk_handshake_timeout cfg \<le> 0 then s else s\<lparr>sx_handshake_timer := True\<rparr>)"

subsection \<open>The two connections\<close>

definition bytes_to_string :: "u8 list \<Rightarrow> string" where
  "bytes_to_string bytes = map char_of_u8 bytes"

definition send_bytes :: "u8 list \<Rightarrow> socks_session \<Rightarrow> socks_session" where
  "send_bytes bytes s = (if sx_connected s then s\<lparr>sx_out := sx_out s @ [bytes_to_string bytes]\<rparr> else s)"

definition cancel_timers :: "socks_session \<Rightarrow> socks_session" where
  "cancel_timers s = s\<lparr>sx_connect_timer := False, sx_handshake_timer := False, sx_idle_timer := False\<rparr>"

definition shutdown_downstream :: "socks_session \<Rightarrow> socks_session" where
  "shutdown_downstream s0 =
     (let s = cancel_timers s0 in if sx_connected s then s\<lparr>sx_connected := False, sx_shutdown := True\<rparr> else s)"

definition close_downstream_now :: "socks_session \<Rightarrow> socks_session" where
  "close_downstream_now s0 =
     (let s = cancel_timers s0 in if sx_connected s then s\<lparr>sx_connected := False, sx_forced := True\<rparr> else s)"

definition send_method_and_shutdown :: "auth_method \<Rightarrow> socks_session \<Rightarrow> socks_session" where
  "send_method_and_shutdown m s =
     (shutdown_downstream (send_bytes (build_method_selection m) s))\<lparr>sx_phase := Closed\<rparr>"

definition send_reply_and_shutdown :: "reply_code \<Rightarrow> socks_session \<Rightarrow> socks_session" where
  "send_reply_and_shutdown reply s = (shutdown_downstream (send_bytes (build_reply reply) s))\<lparr>sx_phase := Closed\<rparr>"

definition schedule_upstream_cleanup :: "socks_session \<Rightarrow> socks_session" where
  "schedule_upstream_cleanup s =
     (if sx_cleanup_scheduled s then s else s\<lparr>sx_cleanup_scheduled := True, sx_cleanup_queued := True\<rparr>)"

definition run_cleanup :: "socks_session \<Rightarrow> socks_session" where
  "run_cleanup s = s\<lparr>sx_cleanup_queued := False, sx_upstream := False, sx_client := None, sx_self_hold := False\<rparr>"

definition reset_idle_timer :: "socks_config \<Rightarrow> socks_session \<Rightarrow> socks_session" where
  "reset_idle_timer cfg s =
     (if sk_idle_timeout cfg \<le> 0 \<or> sx_phase s \<noteq> Relay then s else s\<lparr>sx_idle_timer := True\<rparr>)"

definition socks_close :: "socks_session \<Rightarrow> socks_session" where
  "socks_close s0 =
     (if sx_phase s0 = Closed then s0
      else
        let s = cancel_timers (s0\<lparr>sx_phase := Closed\<rparr>)
        in if sx_upstream s then schedule_upstream_cleanup (s\<lparr>sx_up_connected := False\<rparr>)
           else s\<lparr>sx_client := None, sx_self_hold := False\<rparr>)"

subsection \<open>The handshake\<close>

definition handle_greeting :: "socks_config \<Rightarrow> socks_session \<Rightarrow> socks_session" where
  "handle_greeting cfg s =
     (let data = sx_buffer s in
      if length data < 2 then s
      else
        let version = byte_at data 0; method_count = unat (byte_at data 1)
        in if version \<noteq> k_socks_version \<or> method_count = 0
           then (send_method_and_shutdown No_acceptable_methods s)\<lparr>sx_buffer := []\<rparr>
           else
             let total = 2 + method_count
             in if length data < total then s
                else
                  let m = choose_auth_method (take method_count (drop 2 data)) (sk_auth cfg);
                      s1 = send_bytes (build_method_selection m) (s\<lparr>sx_buffer := drop total data\<rparr>)
                  in if m = No_acceptable_methods then (shutdown_downstream s1)\<lparr>sx_phase := Closed\<rparr>
                     else s1\<lparr>sx_phase := (if m = Username_password then User_password else Request)\<rparr>)"

definition handle_user_password :: "socks_config \<Rightarrow> socks_session \<Rightarrow> socks_session" where
  "handle_user_password cfg s =
     (let result = parse_user_password_auth (sx_buffer s) (sk_auth cfg) in
      if ap_status result = Need_more then s
      else
        let s1 = send_bytes (build_auth_status (ap_ok result)) (s\<lparr>sx_buffer := drop (ap_consumed result) (sx_buffer s)\<rparr>)
        in if ap_status result \<noteq> Parsed \<or> \<not> ap_ok result then (shutdown_downstream s1)\<lparr>sx_phase := Closed\<rparr>
           else s1\<lparr>sx_phase := Request\<rparr>)"

text \<open>\<open>client_->connect()\<close> starts the connection; how it ends is an event.\<close>

definition connect_upstream :: "target_address \<Rightarrow> inet_address list \<Rightarrow> socks_session \<Rightarrow> socks_session" where
  "connect_upstream target targets s =
     s\<lparr>sx_self_hold := True, sx_client := Some targets, sx_connect_timer := True, sx_target := Some target\<rparr>"

definition handle_connect_request :: "socks_config \<Rightarrow> socks_session \<Rightarrow> socks_session" where
  "handle_connect_request cfg s =
     (let result = parse_connect_request (sk_ntop6 cfg) (sx_buffer s) in
      if rp_status result = Need_more then s
      else
        let s1 = s\<lparr>sx_buffer := drop (rp_consumed result) (sx_buffer s)\<rparr>
        in if rp_status result \<noteq> Parsed then send_reply_and_shutdown (rp_reply result) s1
           else
             let target = rp_target result; targets = sk_resolve cfg (ta_host target) (ta_port target)
             in if targets = [] then send_reply_and_shutdown Reply_general_failure s1
                else connect_upstream target targets
                       (s1\<lparr>sx_preserved := sx_buffer s1, sx_buffer := [], sx_paused := True, sx_phase := Connecting,
                          sx_handshake_timer := False\<rparr>))"

definition handle_phase :: "socks_config \<Rightarrow> socks_session \<Rightarrow> socks_session" where
  "handle_phase cfg s =
     (case sx_phase s of
        Greeting \<Rightarrow> handle_greeting cfg s
      | User_password \<Rightarrow> handle_user_password cfg s
      | Request \<Rightarrow> handle_connect_request cfg s
      | _ \<Rightarrow> s)"

text \<open>The loop over the handshake's messages; each turn moves to a later phase or leaves the loop.\<close>

fun phase_rank :: "socks_phase \<Rightarrow> nat" where
  "phase_rank Greeting = 3"
| "phase_rank User_password = 2"
| "phase_rank Request = 1"
| "phase_rank p = 0"

lemma sends_keep_phase [simp]:
  "sx_phase (send_bytes bytes s) = sx_phase s" "sx_phase (cancel_timers s) = sx_phase s"
  "sx_phase (shutdown_downstream s) = sx_phase s" "sx_phase (close_downstream_now s) = sx_phase s"
  "sx_phase (schedule_upstream_cleanup s) = sx_phase s" "sx_phase (reset_idle_timer cfg s) = sx_phase s"
  "sx_phase (connect_upstream target targets s) = sx_phase s"
  by (simp_all add: send_bytes_def cancel_timers_def shutdown_downstream_def close_downstream_now_def Let_def
      schedule_upstream_cleanup_def reset_idle_timer_def connect_upstream_def)

lemma handle_phase_progress:
  "handle_phase cfg s = s \<or> phase_rank (sx_phase (handle_phase cfg s)) < phase_rank (sx_phase s)"
  by (cases "sx_phase s")
    (auto simp: handle_phase_def handle_greeting_def handle_user_password_def handle_connect_request_def Let_def
      send_method_and_shutdown_def send_reply_and_shutdown_def)

function socks_loop :: "socks_config \<Rightarrow> socks_session \<Rightarrow> socks_session" where
  "socks_loop cfg s =
     (if sx_phase s \<in> {Closed, Connecting, Relay} \<or> sx_buffer s = [] then s
      else
        let s1 = handle_phase cfg s
        in if sx_phase s1 = sx_phase s \<and> length (sx_buffer s1) = length (sx_buffer s) then s1 else socks_loop cfg s1)"
  by pat_completeness auto
termination
proof (relation "measure (\<lambda>(cfg, s). phase_rank (sx_phase s))")
  fix cfg s s1
  assume "s1 = handle_phase cfg s" and "\<not> (sx_phase s1 = sx_phase s \<and> length (sx_buffer s1) = length (sx_buffer s))"
  then show "((cfg, s1), (cfg, s)) \<in> measure (\<lambda>(cfg, s). phase_rank (sx_phase s))"
    using handle_phase_progress [of cfg s] by auto
qed simp

declare socks_loop.simps [simp del]

subsection \<open>Events\<close>

definition relay_downstream :: "socks_config \<Rightarrow> socks_session \<Rightarrow> socks_session" where
  "relay_downstream cfg s =
     (if \<not> sx_upstream s \<or> \<not> sx_up_connected s then (close_downstream_now (s\<lparr>sx_buffer := []\<rparr>))\<lparr>sx_phase := Closed\<rparr>
      else reset_idle_timer cfg (s\<lparr>sx_up_out := sx_up_out s @ [sx_buffer s], sx_buffer := []\<rparr>))"

definition on_downstream_message :: "socks_config \<Rightarrow> socks_session \<Rightarrow> socks_session" where
  "on_downstream_message cfg s =
     (if sx_phase s = Closed then s\<lparr>sx_buffer := []\<rparr>
      else if sx_phase s = Relay then relay_downstream cfg s
      else socks_loop cfg s)"

definition on_upstream_connected :: "socks_config \<Rightarrow> inet_address \<Rightarrow> socks_session \<Rightarrow> socks_session" where
  "on_upstream_connected cfg local s0 =
     (let s = s0\<lparr>sx_up_live := True, sx_up_connected := True\<rparr> in
      if sx_phase s \<noteq> Connecting then s\<lparr>sx_up_connected := False\<rparr>
      else
        let s1 = s\<lparr>sx_connect_timer := False, sx_handshake_timer := False, sx_upstream := True, sx_phase := Relay\<rparr>;
            s2 = send_bytes (build_bound_reply Reply_success local) s1;
            s3 = (if sx_preserved s2 \<noteq> []
                  then s2\<lparr>sx_up_out := sx_up_out s2 @ [sx_preserved s2], sx_preserved := []\<rparr> else s2)
        in reset_idle_timer cfg (s3\<lparr>sx_paused := False\<rparr>))"

definition on_upstream_disconnected :: "socks_session \<Rightarrow> socks_session" where
  "on_upstream_disconnected s0 =
     (let s = s0\<lparr>sx_up_live := False, sx_up_connected := False\<rparr> in
      if sx_phase s = Closed then schedule_upstream_cleanup s
      else if sx_phase s = Connecting then schedule_upstream_cleanup (send_reply_and_shutdown Reply_general_failure s)
      else schedule_upstream_cleanup ((close_downstream_now s)\<lparr>sx_phase := Closed\<rparr>))"

definition on_upstream_message :: "socks_config \<Rightarrow> string \<Rightarrow> socks_session \<Rightarrow> socks_session" where
  "on_upstream_message cfg bytes s =
     (if sx_phase s \<noteq> Relay \<or> \<not> sx_connected s then socks_close s
      else reset_idle_timer cfg (s\<lparr>sx_out := sx_out s @ [bytes]\<rparr>))"

definition on_handshake_timeout :: "socks_session \<Rightarrow> socks_session" where
  "on_handshake_timeout s =
     (if sx_phase s \<in> {Connecting, Relay, Closed} then s
      else
        let s1 = (if sx_phase s \<in> {Greeting, User_password} then (close_downstream_now s)\<lparr>sx_phase := Closed\<rparr>
                  else send_reply_and_shutdown Reply_general_failure s)
        in s1\<lparr>sx_self_hold := False\<rparr>)"

definition on_upstream_connect_failed :: "socks_session \<Rightarrow> socks_session" where
  "on_upstream_connect_failed s =
     (if sx_phase s \<noteq> Connecting then s
      else schedule_upstream_cleanup (send_reply_and_shutdown Reply_general_failure s))"

definition on_connect_timeout :: "socks_session \<Rightarrow> socks_session" where
  "on_connect_timeout s =
     (if sx_phase s \<noteq> Connecting then s
      else (send_reply_and_shutdown Reply_general_failure (s\<lparr>sx_client := None\<rparr>))\<lparr>sx_self_hold := False\<rparr>)"

definition on_idle_timeout :: "socks_session \<Rightarrow> socks_session" where
  "on_idle_timeout s =
     (if sx_phase s \<noteq> Relay then s
      else
        let s1 = cancel_timers (s\<lparr>sx_phase := Closed\<rparr>);
            s2 = (if sx_connected s1 then s1\<lparr>sx_connected := False, sx_forced := True\<rparr> else s1);
            s3 = (if sx_upstream s2 then s2\<lparr>sx_up_connected := False\<rparr> else s2)
        in schedule_upstream_cleanup s3)"

text \<open>
  An event happens only where it can: input while the client's connection lives and is not paused, a timer
  while it is armed, the connection of \<open>client_\<close> while there is one.\<close>

datatype socks_event = Down_data string | Down_closed | Up_connected inet_address | Up_failed | Up_data string | Up_closed
  | Handshake_timeout | Connect_timeout | Idle_timeout | Cleanup

definition socks_event_allowed :: "socks_event \<Rightarrow> socks_session \<Rightarrow> bool" where
  "socks_event_allowed e s \<longleftrightarrow>
     (case e of
        Down_data bytes \<Rightarrow> \<not> sx_gone s \<and> \<not> sx_paused s
      | Down_closed \<Rightarrow> \<not> sx_gone s
      | Up_connected local \<Rightarrow> sx_client s \<noteq> None \<and> \<not> sx_up_live s
      | Up_failed \<Rightarrow> sx_client s \<noteq> None \<and> \<not> sx_up_live s
      | Up_data bytes \<Rightarrow> sx_up_live s
      | Up_closed \<Rightarrow> sx_up_live s
      | Handshake_timeout \<Rightarrow> sx_handshake_timer s
      | Connect_timeout \<Rightarrow> sx_connect_timer s
      | Idle_timeout \<Rightarrow> sx_idle_timer s
      | Cleanup \<Rightarrow> sx_cleanup_queued s)"

definition socks_step :: "socks_config \<Rightarrow> socks_event \<Rightarrow> socks_session \<Rightarrow> socks_session" where
  "socks_step cfg e s =
     (if \<not> socks_event_allowed e s then s
      else
        (case e of
           Down_data bytes \<Rightarrow> on_downstream_message cfg (s\<lparr>sx_buffer := sx_buffer s @ bytes\<rparr>)
         | Down_closed \<Rightarrow> socks_close (s\<lparr>sx_gone := True, sx_connected := False\<rparr>)
         | Up_connected local \<Rightarrow> on_upstream_connected cfg local s
         | Up_failed \<Rightarrow> on_upstream_connect_failed s
         | Up_data bytes \<Rightarrow> on_upstream_message cfg bytes s
         | Up_closed \<Rightarrow> on_upstream_disconnected s
         | Handshake_timeout \<Rightarrow> on_handshake_timeout (s\<lparr>sx_handshake_timer := False\<rparr>)
         | Connect_timeout \<Rightarrow> on_connect_timeout (s\<lparr>sx_connect_timer := False\<rparr>)
         | Idle_timeout \<Rightarrow> on_idle_timeout (s\<lparr>sx_idle_timer := False\<rparr>)
         | Cleanup \<Rightarrow> run_cleanup s))"

definition socks_run :: "socks_config \<Rightarrow> socks_event list \<Rightarrow> socks_session" where
  "socks_run cfg es = fold (socks_step cfg) es (socks_start cfg socks_new)"

end
