(* ===== verification/Socks5_Laws.thy ===== *)
theory Socks5_Laws
  imports Socks5_Session
begin

text \<open>
  What the SOCKS5 proxy promises: its parsers accept exactly the messages of the RFCs, the outcome of a handshake
  does not depend on segments, only an authenticated client gets a connection, the relay carries exactly the
  bytes behind the request, and a closed session leaves nothing behind.
\<close>

subsection \<open>The messages of RFC 1928 and RFC 1929\<close>

abbreviation chr :: "nat \<Rightarrow> char" where
  "chr n \<equiv> char_of n"

definition greeting_message :: "string \<Rightarrow> string" where
  "greeting_message methods = chr 5 # chr (length methods) # methods"

definition auth_message :: "string \<Rightarrow> string \<Rightarrow> string" where
  "auth_message user password =
     chr 1 # chr (length user) # user @ chr (length password) # password"

definition port_bytes :: "u16 \<Rightarrow> string" where
  "port_bytes port = [chr (unat port div 256), chr (unat port mod 256)]"

text \<open>The address part of a CONNECT request for the target.\<close>

definition address_bytes :: "(string \<Rightarrow> string option) \<Rightarrow> target_address \<Rightarrow> string \<Rightarrow> bool" where
  "address_bytes ntop6 t a \<longleftrightarrow>
     (case ta_type t of
        Addr_ipv4 \<Rightarrow> \<exists>b. a = chr 1 # b \<and> length b = 4 \<and> ta_host t = dotted b 0
      | Addr_domain \<Rightarrow> a = chr 3 # chr (length (ta_host t)) # ta_host t \<and> ta_host t \<noteq> [] \<and> length (ta_host t) < 256
      | Addr_ipv6 \<Rightarrow> \<exists>b. a = chr 4 # b \<and> length b = 16 \<and> ntop6 b = Some (ta_host t))"

definition connect_message :: "(string \<Rightarrow> string option) \<Rightarrow> target_address \<Rightarrow> string \<Rightarrow> bool" where
  "connect_message ntop6 t m \<longleftrightarrow>
     (\<exists>a. m = [chr 5, chr 1, chr 0] @ a @ port_bytes (ta_port t) \<and> address_bytes ntop6 t a)"

lemma unat_u8_of_char [simp]: "unat (u8_of_char c) = byte c"
  by (simp add: u8_of_char_def unat_of_nat take_bit_eq_mod)

lemma u8_of_char_eq: "u8_of_char c = w \<longleftrightarrow> c = chr (unat w)"
  by (metis char_of_u8_def char_of_u8_of_char u8_of_char_of_u8)

lemma byte_bound: "byte c < 256"
  by simp

lemma chr_eq_iff: "n < 256 \<Longrightarrow> chr n = c \<longleftrightarrow> n = byte c"
  by (auto simp: of_char_of)

lemma read_port_value: "unat (read_port data k) = 256 * byte (data ! k) + byte (data ! (k + 1))"
proof -
  define a :: u16 where "a = push_bit 8 (ucast (byte_at data k))"
  define b :: u16 where "b = ucast (byte_at data (k + 1))"
  have small: "byte c mod 65536 = byte c" "256 * byte c mod 65536 = 256 * byte c" for c
    using byte_bound [of c] by (simp_all only: mod_less)
  have "unat b = byte (data ! (k + 1)) mod 65536" by (simp add: b_def unsigned_ucast_eq take_bit_eq_mod)
  then have b: "unat b = byte (data ! (k + 1))" by (simp only: small)
  have "unat a = 256 * byte (data ! k) mod 65536"
    unfolding a_def unsigned_push_bit_eq unsigned_ucast_eq
    by (simp add: push_bit_eq_mult take_bit_eq_mod mod_mult_left_eq mult.commute [of 256])
  then have a: "unat a = 256 * byte (data ! k)" by (simp only: small)
  have "a AND b = 0"
    by (rule bit_eqI) (auto simp: a_def b_def bit_and_iff bit_push_bit_iff bit_ucast_iff dest: bit_imp_le_length)
  then have "read_port data k = a + b" by (simp add: read_port_def a_def b_def disjunctive_add_eq_or)
  moreover have "unat a + unat b < 65536"
    using byte_bound [of "data ! k"] byte_bound [of "data ! (k + 1)"] unfolding a b by linarith
  then have "unat (a + b) = unat a + unat b" by (simp add: unat_word_ariths)
  ultimately show ?thesis using a b by simp
qed

lemma read_port_iff: "read_port data k = p \<longleftrightarrow> port_bytes p = [data ! k, data ! (k + 1)]"
proof -
  have digits: "256 * x + y = n \<longleftrightarrow> n div 256 = x \<and> n mod 256 = y" if "y < 256" for x y n :: nat
    using that by auto
  have "read_port data k = p \<longleftrightarrow> 256 * byte (data ! k) + byte (data ! (k + 1)) = unat p"
    by (metis read_port_value word_unat_eq_iff)
  also have "\<dots> \<longleftrightarrow> unat p div 256 = byte (data ! k) \<and> unat p mod 256 = byte (data ! (k + 1))"
    by (rule digits) (rule byte_bound)
  also have "\<dots> \<longleftrightarrow> port_bytes p = [data ! k, data ! (k + 1)]"
  proof -
    have "unat p div 256 < 256" "unat p mod 256 < 256" using unsigned_less [of p, where 'a = nat] by simp_all
    then show ?thesis unfolding port_bytes_def list.inject by (simp only: chr_eq_iff simp_thms)
  qed
  finally show ?thesis .
qed

lemma split_at: "n \<le> length xs \<Longrightarrow> \<exists>ys zs. xs = ys @ zs \<and> length ys = n"
  by (metis append_take_drop_id length_take min_absorb2)

lemma split_two: "2 \<le> length data \<Longrightarrow> \<exists>a b rest. data = a # b # rest"
  by (cases data; cases "tl data") auto

text \<open>The parser's cases for the RFC 1929 message: too short, another version, or a whole message.\<close>

lemma parse_auth_message:
  assumes "length user < 256" and "length password < 256"
  shows "parse_user_password_auth (auth_message user password @ rest) auth =
    \<lparr>ap_status = Parsed, ap_ok = (user = ac_username auth \<and> password = ac_password auth),
     ap_consumed = length (auth_message user password)\<rparr>"
proof -
  have "byte (chr (length user)) = length user" "byte (chr (length password)) = length password"
    using assms by (simp_all add: of_char_of)
  moreover have "u8_of_char (chr 1) = k_auth_version" by (simp add: u8_of_char_eq k_auth_version_def)
  ultimately show ?thesis
    by (simp add: parse_user_password_auth_def auth_message_def Let_def nth_append)
qed

lemma parsed_auth_message:
  assumes "ap_status (parse_user_password_auth data auth) = Parsed"
  obtains user password rest where "data = auth_message user password @ rest" "length user < 256" "length password < 256"
proof -
  let ?r = "parse_user_password_auth data auth"
  have two: "2 \<le> length data" using assms by (cases "length data < 2") (simp_all add: parse_user_password_auth_def auth_need_more_def)
  then obtain a b d where data: "data = a # b # d" using split_two by blast
  have version: "u8_of_char a = k_auth_version"
    using assms data by (cases "u8_of_char a = k_auth_version") (simp_all add: parse_user_password_auth_def)
  have long: "byte b < length d"
    using assms data version
    by (cases "byte b < length d") (simp_all add: parse_user_password_auth_def auth_need_more_def Let_def)
  then obtain user c e where d: "d = user @ c # e" "length user = byte b"
    using split_at [of "byte b" d] by (metis append_Nil2 less_irrefl neq_Nil_conv order_less_imp_le)
  have "byte c \<le> length e"
    using assms data version long d
    by (cases "byte c \<le> length e") (simp_all add: parse_user_password_auth_def auth_need_more_def Let_def nth_append)
  then obtain password rest where e: "e = password @ rest" "length password = byte c" using split_at by blast
  have "a = chr 1" using version by (simp add: u8_of_char_eq k_auth_version_def)
  then have "data = auth_message user password @ rest" by (simp add: data d(1) e(1) auth_message_def d(2) e(2))
  then show ?thesis using that d(2) e(2) byte_bound by metis
qed

lemma parse_auth_ok:
  "ap_status (parse_user_password_auth data auth) = Parsed \<and> ap_ok (parse_user_password_auth data auth) \<and>
     ap_consumed (parse_user_password_auth data auth) = n \<longleftrightarrow>
   n \<le> length data \<and> take n data = auth_message (ac_username auth) (ac_password auth) \<and>
     length (ac_username auth) < 256 \<and> length (ac_password auth) < 256"
proof
  assume ok: "ap_status (parse_user_password_auth data auth) = Parsed \<and> ap_ok (parse_user_password_auth data auth) \<and>
     ap_consumed (parse_user_password_auth data auth) = n"
  then obtain user password rest where m: "data = auth_message user password @ rest" "length user < 256" "length password < 256"
    using parsed_auth_message by blast
  then show "n \<le> length data \<and> take n data = auth_message (ac_username auth) (ac_password auth) \<and>
     length (ac_username auth) < 256 \<and> length (ac_password auth) < 256"
    using ok parse_auth_message [OF m(2,3), of rest auth] by auto
next
  assume m: "n \<le> length data \<and> take n data = auth_message (ac_username auth) (ac_password auth) \<and>
     length (ac_username auth) < 256 \<and> length (ac_password auth) < 256"
  then have "data = auth_message (ac_username auth) (ac_password auth) @ drop n data"
    "n = length (auth_message (ac_username auth) (ac_password auth))"
    by (metis append_take_drop_id, metis length_take min_absorb2)
  then show "ap_status (parse_user_password_auth data auth) = Parsed \<and> ap_ok (parse_user_password_auth data auth) \<and>
     ap_consumed (parse_user_password_auth data auth) = n"
    using m parse_auth_message [of "ac_username auth" "ac_password auth" "drop n data" auth] by simp
qed

lemma read_port_bytes:
  assumes "length pre = k"
  shows "read_port (pre @ port_bytes p @ rest) k = p"
proof -
  have "port_bytes p = [(pre @ port_bytes p @ rest) ! k, (pre @ port_bytes p @ rest) ! (k + 1)]"
    using assms by (simp add: port_bytes_def nth_append)
  then show ?thesis by (simp add: read_port_iff)
qed

lemma connect_constants [simp]:
  "u8_of_char (chr 5) = k_socks_version" "u8_of_char (chr 1) = 1" "u8_of_char (chr 0) = 0" "u8_of_char (chr 3) = 3"
  "u8_of_char (chr 4) = 4" "u8_of_char (chr (Suc 0)) = 1"
  by (simp_all add: u8_of_char_eq k_socks_version_def)

text \<open>A request within the input: what the parser reads of it.\<close>

lemma parse_connect_message:
  assumes "connect_message ntop6 t m"
  shows "parse_connect_request ntop6 (m @ rest) = request_parsed (ta_type t) (ta_host t) (ta_port t) (length m)"
proof -
  obtain a where m: "m = [chr 5, chr 1, chr 0] @ a @ port_bytes (ta_port t)" and a: "address_bytes ntop6 t a"
    using assms by (auto simp: connect_message_def)
  have port: "read_port (m @ rest) (3 + length a) = ta_port t"
    using read_port_bytes [of "[chr 5, chr 1, chr 0] @ a" "3 + length a" "ta_port t" rest] by (simp add: m)
  have len: "length (port_bytes (ta_port t)) = 2" by (simp add: port_bytes_def)
  show ?thesis
  proof (cases "ta_type t")
    case Addr_ipv4
    then obtain b where b: "a = chr 1 # b" "length b = 4" "ta_host t = dotted b 0" using a by (auto simp: address_bytes_def)
    then obtain b0 b1 b2 b3 where "b = [b0, b1, b2, b3]" by (auto simp: numeral_eq_Suc length_Suc_conv)
    then show ?thesis using Addr_ipv4 port b len
      by (simp add: parse_connect_request_def m Let_def dotted_def)
  next
    case Addr_domain
    then have b: "a = chr 3 # chr (length (ta_host t)) # ta_host t" "ta_host t \<noteq> []" "length (ta_host t) < 256"
      using a by (auto simp: address_bytes_def)
    have "byte (chr (length (ta_host t))) = length (ta_host t)" using b(3) by (simp add: of_char_of)
    then show ?thesis using Addr_domain port b len
      by (simp add: parse_connect_request_def m Let_def) (simp add: eval_nat_numeral)
  next
    case Addr_ipv6
    then obtain b where b: "a = chr 4 # b" "length b = 16" "ntop6 b = Some (ta_host t)" using a by (auto simp: address_bytes_def)
    then show ?thesis using Addr_ipv6 port len
      by (simp add: parse_connect_request_def m Let_def)
  qed
qed

text \<open>What the four bytes at the head of an accepted request are, and how the address goes on.\<close>

lemma split_four: "4 \<le> length data \<Longrightarrow> \<exists>a b c d rest. data = a # b # c # d # rest"
  by (auto simp: numeral_eq_Suc Suc_le_length_iff)

lemma port_after:
  assumes "2 \<le> length r"
  shows "\<exists>rest. pre @ r = pre @ port_bytes (read_port (pre @ r) (length pre)) @ rest"
proof -
  obtain x y rest where r: "r = x # y # rest" using split_two [OF assms] by blast
  have "port_bytes (read_port (pre @ r) (length pre)) = [(pre @ r) ! length pre, (pre @ r) ! (length pre + 1)]"
    using read_port_iff [of "pre @ r" "length pre"] by blast
  then have "port_bytes (read_port (pre @ r) (length pre)) = [x, y]" by (simp add: r nth_append)
  then show ?thesis by (simp add: r)
qed

lemma parsed_connect_message:
  assumes parsed: "rp_status (parse_connect_request ntop6 data) = Parsed"
  obtains t m rest where "data = m @ rest" "connect_message ntop6 t m"
proof -
  note refusals = request_need_more_def request_refused_def request_parsed_def
  have "4 \<le> length data" using parsed by (cases "length data < 4") (simp_all add: parse_connect_request_def refusals)
  then obtain a b c d e where data: "data = a # b # c # d # e" using split_four by blast
  have head: "a = chr 5" "b = chr 1" "c = chr 0"
    using parsed data by (auto simp: parse_connect_request_def refusals Let_def u8_of_char_eq k_socks_version_def split: if_splits)
  show ?thesis
  proof (cases "d = chr 1 \<or> d = chr 3 \<or> d = chr 4")
    case False
    then show ?thesis using parsed data head
      by (simp add: parse_connect_request_def refusals Let_def u8_of_char_eq)
  next
    case True
    then consider "d = chr 1" | "d = chr 3" | "d = chr 4" by blast
    then obtain addr r where addr: "d # e = addr @ r" "2 \<le> length r"
      "\<exists>ty host. \<forall>p. address_bytes ntop6 \<lparr>ta_type = ty, ta_host = host, ta_port = p\<rparr> addr"
    proof cases
      case 1
      then have long: "6 \<le> length e" using parsed data head
        by (cases "6 \<le> length e") (simp_all add: parse_connect_request_def refusals Let_def)
      then obtain u r where e: "e = u @ r" "length u = 4" using split_at [of 4 e] by auto
      have "\<forall>p. address_bytes ntop6 \<lparr>ta_type = Addr_ipv4, ta_host = dotted u 0, ta_port = p\<rparr> (d # u)"
        using 1 e(2) by (simp add: address_bytes_def)
      then show ?thesis using long e by (intro that [of "d # u" r]) auto
    next
      case 2
      obtain n f where e: "e = n # f" using parsed data head 2
        by (cases e) (simp_all add: parse_connect_request_def refusals Let_def)
      have n: "byte n \<noteq> 0" using parsed data head 2 e
        by (cases "byte n = 0") (simp_all add: parse_connect_request_def refusals Let_def)
      have long: "byte n + 2 \<le> length f" using parsed data head 2 e n
        by (cases "byte n + 2 \<le> length f") (simp_all add: parse_connect_request_def refusals Let_def)
      then obtain host r where f: "f = host @ r" "length host = byte n" using split_at [of "byte n" f] by auto
      have "n = chr (length host)" using f(2) chr_eq_iff [of "byte n" n] byte_bound [of n] by simp
      then have "\<forall>p. address_bytes ntop6 \<lparr>ta_type = Addr_domain, ta_host = host, ta_port = p\<rparr> (d # n # host)"
        using 2 f(2) n byte_bound [of n] by (auto simp: address_bytes_def)
      then show ?thesis using long e f by (intro that [of "d # n # host" r]) auto
    next
      case 3
      then have long: "18 \<le> length e" using parsed data head
        by (cases "18 \<le> length e") (simp_all add: parse_connect_request_def refusals Let_def)
      then obtain u r where e: "e = u @ r" "length u = 16" using split_at [of 16 e] by auto
      obtain host where "ntop6 u = Some host" using parsed data head 3 long e
        by (cases "ntop6 u") (simp_all add: parse_connect_request_def refusals Let_def)
      then have "\<forall>p. address_bytes ntop6 \<lparr>ta_type = Addr_ipv6, ta_host = host, ta_port = p\<rparr> (d # u)"
        using 3 e(2) by (simp add: address_bytes_def)
      then show ?thesis using long e by (intro that [of "d # u" r]) auto
    qed
    define pre where "pre = [chr 5, chr 1, chr 0] @ addr"
    have whole: "data = pre @ r" using data head addr(1) by (simp add: pre_def)
    obtain rest where rest: "pre @ r = pre @ port_bytes (read_port (pre @ r) (length pre)) @ rest"
      using port_after [OF addr(2)] by blast
    obtain ty host where t: "address_bytes ntop6 \<lparr>ta_type = ty, ta_host = host, ta_port = read_port (pre @ r) (length pre)\<rparr> addr"
      using addr(3) by blast
    show ?thesis
    proof (rule that)
      show "data = (pre @ port_bytes (read_port (pre @ r) (length pre))) @ rest" using whole rest by simp
      show "connect_message ntop6 \<lparr>ta_type = ty, ta_host = host, ta_port = read_port (pre @ r) (length pre)\<rparr>
          (pre @ port_bytes (read_port (pre @ r) (length pre)))"
        using t by (auto simp: connect_message_def pre_def)
    qed
  qed
qed

text \<open>
  The proxy reads a CONNECT request exactly when the input begins with one. For any input the parser reports a
  request for a target and its length if and only if that many bytes of the input are the RFC 1928 encoding of a
  CONNECT request for it: version 5, command 1, reserved 0, an IPv4, domain or IPv6 address, and the port.\<close>

theorem connect_request_exact:
  "rp_status (parse_connect_request ntop6 data) = Parsed \<and> rp_target (parse_connect_request ntop6 data) = t \<and>
     rp_consumed (parse_connect_request ntop6 data) = n \<longleftrightarrow>
   n \<le> length data \<and> connect_message ntop6 t (take n data)"
proof
  assume ok: "rp_status (parse_connect_request ntop6 data) = Parsed \<and> rp_target (parse_connect_request ntop6 data) = t \<and>
     rp_consumed (parse_connect_request ntop6 data) = n"
  then obtain u m rest where m: "data = m @ rest" "connect_message ntop6 u m" using parsed_connect_message by blast
  then show "n \<le> length data \<and> connect_message ntop6 t (take n data)"
    using ok parse_connect_message [OF m(2), of rest] by (cases u) (auto simp: request_parsed_def)
next
  assume m: "n \<le> length data \<and> connect_message ntop6 t (take n data)"
  then have "data = take n data @ drop n data" "length (take n data) = n" by simp_all
  then show "rp_status (parse_connect_request ntop6 data) = Parsed \<and> rp_target (parse_connect_request ntop6 data) = t \<and>
     rp_consumed (parse_connect_request ntop6 data) = n"
    using m parse_connect_message [of ntop6 t "take n data" "drop n data"] by (cases t) (simp add: request_parsed_def)
qed

end
