(* ===== verification/Socks5_Relay.thy ===== *)
theory Socks5_Relay
  imports Socks5_Laws
begin

text \<open>
  The proxy session over any sequence of events: who gets a connection, what the relay carries, how the
  handshake answers whatever the segments, and what a closed session leaves behind.
\<close>

subsection \<open>What the session has received\<close>

fun down_bytes :: "socks_event \<Rightarrow> socks_session \<Rightarrow> string" where
  "down_bytes (Down_data bytes) s = (if socks_event_allowed (Down_data bytes) s then bytes else [])"
| "down_bytes e s = []"

fun up_bytes :: "socks_event \<Rightarrow> socks_session \<Rightarrow> string" where
  "up_bytes (Up_data bytes) s = (if socks_event_allowed (Up_data bytes) s then bytes else [])"
| "up_bytes e s = []"

fun received :: "(socks_event \<Rightarrow> socks_session \<Rightarrow> string) \<Rightarrow> socks_config \<Rightarrow> socks_event list \<Rightarrow> socks_session \<Rightarrow> string" where
  "received f cfg [] s = []"
| "received f cfg (e # es) s = f e s @ received f cfg es (socks_step cfg e s)"

definition from_client :: "socks_config \<Rightarrow> socks_event list \<Rightarrow> string" where
  "from_client cfg es = received down_bytes cfg es (socks_start cfg socks_new)"

definition from_target :: "socks_config \<Rightarrow> socks_event list \<Rightarrow> string" where
  "from_target cfg es = received up_bytes cfg es (socks_start cfg socks_new)"

subsection \<open>The handshake as RFC 1928 and RFC 1929 have it\<close>

definition wanted_method :: "socks_config \<Rightarrow> auth_method" where
  "wanted_method cfg = (if auth_enabled (sk_auth cfg) then Username_password else No_auth)"

definition login :: "socks_config \<Rightarrow> string" where
  "login cfg = (if auth_enabled (sk_auth cfg) then auth_message (ac_username (sk_auth cfg)) (ac_password (sk_auth cfg)) else [])"

definition offers :: "socks_config \<Rightarrow> string \<Rightarrow> bool" where
  "offers cfg methods \<longleftrightarrow> length methods < 256 \<and> chr (unat (auth_method_value (wanted_method cfg))) \<in> set methods"

text \<open>The bytes of a client that offers the wanted method, logs in if it must, and asks for the target.\<close>

definition negotiated :: "socks_config \<Rightarrow> target_address \<Rightarrow> string \<Rightarrow> bool" where
  "negotiated cfg t p \<longleftrightarrow>
     (\<exists>methods c. offers cfg methods \<and> connect_message (sk_ntop6 cfg) t c \<and> p = greeting_message methods @ login cfg @ c)"

definition selection :: "socks_config \<Rightarrow> string" where
  "selection cfg = bytes_to_string (build_method_selection (wanted_method cfg))"

definition granted :: "socks_config \<Rightarrow> string" where
  "granted cfg = (if auth_enabled (sk_auth cfg) then bytes_to_string (build_auth_status True) else [])"

definition fresh :: "socks_session \<Rightarrow> bool" where
  "fresh s \<longleftrightarrow> sx_target s = None \<and> sx_client s = None \<and> sx_up_out s = []"

definition carried :: "socks_config \<Rightarrow> string \<Rightarrow> socks_session \<Rightarrow> string \<Rightarrow> bool" where
  "carried cfg r s rest \<longleftrightarrow>
     (\<exists>t p. sx_target s = Some t \<and> negotiated cfg t p \<and> r = p @ concat (sx_up_out s) @ rest \<and>
        (\<forall>targets. sx_client s = Some targets \<longrightarrow> targets = sk_resolve cfg (ta_host t) (ta_port t)))"

definition socks_inv :: "socks_config \<Rightarrow> string \<Rightarrow> string \<Rightarrow> socks_session \<Rightarrow> bool" where
  "socks_inv cfg r u s \<longleftrightarrow>
     (sx_phase s \<noteq> Closed \<longrightarrow> sx_connected s \<and> \<not> sx_cleanup_queued s) \<and> (sx_phase s \<notin> {Relay, Closed} \<longrightarrow> u = [] \<and> \<not> sx_up_live s) \<and>
     (case sx_phase s of
        Greeting \<Rightarrow> fresh s \<and> r = sx_buffer s \<and> concat (sx_out s) = []
      | User_password \<Rightarrow> fresh s \<and> auth_enabled (sk_auth cfg) \<and>
          (\<exists>methods. offers cfg methods \<and> r = greeting_message methods @ sx_buffer s) \<and> concat (sx_out s) = selection cfg
      | Request \<Rightarrow> fresh s \<and> (\<exists>methods. offers cfg methods \<and> r = greeting_message methods @ login cfg @ sx_buffer s) \<and>
          concat (sx_out s) = selection cfg @ granted cfg
      | Connecting \<Rightarrow> carried cfg r s (sx_preserved s) \<and> sx_up_out s = [] \<and> sx_buffer s = [] \<and> sx_paused s \<and>
          concat (sx_out s) = selection cfg @ granted cfg
      | Relay \<Rightarrow> carried cfg r s [] \<and> sx_buffer s = [] \<and> sx_preserved s = [] \<and> sx_upstream s \<and> sx_up_live s \<and> sx_up_connected s \<and>
          (\<exists>local. concat (sx_out s) = selection cfg @ granted cfg @
             bytes_to_string (build_bound_reply Reply_success local) @ u)
      | Closed \<Rightarrow> fresh s \<or> (\<exists>rest. carried cfg r s rest))"

text \<open>Steps into the closed phase: the client's side of the state stays what it was.\<close>

definition closing :: "socks_session \<Rightarrow> socks_session \<Rightarrow> bool" where
  "closing s s1 \<longleftrightarrow> sx_phase s1 = Closed \<and> sx_target s1 = sx_target s \<and> sx_up_out s1 = sx_up_out s \<and>
     (sx_client s1 = sx_client s \<or> sx_client s1 = None)"

lemma closing_inv:
  assumes "closing s s1" and "socks_inv cfg r u s"
  shows "socks_inv cfg (r @ x) (u @ y) s1"
proof -
  have "fresh s \<or> (\<exists>rest. carried cfg r s rest)"
    using assms(2) by (cases "sx_phase s") (auto simp: socks_inv_def)
  then have "fresh s1 \<or> (\<exists>rest. carried cfg (r @ x) s1 rest)"
  proof
    assume "fresh s"
    then show ?thesis using assms(1) by (auto simp: closing_def fresh_def)
  next
    assume "\<exists>rest. carried cfg r s rest"
    then obtain t p rest where "sx_target s = Some t" "negotiated cfg t p" "r = p @ concat (sx_up_out s) @ rest"
      "\<forall>targets. sx_client s = Some targets \<longrightarrow> targets = sk_resolve cfg (ta_host t) (ta_port t)"
      by (auto simp: carried_def)
    then have "carried cfg (r @ x) s1 (rest @ x)" using assms(1) by (auto simp: closing_def carried_def)
    then show ?thesis by blast
  qed
  then show ?thesis using assms(1) by (simp add: socks_inv_def closing_def)
qed

lemma closing_trans: "closing s t \<Longrightarrow> closing t u \<Longrightarrow> closing s u"
  by (auto simp: closing_def)

lemma sends_more [simp]:
  "sx_target (send_bytes b s) = sx_target s" "sx_up_out (send_bytes b s) = sx_up_out s" "sx_client (send_bytes b s) = sx_client s"
  "sx_buffer (send_bytes b s) = sx_buffer s" "sx_connected (send_bytes b s) = sx_connected s"
  "sx_up_live (send_bytes b s) = sx_up_live s" "sx_preserved (send_bytes b s) = sx_preserved s"
  "sx_paused (send_bytes b s) = sx_paused s" "sx_upstream (send_bytes b s) = sx_upstream s"
  "sx_up_connected (send_bytes b s) = sx_up_connected s" "sx_cleanup_queued (send_bytes b s) = sx_cleanup_queued s"
  "sx_out (send_bytes b s) = sx_out s @ (if sx_connected s then [bytes_to_string b] else [])"
  by (simp_all add: send_bytes_def)

lemmas closing_steps = shutdown_downstream_def close_downstream_now_def cancel_timers_def send_method_and_shutdown_def
  send_reply_and_shutdown_def schedule_upstream_cleanup_def Let_def

lemma closing_functions:
  "closing s (send_method_and_shutdown m s)" "closing s (send_reply_and_shutdown reply s)"
  "closing s ((shutdown_downstream s)\<lparr>sx_phase := Closed\<rparr>)" "closing s ((close_downstream_now s)\<lparr>sx_phase := Closed\<rparr>)"
  "closing s (socks_close s)" "sx_phase s = Closed \<Longrightarrow> closing s (schedule_upstream_cleanup s)"
  by (auto simp: closing_def closing_steps socks_close_def)

lemma choose_wanted:
  "choose_auth_method methods (sk_auth cfg) =
     (if chr (unat (auth_method_value (wanted_method cfg))) \<in> set methods then wanted_method cfg else No_acceptable_methods)"
  by (simp add: choose_auth_method_def contains_method_def wanted_method_def char_of_u8_def)

lemma wanted_not_refused [simp]: "wanted_method cfg \<noteq> No_acceptable_methods"
  by (simp add: wanted_method_def)

lemma greeting_split:
  assumes "\<not> length data < 2" and "byte_at data 0 = k_socks_version" and "\<not> length data < 2 + unat (byte_at data 1)"
  shows "data = greeting_message (take (unat (byte_at data 1)) (drop 2 data)) @ drop (2 + unat (byte_at data 1)) data"
    "length (take (unat (byte_at data 1)) (drop 2 data)) < 256"
proof -
  obtain a b rest where data: "data = a # b # rest" using split_two [of data] assms(1) by auto
  have "a = chr 5" using assms(2) by (simp add: data u8_of_char_eq k_socks_version_def)
  moreover have "length (take (byte b) rest) = byte b" using assms(3) by (simp add: data)
  ultimately show "data = greeting_message (take (unat (byte_at data 1)) (drop 2 data)) @ drop (2 + unat (byte_at data 1)) data"
    "length (take (unat (byte_at data 1)) (drop 2 data)) < 256"
    by (simp_all add: data greeting_message_def)
qed

lemma greeting_inv:
  assumes inv: "socks_inv cfg r u s" and phase: "sx_phase s = Greeting"
  shows "socks_inv cfg r u (handle_greeting cfg s)"
proof (cases "length (sx_buffer s) < 2")
  case False
  let ?data = "sx_buffer s" and ?n = "unat (byte_at (sx_buffer s) 1)"
  have facts: "fresh s" "r = ?data" "concat (sx_out s) = []" "sx_connected s" "u = []" "\<not> sx_up_live s" "\<not> sx_cleanup_queued s"
    using inv phase by (simp_all add: socks_inv_def)
  show ?thesis
  proof (cases "byte_at ?data 0 \<noteq> k_socks_version \<or> ?n = 0")
    case True
    then have "handle_greeting cfg s = (send_method_and_shutdown No_acceptable_methods s)\<lparr>sx_buffer := []\<rparr>"
      using False by (simp add: handle_greeting_def Let_def)
    then have "closing s (handle_greeting cfg s)" using closing_functions(1) [of s No_acceptable_methods] by (simp add: closing_def)
    then show ?thesis using closing_inv [OF _ inv, of _ "[]" "[]"] by simp
  next
    case ok: False
    show ?thesis
    proof (cases "length ?data < 2 + ?n")
      case True
      then show ?thesis using inv False ok by (simp add: handle_greeting_def Let_def)
    next
      case whole: False
      note split = greeting_split [OF False _ whole]
      define m where "m = choose_auth_method (take ?n (drop 2 ?data)) (sk_auth cfg)"
      define s1 where "s1 = send_bytes (build_method_selection m) (s\<lparr>sx_buffer := drop (2 + ?n) ?data\<rparr>)"
      have result: "handle_greeting cfg s =
          (if m = No_acceptable_methods then (shutdown_downstream s1)\<lparr>sx_phase := Closed\<rparr>
           else s1\<lparr>sx_phase := (if m = Username_password then User_password else Request)\<rparr>)"
        using False ok whole by (simp add: handle_greeting_def Let_def m_def s1_def)
      show ?thesis
      proof (cases "m = No_acceptable_methods")
        case True
        have "closing s1 ((shutdown_downstream s1)\<lparr>sx_phase := Closed\<rparr>)" by (rule closing_functions)
        then have "closing s (handle_greeting cfg s)" using True result by (simp add: closing_def s1_def)
        then show ?thesis using closing_inv [OF _ inv, of _ "[]" "[]"] by simp
      next
        case granted: False
        then have m: "m = wanted_method cfg" and offers: "offers cfg (take ?n (drop 2 ?data))"
          using split(2) ok by (auto simp: m_def choose_wanted offers_def split: if_splits)
        have s1: "fresh s1" "sx_connected s1" "\<not> sx_up_live s1" "\<not> sx_cleanup_queued s1" "sx_buffer s1 = drop (2 + ?n) ?data"
          "concat (sx_out s1) = selection cfg"
          using facts by (simp_all add: s1_def fresh_def m selection_def)
        have r: "r = greeting_message (take ?n (drop 2 ?data)) @ sx_buffer s1" using facts(2) split(1) ok s1(5) by simp
        have "fresh (s1\<lparr>sx_phase := p\<rparr>) = fresh s1" for p by (simp add: fresh_def)
        then show ?thesis
          using result granted m s1 r offers facts(5)
          by (cases "auth_enabled (sk_auth cfg)") (auto simp: socks_inv_def wanted_method_def login_def granted_def)
      qed
    qed
  qed
qed (use inv in \<open>simp add: handle_greeting_def Let_def\<close>)

lemma user_password_inv:
  assumes inv: "socks_inv cfg r u s" and phase: "sx_phase s = User_password"
  shows "socks_inv cfg r u (handle_user_password cfg s)"
proof -
  let ?result = "parse_user_password_auth (sx_buffer s) (sk_auth cfg)"
  obtain methods where facts: "fresh s" "auth_enabled (sk_auth cfg)" "offers cfg methods"
    "r = greeting_message methods @ sx_buffer s" "concat (sx_out s) = selection cfg" "sx_connected s" "u = []" "\<not> sx_up_live s" "\<not> sx_cleanup_queued s"
    using inv phase by (auto simp: socks_inv_def)
  define s1 where "s1 = send_bytes (build_auth_status (ap_ok ?result)) (s\<lparr>sx_buffer := drop (ap_consumed ?result) (sx_buffer s)\<rparr>)"
  have result: "handle_user_password cfg s = (if ap_status ?result = Need_more then s
      else if ap_status ?result \<noteq> Parsed \<or> \<not> ap_ok ?result then (shutdown_downstream s1)\<lparr>sx_phase := Closed\<rparr>
      else s1\<lparr>sx_phase := Request\<rparr>)"
    by (simp add: handle_user_password_def Let_def s1_def)
  consider "ap_status ?result = Need_more" | "ap_status ?result \<noteq> Need_more" "ap_status ?result \<noteq> Parsed \<or> \<not> ap_ok ?result"
    | "ap_status ?result = Parsed" "ap_ok ?result" by blast
  then show ?thesis
  proof cases
    case 2
    have "closing s1 ((shutdown_downstream s1)\<lparr>sx_phase := Closed\<rparr>)" by (rule closing_functions)
    then have "closing s (handle_user_password cfg s)" using 2 result by (simp add: closing_def s1_def)
    then show ?thesis using closing_inv [OF _ inv, of _ "[]" "[]"] by simp
  next
    case 3
    then have "take (ap_consumed ?result) (sx_buffer s) = login cfg"
      using parse_auth_ok [of "sx_buffer s" "sk_auth cfg" "ap_consumed ?result"] facts(2) by (simp add: login_def)
    then have "sx_buffer s = login cfg @ drop (ap_consumed ?result) (sx_buffer s)" by (metis append_take_drop_id)
    then have r: "r = greeting_message methods @ login cfg @ sx_buffer s1" using facts(4) by (simp add: s1_def)
    have "handle_user_password cfg s = s1\<lparr>sx_phase := Request\<rparr>" using 3 result by simp
    moreover have "fresh (s1\<lparr>sx_phase := Request\<rparr>)" using facts(1) by (simp add: fresh_def s1_def)
    moreover have "concat (sx_out s1) = selection cfg @ granted cfg" "sx_connected s1" "\<not> sx_up_live s1"
      "\<not> sx_cleanup_queued s1"
      using facts 3 by (simp_all add: s1_def granted_def)
    ultimately show ?thesis using r facts by (auto simp: socks_inv_def)
  qed (use inv result in simp)
qed

lemma request_inv:
  assumes inv: "socks_inv cfg r u s" and phase: "sx_phase s = Request"
  shows "socks_inv cfg r u (handle_connect_request cfg s)"
proof -
  let ?result = "parse_connect_request (sk_ntop6 cfg) (sx_buffer s)"
  obtain methods where facts: "fresh s" "offers cfg methods" "r = greeting_message methods @ login cfg @ sx_buffer s"
    "concat (sx_out s) = selection cfg @ granted cfg" "sx_connected s" "u = []" "\<not> sx_up_live s" "\<not> sx_cleanup_queued s"
    using inv phase by (auto simp: socks_inv_def)
  define s1 where "s1 = s\<lparr>sx_buffer := drop (rp_consumed ?result) (sx_buffer s)\<rparr>"
  define t where "t = rp_target ?result"
  define targets where "targets = sk_resolve cfg (ta_host t) (ta_port t)"
  have refuse: "closing s (send_reply_and_shutdown reply s1)" for reply
    using closing_functions(2) [of s1 reply] by (simp add: closing_def s1_def)
  show ?thesis
  proof (cases "rp_status ?result")
    case Need_more
    then show ?thesis using inv by (simp add: handle_connect_request_def Let_def)
  next
    case Refused
    then have "handle_connect_request cfg s = send_reply_and_shutdown (rp_reply ?result) s1" by (simp add: handle_connect_request_def Let_def s1_def)
    then show ?thesis using closing_inv [OF refuse inv, of "[]" "[]"] by simp
  next
    case Parsed
    show ?thesis
    proof (cases "targets = []")
      case True
      then have "handle_connect_request cfg s = send_reply_and_shutdown Reply_general_failure s1"
        using Parsed by (simp add: handle_connect_request_def Let_def s1_def targets_def t_def)
      then show ?thesis using closing_inv [OF refuse inv, of "[]" "[]"] by simp
    next
      case False
      define s2 where "s2 = s1\<lparr>sx_preserved := sx_buffer s1, sx_buffer := [], sx_paused := True, sx_phase := Connecting,
          sx_handshake_timer := False\<rparr>"
      have "handle_connect_request cfg s = connect_upstream t targets s2"
        using Parsed False by (simp add: handle_connect_request_def Let_def s1_def s2_def targets_def t_def)
      moreover have "connect_message (sk_ntop6 cfg) t (take (rp_consumed ?result) (sx_buffer s))"
        using connect_request_exact [of "sk_ntop6 cfg" "sx_buffer s" t "rp_consumed ?result"] Parsed by (simp add: t_def)
      then have "negotiated cfg t (greeting_message methods @ login cfg @ take (rp_consumed ?result) (sx_buffer s))"
        using facts(2) by (auto simp: negotiated_def)
      moreover have "r = (greeting_message methods @ login cfg @ take (rp_consumed ?result) (sx_buffer s)) @ sx_preserved s2"
        using facts(3) by (simp add: s2_def s1_def)
      ultimately show ?thesis
        using facts by (auto simp: socks_inv_def connect_upstream_def carried_def s2_def s1_def targets_def fresh_def)
    qed
  qed
qed

lemma socks_loop_inv: "socks_inv cfg r u s \<Longrightarrow> socks_inv cfg r u (socks_loop cfg s)"
proof (induction cfg s rule: socks_loop.induct)
  case (1 cfg s)
  have "socks_inv cfg r u (handle_phase cfg s)"
    using greeting_inv [OF 1(2)] user_password_inv [OF 1(2)] request_inv [OF 1(2)] 1(2)
    by (simp add: handle_phase_def split: socks_phase.split)
  then show ?case using 1 by (subst socks_loop.simps) (simp add: Let_def)
qed

subsection \<open>Events\<close>

lemma reset_idle_more [simp]:
  "sx_target (reset_idle_timer cfg s) = sx_target s" "sx_up_out (reset_idle_timer cfg s) = sx_up_out s"
  "sx_client (reset_idle_timer cfg s) = sx_client s" "sx_buffer (reset_idle_timer cfg s) = sx_buffer s"
  "sx_connected (reset_idle_timer cfg s) = sx_connected s" "sx_up_live (reset_idle_timer cfg s) = sx_up_live s"
  "sx_preserved (reset_idle_timer cfg s) = sx_preserved s" "sx_upstream (reset_idle_timer cfg s) = sx_upstream s"
  "sx_up_connected (reset_idle_timer cfg s) = sx_up_connected s" "sx_out (reset_idle_timer cfg s) = sx_out s"
  "sx_cleanup_queued (reset_idle_timer cfg s) = sx_cleanup_queued s"
  by (simp_all add: reset_idle_timer_def)

lemma carried_cong:
  "sx_target s1 = sx_target s \<Longrightarrow> sx_client s1 = sx_client s \<Longrightarrow> concat (sx_up_out s1) @ rest1 = concat (sx_up_out s) @ rest \<Longrightarrow>
   carried cfg r s rest \<Longrightarrow> carried cfg r s1 rest1"
  by (auto simp: carried_def)

lemma carried_more:
  "carried cfg r s rest \<Longrightarrow> carried cfg (r @ x) s (rest @ x)"
  by (auto simp: carried_def)

lemma down_data_inv:
  assumes inv: "socks_inv cfg r u s" and allowed: "socks_event_allowed (Down_data bytes) s"
  shows "socks_inv cfg (r @ bytes) u (on_downstream_message cfg (s\<lparr>sx_buffer := sx_buffer s @ bytes\<rparr>))"
proof -
  let ?s = "s\<lparr>sx_buffer := sx_buffer s @ bytes\<rparr>"
  have fresh: "fresh ?s = fresh s" by (simp add: fresh_def)
  have free: "\<not> sx_paused s" using allowed by (simp add: socks_event_allowed_def)
  show ?thesis
  proof (cases "sx_phase s")
    case Closed
    have "closing s (?s\<lparr>sx_buffer := []\<rparr>)" using Closed by (simp add: closing_def)
    then show ?thesis using Closed closing_inv [OF _ inv, of "?s\<lparr>sx_buffer := []\<rparr>" bytes "[]"]
      by (simp add: on_downstream_message_def)
  next
    case Relay
    then have facts: "carried cfg r s []" "sx_buffer s = []" "sx_preserved s = []" "sx_upstream s" "sx_up_live s" "sx_up_connected s" "sx_connected s"
      "\<not> sx_cleanup_queued s"
      "\<exists>local. concat (sx_out s) = selection cfg @ granted cfg @ bytes_to_string (build_bound_reply Reply_success local) @ u"
      using inv by (simp_all add: socks_inv_def)
    define s1 where "s1 = ?s\<lparr>sx_up_out := sx_up_out s @ [bytes], sx_buffer := []\<rparr>"
    have "on_downstream_message cfg ?s = reset_idle_timer cfg s1"
      using Relay facts by (simp add: on_downstream_message_def relay_downstream_def s1_def)
    moreover have "carried cfg (r @ bytes) s1 []"
      using carried_more [OF facts(1), of bytes] by (rule carried_cong [rotated 3]) (simp_all add: s1_def)
    then have "carried cfg (r @ bytes) (reset_idle_timer cfg s1) []" by (rule carried_cong [rotated 3]) simp_all
    ultimately show ?thesis using Relay facts by (simp add: socks_inv_def s1_def)
  next
    case Connecting
    then show ?thesis using inv free by (simp add: socks_inv_def)
  next
    case Greeting
    then have "socks_inv cfg (r @ bytes) u ?s" using inv by (simp add: socks_inv_def fresh)
    then show ?thesis using Greeting socks_loop_inv by (simp add: on_downstream_message_def)
  next
    case User_password
    then have "socks_inv cfg (r @ bytes) u ?s" using inv by (auto simp: socks_inv_def fresh)
    then show ?thesis using User_password socks_loop_inv by (simp add: on_downstream_message_def)
  next
    case Request
    then have "socks_inv cfg (r @ bytes) u ?s" using inv by (auto simp: socks_inv_def fresh)
    then show ?thesis using Request socks_loop_inv by (simp add: on_downstream_message_def)
  qed
qed

lemma up_connected_inv:
  assumes inv: "socks_inv cfg r u s" and allowed: "socks_event_allowed (Up_connected local) s"
  shows "socks_inv cfg r u (on_upstream_connected cfg local s)"
proof (cases "sx_phase s = Connecting")
  case True
  then have facts: "carried cfg r s (sx_preserved s)" "sx_up_out s = []" "sx_buffer s = []" "sx_connected s" "u = []"
    "\<not> sx_cleanup_queued s" "concat (sx_out s) = selection cfg @ granted cfg"
    using inv by (simp_all add: socks_inv_def)
  define s2 where "s2 = on_upstream_connected cfg local s"
  have s2: "sx_phase s2 = Relay" "sx_connected s2" "\<not> sx_cleanup_queued s2" "sx_target s2 = sx_target s" "sx_client s2 = sx_client s"
    "concat (sx_up_out s2) = sx_preserved s" "sx_preserved s2 = []" "sx_buffer s2 = []" "sx_upstream s2" "sx_up_live s2" "sx_up_connected s2"
    "concat (sx_out s2) = concat (sx_out s) @ bytes_to_string (build_bound_reply Reply_success local)"
    using True facts by (simp_all add: s2_def on_upstream_connected_def Let_def)
  have "carried cfg r s2 []" using s2 facts(2) by (intro carried_cong [OF _ _ _ facts(1)]) simp_all
  then show ?thesis using s2 facts(5,7) by (auto simp: socks_inv_def s2_def [symmetric])
next
  case False
  then show ?thesis
    using inv allowed
    by (cases "sx_phase s") (auto simp: socks_inv_def on_upstream_connected_def Let_def fresh_def socks_event_allowed_def
        carried_def)
qed

lemma up_data_inv:
  assumes inv: "socks_inv cfg r u s" and allowed: "socks_event_allowed (Up_data bytes) s"
  shows "socks_inv cfg r (u @ bytes) (on_upstream_message cfg bytes s)"
proof (cases "sx_phase s = Relay")
  case True
  then have facts: "carried cfg r s []" "sx_buffer s = []" "sx_preserved s = []" "sx_upstream s" "sx_up_live s" "sx_up_connected s" "sx_connected s"
      "\<not> sx_cleanup_queued s"
    "\<exists>local. concat (sx_out s) = selection cfg @ granted cfg @ bytes_to_string (build_bound_reply Reply_success local) @ u"
    using inv by (simp_all add: socks_inv_def)
  define s1 where "s1 = reset_idle_timer cfg (s\<lparr>sx_out := sx_out s @ [bytes]\<rparr>)"
  have "carried cfg r s1 []" by (rule carried_cong [OF _ _ _ facts(1)]) (simp_all add: s1_def)
  moreover have "on_upstream_message cfg bytes s = s1" using True facts by (simp add: on_upstream_message_def s1_def)
  ultimately show ?thesis using True facts by (auto simp: socks_inv_def s1_def)
next
  case False
  have "sx_up_live s" using allowed by (simp add: socks_event_allowed_def)
  then have "sx_phase s = Closed" using False inv by (auto simp: socks_inv_def)
  then show ?thesis
    using closing_inv [OF closing_functions(5) inv, of "[]" bytes] by (simp add: on_upstream_message_def)
qed

text \<open>The other events close the session or leave its data alone.\<close>

lemma timers_off_inv [simp]:
  "socks_inv cfg r u (s\<lparr>sx_handshake_timer := b\<rparr>) = socks_inv cfg r u s"
  "socks_inv cfg r u (s\<lparr>sx_connect_timer := b\<rparr>) = socks_inv cfg r u s"
  "socks_inv cfg r u (s\<lparr>sx_idle_timer := b\<rparr>) = socks_inv cfg r u s"
proof -
  have "carried cfg r (s\<lparr>sx_handshake_timer := b\<rparr>) = carried cfg r s"
    "carried cfg r (s\<lparr>sx_connect_timer := b\<rparr>) = carried cfg r s" "carried cfg r (s\<lparr>sx_idle_timer := b\<rparr>) = carried cfg r s"
    by (simp_all add: carried_def fun_eq_iff)
  then show "socks_inv cfg r u (s\<lparr>sx_handshake_timer := b\<rparr>) = socks_inv cfg r u s"
    "socks_inv cfg r u (s\<lparr>sx_connect_timer := b\<rparr>) = socks_inv cfg r u s"
    "socks_inv cfg r u (s\<lparr>sx_idle_timer := b\<rparr>) = socks_inv cfg r u s"
    by (simp_all add: socks_inv_def fresh_def split: socks_phase.split)
qed

lemma socks_step_inv:
  assumes inv: "socks_inv cfg r u s"
  shows "socks_inv cfg (r @ down_bytes e s) (u @ up_bytes e s) (socks_step cfg e s)"
proof (cases "socks_event_allowed e s")
  case True
  have live: "sx_phase s \<in> {Relay, Closed}" if "sx_up_live s" using inv that by (auto simp: socks_inv_def)
  show ?thesis
  proof (cases e)
    case (Down_data bytes)
    then show ?thesis using True down_data_inv [OF inv] by (simp add: socks_step_def)
  next
    case Down_closed
    have "closing s (socks_close (s\<lparr>sx_gone := True, sx_connected := False\<rparr>))"
      using closing_functions(5) [of "s\<lparr>sx_gone := True, sx_connected := False\<rparr>"] by (simp add: closing_def)
    then show ?thesis using True Down_closed closing_inv [OF _ inv, of _ "[]" "[]"] by (simp add: socks_step_def)
  next
    case (Up_connected local)
    then show ?thesis using True up_connected_inv [OF inv] by (simp add: socks_step_def)
  next
    case (Up_data bytes)
    then show ?thesis using True up_data_inv [OF inv] by (simp add: socks_step_def)
  next
    case Up_failed
    have "on_upstream_connect_failed s = s \<or> closing s (on_upstream_connect_failed s)"
      by (auto simp: on_upstream_connect_failed_def closing_def closing_steps)
    then show ?thesis using True Up_failed inv closing_inv [OF _ inv, of _ "[]" "[]"] by (auto simp: socks_step_def)
  next
    case Up_closed
    have "closing s (on_upstream_disconnected s)"
      using live True Up_closed
      by (auto simp: on_upstream_disconnected_def closing_def closing_steps socks_event_allowed_def)
    then show ?thesis using True Up_closed closing_inv [OF _ inv, of _ "[]" "[]"] by (simp add: socks_step_def)
  next
    case Handshake_timeout
    define s1 where "s1 = s\<lparr>sx_handshake_timer := False\<rparr>"
    have "on_handshake_timeout s1 = s1 \<or> closing s (on_handshake_timeout s1)"
      by (auto simp: on_handshake_timeout_def closing_def closing_steps s1_def)
    moreover have "socks_inv cfg r u s1" using inv by (simp add: s1_def)
    ultimately show ?thesis
      using True Handshake_timeout closing_inv [OF _ inv, of _ "[]" "[]"] by (auto simp: socks_step_def s1_def)
  next
    case Connect_timeout
    define s1 where "s1 = s\<lparr>sx_connect_timer := False\<rparr>"
    have "on_connect_timeout s1 = s1 \<or> closing s (on_connect_timeout s1)"
      by (auto simp: on_connect_timeout_def closing_def closing_steps s1_def)
    moreover have "socks_inv cfg r u s1" using inv by (simp add: s1_def)
    ultimately show ?thesis
      using True Connect_timeout closing_inv [OF _ inv, of _ "[]" "[]"] by (auto simp: socks_step_def s1_def)
  next
    case Idle_timeout
    define s1 where "s1 = s\<lparr>sx_idle_timer := False\<rparr>"
    have "on_idle_timeout s1 = s1 \<or> closing s (on_idle_timeout s1)"
      by (auto simp: on_idle_timeout_def closing_def closing_steps s1_def)
    moreover have "socks_inv cfg r u s1" using inv by (simp add: s1_def)
    ultimately show ?thesis
      using True Idle_timeout closing_inv [OF _ inv, of _ "[]" "[]"] by (auto simp: socks_step_def s1_def)
  next
    case Cleanup
    then have "sx_phase s = Closed" using True inv by (auto simp: socks_inv_def socks_event_allowed_def)
    then have "closing s (run_cleanup s)" by (simp add: closing_def run_cleanup_def)
    then show ?thesis using True Cleanup closing_inv [OF _ inv, of _ "[]" "[]"] by (simp add: socks_step_def)
  qed
next
  case False
  then show ?thesis using inv by (cases e) (simp_all add: socks_step_def)
qed

lemma socks_run_inv:
  "socks_inv cfg (from_client cfg es) (from_target cfg es) (socks_run cfg es)"
proof -
  have "socks_inv cfg (r @ received down_bytes cfg es s) (u @ received up_bytes cfg es s) (fold (socks_step cfg) es s)"
    if "socks_inv cfg r u s" for r u s
    using that
  proof (induction es arbitrary: r u s)
    case (Cons e es)
    from Cons.IH [OF socks_step_inv [OF Cons.prems, of e]] show ?case by simp
  qed simp
  moreover have "socks_inv cfg [] [] (socks_start cfg socks_new)"
    by (simp add: socks_inv_def fresh_def socks_start_def socks_new_def)
  ultimately show ?thesis unfolding from_client_def from_target_def socks_run_def by force
qed

text \<open>
  C12: The proxy connects only for a client that may ask, and relays exactly. After any events, if anything was sent
  to a target or a connection to one is under way, then the client's bytes begin with a greeting that offers the
  configured method, with the configured user name and password where they are required, and with a CONNECT
  request for that target; the connection goes to the addresses it resolves to; and what was sent to it is what
  followed the request, in order - all of it while the relay is up. In the relay the client has been given the
  method selection, the login's success, the success reply and then exactly what the target sent.\<close>

theorem socks_relays_exactly:
  fixes cfg :: socks_config and es :: "socks_event list"
  defines "s \<equiv> socks_run cfg es"
  shows "(sx_up_out s = [] \<and> sx_client s = None \<or>
      (\<exists>t p rest. negotiated cfg t p \<and> from_client cfg es = p @ concat (sx_up_out s) @ rest \<and>
         (sx_client s = None \<or> sx_client s = Some (sk_resolve cfg (ta_host t) (ta_port t))) \<and>
         (sx_phase s = Relay \<longrightarrow> rest = []))) \<and>
    (sx_phase s = Relay \<longrightarrow> (\<exists>local. concat (sx_out s) =
       selection cfg @ granted cfg @ bytes_to_string (build_bound_reply Reply_success local) @ from_target cfg es))"
proof -
  have inv: "socks_inv cfg (from_client cfg es) (from_target cfg es) s" unfolding s_def by (rule socks_run_inv)
  have up: "\<exists>t p rest. negotiated cfg t p \<and> from_client cfg es = p @ concat (sx_up_out s) @ rest \<and>
         (sx_client s = None \<or> sx_client s = Some (sk_resolve cfg (ta_host t) (ta_port t))) \<and>
         (sx_phase s = Relay \<longrightarrow> rest = [])"
    if carry: "carried cfg (from_client cfg es) s rest" and all: "sx_phase s = Relay \<longrightarrow> rest = []" for rest
  proof -
    obtain t p where "negotiated cfg t p" "from_client cfg es = p @ concat (sx_up_out s) @ rest"
      "\<forall>targets. sx_client s = Some targets \<longrightarrow> targets = sk_resolve cfg (ta_host t) (ta_port t)"
      using carry by (auto simp: carried_def)
    then show ?thesis using all by (intro exI [of _ t] exI [of _ p] exI [of _ rest]) (cases "sx_client s"; simp)
  qed
  show ?thesis
  proof (cases "sx_phase s")
    case Closed
    then have "fresh s \<or> (\<exists>rest. carried cfg (from_client cfg es) s rest)" using inv by (simp add: socks_inv_def)
    then show ?thesis using up Closed by (auto simp: fresh_def)
  next
    case Relay
    then show ?thesis using inv up [of "[]"] by (simp add: socks_inv_def)
  next
    case Connecting
    then show ?thesis using inv up [of "sx_preserved s"] by (simp add: socks_inv_def)
  qed (use inv in \<open>simp_all add: socks_inv_def fresh_def\<close>)
qed

definition secret_proxy :: socks_config where
  "secret_proxy = \<lparr>sk_auth = \<lparr>ac_username = ''alice'', ac_password = ''secret''\<rparr>, sk_connect_timeout = 10000,
     sk_handshake_timeout = 15000, sk_idle_timeout = 0, sk_resolve = (\<lambda>host port. [Inet4 [127, 0, 0, 1] port]),
     sk_ntop6 = (\<lambda>b. None)\<rparr>"

definition chat_events :: "socks_event list" where
  "chat_events =
     [Down_data (greeting_message [chr 0, chr 2]), Down_data (auth_message ''alice'' ''secret'' @ [chr 5]),
      Down_data ([chr 1, chr 0, chr 3, chr 7] @ ''example'' @ [chr 0, chr 80] @ ''GET''),
      Up_connected (Inet4 [10, 0, 0, 1] 4000), Up_data ''pong'', Down_data '' /'']"

theorem socks_relays_exactly_witness:
  "\<exists>t p local. negotiated secret_proxy t p \<and> from_client secret_proxy chat_events = p @ ''GET /'' \<and>
     sx_client (socks_run secret_proxy chat_events) = Some (sk_resolve secret_proxy (ta_host t) (ta_port t)) \<and>
     concat (sx_out (socks_run secret_proxy chat_events)) = selection secret_proxy @ granted secret_proxy @
       bytes_to_string (build_bound_reply Reply_success local) @ ''pong''"
proof -
  let ?s = "socks_run secret_proxy chat_events"
  have s: "sx_phase ?s = Relay" "concat (sx_up_out ?s) = ''GET /''" "sx_client ?s \<noteq> None"
    "from_target secret_proxy chat_events = ''pong''"
    by code_simp+
  from socks_relays_exactly [of secret_proxy chat_events] s show ?thesis by auto
qed

end
