(* ===== verification/Socks5_Segments.thy ===== *)
theory Socks5_Segments
  imports Socks5_Relay
begin

text \<open>
  The handshake's outcome does not depend on how the client's bytes are cut into segments, and a closed session
  leaves neither a timer nor a reference behind.
\<close>

subsection \<open>More input behind a message\<close>

lemma parse_auth_more:
  assumes "ap_status (parse_user_password_auth b auth) \<noteq> Need_more"
  shows "parse_user_password_auth (b @ c) auth = parse_user_password_auth b auth"
proof (cases "ap_status (parse_user_password_auth b auth)")
  case Parsed
  then obtain user password rest where m: "b = auth_message user password @ rest" "length user < 256" "length password < 256"
    using parsed_auth_message by blast
  then show ?thesis
    using parse_auth_message [OF m(2,3), of rest auth] parse_auth_message [OF m(2,3), of "rest @ c" auth] by simp
next
  case Refused
  have two: "\<not> length b < 2" using Refused by (auto simp: parse_user_password_auth_def auth_need_more_def)
  then have "(b @ c) ! 0 = b ! 0" "\<not> length (b @ c) < 2" by (auto simp: nth_append)
  moreover have "byte_at b 0 \<noteq> k_auth_version"
    using Refused two by (auto simp: parse_user_password_auth_def Let_def auth_need_more_def split: if_splits)
  ultimately show ?thesis using two by (simp only: parse_user_password_auth_def Let_def if_False if_True simp_thms)
qed (use assms in simp)

lemma parse_connect_more:
  assumes "rp_status (parse_connect_request ntop6 b) \<noteq> Need_more"
  shows "parse_connect_request ntop6 (b @ c) = parse_connect_request ntop6 b"
proof (cases "rp_status (parse_connect_request ntop6 b)")
  case Parsed
  then obtain t m rest where m: "b = m @ rest" "connect_message ntop6 t m" using parsed_connect_message by blast
  then show ?thesis
    using parse_connect_message [OF m(2), of rest] parse_connect_message [OF m(2), of "rest @ c"] by simp
next
  case Refused
  note results = request_need_more_def request_refused_def request_parsed_def
  have four: "\<not> length b < 4" using Refused by (auto simp: parse_connect_request_def results)
  have head: "(b @ c) ! 0 = b ! 0" "(b @ c) ! 1 = b ! 1" "(b @ c) ! Suc 0 = b ! Suc 0" "(b @ c) ! 2 = b ! 2" "(b @ c) ! 3 = b ! 3"
    using four by (auto simp: nth_append)
  have long: "\<not> length (b @ c) < 4" using four by simp
  consider "byte_at b 0 \<noteq> k_socks_version" | "byte_at b 0 = k_socks_version" "byte_at b 1 \<noteq> 1"
    | "byte_at b 0 = k_socks_version" "byte_at b 1 = 1" "byte_at b 2 \<noteq> 0"
    | "byte_at b 0 = k_socks_version" "byte_at b 1 = 1" "byte_at b 2 = 0" "byte_at b 3 \<noteq> 1" "byte_at b 3 \<noteq> 3" "byte_at b 3 \<noteq> 4"
    | "byte_at b 0 = k_socks_version" "byte_at b 1 = 1" "byte_at b 2 = 0" "byte_at b 3 \<in> {1, 3, 4}"
    by auto
  then show ?thesis
  proof cases
    case 5
    then consider "byte_at b 3 = 1" | "byte_at b 3 = 3" | "byte_at b 3 = 4" by auto
    then show ?thesis
    proof cases
      case 1
      then show ?thesis using 5 four Refused by (simp add: parse_connect_request_def Let_def results split: if_splits)
    next
      case 2
      then have "5 \<le> length b" "unat (byte_at b 4) = 0"
        using 5 four Refused by (simp_all add: parse_connect_request_def Let_def results split: if_splits)
      then show ?thesis using 5 four 2 by (simp add: parse_connect_request_def Let_def head) (simp add: nth_append)
    next
      case 3
      then have "22 \<le> length b" "ntop6 (take 16 (drop 4 b)) = None"
        using 5 four Refused
        by (auto simp: parse_connect_request_def Let_def results split: if_splits option.splits)
      then show ?thesis using 5 four 3 by (simp add: parse_connect_request_def Let_def head)
    qed
  qed (simp_all only: parse_connect_request_def Let_def head long four if_False if_True simp_thms address_type_value.simps)
qed (use assms in simp)

subsection \<open>Segments\<close>

definition with_more :: "string \<Rightarrow> socks_session \<Rightarrow> socks_session" where
  "with_more c s = s\<lparr>sx_buffer := sx_buffer s @ c\<rparr>"

text \<open>What the client and the world see of the session.\<close>

definition outcome :: "socks_session \<Rightarrow> socks_phase \<times> string list \<times> target_address option \<times> inet_address list option \<times> bool \<times> bool" where
  "outcome s = (sx_phase s, sx_out s, sx_target s, sx_client s, sx_connected s, sx_shutdown s)"

definition shaking :: "socks_session \<Rightarrow> bool" where
  "shaking s \<longleftrightarrow> sx_phase s \<in> {Greeting, User_password, Request}"

lemma greeting_more:
  assumes "sx_phase s = Greeting"
  shows "handle_greeting cfg s = s \<or>
    shaking (handle_greeting cfg s) \<and> handle_greeting cfg (with_more c s) = with_more c (handle_greeting cfg s) \<or>
    sx_phase (handle_greeting cfg s) = Closed \<and> outcome (handle_greeting cfg (with_more c s)) = outcome (handle_greeting cfg s)"
proof (cases "length (sx_buffer s) < 2")
  case False
  have head: "(sx_buffer s @ c) ! 0 = sx_buffer s ! 0" "(sx_buffer s @ c) ! 1 = sx_buffer s ! 1" using False by (auto simp: nth_append)
  show ?thesis
  proof (cases "byte_at (sx_buffer s) 0 \<noteq> k_socks_version \<or> unat (byte_at (sx_buffer s) 1) = 0")
    case True
    have "outcome (send_method_and_shutdown No_acceptable_methods (with_more c s)) = outcome (send_method_and_shutdown No_acceptable_methods s)"
      "sx_phase (send_method_and_shutdown No_acceptable_methods s) = Closed"
      by (simp_all add: outcome_def with_more_def closing_steps send_bytes_def)
    then show ?thesis using True False head by (simp add: handle_greeting_def Let_def with_more_def outcome_def)
  next
    case ok: False
    show ?thesis
    proof (cases "length (sx_buffer s) < 2 + unat (byte_at (sx_buffer s) 1)")
      case True
      then show ?thesis using False ok by (simp add: handle_greeting_def Let_def)
    next
      case whole: False
      then show ?thesis
        using False ok head
        by (auto simp: handle_greeting_def Let_def with_more_def outcome_def shaking_def closing_steps send_bytes_def)
    qed
  qed
qed (simp add: handle_greeting_def Let_def)

lemma auth_consumed:
  assumes "ap_status (parse_user_password_auth b auth) = Parsed"
  shows "ap_consumed (parse_user_password_auth b auth) \<le> length b"
proof -
  obtain user password rest where m: "b = auth_message user password @ rest" "length user < 256" "length password < 256"
    using parsed_auth_message [OF assms] by blast
  then show ?thesis using parse_auth_message [OF m(2,3), of rest auth] by simp
qed

lemma user_password_more:
  assumes "sx_phase s = User_password"
  shows "handle_user_password cfg s = s \<or>
    shaking (handle_user_password cfg s) \<and> handle_user_password cfg (with_more c s) = with_more c (handle_user_password cfg s) \<or>
    sx_phase (handle_user_password cfg s) = Closed \<and>
    outcome (handle_user_password cfg (with_more c s)) = outcome (handle_user_password cfg s)"
proof (cases "ap_status (parse_user_password_auth (sx_buffer s) (sk_auth cfg)) = Need_more")
  case False
  note more = parse_auth_more [OF False, of c]
  show ?thesis
  proof (cases "ap_status (parse_user_password_auth (sx_buffer s) (sk_auth cfg)) = Parsed \<and> ap_ok (parse_user_password_auth (sx_buffer s) (sk_auth cfg))")
    case True
    then show ?thesis
      using False more auth_consumed [of "sx_buffer s" "sk_auth cfg"]
      by (simp add: handle_user_password_def Let_def with_more_def shaking_def send_bytes_def)
  next
    case bad: False
    then show ?thesis
      using False more
      by (auto simp: handle_user_password_def Let_def with_more_def outcome_def closing_steps send_bytes_def)
  qed
qed (simp add: handle_user_password_def Let_def)

lemma request_more:
  assumes "sx_phase s = Request"
  shows "handle_connect_request cfg s = s \<or>
    sx_phase (handle_connect_request cfg s) \<in> {Closed, Connecting} \<and>
    outcome (handle_connect_request cfg (with_more c s)) = outcome (handle_connect_request cfg s)"
proof (cases "rp_status (parse_connect_request (sk_ntop6 cfg) (sx_buffer s)) = Need_more")
  case False
  note more = parse_connect_more [OF False, of c]
  show ?thesis
    using False more
    by (auto simp: handle_connect_request_def Let_def with_more_def outcome_def closing_steps send_bytes_def connect_upstream_def)
qed (simp add: handle_connect_request_def Let_def)

lemma handle_phase_more:
  assumes "shaking s"
  shows "handle_phase cfg s = s \<or>
    shaking (handle_phase cfg s) \<and> handle_phase cfg (with_more c s) = with_more c (handle_phase cfg s) \<or>
    sx_phase (handle_phase cfg s) \<in> {Closed, Connecting} \<and> outcome (handle_phase cfg (with_more c s)) = outcome (handle_phase cfg s)"
proof -
  have "sx_phase (with_more c s) = sx_phase s" by (simp add: with_more_def)
  then show ?thesis
    using assms greeting_more [of s cfg c] user_password_more [of s cfg c] request_more [of s cfg c]
    by (auto simp: handle_phase_def shaking_def)
qed

lemma no_input: "shaking s \<Longrightarrow> sx_buffer s = [] \<Longrightarrow> handle_phase cfg s = s"
  by (auto simp: shaking_def handle_phase_def handle_greeting_def handle_user_password_def handle_connect_request_def
      parse_user_password_auth_def parse_connect_request_def auth_need_more_def request_need_more_def Let_def)

lemma socks_loop_done: "\<not> shaking s \<Longrightarrow> socks_loop cfg s = s"
  by (cases "sx_phase s") (simp_all add: shaking_def socks_loop.simps [of cfg s])

lemma socks_loop_shaking:
  assumes "shaking s"
  shows "socks_loop cfg s = (if handle_phase cfg s = s then s else socks_loop cfg (handle_phase cfg s))"
proof (cases "sx_buffer s = []")
  case False
  have phase: "sx_phase s \<notin> {Closed, Connecting, Relay}" using assms by (auto simp: shaking_def)
  show ?thesis
  proof (cases "handle_phase cfg s = s")
    case True
    then show ?thesis using phase False by (subst socks_loop.simps) (simp add: Let_def)
  next
    case changed: False
    then have "sx_phase (handle_phase cfg s) \<noteq> sx_phase s" using handle_phase_progress [of cfg s] by auto
    then show ?thesis using phase False changed by (subst socks_loop.simps) (simp add: Let_def)
  qed
qed (use no_input [OF assms] in \<open>simp add: socks_loop.simps [of cfg s]\<close>)

lemma socks_loop_more:
  assumes "shaking s"
  shows "if shaking (socks_loop cfg s) then socks_loop cfg (with_more c s) = socks_loop cfg (with_more c (socks_loop cfg s))
     else sx_phase (socks_loop cfg s) \<in> {Closed, Connecting} \<and>
       outcome (socks_loop cfg (with_more c s)) = outcome (socks_loop cfg s)"
  using assms
proof (induction "phase_rank (sx_phase s)" arbitrary: s rule: less_induct)
  case less
  have more: "shaking (with_more c t) = shaking t" for t by (simp add: shaking_def with_more_def)
  consider "handle_phase cfg s = s"
    | "handle_phase cfg s \<noteq> s" "shaking (handle_phase cfg s)" "handle_phase cfg (with_more c s) = with_more c (handle_phase cfg s)"
    | "handle_phase cfg s \<noteq> s" "sx_phase (handle_phase cfg s) \<in> {Closed, Connecting}"
      "outcome (handle_phase cfg (with_more c s)) = outcome (handle_phase cfg s)"
    using handle_phase_more [OF less.prems, of cfg c] by blast
  then show ?case
  proof cases
    case 1
    then show ?thesis using less.prems by (simp add: socks_loop_shaking)
  next
    case 2
    have rank: "phase_rank (sx_phase (handle_phase cfg s)) < phase_rank (sx_phase s)"
      using 2(1) handle_phase_progress [of cfg s] by auto
    from less.hyps [OF rank 2(2)]
    have ih: "if shaking (socks_loop cfg (handle_phase cfg s))
      then socks_loop cfg (with_more c (handle_phase cfg s)) = socks_loop cfg (with_more c (socks_loop cfg (handle_phase cfg s)))
      else sx_phase (socks_loop cfg (handle_phase cfg s)) \<in> {Closed, Connecting} \<and>
        outcome (socks_loop cfg (with_more c (handle_phase cfg s))) = outcome (socks_loop cfg (handle_phase cfg s))" .
    have "sx_phase (handle_phase cfg (with_more c s)) \<noteq> sx_phase (with_more c s)"
      using rank 2(3) by (auto simp: with_more_def)
    then have "handle_phase cfg (with_more c s) \<noteq> with_more c s" by auto
    then have next1: "socks_loop cfg (with_more c s) = socks_loop cfg (with_more c (handle_phase cfg s))"
      using socks_loop_shaking [of "with_more c s" cfg] more less.prems 2(3) by simp
    have next2: "socks_loop cfg s = socks_loop cfg (handle_phase cfg s)" using socks_loop_shaking [OF less.prems] 2(1) by simp
    show ?thesis unfolding next1 next2 by (rule ih)
  next
    case 3
    then have over: "\<not> shaking (handle_phase cfg s)" by (auto simp: shaking_def)
    then have loop: "socks_loop cfg s = handle_phase cfg s"
      using socks_loop_shaking [OF less.prems] 3(1) socks_loop_done by simp
    have "sx_phase (handle_phase cfg (with_more c s)) = sx_phase (handle_phase cfg s)" using 3(3) by (simp add: outcome_def)
    then have over': "\<not> shaking (handle_phase cfg (with_more c s))" using over by (simp add: shaking_def)
    then have "handle_phase cfg (with_more c s) \<noteq> with_more c s" using more less.prems by metis
    then have "socks_loop cfg (with_more c s) = handle_phase cfg (with_more c s)"
      using socks_loop_shaking [of "with_more c s" cfg] more less.prems socks_loop_done [OF over'] by simp
    then show ?thesis using loop over 3(2,3) by simp
  qed
qed

text \<open>Where the session is after input alone: still shaking hands, waiting for the target, or closed.\<close>

lemma socks_loop_gone [simp]: "sx_gone (socks_loop cfg s) = sx_gone s"
proof (induction cfg s rule: socks_loop.induct)
  case (1 cfg s)
  have "sx_gone (handle_phase cfg s) = sx_gone s"
    by (auto simp: handle_phase_def handle_greeting_def handle_user_password_def handle_connect_request_def Let_def closing_steps
        send_bytes_def connect_upstream_def split: socks_phase.split)
  then show ?case using 1 by (subst socks_loop.simps) (simp add: Let_def)
qed

lemma socks_loop_paused:
  "(sx_paused s \<longleftrightarrow> sx_phase s = Connecting) \<Longrightarrow> (sx_paused (socks_loop cfg s) \<longleftrightarrow> sx_phase (socks_loop cfg s) = Connecting)"
proof (induction cfg s rule: socks_loop.induct)
  case (1 cfg s)
  have "sx_paused (handle_phase cfg s) \<longleftrightarrow> sx_phase (handle_phase cfg s) = Connecting"
    using 1(2)
    by (cases "sx_phase s") (auto simp: handle_phase_def handle_greeting_def handle_user_password_def handle_connect_request_def
        Let_def closing_steps send_bytes_def connect_upstream_def)
  then show ?case using 1 by (simp add: socks_loop.simps [of cfg s] Let_def)
qed

text \<open>
  C24: The handshake does not depend on segments. However the client's bytes are cut, the session ends up in the
  same phase, with the same replies sent, the same target asked for and the same addresses to connect to, as when
  they arrive all at once.\<close>

theorem socks_handshake_segments:
  "outcome (socks_run cfg (map Down_data segments)) = outcome (socks_run cfg [Down_data (concat segments)])"
proof -
  define s0 where "s0 = socks_start cfg socks_new"
  have s0: "shaking s0" "sx_buffer s0 = []" "\<not> sx_gone s0" "\<not> sx_paused s0" "sx_phase s0 = Greeting"
    by (simp_all add: s0_def socks_start_def socks_new_def shaking_def)
  have whole: "socks_run cfg [Down_data b] = socks_loop cfg (with_more b s0)" for b
    using s0 by (simp add: socks_run_def s0_def [symmetric] socks_step_def socks_event_allowed_def on_downstream_message_def
        with_more_def)
  have more: "shaking (with_more c t) = shaking t" "with_more d (with_more c t) = with_more (c @ d) t" for c d t
    by (simp_all add: shaking_def with_more_def)
  define run where "run segs = socks_run cfg (map Down_data segs)" for segs
  have run: "run (segs @ [x]) = socks_step cfg (Down_data x) (run segs)" for segs x
    by (simp add: run_def socks_run_def)
  have "\<not> sx_gone (run segments) \<and> (sx_paused (run segments) \<longleftrightarrow> sx_phase (run segments) = Connecting) \<and>
    (if shaking (run segments) then socks_run cfg [Down_data (concat segments)] = run segments
     else sx_phase (run segments) \<in> {Closed, Connecting} \<and>
       outcome (socks_run cfg [Down_data (concat segments)]) = outcome (run segments))"
  proof (induction segments rule: rev_induct)
    case Nil
    have "with_more [] s0 = s0" by (simp add: with_more_def)
    then have "socks_loop cfg (with_more [] s0) = s0"
      using s0 socks_loop_shaking [of s0 cfg] no_input [of s0 cfg] by simp
    then show ?case using s0 by (simp add: run_def whole) (simp add: socks_run_def s0_def [symmetric])
  next
    case (snoc x segs)
    define t where "t = run segs"
    define b where "b = concat segs"
    have t: "\<not> sx_gone t" "sx_paused t \<longleftrightarrow> sx_phase t = Connecting" using snoc by (simp_all add: t_def)
    have all: "socks_run cfg [Down_data (concat (segs @ [x]))] = socks_loop cfg (with_more x (with_more b s0))"
      by (simp add: whole more(2) b_def)
    show ?case
    proof (cases "shaking t")
      case True
      then have loop: "socks_loop cfg (with_more b s0) = t" using snoc by (simp add: t_def b_def whole)
      have allowed: "socks_event_allowed (Down_data x) t" "sx_phase t \<noteq> Closed" "sx_phase t \<noteq> Relay"
        using t True by (auto simp: socks_event_allowed_def shaking_def)
      then have step: "run (segs @ [x]) = socks_loop cfg (with_more x t)"
        by (simp add: run t_def [symmetric] socks_step_def on_downstream_message_def with_more_def)
      have "shaking (with_more b s0)" using more(1) s0(1) by simp
      from socks_loop_more [OF this, of cfg x] have same: "socks_loop cfg (with_more x (with_more b s0)) = socks_loop cfg (with_more x t)"
        using loop True by simp
      have "shaking (with_more x t)" using True more(1) by simp
      from socks_loop_more [OF this, of cfg "[]"]
      have "shaking (socks_loop cfg (with_more x t)) \<or> sx_phase (socks_loop cfg (with_more x t)) \<in> {Closed, Connecting}"
        by (auto split: if_splits)
      moreover have "sx_paused (socks_loop cfg (with_more x t)) \<longleftrightarrow> sx_phase (socks_loop cfg (with_more x t)) = Connecting"
        using t(2) by (intro socks_loop_paused) (simp add: with_more_def)
      moreover have "\<not> sx_gone (socks_loop cfg (with_more x t))" using t(1) by (simp add: with_more_def)
      ultimately show ?thesis using all same step by auto
    next
      case False
      then have t': "sx_phase t \<in> {Closed, Connecting}" "outcome (socks_loop cfg (with_more b s0)) = outcome t"
        using snoc by (simp_all add: t_def b_def whole)
      have "run (segs @ [x]) = (if sx_phase t = Closed then t\<lparr>sx_buffer := []\<rparr> else t)"
        using t t'(1) by (auto simp: run t_def [symmetric] socks_step_def on_downstream_message_def socks_event_allowed_def)
      then have step: "outcome (run (segs @ [x])) = outcome t" "sx_phase (run (segs @ [x])) = sx_phase t"
        "sx_gone (run (segs @ [x])) = sx_gone t" "sx_paused (run (segs @ [x])) = sx_paused t"
        by (simp_all add: outcome_def)
      have "sx_phase (socks_loop cfg (with_more b s0)) = sx_phase t" using t'(2) by (simp add: outcome_def)
      then have "\<not> shaking (socks_loop cfg (with_more b s0))" using t'(1) by (auto simp: shaking_def)
      with socks_loop_more [of "with_more b s0" cfg x] more(1) [of b s0] s0(1)
      have "outcome (socks_loop cfg (with_more x (with_more b s0))) = outcome (socks_loop cfg (with_more b s0))"
        by (simp split: if_splits)
      moreover have "\<not> shaking (run (segs @ [x]))" using step(2) False by (simp add: shaking_def)
      ultimately show ?thesis using all step t t' by simp
    qed
  qed
  then show ?thesis unfolding run_def by (simp split: if_splits)
qed

subsection \<open>A closed session leaves nothing behind\<close>

definition tidy :: "socks_session \<Rightarrow> bool" where
  "tidy s \<longleftrightarrow>
     (if sx_phase s = Closed
      then \<not> sx_connect_timer s \<and> \<not> sx_handshake_timer s \<and> \<not> sx_idle_timer s \<and>
        (sx_client s = None \<and> \<not> sx_upstream s \<and> \<not> sx_self_hold s \<or> sx_cleanup_queued s)
      else \<not> sx_cleanup_scheduled s \<and> \<not> sx_cleanup_queued s \<and>
        (if sx_phase s = Relay then sx_upstream s \<and> sx_up_live s \<and> sx_up_connected s
         else \<not> sx_upstream s \<and> \<not> sx_up_live s \<and> (shaking s \<longrightarrow> sx_client s = None \<and> \<not> sx_self_hold s)))"

lemma tidy_phase: "tidy s \<Longrightarrow> tidy (handle_phase cfg s)"
  by (cases "sx_phase s")
    (auto simp: handle_phase_def handle_greeting_def handle_user_password_def handle_connect_request_def Let_def closing_steps
      send_bytes_def connect_upstream_def tidy_def shaking_def)

lemma tidy_loop: "tidy s \<Longrightarrow> tidy (socks_loop cfg s)"
proof (induction cfg s rule: socks_loop.induct)
  case (1 cfg s)
  then show ?case using tidy_phase [of s cfg] by (simp add: socks_loop.simps [of cfg s] Let_def)
qed

lemma tidy_step:
  assumes "tidy s"
  shows "tidy (socks_step cfg e s)"
proof (cases "socks_event_allowed e s")
  case True
  show ?thesis
  proof (cases e)
    case (Down_data bytes)
    have "tidy (s\<lparr>sx_buffer := sx_buffer s @ bytes\<rparr>)" using assms by (simp add: tidy_def shaking_def)
    then show ?thesis using True Down_data assms tidy_loop
      by (auto simp: socks_step_def on_downstream_message_def relay_downstream_def tidy_def reset_idle_timer_def shaking_def)
  next
    case Down_closed
    then show ?thesis using True assms
      by (auto simp: socks_step_def socks_close_def tidy_def shaking_def closing_steps)
  next
    case (Up_connected local)
    then show ?thesis using True assms
      by (cases "sx_phase s") (auto simp: socks_step_def on_upstream_connected_def Let_def tidy_def shaking_def reset_idle_timer_def send_bytes_def
          socks_event_allowed_def)
  next
    case (Up_data bytes)
    then show ?thesis using True assms
      by (auto simp: socks_step_def on_upstream_message_def socks_close_def tidy_def shaking_def closing_steps reset_idle_timer_def
          socks_event_allowed_def)
  next
    case Up_closed
    then show ?thesis using True assms
      by (auto simp: socks_step_def on_upstream_disconnected_def tidy_def shaking_def closing_steps send_bytes_def
          socks_event_allowed_def)
  next
    case Handshake_timeout
    then show ?thesis using True assms
      by (cases "sx_phase s") (auto simp: socks_step_def on_handshake_timeout_def tidy_def shaking_def closing_steps send_bytes_def)
  qed (use True assms in \<open>auto simp: socks_event_allowed_def socks_step_def on_upstream_connect_failed_def
      on_connect_timeout_def on_idle_timeout_def run_cleanup_def tidy_def shaking_def closing_steps send_bytes_def\<close>)
qed (use assms in \<open>simp add: socks_step_def\<close>)

text \<open>
  A closed session leaves nothing behind. Whatever happened to it, a session in its last phase has no timer
  armed, and holds neither its client, the target's connection nor itself, or the clean-up that drops all three is
  in the loop's queue.\<close>

theorem socks_closed_tidy:
  assumes "sx_phase (socks_run cfg es) = Closed"
  shows "\<not> sx_connect_timer (socks_run cfg es) \<and> \<not> sx_handshake_timer (socks_run cfg es) \<and>
    \<not> sx_idle_timer (socks_run cfg es) \<and>
    (sx_client (socks_run cfg es) = None \<and> \<not> sx_upstream (socks_run cfg es) \<and> \<not> sx_self_hold (socks_run cfg es) \<or>
     sx_cleanup_queued (socks_run cfg es))"
proof -
  have "tidy (fold (socks_step cfg) es s)" if "tidy s" for s
    using that tidy_step by (induction es arbitrary: s) auto
  moreover have "tidy (socks_start cfg socks_new)"
    by (simp add: tidy_def socks_start_def socks_new_def shaking_def)
  ultimately have "tidy (socks_run cfg es)" by (simp add: socks_run_def)
  then show ?thesis using assms by (simp add: tidy_def)
qed

theorem socks_closed_tidy_witness:
  "\<not> sx_connect_timer (socks_run secret_proxy (chat_events @ [Up_closed])) \<and>
   \<not> sx_handshake_timer (socks_run secret_proxy (chat_events @ [Up_closed])) \<and>
   \<not> sx_idle_timer (socks_run secret_proxy (chat_events @ [Up_closed])) \<and>
   sx_cleanup_queued (socks_run secret_proxy (chat_events @ [Up_closed]))"
proof -
  have closed: "sx_phase (socks_run secret_proxy (chat_events @ [Up_closed])) = Closed"
    and client: "sx_client (socks_run secret_proxy (chat_events @ [Up_closed])) \<noteq> None"
    by code_simp+
  from socks_closed_tidy [OF closed] client show ?thesis by blast
qed

subsection \<open>What the proxy gets wrong\<close>

text \<open>
  A client whose target cannot be reached stays paused behind the failure reply: its own end of stream is never
  read, and no timer is left to close the connection.
\<close>

lemma refused_connection_stays_paused:
  "(\<lambda>s. (sx_phase s, sx_paused s, sx_shutdown s, sx_forced s, sx_gone s, sx_connect_timer s, sx_handshake_timer s))
     (socks_run secret_proxy (take 3 chat_events @ [Up_failed, Cleanup])) = (Closed, True, True, False, False, False, False)"
  by code_simp

text \<open>When the target closes, the client's connection is forced closed, with whatever of the answer is still unsent.\<close>

lemma target_close_forces_client:
  "(\<lambda>s. (sx_forced s, sx_shutdown s)) (socks_run secret_proxy (chat_events @ [Up_data ''bye'', Up_closed])) = (True, False)"
  by code_simp

end
