(* ===== verification/Log_Stream.thy ===== *)
theory Log_Stream
  imports Prelude
begin

text \<open>
  \<open>LogStream\<close> (src/src/base/log_stream.cpp, src/include/oklib/base/log_stream.h): the text of one log
  message, kept in an inline buffer of 4096 bytes and moved to a string when it no longer fits. The
  inline buffer is the list of the bytes in use. The overloads for floating-point numbers, which print
  through \<open>snprintf\<close>, and for arbitrary types, which print through \<open>std::ostringstream\<close>, are left out.
\<close>

datatype integer_base = Decimal | Hexadecimal | Octal

record log_stream =
  ls_inline :: string
  ls_overflow :: string
  ls_base :: integer_base

definition log_stream_new :: log_stream where
  "log_stream_new = \<lparr>ls_inline = [], ls_overflow = [], ls_base = Decimal\<rparr>"

definition k_inline_buffer_size :: nat where
  "k_inline_buffer_size = 4096"

definition ensure_overflow_buffer :: "log_stream \<Rightarrow> log_stream" where
  "ensure_overflow_buffer s =
     (if ls_overflow s \<noteq> [] then s else s\<lparr>ls_overflow := ls_inline s, ls_inline := []\<rparr>)"

definition log_append :: "string \<Rightarrow> log_stream \<Rightarrow> log_stream" where
  "log_append value s =
     (if value = [] then s
      else if ls_overflow s = [] \<and> length (ls_inline s) + length value \<le> k_inline_buffer_size
      then s\<lparr>ls_inline := ls_inline s @ value\<rparr>
      else let s1 = ensure_overflow_buffer s in s1\<lparr>ls_overflow := ls_overflow s1 @ value\<rparr>)"

definition log_str :: "log_stream \<Rightarrow> string" where
  "log_str s = (if ls_overflow s \<noteq> [] then ls_overflow s else ls_inline s)"

definition log_size :: "log_stream \<Rightarrow> nat" where
  "log_size s = (if ls_overflow s = [] then length (ls_inline s) else length (ls_overflow s))"

text \<open>\<open>std::to_chars\<close> of a signed number in base ten.\<close>

definition to_chars_signed :: "int \<Rightarrow> string" where
  "to_chars_signed value = (if value < 0 then ''-'' @ to_chars 10 (nat (- value)) else to_chars 10 (nat value))"

definition append_unsigned_integer :: "nat \<Rightarrow> log_stream \<Rightarrow> log_stream" where
  "append_unsigned_integer value s =
     (let base = (case ls_base s of Hexadecimal \<Rightarrow> 16 | Octal \<Rightarrow> 8 | Decimal \<Rightarrow> 10) in
      log_append (to_chars base value) s)"

text \<open>\<open>width\<close> is the number of bits of the type; the cast to unsigned is modulo its range.\<close>

definition append_integer :: "nat \<Rightarrow> int \<Rightarrow> log_stream \<Rightarrow> log_stream" where
  "append_integer width value s =
     (if ls_base s = Decimal then log_append (to_chars_signed value) s
      else append_unsigned_integer (nat (value mod 2 ^ width)) s)"

definition append_char :: "char \<Rightarrow> log_stream \<Rightarrow> log_stream" where
  "append_char value = log_append [value]"

definition append_pointer :: "u64 \<Rightarrow> log_stream \<Rightarrow> log_stream" where
  "append_pointer value s = log_append (to_chars 16 (unat value)) (log_append ''0x'' s)"

text \<open>
  What is put into a stream: the widths of the integer types are an argument, \<open>Log_text None\<close> is a null
  pointer to characters.
\<close>

datatype log_value = Log_bool bool | Log_char char | Log_signed nat int | Log_unsigned nat
  | Log_pointer u64 | Log_text "string option" | Log_nullptr | Log_base integer_base

fun log_put :: "log_value \<Rightarrow> log_stream \<Rightarrow> log_stream" where
  "log_put (Log_bool value) s = log_append (if value then ''1'' else ''0'') s"
| "log_put (Log_char value) s = append_char value s"
| "log_put (Log_signed width value) s = append_integer width value s"
| "log_put (Log_unsigned value) s = append_unsigned_integer value s"
| "log_put (Log_pointer value) s = append_pointer value s"
| "log_put (Log_text value) s = log_append (case value of None \<Rightarrow> ''(null)'' | Some t \<Rightarrow> t) s"
| "log_put Log_nullptr s = log_append ''(null)'' s"
| "log_put (Log_base base) s = s\<lparr>ls_base := base\<rparr>"

definition log_puts :: "log_value list \<Rightarrow> log_stream \<Rightarrow> log_stream" where
  "log_puts values s = fold log_put values s"

subsection \<open>The text of a message\<close>

lemma log_str_append [simp]: "log_str (log_append value s) = log_str s @ value"
  by (simp add: log_append_def log_str_def ensure_overflow_buffer_def Let_def)

lemma log_append_base [simp]: "ls_base (log_append value s) = ls_base s"
  by (simp add: log_append_def ensure_overflow_buffer_def Let_def)

lemma log_size_str: "log_size s = length (log_str s)"
  by (simp add: log_size_def log_str_def)

text \<open>The reference: the printed values one behind the other, in the base last chosen.\<close>

fun base_value :: "integer_base \<Rightarrow> nat" where
  "base_value Decimal = 10"
| "base_value Hexadecimal = 16"
| "base_value Octal = 8"

fun log_text :: "integer_base \<Rightarrow> log_value list \<Rightarrow> string" where
  "log_text b [] = []"
| "log_text b (Log_base b' # vs) = log_text b' vs"
| "log_text b (Log_bool v # vs) = (if v then ''1'' else ''0'') @ log_text b vs"
| "log_text b (Log_char c # vs) = c # log_text b vs"
| "log_text b (Log_signed w v # vs) =
     (if b = Decimal then to_chars_signed v else to_chars (base_value b) (nat (v mod 2 ^ w))) @ log_text b vs"
| "log_text b (Log_unsigned v # vs) = to_chars (base_value b) v @ log_text b vs"
| "log_text b (Log_pointer v # vs) = ''0x'' @ to_chars 16 (unat v) @ log_text b vs"
| "log_text b (Log_text None # vs) = ''(null)'' @ log_text b vs"
| "log_text b (Log_text (Some t) # vs) = t @ log_text b vs"
| "log_text b (Log_nullptr # vs) = ''(null)'' @ log_text b vs"

lemma base_value_cases: "(case b of Hexadecimal \<Rightarrow> 16 | Octal \<Rightarrow> 8 | Decimal \<Rightarrow> 10) = base_value b"
  by (cases b) simp_all

lemma log_puts_from: "log_str (log_puts vs s) = log_str s @ log_text (ls_base s) vs"
  unfolding log_puts_def
proof (induction vs arbitrary: s)
  case (Cons v vs)
  show ?case
  proof (cases v)
    case (Log_text t)
    then show ?thesis by (cases t) (simp_all add: Cons.IH)
  next
    case (Log_base b)
    then show ?thesis by (simp add: Cons.IH) (simp add: log_str_def)
  qed (simp_all add: Cons.IH append_char_def append_integer_def append_unsigned_integer_def append_pointer_def
        base_value_cases Let_def)
qed simp

text \<open>No byte of a message is lost or moved when it outgrows the inline buffer.\<close>

lemma log_stream_text:
  "log_str (log_puts vs log_stream_new) = log_text Decimal vs \<and>
   log_size (log_puts vs log_stream_new) = length (log_text Decimal vs)"
  by (simp add: log_size_str log_puts_from) (simp add: log_str_def log_stream_new_def)

definition log_stream_ok :: "log_stream \<Rightarrow> bool" where
  "log_stream_ok s \<longleftrightarrow> length (ls_inline s) \<le> k_inline_buffer_size \<and> (ls_overflow s \<noteq> [] \<longrightarrow> ls_inline s = [])"

lemma log_append_ok: "log_stream_ok s \<Longrightarrow> log_stream_ok (log_append value s)"
  by (auto simp: log_stream_ok_def log_append_def ensure_overflow_buffer_def Let_def)

lemma log_puts_ok: "log_stream_ok s \<Longrightarrow> log_stream_ok (log_puts vs s)"
  unfolding log_puts_def
proof (induction vs arbitrary: s)
  case (Cons v vs)
  have "log_stream_ok (log_put v s)"
    using Cons.prems by (cases v) (simp_all add: log_append_ok append_char_def append_integer_def
        append_unsigned_integer_def append_pointer_def Let_def, simp add: log_stream_ok_def)
  then show ?case by (simp add: Cons.IH)
qed simp

text \<open>A number printed in base ten, sixteen or eight reads back as itself.\<close>

lemma log_unsigned_reads_back:
  "numeral_value (base_value b) (log_text b [Log_unsigned v]) = v"
  by (cases b) (simp_all add: numeral_value_to_chars)

end
