(* ===== verification/Logging.thy ===== *)
theory Logging
  imports Log_Stream "HOL-Library.AList"
begin

text \<open>
  The logger (src/src/base/logging.cpp): messages, the files they go to, the rolling of a file that
  has grown to its limit, and the thread that writes. A path is a directory, in normal form, and a file name; the
  files are a map from paths to contents, which no other process changes. Opening a file succeeds;
  whether a rename fails is an argument, as are the roll size and the number of rolled files.
\<close>

subsection \<open>Messages\<close>

datatype log_level = Level_trace | Level_debug | Level_info | Level_warn | Level_error | Level_fatal

fun level_number :: "log_level \<Rightarrow> int" where
  "level_number Level_trace = 0"
| "level_number Level_debug = 1"
| "level_number Level_info = 2"
| "level_number Level_warn = 3"
| "level_number Level_error = 4"
| "level_number Level_fatal = 5"

fun level_name :: "log_level \<Rightarrow> string" where
  "level_name Level_trace = ''TRACE''"
| "level_name Level_debug = ''DEBUG''"
| "level_name Level_info = ''INFO''"
| "level_name Level_warn = ''WARN''"
| "level_name Level_error = ''ERROR''"
| "level_name Level_fatal = ''FATAL''"

fun level_suffix :: "log_level \<Rightarrow> string" where
  "level_suffix Level_trace = ''trace''"
| "level_suffix Level_debug = ''debug''"
| "level_suffix Level_info = ''info''"
| "level_suffix Level_warn = ''warn''"
| "level_suffix Level_error = ''error''"
| "level_suffix Level_fatal = ''fatal''"

text \<open>What follows the last slash or backslash.\<close>

definition is_separator :: "char \<Rightarrow> bool" where
  "is_separator c \<longleftrightarrow> c = CHR 0x2F \<or> c = CHR 0x5C"

fun basename_from :: "string \<Rightarrow> string \<Rightarrow> string" where
  "basename_from base [] = base"
| "basename_from base (c # p) = basename_from (if is_separator c then p else base) p"

definition log_basename :: "string \<Rightarrow> string" where
  "log_basename path = basename_from path path"

text \<open>The constructor writes the head of the line, with the time and the thread as texts; the body is streamed.\<close>

definition logger_head :: "string \<Rightarrow> string \<Rightarrow> log_level \<Rightarrow> string \<Rightarrow> int \<Rightarrow> log_stream" where
  "logger_head time thread level file line =
     log_puts [Log_text (Some time), Log_char CHR '' '', Log_text (Some (level_name level)), Log_char CHR '' '',
       Log_text (Some thread), Log_char CHR '' '', Log_text (Some (log_basename file)), Log_char CHR '':'',
       Log_signed 32 line, Log_text (Some '' - '')] log_stream_new"

subsection \<open>Settings\<close>

record log_config =
  lc_roll_size :: nat
  lc_max_files :: nat
  lc_flush_interval :: int

definition default_log_config :: log_config where
  "default_log_config =
     \<lparr>lc_roll_size = 256 * 1024 * 1024, lc_max_files = 5, lc_flush_interval = 3000\<rparr>"

text \<open>What \<open>Logger\<close> keeps behind its mutex; \<open>lg_output\<close> is whether an output function replaces the files.\<close>

record logger_settings =
  lg_level :: log_level
  lg_output :: bool
  lg_directory :: string
  lg_basename :: string
  lg_config :: log_config

definition set_level :: "log_level \<Rightarrow> logger_settings \<Rightarrow> logger_settings" where
  "set_level level g = g\<lparr>lg_level := level\<rparr>"

definition set_output :: "bool \<Rightarrow> logger_settings \<Rightarrow> logger_settings" where
  "set_output output g = g\<lparr>lg_output := output\<rparr>"

definition set_log_directory :: "string \<Rightarrow> logger_settings \<Rightarrow> logger_settings" where
  "set_log_directory directory g = g\<lparr>lg_directory := directory\<rparr>"

definition set_file_basename :: "string \<Rightarrow> string \<Rightarrow> logger_settings \<Rightarrow> logger_settings" where
  "set_file_basename program_name basename g = g\<lparr>lg_basename := if basename = [] then program_name else basename\<rparr>"

definition set_flush_interval :: "int \<Rightarrow> logger_settings \<Rightarrow> logger_settings" where
  "set_flush_interval interval g =
     g\<lparr>lg_config := (lg_config g)\<lparr>lc_flush_interval := if interval < 1 then 1 else interval\<rparr>\<rparr>"

definition set_roll_size :: "nat \<Rightarrow> logger_settings \<Rightarrow> logger_settings" where
  "set_roll_size bytes g = g\<lparr>lg_config := (lg_config g)\<lparr>lc_roll_size := if bytes < 1 then 1 else bytes\<rparr>\<rparr>"

definition set_max_roll_files :: "nat \<Rightarrow> logger_settings \<Rightarrow> logger_settings" where
  "set_max_roll_files files g = g\<lparr>lg_config := (lg_config g)\<lparr>lc_max_files := files\<rparr>\<rparr>"

definition log_enabled :: "log_level \<Rightarrow> logger_settings \<Rightarrow> bool" where
  "log_enabled level g \<longleftrightarrow> level_number level \<ge> level_number (lg_level g)"

record log_event =
  le_level :: log_level
  le_directory :: string
  le_basename :: string
  le_message :: string

text \<open>What the destructor does: the text handed to the output, or the event for the files; and whether it aborts.\<close>

definition logger_destroy :: "logger_settings \<Rightarrow> log_level \<Rightarrow> log_stream \<Rightarrow> (string + log_event) \<times> bool" where
  "logger_destroy g level stream =
     (let message = log_str (log_put (Log_char CHR 0x0A) stream)
      in (if lg_output g then Inl message
          else Inr \<lparr>le_level = level, le_directory = lg_directory g, le_basename = lg_basename g, le_message = message\<rparr>,
          level = Level_fatal))"

definition k_log_buffer_flush_size :: nat where
  "k_log_buffer_flush_size = 4 * 1024 * 1024"

subsection \<open>Paths\<close>

type_synonym log_file = "string \<times> string"
type_synonym log_files = "log_file \<rightharpoonup> string"

definition log_path :: "string \<Rightarrow> string \<Rightarrow> log_level \<Rightarrow> log_file" where
  "log_path directory basename level = (directory, basename @ ''.'' @ level_suffix level @ ''.log'')"

text \<open>The last dot of a file name, the point where \<open>std::filesystem\<close> separates stem and extension.\<close>

fun last_dot :: "string \<Rightarrow> nat option" where
  "last_dot [] = None"
| "last_dot (c # s) =
     (case last_dot s of Some i \<Rightarrow> Some (Suc i) | None \<Rightarrow> if c = CHR ''.'' then Some 0 else None)"

definition log_stem :: "string \<Rightarrow> string" where
  "log_stem name = (case last_dot name of None \<Rightarrow> name | Some i \<Rightarrow> if i = 0 then name else take i name)"

definition log_extension :: "string \<Rightarrow> string" where
  "log_extension name = (case last_dot name of None \<Rightarrow> [] | Some i \<Rightarrow> if i = 0 then [] else drop i name)"

definition indexed_log_path :: "log_file \<Rightarrow> nat \<Rightarrow> log_file" where
  "indexed_log_path base_path index =
     (if index = 0 then base_path
      else (fst base_path, log_stem (snd base_path) @ ''.'' @ to_chars 10 index @ log_extension (snd base_path)))"

definition file_size_or_zero :: "log_files \<Rightarrow> log_file \<Rightarrow> nat" where
  "file_size_or_zero fs path = (case fs path of None \<Rightarrow> 0 | Some c \<Rightarrow> length c)"

subsection \<open>One file and its rolled copies\<close>

text \<open>A sink without a path is \<open>None\<close>; \<open>sk_stream\<close> is what an open stream has not given to the file.\<close>

record log_sink =
  sk_base :: "log_file option"
  sk_stream :: "string option"
  sk_written :: nat

definition sink_new :: log_sink where
  "sink_new = \<lparr>sk_base = None, sk_stream = None, sk_written = 0\<rparr>"

definition ensure_sink :: "log_files \<Rightarrow> log_file \<Rightarrow> log_sink \<Rightarrow> log_sink" where
  "ensure_sink fs path sink =
     (if sk_base sink \<noteq> None then sink
      else sink\<lparr>sk_base := Some path, sk_written := file_size_or_zero fs path\<rparr>)"

definition append_file :: "log_file \<Rightarrow> string \<Rightarrow> log_files \<Rightarrow> log_files" where
  "append_file path text fs = fs(path \<mapsto> (case fs path of None \<Rightarrow> text | Some c \<Rightarrow> c @ text))"

definition flush_stream :: "log_files \<times> log_sink \<Rightarrow> log_files \<times> log_sink" where
  "flush_stream = (\<lambda>(fs, sink).
     case sk_stream sink of
       None \<Rightarrow> (fs, sink)
     | Some text \<Rightarrow> (append_file (the (sk_base sink)) text fs, sink\<lparr>sk_stream := Some []\<rparr>))"

definition write_to_sink :: "string \<Rightarrow> log_files \<times> log_sink \<Rightarrow> log_files \<times> log_sink" where
  "write_to_sink text = (\<lambda>(fs, sink).
     let (fs1, sink1) =
           (case sk_stream sink of
              Some _ \<Rightarrow> (fs, sink)
            | None \<Rightarrow>
                let fs' = append_file (the (sk_base sink)) [] fs
                in (fs', sink\<lparr>sk_stream := Some [], sk_written := file_size_or_zero fs' (the (sk_base sink))\<rparr>))
     in (fs1, sink1\<lparr>sk_stream := Some (the (sk_stream sink1) @ text), sk_written := sk_written sink1 + length text\<rparr>))"

text \<open>One turn of the loop: the file \<open>index - 1\<close> becomes the file \<open>index\<close>.\<close>

definition roll_file :: "(nat \<Rightarrow> bool) \<Rightarrow> log_file \<Rightarrow> nat \<Rightarrow> log_files \<Rightarrow> log_files" where
  "roll_file rename_fails base_path index fs =
     (let source = indexed_log_path base_path (index - 1); target = indexed_log_path base_path index in
      case fs source of
        None \<Rightarrow> fs
      | Some c \<Rightarrow>
          let fs1 = fs(target := None)
          in if rename_fails index then (if index = 1 then fs1(base_path \<mapsto> []) else fs1)
             else (fs1(source := None))(target \<mapsto> c))"

fun roll_files :: "(nat \<Rightarrow> bool) \<Rightarrow> log_file \<Rightarrow> nat \<Rightarrow> log_files \<Rightarrow> log_files" where
  "roll_files rename_fails base_path 0 fs = fs"
| "roll_files rename_fails base_path (Suc index) fs =
     roll_files rename_fails base_path index (roll_file rename_fails base_path (Suc index) fs)"

definition roll_sink :: "(nat \<Rightarrow> bool) \<Rightarrow> nat \<Rightarrow> log_files \<times> log_sink \<Rightarrow> log_files \<times> log_sink" where
  "roll_sink rename_fails max_files st =
     (let (fs, sink) = flush_stream st; closed = sink\<lparr>sk_stream := None, sk_written := 0\<rparr>; base = the (sk_base sink)
      in if max_files = 0 then (fs(base \<mapsto> []), closed)
         else (roll_files rename_fails base max_files fs, closed))"

definition write_record :: "(nat \<Rightarrow> bool) \<Rightarrow> log_config \<Rightarrow> string \<Rightarrow> log_files \<times> log_sink \<Rightarrow> log_files \<times> log_sink" where
  "write_record rename_fails cfg text st =
     (let written = sk_written (snd st);
          st1 = (if written > 0 \<and> (written \<ge> lc_roll_size cfg \<or> length text > lc_roll_size cfg - written)
                 then roll_sink rename_fails (lc_max_files cfg) st else st)
      in write_to_sink text st1)"

text \<open>A record is a line with its newline, or the text behind the last newline.\<close>

function write_records :: "(nat \<Rightarrow> bool) \<Rightarrow> log_config \<Rightarrow> string \<Rightarrow> log_files \<times> log_sink \<Rightarrow> log_files \<times> log_sink" where
  "write_records rename_fails cfg remaining st =
     (if remaining = [] then st
      else
        let record_size = (case find_char CHR 0x0A remaining of None \<Rightarrow> length remaining | Some newline \<Rightarrow> newline + 1)
        in write_records rename_fails cfg (drop record_size remaining)
             (write_record rename_fails cfg (take record_size remaining) st))"
  by pat_completeness auto
termination
  by (relation "measure (\<lambda>(_, _, remaining, _). length remaining)") (auto split: option.splits)

declare write_records.simps [simp del]

type_synonym log_sinks = "(log_file \<times> log_sink) list"

text \<open>\<open>write_buffer\<close> with the flush it is always asked for; the caller's buffer is empty afterwards.\<close>

definition write_buffer ::
    "(nat \<Rightarrow> bool) \<Rightarrow> log_config \<Rightarrow> log_file \<Rightarrow> string \<Rightarrow> log_files \<times> log_sinks \<Rightarrow> log_files \<times> log_sinks" where
  "write_buffer rename_fails cfg path buffer = (\<lambda>(fs, sinks).
     if buffer = [] then (fs, sinks)
     else
       let sink = ensure_sink fs path (case map_of sinks path of None \<Rightarrow> sink_new | Some sink \<Rightarrow> sink);
           (fs1, sink1) = flush_stream (write_records rename_fails cfg buffer (fs, sink))
       in (fs1, AList.update path sink1 sinks))"

subsection \<open>The writing thread\<close>

text \<open>
  Where the thread is: not started, at the wait (which ends in the critical region that takes the events),
  writing without the mutex, at the region that publishes the generation flushed, at the region
  that tests for the end, or past the last flush.
\<close>

datatype log_phase = Log_not_started | Log_waiting | Log_writing "log_event list" bool nat
  | Log_publishing nat | Log_checking | Log_finished

text \<open>
  The buffers and sinks are in the order of their first use; a file belongs to one path, so the order
  of a \<open>std::map\<close> does not show. \<open>al_log\<close> is every event appended and \<open>al_requests\<close> the generation of
  every flush asked for with the number of events appended before it.
\<close>

record async_logger =
  al_pending :: "log_event list"
  al_stopping :: bool
  al_flush_requested :: bool
  al_flush_generation :: nat
  al_flushed_generation :: nat
  al_interval_generation :: nat
  al_observed_interval :: nat
  al_next_flush :: int
  al_phase :: log_phase
  al_buffers :: "(log_file \<times> string) list"
  al_sinks :: log_sinks
  al_files :: log_files
  al_log :: "log_event list"
  al_requests :: "(nat \<times> nat) list"

definition async_logger_new :: async_logger where
  "async_logger_new =
     \<lparr>al_pending = [], al_stopping = False, al_flush_requested = False, al_flush_generation = 0,
      al_flushed_generation = 0, al_interval_generation = 0, al_observed_interval = 0, al_next_flush = 0,
      al_phase = Log_not_started, al_buffers = [], al_sinks = [], al_files = Map.empty, al_log = [], al_requests = []\<rparr>"

definition ensure_started :: "log_config \<Rightarrow> int \<Rightarrow> async_logger \<Rightarrow> async_logger" where
  "ensure_started cfg now s =
     (if al_phase s \<noteq> Log_not_started then s
      else s\<lparr>al_phase := Log_waiting, al_next_flush := now + lc_flush_interval cfg\<rparr>)"

definition logger_append :: "log_config \<Rightarrow> int \<Rightarrow> log_event \<Rightarrow> async_logger \<Rightarrow> async_logger" where
  "logger_append cfg now event s =
     (let s1 = ensure_started cfg now s in s1\<lparr>al_pending := al_pending s1 @ [event], al_log := al_log s1 @ [event]\<rparr>)"

text \<open>\<open>flush()\<close> up to its wait, and the condition that ends the wait.\<close>

definition logger_flush :: "log_config \<Rightarrow> int \<Rightarrow> async_logger \<Rightarrow> async_logger" where
  "logger_flush cfg now s =
     (let s1 = ensure_started cfg now s; generation = al_flush_generation s1 + 1
      in s1\<lparr>al_flush_generation := generation, al_flush_requested := True,
            al_requests := al_requests s1 @ [(generation, length (al_log s1))]\<rparr>)"

definition flush_returns :: "nat \<Rightarrow> async_logger \<Rightarrow> bool" where
  "flush_returns generation s \<longleftrightarrow> generation \<le> al_flushed_generation s"

definition notify_flush_interval_changed :: "async_logger \<Rightarrow> async_logger" where
  "notify_flush_interval_changed s = s\<lparr>al_interval_generation := al_interval_generation s + 1\<rparr>"

definition logger_stop :: "async_logger \<Rightarrow> async_logger" where
  "logger_stop s = (if al_phase s = Log_not_started then s else s\<lparr>al_stopping := True\<rparr>)"

text \<open>The region behind \<open>wait_until\<close>; \<open>None\<close> while the thread sleeps.\<close>

definition log_worker_take :: "log_config \<Rightarrow> int \<Rightarrow> async_logger \<Rightarrow> async_logger option" where
  "log_worker_take cfg now s =
     (if al_stopping s \<or> al_flush_requested s \<or> al_pending s \<noteq> [] \<or>
         al_interval_generation s \<noteq> al_observed_interval s \<or> now \<ge> al_next_flush s
      then
        let s1 = (if al_interval_generation s \<noteq> al_observed_interval s
                  then s\<lparr>al_observed_interval := al_interval_generation s, al_next_flush := now + lc_flush_interval cfg\<rparr>
                  else s);
            interval_due = now \<ge> al_next_flush s1;
            force_flush = al_flush_requested s1 \<or> al_stopping s1 \<or> interval_due;
            s2 = s1\<lparr>al_phase := Log_writing (al_pending s1) force_flush (al_flush_generation s1),
                    al_pending := [], al_flush_requested := False\<rparr>
        in Some (if interval_due then s2\<lparr>al_next_flush := now + lc_flush_interval cfg\<rparr> else s2)
      else None)"

type_synonym log_store = "(log_file \<times> string) list \<times> (log_files \<times> log_sinks)"

definition buffer_event :: "(nat \<Rightarrow> bool) \<Rightarrow> log_config \<Rightarrow> log_event \<Rightarrow> log_store \<Rightarrow> log_store" where
  "buffer_event rename_fails cfg event = (\<lambda>(buffers, st).
     let path = log_path (le_directory event) (le_basename event) (le_level event);
         buffer = (case map_of buffers path of None \<Rightarrow> [] | Some b \<Rightarrow> b) @ le_message event
     in if length buffer \<ge> k_log_buffer_flush_size
        then (AList.update path [] buffers, write_buffer rename_fails cfg path buffer st)
        else (AList.update path buffer buffers, st))"

fun flush_sinks :: "log_sinks \<Rightarrow> log_files \<Rightarrow> log_files \<times> log_sinks" where
  "flush_sinks [] fs = (fs, [])"
| "flush_sinks ((path, sink) # sinks) fs =
     (let (fs1, sink1) = flush_stream (fs, sink); (fs2, sinks2) = flush_sinks sinks fs1 in (fs2, (path, sink1) # sinks2))"

definition flush_buffers :: "(nat \<Rightarrow> bool) \<Rightarrow> log_config \<Rightarrow> log_store \<Rightarrow> log_store" where
  "flush_buffers rename_fails cfg = (\<lambda>(buffers, st).
     let (fs, sinks) = fold (\<lambda>(path, buffer). write_buffer rename_fails cfg path buffer) buffers st
     in (map (\<lambda>(path, buffer). (path, [])) buffers, flush_sinks sinks fs))"

definition logger_store :: "async_logger \<Rightarrow> log_store" where
  "logger_store s = (al_buffers s, (al_files s, al_sinks s))"

definition with_store :: "log_store \<Rightarrow> async_logger \<Rightarrow> async_logger" where
  "with_store = (\<lambda>(buffers, (fs, sinks)) s. s\<lparr>al_buffers := buffers, al_files := fs, al_sinks := sinks\<rparr>)"

definition log_worker_write :: "(nat \<Rightarrow> bool) \<Rightarrow> log_config \<Rightarrow> log_event list \<Rightarrow> bool \<Rightarrow> nat \<Rightarrow> async_logger \<Rightarrow> async_logger" where
  "log_worker_write rename_fails cfg events force_flush generation s =
     (let store = fold (buffer_event rename_fails cfg) events (logger_store s);
          s1 = with_store (if force_flush then flush_buffers rename_fails cfg store else store) s
      in s1\<lparr>al_phase := if force_flush then Log_publishing generation else Log_checking\<rparr>)"

definition log_worker_check :: "(nat \<Rightarrow> bool) \<Rightarrow> log_config \<Rightarrow> async_logger \<Rightarrow> async_logger" where
  "log_worker_check rename_fails cfg s =
     (if al_stopping s \<and> al_pending s = []
      then (with_store (flush_buffers rename_fails cfg (logger_store s)) s)\<lparr>al_phase := Log_finished\<rparr>
      else s\<lparr>al_phase := Log_waiting\<rparr>)"

definition log_worker_step :: "(nat \<Rightarrow> bool) \<Rightarrow> log_config \<Rightarrow> int \<Rightarrow> async_logger \<Rightarrow> async_logger option" where
  "log_worker_step rename_fails cfg now s =
     (case al_phase s of
        Log_waiting \<Rightarrow> log_worker_take cfg now s
      | Log_writing events force_flush generation \<Rightarrow> Some (log_worker_write rename_fails cfg events force_flush generation s)
      | Log_publishing generation \<Rightarrow> Some (s\<lparr>al_flushed_generation := generation, al_phase := Log_checking\<rparr>)
      | Log_checking \<Rightarrow> Some (log_worker_check rename_fails cfg s)
      | _ \<Rightarrow> None)"

text \<open>Any thread may append, flush or stop between two steps of the writing thread.\<close>

datatype log_input = Log_append int log_event | Log_flush int | Log_interval | Log_stop | Log_worker int

fun log_step :: "(nat \<Rightarrow> bool) \<Rightarrow> log_config \<Rightarrow> log_input \<Rightarrow> async_logger \<Rightarrow> async_logger option" where
  "log_step rename_fails cfg (Log_append now event) s = Some (logger_append cfg now event s)"
| "log_step rename_fails cfg (Log_flush now) s = Some (logger_flush cfg now s)"
| "log_step rename_fails cfg Log_interval s = Some (notify_flush_interval_changed s)"
| "log_step rename_fails cfg Log_stop s = Some (logger_stop s)"
| "log_step rename_fails cfg (Log_worker now) s = log_worker_step rename_fails cfg now s"

fun log_run :: "(nat \<Rightarrow> bool) \<Rightarrow> log_config \<Rightarrow> log_input list \<Rightarrow> async_logger \<Rightarrow> async_logger option" where
  "log_run rename_fails cfg [] s = Some s"
| "log_run rename_fails cfg (i # inputs) s =
     (case log_step rename_fails cfg i s of None \<Rightarrow> None | Some s1 \<Rightarrow> log_run rename_fails cfg inputs s1)"

end
