(* ===== verification/Logging_Laws.thy ===== *)
theory Logging_Laws
  imports Logging
begin

text \<open>
  What the log files hold: the files of one path, from the oldest to the newest, are the end of everything
  written to it, and only whole files of the oldest bytes are ever dropped.
\<close>

subsection \<open>Paths do not collide\<close>

lemma last_dot_None [simp]: "CHR ''.'' \<notin> set s \<Longrightarrow> last_dot s = None"
  by (induction s) auto

lemma last_dot_split: "CHR ''.'' \<notin> set b \<Longrightarrow> last_dot (a @ CHR ''.'' # b) = Some (length a)"
  by (induction a) auto

lemma dot_split_unique:
  assumes "a @ CHR ''.'' # x = c @ CHR ''.'' # y" and "CHR ''.'' \<notin> set x" and "CHR ''.'' \<notin> set y"
  shows "a = c \<and> x = y"
proof -
  have "length a = length c"
    using arg_cong [OF assms(1), of last_dot] assms(2,3) by (simp add: last_dot_split)
  then show ?thesis using assms(1) by simp
qed

definition log_name :: "log_file \<Rightarrow> bool" where
  "log_name p \<longleftrightarrow> (\<exists>directory basename level. p = log_path directory basename level)"

lemma log_path_name [intro, simp]: "log_name (log_path d b l)"
  by (auto simp: log_name_def)

lemma indexed_0 [simp]: "indexed_log_path p 0 = p"
  by (simp add: indexed_log_path_def)

lemma indexed_name:
  "0 < i \<Longrightarrow> indexed_log_path (log_path d b l) i = (d, b @ ''.'' @ level_suffix l @ ''.'' @ to_chars 10 i @ ''.log'')"
proof -
  assume i: "0 < i"
  have "last_dot (b @ ''.'' @ level_suffix l @ ''.log'') = Some (length (b @ ''.'' @ level_suffix l))"
    using last_dot_split [of "''log''" "b @ ''.'' @ level_suffix l"] by simp
  then show ?thesis
    using i by (simp add: indexed_log_path_def log_path_def log_stem_def log_extension_def)
qed

lemma to_chars_no_dot: "CHR ''.'' \<notin> set (to_chars 10 i)"
  by (rule to_chars_not_in) (simp_all add: is_digit_def digit_value_def in_range_def)

lemma level_suffix_no_dot: "CHR ''.'' \<notin> set (level_suffix l)"
  by (cases l) simp_all

lemma level_suffix_no_number: "level_suffix l \<noteq> to_chars 10 i"
proof
  assume eq: "level_suffix l = to_chars 10 i"
  have "\<exists>c \<in> set (level_suffix l). \<not> is_digit 10 c"
    by (cases l) (simp_all add: is_digit_def digit_value_def in_range_def)
  then show False using eq to_chars_digits [of 10 _ i] by auto
qed

lemma append_log_eq: "a @ ''.log'' = b @ ''.log'' \<longleftrightarrow> a = b"
  by simp

lemma indexed_log_path_inj:
  assumes "log_name p" and "log_name q" and eq: "indexed_log_path p i = indexed_log_path q j"
  shows "p = q \<and> i = j"
proof -
  obtain d b l where p: "p = log_path d b l" using assms(1) by (auto simp: log_name_def)
  obtain e c m where q: "q = log_path e c m" using assms(2) by (auto simp: log_name_def)
  have mixed: False
    if "(b' @ ''.'' @ level_suffix l') @ ''.log'' = (c' @ ''.'' @ level_suffix m' @ ''.'' @ to_chars 10 k) @ ''.log''"
    for b' l' c' m' k
  proof -
    have "b' @ CHR ''.'' # level_suffix l' = (c' @ ''.'' @ level_suffix m') @ CHR ''.'' # to_chars 10 k"
      using that unfolding append_log_eq by simp
    from dot_split_unique [OF this level_suffix_no_dot to_chars_no_dot] show False
      using level_suffix_no_number by blast
  qed
  consider "i = 0" "j = 0" | "i = 0" "0 < j" | "0 < i" "j = 0" | "0 < i" "0 < j" by fastforce
  then show ?thesis
  proof cases
    case 1 then show ?thesis using eq by simp
  next
    case 2
    then have "(b @ ''.'' @ level_suffix l) @ ''.log'' = (c @ ''.'' @ level_suffix m @ ''.'' @ to_chars 10 j) @ ''.log''"
      using eq by (simp add: p q indexed_name) (simp add: log_path_def)
    then show ?thesis using mixed by blast
  next
    case 3
    then have "(c @ ''.'' @ level_suffix m) @ ''.log'' = (b @ ''.'' @ level_suffix l @ ''.'' @ to_chars 10 i) @ ''.log''"
      using eq by (simp add: p q indexed_name) (simp add: log_path_def)
    then show ?thesis using mixed by blast
  next
    case 4
    then have de: "d = e" and
      "((b @ ''.'' @ level_suffix l) @ CHR ''.'' # to_chars 10 i) @ ''.log'' = ((c @ ''.'' @ level_suffix m) @ CHR ''.'' # to_chars 10 j) @ ''.log''"
      using eq by (simp_all add: p q indexed_name)
    then have eq2: "(b @ ''.'' @ level_suffix l) @ CHR ''.'' # to_chars 10 i = (c @ ''.'' @ level_suffix m) @ CHR ''.'' # to_chars 10 j"
      unfolding append_log_eq by simp
    from dot_split_unique [OF this to_chars_no_dot to_chars_no_dot]
    have stems: "b @ CHR ''.'' # level_suffix l = c @ CHR ''.'' # level_suffix m" and "to_chars 10 i = to_chars 10 j"
      by simp_all
    then have "numeral_value 10 (to_chars 10 i) = numeral_value 10 (to_chars 10 j)" by simp
    moreover have "b = c \<and> level_suffix l = level_suffix m"
      by (rule dot_split_unique [OF stems level_suffix_no_dot level_suffix_no_dot])
    ultimately show ?thesis by (simp add: p q de numeral_value_to_chars log_path_def)
  qed
qed

subsection \<open>Rolling\<close>

definition content :: "log_files \<Rightarrow> log_file \<Rightarrow> string" where
  "content fs p = (case fs p of None \<Rightarrow> [] | Some c \<Rightarrow> c)"

text \<open>The files of a path with an index of at most \<open>n\<close>, the oldest first.\<close>

fun log_archive :: "nat \<Rightarrow> log_files \<Rightarrow> log_file \<Rightarrow> string" where
  "log_archive 0 fs p = content fs p"
| "log_archive (Suc n) fs p = content fs (indexed_log_path p (Suc n)) @ log_archive n fs p"

definition never :: "nat \<Rightarrow> bool" where
  "never = (\<lambda>_. False)"

lemma roll_file_at:
  assumes "log_name p"
  shows "roll_file never p (Suc n) fs (indexed_log_path p i) =
    (if fs (indexed_log_path p n) = None then fs (indexed_log_path p i)
     else if i = n then None else if i = Suc n then fs (indexed_log_path p n) else fs (indexed_log_path p i))"
proof -
  have inj: "indexed_log_path p a = indexed_log_path p b \<longleftrightarrow> a = b" for a b
    using indexed_log_path_inj [OF assms assms] by blast
  show ?thesis by (simp add: roll_file_def never_def Let_def inj split: option.splits)
qed

lemma roll_files_at:
  assumes "log_name p"
  shows "roll_files never p (Suc n) fs (indexed_log_path p i) =
    (if Suc n < i then fs (indexed_log_path p i)
     else if i = 0 then None
     else if i = Suc n \<and> fs (indexed_log_path p n) = None then fs (indexed_log_path p i)
     else fs (indexed_log_path p (i - 1)))"
proof (induction n arbitrary: fs i)
  case 0
  then show ?case using roll_file_at [OF assms, of 0 fs i] by (cases i) auto
next
  case (Suc n)
  have "roll_files never p (Suc (Suc n)) fs = roll_files never p (Suc n) (roll_file never p (Suc (Suc n)) fs)"
    by simp
  then show ?case
    by (simp only: Suc.IH roll_file_at [OF assms]) (auto simp: le_Suc_eq)
qed

definition elsewhere :: "log_file \<Rightarrow> log_file \<Rightarrow> bool" where
  "elsewhere p q \<longleftrightarrow> (\<forall>i. q \<noteq> indexed_log_path p i)"

lemma elsewhere_not_base: "elsewhere p q \<Longrightarrow> q \<noteq> p"
  unfolding elsewhere_def using indexed_0 by metis

lemma elsewhere_indexed: "log_name p \<Longrightarrow> log_name q \<Longrightarrow> p \<noteq> q \<Longrightarrow> elsewhere p (indexed_log_path q j)"
  unfolding elsewhere_def using indexed_log_path_inj by metis

lemma roll_file_other: "elsewhere p q \<Longrightarrow> roll_file rf p (Suc n) fs q = fs q"
  using elsewhere_not_base [of p q] by (auto simp: elsewhere_def roll_file_def Let_def split: option.splits)

lemma roll_files_other: "elsewhere p q \<Longrightarrow> roll_files rf p n fs q = fs q"
  by (induction n arbitrary: fs) (simp_all add: roll_file_other)

lemma log_archive_cong:
  "(\<And>i. i \<le> n \<Longrightarrow> fs (indexed_log_path p i) = fs' (indexed_log_path p i)) \<Longrightarrow> log_archive n fs p = log_archive n fs' p"
  using indexed_0 [of p] by (induction n) (force simp: content_def)+

lemma rolled_archive:
  assumes "log_name p"
  shows "log_archive (Suc n) (roll_files never p (Suc n) fs) p =
    (if fs (indexed_log_path p n) = None then log_archive (Suc n) fs p
     else drop (length (content fs (indexed_log_path p (Suc n)))) (log_archive (Suc n) fs p))"
proof -
  note at = roll_files_at [OF assms]
  define fs' where "fs' = roll_files never p (Suc n) fs"
  have low: "log_archive k fs' p = (case k of 0 \<Rightarrow> [] | Suc j \<Rightarrow> log_archive j fs p)" if "k \<le> n" for k
    using that
  proof (induction k)
    case 0
    then show ?case using at [of n fs 0] by (simp add: content_def fs'_def)
  next
    case (Suc k)
    then have "content fs' (indexed_log_path p (Suc k)) = content fs (indexed_log_path p k)"
      using at [of n fs "Suc k"] by (simp add: content_def fs'_def)
    then show ?case using Suc by (cases k) simp_all
  qed
  have "content fs' (indexed_log_path p (Suc n)) =
      (if fs (indexed_log_path p n) = None then content fs (indexed_log_path p (Suc n)) else content fs (indexed_log_path p n))"
    using at [of n fs "Suc n"] by (simp add: content_def fs'_def)
  then show ?thesis
    unfolding fs'_def [symmetric] using low [of n]
    by (cases n) (auto simp: content_def)
qed

subsection \<open>One path\<close>

definition buffered :: "log_sink \<Rightarrow> string" where
  "buffered sink = (case sk_stream sink of None \<Rightarrow> [] | Some t \<Rightarrow> t)"

text \<open>The file with an index; the newest includes what the open stream still holds.\<close>

definition log_content :: "log_file \<Rightarrow> log_files \<times> log_sink \<Rightarrow> nat \<Rightarrow> string" where
  "log_content p st i = content (fst st) (indexed_log_path p i) @ (if i = 0 then buffered (snd st) else [])"

definition one_record :: "string \<Rightarrow> bool" where
  "one_record c \<longleftrightarrow> CHR 0x0A \<notin> set (butlast c)"

text \<open>
  \<open>bytes\<close> is everything written to the path: the files hold its end, a byte is missing only when
  every file is in use, each file is used only if the next newer one is and could not take its first record,
  and a file larger than the limit is a single record.
\<close>

definition files_ok :: "log_config \<Rightarrow> log_file \<Rightarrow> string \<Rightarrow> log_files \<times> log_sink \<Rightarrow> bool" where
  "files_ok cfg p bytes st \<longleftrightarrow>
     (\<exists>k \<le> length bytes. log_archive (lc_max_files cfg) (fst st) p @ buffered (snd st) = drop k bytes \<and>
        (k = 0 \<or> lc_max_files cfg = 0 \<or> fst st (indexed_log_path p (lc_max_files cfg)) \<noteq> None)) \<and>
     (\<forall>i \<le> lc_max_files cfg. length (log_content p st i) \<le> lc_roll_size cfg \<or> one_record (log_content p st i))"

definition files_full :: "log_config \<Rightarrow> log_file \<Rightarrow> log_files \<times> log_sink \<Rightarrow> bool" where
  "files_full cfg p st \<longleftrightarrow>
     (\<forall>i < lc_max_files cfg. fst st (indexed_log_path p (Suc i)) \<noteq> None \<longrightarrow>
        fst st (indexed_log_path p i) \<noteq> None \<and>
        lc_roll_size cfg < length (log_content p st i) + length (log_content p st (Suc i)))"

definition sink_ok :: "log_file \<Rightarrow> log_files \<times> log_sink \<Rightarrow> bool" where
  "sink_ok p st \<longleftrightarrow> sk_base (snd st) = Some p \<and> sk_written (snd st) = length (log_content p st 0) \<and>
     (sk_stream (snd st) \<noteq> None \<longrightarrow> fst st p \<noteq> None)"

definition path_ok :: "log_config \<Rightarrow> log_file \<Rightarrow> string \<Rightarrow> log_files \<times> log_sink \<Rightarrow> bool" where
  "path_ok cfg p bytes st \<longleftrightarrow> sink_ok p st \<and> files_ok cfg p bytes st \<and> files_full cfg p st"

lemma content_simps [simp]:
  "fs p = None \<Longrightarrow> content fs p = []" "content (fs(p \<mapsto> c)) p = c" "p \<noteq> q \<Longrightarrow> content (fs(p := v)) q = content fs q"
  by (simp_all add: content_def)

lemma content_append [simp]: "content (append_file p t fs) q = content fs q @ (if q = p then t else [])"
  by (simp add: content_def append_file_def split: option.splits)

lemma append_file_at: "append_file p t fs p \<noteq> None" "q \<noteq> p \<Longrightarrow> append_file p t fs q = fs q"
  by (simp_all add: append_file_def)

lemma log_archive_append:
  assumes "log_name p"
  shows "log_archive n (append_file p t fs) p = log_archive n fs p @ t"
proof (induction n)
  case (Suc n)
  have "indexed_log_path p (Suc n) \<noteq> p"
    using indexed_log_path_inj [OF assms assms, of "Suc n" 0] by auto
  then show ?case using Suc by simp
qed simp

lemma indexed_Suc_not_base: "log_name p \<Longrightarrow> indexed_log_path p (Suc n) \<noteq> p"
  using indexed_log_path_inj [of p p "Suc n" 0] by auto

text \<open>Two states with the same files in all, up to what the stream holds, satisfy the same.\<close>

lemma flush_stream_ok:
  assumes p: "log_name p" and ok: "path_ok cfg p bytes st"
  shows "path_ok cfg p bytes (flush_stream st)"
proof -
  obtain fs sink where st: "st = (fs, sink)" by (cases st)
  show ?thesis
  proof (cases "sk_stream sink")
    case None
    then show ?thesis using ok by (simp add: st flush_stream_def)
  next
    case (Some t)
    have base: "sk_base sink = Some p" using ok by (simp add: st path_ok_def sink_ok_def)
    define st' where "st' = (append_file p t fs, sink\<lparr>sk_stream := Some []\<rparr>)"
    have st'_eq: "flush_stream st = st'"
      by (simp add: st flush_stream_def Some base st'_def)
    have c: "log_content p st' i = log_content p st i" for i
      using indexed_Suc_not_base [OF p] Some
      by (cases i) (simp_all add: log_content_def st'_def st buffered_def)
    have a: "log_archive n (fst st') p @ buffered (snd st') = log_archive n (fst st) p @ buffered (snd st)" for n
      by (simp add: st'_def st buffered_def Some log_archive_append [OF p])
    have e: "fst st' (indexed_log_path p i) \<noteq> None \<longleftrightarrow> fst st (indexed_log_path p i) \<noteq> None" for i
      using ok Some indexed_Suc_not_base [OF p]
      by (cases i) (auto simp: st'_def st append_file_def path_ok_def sink_ok_def)
    have "sink_ok p st'"
      using ok Some append_file_at(1) [of p t fs]
      by (simp add: path_ok_def sink_ok_def c) (simp add: st'_def st)
    then show ?thesis
      using ok unfolding path_ok_def st'_eq files_ok_def files_full_def c a e by blast
  qed
qed

lemma write_to_sink_effect:
  fixes t :: string and st :: "log_files \<times> log_sink"
  assumes p: "log_name p" and ok: "sink_ok p st"
  defines "st' \<equiv> write_to_sink t st"
  shows "sink_ok p st'" and "fst st' p \<noteq> None"
    and "log_content p st' 0 = log_content p st 0 @ t"
    and "log_content p st' (Suc i) = log_content p st (Suc i)"
    and "fst st' (indexed_log_path p (Suc i)) = fst st (indexed_log_path p (Suc i))"
    and "log_archive n (fst st') p @ buffered (snd st') = (log_archive n (fst st) p @ buffered (snd st)) @ t"
proof -
  obtain fs sink where st: "st = (fs, sink)" by (cases st)
  have base: "sk_base sink = Some p" using ok by (simp add: st sink_ok_def)
  note facts = st'_def st write_to_sink_def base log_content_def buffered_def sink_ok_def Let_def
  have size: "file_size_or_zero fs' p = length (content fs' p)" for fs'
    by (simp add: file_size_or_zero_def content_def split: option.splits)
  show "sink_ok p st'"
    using ok append_file_at(1) [of p "[]" fs]
    by (cases "sk_stream sink") (simp_all add: facts size)
  show "fst st' p \<noteq> None"
    using ok append_file_at(1) [of p "[]" fs] by (cases "sk_stream sink") (simp_all add: facts)
  show "log_content p st' 0 = log_content p st 0 @ t"
    using ok by (cases "sk_stream sink") (simp_all add: facts)
  show "log_content p st' (Suc i) = log_content p st (Suc i)"
    using indexed_Suc_not_base [OF p] by (cases "sk_stream sink") (simp_all add: facts)
  show "fst st' (indexed_log_path p (Suc i)) = fst st (indexed_log_path p (Suc i))"
    using indexed_Suc_not_base [OF p] by (cases "sk_stream sink") (simp_all add: facts append_file_at(2))
  show "log_archive n (fst st') p @ buffered (snd st') = (log_archive n (fst st) p @ buffered (snd st)) @ t"
    by (cases "sk_stream sink") (simp_all add: facts log_archive_append [OF p])
qed

text \<open>After a roll every file has the next index, and the newest is to be created.\<close>

lemma roll_sink_effect:
  fixes m :: nat and st :: "log_files \<times> log_sink"
  assumes p: "log_name p" and ok: "path_ok cfg p bytes st" and M: "lc_max_files cfg = Suc m"
    and written: "0 < sk_written (snd st)"
  defines "st' \<equiv> roll_sink never (Suc m) st"
  shows "sink_ok p st'" and "fst st' (indexed_log_path p 0) = None" and "log_content p st' 0 = []"
    and "i \<le> m \<Longrightarrow> log_content p st' (Suc i) = log_content p st i"
    and "i \<le> m \<Longrightarrow> fst st' (indexed_log_path p (Suc i)) \<noteq> None \<longleftrightarrow> fst st (indexed_log_path p i) \<noteq> None"
    and "\<exists>j \<le> length (log_archive (Suc m) (fst st) p @ buffered (snd st)).
      log_archive (Suc m) (fst st') p @ buffered (snd st') = drop j (log_archive (Suc m) (fst st) p @ buffered (snd st)) \<and>
      (j = 0 \<or> fst st' (indexed_log_path p (Suc m)) \<noteq> None)"
proof -
  define F where "F = flush_stream st"
  obtain fs sink where F: "F = (fs, sink)" by (cases F)
  have okF: "path_ok cfg p bytes F" unfolding F_def by (rule flush_stream_ok [OF p ok])
  have base: "sk_base sink = Some p" using okF by (simp add: F path_ok_def sink_ok_def)
  have bufF: "buffered sink = []"
    using F unfolding F_def flush_stream_def by (auto simp: buffered_def split: prod.splits option.splits)
  have st': "st' = (roll_files never p (Suc m) fs, sink\<lparr>sk_stream := None, sk_written := 0\<rparr>)"
    by (simp add: st'_def roll_sink_def F_def [symmetric] F base)
  obtain fs0 sink0 where st: "st = (fs0, sink0)" by (cases st)
  have base0: "sk_base sink0 = Some p" using ok by (simp add: st path_ok_def sink_ok_def)
  have stream: "sk_stream sink0 \<noteq> None \<Longrightarrow> fs0 p \<noteq> None"
    using ok by (simp add: st path_ok_def sink_ok_def)
  have F_cases: "fs = (case sk_stream sink0 of None \<Rightarrow> fs0 | Some t \<Rightarrow> append_file p t fs0)"
    using F unfolding F_def st flush_stream_def by (simp add: base0 split: option.splits)
  have same1: "log_content p F i = log_content p st i" for i
    using indexed_Suc_not_base [OF p] bufF
    by (cases i; cases "sk_stream sink0") (simp_all add: F st F_cases log_content_def buffered_def)
  have same2: "fs (indexed_log_path p i) \<noteq> None \<longleftrightarrow> fst st (indexed_log_path p i) \<noteq> None" for i
    using stream indexed_Suc_not_base [OF p] append_file_at(1) [of p _ fs0]
    by (cases i; cases "sk_stream sink0") (simp_all add: F_cases st append_file_at(2))
  have same3: "log_archive n fs p = log_archive n (fst st) p @ buffered (snd st)" for n
    by (cases "sk_stream sink0") (simp_all add: F_cases st buffered_def log_archive_append [OF p])
  note same = same1 same2 same3
  have at: "fst st' (indexed_log_path p i) = (if Suc m < i then fs (indexed_log_path p i) else if i = 0 then None
      else if i = Suc m \<and> fs (indexed_log_path p m) = None then fs (indexed_log_path p i) else fs (indexed_log_path p (i - 1)))" for i
    by (simp only: st' fst_conv roll_files_at [OF p])
  have full: "files_full cfg p F" using okF by (simp add: path_ok_def)
  have empty_top: "fs (indexed_log_path p (Suc m)) = None" if "fs (indexed_log_path p m) = None"
    using full that by (auto simp: files_full_def M F)
  have shifted: "fst st' (indexed_log_path p (Suc i)) = fs (indexed_log_path p i)" if "i \<le> m" for i
    using that at [of "Suc i"] empty_top by auto
  show gone: "fst st' (indexed_log_path p 0) = None" using at [of 0] by simp
  then show empty: "log_content p st' 0 = []" by (simp add: log_content_def st' buffered_def)
  then show "sink_ok p st'" using base by (simp add: sink_ok_def st')
  show "log_content p st' (Suc i) = log_content p st i" if "i \<le> m"
    using shifted [OF that] bufF same(1) [of i, symmetric] by (simp add: log_content_def content_def F)
  show "fst st' (indexed_log_path p (Suc i)) \<noteq> None \<longleftrightarrow> fst st (indexed_log_path p i) \<noteq> None" if "i \<le> m"
    using shifted [OF that] same(2) by simp
  have archive: "log_archive (Suc m) (fst st') p @ buffered (snd st') =
    (if fs (indexed_log_path p m) = None then log_archive (Suc m) fs p
     else drop (length (content fs (indexed_log_path p (Suc m)))) (log_archive (Suc m) fs p))"
    using rolled_archive [OF p, of m fs] by (simp add: st' buffered_def del: log_archive.simps roll_files.simps)
  let ?j = "if fs (indexed_log_path p m) = None then 0 else length (content fs (indexed_log_path p (Suc m)))"
  have "?j \<le> length (log_archive (Suc m) fs p)" by simp
  moreover have "log_archive (Suc m) (fst st') p @ buffered (snd st') = drop ?j (log_archive (Suc m) fs p)"
    unfolding archive by simp
  moreover have "?j = 0 \<or> fst st' (indexed_log_path p (Suc m)) \<noteq> None"
    using shifted [of m] by auto
  ultimately show "\<exists>j \<le> length (log_archive (Suc m) (fst st) p @ buffered (snd st)).
      log_archive (Suc m) (fst st') p @ buffered (snd st') = drop j (log_archive (Suc m) (fst st) p @ buffered (snd st)) \<and>
      (j = 0 \<or> fst st' (indexed_log_path p (Suc m)) \<noteq> None)"
    unfolding same(3) by blast
qed

text \<open>A record written, into the file there is or into a new one.\<close>

lemma write_onto_ok:
  fixes t :: string and k :: nat
  assumes p: "log_name p" and sink: "sink_ok p st" and t: "one_record t"
    and archive: "k \<le> length bytes" "log_archive (lc_max_files cfg) (fst st) p @ buffered (snd st) = drop k bytes"
    and dropped: "k = 0 \<or> lc_max_files cfg = 0 \<or> fst st (indexed_log_path p (lc_max_files cfg)) \<noteq> None"
    and older: "\<And>i. i < lc_max_files cfg \<Longrightarrow>
      length (log_content p st (Suc i)) \<le> lc_roll_size cfg \<or> one_record (log_content p st (Suc i))"
    and full: "\<And>i. i < lc_max_files cfg \<Longrightarrow> fst st (indexed_log_path p (Suc i)) \<noteq> None \<Longrightarrow>
      (i = 0 \<or> fst st (indexed_log_path p i) \<noteq> None) \<and>
      lc_roll_size cfg < length (log_content p st i) + (if i = 0 then length t else 0) + length (log_content p st (Suc i))"
    and room: "log_content p st 0 = [] \<or> length (log_content p st 0) + length t \<le> lc_roll_size cfg"
  shows "path_ok cfg p (bytes @ t) (write_to_sink t st)"
proof -
  define st' where "st' = write_to_sink t st"
  note effect = write_to_sink_effect [OF p sink, where t = t, folded st'_def]
  let ?M = "lc_max_files cfg"
  have top: "fst st' (indexed_log_path p ?M) \<noteq> None" if "fst st (indexed_log_path p ?M) \<noteq> None"
    using that effect(2) effect(5) [of "?M - 1"] by (cases ?M) simp_all
  have "log_archive ?M (fst st') p @ buffered (snd st') = drop k (bytes @ t)"
    using effect(6) [of ?M] archive by simp
  then have "\<exists>k \<le> length (bytes @ t). log_archive ?M (fst st') p @ buffered (snd st') = drop k (bytes @ t) \<and>
      (k = 0 \<or> ?M = 0 \<or> fst st' (indexed_log_path p ?M) \<noteq> None)"
    using archive(1) dropped top by (intro exI [of _ k]) auto
  moreover have "length (log_content p st' i) \<le> lc_roll_size cfg \<or> one_record (log_content p st' i)" if "i \<le> ?M" for i
  proof (cases i)
    case 0
    then show ?thesis using room t effect(3) by auto
  next
    case (Suc j)
    then show ?thesis using older [of j] that effect(4) [of j] by simp
  qed
  ultimately have "files_ok cfg p (bytes @ t) st'" unfolding files_ok_def by blast
  moreover have "files_full cfg p st'"
    unfolding files_full_def
  proof (intro allI impI)
    fix i
    assume i: "i < ?M" and used: "fst st' (indexed_log_path p (Suc i)) \<noteq> None"
    show "fst st' (indexed_log_path p i) \<noteq> None \<and>
        lc_roll_size cfg < length (log_content p st' i) + length (log_content p st' (Suc i))"
      using full [OF i] used effect(2,3) effect(4) [of i] effect(4) [of "i - 1"] effect(5) [of i] effect(5) [of "i - 1"]
      by (cases i) simp_all
  qed
  ultimately show ?thesis using effect(1) by (simp add: path_ok_def st'_def)
qed

lemma drop_more:
  fixes bytes :: string
  assumes "k \<le> length bytes" and "j \<le> length (drop k bytes)"
  shows "k + j \<le> length bytes" and "drop j (drop k bytes) = drop (k + j) bytes"
  using assms by (simp_all add: add.commute)

lemma write_record_ok:
  assumes p: "log_name p" and ok: "path_ok cfg p bytes st" and t: "t \<noteq> []" "one_record t"
  shows "path_ok cfg p (bytes @ t) (write_record never cfg t st)"
proof -
  let ?M = "lc_max_files cfg" and ?R = "lc_roll_size cfg" and ?w = "sk_written (snd st)"
  have sink: "sink_ok p st" and files: "files_ok cfg p bytes st" and full: "files_full cfg p st"
    using ok by (simp_all add: path_ok_def)
  have w: "?w = length (log_content p st 0)" using sink by (simp add: sink_ok_def)
  obtain k where k: "k \<le> length bytes" "log_archive ?M (fst st) p @ buffered (snd st) = drop k bytes"
      "k = 0 \<or> ?M = 0 \<or> fst st (indexed_log_path p ?M) \<noteq> None"
    and sizes: "\<And>i. i \<le> ?M \<Longrightarrow> length (log_content p st i) \<le> ?R \<or> one_record (log_content p st i)"
    using files unfolding files_ok_def by blast
  show ?thesis
  proof (cases "?w > 0 \<and> (?w \<ge> ?R \<or> length t > ?R - ?w)")
    case False
    then have room: "log_content p st 0 = [] \<or> length (log_content p st 0) + length t \<le> ?R"
      using w by auto
    have eq: "write_record never cfg t st = write_to_sink t st"
      using False by (auto simp: write_record_def Let_def)
    show ?thesis unfolding eq
    proof (rule write_onto_ok [OF p sink t(2) k])
      fix i
      assume i: "i < ?M"
      show "length (log_content p st (Suc i)) \<le> ?R \<or> one_record (log_content p st (Suc i))"
        using sizes [of "Suc i"] i by simp
      assume "fst st (indexed_log_path p (Suc i)) \<noteq> None"
      then show "(i = 0 \<or> fst st (indexed_log_path p i) \<noteq> None) \<and>
          ?R < length (log_content p st i) + (if i = 0 then length t else 0) + length (log_content p st (Suc i))"
        using full i unfolding files_full_def by fastforce
    qed (rule room)
  next
    case True
    then have long: "?R < length (log_content p st 0) + length t" using w t(1) by (cases t) auto
    have used: "0 < ?w" using True by simp
    have eq: "write_record never cfg t st = write_to_sink t (roll_sink never ?M st)"
      using True by (auto simp: write_record_def Let_def)
    show ?thesis
    proof (cases ?M)
      case 0
      obtain fs sink where F: "flush_stream st = (fs, sink)" by (cases "flush_stream st")
      have "sk_base sink = Some p"
        using flush_stream_ok [OF p ok] by (simp add: F path_ok_def sink_ok_def)
      then have rolled: "roll_sink never ?M st = (fs(p \<mapsto> []), sink\<lparr>sk_stream := None, sk_written := 0\<rparr>)"
        by (simp add: roll_sink_def F 0)
      show ?thesis unfolding eq rolled
      proof (rule write_onto_ok [OF p _ t(2), where k = "length bytes"])
        show "sink_ok p (fs(p \<mapsto> []), sink\<lparr>sk_stream := None, sk_written := 0\<rparr>)"
          using \<open>sk_base sink = Some p\<close> by (simp add: sink_ok_def log_content_def buffered_def)
      qed (simp_all add: 0 buffered_def log_content_def)
    next
      case (Suc m)
      define r where "r = roll_sink never (Suc m) st"
      note effect = roll_sink_effect [OF p ok Suc used, folded r_def]
      obtain j where j: "j \<le> length (drop k bytes)" "log_archive (Suc m) (fst r) p @ buffered (snd r) = drop j (drop k bytes)"
          "j = 0 \<or> fst r (indexed_log_path p (Suc m)) \<noteq> None"
        using effect(6) unfolding k(2) [unfolded Suc] by blast
      have top: "fst r (indexed_log_path p (Suc m)) \<noteq> None" if "fst st (indexed_log_path p (Suc m)) \<noteq> None"
        using full that effect(5) [of m] unfolding files_full_def Suc by blast
      show ?thesis unfolding eq Suc r_def [symmetric]
      proof (rule write_onto_ok [OF p effect(1) t(2), where k = "k + j"])
        show "k + j \<le> length bytes" by (rule drop_more(1) [OF k(1) j(1)])
        show "log_archive ?M (fst r) p @ buffered (snd r) = drop (k + j) bytes"
          unfolding Suc j(2) by (rule drop_more(2) [OF k(1) j(1)])
        show "k + j = 0 \<or> ?M = 0 \<or> fst r (indexed_log_path p ?M) \<noteq> None"
          using k(3) j(3) top unfolding Suc by auto
        show "log_content p r 0 = [] \<or> length (log_content p r 0) + length t \<le> ?R"
          using effect(3) by simp
        fix i
        assume i: "i < ?M"
        then have im: "i \<le> m" by (simp add: Suc)
        show "length (log_content p r (Suc i)) \<le> ?R \<or> one_record (log_content p r (Suc i))"
          using sizes [of i] i effect(4) [OF im] by simp
        assume "fst r (indexed_log_path p (Suc i)) \<noteq> None"
        then have old: "fst st (indexed_log_path p i) \<noteq> None" using effect(5) [OF im] by simp
        show "(i = 0 \<or> fst r (indexed_log_path p i) \<noteq> None) \<and>
            ?R < length (log_content p r i) + (if i = 0 then length t else 0) + length (log_content p r (Suc i))"
        proof (cases i)
          case 0
          then show ?thesis using long effect(3) effect(4) [OF im] by simp
        next
          case (Suc n)
          then have n: "n \<le> m" "n < ?M" using i im by simp_all
          show ?thesis
            using full old n(2) effect(4) [OF n(1)] effect(5) [OF n(1)] effect(4) [OF im] unfolding files_full_def Suc
            by (simp add: add.commute)
        qed
      qed
    qed
  qed
qed

subsection \<open>Buffers\<close>

lemma take_record:
  assumes "remaining \<noteq> []"
  defines "n \<equiv> (case find_char CHR 0x0A remaining of None \<Rightarrow> length remaining | Some newline \<Rightarrow> newline + 1)"
  shows "take n remaining \<noteq> []" and "one_record (take n remaining)"
proof -
  show "take n remaining \<noteq> []" using assms(1) by (auto simp: n_def split: option.splits)
  show "one_record (take n remaining)"
  proof (cases "find_char CHR 0x0A remaining")
    case None
    then show ?thesis by (auto simp: n_def one_record_def dest: in_set_butlastD)
  next
    case (Some i)
    then have i: "i < length remaining" and cut: "CHR 0x0A \<notin> set (take i remaining)"
      using find_char_Some [of "CHR 0x0A" remaining i] by auto
    have "butlast (take n remaining) = take i remaining"
      using i Some by (simp add: n_def take_Suc_conv_app_nth)
    then show ?thesis using cut by (simp add: one_record_def)
  qed
qed

lemma write_records_ok:
  assumes p: "log_name p"
  shows "path_ok cfg p bytes st \<Longrightarrow> path_ok cfg p (bytes @ t) (write_records never cfg t st)"
proof (induction "length t" arbitrary: t bytes st rule: less_induct)
  case less
  show ?case
  proof (cases "t = []")
    case True
    then show ?thesis using less.prems by (simp add: write_records.simps)
  next
    case False
    define n where "n = (case find_char CHR 0x0A t of None \<Rightarrow> length t | Some newline \<Rightarrow> newline + 1)"
    note chunk = take_record [OF False, folded n_def]
    have "path_ok cfg p (bytes @ take n t) (write_record never cfg (take n t) st)"
      by (rule write_record_ok [OF p less.prems chunk])
    moreover have "length (drop n t) < length t"
      using chunk(1) False by (cases n) simp_all
    ultimately have "path_ok cfg p ((bytes @ take n t) @ drop n t)
        (write_records never cfg (drop n t) (write_record never cfg (take n t) st))"
      using less.hyps by blast
    moreover have "write_records never cfg t st =
        write_records never cfg (drop n t) (write_record never cfg (take n t) st)"
      using False by (subst write_records.simps) (simp add: n_def Let_def)
    ultimately show ?thesis by simp
  qed
qed

lemma write_record_open: "sk_stream (snd (write_record rf cfg t st)) \<noteq> None"
  by (simp add: write_record_def write_to_sink_def Let_def split: prod.splits)

lemma write_records_open: "t \<noteq> [] \<Longrightarrow> sk_stream (snd (write_records rf cfg t st)) \<noteq> None"
proof (induction rf cfg t st rule: write_records.induct)
  case (1 rf cfg remaining st)
  define n where "n = (case find_char CHR 0x0A remaining of None \<Rightarrow> length remaining | Some newline \<Rightarrow> newline + 1)"
  have eq: "write_records rf cfg remaining st =
      write_records rf cfg (drop n remaining) (write_record rf cfg (take n remaining) st)"
    using 1(2) by (subst write_records.simps) (simp add: n_def Let_def)
  show ?case
  proof (cases "drop n remaining = []")
    case True
    then show ?thesis unfolding eq using write_record_open by (simp add: write_records.simps [of rf cfg "[]"])
  next
    case False
    then show ?thesis unfolding eq using 1(1) [OF 1(2) n_def] by simp
  qed
qed

text \<open>The files of other paths stay as they are.\<close>

lemma flush_stream_other:
  assumes "sk_base (snd st) = Some p" and "q \<noteq> p"
  shows "fst (flush_stream st) q = fst st q" and "sk_base (snd (flush_stream st)) = Some p"
  using assms by (cases st; simp add: flush_stream_def append_file_at split: option.splits)+

lemma write_record_other:
  assumes base: "sk_base (snd st) = Some p" and q: "elsewhere p q"
  shows "fst (write_record rf cfg t st) q = fst st q \<and> sk_base (snd (write_record rf cfg t st)) = Some p"
proof -
  note qp = elsewhere_not_base [OF q]
  have roll: "fst (roll_sink rf n st) q = fst st q \<and> sk_base (snd (roll_sink rf n st)) = Some p" for n
    using flush_stream_other [OF base qp] qp roll_files_other [OF q, of rf n "fst (flush_stream st)"]
    by (auto simp: roll_sink_def Let_def split: prod.splits)
  have writing: "fst (write_to_sink t st') q = fst st' q \<and> sk_base (snd (write_to_sink t st')) = Some p"
    if "sk_base (snd st') = Some p" for st'
    using that qp by (cases st') (simp add: write_to_sink_def Let_def append_file_at split: option.splits)
  show ?thesis
    using writing [OF base] writing [of "roll_sink rf (lc_max_files cfg) st"] roll [of "lc_max_files cfg"]
    by (simp add: write_record_def Let_def)
qed

lemma write_records_other:
  assumes q: "elsewhere p q"
  shows "sk_base (snd st) = Some p \<Longrightarrow>
    fst (write_records rf cfg t st) q = fst st q \<and> sk_base (snd (write_records rf cfg t st)) = Some p"
proof (induction rf cfg t st rule: write_records.induct)
  case (1 rf cfg remaining st)
  show ?case
  proof (cases "remaining = []")
    case False
    show ?thesis
      using 1(1) [OF False refl] write_record_other [OF 1(2) q, of rf cfg] False
      by (subst (1 2) write_records.simps) (simp add: Let_def)
  qed (use 1(2) in \<open>simp add: write_records.simps\<close>)
qed

text \<open>
  The state of a path in the writer: what was written to its files with what its sink knows of them. A path
  without a sink has no files.
\<close>

definition sink_at :: "log_sinks \<Rightarrow> log_file \<Rightarrow> log_files \<Rightarrow> log_sink" where
  "sink_at sinks p fs = ensure_sink fs p (case map_of sinks p of None \<Rightarrow> sink_new | Some sink \<Rightarrow> sink)"

definition written_ok :: "log_config \<Rightarrow> log_file \<Rightarrow> string \<Rightarrow> log_files \<times> log_sinks \<Rightarrow> bool" where
  "written_ok cfg p bytes st \<longleftrightarrow> path_ok cfg p bytes (fst st, sink_at (snd st) p (fst st)) \<and>
     buffered (sink_at (snd st) p (fst st)) = []"

definition sinks_ok :: "log_files \<times> log_sinks \<Rightarrow> bool" where
  "sinks_ok st \<longleftrightarrow> distinct (map fst (snd st)) \<and>
     (\<forall>q sink. map_of (snd st) q = Some sink \<longrightarrow>
        log_name q \<and> sk_base sink = Some q \<and> sk_stream sink = Some [] \<and> fst st q \<noteq> None)"

lemma sinks_okD:
  "sinks_ok st \<Longrightarrow> map_of (snd st) q = Some sink \<Longrightarrow>
   log_name q \<and> sk_base sink = Some q \<and> sk_stream sink = Some [] \<and> fst st q \<noteq> None"
  unfolding sinks_ok_def by blast

lemma sink_at_base:
  assumes "sinks_ok (fs, sinks)"
  shows "sk_base (sink_at sinks p fs) = Some p"
proof (cases "map_of sinks p")
  case (Some sink)
  then show ?thesis using sinks_okD [OF assms, of p sink] by (simp add: sink_at_def ensure_sink_def)
qed (simp add: sink_at_def ensure_sink_def sink_new_def)

lemma ensure_sink_at: "sk_base sink = Some p \<Longrightarrow> map_of sinks p = Some sink \<Longrightarrow> sink_at sinks p fs = sink"
  by (simp add: sink_at_def ensure_sink_def)

lemma path_ok_cong:
  assumes "\<And>j. fs (indexed_log_path q j) = fs' (indexed_log_path q j)"
  shows "path_ok cfg q bytes (fs, sink) \<longleftrightarrow> path_ok cfg q bytes (fs', sink)"
proof -
  have "fs q = fs' q" using assms [of 0] by simp
  moreover have "content fs (indexed_log_path q j) = content fs' (indexed_log_path q j)" for j
    by (simp add: content_def assms)
  then have "log_content q (fs, sink) j = log_content q (fs', sink) j" for j
    by (simp add: log_content_def)
  moreover have "log_archive n fs q = log_archive n fs' q" for n
    by (rule log_archive_cong) (rule assms)
  ultimately show ?thesis
    by (simp only: path_ok_def sink_ok_def files_ok_def files_full_def fst_conv snd_conv assms)
qed

lemma written_ok_cong:
  assumes "\<And>j. fs (indexed_log_path q j) = fs' (indexed_log_path q j)" and "map_of sinks q = map_of sinks' q"
  shows "written_ok cfg q bytes (fs, sinks) \<longleftrightarrow> written_ok cfg q bytes (fs', sinks')"
proof -
  have "fs q = fs' q" using assms(1) [of 0] by simp
  then have "sink_at sinks q fs = sink_at sinks' q fs'"
    by (simp add: sink_at_def assms(2) ensure_sink_def file_size_or_zero_def)
  then show ?thesis using path_ok_cong [of fs q fs', OF assms(1)] by (simp add: written_ok_def)
qed

lemma write_buffer_ok:
  fixes b :: string and st :: "log_files \<times> log_sinks"
  assumes p: "log_name p" and st: "sinks_ok st" and ok: "written_ok cfg p bytes st"
  defines "st' \<equiv> write_buffer never cfg p b st"
  shows "sinks_ok st'" and "written_ok cfg p (bytes @ b) st'"
    and "log_name q \<Longrightarrow> q \<noteq> p \<Longrightarrow> written_ok cfg q bs st \<Longrightarrow> written_ok cfg q bs st'"
proof -
  obtain fs sinks where fs: "st = (fs, sinks)" by (cases st)
  have all: "sinks_ok st' \<and> written_ok cfg p (bytes @ b) st' \<and>
      (log_name q \<longrightarrow> q \<noteq> p \<longrightarrow> written_ok cfg q bs st \<longrightarrow> written_ok cfg q bs st')"
  proof (cases "b = []")
    case True
    then show ?thesis using st ok by (simp add: st'_def write_buffer_def fs)
  next
    case False
    define w where "w = write_records never cfg b (fs, sink_at sinks p fs)"
    obtain fs1 sink1 where F: "flush_stream w = (fs1, sink1)" by (cases "flush_stream w")
    have st': "st' = (fs1, AList.update p sink1 sinks)"
      using False by (simp add: st'_def write_buffer_def fs sink_at_def [symmetric] w_def [symmetric] F)
    have okw: "path_ok cfg p (bytes @ b) w"
      unfolding w_def using ok by (intro write_records_ok [OF p]) (simp add: written_ok_def fs)
    have ok1: "path_ok cfg p (bytes @ b) (fs1, sink1)"
      using flush_stream_ok [OF p okw] by (simp add: F)
    have base: "sk_base (snd (fs, sink_at sinks p fs)) = Some p"
      using sink_at_base st by (simp add: fs)
    have other: "fs1 r = fs r" if "elsewhere p r" for r
    proof -
      have "fst w r = fs r" and "sk_base (snd w) = Some p"
        using write_records_other [OF that base, of never cfg b] by (simp_all add: w_def)
      then show ?thesis
        using flush_stream_other [of w p r] elsewhere_not_base [OF that] by (simp add: F)
    qed
    have opened: "sk_stream (snd w) \<noteq> None"
      unfolding w_def by (rule write_records_open [OF False])
    then have empty: "sk_stream sink1 = Some []"
      using F by (cases w) (auto simp: flush_stream_def split: option.splits)
    have base1: "sk_base sink1 = Some p" and exists1: "fs1 p \<noteq> None"
      using ok1 empty by (simp_all add: path_ok_def sink_ok_def)
    have names: "fs1 r = fs r" if "log_name r" "r \<noteq> p" for r
      using other elsewhere_indexed [OF p that(1) that(2) [symmetric], of 0] by simp
    have "sinks_ok st'"
      using st base1 exists1 empty p names
      by (auto simp: sinks_ok_def st' fs update_conv' distinct_update split: if_splits)
    moreover have "written_ok cfg p (bytes @ b) st'"
      using ok1 empty ensure_sink_at [OF base1, of "AList.update p sink1 sinks" fs1]
      by (simp add: written_ok_def st' update_conv' buffered_def)
    moreover have "written_ok cfg q bs st'" if "log_name q" "q \<noteq> p" "written_ok cfg q bs st"
      using that written_ok_cong [of fs1 q fs "AList.update p sink1 sinks" sinks cfg bs]
        other elsewhere_indexed [OF p that(1) that(2) [symmetric]]
      by (simp add: st' fs update_conv')
    ultimately show ?thesis by blast
  qed
  show "sinks_ok st'" and "written_ok cfg p (bytes @ b) st'"
    and "log_name q \<Longrightarrow> q \<noteq> p \<Longrightarrow> written_ok cfg q bs st \<Longrightarrow> written_ok cfg q bs st'"
    using all by blast+
qed

text \<open>A message is one record unless its body has a newline of its own.\<close>

lemma logger_message_record:
  assumes "CHR 0x0A \<notin> set (log_str stream)" and "logger_destroy g level stream = (Inr e, aborts)"
  shows "one_record (le_message e)" and "log_str stream @ [CHR 0x0A] = le_message e" and "aborts \<longleftrightarrow> level = Level_fatal"
  using assms by (auto simp: logger_destroy_def one_record_def append_char_def Let_def split: if_splits)

end
