(* ===== verification/Logging_Flush.thy ===== *)
theory Logging_Flush
  imports Logging_Laws
begin

text \<open>
  The writing thread: whatever the interleaving with the threads that log, every event that was appended
  before a call of \<open>flush()\<close> is in its file when that call returns, in order, but for whole files of the
  oldest bytes that rolling dropped.
\<close>

subsection \<open>The buffers and the files\<close>

definition event_path :: "log_event \<Rightarrow> log_file" where
  "event_path e = log_path (le_directory e) (le_basename e) (le_level e)"

text \<open>Everything the events write to a path.\<close>

definition log_bytes :: "log_file \<Rightarrow> log_event list \<Rightarrow> string" where
  "log_bytes p events = concat (map le_message (filter (\<lambda>e. event_path e = p) events))"

lemma log_bytes_simps [simp]:
  "log_bytes p [] = []" "log_bytes p (xs @ ys) = log_bytes p xs @ log_bytes p ys"
  "log_bytes p [e] = (if event_path e = p then le_message e else [])"
  by (simp_all add: log_bytes_def)

definition buffer_at :: "(log_file \<times> string) list \<Rightarrow> log_file \<Rightarrow> string" where
  "buffer_at buffers p = (case map_of buffers p of None \<Rightarrow> [] | Some b \<Rightarrow> b)"

lemma event_path_name [simp]: "log_name (event_path e)"
  by (simp add: event_path_def)

lemma buffer_at_update [simp]: "buffer_at (AList.update p b buffers) q = (if q = p then b else buffer_at buffers q)"
  by (simp add: buffer_at_def update_conv')

text \<open>
  The events processed: those up to an index of at least \<open>n\<close> are in the files of a path, the later ones in its buffer.
\<close>

definition store_ok :: "log_config \<Rightarrow> nat \<Rightarrow> log_event list \<Rightarrow> log_store \<Rightarrow> bool" where
  "store_ok cfg n events store \<longleftrightarrow>
     sinks_ok (snd store) \<and> distinct (map fst (fst store)) \<and> (\<forall>p \<in> fst ` set (fst store). log_name p) \<and>
     (\<forall>p. log_name p \<longrightarrow>
        (\<exists>m. n \<le> m \<and> m \<le> length events \<and> written_ok cfg p (log_bytes p (take m events)) (snd store) \<and>
           buffer_at (fst store) p = log_bytes p (drop m events)))"

lemma store_okD:
  assumes "store_ok cfg n events store" and "log_name p"
  obtains m where "n \<le> m" and "m \<le> length events" and "written_ok cfg p (log_bytes p (take m events)) (snd store)"
    and "buffer_at (fst store) p = log_bytes p (drop m events)"
  using assms unfolding store_ok_def by blast

lemma written_ok_new: "written_ok cfg p [] (Map.empty, [])"
proof -
  have a: "log_archive n Map.empty p = []" for n
    by (induction n) (simp_all add: content_def)
  show ?thesis
    by (simp add: written_ok_def path_ok_def sink_ok_def files_ok_def files_full_def sink_at_def ensure_sink_def
        sink_new_def log_content_def buffered_def content_def file_size_or_zero_def a)
qed

lemma store_ok_new: "store_ok cfg 0 [] ([], (Map.empty, []))"
  by (simp add: store_ok_def sinks_ok_def written_ok_new buffer_at_def)

lemma buffer_event_ok:
  assumes ok: "store_ok cfg n events store"
  shows "store_ok cfg n (events @ [e]) (buffer_event never cfg e store)"
proof -
  obtain buffers st where store: "store = (buffers, st)" by (cases store)
  define p where "p = event_path e"
  define b where "b = buffer_at buffers p @ le_message e"
  have sinks: "sinks_ok st" and dist: "distinct (map fst buffers)" and names: "\<forall>q \<in> fst ` set buffers. log_name q"
    using ok by (simp_all add: store_ok_def store)
  have p: "log_name p" by (simp add: p_def)
  have event: "buffer_event never cfg e store =
      (if k_log_buffer_flush_size \<le> length b then (AList.update p [] buffers, write_buffer never cfg p b st)
       else (AList.update p b buffers, st))"
    by (simp add: buffer_event_def store b_def p_def event_path_def buffer_at_def Let_def)
  have keys: "distinct (map fst (AList.update p c buffers)) \<and> (\<forall>q \<in> fst ` set (AList.update p c buffers). log_name q)" for c
    using dist names p by (auto simp: distinct_update dom_update)
  obtain m where m: "n \<le> m" "m \<le> length events" "written_ok cfg p (log_bytes p (take m events)) st"
      "buffer_at buffers p = log_bytes p (drop m events)"
    by (rule store_okD [OF ok p]) (auto simp: store)
  have b: "b = log_bytes p (drop m (events @ [e]))"
    using m by (simp add: b_def p_def)
  have other: "log_bytes q [e] = []" if "q \<noteq> p" for q
    using that by (simp add: p_def)
  show ?thesis
  proof (cases "k_log_buffer_flush_size \<le> length b")
    case True
    note wb = write_buffer_ok [OF p sinks m(3), where b = b]
    have whole: "log_bytes p (take m events) @ b = log_bytes p (events @ [e])"
    proof -
      have "take m events @ drop m (events @ [e]) = events @ [e]" using m(2) by (simp flip: append_assoc)
      then show ?thesis unfolding b by (simp only: log_bytes_simps(2) [symmetric])
    qed
    have "\<exists>m. n \<le> m \<and> m \<le> length (events @ [e]) \<and>
        written_ok cfg q (log_bytes q (take m (events @ [e]))) (write_buffer never cfg p b st) \<and>
        buffer_at (AList.update p [] buffers) q = log_bytes q (drop m (events @ [e]))" if q: "log_name q" for q
    proof (cases "q = p")
      case True
      have "written_ok cfg q (log_bytes q (take (length (events @ [e])) (events @ [e]))) (write_buffer never cfg p b st)"
        using wb(2) whole by (simp add: True)
      then show ?thesis using m(1,2) True by (intro exI [of _ "length (events @ [e])"]) simp
    next
      case False
      obtain k where k: "n \<le> k" "k \<le> length events" "written_ok cfg q (log_bytes q (take k events)) st"
          "buffer_at buffers q = log_bytes q (drop k events)"
        by (rule store_okD [OF ok q]) (auto simp: store)
      then show ?thesis using wb(3) [OF q False k(3)] other [OF False] False by (intro exI [of _ k]) simp
    qed
    then show ?thesis using event True keys [of "[]"] wb(1) unfolding store_ok_def by simp
  next
    case False
    have "\<exists>m. n \<le> m \<and> m \<le> length (events @ [e]) \<and> written_ok cfg q (log_bytes q (take m (events @ [e]))) st \<and>
        buffer_at (AList.update p b buffers) q = log_bytes q (drop m (events @ [e]))" if q: "log_name q" for q
    proof (cases "q = p")
      case True
      then show ?thesis using m b by (intro exI [of _ m]) simp
    next
      case False
      obtain k where k: "n \<le> k" "k \<le> length events" "written_ok cfg q (log_bytes q (take k events)) st"
          "buffer_at buffers q = log_bytes q (drop k events)"
        by (rule store_okD [OF ok q]) (auto simp: store)
      then show ?thesis using other [OF False] False by (intro exI [of _ k]) simp
    qed
    then show ?thesis using event False keys [of b] sinks unfolding store_ok_def by simp
  qed
qed

lemma buffer_events_ok:
  "store_ok cfg n events store \<Longrightarrow> store_ok cfg n (events @ es) (fold (buffer_event never cfg) es store)"
proof (induction es arbitrary: events store)
  case (Cons e es)
  from Cons.IH [OF buffer_event_ok [OF Cons.prems, of e]] show ?case by simp
qed simp

lemma flush_sinks_ok: "sinks_ok (fs, sinks) \<Longrightarrow> flush_sinks sinks fs = (fs, sinks)"
proof -
  assume ok: "sinks_ok (fs, sinks)"
  have "flush_sinks xs fs = (fs, xs)" if "set xs \<subseteq> set sinks" for xs
    using that
  proof (induction xs)
    case (Cons x xs)
    obtain q sink where x: "x = (q, sink)" by (cases x)
    have "map_of sinks q = Some sink"
      using Cons.prems ok x by (intro map_of_is_SomeI) (auto simp: sinks_ok_def)
    from sinks_okD [OF ok, unfolded snd_conv, OF this]
    have "sk_base sink = Some q" and "sk_stream sink = Some []" and "fs q \<noteq> None" by simp_all
    then have "flush_stream (fs, sink) = (fs, sink)"
      by (auto simp: flush_stream_def append_file_def)
    then show ?case using Cons by (simp add: x)
  qed simp
  then show "flush_sinks sinks fs = (fs, sinks)" by simp
qed

lemma write_buffers_ok:
  assumes "distinct (map fst buffers)" and "\<forall>p \<in> fst ` set buffers. log_name p" and "sinks_ok st"
    and "\<And>p. log_name p \<Longrightarrow> written_ok cfg p (bytes p) st"
  defines "st' \<equiv> fold (\<lambda>(path, buffer). write_buffer never cfg path buffer) buffers st"
  shows "sinks_ok st' \<and> (\<forall>p. log_name p \<longrightarrow> written_ok cfg p (bytes p @ buffer_at buffers p) st')"
  using assms(1-4) unfolding st'_def
proof (induction buffers arbitrary: st bytes)
  case (Cons x buffers)
  obtain q b where x: "x = (q, b)" by (cases x)
  have q: "log_name q" using Cons.prems(2) by (simp add: x)
  note wb = write_buffer_ok [OF q Cons.prems(3) Cons.prems(4) [OF q], where b = b]
  define bytes' where "bytes' = bytes(q := bytes q @ b)"
  have "written_ok cfg p (bytes' p) (write_buffer never cfg q b st)" if "log_name p" for p
    using wb(2) wb(3) [OF that _ Cons.prems(4) [OF that]] by (cases "p = q") (simp_all add: bytes'_def)
  then have IH: "sinks_ok (fold (\<lambda>(path, buffer). write_buffer never cfg path buffer) buffers (write_buffer never cfg q b st)) \<and>
      (\<forall>p. log_name p \<longrightarrow> written_ok cfg p (bytes' p @ buffer_at buffers p)
         (fold (\<lambda>(path, buffer). write_buffer never cfg path buffer) buffers (write_buffer never cfg q b st)))"
    using Cons.IH [of "write_buffer never cfg q b st" bytes'] Cons.prems(1,2) wb(1) by simp
  have "buffer_at buffers q = []"
    using Cons.prems(1) map_of_eq_None_iff [of buffers q] by (simp add: x buffer_at_def)
  then have "bytes p @ buffer_at (x # buffers) p = bytes' p @ buffer_at buffers p" for p
    by (simp add: bytes'_def x buffer_at_def)
  then show ?case using IH by (simp add: x)
qed (simp add: buffer_at_def)

lemma flush_buffers_ok:
  assumes ok: "store_ok cfg n events store"
  shows "store_ok cfg (length events) events (flush_buffers never cfg store)"
proof -
  obtain buffers st where store: "store = (buffers, st)" by (cases store)
  define st' where "st' = fold (\<lambda>(path, buffer). write_buffer never cfg path buffer) buffers st"
  have parts: "distinct (map fst buffers)" "\<forall>p \<in> fst ` set buffers. log_name p" "sinks_ok st"
    using ok by (simp_all add: store_ok_def store)
  have "\<forall>p. \<exists>bytes. log_name p \<longrightarrow> written_ok cfg p bytes st \<and> bytes @ buffer_at buffers p = log_bytes p events"
  proof
    fix p
    show "\<exists>bytes. log_name p \<longrightarrow> written_ok cfg p bytes st \<and> bytes @ buffer_at buffers p = log_bytes p events"
    proof (cases "log_name p")
      case True
      obtain m where "m \<le> length events" "written_ok cfg p (log_bytes p (take m events)) st"
          "buffer_at buffers p = log_bytes p (drop m events)"
        by (rule store_okD [OF ok True]) (auto simp: store)
      moreover have "log_bytes p (take m events) @ log_bytes p (drop m events) = log_bytes p events"
        by (simp only: log_bytes_simps(2) [symmetric] append_take_drop_id)
      ultimately show ?thesis by (intro exI [of _ "log_bytes p (take m events)"]) simp
    qed simp
  qed
  then obtain bytes where bytes: "\<And>p. log_name p \<Longrightarrow> written_ok cfg p (bytes p) st"
      "\<And>p. log_name p \<Longrightarrow> bytes p @ buffer_at buffers p = log_bytes p events"
    by metis
  have written: "sinks_ok st' \<and> (\<forall>p. log_name p \<longrightarrow> written_ok cfg p (bytes p @ buffer_at buffers p) st')"
    unfolding st'_def by (rule write_buffers_ok [OF parts bytes(1)])
  have settled: "sinks_ok st'" "written_ok cfg p (log_bytes p events) st'" if "log_name p" for p
  proof -
    show "sinks_ok st'" using written ..
    have "written_ok cfg p (bytes p @ buffer_at buffers p) st'" using written that by blast
    then show "written_ok cfg p (log_bytes p events) st'" by (simp only: bytes(2) [OF that])
  qed
  have flush: "flush_buffers never cfg store = (map (\<lambda>(path, buffer). (path, [])) buffers, st')"
    using flush_sinks_ok [of "fst st'" "snd st'"] written
    by (cases st') (simp add: flush_buffers_def store st'_def [symmetric])
  define cleared where "cleared = map (\<lambda>(path, buffer). (path, [] :: string)) buffers"
  have keys: "map fst cleared = map fst buffers"
    by (simp add: cleared_def comp_def split_def)
  then have set_keys: "fst ` set cleared = fst ` set buffers"
    by (metis list.set_map)
  have empty: "buffer_at cleared p = []" for p
    unfolding cleared_def by (induction buffers) (auto simp: buffer_at_def)
  have "\<exists>m. length events \<le> m \<and> m \<le> length events \<and> written_ok cfg p (log_bytes p (take m events)) st' \<and>
      buffer_at cleared p = log_bytes p (drop m events)" if "log_name p" for p
    using settled(2) [OF that] empty by (intro exI [of _ "length events"]) simp
  then show ?thesis
    unfolding store_ok_def flush cleared_def [symmetric] using parts keys set_keys written by simp
qed

lemma store_ok_weaken: "store_ok cfg n events store \<Longrightarrow> k \<le> n \<Longrightarrow> store_ok cfg k events store"
  unfolding store_ok_def by (meson le_trans)

lemma store_ok_bound: "store_ok cfg n events store \<Longrightarrow> n \<le> length events"
  by (rule store_okD [OF _ log_path_name [of "[]" "[]" Level_info]]) (assumption, linarith)

subsection \<open>The invariant of the logger\<close>

definition in_hand :: "log_phase \<Rightarrow> log_event list" where
  "in_hand phase = (case phase of Log_writing events _ _ \<Rightarrow> events | _ \<Rightarrow> [])"

text \<open>Flushes up to a generation cover the first \<open>n\<close> events; no request is ahead of the counters.\<close>

definition covers :: "nat \<Rightarrow> nat \<Rightarrow> (nat \<times> nat) list \<Rightarrow> bool" where
  "covers generation n requests \<longleftrightarrow> (\<forall>(g, r) \<in> set requests. g \<le> generation \<longrightarrow> r \<le> n)"

definition asked :: "nat \<Rightarrow> nat \<Rightarrow> (nat \<times> nat) list \<Rightarrow> bool" where
  "asked generation n requests \<longleftrightarrow> (\<forall>(g, r) \<in> set requests. g \<le> generation \<and> r \<le> n)"

lemma covers_mono: "covers g n requests \<Longrightarrow> n \<le> m \<Longrightarrow> covers g m requests"
  by (fastforce simp: covers_def)

lemma covers_later [simp]: "g < g' \<Longrightarrow> covers g n (requests @ [(g', r)]) \<longleftrightarrow> covers g n requests"
  by (auto simp: covers_def)

lemma asked_mono: "asked g n requests \<Longrightarrow> g \<le> g' \<Longrightarrow> n \<le> m \<Longrightarrow> asked g' m requests"
  by (fastforce simp: asked_def)

lemma asked_append [simp]: "asked g n (requests @ [(g', r)]) \<longleftrightarrow> asked g n requests \<and> g' \<le> g \<and> r \<le> n"
  by (auto simp: asked_def)

lemma asked_covers: "asked g n requests \<Longrightarrow> covers g' n requests"
  by (fastforce simp: asked_def covers_def)

text \<open>The generation a round will publish covers every request made before the round took its events.\<close>

definition round_ok :: "nat \<Rightarrow> nat \<Rightarrow> async_logger \<Rightarrow> bool" where
  "round_ok n processed s =
     (case al_phase s of
        Log_writing events force_flush generation \<Rightarrow>
          generation \<le> al_flush_generation s \<and> covers generation (processed + length events) (al_requests s)
      | Log_publishing generation \<Rightarrow> generation \<le> al_flush_generation s \<and> covers generation n (al_requests s)
      | _ \<Rightarrow> True)"

definition logger_ok :: "log_config \<Rightarrow> nat \<Rightarrow> log_event list \<Rightarrow> async_logger \<Rightarrow> bool" where
  "logger_ok cfg n events s \<longleftrightarrow>
     al_log s = events @ in_hand (al_phase s) @ al_pending s \<and> store_ok cfg n events (logger_store s) \<and>
     al_flushed_generation s \<le> al_flush_generation s \<and>
     asked (al_flush_generation s) (length (al_log s)) (al_requests s) \<and>
     covers (al_flushed_generation s) n (al_requests s) \<and> round_ok n (length events) s"

lemma logger_ok_new: "logger_ok cfg 0 [] async_logger_new"
  by (simp add: logger_ok_def async_logger_new_def in_hand_def round_ok_def logger_store_def store_ok_new asked_def
      covers_def)

lemma ensure_started_ok: "logger_ok cfg n events s \<Longrightarrow> logger_ok cfg n events (ensure_started cfg now s)"
  by (cases "al_phase s") (auto simp: logger_ok_def ensure_started_def in_hand_def round_ok_def logger_store_def)

lemma logger_append_ok:
  assumes "logger_ok cfg n events s"
  shows "logger_ok cfg n events (logger_append cfg now e s)"
proof -
  define t where "t = ensure_started cfg now s"
  have t: "logger_ok cfg n events t" unfolding t_def by (rule ensure_started_ok [OF assms])
  then show ?thesis
    unfolding logger_append_def t_def [symmetric] Let_def
    by (cases "al_phase t") (auto simp: logger_ok_def round_ok_def logger_store_def in_hand_def elim: asked_mono)
qed

lemma logger_flush_ok:
  assumes "logger_ok cfg n events s"
  shows "logger_ok cfg n events (logger_flush cfg now s)"
proof -
  define t where "t = ensure_started cfg now s"
  have t: "logger_ok cfg n events t" unfolding t_def by (rule ensure_started_ok [OF assms])
  then show ?thesis
    unfolding logger_flush_def t_def [symmetric] Let_def
    by (cases "al_phase t") (auto simp: logger_ok_def round_ok_def logger_store_def in_hand_def elim: asked_mono)
qed

lemma log_worker_take_ok:
  assumes ok: "logger_ok cfg n events s" and phase: "al_phase s = Log_waiting" and take: "log_worker_take cfg now s = Some t"
  shows "logger_ok cfg n events t"
proof -
  have t: "al_log t = al_log s" "al_pending t = []" "logger_store t = logger_store s" "al_requests t = al_requests s"
    "al_flushed_generation t = al_flushed_generation s" "al_flush_generation t = al_flush_generation s"
    "\<exists>f. al_phase t = Log_writing (al_pending s) f (al_flush_generation s)"
    using take by (auto simp: log_worker_take_def logger_store_def Let_def split: if_splits)
  have log: "al_log s = events @ al_pending s" using ok phase by (simp add: logger_ok_def in_hand_def)
  show ?thesis
    using ok t log by (auto simp: logger_ok_def round_ok_def in_hand_def elim: asked_covers)
qed

lemma with_store_selectors [simp]:
  "logger_store (with_store store s) = store" "al_log (with_store store s) = al_log s"
  "al_pending (with_store store s) = al_pending s" "al_requests (with_store store s) = al_requests s"
  "al_flush_generation (with_store store s) = al_flush_generation s"
  "al_flushed_generation (with_store store s) = al_flushed_generation s" "al_phase (with_store store s) = al_phase s"
  by (cases store; simp add: logger_store_def with_store_def)+

lemma logger_store_phase [simp]: "logger_store (s\<lparr>al_phase := phase\<rparr>) = logger_store s"
  "logger_store (s\<lparr>al_flushed_generation := g\<rparr>) = logger_store s"
  by (simp_all add: logger_store_def)

lemma log_worker_write_ok:
  assumes ok: "logger_ok cfg n events s" and phase: "al_phase s = Log_writing es force generation"
  shows "\<exists>k. logger_ok cfg k (events @ es) (log_worker_write never cfg es force generation s)"
proof -
  define store where "store = fold (buffer_event never cfg) es (logger_store s)"
  have store: "store_ok cfg n (events @ es) store"
    unfolding store_def using ok by (intro buffer_events_ok) (simp add: logger_ok_def)
  have rest: "al_log s = (events @ es) @ al_pending s" "generation \<le> al_flush_generation s"
      "al_flushed_generation s \<le> al_flush_generation s"
    and requests: "asked (al_flush_generation s) (length (al_log s)) (al_requests s)"
      "covers (al_flushed_generation s) n (al_requests s)" "covers generation (length (events @ es)) (al_requests s)"
    using ok by (auto simp: logger_ok_def round_ok_def phase in_hand_def)
  show ?thesis
  proof (cases force)
    case False
    then have "logger_ok cfg n (events @ es) (log_worker_write never cfg es force generation s)"
      using store requests rest
      by (simp add: logger_ok_def log_worker_write_def store_def [symmetric] in_hand_def round_ok_def)
    then show ?thesis by blast
  next
    case True
    have flushed: "store_ok cfg (length (events @ es)) (events @ es) (flush_buffers never cfg store)"
      by (rule flush_buffers_ok [OF store])
    have n: "n \<le> length (events @ es)" by (rule store_ok_bound [OF store])
    have "logger_ok cfg (length (events @ es)) (events @ es) (log_worker_write never cfg es force generation s)"
      using flushed requests rest covers_mono [OF requests(2) n] True
      by (simp add: logger_ok_def log_worker_write_def store_def [symmetric] in_hand_def round_ok_def)
    then show ?thesis by blast
  qed
qed

lemma log_worker_check_ok:
  assumes ok: "logger_ok cfg n events s" and phase: "al_phase s = Log_checking"
  shows "\<exists>k. logger_ok cfg k events (log_worker_check never cfg s)"
proof -
  have store: "store_ok cfg n events (logger_store s)" using ok by (simp add: logger_ok_def)
  have flushed: "store_ok cfg n events (flush_buffers never cfg (logger_store s))"
    by (rule store_ok_weaken [OF flush_buffers_ok [OF store] store_ok_bound [OF store]])
  have "logger_ok cfg n events (log_worker_check never cfg s)"
    using ok flushed phase by (auto simp: logger_ok_def log_worker_check_def in_hand_def round_ok_def)
  then show ?thesis by blast
qed

lemma log_worker_step_ok:
  assumes ok: "logger_ok cfg n events s" and step: "log_worker_step never cfg now s = Some t"
  shows "\<exists>k evs. logger_ok cfg k evs t"
proof (cases "al_phase s")
  case Log_waiting
  then show ?thesis using log_worker_take_ok [OF ok] step by (auto simp: log_worker_step_def)
next
  case (Log_writing es force generation)
  then show ?thesis using log_worker_write_ok [OF ok] step by (auto simp: log_worker_step_def)
next
  case (Log_publishing generation)
  then have "logger_ok cfg n events t"
    using ok step by (auto simp: log_worker_step_def logger_ok_def in_hand_def round_ok_def)
  then show ?thesis by blast
next
  case Log_checking
  then show ?thesis using log_worker_check_ok [OF ok] step by (auto simp: log_worker_step_def)
qed (use step in \<open>simp_all add: log_worker_step_def\<close>)

lemma log_step_ok:
  assumes "logger_ok cfg n events s" and "log_step never cfg i s = Some t"
  shows "\<exists>k evs. logger_ok cfg k evs t"
proof (cases i)
  case (Log_append now e)
  then have "logger_ok cfg n events t" using assms(2) logger_append_ok [OF assms(1)] by auto
  then show ?thesis by blast
next
  case (Log_flush now)
  then have "logger_ok cfg n events t" using assms(2) logger_flush_ok [OF assms(1)] by auto
  then show ?thesis by blast
next
  case Log_interval
  then have "logger_ok cfg n events t"
    using assms by (cases "al_phase s")
      (auto simp: notify_flush_interval_changed_def logger_ok_def in_hand_def round_ok_def logger_store_def)
  then show ?thesis by blast
next
  case Log_stop
  then have "logger_ok cfg n events t"
    using assms by (cases "al_phase s")
      (auto simp: logger_stop_def logger_ok_def in_hand_def round_ok_def logger_store_def)
  then show ?thesis by blast
next
  case (Log_worker now)
  then show ?thesis using assms(2) log_worker_step_ok [OF assms(1)] by simp
qed

lemma log_run_ok:
  "logger_ok cfg n events s \<Longrightarrow> log_run never cfg inputs s = Some t \<Longrightarrow> \<exists>k evs. logger_ok cfg k evs t"
proof (induction inputs arbitrary: n events s)
  case (Cons i inputs)
  then obtain u where u: "log_step never cfg i s = Some u" "log_run never cfg inputs u = Some t"
    by (auto split: option.splits)
  from log_step_ok [OF Cons.prems(1) u(1)] obtain k evs where "logger_ok cfg k evs u" by blast
  then show ?case using Cons.IH u(2) by blast
qed auto

subsection \<open>What the files keep\<close>

lemma archive_length:
  "length (log_archive n (fst st) p @ buffered (snd st)) = (\<Sum>i \<le> n. length (log_content p st i))"
  by (induction n) (simp_all add: log_content_def)

text \<open>When bytes were dropped, the files still hold the limit once for every two of them.\<close>

lemma files_full_length:
  assumes full: "files_full cfg p st" and top: "fst st (indexed_log_path p (lc_max_files cfg)) \<noteq> None"
  shows "(lc_max_files cfg + 1) div 2 * lc_roll_size cfg \<le> length (log_archive (lc_max_files cfg) (fst st) p @ buffered (snd st))"
proof -
  let ?M = "lc_max_files cfg" and ?z = "\<lambda>i. length (log_content p st i)"
  have used: "fst st (indexed_log_path p (?M - k)) \<noteq> None" for k
  proof (induction k)
    case (Suc k)
    show ?case
    proof (cases "k < ?M")
      case True
      then have "Suc (?M - Suc k) = ?M - k" by simp
      then show ?thesis using full Suc True unfolding files_full_def by (metis Suc_diff_Suc diff_less_Suc less_Suc_eq_le le_imp_less_Suc lessI less_le_trans diff_le_self)
    next
      case False
      then show ?thesis using Suc by simp
    qed
  qed (use top in simp)
  have pair: "lc_roll_size cfg < ?z i + ?z (Suc i)" if "i < ?M" for i
    using full that used [of "?M - Suc i"] by (simp add: files_full_def)
  have "n \<le> ?M \<Longrightarrow> (n + 1) div 2 * lc_roll_size cfg \<le> (\<Sum>i \<le> n. ?z i)" for n
  proof (induction n rule: less_induct)
    case (less n)
    consider "n = 0" | "n = 1" | m where "n = Suc (Suc m)" by (metis One_nat_def not0_implies_Suc)
    then show ?case
    proof cases
      case 1
      then show ?thesis by simp
    next
      case 2
      then show ?thesis using pair [of 0] less.prems by simp
    next
      case 3
      then have "(m + 1) div 2 * lc_roll_size cfg \<le> (\<Sum>i \<le> m. ?z i)"
        using less.IH [of m] less.prems by simp
      moreover have "(n + 1) div 2 * lc_roll_size cfg = (m + 1) div 2 * lc_roll_size cfg + lc_roll_size cfg"
        by (simp add: 3)
      ultimately show ?thesis using pair [of "Suc m"] less.prems 3 by simp
    qed
  qed
  then show ?thesis unfolding archive_length by blast
qed


text \<open>A call of \<open>flush()\<close> waits for three steps of the writing thread when it is at its wait.\<close>

lemma flush_returns_soon:
  assumes "al_phase s = Log_waiting" and "al_flush_requested s" and "log_run rf cfg inputs s = Some t"
    and "inputs = [Log_worker a, Log_worker b, Log_worker c]"
  shows "flush_returns (al_flush_generation s) t"
proof -
  obtain u where u: "log_worker_take cfg a s = Some u"
      and phase: "al_phase u = Log_writing (al_pending s) True (al_flush_generation s)"
    using assms(1,2) by (auto simp: log_worker_take_def Let_def)
  then show ?thesis
    using assms by (auto simp: log_worker_step_def log_worker_write_def flush_returns_def)
qed

definition sample_log_config :: log_config where
  "sample_log_config = \<lparr>lc_roll_size = 4, lc_max_files = 1, lc_flush_interval = 1000\<rparr>"

definition sample_log_event :: "string \<Rightarrow> log_event" where
  "sample_log_event message = \<lparr>le_level = Level_info, le_directory = ''/tmp'', le_basename = ''a'', le_message = message\<rparr>"

definition sample_log_inputs :: "log_input list" where
  "sample_log_inputs = [Log_append 0 (sample_log_event ''ab\<newline>''), Log_append 0 (sample_log_event ''cd\<newline>''), Log_flush 0,
     Log_worker 1, Log_append 1 (sample_log_event ''ef\<newline>''), Log_worker 1, Log_worker 1]"

lemma sample_log_run:
  "\<exists>s. log_run never sample_log_config sample_log_inputs async_logger_new = Some s \<and>
     al_requests s = [(1, 2)] \<and> al_flushed_generation s = 1 \<and> length (al_log s) = 3"
  by (simp add: sample_log_inputs_def async_logger_new_def logger_append_def ensure_started_def logger_flush_def
      log_worker_step_def log_worker_take_def log_worker_write_def Let_def)


end
