(* ===== verification/Spec2Isabelle.thy ===== *)
theory Spec2Isabelle
  imports Netbuf Parser_Safety Ws_Messages Writer_Order Response_Roundtrip Client_Cache_Props Handshake_Laws Content_Type_Laws Streaming_Multipart_Equiv Http_Router_Laws Http_Server_Laws Tcp_Laws Ws_Server_Laws Upload_Writer_Laws Request_Roundtrip Client_Delivery Client_Streaming Ws_Client_Laws Event_Loop_Laws Socks5_Segments Logging_Flush
begin

text \<open>
  A verification development of oklib, a C++20 reactor library for HTTP and WebSocket.
\<close>

end
